(* ===== verification/Js_Prelude.thy ===== *)
theory Js_Prelude
  imports Main "HOL-Library.Sublist"
begin

text \<open>
  Shared vocabulary of the development: the model's names for JavaScript values (strings as lists of
  UTF-16 code units, inclusive range lists), the error monad in which every throwing function of the
  source is written, reads of arrays and strings that may be out of range, and the generic lemmas on
  lists and options that the components use.
\<close>

named_theorems re_ops \<open>unfolding rules of the per-instruction predicates\<close>
named_theorems err_simps \<open>rewriting rules of the error monad\<close>

type_synonym code_unit = nat
type_synonym js_string = "nat list"
type_synonym ranges = "(nat \<times> nat) list"

section \<open>The error monad\<close>

definition bindE :: "'e + 'a \<Rightarrow> ('a \<Rightarrow> 'e + 'b) \<Rightarrow> 'e + 'b" where
  "bindE m f = (case m of Inl e \<Rightarrow> Inl e | Inr x \<Rightarrow> f x)"

lemma bindE_Inr [simp, err_simps]: "bindE (Inr x) f = f x"
  by (simp add: bindE_def)

lemma bindE_Inl [simp, err_simps]: "bindE (Inl e) f = Inl e"
  by (simp add: bindE_def)

lemma bindE_eq_Inr [err_simps]: "bindE m f = Inr y \<longleftrightarrow> (\<exists>x. m = Inr x \<and> f x = Inr y)"
  by (cases m) auto

lemma bindE_eq_Inl: "bindE m f = Inl e \<longleftrightarrow> m = Inl e \<or> (\<exists>x. m = Inr x \<and> f x = Inl e)"
  by (cases m) auto

lemma bindE_InrE [elim]:
  assumes "bindE m f = Inr y"
  obtains x where "m = Inr x" "f x = Inr y"
  using assms by (auto simp: bindE_eq_Inr)

lemma bindE_assoc [err_simps]: "bindE (bindE m f) g = bindE m (\<lambda>x. bindE (f x) g)"
  by (cases m) auto

lemma bindE_cong [fundef_cong]:
  "\<lbrakk> m = m'; \<And>x. m' = Inr x \<Longrightarrow> f x = f' x \<rbrakk> \<Longrightarrow> bindE m f = bindE m' f'"
  by (cases m') auto

text \<open>A loop that runs a throwing body a fixed number of times.\<close>

primrec timesE :: "nat \<Rightarrow> ('a \<Rightarrow> 'e + 'a) \<Rightarrow> 'a \<Rightarrow> 'e + 'a" where
  "timesE 0 f x = Inr x"
| "timesE (Suc n) f x = bindE (f x) (timesE n f)"

text \<open>\<^verbatim>\<open>xs.map(f)\<close> for a throwing \<open>f\<close>, and \<^verbatim>\<open>xs.reduce(f)\<close> of a non-empty array.\<close>

primrec mapE :: "('a \<Rightarrow> 'e + 'b) \<Rightarrow> 'a list \<Rightarrow> 'e + 'b list" where
  "mapE f [] = Inr []"
| "mapE f (x # xs) = bindE (f x) (\<lambda>y. bindE (mapE f xs) (\<lambda>ys. Inr (y # ys)))"

definition reduce :: "('a \<Rightarrow> 'a \<Rightarrow> 'a) \<Rightarrow> 'a list \<Rightarrow> 'a" where
  "reduce f xs = foldl f (hd xs) (tl xs)"

lemma mapE_Inr: "mapE f xs = Inr ys \<longleftrightarrow> list_all2 (\<lambda>x y. f x = Inr y) xs ys"
  by (induction xs arbitrary: ys) (auto simp: bindE_eq_Inr list_all2_Cons1)

lemma mapE_length: "mapE f xs = Inr ys \<Longrightarrow> length ys = length xs"
  unfolding mapE_Inr by (rule list_all2_lengthD [symmetric])

lemma mapE_all: "mapE f xs = Inr ys \<Longrightarrow> (\<And>x y. x \<in> set xs \<Longrightarrow> f x = Inr y \<Longrightarrow> P y) \<Longrightarrow> list_all P ys"
  unfolding mapE_Inr by (induction rule: list_all2_induct) auto

lemma mapE_InlD: "mapE f xs = Inl e \<Longrightarrow> \<exists>x \<in> set xs. f x = Inl e"
  by (induction xs) (auto simp: bindE_eq_Inl)

lemma mapE_cong [fundef_cong]:
  "\<lbrakk> xs = ys; \<And>x. x \<in> set ys \<Longrightarrow> f x = g x \<rbrakk> \<Longrightarrow> mapE f xs = mapE g ys"
  by (induction ys arbitrary: xs) auto

section \<open>Out-of-range reads\<close>

text \<open>An array or string read that JavaScript answers with \<open>undefined\<close> or \<open>NaN\<close> is \<open>None\<close>.\<close>

definition nth_opt :: "'a list \<Rightarrow> nat \<Rightarrow> 'a option" where
  "nth_opt xs i = (if i < length xs then Some (xs ! i) else None)"

lemma nth_opt_eq_Some: "nth_opt xs i = Some x \<longleftrightarrow> i < length xs \<and> xs ! i = x"
  by (auto simp: nth_opt_def)

lemma nth_opt_eq_None: "nth_opt xs i = None \<longleftrightarrow> length xs \<le> i"
  by (auto simp: nth_opt_def)

lemmas nth_opt_iffs = nth_opt_eq_Some nth_opt_eq_None

lemma nth_opt_code [code]:
  "nth_opt [] i = None"
  "nth_opt (x # xs) i = (if i = 0 then Some x else nth_opt xs (i - 1))"
  by (auto simp: nth_opt_def nth_Cons')

lemma nth_opt_append:
  "nth_opt (xs @ ys) i = (if i < length xs then nth_opt xs i else nth_opt ys (i - length xs))"
  by (auto simp: nth_opt_def nth_append)

section \<open>Membership in a list of inclusive ranges\<close>

definition in_ranges :: "ranges \<Rightarrow> nat \<Rightarrow> bool" where
  "in_ranges rs c = list_ex (\<lambda>(lo, hi). lo \<le> c \<and> c \<le> hi) rs"

lemma in_ranges_Nil [simp]: "\<not> in_ranges [] c"
  by (simp add: in_ranges_def)

lemma in_ranges_Cons [simp]:
  "in_ranges ((lo, hi) # rs) c \<longleftrightarrow> lo \<le> c \<and> c \<le> hi \<or> in_ranges rs c"
  by (simp add: in_ranges_def)

lemma in_ranges_append [simp]: "in_ranges (rs @ ss) c \<longleftrightarrow> in_ranges rs c \<or> in_ranges ss c"
  by (simp add: in_ranges_def)

lemma in_ranges_iff: "in_ranges rs c \<longleftrightarrow> (\<exists>(lo, hi) \<in> set rs. lo \<le> c \<and> c \<le> hi)"
  by (simp add: in_ranges_def list_ex_iff)

lemma in_ranges_cong_set: "set rs = set ss \<Longrightarrow> in_ranges rs c = in_ranges ss c"
  by (simp add: in_ranges_iff)

lemma in_ranges_singletons [simp]: "in_ranges (map (\<lambda>u. (u, u)) us) c \<longleftrightarrow> c \<in> set us"
  by (induction us) auto

section \<open>The first answer of a prioritised list\<close>

text \<open>
  Backtracking asks alternatives in order and takes the first that answers; both matchers and the
  reference semantics are compared through this one function.
\<close>

primrec first_some :: "('a \<Rightarrow> 'b option) \<Rightarrow> 'a list \<Rightarrow> 'b option" where
  "first_some k [] = None"
| "first_some k (x # xs) = (case k x of Some y \<Rightarrow> Some y | None \<Rightarrow> first_some k xs)"

definition orelse :: "'a option \<Rightarrow> 'a option \<Rightarrow> 'a option" where
  "orelse a b = (case a of Some x \<Rightarrow> Some x | None \<Rightarrow> b)"

lemma orelse_simps [simp]:
  "orelse (Some x) b = Some x" "orelse None b = b" "orelse a None = a"
  by (auto simp: orelse_def split: option.splits)

lemma orelse_assoc: "orelse (orelse a b) c = orelse a (orelse b c)"
  by (cases a) auto

lemma orelse_eq_None [simp]: "orelse a b = None \<longleftrightarrow> a = None \<and> b = None"
  by (cases a) auto

lemma None_eq_orelse [simp]: "None = orelse a b \<longleftrightarrow> a = None \<and> b = None"
  by (cases a) auto

lemma first_some_Cons: "first_some k (x # xs) = orelse (k x) (first_some k xs)"
  by (simp add: orelse_def)

lemma first_some_single [simp]: "first_some k [x] = k x"
  by (simp split: option.splits)

lemma orelse_absorb: "a \<noteq> None \<Longrightarrow> orelse a b = a"
  by auto

lemma first_some_append [simp]:
  "first_some k (xs @ ys) = orelse (first_some k xs) (first_some k ys)"
  by (induction xs) (auto split: option.splits)

lemma first_some_concat:
  "first_some k (concat (map f xs)) = first_some (\<lambda>x. first_some k (f x)) xs"
  by (induction xs) (auto split: option.splits)

lemma first_some_map [simp]: "first_some k (map f xs) = first_some (\<lambda>x. k (f x)) xs"
  by (induction xs) (auto split: option.splits)

lemma first_some_cong [fundef_cong]:
  "\<lbrakk> xs = ys; \<And>x. x \<in> set ys \<Longrightarrow> k x = k' x \<rbrakk> \<Longrightarrow> first_some k xs = first_some k' ys"
  by (induction ys arbitrary: xs) (auto split: option.splits)

lemma first_some_None: "first_some k xs = None \<longleftrightarrow> (\<forall>x\<in>set xs. k x = None)"
  by (induction xs) (auto split: option.splits)

lemma first_some_Some_id: "first_some Some xs = (case xs of [] \<Rightarrow> None | x # _ \<Rightarrow> Some x)"
  by (cases xs) auto

section \<open>Lists\<close>

lemma take_list_update_less: "take m (xs[i := v]) = (take m xs)[i := v]" if "i < m"
  using that by (simp add: take_update_swap)

lemma take_list_update_ge: "take m (xs[i := v]) = take m xs" if "m \<le> i"
  using that by simp

lemma those_map_Some: "those (map f xs) = Some ys \<longleftrightarrow> list_all2 (\<lambda>x y. f x = Some y) xs ys"
proof (induction xs arbitrary: ys)
  case (Cons x xs)
  have "those (map f (x # xs)) = Some ys \<longleftrightarrow>
      (\<exists>y zs. f x = Some y \<and> those (map f xs) = Some zs \<and> ys = y # zs)"
    by (cases "f x") auto
  then show ?case by (auto simp: Cons.IH list_all2_Cons1)
qed auto

end
