(* ===== verification/Re_Bytecode.thy ===== *)
theory Re_Bytecode
  imports Js_Prelude
begin

text \<open>
  The bytecode of the standalone RegExp engine (\<^verbatim>\<open>src/codegen/regex/bytecode.ts\<close>): the opcodes
  with their stable numbers, the flat three-slot instruction stream, the compiled program record, the
  flag bits and the flags parser. An instruction fetch models the VM's \<^verbatim>\<open>prog[pc * 3 + k]\<close> reads.
\<close>

section \<open>Opcodes\<close>

datatype ReOp =
    OP_CHAR | OP_ANY | OP_CLASS | OP_SPLIT | OP_JMP | OP_SAVE | OP_MATCH | OP_BOL | OP_EOL | OP_CHARI | OP_WBOUND | OP_BACKREF
  | OP_LOOKAROUND | OP_PROGRESS | OP_CLEAR | OP_CPCLASS

fun op_code :: "ReOp \<Rightarrow> nat" where
  "op_code OP_CHAR = 0"
| "op_code OP_ANY = 1"
| "op_code OP_CLASS = 2"
| "op_code OP_SPLIT = 3"
| "op_code OP_JMP = 4"
| "op_code OP_SAVE = 5"
| "op_code OP_MATCH = 6"
| "op_code OP_BOL = 7"
| "op_code OP_EOL = 8"
| "op_code OP_CHARI = 9"
| "op_code OP_WBOUND = 10"
| "op_code OP_BACKREF = 11"
| "op_code OP_LOOKAROUND = 12"
| "op_code OP_PROGRESS = 13"
| "op_code OP_CLEAR = 14"
| "op_code OP_CPCLASS = 15"

definition all_ops :: "ReOp list" where
  "all_ops = [OP_CHAR, OP_ANY, OP_CLASS, OP_SPLIT, OP_JMP, OP_SAVE, OP_MATCH, OP_BOL, OP_EOL, OP_CHARI, OP_WBOUND, OP_BACKREF,
     OP_LOOKAROUND, OP_PROGRESS, OP_CLEAR, OP_CPCLASS]"

text \<open>The dispatch of a \<^verbatim>\<open>switch (op)\<close>: a number that is no opcode takes the default arm.\<close>

definition op_of :: "nat \<Rightarrow> ReOp option" where
  "op_of n = nth_opt all_ops n"

lemma op_of_op_code [simp]: "op_of (op_code x) = Some x"
  by (cases x) (simp_all add: op_of_def all_ops_def nth_opt_def)

lemma op_code_inject [simp]: "op_code x = op_code y \<longleftrightarrow> x = y"
  by (metis op_of_op_code option.inject)

type_synonym instr = "ReOp \<times> nat \<times> nat"

definition INSTR_WIDTH :: nat where
  "INSTR_WIDTH = 3"

text \<open>
  \<open>fetch prog pc\<close> reads the record at \<open>pc\<close>. Reads past the end are \<open>undefined\<close>, which no case
  of the VM's switch matches, like an unknown opcode; both are \<open>None\<close>.
\<close>

definition fetch :: "nat list \<Rightarrow> nat \<Rightarrow> instr option" where
  "fetch prog pc =
     (if pc * INSTR_WIDTH + 2 < length prog
      then map_option (\<lambda>x. (x, prog ! (pc * INSTR_WIDTH + 1), prog ! (pc * INSTR_WIDTH + 2)))
             (op_of (prog ! (pc * INSTR_WIDTH)))
      else None)"

text \<open>The flattening of instruction records into the number array.\<close>

definition flatten :: "instr list \<Rightarrow> nat list" where
  "flatten is = concat (map (\<lambda>(x, a, b). [op_code x, a, b]) is)"

lemma length_flatten [simp]: "length (flatten is) = 3 * length is"
  by (induction "is") (auto simp: flatten_def)

lemma flatten_nth:
  assumes "pc < length is"
  shows "flatten is ! (pc * 3) = op_code (fst (is ! pc))"
    and "flatten is ! (pc * 3 + 1) = fst (snd (is ! pc))"
    and "flatten is ! (pc * 3 + 2) = snd (snd (is ! pc))"
  using assms
proof (induction "is" arbitrary: pc)
  case (Cons i "is")
  {
    case 1 then show ?case using Cons.IH(1) by (cases pc) (auto simp: flatten_def split: prod.splits)
  next
    case 2 then show ?case using Cons.IH(2) by (cases pc) (auto simp: flatten_def split: prod.splits)
  next
    case 3 then show ?case using Cons.IH(3) by (cases pc) (auto simp: flatten_def split: prod.splits)
  }
qed simp_all

lemma fetch_flatten: "fetch (flatten is) pc = nth_opt is pc"
proof (cases "pc < length is")
  case True
  then have "pc * 3 + 2 < 3 * length is" by simp
  with True flatten_nth [OF True] show ?thesis
    by (simp add: fetch_def INSTR_WIDTH_def nth_opt_def)
next
  case False
  then have "\<not> pc * 3 + 2 < 3 * length is" by simp
  with False show ?thesis by (simp add: fetch_def INSTR_WIDTH_def nth_opt_def)
qed

section \<open>Compiled programs and flags\<close>

record compiled_regex =
  cr_prog :: "nat list"
  cr_classTable :: "nat list"
  cr_nGroups :: nat
  cr_nScratch :: nat
  cr_flags :: nat
  cr_groupNames :: "(js_string \<times> nat) list"

definition RE_FLAG_G :: nat where "RE_FLAG_G = 1"
definition RE_FLAG_I :: nat where "RE_FLAG_I = 2"
definition RE_FLAG_M :: nat where "RE_FLAG_M = 4"
definition RE_FLAG_S :: nat where "RE_FLAG_S = 8"
definition RE_FLAG_U :: nat where "RE_FLAG_U = 16"
definition RE_FLAG_Y :: nat where "RE_FLAG_Y = 32"
definition RE_FLAG_D :: nat where "RE_FLAG_D = 64"
definition RE_FLAG_V :: nat where "RE_FLAG_V = 128"

lemmas re_flag_defs = RE_FLAG_G_def RE_FLAG_I_def RE_FLAG_M_def RE_FLAG_S_def RE_FLAG_U_def
  RE_FLAG_Y_def RE_FLAG_D_def RE_FLAG_V_def

text \<open>\<open>has_flag bits f\<close> is the test \<^verbatim>\<open>(bits & f) !== 0\<close>.\<close>

unbundle bit_operations_syntax

definition has_flag :: "nat \<Rightarrow> nat \<Rightarrow> bool" where
  "has_flag bits f \<longleftrightarrow> bits AND f \<noteq> 0"

datatype regex_error =
    UnknownFlag char
  | DuplicateFlag char
  | RepeatTooLarge nat "nat option"
  | Unsupported string
  | StackOverflow          \<comment> \<open>the host's RangeError on runaway recursion\<close>
  | Diverges               \<comment> \<open>a loop that ran out of the model's fuel; shown never to happen\<close>

fun flag_bit :: "char \<Rightarrow> nat option" where
  "flag_bit ch =
     (if ch = CHR ''g'' then Some RE_FLAG_G
      else if ch = CHR ''i'' then Some RE_FLAG_I
      else if ch = CHR ''m'' then Some RE_FLAG_M
      else if ch = CHR ''s'' then Some RE_FLAG_S
      else if ch = CHR ''u'' then Some RE_FLAG_U
      else if ch = CHR ''y'' then Some RE_FLAG_Y
      else if ch = CHR ''d'' then Some RE_FLAG_D
      else if ch = CHR ''v'' then Some RE_FLAG_V
      else None)"

fun parseFlags_loop :: "nat \<Rightarrow> string \<Rightarrow> regex_error + nat" where
  "parseFlags_loop bits [] = Inr bits"
| "parseFlags_loop bits (ch # rest) =
     (case flag_bit ch of
        None \<Rightarrow> Inl (UnknownFlag ch)
      | Some b \<Rightarrow>
          (if has_flag bits b then Inl (DuplicateFlag ch)
           else parseFlags_loop (bits OR b) rest))"

definition parseFlags :: "string \<Rightarrow> regex_error + nat" where
  "parseFlags flags = parseFlags_loop 0 flags"

end
