(* ===== verification/Re_Match_Units.thy ===== *)
theory Re_Match_Units
  imports Re_Bytecode
begin

text \<open>
  The per-instruction predicates shared by both matchers
  (\<^verbatim>\<open>src/codegen/regex/match-units.ts\<close>): the binary search over a class table, ASCII folding,
  the single-unit consumers, the zero-width assertions and the forward reading of one code point.
\<close>

section \<open>Class tables\<close>

text \<open>
  The loop of \<^verbatim>\<open>classMatch\<close>: \<open>loIndex\<close> and \<open>hiIndex\<close> are the source's variables (\<open>hiIndex\<close>
  can be \<open>-1\<close>, so both are integers). A read past the end of the table is \<open>undefined\<close>, for which
  both comparisons are false, so the search stops with success there.
\<close>

function classMatch_loop :: "nat list \<Rightarrow> nat \<Rightarrow> nat \<Rightarrow> int \<Rightarrow> int \<Rightarrow> bool" where
  "classMatch_loop tbl offset c loIndex hiIndex =
     (if loIndex \<le> hiIndex then
        (let mid = loIndex + (hiIndex - loIndex) div 2;
             p = offset + 1 + 2 * nat mid in
         (case nth_opt tbl p of
            Some lo \<Rightarrow>
              (if c < lo then classMatch_loop tbl offset c loIndex (mid - 1)
               else (case nth_opt tbl (p + 1) of
                       Some hi \<Rightarrow>
                         (if hi < c then classMatch_loop tbl offset c (mid + 1) hiIndex else True)
                     | None \<Rightarrow> True))
          | None \<Rightarrow> True))
      else False)"
  by pat_completeness auto
termination
  by (relation "measure (\<lambda>(tbl, offset, c, lo, hi). nat (hi + 1 - lo))") auto

declare classMatch_loop.simps [simp del]

text \<open>An \<open>undefined\<close> range count makes the loop condition false at once.\<close>

definition classMatch :: "nat list \<Rightarrow> nat \<Rightarrow> nat \<Rightarrow> bool \<Rightarrow> bool" where
  "classMatch tbl offset c negated =
     (let inside = (case nth_opt tbl offset of
                      Some rangeCount \<Rightarrow> classMatch_loop tbl offset c 0 (int rangeCount - 1)
                    | None \<Rightarrow> False)
      in if negated then \<not> inside else inside)"

text \<open>What a class table entry is meant to hold: \<open>rs\<close> written at \<open>offset\<close>.\<close>

definition encode_class :: "ranges \<Rightarrow> nat list" where
  "encode_class rs = length rs # concat (map (\<lambda>(lo, hi). [lo, hi]) rs)"

definition class_at :: "nat list \<Rightarrow> nat \<Rightarrow> ranges \<Rightarrow> bool" where
  "class_at tbl offset rs \<longleftrightarrow> prefix (encode_class rs) (drop offset tbl)"

text \<open>Ranges that a binary search can use: each non-empty, strictly increasing, not overlapping.\<close>

fun disjoint_sorted :: "ranges \<Rightarrow> bool" where
  "disjoint_sorted [] = True"
| "disjoint_sorted [(lo, hi)] = (lo \<le> hi)"
| "disjoint_sorted ((lo, hi) # (lo', hi') # rs) =
     (lo \<le> hi \<and> hi < lo' \<and> disjoint_sorted ((lo', hi') # rs))"

section \<open>Code-unit predicates\<close>

definition asciiFold :: "nat \<Rightarrow> nat" where
  "asciiFold code = (if 0x41 \<le> code \<and> code \<le> 0x5a then code + 0x20 else code)"

definition isLineTerminator :: "nat \<Rightarrow> bool" where
  "isLineTerminator c \<longleftrightarrow> c = 0x0a \<or> c = 0x0d \<or> c = 0x2028 \<or> c = 0x2029"

definition isWordChar :: "nat \<Rightarrow> bool" where
  "isWordChar c \<longleftrightarrow>
     (0x30 \<le> c \<and> c \<le> 0x39) \<or> (0x41 \<le> c \<and> c \<le> 0x5a) \<or> c = 0x5f \<or> (0x61 \<le> c \<and> c \<le> 0x7a)"

text \<open>\<^verbatim>\<open>charCodeAt\<close> past the end is \<open>NaN\<close>, which satisfies none of the predicates.\<close>

definition charCodeAt :: "js_string \<Rightarrow> nat \<Rightarrow> nat option" where
  "charCodeAt s i = nth_opt s i"

definition unit_sat :: "(nat \<Rightarrow> bool) \<Rightarrow> nat option \<Rightarrow> bool" where
  "unit_sat p u = (case u of Some c \<Rightarrow> p c | None \<Rightarrow> False)"

lemma unit_sat_simps [simp]: "unit_sat p None = False" "unit_sat p (Some c) = p c"
  by (simp_all add: unit_sat_def)

fun unitMatches :: "ReOp \<Rightarrow> nat \<Rightarrow> nat \<Rightarrow> nat list \<Rightarrow> nat \<Rightarrow> bool" where
  "unitMatches OP_CHAR a b tbl c = (c = a)"
| "unitMatches OP_CHARI a b tbl c = (asciiFold c = a)"
| "unitMatches OP_ANY a b tbl c = (a \<noteq> 0 \<or> \<not> isLineTerminator c)"
| "unitMatches _ a b tbl c = classMatch tbl a c (b \<noteq> 0)"

fun assertionHolds :: "ReOp \<Rightarrow> nat \<Rightarrow> js_string \<Rightarrow> nat \<Rightarrow> bool" where
  "assertionHolds OP_BOL a input sp =
     (sp = 0 \<or> (a \<noteq> 0 \<and> unit_sat isLineTerminator (charCodeAt input (sp - 1))))"
| "assertionHolds OP_EOL a input sp =
     (sp = length input \<or> (a \<noteq> 0 \<and> unit_sat isLineTerminator (charCodeAt input sp)))"
| "assertionHolds _ a input sp =
     (let before = (if sp > 0 then unit_sat isWordChar (charCodeAt input (sp - 1)) else False);
          after = (if sp < length input then unit_sat isWordChar (charCodeAt input sp) else False);
          boundary = (before \<noteq> after)
      in if a \<noteq> 0 then \<not> boundary else boundary)"

text \<open>A string's units are 16-bit values.\<close>

definition valid_units :: "js_string \<Rightarrow> bool" where
  "valid_units input = list_all (\<lambda>u. u < 65536) input"

section \<open>Code points\<close>

definition is_lead :: "nat \<Rightarrow> bool" where
  "is_lead u \<longleftrightarrow> 0xd800 \<le> u \<and> u \<le> 0xdbff"

definition is_trail :: "nat \<Rightarrow> bool" where
  "is_trail u \<longleftrightarrow> 0xdc00 \<le> u \<and> u \<le> 0xdfff"

definition pair_code_point :: "nat \<Rightarrow> nat \<Rightarrow> nat" where
  "pair_code_point lead trail = 0x10000 + (lead - 0xd800) * 1024 + (trail - 0xdc00)"

text \<open>
  \<open>forwardCodePoint input sp\<close> for \<open>sp < length input\<close>; the source's \<open>-1\<close> (the trail half of a
  pair) is \<open>None\<close>.
\<close>

definition forwardCodePoint :: "js_string \<Rightarrow> nat \<Rightarrow> nat option" where
  "forwardCodePoint input sp =
     (let u = input ! sp in
      if is_lead u \<and> sp + 1 < length input then
        (let trail = input ! (sp + 1) in
         if is_trail trail then Some (pair_code_point u trail) else Some u)
      else if is_trail u \<and> sp > 0 \<and> is_lead (input ! (sp - 1)) then None
      else Some u)"

lemmas unit_defs = asciiFold_def isLineTerminator_def isWordChar_def is_lead_def is_trail_def

section \<open>The binary search decides membership\<close>

lemma encode_class_length [simp]: "length (encode_class rs) = 1 + 2 * length rs"
  by (induction rs) (auto simp: encode_class_def)

lemma encode_class_nth:
  assumes "k < length rs"
  shows "encode_class rs ! (1 + 2 * k) = fst (rs ! k) \<and> encode_class rs ! (2 + 2 * k) = snd (rs ! k)"
proof -
  have "concat (map (\<lambda>(lo, hi). [lo, hi]) rs) ! (2 * k) = fst (rs ! k) \<and>
        concat (map (\<lambda>(lo, hi). [lo, hi]) rs) ! (1 + 2 * k) = snd (rs ! k)"
    using assms
  proof (induction rs arbitrary: k)
    case (Cons r rs)
    then show ?case by (cases k) (auto split: prod.splits)
  qed simp
  then show ?thesis by (simp add: encode_class_def)
qed

lemma class_at_nth:
  assumes "class_at tbl offset rs" "i < 1 + 2 * length rs"
  shows "offset + i < length tbl \<and> tbl ! (offset + i) = encode_class rs ! i"
proof -
  from assms(1) obtain ys where ys: "drop offset tbl = encode_class rs @ ys"
    by (auto simp: class_at_def prefix_def)
  then have "length tbl - offset \<ge> 1 + 2 * length rs"
    by (metis encode_class_length le_add1 length_append length_drop)
  with assms(2) have lt: "offset + i < length tbl" by linarith
  have "tbl ! (offset + i) = drop offset tbl ! i" using lt by simp
  also have "\<dots> = encode_class rs ! i" using assms(2) by (simp add: ys nth_append)
  finally show ?thesis using lt by simp
qed

lemma class_at_ranges:
  assumes "class_at tbl offset rs" "k < length rs"
  shows "nth_opt tbl (offset + 1 + 2 * k) = Some (fst (rs ! k))"
    and "nth_opt tbl (offset + 1 + 2 * k + 1) = Some (snd (rs ! k))"
  using class_at_nth [OF assms(1), of "1 + 2 * k"] class_at_nth [OF assms(1), of "2 + 2 * k"]
    encode_class_nth [OF assms(2)] assms(2)
  by (auto simp: algebra_simps nth_opt_iffs)

lemma class_at_count: "class_at tbl offset rs \<Longrightarrow> nth_opt tbl offset = Some (length rs)"
  using class_at_nth [of tbl offset rs 0] by (simp add: encode_class_def nth_opt_iffs)

lemma disjoint_sorted_Cons:
  "disjoint_sorted ((lo, hi) # rs) \<longleftrightarrow>
     lo \<le> hi \<and> disjoint_sorted rs \<and> (\<forall>(lo', hi') \<in> set rs. hi < lo')"
proof (induction rs arbitrary: lo hi)
  case (Cons r rs)
  obtain l h where r: "r = (l, h)" by (cases r)
  show ?case using Cons.IH [of l h] by (auto simp: r)
qed simp

lemma disjoint_sorted_nth:
  "disjoint_sorted rs \<Longrightarrow> k < length rs \<Longrightarrow> fst (rs ! k) \<le> snd (rs ! k)"
proof (induction rs arbitrary: k)
  case (Cons r rs)
  obtain lo hi where "r = (lo, hi)" by (cases r)
  with Cons show ?case by (cases k) (auto simp: disjoint_sorted_Cons)
qed simp

lemma disjoint_sorted_mono:
  "disjoint_sorted rs \<Longrightarrow> j < k \<Longrightarrow> k < length rs \<Longrightarrow> snd (rs ! j) < fst (rs ! k)"
proof (induction rs arbitrary: j k)
  case (Cons r rs)
  obtain lo hi where r: "r = (lo, hi)" by (cases r)
  from Cons.prems(2) obtain k' where k: "k = Suc k'" by (cases k) auto
  show ?case
  proof (cases j)
    case 0
    have "rs ! k' \<in> set rs" using Cons.prems(3) k by simp
    then show ?thesis using Cons.prems(1) by (auto simp: r k 0 disjoint_sorted_Cons)
  next
    case (Suc j')
    then show ?thesis using Cons by (auto simp: r k disjoint_sorted_Cons)
  qed
qed simp

text \<open>
  The invariant of the search: the index of any range that holds \<open>c\<close> lies between the two bounds.
\<close>

lemma classMatch_loop_correct:
  assumes at: "class_at tbl offset rs" and ds: "disjoint_sorted rs"
    and "0 \<le> lo" "hi < int (length rs)"
  shows "classMatch_loop tbl offset c lo hi \<longleftrightarrow>
     (\<exists>k. lo \<le> int k \<and> int k \<le> hi \<and> fst (rs ! k) \<le> c \<and> c \<le> snd (rs ! k))"
  using assms(3,4)
proof (induction "nat (hi + 1 - lo)" arbitrary: lo hi rule: less_induct)
  case less
  show ?case
  proof (cases "lo \<le> hi")
    case False
    then show ?thesis by (subst classMatch_loop.simps) auto
  next
    case True
    define mid where "mid = lo + (hi - lo) div 2"
    have mid: "lo \<le> mid" "mid \<le> hi" using True by (auto simp: mid_def)
    define m where "m = nat mid"
    have m: "m < length rs" "int m = mid" using mid less.prems by (auto simp: m_def)
    note rd = class_at_ranges [OF at m(1)]
    have unf: "classMatch_loop tbl offset c lo hi =
        (if c < fst (rs ! m) then classMatch_loop tbl offset c lo (mid - 1)
         else if snd (rs ! m) < c then classMatch_loop tbl offset c (mid + 1) hi else True)"
      using True rd
      unfolding classMatch_loop.simps [of tbl offset c lo hi] Let_def mid_def [symmetric]
      by (simp add: m_def [symmetric])
    consider "c < fst (rs ! m)" | "snd (rs ! m) < c" "\<not> c < fst (rs ! m)"
      | "fst (rs ! m) \<le> c" "c \<le> snd (rs ! m)" by linarith
    then show ?thesis
    proof cases
      case 1
      have no: "\<not> (fst (rs ! k) \<le> c)" if "mid \<le> int k" "int k \<le> hi" for k
      proof -
        have "m = k \<or> m < k" using that m by auto
        moreover have "k < length rs" using that less.prems by linarith
        ultimately have "fst (rs ! m) \<le> fst (rs ! k)"
          using disjoint_sorted_mono [OF ds] disjoint_sorted_nth [OF ds m(1)]
          by (metis le_trans less_imp_le order_refl)
        then show ?thesis using 1 by linarith
      qed
      have "classMatch_loop tbl offset c lo (mid - 1) \<longleftrightarrow>
         (\<exists>k. lo \<le> int k \<and> int k \<le> mid - 1 \<and> fst (rs ! k) \<le> c \<and> c \<le> snd (rs ! k))"
        using mid less.prems by (intro less.hyps) auto
      moreover have "(lo \<le> int k \<and> int k \<le> mid - 1 \<and> fst (rs ! k) \<le> c \<and> c \<le> snd (rs ! k)) =
          (lo \<le> int k \<and> int k \<le> hi \<and> fst (rs ! k) \<le> c \<and> c \<le> snd (rs ! k))" for k
        using no [of k] mid by (cases "mid \<le> int k") auto
      ultimately show ?thesis by (simp add: unf 1)
    next
      case 2
      have no: "\<not> (c \<le> snd (rs ! k))" if "lo \<le> int k" "int k \<le> mid" for k
      proof -
        have "k = m \<or> k < m" using that m by auto
        then have "snd (rs ! k) \<le> snd (rs ! m)"
          using disjoint_sorted_mono [OF ds _ m(1)] disjoint_sorted_nth [OF ds m(1)]
          by (metis le_trans less_imp_le order_refl)
        then show ?thesis using 2 by linarith
      qed
      have "classMatch_loop tbl offset c (mid + 1) hi \<longleftrightarrow>
         (\<exists>k. mid + 1 \<le> int k \<and> int k \<le> hi \<and> fst (rs ! k) \<le> c \<and> c \<le> snd (rs ! k))"
        using mid less.prems by (intro less.hyps) auto
      moreover have "(mid + 1 \<le> int k \<and> int k \<le> hi \<and> fst (rs ! k) \<le> c \<and> c \<le> snd (rs ! k)) =
          (lo \<le> int k \<and> int k \<le> hi \<and> fst (rs ! k) \<le> c \<and> c \<le> snd (rs ! k))" for k
        using no [of k] mid by (cases "int k \<le> mid") auto
      ultimately show ?thesis using 2 by (simp add: unf)
    next
      case 3
      then show ?thesis using m mid by (auto simp: unf intro!: exI [of _ m])
    qed
  qed
qed

lemma in_ranges_nth:
  "in_ranges rs c \<longleftrightarrow> (\<exists>k < length rs. fst (rs ! k) \<le> c \<and> c \<le> snd (rs ! k))"
  by (simp add: in_ranges_def list_ex_length case_prod_beta)

lemma classMatch_correct:
  assumes "class_at tbl offset rs" "disjoint_sorted rs"
  shows "classMatch tbl offset c negated \<longleftrightarrow> (if negated then \<not> in_ranges rs c else in_ranges rs c)"
proof -
  have "classMatch_loop tbl offset c 0 (int (length rs) - 1) = in_ranges rs c"
    by (subst classMatch_loop_correct [OF assms]) (auto simp: in_ranges_nth)
  then show ?thesis by (simp add: classMatch_def class_at_count [OF assms(1)] Let_def)
qed

end
