(* ===== verification/Re_Casefold.thy ===== *)
theory Re_Casefold
  imports Re_Match_Units "HOL-Library.Product_Lexorder"
begin

text \<open>
  Range normalisation and legacy case folding (\<^verbatim>\<open>src/codegen/regex/casefold.ts\<close>), and the class
  normalisation of the emitter (\<^verbatim>\<open>addClass\<close> in \<^verbatim>\<open>compile.ts\<close>). The host's
  \<^verbatim>\<open>toUpperCase\<close> on a one-unit string is the parameter \<open>upper\<close>: it answers the code units of the
  uppercase string.
\<close>

section \<open>Sorting and merging ranges\<close>

text \<open>One iteration of the merge loops: extend the last range or push a new one.\<close>

definition merge_range :: "ranges \<Rightarrow> nat \<times> nat \<Rightarrow> ranges" where
  "merge_range out r =
     (if out \<noteq> [] \<and> fst r \<le> snd (last out) + 1
      then butlast out @ [(fst (last out), max (snd (last out)) (snd r))]
      else out @ [r])"

definition merge_ranges :: "ranges \<Rightarrow> ranges" where
  "merge_ranges rs = foldl merge_range [] rs"

definition ordered :: "ranges \<Rightarrow> bool" where
  "ordered rs = list_all (\<lambda>(lo, hi). lo \<le> hi) rs"

text \<open>The canonicalisation in \<^verbatim>\<open>addClass\<close> and the \<^verbatim>\<open>coalesce\<close> of case folding.\<close>

definition normalizeRanges :: "ranges \<Rightarrow> ranges" where
  "normalizeRanges rs = merge_ranges (sort rs)"

definition coalesce :: "ranges \<Rightarrow> ranges" where
  "coalesce rs = merge_ranges (sort (filter (\<lambda>(a, b). a \<le> b) rs))"

definition unitsToRanges :: "nat list \<Rightarrow> ranges" where
  "unitsToRanges units = coalesce (map (\<lambda>u. (u, u)) units)"

section \<open>Legacy canonicalisation\<close>

definition canonicalizeLegacy :: "(nat \<Rightarrow> nat list) \<Rightarrow> nat \<Rightarrow> nat" where
  "canonicalizeLegacy upper ch =
     (case upper ch of
        [cu] \<Rightarrow> (if 128 \<le> ch \<and> cu < 128 then ch else cu)
      | _ \<Rightarrow> ch)"

text \<open>
  \<open>ensureBuilt\<close>: the units grouped by canonical form. The group map keeps insertion order and is an
  association list.
\<close>

definition byCanon_add :: "(nat \<Rightarrow> nat list) \<Rightarrow> nat \<Rightarrow> (nat \<times> nat list) list \<Rightarrow> (nat \<times> nat list) list"
where
  "byCanon_add upper ch m =
     (let c = canonicalizeLegacy upper ch in
      case map_of m c of
        None \<Rightarrow> m @ [(c, [ch])]
      | Some arr \<Rightarrow> map (\<lambda>(k, v). if k = c then (k, v @ [ch]) else (k, v)) m)"

definition bmp_units :: "nat list" where
  "bmp_units = [0..<0x10000]"

declare bmp_units_def [code_unfold]

lemma set_bmp_units [simp]: "u \<in> set bmp_units \<longleftrightarrow> u < 0x10000"
  by (simp only: bmp_units_def set_upt atLeastLessThan_iff zero_le simp_thms)

definition byCanon :: "(nat \<Rightarrow> nat list) \<Rightarrow> (nat \<times> nat list) list" where
  "byCanon upper = fold (byCanon_add upper) bmp_units []"

definition equivGroups :: "(nat \<Rightarrow> nat list) \<Rightarrow> nat list list" where
  "equivGroups upper = filter (\<lambda>arr. 1 < length arr) (map snd (byCanon upper))"

definition equivMap :: "(nat \<Rightarrow> nat list) \<Rightarrow> nat \<Rightarrow> nat list option" where
  "equivMap upper = map_of (rev (concat (map (\<lambda>arr. map (\<lambda>u. (u, arr)) arr) (equivGroups upper))))"

definition casedUnits :: "(nat \<Rightarrow> nat list) \<Rightarrow> nat list" where
  "casedUnits upper = sort (concat (equivGroups upper))"

definition foldCharUnitsLegacy :: "(nat \<Rightarrow> nat list) \<Rightarrow> nat \<Rightarrow> nat list" where
  "foldCharUnitsLegacy upper code = (case equivMap upper code of Some eq \<Rightarrow> eq | None \<Rightarrow> [code])"

definition foldClassRangesLegacy :: "(nat \<Rightarrow> nat list) \<Rightarrow> ranges \<Rightarrow> ranges" where
  "foldClassRangesLegacy upper rs =
     (let extra = concat (map (\<lambda>u. if in_ranges rs u
                                   then map (\<lambda>p. (p, p)) (the (equivMap upper u)) else [])
                          (casedUnits upper))
      in coalesce (rs @ extra))"

text \<open>The ASCII folding of class ranges that u/v mode uses (\<^verbatim>\<open>compile.ts\<close>).\<close>

definition foldRangeAscii :: "nat \<times> nat \<Rightarrow> ranges" where
  "foldRangeAscii r =
     (let lo = fst r; hi = snd r; uLo = max lo 0x41; uHi = min hi 0x5a; lLo = max lo 0x61; lHi = min hi 0x7a
      in [(lo, hi)] @ (if uLo \<le> uHi then [(uLo + 0x20, uHi + 0x20)] else [])
         @ (if lLo \<le> lHi then [(lLo - 0x20, lHi - 0x20)] else []))"

definition foldClassRangesAscii :: "ranges \<Rightarrow> ranges" where
  "foldClassRangesAscii rs = concat (map foldRangeAscii rs)"

section \<open>Merging keeps membership and gives searchable ranges\<close>

lemma disjoint_sorted_snoc:
  "disjoint_sorted (rs @ [(lo, hi)]) \<longleftrightarrow>
     disjoint_sorted rs \<and> lo \<le> hi \<and> (rs \<noteq> [] \<longrightarrow> snd (last rs) < lo)"
proof (induction rs)
  case (Cons r rs)
  obtain l h where r: "r = (l, h)" by (cases r)
  show ?case
  proof (cases rs)
    case Nil
    then show ?thesis by (auto simp: r)
  next
    case (Cons r' rs')
    obtain l' h' where "r' = (l', h')" by (cases r')
    with Cons Cons.IH show ?thesis by (auto simp: r)
  qed
qed simp

lemma disjoint_sorted_last:
  "disjoint_sorted rs \<Longrightarrow> rs \<noteq> [] \<Longrightarrow>
   disjoint_sorted (butlast rs @ [(fst (last rs), max (snd (last rs)) hi)])"
proof -
  assume a: "disjoint_sorted rs" "rs \<noteq> []"
  obtain l h where lh: "last rs = (l, h)" by (cases "last rs")
  with a(2) have "rs = butlast rs @ [(l, h)]" by (metis append_butlast_last_id)
  with a(1) have "disjoint_sorted (butlast rs @ [(l, h)])" by simp
  then show ?thesis by (auto simp: disjoint_sorted_snoc lh)
qed

lemma merge_range_invariant:
  assumes ds: "disjoint_sorted out" and r: "lo \<le> hi" and le: "out \<noteq> [] \<Longrightarrow> fst (last out) \<le> lo"
  shows "disjoint_sorted (merge_range out (lo, hi))"
    and "in_ranges (merge_range out (lo, hi)) c \<longleftrightarrow> in_ranges out c \<or> lo \<le> c \<and> c \<le> hi"
    and "merge_range out (lo, hi) \<noteq> []" "fst (last (merge_range out (lo, hi))) \<le> lo"
proof -
  show "disjoint_sorted (merge_range out (lo, hi))"
    using ds r disjoint_sorted_last [OF ds] by (auto simp: merge_range_def disjoint_sorted_snoc)
  show "merge_range out (lo, hi) \<noteq> []" "fst (last (merge_range out (lo, hi))) \<le> lo"
    using le by (auto simp: merge_range_def)
  show "in_ranges (merge_range out (lo, hi)) c \<longleftrightarrow> in_ranges out c \<or> lo \<le> c \<and> c \<le> hi"
  proof (cases "out \<noteq> [] \<and> lo \<le> snd (last out) + 1")
    case True
    obtain l h where lh: "last out = (l, h)" by (cases "last out")
    with True have out: "out = butlast out @ [(l, h)]" by (metis append_butlast_last_id)
    with ds have "disjoint_sorted (butlast out @ [(l, h)])" by simp
    then have "l \<le> h" by (simp add: disjoint_sorted_snoc)
    moreover have "in_ranges out c \<longleftrightarrow> in_ranges (butlast out) c \<or> l \<le> c \<and> c \<le> h"
      by (subst (1) out) simp
    ultimately show ?thesis using True le r by (auto simp: merge_range_def lh)
  next
    case False
    then show ?thesis by (auto simp: merge_range_def)
  qed
qed

lemma foldl_merge_range:
  assumes "disjoint_sorted out" "sorted rs" "ordered rs"
    and "\<And>r. r \<in> set rs \<Longrightarrow> out \<noteq> [] \<Longrightarrow> fst (last out) \<le> fst r"
  shows "disjoint_sorted (foldl merge_range out rs) \<and>
    (in_ranges (foldl merge_range out rs) c \<longleftrightarrow> in_ranges out c \<or> in_ranges rs c)"
  using assms
proof (induction rs arbitrary: out)
  case (Cons r rs)
  obtain lo hi where r: "r = (lo, hi)" by (cases r)
  have lh: "lo \<le> hi" using Cons.prems(3) by (simp add: ordered_def r)
  have le: "out \<noteq> [] \<Longrightarrow> fst (last out) \<le> lo" using Cons.prems(4) r by fastforce
  note inv = merge_range_invariant [OF Cons.prems(1) lh le]
  have "lo \<le> fst r'" if "r' \<in> set rs" for r'
    using Cons.prems(2) that r by (auto simp: less_eq_prod_def)
  then have "disjoint_sorted (foldl merge_range (merge_range out (lo, hi)) rs) \<and>
    (in_ranges (foldl merge_range (merge_range out (lo, hi)) rs) c \<longleftrightarrow>
       in_ranges (merge_range out (lo, hi)) c \<or> in_ranges rs c)"
    using Cons.prems inv by (intro Cons.IH) (auto simp: ordered_def intro: le_trans)
  then show ?case using inv(2) by (auto simp: r)
qed simp

lemma merge_ranges_correct:
  assumes "sorted rs" "ordered rs"
  shows "disjoint_sorted (merge_ranges rs)" "in_ranges (merge_ranges rs) c \<longleftrightarrow> in_ranges rs c"
  using foldl_merge_range [of "[]" rs c] assms by (auto simp: merge_ranges_def)

lemma ordered_iff: "ordered rs \<longleftrightarrow> (\<forall>(lo, hi) \<in> set rs. lo \<le> hi)"
  by (simp add: ordered_def list_all_iff)

lemma ordered_sort [simp]: "ordered (sort rs) = ordered rs"
  by (simp add: ordered_iff)

lemma ordered_append [simp]: "ordered (rs @ ss) \<longleftrightarrow> ordered rs \<and> ordered ss"
  by (simp add: ordered_def)

lemma ordered_singletons [simp]: "ordered (map (\<lambda>u. (u, u)) us)"
  by (simp add: ordered_def list_all_iff)

lemma in_ranges_sort [simp]: "in_ranges (sort rs) c = in_ranges rs c"
  by (rule in_ranges_cong_set) simp

section \<open>The interface the class tables rely on\<close>

text \<open>
  What a class table needs from a normalisation: on ordered ranges it keeps membership and leaves
  ranges that the binary search can use. Both normalisations of the source provide it.
\<close>

locale range_normaliser =
  fixes norm :: "ranges \<Rightarrow> ranges"
  assumes norm_member: "ordered rs \<Longrightarrow> in_ranges (norm rs) c = in_ranges rs c"
    and norm_searchable: "ordered rs \<Longrightarrow> disjoint_sorted (norm rs)"
begin

lemma lookup:
  assumes "class_at tbl off (norm rs)" "ordered rs"
  shows "classMatch tbl off c negated = (in_ranges rs c \<noteq> negated)"
  using classMatch_correct [OF assms(1) norm_searchable [OF assms(2)]] norm_member [OF assms(2)]
  by simp

lemma idempotent_member: "ordered rs \<Longrightarrow> ordered (norm rs) \<Longrightarrow> in_ranges (norm (norm rs)) c = in_ranges rs c"
  by (simp add: norm_member)

end

interpretation add_class: range_normaliser normalizeRanges
  by unfold_locales (simp_all add: normalizeRanges_def merge_ranges_correct)

interpretation fold_class: range_normaliser coalesce
proof unfold_locales
  fix rs :: ranges and c
  assume ord: "ordered rs"
  then have "filter (\<lambda>(a, b). a \<le> b) rs = rs"
    by (auto simp: ordered_iff filter_id_conv)
  then show "in_ranges (coalesce rs) c = in_ranges rs c" "disjoint_sorted (coalesce rs)"
    using ord by (simp_all add: coalesce_def merge_ranges_correct)
qed

lemma disjoint_sorted_ordered: "disjoint_sorted rs \<Longrightarrow> ordered rs"
proof (induction rs)
  case (Cons r rs)
  then show ?case by (cases r) (auto simp: disjoint_sorted_Cons ordered_def)
qed (simp add: ordered_def)

section \<open>The equivalence classes of legacy canonicalisation\<close>

definition canon_group :: "(nat \<Rightarrow> nat list) \<Rightarrow> nat list \<Rightarrow> nat \<Rightarrow> nat list" where
  "canon_group upper xs c = filter (\<lambda>ch. canonicalizeLegacy upper ch = c) xs"

text \<open>The group map after any prefix of the scan.\<close>

definition groups_ok :: "(nat \<Rightarrow> nat list) \<Rightarrow> nat list \<Rightarrow> (nat \<times> nat list) list \<Rightarrow> bool" where
  "groups_ok upper xs m \<longleftrightarrow> distinct (map fst m) \<and>
     (\<forall>c. map_of m c = (if canon_group upper xs c = [] then None else Some (canon_group upper xs c)))"

lemma map_of_upd_values:
  "map_of (map (\<lambda>(k, v). if k = c then (k, f v) else (k, v)) m) x =
     (if x = c then map_option f (map_of m c) else map_of m x)"
  by (induction m) auto

lemma byCanon_add_ok:
  assumes "groups_ok upper xs m"
  shows "groups_ok upper (xs @ [ch]) (byCanon_add upper ch m)"
proof -
  let ?c = "canonicalizeLegacy upper ch"
  have fsts: "map fst (map (\<lambda>(k, v). if k = ?c then (k, v @ [ch]) else (k, v)) m) = map fst m"
    by (induction m) auto
  show ?thesis
  proof (cases "map_of m ?c")
    case None
    then have "?c \<notin> set (map fst m)" by (metis map_of_eq_None_iff image_set)
    then show ?thesis
      using assms None
      by (auto simp: groups_ok_def byCanon_add_def canon_group_def map_add_def split: option.splits if_splits)
  next
    case (Some arr)
    then have add: "byCanon_add upper ch m = map (\<lambda>(k, v). if k = ?c then (k, v @ [ch]) else (k, v)) m"
      by (simp add: byCanon_add_def)
    have "distinct (map fst (byCanon_add upper ch m))"
      using assms unfolding add fsts by (simp add: groups_ok_def)
    moreover have "map_of (byCanon_add upper ch m) c =
        (if canon_group upper (xs @ [ch]) c = [] then None else Some (canon_group upper (xs @ [ch]) c))" for c
      using assms Some unfolding add map_of_upd_values
      by (auto simp: groups_ok_def canon_group_def split: if_splits)
    ultimately show ?thesis by (simp add: groups_ok_def)
  qed
qed

lemma byCanon_fold_ok:
  "groups_ok upper ys m \<Longrightarrow> groups_ok upper (ys @ xs) (fold (byCanon_add upper) xs m)"
proof (induction xs arbitrary: ys m)
  case (Cons x xs)
  then show ?case using byCanon_add_ok [OF Cons.prems, of x] Cons.IH [of "ys @ [x]"] by simp
qed simp

lemma byCanon_ok: "groups_ok upper bmp_units (byCanon upper)"
  using byCanon_fold_ok [of upper "[]" "[]" "bmp_units"]
  by (simp add: byCanon_def groups_ok_def canon_group_def)

text \<open>The units that share their canonical form with \<open>u\<close>.\<close>

definition case_class :: "(nat \<Rightarrow> nat list) \<Rightarrow> nat \<Rightarrow> nat list" where
  "case_class upper u = canon_group upper bmp_units (canonicalizeLegacy upper u)"

lemma mem_case_class:
  "c \<in> set (case_class upper u) \<longleftrightarrow>
     c < 0x10000 \<and> canonicalizeLegacy upper c = canonicalizeLegacy upper u"
  by (auto simp: case_class_def canon_group_def)

lemma byCanon_entries:
  "(k, arr) \<in> set (byCanon upper) \<longleftrightarrow> arr = canon_group upper bmp_units k \<and> arr \<noteq> []"
proof -
  have "distinct (map fst (byCanon upper))" using byCanon_ok [of upper] by (simp add: groups_ok_def)
  then have "(k, arr) \<in> set (byCanon upper) \<longleftrightarrow> map_of (byCanon upper) k = Some arr" by simp
  also have "\<dots> \<longleftrightarrow> arr = canon_group upper bmp_units k \<and> arr \<noteq> []"
    using byCanon_ok [of upper] by (auto simp: groups_ok_def simp del: map_of_eq_Some_iff)
  finally show ?thesis .
qed

lemma mem_equivGroups:
  "arr \<in> set (equivGroups upper) \<longleftrightarrow>
     (\<exists>u < 0x10000. arr = case_class upper u \<and> 1 < length arr)"
proof
  assume "arr \<in> set (equivGroups upper)"
  then obtain k where k: "(k, arr) \<in> set (byCanon upper)" and len: "1 < length arr"
    by (auto simp: equivGroups_def)
  then have arr: "arr = canon_group upper bmp_units k" by (simp add: byCanon_entries)
  from len have "arr \<noteq> []" by auto
  then obtain u where "u \<in> set arr" by (meson list.set_sel(1))
  with arr have "u < 0x10000" "canonicalizeLegacy upper u = k" by (auto simp: canon_group_def)
  with arr len show "\<exists>u < 0x10000. arr = case_class upper u \<and> 1 < length arr"
    by (auto simp: case_class_def)
next
  assume "\<exists>u < 0x10000. arr = case_class upper u \<and> 1 < length arr"
  then obtain u where "arr = case_class upper u" "1 < length arr" by blast
  then have "(canonicalizeLegacy upper u, arr) \<in> set (byCanon upper)"
    by (auto simp: byCanon_entries case_class_def)
  with \<open>1 < length arr\<close> show "arr \<in> set (equivGroups upper)"
    by (force simp: equivGroups_def)
qed

lemma equivMap_eq:
  assumes "u < 0x10000"
  shows "equivMap upper u =
    (if 1 < length (case_class upper u) then Some (case_class upper u) else None)"
proof -
  let ?al = "rev (concat (map (\<lambda>arr. map (\<lambda>u. (u, arr)) arr) (equivGroups upper)))"
  have entries: "(u, arr) \<in> set ?al \<longleftrightarrow> arr = case_class upper u \<and> 1 < length arr" for arr
  proof
    assume "(u, arr) \<in> set ?al"
    then have "arr \<in> set (equivGroups upper)" "u \<in> set arr" by auto
    then obtain w where "arr = case_class upper w" "1 < length arr" "u \<in> set (case_class upper w)"
      by (auto simp: mem_equivGroups)
    moreover from this have "canonicalizeLegacy upper u = canonicalizeLegacy upper w"
      by (simp add: mem_case_class)
    then have "case_class upper w = case_class upper u" by (simp add: case_class_def)
    ultimately show "arr = case_class upper u \<and> 1 < length arr" by simp
  next
    assume "arr = case_class upper u \<and> 1 < length arr"
    then show "(u, arr) \<in> set ?al"
      using assms mem_case_class [of u upper u] by (force simp: mem_equivGroups)
  qed
  show ?thesis
  proof (cases "map_of ?al u")
    case None
    then have "\<forall>arr. (u, arr) \<notin> set ?al" by (metis weak_map_of_SomeI option.distinct(1))
    with None entries show ?thesis by (auto simp: equivMap_def)
  next
    case (Some arr)
    then have "arr = case_class upper u \<and> 1 < length arr" using map_of_SomeD [OF Some] entries by blast
    with Some show ?thesis by (auto simp: equivMap_def)
  qed
qed

lemma case_class_eq: "w \<in> set (case_class upper u) \<Longrightarrow> case_class upper w = case_class upper u"
  unfolding mem_case_class by (simp add: case_class_def)

lemma mem_casedUnits:
  "u \<in> set (casedUnits upper) \<longleftrightarrow> u < 0x10000 \<and> 1 < length (case_class upper u)"
proof -
  have "u \<in> set (casedUnits upper) \<longleftrightarrow> (\<exists>arr \<in> set (equivGroups upper). u \<in> set arr)"
    by (auto simp: casedUnits_def)
  also have "\<dots> \<longleftrightarrow> u < 0x10000 \<and> 1 < length (case_class upper u)"
  proof
    assume "\<exists>arr \<in> set (equivGroups upper). u \<in> set arr"
    then obtain w where w: "u \<in> set (case_class upper w)" "1 < length (case_class upper w)"
      by (auto simp: mem_equivGroups)
    then show "u < 0x10000 \<and> 1 < length (case_class upper u)"
      using case_class_eq [OF w(1)] by (simp add: mem_case_class)
  next
    assume "u < 0x10000 \<and> 1 < length (case_class upper u)"
    then show "\<exists>arr \<in> set (equivGroups upper). u \<in> set arr"
      using mem_case_class [of u upper u] by (intro bexI [of _ "case_class upper u"]) (auto simp: mem_equivGroups)
  qed
  finally show ?thesis .
qed

section \<open>What folding promises\<close>

text \<open>
  The contract between case folding and the emitter: a folded character stands for its equivalence
  class, a folded class for the closure of its members, both over the UTF-16 code units.
\<close>

locale case_folding =
  fixes canon :: "nat \<Rightarrow> nat" and fold_char :: "nat \<Rightarrow> nat list" and fold_ranges :: "ranges \<Rightarrow> ranges"
  assumes fold_char_mem:
    "\<lbrakk> code < 0x10000; c < 0x10000 \<rbrakk> \<Longrightarrow> c \<in> set (fold_char code) \<longleftrightarrow> canon c = canon code"
    and fold_ranges_mem:
    "\<lbrakk> ordered rs; c < 0x10000 \<rbrakk> \<Longrightarrow>
       in_ranges (fold_ranges rs) c \<longleftrightarrow> in_ranges rs c \<or> (\<exists>u < 0x10000. in_ranges rs u \<and> canon u = canon c)"
    and fold_ranges_ordered: "ordered rs \<Longrightarrow> ordered (fold_ranges rs)"
begin

lemma fold_char_refl: "code < 0x10000 \<Longrightarrow> code \<in> set (fold_char code)"
  by (simp add: fold_char_mem)

lemma fold_char_single:
  "\<lbrakk> code < 0x10000; c < 0x10000; fold_char code = [u] \<rbrakk> \<Longrightarrow> c = u \<longleftrightarrow> canon c = canon code"
  using fold_char_mem [of code c] by auto

lemma fold_ranges_closed:
  "\<lbrakk> ordered rs; c < 0x10000; c' < 0x10000; canon c = canon c' \<rbrakk> \<Longrightarrow>
     in_ranges (fold_ranges rs) c = in_ranges (fold_ranges rs) c'"
  by (auto simp: fold_ranges_mem)

end

lemma case_class_single:
  assumes "u < 0x10000" "\<not> 1 < length (case_class upper u)"
  shows "c \<in> set (case_class upper u) \<longleftrightarrow> c = u"
proof -
  have "u \<in> set (case_class upper u)" using assms(1) by (simp add: mem_case_class)
  with assms(2) have "case_class upper u = [u]"
    by (cases "case_class upper u") (auto simp: Suc_lessI)
  then show ?thesis by simp
qed

interpretation legacy: case_folding "canonicalizeLegacy upper" "foldCharUnitsLegacy upper"
    "foldClassRangesLegacy upper"
  for upper
proof unfold_locales
  fix code c :: nat
  assume "code < 0x10000" "c < 0x10000"
  then show "c \<in> set (foldCharUnitsLegacy upper code) \<longleftrightarrow>
      canonicalizeLegacy upper c = canonicalizeLegacy upper code"
    using case_class_single [of code upper c] mem_case_class [of c upper code]
    by (auto simp: foldCharUnitsLegacy_def equivMap_eq)
next
  fix rs :: ranges and c :: nat
  define extra where "extra = concat (map (\<lambda>u. if in_ranges rs u
      then map (\<lambda>p. (p, p)) (the (equivMap upper u)) else []) (casedUnits upper))"
  assume ord: "ordered rs"
  have "ordered extra" by (auto simp: extra_def ordered_iff)
  with ord have ord': "ordered (rs @ extra)" by simp
  then show "ordered (foldClassRangesLegacy upper rs)"
    using fold_class.norm_searchable disjoint_sorted_ordered
    by (simp add: foldClassRangesLegacy_def extra_def Let_def)
  assume c: "c < 0x10000"
  have "in_ranges extra c \<longleftrightarrow> (\<exists>u \<in> set (casedUnits upper). in_ranges rs u \<and> c \<in> set (the (equivMap upper u)))"
  proof -
    have "in_ranges (concat (map (\<lambda>u. if P u then map (\<lambda>p. (p, p)) (f u) else []) us)) c \<longleftrightarrow>
        (\<exists>u \<in> set us. P u \<and> c \<in> set (f u))" for P and f :: "nat \<Rightarrow> nat list" and us
      by (induction us) auto
    then show ?thesis by (simp add: extra_def)
  qed
  also have "\<dots> \<longleftrightarrow> (\<exists>u < 0x10000. 1 < length (case_class upper u) \<and> in_ranges rs u \<and>
      canonicalizeLegacy upper u = canonicalizeLegacy upper c)"
  proof -
    have "u \<in> set (casedUnits upper) \<and> in_ranges rs u \<and> c \<in> set (the (equivMap upper u)) \<longleftrightarrow>
        u < 0x10000 \<and> 1 < length (case_class upper u) \<and> in_ranges rs u \<and>
        canonicalizeLegacy upper u = canonicalizeLegacy upper c" for u
    proof (cases "u < 0x10000 \<and> 1 < length (case_class upper u)")
      case True
      then have "the (equivMap upper u) = case_class upper u" by (simp add: equivMap_eq)
      with True c show ?thesis by (auto simp: mem_casedUnits mem_case_class)
    next
      case False
      then show ?thesis by (auto simp: mem_casedUnits)
    qed
    then show ?thesis by (simp add: Bex_def)
  qed
  finally have "in_ranges (rs @ extra) c \<longleftrightarrow> in_ranges rs c \<or> (\<exists>u < 0x10000. 1 < length (case_class upper u) \<and>
      in_ranges rs u \<and> canonicalizeLegacy upper u = canonicalizeLegacy upper c)" by simp
  also have "\<dots> \<longleftrightarrow> in_ranges rs c \<or>
      (\<exists>u < 0x10000. in_ranges rs u \<and> canonicalizeLegacy upper u = canonicalizeLegacy upper c)"
  proof -
    have "in_ranges rs c" if "u < 0x10000" "in_ranges rs u"
      "canonicalizeLegacy upper u = canonicalizeLegacy upper c" "\<not> 1 < length (case_class upper u)" for u
    proof -
      have "c \<in> set (case_class upper u)" unfolding mem_case_class using c that(3) by simp
      then have "c = u" using case_class_single [OF that(1,4)] by blast
      with that(2) show ?thesis by simp
    qed
    then show ?thesis by blast
  qed
  finally show "in_ranges (foldClassRangesLegacy upper rs) c \<longleftrightarrow> in_ranges rs c \<or>
      (\<exists>u < 0x10000. in_ranges rs u \<and> canonicalizeLegacy upper u = canonicalizeLegacy upper c)"
    using fold_class.norm_member [OF ord']
    by (simp add: foldClassRangesLegacy_def extra_def Let_def)
qed

end
