(* ===== verification/Re_Ast.thy ===== *)
theory Re_Ast
  imports Re_Casefold
begin

text \<open>
  The regex syntax tree (\<^verbatim>\<open>ReNode\<close>, \<^verbatim>\<open>ParsedRegex\<close> in \<^verbatim>\<open>src/codegen/regex/parse.ts\<close>)
  and the structural analyses of \<^verbatim>\<open>compile.ts\<close>: nullability, the capture span of a subtree and
  the reversal for lookbehind. An unbounded repetition (\<open>max = -1\<close>) and a non-capturing group
  (\<open>capIndex < 0\<close>) are \<open>None\<close>.
\<close>

datatype re_node =
    RChar nat
  | RAny
  | RClass ranges bool
  | RCpClass ranges bool
  | RBol
  | REol
  | RWordBoundary bool
  | RBackref nat
  | RLookaround re_node bool bool      \<comment> \<open>body, negated, behind\<close>
  | RModGroup nat nat re_node          \<comment> \<open>add, remove\<close>
  | RUdot
  | RConcat "re_node list"
  | RAlt "re_node list"
  | RStar re_node bool
  | RPlus re_node bool
  | ROpt re_node bool
  | RRepeat re_node nat "nat option" bool
  | RGroup re_node "nat option" "js_string option"

record parsed_regex =
  root :: re_node
  numCaptures :: nat
  pr_groupNames :: "(js_string \<times> nat) list"

section \<open>Nullability\<close>

fun canMatchEmpty :: "re_node \<Rightarrow> bool" where
  "canMatchEmpty (RChar _) = False"
| "canMatchEmpty RAny = False"
| "canMatchEmpty RUdot = False"
| "canMatchEmpty (RClass _ _) = False"
| "canMatchEmpty (RCpClass _ _) = False"
| "canMatchEmpty (RBackref _) = True"
| "canMatchEmpty RBol = True"
| "canMatchEmpty REol = True"
| "canMatchEmpty (RWordBoundary _) = True"
| "canMatchEmpty (RLookaround _ _ _) = True"
| "canMatchEmpty (RStar _ _) = True"
| "canMatchEmpty (ROpt _ _) = True"
| "canMatchEmpty (RPlus n _) = canMatchEmpty n"
| "canMatchEmpty (RRepeat n mn _ _) = (mn = 0 \<or> canMatchEmpty n)"
| "canMatchEmpty (RGroup n _ _) = canMatchEmpty n"
| "canMatchEmpty (RModGroup _ _ n) = canMatchEmpty n"
| "canMatchEmpty (RConcat parts) = list_all canMatchEmpty parts"
| "canMatchEmpty (RAlt options) = list_ex canMatchEmpty options"

section \<open>Capture spans\<close>

text \<open>
  \<open>visit\<close> updates the running minimum and maximum; \<open>None\<close> is the initial \<open>[Infinity, -Infinity]\<close>.
  Lookaround bodies are not descended into.
\<close>

definition note_cap :: "nat option \<Rightarrow> (nat \<times> nat) option \<Rightarrow> (nat \<times> nat) option" where
  "note_cap cap span =
     (case cap of
        None \<Rightarrow> span
      | Some i \<Rightarrow> (case span of None \<Rightarrow> Some (i, i) | Some (lo, hi) \<Rightarrow> Some (min i lo, max i hi)))"

fun visit_span :: "re_node \<Rightarrow> (nat \<times> nat) option \<Rightarrow> (nat \<times> nat) option" where
  "visit_span (RGroup n cap _) span = visit_span n (note_cap cap span)"
| "visit_span (RConcat parts) span = fold visit_span parts span"
| "visit_span (RAlt options) span = fold visit_span options span"
| "visit_span (RStar n _) span = visit_span n span"
| "visit_span (RPlus n _) span = visit_span n span"
| "visit_span (ROpt n _) span = visit_span n span"
| "visit_span (RModGroup _ _ n) span = visit_span n span"
| "visit_span (RRepeat n _ _ _) span = visit_span n span"
| "visit_span _ span = span"

definition captureSpan :: "re_node \<Rightarrow> (nat \<times> nat) option" where
  "captureSpan n = visit_span n None"

section \<open>Reversal for lookbehind\<close>

fun reverseNode :: "re_node \<Rightarrow> re_node" where
  "reverseNode (RConcat parts) = RConcat (map reverseNode (rev parts))"
| "reverseNode (RAlt options) = RAlt (map reverseNode options)"
| "reverseNode (RStar n g) = RStar (reverseNode n) g"
| "reverseNode (RPlus n g) = RPlus (reverseNode n) g"
| "reverseNode (ROpt n g) = ROpt (reverseNode n) g"
| "reverseNode (RRepeat n mn mx g) = RRepeat (reverseNode n) mn mx g"
| "reverseNode (RGroup n cap name) = RGroup (reverseNode n) cap name"
| "reverseNode (RModGroup add remove n) = RModGroup add remove (reverseNode n)"
| "reverseNode n = n"

text \<open>
  A node in the order the emitter sees it: lookbehind bodies are reversed.
\<close>

definition orient :: "bool \<Rightarrow> re_node \<Rightarrow> re_node" where
  "orient fwd n = (if fwd then n else reverseNode n)"

lemma reverseNode_reverseNode: "reverseNode (reverseNode n) = n"
proof (induction n)
  case (RConcat parts)
  then show ?case by (simp add: rev_map map_idI)
next
  case (RAlt options)
  then show ?case by (simp add: map_idI)
qed simp_all

lemma canMatchEmpty_reverseNode [simp]: "canMatchEmpty (reverseNode n) = canMatchEmpty n"
proof (induction n)
  case (RConcat parts)
  then show ?case by (auto simp: list_all_iff)
next
  case (RAlt options)
  then show ?case by (auto simp: list_ex_iff)
qed simp_all

lemma canMatchEmpty_orient [simp]: "canMatchEmpty (orient fwd n) = canMatchEmpty n"
  by (simp add: orient_def)

text \<open>The span does not depend on the visiting order: it is the hull of the group indices.\<close>

fun cap_indices :: "re_node \<Rightarrow> nat set" where
  "cap_indices (RGroup n cap _) = set_option cap \<union> cap_indices n"
| "cap_indices (RConcat parts) = (\<Union>p \<in> set parts. cap_indices p)"
| "cap_indices (RAlt options) = (\<Union>p \<in> set options. cap_indices p)"
| "cap_indices (RStar n _) = cap_indices n"
| "cap_indices (RPlus n _) = cap_indices n"
| "cap_indices (ROpt n _) = cap_indices n"
| "cap_indices (RModGroup _ _ n) = cap_indices n"
| "cap_indices (RRepeat n _ _ _) = cap_indices n"
| "cap_indices _ = {}"

definition hull :: "nat set \<Rightarrow> (nat \<times> nat) option" where
  "hull S = (if S = {} then None else Some (Min S, Max S))"

lemma finite_cap_indices [simp]: "finite (cap_indices n)"
  by (induction n rule: cap_indices.induct) auto

lemma note_cap_hull: "finite S \<Longrightarrow> note_cap cap (hull S) = hull (set_option cap \<union> S)"
  by (cases cap) (auto simp: note_cap_def hull_def min_def max_def)

lemma visit_span_hull: "finite S \<Longrightarrow> visit_span n (hull S) = hull (cap_indices n \<union> S)"
proof (induction n arbitrary: S rule: cap_indices.induct)
  case (1 n cap name)
  then show ?case by (simp add: note_cap_hull Un_assoc Un_left_commute)
next
  case (2 parts)
  have "fold visit_span ps (hull S) = hull ((\<Union>p \<in> set ps. cap_indices p) \<union> S)"
    if "set ps \<subseteq> set parts" "finite S" for ps S
    using that
  proof (induction ps arbitrary: S)
    case (Cons p ps)
    then show ?case using "2.IH" [of p S] Cons.IH [of "cap_indices p \<union> S"]
      by (simp add: Un_assoc Un_left_commute)
  qed simp
  then show ?case using "2.prems" by simp
next
  case (3 options)
  have "fold visit_span ps (hull S) = hull ((\<Union>p \<in> set ps. cap_indices p) \<union> S)"
    if "set ps \<subseteq> set options" "finite S" for ps S
    using that
  proof (induction ps arbitrary: S)
    case (Cons p ps)
    then show ?case using "3.IH" [of p S] Cons.IH [of "cap_indices p \<union> S"]
      by (simp add: Un_assoc Un_left_commute)
  qed simp
  then show ?case using "3.prems" by simp
qed auto

lemma captureSpan_hull: "captureSpan n = hull (cap_indices n)"
  using visit_span_hull [of "{}" n] by (simp add: captureSpan_def hull_def)

lemma cap_indices_reverseNode [simp]: "cap_indices (reverseNode n) = cap_indices n"
  by (induction n) auto

lemma captureSpan_orient [simp]: "captureSpan (orient fwd n) = captureSpan n"
  by (simp add: captureSpan_hull orient_def)

end
