(* ===== verification/Re_Linear.thy ===== *)
theory Re_Linear
  imports Re_Match_Units
begin

text \<open>
  The linear matcher (\<^verbatim>\<open>src/codegen/regex/linear.ts\<close>): a PikeVM over the same bytecode. A thread is
  a state and its own capture array; a thread list shares the admission stamps \<open>seen\<close> with every
  other list, and the list of position \<open>p\<close> stamps its states with \<open>p + 1\<close>.
\<close>

type_synonym caps = "int list"
type_synonym thread = "nat \<times> caps"

definition LINEAR_OPS :: "ReOp list" where
  "LINEAR_OPS = [OP_CHAR, OP_CHARI, OP_ANY, OP_CLASS, OP_CPCLASS, OP_SPLIT, OP_JMP, OP_SAVE,
     OP_CLEAR, OP_BOL, OP_EOL, OP_WBOUND, OP_MATCH]"

text \<open>The opcode cells of the flat program: every third number.\<close>

fun isLinearSafe :: "nat list \<Rightarrow> bool" where
  "isLinearSafe [] = True"
| "isLinearSafe (c # rest) = (c \<in> set (map op_code LINEAR_OPS) \<and> isLinearSafe (drop 2 rest))"

text \<open>\<open>caps.fill(-1, a, b + 1)\<close>, and the VM's CLEAR loop: writes outside the array are dropped.\<close>

definition clear_slots :: "nat \<Rightarrow> nat \<Rightarrow> caps \<Rightarrow> caps" where
  "clear_slots a b caps = fold (\<lambda>i c. c[i := - 1]) [a..<b + 1] caps"

text \<open>
  The stamp array is an \<^verbatim>\<open>Int32Array\<close> of \<open>2 * n\<close> cells, here a function with that many
  meaningful cells: reads outside it are \<open>undefined\<close>, so \<open>admit\<close> accepts, and writes are dropped.
\<close>

definition n_instrs :: "nat list \<Rightarrow> nat" where
  "n_instrs prog = length prog div INSTR_WIDTH"

definition seen_size :: "nat list \<Rightarrow> nat" where
  "seen_size prog = (2 * length prog) div INSTR_WIDTH"

definition admit :: "nat list \<Rightarrow> (nat \<Rightarrow> nat) \<Rightarrow> nat \<Rightarrow> nat \<Rightarrow> bool" where
  "admit prog seen stamp state \<longleftrightarrow> \<not> (state < seen_size prog \<and> seen state = stamp)"

text \<open>The successors that one epsilon instruction pushes, top of the stack first.\<close>

definition eps_succs :: "nat list \<Rightarrow> js_string \<Rightarrow> nat \<Rightarrow> thread \<Rightarrow> thread list option" where
  "eps_succs prog input sp t =
     (case fetch prog (fst t) of
        Some (OP_JMP, a, b) \<Rightarrow> Some [(a, snd t)]
      | Some (OP_SPLIT, a, b) \<Rightarrow> Some [(a, snd t), (b, snd t)]
      | Some (OP_SAVE, a, b) \<Rightarrow> Some [(fst t + 1, (snd t)[a := int sp])]
      | Some (OP_CLEAR, a, b) \<Rightarrow> Some [(fst t + 1, clear_slots a b (snd t))]
      | Some (OP_BOL, a, b) \<Rightarrow>
          Some (if assertionHolds OP_BOL a input sp then [(fst t + 1, snd t)] else [])
      | Some (OP_EOL, a, b) \<Rightarrow>
          Some (if assertionHolds OP_EOL a input sp then [(fst t + 1, snd t)] else [])
      | Some (OP_WBOUND, a, b) \<Rightarrow>
          Some (if assertionHolds OP_WBOUND a input sp then [(fst t + 1, snd t)] else [])
      | _ \<Rightarrow> None)"

lemma eps_succs_length: "eps_succs prog input sp t = Some ts \<Longrightarrow> length ts \<le> 2"
  by (auto simp: eps_succs_def split: option.splits prod.splits ReOp.splits if_splits)

text \<open>The number of instructions that the list with this stamp has not admitted yet.\<close>

definition unstamped :: "nat list \<Rightarrow> (nat \<Rightarrow> nat) \<Rightarrow> nat \<Rightarrow> nat" where
  "unstamped prog seen stamp = card {s. s < n_instrs prog \<and> admit prog seen stamp s}"

lemma unstamped_decr:
  assumes "admit prog seen stamp s" "s < n_instrs prog"
  shows "unstamped prog (seen(s := stamp)) stamp < unstamped prog seen stamp"
proof -
  let ?A = "{x. x < n_instrs prog \<and> admit prog seen stamp x}"
  let ?B = "{x. x < n_instrs prog \<and> admit prog (seen(s := stamp)) stamp x}"
  have "s < seen_size prog" using assms(2) by (auto simp: n_instrs_def seen_size_def INSTR_WIDTH_def)
  then have "?B = ?A - {s}" by (auto simp: admit_def)
  moreover have "s \<in> ?A" using assms by simp
  ultimately have "?B \<subset> ?A" by auto
  then show ?thesis unfolding unstamped_def by (intro psubset_card_mono) auto
qed

lemma unstamped_le: "unstamped prog (seen(s := stamp)) stamp \<le> unstamped prog seen stamp"
  unfolding unstamped_def by (intro card_mono) (auto simp: admit_def split: if_splits)

text \<open>
  \<open>addThread\<close>: the explicit-stack, pre-order walk of the epsilon closure of the threads on the
  stack, over the stamps and the threads admitted so far.
\<close>

function addThread_loop ::
  "nat list \<Rightarrow> js_string \<Rightarrow> nat \<Rightarrow> nat \<Rightarrow> (nat \<Rightarrow> nat) \<Rightarrow> thread list \<Rightarrow> thread list
    \<Rightarrow> (nat \<Rightarrow> nat) \<times> thread list"
where
  "addThread_loop prog input sp stamp seen threads [] = (seen, threads)"
| "addThread_loop prog input sp stamp seen threads (t # stack) =
     (if \<not> admit prog seen stamp (fst t) then addThread_loop prog input sp stamp seen threads stack
      else if n_instrs prog \<le> fst t
      then addThread_loop prog input sp stamp (seen(fst t := stamp)) (threads @ [t]) stack
      else (case eps_succs prog input sp t of
              Some ts \<Rightarrow> addThread_loop prog input sp stamp (seen(fst t := stamp)) threads (ts @ stack)
            | None \<Rightarrow>
                addThread_loop prog input sp stamp (seen(fst t := stamp)) (threads @ [t]) stack))"
  by pat_completeness auto
termination
proof (relation "measure (\<lambda>(prog, input, sp, stamp, seen, threads, stack).
    3 * unstamped prog seen stamp + length stack)", goal_cases)
  case (5 prog input sp stamp seen threads t stack ts)
  then have "unstamped prog (seen(fst t := stamp)) stamp < unstamped prog seen stamp"
    by (intro unstamped_decr) auto
  with eps_succs_length [OF 5(3)] show ?case by simp
qed (auto simp: less_Suc_eq_le unstamped_le)

definition addThread ::
  "nat list \<Rightarrow> js_string \<Rightarrow> nat \<Rightarrow> (nat \<Rightarrow> nat) \<times> thread list \<Rightarrow> nat \<Rightarrow> caps \<Rightarrow> nat
    \<Rightarrow> (nat \<Rightarrow> nat) \<times> thread list"
where
  "addThread prog input stamp list state caps sp =
     addThread_loop prog input sp stamp (fst list) (snd list) [(state, caps)]"

text \<open>
  \<open>step\<close>: advance one thread over the unit at \<open>sp\<close> into the list of \<open>sp + 1\<close>; the flag is true
  when the thread is at MATCH.
\<close>

definition step ::
  "nat list \<Rightarrow> nat list \<Rightarrow> js_string \<Rightarrow> thread \<Rightarrow> nat \<Rightarrow> nat \<Rightarrow> (nat \<Rightarrow> nat) \<times> thread list
    \<Rightarrow> bool \<times> ((nat \<Rightarrow> nat) \<times> thread list)"
where
  "step prog tbl input t sp stamp next =
     (let n = n_instrs prog; state = fst t; caps = snd t in
      if n \<le> state then (False, addThread prog input stamp next (state - n + 1) caps (sp + 1))
      else case fetch prog state of
        None \<Rightarrow> (False, next)
      | Some (x, a, b) \<Rightarrow>
          if x = OP_MATCH then (True, next)
          else if length input \<le> sp then (False, next)
          else if x = OP_CPCLASS then
            (case forwardCodePoint input sp of
               None \<Rightarrow> (False, next)
             | Some cp \<Rightarrow>
                 if \<not> classMatch tbl a cp (b \<noteq> 0) then (False, next)
                 else if 0xffff < cp
                 then (False, addThread prog input stamp next (n + state) caps (sp + 1))
                 else (False, addThread prog input stamp next (state + 1) caps (sp + 1)))
          else if unitMatches x a b tbl (input ! sp)
          then (False, addThread prog input stamp next (state + 1) caps (sp + 1))
          else (False, next))"

text \<open>The loop over the current list: it stops at the first thread that is at MATCH.\<close>

primrec step_all ::
  "nat list \<Rightarrow> nat list \<Rightarrow> js_string \<Rightarrow> thread list \<Rightarrow> nat \<Rightarrow> nat \<Rightarrow> (nat \<Rightarrow> nat) \<times> thread list
    \<Rightarrow> caps option \<times> ((nat \<Rightarrow> nat) \<times> thread list)"
where
  "step_all prog tbl input [] sp stamp next = (None, next)"
| "step_all prog tbl input (t # ts) sp stamp next =
     (case step prog tbl input t sp stamp next of
        (isMatch, next') \<Rightarrow>
          if isMatch then (Some (snd t), next') else step_all prog tbl input ts sp stamp next')"

text \<open>
  The position loop of \<open>searchLinear\<close>, run for \<open>k\<close> more positions (\<open>k = len + 1 - sp\<close>). The list of
  position \<open>sp\<close> has stamp \<open>sp + 1\<close>, the next one \<open>sp + 2\<close>.
\<close>

primrec searchLinear_loop ::
  "nat list \<Rightarrow> nat list \<Rightarrow> nat \<Rightarrow> js_string \<Rightarrow> nat \<Rightarrow> bool \<Rightarrow> nat \<Rightarrow> nat \<Rightarrow> (nat \<Rightarrow> nat) \<times> thread list
    \<Rightarrow> caps option \<Rightarrow> caps option"
where
  "searchLinear_loop prog tbl nSlots input start sticky 0 sp current matched = matched"
| "searchLinear_loop prog tbl nSlots input start sticky (Suc k) sp current matched =
     (let current' = (if matched = None \<and> (\<not> sticky \<or> sp = start)
                      then addThread prog input (sp + 1) current 0 (replicate nSlots (- 1)) sp
                      else current) in
      if snd current' = [] \<and> (matched \<noteq> None \<or> sticky) then matched
      else (case step_all prog tbl input (snd current') sp (sp + 2) (fst current', []) of
              (m, next) \<Rightarrow>
                searchLinear_loop prog tbl nSlots input start sticky k (sp + 1) next
                  (case m of Some c \<Rightarrow> Some c | None \<Rightarrow> matched)))"

definition searchLinear ::
  "nat list \<Rightarrow> nat list \<Rightarrow> nat \<Rightarrow> js_string \<Rightarrow> int \<Rightarrow> bool \<Rightarrow> caps option"
where
  "searchLinear prog tbl nSlots input startIdx sticky =
     (let start = nat (max 0 startIdx) in
      searchLinear_loop prog tbl nSlots input start sticky (length input + 1 - start) start
        (\<lambda>_. 0, []) None)"

lemma clear_slots_length [simp]: "length (clear_slots a b caps) = length caps"
proof -
  have "length (fold (\<lambda>i c. c[i := - 1]) xs c) = length c" for xs and c :: caps
    by (induction xs arbitrary: c) auto
  then show ?thesis by (simp add: clear_slots_def)
qed

end
