(* ===== verification/Re_Vm.thy ===== *)
theory Re_Vm
  imports Re_Linear
begin

text \<open>
  The reference backtracking VM (\<^verbatim>\<open>src/codegen/regex/vm.ts\<close>). One arm of the VM's \<^verbatim>\<open>switch\<close>
  is a value of \<open>vm_action\<close>; the loop interprets it over an explicit backtrack stack under the step
  budget. A lookaround is a recursive call with a budget of its own; \<open>depth\<close> is the number of
  nested calls the host's stack has room for, and running out of either is the \<^verbatim>\<open>RangeError\<close>
  that the host throws. \<open>dir > 0\<close> is the flag \<open>fwd\<close>. Positions are naturals: every read is
  guarded, and an arithmetic that would leave the naturals or read a missing capture slot is the
  explicit outcome \<open>VmStuck\<close>.
\<close>

definition REGEX_STEP_CAP :: nat where "REGEX_STEP_CAP = 1000000"
definition REGEX_STEP_CAP_PER_UNIT :: nat where "REGEX_STEP_CAP_PER_UNIT = 50"
definition REGEX_STEP_CAP_LEN_SATURATION :: nat where "REGEX_STEP_CAP_LEN_SATURATION = 20000000"

definition regexStepBudget :: "nat \<Rightarrow> nat" where
  "regexStepBudget len =
     REGEX_STEP_CAP + REGEX_STEP_CAP_PER_UNIT * min len REGEX_STEP_CAP_LEN_SATURATION"

type_synonym frame = "nat \<times> nat \<times> caps"

section \<open>Direction-aware reads\<close>

definition inBounds :: "js_string \<Rightarrow> bool \<Rightarrow> nat \<Rightarrow> bool" where
  "inBounds input fwd sp \<longleftrightarrow> (if fwd then sp < length input else sp > 0)"

definition unit_at :: "js_string \<Rightarrow> bool \<Rightarrow> nat \<Rightarrow> nat" where
  "unit_at input fwd sp = input ! (if fwd then sp else sp - 1)"

definition move :: "bool \<Rightarrow> nat \<Rightarrow> nat \<Rightarrow> nat" where
  "move fwd sp w = (if fwd then sp + w else sp - w)"

text \<open>The code point CPCLASS consumes at \<open>sp\<close> and its width, or failure.\<close>

definition readCodePoint :: "js_string \<Rightarrow> bool \<Rightarrow> nat \<Rightarrow> (nat \<times> nat) option" where
  "readCodePoint input fwd sp =
     (if \<not> inBounds input fwd sp then None
      else if fwd then
        (case forwardCodePoint input sp of
           None \<Rightarrow> None
         | Some cp \<Rightarrow> Some (cp, if 0xffff < cp then 2 else 1))
      else
        (let u = unit_at input fwd sp in
         if is_trail u \<and> sp > 1 then
           (let lead = input ! (sp - 2) in
            if is_lead lead then Some (pair_code_point lead u, 2) else Some (u, 1))
         else if is_lead u \<and> sp < length input \<and> is_trail (input ! sp) then None
         else Some (u, 1)))"

text \<open>The unit comparison of a backreference; a \<open>NaN\<close> differs from everything.\<close>

definition units_equal :: "js_string \<Rightarrow> bool \<Rightarrow> nat \<Rightarrow> nat \<Rightarrow> bool" where
  "units_equal input ci i j =
     (case (charCodeAt input i, charCodeAt input j) of
        (Some c1, Some c2) \<Rightarrow> (if ci then asciiFold c1 = asciiFold c2 else c1 = c2)
      | _ \<Rightarrow> False)"

section \<open>One instruction\<close>

datatype vm_action =
    Advance nat nat caps          \<comment> \<open>continue at this pc, position and captures\<close>
  | Fork nat nat                  \<comment> \<open>try the first pc, push the second\<close>
  | Look nat bool bool            \<comment> \<open>sub-program entry, behind, negated\<close>
  | Backtrack
  | Accept
  | Halt                          \<comment> \<open>the default arm: return null\<close>
  | Stuck

definition backref_action :: "js_string \<Rightarrow> bool \<Rightarrow> nat \<Rightarrow> nat \<Rightarrow> caps \<Rightarrow> nat \<Rightarrow> bool \<Rightarrow> vm_action" where
  "backref_action input fwd pc sp caps a ci =
     (case (nth_opt caps (2 * a), nth_opt caps (2 * a + 1)) of
        (Some gs, Some ge) \<Rightarrow>
          (if gs < 0 \<or> ge < 0 then Advance (pc + 1) sp caps
           else let blen = ge - gs in
             if (if fwd then int sp + blen > int (length input) else int sp - blen < 0) then Backtrack
             else let base = (if fwd then int sp else int sp - blen) in
               if list_all (\<lambda>j. units_equal input ci (nat gs + j) (nat base + j)) [0..<nat blen]
               then (let sp' = int sp + (if fwd then blen else - blen) in
                     if sp' < 0 then Stuck else Advance (pc + 1) (nat sp') caps)
               else Backtrack)
      | _ \<Rightarrow> Stuck)"

definition vm_action ::
  "nat list \<Rightarrow> nat list \<Rightarrow> js_string \<Rightarrow> bool \<Rightarrow> nat \<Rightarrow> nat \<Rightarrow> caps \<Rightarrow> vm_action"
where
  "vm_action prog tbl input fwd pc sp caps =
     (case fetch prog pc of
        None \<Rightarrow> Halt
      | Some (x, a, b) \<Rightarrow>
          (case x of
             OP_CHAR \<Rightarrow>
               (if inBounds input fwd sp \<and> unitMatches OP_CHAR a b tbl (unit_at input fwd sp)
                then Advance (pc + 1) (move fwd sp 1) caps else Backtrack)
           | OP_CHARI \<Rightarrow>
               (if inBounds input fwd sp \<and> unitMatches OP_CHARI a b tbl (unit_at input fwd sp)
                then Advance (pc + 1) (move fwd sp 1) caps else Backtrack)
           | OP_ANY \<Rightarrow>
               (if inBounds input fwd sp \<and> unitMatches OP_ANY a b tbl (unit_at input fwd sp)
                then Advance (pc + 1) (move fwd sp 1) caps else Backtrack)
           | OP_CLASS \<Rightarrow>
               (if inBounds input fwd sp \<and> unitMatches OP_CLASS a b tbl (unit_at input fwd sp)
                then Advance (pc + 1) (move fwd sp 1) caps else Backtrack)
           | OP_CPCLASS \<Rightarrow>
               (case readCodePoint input fwd sp of
                  None \<Rightarrow> Backtrack
                | Some (cp, width) \<Rightarrow>
                    if classMatch tbl a cp (b \<noteq> 0) then Advance (pc + 1) (move fwd sp width) caps
                    else Backtrack)
           | OP_SPLIT \<Rightarrow> Fork a b
           | OP_JMP \<Rightarrow> Advance a sp caps
           | OP_SAVE \<Rightarrow> Advance (pc + 1) sp (caps[a := int sp])
           | OP_BOL \<Rightarrow> (if assertionHolds OP_BOL a input sp then Advance (pc + 1) sp caps else Backtrack)
           | OP_EOL \<Rightarrow> (if assertionHolds OP_EOL a input sp then Advance (pc + 1) sp caps else Backtrack)
           | OP_WBOUND \<Rightarrow>
               (if assertionHolds OP_WBOUND a input sp then Advance (pc + 1) sp caps else Backtrack)
           | OP_BACKREF \<Rightarrow> backref_action input fwd pc sp caps a (b \<noteq> 0)
           | OP_LOOKAROUND \<Rightarrow> Look a (has_flag b 2) (has_flag b 1)
           | OP_PROGRESS \<Rightarrow>
               (if nth_opt caps a = Some (int sp) then Backtrack else Advance (pc + 1) sp caps)
           | OP_CLEAR \<Rightarrow> Advance (pc + 1) sp (clear_slots a b caps)
           | OP_MATCH \<Rightarrow> Accept))"

text \<open>The arm that a fetched instruction takes.\<close>

lemma vm_action_ops:
  "fetch prog pc = Some (OP_CHAR, a, b) \<Longrightarrow> vm_action prog tbl input fwd pc sp caps =
     (if inBounds input fwd sp \<and> unitMatches OP_CHAR a b tbl (unit_at input fwd sp)
      then Advance (pc + 1) (move fwd sp 1) caps else Backtrack)"
  "fetch prog pc = Some (OP_CHARI, a, b) \<Longrightarrow> vm_action prog tbl input fwd pc sp caps =
     (if inBounds input fwd sp \<and> unitMatches OP_CHARI a b tbl (unit_at input fwd sp)
      then Advance (pc + 1) (move fwd sp 1) caps else Backtrack)"
  "fetch prog pc = Some (OP_ANY, a, b) \<Longrightarrow> vm_action prog tbl input fwd pc sp caps =
     (if inBounds input fwd sp \<and> unitMatches OP_ANY a b tbl (unit_at input fwd sp)
      then Advance (pc + 1) (move fwd sp 1) caps else Backtrack)"
  "fetch prog pc = Some (OP_CLASS, a, b) \<Longrightarrow> vm_action prog tbl input fwd pc sp caps =
     (if inBounds input fwd sp \<and> unitMatches OP_CLASS a b tbl (unit_at input fwd sp)
      then Advance (pc + 1) (move fwd sp 1) caps else Backtrack)"
  "fetch prog pc = Some (OP_CPCLASS, a, b) \<Longrightarrow> vm_action prog tbl input fwd pc sp caps =
     (case readCodePoint input fwd sp of
        None \<Rightarrow> Backtrack
      | Some (cp, width) \<Rightarrow>
          if classMatch tbl a cp (b \<noteq> 0) then Advance (pc + 1) (move fwd sp width) caps else Backtrack)"
  "fetch prog pc = Some (OP_BOL, a, b) \<Longrightarrow> vm_action prog tbl input fwd pc sp caps =
     (if assertionHolds OP_BOL a input sp then Advance (pc + 1) sp caps else Backtrack)"
  "fetch prog pc = Some (OP_EOL, a, b) \<Longrightarrow> vm_action prog tbl input fwd pc sp caps =
     (if assertionHolds OP_EOL a input sp then Advance (pc + 1) sp caps else Backtrack)"
  "fetch prog pc = Some (OP_WBOUND, a, b) \<Longrightarrow> vm_action prog tbl input fwd pc sp caps =
     (if assertionHolds OP_WBOUND a input sp then Advance (pc + 1) sp caps else Backtrack)"
  "fetch prog pc = Some (OP_SPLIT, a, b) \<Longrightarrow> vm_action prog tbl input fwd pc sp caps =
     Fork a b"
  "fetch prog pc = Some (OP_JMP, a, b) \<Longrightarrow> vm_action prog tbl input fwd pc sp caps =
     Advance a sp caps"
  "fetch prog pc = Some (OP_SAVE, a, b) \<Longrightarrow> vm_action prog tbl input fwd pc sp caps =
     Advance (pc + 1) sp (caps[a := int sp])"
  "fetch prog pc = Some (OP_BACKREF, a, b) \<Longrightarrow> vm_action prog tbl input fwd pc sp caps =
     backref_action input fwd pc sp caps a (b \<noteq> 0)"
  "fetch prog pc = Some (OP_LOOKAROUND, a, b) \<Longrightarrow> vm_action prog tbl input fwd pc sp caps =
     Look a (has_flag b 2) (has_flag b 1)"
  "fetch prog pc = Some (OP_PROGRESS, a, b) \<Longrightarrow> vm_action prog tbl input fwd pc sp caps =
     (if nth_opt caps a = Some (int sp) then Backtrack else Advance (pc + 1) sp caps)"
  "fetch prog pc = Some (OP_CLEAR, a, b) \<Longrightarrow> vm_action prog tbl input fwd pc sp caps =
     Advance (pc + 1) sp (clear_slots a b caps)"
  "fetch prog pc = Some (OP_MATCH, a, b) \<Longrightarrow> vm_action prog tbl input fwd pc sp caps =
     Accept"
  by (simp_all add: vm_action_def del: assertionHolds.simps unitMatches.simps)

section \<open>The loop\<close>

datatype vm_result = Matched caps | NoMatch | RangeErr | VmStuck

fun vm_loop ::
  "nat list \<Rightarrow> nat list \<Rightarrow> js_string \<Rightarrow> nat \<Rightarrow> nat \<Rightarrow> nat \<Rightarrow> bool \<Rightarrow> nat \<Rightarrow> nat \<Rightarrow> caps \<Rightarrow> frame list
    \<Rightarrow> vm_result"
where
  "vm_loop prog tbl input budget depth 0 fwd pc sp caps stack = RangeErr"
| "vm_loop prog tbl input budget depth (Suc n) fwd pc sp caps stack =
     (case vm_action prog tbl input fwd pc sp caps of
        Advance pc' sp' caps' \<Rightarrow> vm_loop prog tbl input budget depth n fwd pc' sp' caps' stack
      | Fork a b \<Rightarrow> vm_loop prog tbl input budget depth n fwd a sp caps ((b, sp, caps) # stack)
      | Look entry behind negated \<Rightarrow>
          (case depth of
             0 \<Rightarrow> RangeErr
           | Suc depth' \<Rightarrow>
               (case vm_loop prog tbl input budget depth' budget (\<not> behind) entry sp caps [] of
                  RangeErr \<Rightarrow> RangeErr
                | VmStuck \<Rightarrow> VmStuck
                | Matched sub \<Rightarrow>
                    (if \<not> negated then vm_loop prog tbl input budget depth n fwd (pc + 1) sp sub stack
                     else case stack of
                       [] \<Rightarrow> NoMatch
                     | (pc', sp', caps') # stack' \<Rightarrow>
                         vm_loop prog tbl input budget depth n fwd pc' sp' caps' stack')
                | NoMatch \<Rightarrow>
                    (if negated then vm_loop prog tbl input budget depth n fwd (pc + 1) sp caps stack
                     else case stack of
                       [] \<Rightarrow> NoMatch
                     | (pc', sp', caps') # stack' \<Rightarrow>
                         vm_loop prog tbl input budget depth n fwd pc' sp' caps' stack')))
      | Backtrack \<Rightarrow>
          (case stack of
             [] \<Rightarrow> NoMatch
           | (pc', sp', caps') # stack' \<Rightarrow>
               vm_loop prog tbl input budget depth n fwd pc' sp' caps' stack')
      | Accept \<Rightarrow> Matched caps
      | Halt \<Rightarrow> NoMatch
      | Stuck \<Rightarrow> VmStuck)"

text \<open>A single anchored attempt from the program's start with fresh captures.\<close>

definition runAt ::
  "nat \<Rightarrow> nat list \<Rightarrow> nat list \<Rightarrow> nat \<Rightarrow> js_string \<Rightarrow> nat \<Rightarrow> nat \<Rightarrow> bool \<Rightarrow> caps option \<Rightarrow> nat \<Rightarrow> vm_result"
where
  "runAt depth prog tbl nGroups input startIdx entryPc fwd capsIn nScratch =
     (let nSlots = 2 * nGroups + nScratch;
          initCaps = (case capsIn of Some c \<Rightarrow> c | None \<Rightarrow> replicate nSlots (- 1));
          budget = regexStepBudget (length input)
      in vm_loop prog tbl input budget depth budget fwd entryPc startIdx initCaps [])"

text \<open>
  The start-position scan. An attempt that exhausts its budget hands the rest of the search to the
  linear matcher when the program allows it, and throws otherwise.
\<close>

fun search_loop ::
  "nat \<Rightarrow> nat list \<Rightarrow> nat list \<Rightarrow> nat \<Rightarrow> js_string \<Rightarrow> bool \<Rightarrow> nat \<Rightarrow> nat \<Rightarrow> nat \<Rightarrow> vm_result"
where
  "search_loop depth prog tbl nGroups input sticky nScratch 0 i = NoMatch"
| "search_loop depth prog tbl nGroups input sticky nScratch (Suc k) i =
     (case runAt depth prog tbl nGroups input i 0 True None nScratch of
        RangeErr \<Rightarrow>
          (if \<not> isLinearSafe prog then RangeErr
           else case searchLinear prog tbl (2 * nGroups + nScratch) input (int i) sticky of
                  Some c \<Rightarrow> Matched c
                | None \<Rightarrow> NoMatch)
      | VmStuck \<Rightarrow> VmStuck
      | Matched c \<Rightarrow> Matched c
      | NoMatch \<Rightarrow>
          (if sticky then NoMatch
           else search_loop depth prog tbl nGroups input sticky nScratch k (i + 1)))"

definition search ::
  "nat \<Rightarrow> nat list \<Rightarrow> nat list \<Rightarrow> nat \<Rightarrow> js_string \<Rightarrow> int \<Rightarrow> bool \<Rightarrow> nat \<Rightarrow> vm_result"
where
  "search depth prog tbl nGroups input startIdx sticky nScratch =
     (let start = nat (max 0 startIdx) in
      search_loop depth prog tbl nGroups input sticky nScratch (length input + 1 - start) start)"

end
