(* ===== verification/Re_Semantics.thy ===== *)
theory Re_Semantics
  imports Re_Ast Re_Vm
begin

text \<open>
  What a pattern means, independently of programs: from a position and the captures, a node has an
  ordered list of outcomes, the first being the preferred one. This is the continuation semantics
  of ECMA-262 22.2.2 read as lists, with the quantifier rules the engine documents: every iteration
  of a star or plus clears the captures of its body and may not be empty (the first iteration of a
  plus may), \<open>{n,m}\<close> is \<open>n\<close> copies and \<open>m - n\<close> optional ones, a backward node consumes to the left and
  runs its parts from the right, and a lookaround adopts the captures of its preferred outcome.
\<close>

record re_ctx =
  cx_ci :: bool
  cx_da :: bool
  cx_ml :: bool
  cx_un :: bool

type_synonym rstate = "nat \<times> caps"
type_synonym matcher = "rstate \<Rightarrow> rstate list"

section \<open>Atoms\<close>

definition canon :: "(nat \<Rightarrow> nat list) \<Rightarrow> re_ctx \<Rightarrow> nat \<Rightarrow> nat" where
  "canon upper cx = (if cx_un cx then asciiFold else canonicalizeLegacy upper)"

definition char_matches :: "(nat \<Rightarrow> nat list) \<Rightarrow> re_ctx \<Rightarrow> nat \<Rightarrow> nat \<Rightarrow> bool" where
  "char_matches upper cx code c =
     (if cx_ci cx then canon upper cx c = canon upper cx code else c = code)"

definition class_member :: "(nat \<Rightarrow> nat list) \<Rightarrow> re_ctx \<Rightarrow> ranges \<Rightarrow> nat \<Rightarrow> bool" where
  "class_member upper cx rs c =
     (if cx_ci cx then \<exists>u < 0x10000. in_ranges rs u \<and> canon upper cx u = canon upper cx c
      else in_ranges rs c)"

definition consume :: "js_string \<Rightarrow> bool \<Rightarrow> (nat \<Rightarrow> bool) \<Rightarrow> matcher" where
  "consume input fwd p s =
     (if inBounds input fwd (fst s) \<and> p (unit_at input fwd (fst s)) then [(move fwd (fst s) 1, snd s)] else [])"

definition consume_cp :: "js_string \<Rightarrow> bool \<Rightarrow> (nat \<Rightarrow> bool) \<Rightarrow> matcher" where
  "consume_cp input fwd p s =
     (case readCodePoint input fwd (fst s) of
        Some (cp, w) \<Rightarrow> (if p cp then [(move fwd (fst s) w, snd s)] else [])
      | None \<Rightarrow> [])"

definition guard :: "(nat \<Rightarrow> bool) \<Rightarrow> matcher" where
  "guard p s = (if p (fst s) then [s] else [])"

definition at_bol :: "bool \<Rightarrow> js_string \<Rightarrow> nat \<Rightarrow> bool" where
  "at_bol ml input sp \<longleftrightarrow> sp = 0 \<or> (ml \<and> isLineTerminator (input ! (sp - 1)))"

definition at_eol :: "bool \<Rightarrow> js_string \<Rightarrow> nat \<Rightarrow> bool" where
  "at_eol ml input sp \<longleftrightarrow> sp = length input \<or> (ml \<and> isLineTerminator (input ! sp))"

definition at_boundary :: "js_string \<Rightarrow> nat \<Rightarrow> bool" where
  "at_boundary input sp \<longleftrightarrow>
     (sp > 0 \<and> isWordChar (input ! (sp - 1))) \<noteq> (sp < length input \<and> isWordChar (input ! sp))"

text \<open>A backreference repeats the captured substring on the side it is heading for.\<close>

definition slice :: "js_string \<Rightarrow> nat \<Rightarrow> nat \<Rightarrow> js_string" where
  "slice input from len = take len (drop from input)"

definition same_units :: "bool \<Rightarrow> js_string \<Rightarrow> js_string \<Rightarrow> bool" where
  "same_units ci xs ys = (if ci then map asciiFold xs = map asciiFold ys else xs = ys)"

definition backref :: "js_string \<Rightarrow> bool \<Rightarrow> bool \<Rightarrow> nat \<Rightarrow> matcher" where
  "backref input ci fwd i s =
     (let gs = snd s ! (2 * i); ge = snd s ! (2 * i + 1); len = nat (ge - gs)
      in if gs < 0 \<or> ge < 0 then [s]
         else if (if fwd then fst s + len \<le> length input else len \<le> fst s) \<and>
                 same_units ci (slice input (nat gs) len) (slice input (if fwd then fst s else fst s - len) len)
              then [(move fwd (fst s) len, snd s)] else [])"

section \<open>Combinators\<close>

definition both :: "matcher \<Rightarrow> matcher \<Rightarrow> matcher" where
  "both f g s = concat (map g (f s))"

primrec in_order :: "matcher list \<Rightarrow> matcher" where
  "in_order [] s = [s]"
| "in_order (f # fs) s = concat (map (in_order fs) (f s))"

definition any_of :: "matcher list \<Rightarrow> matcher" where
  "any_of fs s = concat (map (\<lambda>f. f s) fs)"

definition maybe :: "bool \<Rightarrow> matcher \<Rightarrow> matcher" where
  "maybe greedy f s = (if greedy then f s @ [s] else s # f s)"

text \<open>Iterations until the fuel, the distance to the end of the input, is used up.\<close>

primrec star_iter :: "bool \<Rightarrow> matcher \<Rightarrow> nat \<Rightarrow> matcher" where
  "star_iter greedy f 0 s = [s]"
| "star_iter greedy f (Suc k) s =
     maybe greedy (\<lambda>s. concat (map (star_iter greedy f k) (filter (\<lambda>s'. fst s' \<noteq> fst s) (f s)))) s"

definition dist :: "js_string \<Rightarrow> bool \<Rightarrow> rstate \<Rightarrow> nat" where
  "dist input fwd s = (if fwd then length input - fst s else fst s)"

definition star :: "js_string \<Rightarrow> bool \<Rightarrow> bool \<Rightarrow> matcher \<Rightarrow> matcher" where
  "star input fwd greedy f s = star_iter greedy f (dist input fwd s) s"

definition clear_captures :: "re_node \<Rightarrow> rstate \<Rightarrow> rstate" where
  "clear_captures n s =
     (case captureSpan n of
        None \<Rightarrow> s
      | Some (lo, hi) \<Rightarrow> (fst s, clear_slots (2 * lo) (2 * hi + 1) (snd s)))"

definition capture :: "bool \<Rightarrow> nat \<Rightarrow> matcher \<Rightarrow> matcher" where
  "capture fwd i f s =
     map (\<lambda>s'. (fst s', (snd s')[(if fwd then 2 * i + 1 else 2 * i) := int (fst s')]))
       (f (fst s, (snd s)[(if fwd then 2 * i else 2 * i + 1) := int (fst s)]))"

definition look :: "bool \<Rightarrow> matcher \<Rightarrow> matcher" where
  "look negated f s =
     (case f s of
        [] \<Rightarrow> (if negated then [s] else [])
      | s' # _ \<Rightarrow> (if negated then [] else [(fst s, snd s')]))"

definition scoped_ctx :: "nat \<Rightarrow> nat \<Rightarrow> re_ctx \<Rightarrow> re_ctx" where
  "scoped_ctx add remove cx =
     cx\<lparr>cx_ci := (has_flag add RE_FLAG_I \<or> cx_ci cx) \<and> \<not> has_flag remove RE_FLAG_I,
        cx_da := (has_flag add RE_FLAG_S \<or> cx_da cx) \<and> \<not> has_flag remove RE_FLAG_S,
        cx_ml := (has_flag add RE_FLAG_M \<or> cx_ml cx) \<and> \<not> has_flag remove RE_FLAG_M\<rparr>"

section \<open>Nodes\<close>

fun mres :: "(nat \<Rightarrow> nat list) \<Rightarrow> js_string \<Rightarrow> re_ctx \<Rightarrow> bool \<Rightarrow> re_node \<Rightarrow> matcher" where
  "mres upper input cx fwd (RChar code) = consume input fwd (char_matches upper cx code)"
| "mres upper input cx fwd RAny = consume input fwd (\<lambda>c. cx_da cx \<or> \<not> isLineTerminator c)"
| "mres upper input cx fwd RUdot = consume_cp input fwd (\<lambda>c. cx_da cx \<or> \<not> isLineTerminator c)"
| "mres upper input cx fwd (RClass rs negated) =
     consume input fwd (\<lambda>c. class_member upper cx rs c \<noteq> negated)"
| "mres upper input cx fwd (RCpClass rs negated) = consume_cp input fwd (\<lambda>c. in_ranges rs c \<noteq> negated)"
| "mres upper input cx fwd RBol = guard (at_bol (cx_ml cx) input)"
| "mres upper input cx fwd REol = guard (at_eol (cx_ml cx) input)"
| "mres upper input cx fwd (RWordBoundary negated) = guard (\<lambda>sp. at_boundary input sp \<noteq> negated)"
| "mres upper input cx fwd (RBackref i) = backref input (cx_ci cx) fwd i"
| "mres upper input cx fwd (RLookaround n negated behind) =
     look negated (mres upper input cx (\<not> behind) n)"
| "mres upper input cx fwd (RModGroup add remove n) = mres upper input (scoped_ctx add remove cx) fwd n"
| "mres upper input cx fwd (RConcat parts) =
     (let ms = map (\<lambda>p. mres upper input cx fwd p) parts in in_order (if fwd then ms else rev ms))"
| "mres upper input cx fwd (RAlt options) = any_of (map (\<lambda>p. mres upper input cx fwd p) options)"
| "mres upper input cx fwd (RStar n greedy) =
     star input fwd greedy (\<lambda>s. mres upper input cx fwd n (clear_captures n s))"
| "mres upper input cx fwd (RPlus n greedy) =
     (let once = (\<lambda>s. mres upper input cx fwd n (clear_captures n s))
      in both once (star input fwd greedy once))"
| "mres upper input cx fwd (ROpt n greedy) = maybe greedy (mres upper input cx fwd n)"
| "mres upper input cx fwd (RRepeat n mn mx greedy) =
     both (in_order (replicate mn (mres upper input cx fwd n)))
       (case mx of
          None \<Rightarrow> star input fwd greedy (\<lambda>s. mres upper input cx fwd n (clear_captures n s))
        | Some m \<Rightarrow> in_order (replicate (m - mn) (maybe greedy (mres upper input cx fwd n))))"
| "mres upper input cx fwd (RGroup n cap _) =
     (case cap of
        None \<Rightarrow> mres upper input cx fwd n
      | Some i \<Rightarrow> capture fwd i (mres upper input cx fwd n))"

text \<open>One anchored attempt, and the search over start positions.\<close>

definition ref_match :: "(nat \<Rightarrow> nat list) \<Rightarrow> js_string \<Rightarrow> re_ctx \<Rightarrow> parsed_regex \<Rightarrow> nat \<Rightarrow> caps option" where
  "ref_match upper input cx p i =
     (case capture True 0 (mres upper input cx True (root p)) (i, replicate (2 * (numCaptures p + 1)) (- 1)) of
        [] \<Rightarrow> None
      | s # _ \<Rightarrow> Some (snd s))"

definition ref_search ::
  "(nat \<Rightarrow> nat list) \<Rightarrow> js_string \<Rightarrow> re_ctx \<Rightarrow> parsed_regex \<Rightarrow> nat \<Rightarrow> bool \<Rightarrow> caps option" where
  "ref_search upper input cx p start sticky =
     first_some (ref_match upper input cx p)
       (if sticky then (if start \<le> length input then [start] else []) else [start..<length input + 1])"

section \<open>Well-formed trees\<close>

fun all_caps :: "re_node \<Rightarrow> nat set" where
  "all_caps (RGroup n cap _) = set_option cap \<union> all_caps n"
| "all_caps (RConcat parts) = (\<Union>p \<in> set parts. all_caps p)"
| "all_caps (RAlt options) = (\<Union>p \<in> set options. all_caps p)"
| "all_caps (RStar n _) = all_caps n"
| "all_caps (RPlus n _) = all_caps n"
| "all_caps (ROpt n _) = all_caps n"
| "all_caps (RModGroup _ _ n) = all_caps n"
| "all_caps (RRepeat n _ _ _) = all_caps n"
| "all_caps (RLookaround n _ _) = all_caps n"
| "all_caps _ = {}"

fun backrefs :: "re_node \<Rightarrow> nat set" where
  "backrefs (RBackref i) = {i}"
| "backrefs (RGroup n cap _) = backrefs n"
| "backrefs (RConcat parts) = (\<Union>p \<in> set parts. backrefs p)"
| "backrefs (RAlt options) = (\<Union>p \<in> set options. backrefs p)"
| "backrefs (RStar n _) = backrefs n"
| "backrefs (RPlus n _) = backrefs n"
| "backrefs (ROpt n _) = backrefs n"
| "backrefs (RModGroup _ _ n) = backrefs n"
| "backrefs (RRepeat n _ _ _) = backrefs n"
| "backrefs (RLookaround n _ _) = backrefs n"
| "backrefs _ = {}"

text \<open>
  What the parser guarantees: units in range, ranges in order, non-empty alternations, groups numbered
  from the outside in, references to existing groups.
\<close>

fun proper_node :: "nat \<Rightarrow> re_node \<Rightarrow> bool" where
  "proper_node k (RChar c) = (c < 0x10000)"
| "proper_node k (RClass rs _) = ordered rs"
| "proper_node k (RCpClass rs _) = ordered rs"
| "proper_node k (RBackref i) = (i < k)"
| "proper_node k (RLookaround n _ _) = proper_node k n"
| "proper_node k (RModGroup _ _ n) = proper_node k n"
| "proper_node k (RConcat parts) = list_all (proper_node k) parts"
| "proper_node k (RAlt options) = (options \<noteq> [] \<and> list_all (proper_node k) options)"
| "proper_node k (RStar n _) = proper_node k n"
| "proper_node k (RPlus n _) = proper_node k n"
| "proper_node k (ROpt n _) = proper_node k n"
| "proper_node k (RRepeat n _ _ _) = proper_node k n"
| "proper_node k (RGroup n cap _) =
     (proper_node k n \<and> (case cap of None \<Rightarrow> True | Some i \<Rightarrow> i < k \<and> (\<forall>j \<in> all_caps n. i < j)))"
| "proper_node k _ = True"

definition well_formed_regex :: "parsed_regex \<Rightarrow> bool" where
  "well_formed_regex p \<longleftrightarrow> proper_node (numCaptures p + 1) (RGroup (root p) (Some 0) None) \<and> 0 \<notin> backrefs (root p)"

text \<open>
  What it does not guarantee: that no group is referred to from inside itself, as in \<^verbatim>\<open>(a\1)\<close>. A statement that
  needs this says so.
\<close>

fun no_self_reference :: "re_node \<Rightarrow> bool" where
  "no_self_reference (RGroup n cap _) =
     (no_self_reference n \<and> (case cap of None \<Rightarrow> True | Some i \<Rightarrow> i \<notin> backrefs n))"
| "no_self_reference (RLookaround n _ _) = no_self_reference n"
| "no_self_reference (RModGroup _ _ n) = no_self_reference n"
| "no_self_reference (RConcat parts) = list_all no_self_reference parts"
| "no_self_reference (RAlt options) = list_all no_self_reference options"
| "no_self_reference (RStar n _) = no_self_reference n"
| "no_self_reference (RPlus n _) = no_self_reference n"
| "no_self_reference (ROpt n _) = no_self_reference n"
| "no_self_reference (RRepeat n _ _ _) = no_self_reference n"
| "no_self_reference _ = True"

text \<open>Both in one pass over the tree, for the inductions.\<close>

fun wf_node :: "nat \<Rightarrow> re_node \<Rightarrow> bool" where
  "wf_node k (RChar c) = (c < 0x10000)"
| "wf_node k (RClass rs _) = ordered rs"
| "wf_node k (RCpClass rs _) = ordered rs"
| "wf_node k (RBackref i) = (i < k)"
| "wf_node k (RLookaround n _ _) = wf_node k n"
| "wf_node k (RModGroup _ _ n) = wf_node k n"
| "wf_node k (RConcat parts) = list_all (wf_node k) parts"
| "wf_node k (RAlt options) = (options \<noteq> [] \<and> list_all (wf_node k) options)"
| "wf_node k (RStar n _) = wf_node k n"
| "wf_node k (RPlus n _) = wf_node k n"
| "wf_node k (ROpt n _) = wf_node k n"
| "wf_node k (RRepeat n _ _ _) = wf_node k n"
| "wf_node k (RGroup n cap _) =
     (wf_node k n \<and> (case cap of None \<Rightarrow> True
        | Some i \<Rightarrow> i < k \<and> (\<forall>j \<in> all_caps n. i < j) \<and> i \<notin> backrefs n))"
| "wf_node k _ = True"

definition wf_parsed :: "parsed_regex \<Rightarrow> bool" where
  "wf_parsed p \<longleftrightarrow> wf_node (numCaptures p + 1) (RGroup (root p) (Some 0) None)"

lemma wf_node_iff: "wf_node k n \<longleftrightarrow> proper_node k n \<and> no_self_reference n"
  by (induction n) (auto simp: list_all_iff split: option.splits)

lemma wf_parsedI: "well_formed_regex p \<Longrightarrow> no_self_reference (root p) \<Longrightarrow> wf_parsed p"
  by (simp add: wf_parsed_def well_formed_regex_def wf_node_iff)

end
