(* ===== verification/Re_Outcomes.thy ===== *)
theory Re_Outcomes
  imports Re_Semantics
begin

text \<open>
  What every outcome of a well-formed node keeps: captures that are complete stay ordered and inside
  the input, positions move in the direction of the match, and a node that \<open>canMatchEmpty\<close> rejects
  moves strictly. These facts bound the iterations of a star and justify the emitter's choice of
  guards.
\<close>

definition pair_ok :: "js_string \<Rightarrow> caps \<Rightarrow> nat \<Rightarrow> bool" where
  "pair_ok input c i \<longleftrightarrow>
     c ! (2 * i) < 0 \<or> c ! (2 * i + 1) < 0 \<or>
     (c ! (2 * i) \<le> c ! (2 * i + 1) \<and> c ! (2 * i + 1) \<le> int (length input))"

text \<open>A state outside the groups \<open>Z\<close>, which are being matched.\<close>

definition good :: "nat \<Rightarrow> js_string \<Rightarrow> nat set \<Rightarrow> rstate \<Rightarrow> bool" where
  "good k input Z s \<longleftrightarrow>
     length (snd s) = 2 * k \<and> fst s \<le> length input \<and> (\<forall>i < k. i \<notin> Z \<longrightarrow> pair_ok input (snd s) i)"

definition ahead :: "bool \<Rightarrow> rstate \<Rightarrow> rstate \<Rightarrow> bool" where
  "ahead fwd s s' \<longleftrightarrow> (if fwd then fst s \<le> fst s' else fst s' \<le> fst s)"

definition safe :: "nat \<Rightarrow> js_string \<Rightarrow> nat set \<Rightarrow> bool \<Rightarrow> bool \<Rightarrow> matcher \<Rightarrow> bool" where
  "safe k input Z fwd nullable f \<longleftrightarrow>
     (\<forall>s s'. good k input Z s \<longrightarrow> s' \<in> set (f s) \<longrightarrow>
        good k input Z s' \<and> ahead fwd s s' \<and> (\<not> nullable \<longrightarrow> fst s' \<noteq> fst s))"

lemma safeI:
  "(\<And>s s'. good k input Z s \<Longrightarrow> s' \<in> set (f s) \<Longrightarrow>
      good k input Z s' \<and> ahead fwd s s' \<and> (\<not> nullable \<longrightarrow> fst s' \<noteq> fst s)) \<Longrightarrow> safe k input Z fwd nullable f"
  by (simp add: safe_def)

lemma safeD:
  assumes "safe k input Z fwd nullable f" "good k input Z s" "s' \<in> set (f s)"
  shows "good k input Z s'" "ahead fwd s s'" "\<not> nullable \<Longrightarrow> fst s' \<noteq> fst s"
  using assms unfolding safe_def by blast+

lemma safe_weaken: "safe k input Z fwd e f \<Longrightarrow> (e \<Longrightarrow> e') \<Longrightarrow> safe k input Z fwd e' f"
  by (auto simp: safe_def)

lemma ahead_refl [simp]: "ahead fwd s s"
  by (simp add: ahead_def)

lemma ahead_trans: "ahead fwd s t \<Longrightarrow> ahead fwd t u \<Longrightarrow> ahead fwd s u"
  by (auto simp: ahead_def split: if_splits)

lemma ahead_moves: "ahead fwd s t \<Longrightarrow> ahead fwd t u \<Longrightarrow> fst u = fst s \<longleftrightarrow> fst t = fst s \<and> fst u = fst t"
  by (auto simp: ahead_def split: if_splits)

lemma ahead_dist: "ahead fwd s t \<Longrightarrow> fst t \<noteq> fst s \<Longrightarrow> good k input Z t \<Longrightarrow> dist input fwd t < dist input fwd s"
  by (auto simp: ahead_def dist_def good_def split: if_splits)

section \<open>Combinators\<close>

lemma safe_in_order:
  "list_all2 (\<lambda>e f. safe k input Z fwd e f) es fs \<Longrightarrow> safe k input Z fwd (list_all id es) (in_order fs)"
proof (induction rule: list_all2_induct)
  case Nil
  show ?case by (rule safeI) simp
next
  case (Cons e es f fs)
  show ?case
  proof (rule safeI)
    fix s u assume s: "good k input Z s" and "u \<in> set (in_order (f # fs) s)"
    then obtain t where t: "t \<in> set (f s)" "u \<in> set (in_order fs t)" by auto
    note a = safeD [OF Cons(1) s t(1)] and b = safeD [OF Cons.IH safeD(1) [OF Cons(1) s t(1)] t(2)]
    from a b show "good k input Z u \<and> ahead fwd s u \<and> (\<not> list_all id (e # es) \<longrightarrow> fst u \<noteq> fst s)"
      using ahead_trans ahead_moves by (metis id_apply list.pred_inject(2))
  qed
qed

lemma safe_copies: "safe k input Z fwd e f \<Longrightarrow> safe k input Z fwd (n = 0 \<or> e) (in_order (replicate n f))"
  using safe_in_order [of k input Z fwd "replicate n e" "replicate n f"]
  by (auto simp: list_all2_conv_all_nth list_all_length intro: safe_weaken)

lemma in_order_single [simp]: "in_order [g] = g"
proof
  fix s
  have "in_order [] = (\<lambda>s. [s])" by (rule ext) simp
  then show "in_order [g] s = g s" by simp
qed

lemma both_in_order: "both f g = in_order [f, g]"
  by (rule ext) (simp add: both_def del: in_order.simps(1))

lemma safe_both:
  assumes "safe k input Z fwd e f" "safe k input Z fwd e' g"
  shows "safe k input Z fwd (e \<and> e') (both f g)"
  using safe_in_order [of k input Z fwd "[e, e']" "[f, g]"] assms
  by (simp add: both_in_order del: in_order.simps)

lemma safe_any_of: "(\<And>f. f \<in> set fs \<Longrightarrow> safe k input Z fwd e f) \<Longrightarrow> safe k input Z fwd e (any_of fs)"
proof (rule safeI)
  fix s u assume f: "\<And>f. f \<in> set fs \<Longrightarrow> safe k input Z fwd e f" and s: "good k input Z s"
    and "u \<in> set (any_of fs s)"
  then obtain f where "f \<in> set fs" "u \<in> set (f s)" by (auto simp: any_of_def)
  with safeD [OF f s, of f u] show "good k input Z u \<and> ahead fwd s u \<and> (\<not> e \<longrightarrow> fst u \<noteq> fst s)" by simp
qed

lemma safe_maybe: "safe k input Z fwd e f \<Longrightarrow> safe k input Z fwd True (maybe greedy f)"
  by (auto simp: safe_def maybe_def split: if_splits)

lemma safe_star_iter: "safe k input Z fwd e f \<Longrightarrow> safe k input Z fwd True (star_iter greedy f n)"
proof (induction n)
  case 0
  show ?case by (rule safeI) simp
next
  case (Suc n)
  show ?case
  proof (rule safeI)
    fix s u assume s: "good k input Z s" and "u \<in> set (star_iter greedy f (Suc n) s)"
    then consider "u = s" | t where "t \<in> set (f s)" "u \<in> set (star_iter greedy f n t)"
      by (auto simp: maybe_def split: if_splits)
    then show "good k input Z u \<and> ahead fwd s u \<and> (\<not> True \<longrightarrow> fst u \<noteq> fst s)"
    proof cases
      case (2 t)
      note a = safeD [OF Suc.prems s 2(1)]
      note b = safeD [OF Suc.IH [OF Suc.prems] a(1) 2(2)]
      from a b show ?thesis by (auto intro: ahead_trans)
    qed (use s in simp)
  qed
qed

lemma safe_star: "safe k input Z fwd e f \<Longrightarrow> safe k input Z fwd True (star input fwd greedy f)"
  using safe_star_iter unfolding safe_def star_def by blast

lemma clear_slots_nth:
  assumes "j < length c"
  shows "clear_slots a b c ! j = (if a \<le> j \<and> j \<le> b then - 1 else c ! j)"
proof -
  have "fold (\<lambda>i c. c[i := - 1]) xs c ! j = (if j \<in> set xs then - 1 else c ! j)"
    if "j < length c" for xs and c :: caps
    using that by (induction xs arbitrary: c) (auto simp: nth_list_update)
  then show ?thesis using assms by (auto simp: clear_slots_def)
qed

lemma clear_captures_fst [simp]: "fst (clear_captures n s) = fst s"
  by (auto simp: clear_captures_def split: option.splits)

lemma good_clear: "good k input Z s \<Longrightarrow> good k input Z (clear_captures n s)"
  by (auto simp: good_def clear_captures_def pair_ok_def clear_slots_nth split: option.splits)

lemma safe_clear: "safe k input Z fwd e f \<Longrightarrow> safe k input Z fwd e (\<lambda>s. f (clear_captures n s))"
  unfolding safe_def ahead_def by (metis good_clear clear_captures_fst)

section \<open>Captures\<close>

definition keeps :: "nat \<Rightarrow> matcher \<Rightarrow> bool" where
  "keeps i f \<longleftrightarrow> (\<forall>s s'. s' \<in> set (f s) \<longrightarrow> take (2 * i + 2) (snd s') = take (2 * i + 2) (snd s))"

lemma keepsI:
  "(\<And>s s'. s' \<in> set (f s) \<Longrightarrow> take (2 * i + 2) (snd s') = take (2 * i + 2) (snd s)) \<Longrightarrow> keeps i f"
  unfolding keeps_def by blast

lemma keepsD: "keeps i f \<Longrightarrow> s' \<in> set (f s) \<Longrightarrow> take (2 * i + 2) (snd s') = take (2 * i + 2) (snd s)"
  unfolding keeps_def by blast

lemma good_insert: "good k input Z s \<Longrightarrow> good k input (insert i Z) s"
  by (simp add: good_def)

lemma good_set_open: "good k input (insert i Z) s \<Longrightarrow> a \<in> {2 * i, 2 * i + 1} \<Longrightarrow> good k input (insert i Z) (fst s, (snd s)[a := v])"
  by (auto simp: good_def pair_ok_def nth_list_update)

lemma safe_capture:
  assumes f: "safe k input (insert i Z) fwd e f" and keep: "keeps i f" and i: "i < k"
  shows "safe k input Z fwd e (capture fwd i f)"
proof (rule safeI)
  fix s u assume s: "good k input Z s" and u: "u \<in> set (capture fwd i f s)"
  define a b where "a = (if fwd then 2 * i else 2 * i + 1)" and "b = (if fwd then 2 * i + 1 else 2 * i)"
  define t where "t = (fst s, (snd s)[a := int (fst s)])"
  have t: "good k input (insert i Z) t"
    unfolding t_def by (rule good_set_open [OF good_insert [OF s]]) (simp add: a_def)
  from u obtain t' where t': "t' \<in> set (f t)" and u: "u = (fst t', (snd t')[b := int (fst t')])"
    by (auto simp: capture_def t_def a_def b_def)
  note sf = safeD [OF f t t']
  have len: "length (snd t') = 2 * k" "length (snd s) = 2 * k" "fst s \<le> length input" using sf(1) s by (auto simp: good_def)
  have "take (2 * i + 2) (snd t') ! a = take (2 * i + 2) (snd t) ! a"
    using keep t' unfolding keeps_def by metis
  then have a: "snd t' ! a = int (fst s)" using len i by (simp add: t_def a_def split: if_splits)
  have "pair_ok input (snd u) i"
    using sf(1,2) a i len by (auto simp: u pair_ok_def a_def b_def ahead_def t_def good_def split: if_splits)
  moreover have "good k input (insert i Z) u"
    unfolding u by (rule good_set_open [OF sf(1)]) (simp add: b_def)
  ultimately show "good k input Z u \<and> ahead fwd s u \<and> (\<not> e \<longrightarrow> fst u \<noteq> fst s)"
    using sf by (auto simp: good_def u ahead_def t_def)
qed

lemma safe_look:
  assumes "safe k input Z d e f"
  shows "safe k input Z fwd True (look negated f)"
proof (rule safeI)
  fix s u assume s: "good k input Z s" and u: "u \<in> set (look negated f s)"
  show "good k input Z u \<and> ahead fwd s u \<and> (\<not> True \<longrightarrow> fst u \<noteq> fst s)"
  proof (cases "f s")
    case (Cons t ts)
    then have "good k input Z t" by (intro safeD(1) [OF assms s]) simp
    with u Cons s show ?thesis by (auto simp: look_def good_def ahead_def split: if_splits)
  qed (use u s in \<open>auto simp: look_def split: if_splits\<close>)
qed

section \<open>Atoms\<close>

lemma forwardCodePoint_wide:
  assumes "valid_units input" "sp < length input" "forwardCodePoint input sp = Some cp" "0xffff < cp"
  shows "sp + 1 < length input"
proof -
  have "input ! sp < 65536" using assms(1,2) by (simp add: valid_units_def list_all_length)
  with assms(3,4) show ?thesis by (auto simp: forwardCodePoint_def Let_def split: if_splits)
qed

lemma readCodePoint_width:
  assumes "valid_units input" "sp \<le> length input" "readCodePoint input fwd sp = Some (cp, w)"
  shows "0 < w" "if fwd then sp + w \<le> length input else w \<le> sp"
proof -
  show "0 < w" using assms(3) by (auto simp: readCodePoint_def Let_def split: if_splits option.splits)
  show "if fwd then sp + w \<le> length input else w \<le> sp"
  proof (cases fwd)
    case True
    with assms(3) have "sp < length input" "forwardCodePoint input sp = Some cp" "w = (if 0xffff < cp then 2 else 1)"
      by (auto simp: readCodePoint_def inBounds_def split: if_splits option.splits)
    with forwardCodePoint_wide [OF assms(1)] True show ?thesis by fastforce
  next
    case False
    with assms(3) show ?thesis by (auto simp: readCodePoint_def inBounds_def Let_def split: if_splits)
  qed
qed

lemma safe_consume: "safe k input Z fwd False (consume input fwd p)"
  by (rule safeI) (auto simp: consume_def good_def ahead_def move_def inBounds_def split: if_splits)

lemma safe_consume_cp:
  assumes "valid_units input"
  shows "safe k input Z fwd False (consume_cp input fwd p)"
proof (rule safeI)
  fix s u assume s: "good k input Z s" and "u \<in> set (consume_cp input fwd p s)"
  then obtain cp w where w: "readCodePoint input fwd (fst s) = Some (cp, w)" "u = (move fwd (fst s) w, snd s)"
    by (cases "readCodePoint input fwd (fst s)") (auto simp: consume_cp_def split: if_splits)
  have "fst s \<le> length input" using s by (simp add: good_def)
  from readCodePoint_width [OF assms this w(1)] s w(2)
  show "good k input Z u \<and> ahead fwd s u \<and> (\<not> False \<longrightarrow> fst u \<noteq> fst s)"
    by (auto simp: good_def ahead_def move_def split: if_splits)
qed

lemma safe_guard: "safe k input Z fwd True (guard p)"
  by (rule safeI) (auto simp: guard_def split: if_splits)

lemma safe_backref: "safe k input Z fwd True (backref input ci fwd i)"
  by (rule safeI) (auto simp: backref_def Let_def good_def ahead_def move_def split: if_splits)

section \<open>Nodes\<close>

lemma keeps_in_order: "(\<And>f. f \<in> set fs \<Longrightarrow> keeps i f) \<Longrightarrow> keeps i (in_order fs)"
proof (induction fs)
  case (Cons f fs)
  have f: "keeps i f" "keeps i (in_order fs)" using Cons by auto
  show ?case
  proof (rule keepsI)
    fix s u assume "u \<in> set (in_order (f # fs) s)"
    then obtain t where "t \<in> set (f s)" "u \<in> set (in_order fs t)" by auto
    with keepsD [OF f(1), of t s] keepsD [OF f(2), of u t]
    show "take (2 * i + 2) (snd u) = take (2 * i + 2) (snd s)" by simp
  qed
qed (simp add: keeps_def)

lemma keeps_both: "keeps i f \<Longrightarrow> keeps i g \<Longrightarrow> keeps i (both f g)"
  using keeps_in_order [of "[f, g]" i] by (auto simp: both_in_order simp del: in_order.simps)

lemma keeps_any_of: "(\<And>f. f \<in> set fs \<Longrightarrow> keeps i f) \<Longrightarrow> keeps i (any_of fs)"
proof (rule keepsI)
  fix s u assume f: "\<And>f. f \<in> set fs \<Longrightarrow> keeps i f" and "u \<in> set (any_of fs s)"
  then obtain f where "f \<in> set fs" "u \<in> set (f s)" by (auto simp: any_of_def)
  then show "take (2 * i + 2) (snd u) = take (2 * i + 2) (snd s)" using keepsD [OF f] by blast
qed

lemma keeps_maybe: "keeps i f \<Longrightarrow> keeps i (maybe greedy f)"
  by (rule keepsI) (auto simp: maybe_def dest: keepsD split: if_splits)

lemma keeps_star: "keeps i f \<Longrightarrow> keeps i (star input fwd greedy f)"
proof -
  assume f: "keeps i f"
  have "keeps i (star_iter greedy f n)" for n
  proof (induction n)
    case (Suc n)
    show ?case
    proof (rule keepsI)
      fix s u assume "u \<in> set (star_iter greedy f (Suc n) s)"
      then consider "u = s" | t where "t \<in> set (f s)" "u \<in> set (star_iter greedy f n t)"
        by (auto simp: maybe_def split: if_splits)
      then show "take (2 * i + 2) (snd u) = take (2 * i + 2) (snd s)"
        by cases (use keepsD [OF f] keepsD [OF Suc] in auto)
    qed
  qed (simp add: keeps_def)
  then show ?thesis unfolding keeps_def star_def by blast
qed

lemma keeps_clear:
  assumes "keeps i f" "\<And>j. j \<in> cap_indices n \<Longrightarrow> i < j"
  shows "keeps i (\<lambda>s. f (clear_captures n s))"
proof -
  have "take (2 * i + 2) (snd (clear_captures n s)) = take (2 * i + 2) (snd s)" for s
  proof (cases "captureSpan n")
    case (Some r)
    then have "cap_indices n \<noteq> {}" "fst r = Min (cap_indices n)"
      by (auto simp: captureSpan_hull hull_def split: if_splits)
    then have "i < fst r" using assms(2) by simp
    then show ?thesis using Some
      by (intro nth_equalityI) (auto simp: clear_captures_def clear_slots_nth split: prod.splits)
  qed (simp add: clear_captures_def)
  then show ?thesis using assms(1) unfolding keeps_def by metis
qed

lemma keeps_capture: "keeps i f \<Longrightarrow> i < j \<Longrightarrow> keeps i (capture fwd j f)"
  unfolding keeps_def capture_def
proof (intro allI impI)
  fix s u
  assume f: "\<forall>s s'. s' \<in> set (f s) \<longrightarrow> take (2 * i + 2) (snd s') = take (2 * i + 2) (snd s)" and "i < j"
  assume "u \<in> set (map (\<lambda>s'. (fst s', (snd s')[(if fwd then 2 * j + 1 else 2 * j) := int (fst s')]))
            (f (fst s, (snd s)[(if fwd then 2 * j else 2 * j + 1) := int (fst s)])))"
  then obtain t where t: "t \<in> set (f (fst s, (snd s)[(if fwd then 2 * j else 2 * j + 1) := int (fst s)]))"
    "u = (fst t, (snd t)[(if fwd then 2 * j + 1 else 2 * j) := int (fst t)])" by auto
  have "take (2 * i + 2) (snd t) = take (2 * i + 2) (snd s)"
    using f t(1) \<open>i < j\<close> by (auto simp: take_list_update_ge simp del: split_paired_All split: if_splits)
  then show "take (2 * i + 2) (snd u) = take (2 * i + 2) (snd s)"
    using t(2) \<open>i < j\<close> by (auto simp: take_list_update_ge)
qed

lemma keeps_look: "keeps i f \<Longrightarrow> keeps i (look negated f)"
proof -
  assume f: "keeps i f"
  have "take (2 * i + 2) (snd u) = take (2 * i + 2) (snd s)" if u: "u \<in> set (look negated f s)" for s u
  proof (cases "f s")
    case (Cons t ts)
    then have "t \<in> set (f s)" by simp
    then have "take (2 * i + 2) (snd t) = take (2 * i + 2) (snd s)" using f unfolding keeps_def by blast
    with Cons u show ?thesis by (auto simp: look_def split: if_splits)
  qed (use u in \<open>auto simp: look_def split: if_splits\<close>)
  then show ?thesis unfolding keeps_def by blast
qed

lemma cap_indices_all_caps: "cap_indices n \<subseteq> all_caps n"
  by (induction n rule: cap_indices.induct) auto

lemma keeps_mres: "(\<And>j. j \<in> all_caps n \<Longrightarrow> i < j) \<Longrightarrow> keeps i (mres upper input cx fwd n)"
proof (induction n arbitrary: cx fwd)
  case (RConcat parts)
  have "keeps i (mres upper input cx fwd p)" if "p \<in> set parts" for p
    by (rule RConcat.IH [OF that], rule RConcat.prems) (use that in auto)
  then show ?case by (auto simp: Let_def intro!: keeps_in_order)
next
  case (RAlt options)
  have "keeps i (mres upper input cx fwd p)" if "p \<in> set options" for p
    by (rule RAlt.IH [OF that], rule RAlt.prems) (use that in auto)
  then show ?case by (auto intro!: keeps_any_of)
next
  case (RStar n g)
  then show ?case using cap_indices_all_caps [of n] by (auto intro!: keeps_star keeps_clear)
next
  case (RPlus n g)
  then show ?case using cap_indices_all_caps [of n] by (auto simp: Let_def intro!: keeps_both keeps_star keeps_clear)
next
  case (RRepeat n mn mx g)
  then have n: "keeps i (mres upper input cx fwd n)" "keeps i (\<lambda>s. mres upper input cx fwd n (clear_captures n s))"
    using cap_indices_all_caps [of n] by (auto intro!: keeps_clear)
  show ?case
    by (auto intro!: n keeps_both keeps_in_order keeps_star keeps_maybe split: option.splits)
next
  case (RGroup n cap name)
  then show ?case by (auto intro!: keeps_capture split: option.splits)
next
  case (RBackref j)
  show ?case by (auto simp: keeps_def backref_def Let_def)
qed (auto simp: keeps_look keeps_maybe, auto simp: keeps_def consume_def consume_cp_def guard_def split: option.splits)

lemma safe_mres:
  assumes val: "valid_units input"
  shows "wf_node k n \<Longrightarrow> safe k input Z fwd (canMatchEmpty n) (mres upper input cx fwd n)"
proof (induction n arbitrary: cx fwd Z)
  case (RConcat parts)
  let ?ps = "if fwd then parts else rev parts"
  have "list_all2 (\<lambda>e f. safe k input Z fwd e f) (map canMatchEmpty ?ps) (map (\<lambda>p. mres upper input cx fwd p) ?ps)"
    using RConcat by (simp add: list.rel_map list.rel_refl_strong list_all_iff)
  from safe_in_order [OF this] show ?case
    by (auto simp: Let_def rev_map list_all_iff elim!: safe_weaken)
next
  case (RAlt options)
  show ?case unfolding mres.simps
  proof (rule safe_any_of)
    fix f assume "f \<in> set (map (\<lambda>p. mres upper input cx fwd p) options)"
    then obtain p where p: "p \<in> set options" "f = mres upper input cx fwd p" by auto
    have "safe k input Z fwd (canMatchEmpty p) f"
      unfolding p(2) using RAlt.prems p(1) by (intro RAlt.IH [OF p(1)]) (simp add: list_all_iff)
    then show "safe k input Z fwd (canMatchEmpty (RAlt options)) f"
      by (rule safe_weaken) (use p in \<open>auto simp: list_ex_iff\<close>)
  qed
next
  case (RStar n g)
  then show ?case by (auto intro!: safe_star safe_clear)
next
  case (RPlus n g)
  have "safe k input Z fwd (canMatchEmpty n) (\<lambda>s. mres upper input cx fwd n (clear_captures n s))"
    using RPlus by (intro safe_clear) simp
  from safe_both [OF this safe_star [OF this]] show ?case by (simp add: Let_def)
next
  case (ROpt n g)
  then show ?case by (auto intro!: safe_maybe)
next
  case (RRepeat n mn mx g)
  let ?f = "mres upper input cx fwd n"
  have f: "safe k input Z fwd (canMatchEmpty n) ?f" using RRepeat by simp
  have "safe k input Z fwd True (in_order (replicate (m - mn) (maybe g ?f)))" for m
    using safe_copies [OF safe_maybe [OF f]] by (rule safe_weaken) simp
  with safe_star [OF safe_clear [OF f]]
  have "safe k input Z fwd True (case mx of None \<Rightarrow> star input fwd g (\<lambda>s. ?f (clear_captures n s))
        | Some m \<Rightarrow> in_order (replicate (m - mn) (maybe g ?f)))"
    by (simp split: option.splits)
  from safe_both [OF safe_copies [OF f] this] show ?case by simp
next
  case (RGroup n cap name)
  then show ?case by (auto intro!: safe_capture keeps_mres split: option.splits)
next
  case (RLookaround n negated behind)
  then show ?case by (auto intro!: safe_look)
qed (auto simp: safe_consume safe_consume_cp [OF val] safe_guard safe_backref)

end
