(* ===== verification/Re_Backtrack.thy ===== *)
theory Re_Backtrack
  imports Re_Vm
begin

text \<open>
  The meaning of a program as a finite backtracking tree. \<open>bt\<close> explores both arms of every fork and
  answers the first acceptance in priority order; it is the bridge between the three parts of the
  engine: the VM with its stack and budget computes it, the linear matcher computes it, and compiled
  patterns have it. The number is the height of the tree.
\<close>

inductive bt ::
  "nat list \<Rightarrow> nat list \<Rightarrow> js_string \<Rightarrow> bool \<Rightarrow> nat \<Rightarrow> nat \<Rightarrow> caps \<Rightarrow> nat \<Rightarrow> caps option \<Rightarrow> bool"
  for prog tbl input
where
  bt_back: "vm_action prog tbl input fwd pc sp c = Backtrack \<Longrightarrow> bt prog tbl input fwd pc sp c 0 None"
| bt_accept:
    "vm_action prog tbl input fwd pc sp c = Accept \<Longrightarrow> bt prog tbl input fwd pc sp c 0 (Some c)"
| bt_advance:
    "\<lbrakk> vm_action prog tbl input fwd pc sp c = Advance pc' sp' c';
       bt prog tbl input fwd pc' sp' c' h r \<rbrakk>
     \<Longrightarrow> bt prog tbl input fwd pc sp c (Suc h) r"
| bt_fork:
    "\<lbrakk> vm_action prog tbl input fwd pc sp c = Fork a b;
       bt prog tbl input fwd a sp c h1 r1; bt prog tbl input fwd b sp c h2 r2 \<rbrakk>
     \<Longrightarrow> bt prog tbl input fwd pc sp c (Suc (max h1 h2)) (orelse r1 r2)"
| bt_look_go:
    "\<lbrakk> vm_action prog tbl input fwd pc sp c = Look entry behind negated;
       bt prog tbl input (\<not> behind) entry sp c h1 r1; (r1 = None) = negated;
       bt prog tbl input fwd (pc + 1) sp (if negated then c else the r1) h2 r2 \<rbrakk>
     \<Longrightarrow> bt prog tbl input fwd pc sp c (Suc (max h1 h2)) r2"
| bt_look_fail:
    "\<lbrakk> vm_action prog tbl input fwd pc sp c = Look entry behind negated;
       bt prog tbl input (\<not> behind) entry sp c h1 r1; (r1 = None) \<noteq> negated \<rbrakk>
     \<Longrightarrow> bt prog tbl input fwd pc sp c (Suc h1) None"

inductive_cases btE: "bt prog tbl input fwd pc sp c h r"

lemma bt_backD:
  "\<lbrakk> bt prog tbl input fwd pc sp c h r; vm_action prog tbl input fwd pc sp c = Backtrack \<rbrakk> \<Longrightarrow> r = None"
  by (erule btE) simp_all

lemma bt_acceptD:
  "\<lbrakk> bt prog tbl input fwd pc sp c h r; vm_action prog tbl input fwd pc sp c = Accept \<rbrakk> \<Longrightarrow> r = Some c"
  by (erule btE) simp_all

lemma bt_advanceD:
  "\<lbrakk> bt prog tbl input fwd pc sp c h r; vm_action prog tbl input fwd pc sp c = Advance pc' sp' c' \<rbrakk>
   \<Longrightarrow> \<exists>h'. h = Suc h' \<and> bt prog tbl input fwd pc' sp' c' h' r"
  by (erule btE) auto

definition result_of :: "caps option \<Rightarrow> vm_result" where
  "result_of r = (case r of Some c \<Rightarrow> Matched c | None \<Rightarrow> NoMatch)"

lemma result_of_simps [simp]: "result_of None = NoMatch" "result_of (Some c) = Matched c"
  by (simp_all add: result_of_def)

lemma result_of_neq [simp]: "result_of r \<noteq> RangeErr" "result_of r \<noteq> VmStuck"
  by (cases r; simp)+

lemma result_of_inject [simp]: "result_of r = result_of r' \<longleftrightarrow> r = r'"
  by (cases r; cases r') auto

section \<open>Determinism\<close>

lemma bt_determ:
  "bt prog tbl input fwd pc sp c h r \<Longrightarrow> bt prog tbl input fwd pc sp c h' r' \<Longrightarrow> h = h' \<and> r = r'"
proof (induction arbitrary: h' r' rule: bt.induct)
  case (bt_back fwd pc sp c)
  from bt_back(2) show ?case by (rule btE) (use bt_back(1) in auto)
next
  case (bt_accept fwd pc sp c)
  from bt_accept(2) show ?case by (rule btE) (use bt_accept(1) in auto)
next
  case (bt_advance fwd pc sp c pc' sp' c' h r)
  from bt_advance(4) show ?case by (rule btE) (use bt_advance(1,3) in auto)
next
  case (bt_fork fwd pc sp c a b h1 r1 h2 r2)
  from bt_fork(6) show ?case by (rule btE) (use bt_fork(1,4,5) in \<open>auto dest!: bt_fork(4,5)\<close>)
next
  case (bt_look_go fwd pc sp c entry behind negated h1 r1 h2 r2)
  from bt_look_go(7) show ?case
    by (rule btE) (use bt_look_go(1,3) bt_look_go(6) in \<open>auto dest!: bt_look_go(5)\<close>)
next
  case (bt_look_fail fwd pc sp c entry behind negated h1 r1)
  from bt_look_fail(5) show ?case
    by (rule btE) (use bt_look_fail(1,3) in \<open>auto dest!: bt_look_fail(4)\<close>)
qed

section \<open>The VM computes the tree\<close>

text \<open>What the loop does once the current alternative has answered \<open>r\<close>.\<close>

definition resume ::
  "nat list \<Rightarrow> nat list \<Rightarrow> js_string \<Rightarrow> nat \<Rightarrow> nat \<Rightarrow> nat \<Rightarrow> bool \<Rightarrow> caps option \<Rightarrow> frame list \<Rightarrow> vm_result"
where
  "resume prog tbl input budget depth n fwd r stack =
     (case r of
        Some c \<Rightarrow> Matched c
      | None \<Rightarrow>
          (case stack of
             [] \<Rightarrow> NoMatch
           | (pc, sp, c) # stack' \<Rightarrow> vm_loop prog tbl input budget depth n fwd pc sp c stack'))"

lemma resume_simps [simp]:
  "resume prog tbl input budget depth n fwd (Some c) stack = Matched c"
  "resume prog tbl input budget depth n fwd None [] = NoMatch"
  "resume prog tbl input budget depth n fwd None ((pc, sp, c) # stack) =
     vm_loop prog tbl input budget depth n fwd pc sp c stack"
  "resume prog tbl input budget depth n fwd r [] = result_of r"
  by (auto simp: resume_def split: option.splits)

text \<open>
  \<open>steps_to k B d\<close>: with a budget of at least \<open>B\<close> for nested calls and a depth of at least \<open>d\<close>, the loop
  needs exactly \<open>k\<close> of its own steps to answer \<open>r\<close>.
\<close>

definition steps_to ::
  "nat list \<Rightarrow> nat list \<Rightarrow> js_string \<Rightarrow> bool \<Rightarrow> nat \<Rightarrow> nat \<Rightarrow> caps \<Rightarrow> caps option \<Rightarrow> nat \<Rightarrow> nat \<Rightarrow> nat \<Rightarrow> bool"
where
  "steps_to prog tbl input fwd pc sp c r k B d \<longleftrightarrow>
     (\<forall>budget depth n stack. d \<le> depth \<longrightarrow> B \<le> budget \<longrightarrow>
        vm_loop prog tbl input budget depth (k + n) fwd pc sp c stack =
        resume prog tbl input budget depth n fwd r stack)"

lemma steps_toD:
  "\<lbrakk> steps_to prog tbl input fwd pc sp c r k B d; d \<le> depth; B \<le> budget \<rbrakk> \<Longrightarrow>
   vm_loop prog tbl input budget depth (k + n) fwd pc sp c stack =
   resume prog tbl input budget depth n fwd r stack"
  by (simp add: steps_to_def)

lemma steps_to_call:
  assumes "steps_to prog tbl input fwd pc sp c r k B d" "d \<le> depth" "B \<le> budget" "k \<le> m"
  shows "vm_loop prog tbl input budget depth m fwd pc sp c [] = result_of r"
  using steps_toD [OF assms(1-3), of "m - k" "[]"] assms(4) by simp

lemma steps_to_advance:
  assumes "vm_action prog tbl input fwd pc sp c = Advance pc' sp' c'"
    "steps_to prog tbl input fwd pc' sp' c' r k B d"
  shows "steps_to prog tbl input fwd pc sp c r (Suc k) B d"
  using assms by (simp add: steps_to_def)

lemma steps_to_fork:
  assumes "vm_action prog tbl input fwd pc sp c = Fork a b"
    "steps_to prog tbl input fwd a sp c r1 k1 B1 d1" "steps_to prog tbl input fwd b sp c r2 k2 B2 d2"
  shows "steps_to prog tbl input fwd pc sp c (orelse r1 r2) (Suc (k1 + k2)) (max B1 B2) (max d1 d2)"
  unfolding steps_to_def
proof (intro allI impI)
  fix budget depth n and stack :: "frame list"
  assume "max d1 d2 \<le> depth" "max B1 B2 \<le> budget"
  then show "vm_loop prog tbl input budget depth (Suc (k1 + k2) + n) fwd pc sp c stack =
      resume prog tbl input budget depth n fwd (orelse r1 r2) stack"
    using assms(1) steps_toD [OF assms(2), of depth budget "k2 + n" "(b, sp, c) # stack"]
      steps_toD [OF assms(3), of depth budget n stack]
    by (cases r1) (auto simp: add.assoc)
qed

lemma steps_to_look_go:
  assumes act: "vm_action prog tbl input fwd pc sp c = Look entry behind negated"
    and sub: "steps_to prog tbl input (\<not> behind) entry sp c r1 k1 B1 d1"
    and neg: "(r1 = None) = negated"
    and rest: "steps_to prog tbl input fwd (pc + 1) sp (if negated then c else the r1) r2 k2 B2 d2"
  shows "steps_to prog tbl input fwd pc sp c r2 (Suc k2) (max k1 (max B1 B2)) (Suc (max d1 d2))"
  unfolding steps_to_def
proof (intro allI impI)
  fix budget depth n and stack :: "frame list"
  assume d: "Suc (max d1 d2) \<le> depth" and B: "max k1 (max B1 B2) \<le> budget"
  obtain depth' where depth: "depth = Suc depth'" using d by (cases depth) auto
  have "vm_loop prog tbl input budget depth' budget (\<not> behind) entry sp c [] = result_of r1"
    using steps_to_call [OF sub, of depth' budget budget] d B depth by simp
  then show "vm_loop prog tbl input budget depth (Suc k2 + n) fwd pc sp c stack =
      resume prog tbl input budget depth n fwd r2 stack"
    using steps_toD [OF rest, of depth budget n stack] act neg depth d B
    by (cases r1) auto
qed

lemma steps_to_look_fail:
  assumes act: "vm_action prog tbl input fwd pc sp c = Look entry behind negated"
    and sub: "steps_to prog tbl input (\<not> behind) entry sp c r1 k1 B1 d1"
    and neg: "(r1 = None) \<noteq> negated"
  shows "steps_to prog tbl input fwd pc sp c None 1 (max k1 B1) (Suc d1)"
  unfolding steps_to_def
proof (intro allI impI)
  fix budget depth n and stack :: "frame list"
  assume d: "Suc d1 \<le> depth" and B: "max k1 B1 \<le> budget"
  obtain depth' where depth: "depth = Suc depth'" using d by (cases depth) auto
  have "vm_loop prog tbl input budget depth' budget (\<not> behind) entry sp c [] = result_of r1"
    using steps_to_call [OF sub, of depth' budget budget] d B depth by simp
  then show "vm_loop prog tbl input budget depth (1 + n) fwd pc sp c stack =
      resume prog tbl input budget depth n fwd None stack"
    using act neg depth by (cases r1) (auto simp: resume_def)
qed

lemma bt_steps_to:
  "bt prog tbl input fwd pc sp c h r \<Longrightarrow> \<exists>k B d. steps_to prog tbl input fwd pc sp c r k B d"
proof (induction rule: bt.induct)
  case (bt_back fwd pc sp c)
  then show ?case by (intro exI [of _ 1] exI [of _ 0]) (auto simp: steps_to_def resume_def)
next
  case (bt_accept fwd pc sp c)
  then show ?case by (intro exI [of _ 1] exI [of _ 0]) (auto simp: steps_to_def resume_def)
qed (blast intro: steps_to_advance steps_to_fork steps_to_look_go steps_to_look_fail)+

section \<open>The budget only ever adds RangeErrors\<close>

lemma vm_loop_mono:
  "\<lbrakk> vm_loop prog tbl input budget depth n fwd pc sp c stack = x; x \<noteq> RangeErr;
     budget \<le> budget'; depth \<le> depth'; n \<le> n' \<rbrakk>
   \<Longrightarrow> vm_loop prog tbl input budget' depth' n' fwd pc sp c stack = x"
proof (induction prog tbl input budget depth n fwd pc sp c stack arbitrary: x depth' n'
    rule: vm_loop.induct)
  case (1 prog tbl input budget depth fwd pc sp caps stack)
  then show ?case by simp
next
  case (2 prog tbl input budget depth n fwd pc sp caps stack)
  obtain m where n': "n' = Suc m" "n \<le> m" using "2.prems"(5) by (cases n') auto
  show ?case
  proof (cases "vm_action prog tbl input fwd pc sp caps")
    case (Look entry behind negated)
    then obtain e where e: "depth = Suc e" using "2.prems"(1,2) by (cases depth) auto
    obtain e' where e': "depth' = Suc e'" "e \<le> e'" using "2.prems"(4) e by (cases depth') auto
    define y where
      "y = vm_loop prog tbl input budget e budget (\<not> behind) entry sp caps []"
    have y: "y \<noteq> RangeErr" using "2.prems"(1,2) Look e by (auto simp: y_def)
    have sub: "vm_loop prog tbl input budget' e' budget' (\<not> behind) entry sp caps [] = y"
      by (rule "2.IH"(3) [OF Look e]) (use y e' "2.prems"(3) in \<open>simp_all add: y_def\<close>)
    show ?thesis
    proof (cases y)
      case (Matched sub')
      then show ?thesis
        using "2.prems" Look e e' n' sub y "2.IH"(4,5) [OF Look e]
        by (auto simp: y_def split: if_splits list.splits prod.splits)
    next
      case NoMatch
      then show ?thesis
        using "2.prems" Look e e' n' sub y "2.IH"(6,7) [OF Look e]
        by (auto simp: y_def split: if_splits list.splits prod.splits)
    qed (use "2.prems" Look e e' n' sub y in \<open>auto simp: y_def\<close>)
  qed (use "2.prems" "2.IH" n' in \<open>auto split: list.splits prod.splits\<close>)
qed

theorem vm_loop_sound:
  assumes "bt prog tbl input fwd pc sp c h r"
  shows "vm_loop prog tbl input budget depth n fwd pc sp c [] \<in> {RangeErr, result_of r}"
proof -
  obtain k B d where st: "steps_to prog tbl input fwd pc sp c r k B d"
    using bt_steps_to [OF assms] by blast
  let ?x = "vm_loop prog tbl input budget depth n fwd pc sp c []"
  have "?x = result_of r" if "?x \<noteq> RangeErr"
  proof -
    have "vm_loop prog tbl input (max budget B) (max depth d) (max n k) fwd pc sp c [] = ?x"
      by (rule vm_loop_mono [OF refl that]) auto
    then show ?thesis using steps_to_call [OF st, of "max depth d" "max budget B" "max n k"] by simp
  qed
  then show ?thesis by auto
qed

end
