(* ===== verification/Re_Runs.thy ===== *)
theory Re_Runs
  imports Re_Outcomes Re_Backtrack
begin

text \<open>
  Code fragments that implement a matcher. \<open>runs M Z fwd l h b F\<close> says that the code of \<open>M\<close> between
  \<open>l\<close> and \<open>h\<close> explores exactly the outcomes of \<open>F\<close>, in order: whatever the code at \<open>h\<close> answers for
  each outcome, the code at \<open>l\<close> answers the first of these. The fragment may write capture slots
  and the scratch slots from \<open>b\<close> on. One rule per shape of code in \<^verbatim>\<open>compile.ts\<close>.
\<close>

record machine =
  mc_code :: "instr list"
  mc_tbl :: "nat list"
  mc_input :: js_string
  mc_upper :: "nat \<Rightarrow> nat list"
  mc_un :: bool
  mc_groups :: nat
  mc_slots :: nat

definition instr_at :: "machine \<Rightarrow> nat \<Rightarrow> instr \<Rightarrow> bool" where
  "instr_at M pc i \<longleftrightarrow> pc < length (mc_code M) \<and> mc_code M ! pc = i"

definition yields ::
  "machine \<Rightarrow> (caps \<Rightarrow> caps \<Rightarrow> bool) \<Rightarrow> bool \<Rightarrow> nat \<Rightarrow> nat \<Rightarrow> caps \<Rightarrow> caps option \<Rightarrow> bool"
where
  "yields M R fwd pc sp c v \<longleftrightarrow>
     (\<exists>h r. bt (flatten (mc_code M)) (mc_tbl M) (mc_input M) fwd pc sp c h r \<and> rel_option R r v)"

definition agree :: "machine \<Rightarrow> nat \<Rightarrow> caps \<Rightarrow> caps \<Rightarrow> bool" where
  "agree M b c c' \<longleftrightarrow>
     length c' = length c \<and> (\<forall>j < length c. 2 * mc_groups M \<le> j \<longrightarrow> j < b \<longrightarrow> c' ! j = c ! j)"

definition view :: "machine \<Rightarrow> caps \<Rightarrow> caps" where
  "view M c = take (2 * mc_groups M) c"

definition ready :: "machine \<Rightarrow> nat set \<Rightarrow> nat \<Rightarrow> caps \<Rightarrow> bool" where
  "ready M Z sp c \<longleftrightarrow>
     length c = mc_slots M \<and> good (mc_groups M) (mc_input M) Z (sp, view M c)"

definition runs :: "machine \<Rightarrow> nat set \<Rightarrow> bool \<Rightarrow> nat \<Rightarrow> nat \<Rightarrow> nat \<Rightarrow> matcher \<Rightarrow> bool" where
  "runs M Z fwd l h b F \<longleftrightarrow>
     (\<forall>R K sp c. ready M Z sp c \<longrightarrow>
        (\<forall>s' \<in> set (F (sp, view M c)). \<forall>c'. view M c' = snd s' \<longrightarrow> agree M b c c' \<longrightarrow>
           yields M R fwd h (fst s') c' (K s')) \<longrightarrow>
        yields M R fwd l sp c (first_some K (F (sp, view M c))))"

lemma runsI:
  assumes "\<And>R K sp c. ready M Z sp c \<Longrightarrow>
     (\<And>s' c'. s' \<in> set (F (sp, view M c)) \<Longrightarrow> view M c' = snd s' \<Longrightarrow> agree M b c c' \<Longrightarrow>
           yields M R fwd h (fst s') c' (K s')) \<Longrightarrow>
     yields M R fwd l sp c (first_some K (F (sp, view M c)))"
  shows "runs M Z fwd l h b F"
  unfolding runs_def using assms by blast

lemma runsD:
  assumes "runs M Z fwd l h b F" "ready M Z sp c"
    and "\<And>s' c'. s' \<in> set (F (sp, view M c)) \<Longrightarrow> view M c' = snd s' \<Longrightarrow> agree M b c c' \<Longrightarrow>
           yields M R fwd h (fst s') c' (K s')"
  shows "yields M R fwd l sp c (first_some K (F (sp, view M c)))"
  using assms unfolding runs_def by blast

lemma agree_refl [simp]: "agree M b c c"
  by (simp add: agree_def)

lemma agree_trans: "agree M b c c' \<Longrightarrow> agree M b c' c'' \<Longrightarrow> agree M b c c''"
  by (simp add: agree_def)

lemma agree_mono: "agree M b c c' \<Longrightarrow> b' \<le> b \<Longrightarrow> agree M b' c c'"
  by (simp add: agree_def)

lemma runs_mono: "runs M Z fwd l h b F \<Longrightarrow> b' \<le> b \<Longrightarrow> runs M Z fwd l h b' F"
  by (rule runsI) (rule runsD, auto intro: agree_mono)

lemma ready_next:
  assumes "ready M Z sp c" "safe (mc_groups M) (mc_input M) Z fwd e F" "s' \<in> set (F (sp, view M c))"
    "view M c' = snd s'" "agree M b c c'"
  shows "ready M Z (fst s') c'"
  using assms safeD(1) [OF assms(2), of "(sp, view M c)" s'] by (simp add: ready_def agree_def)

section \<open>Single instructions\<close>

lemma fetch_at: "instr_at M pc i \<Longrightarrow> fetch (flatten (mc_code M)) pc = Some i"
  by (simp add: fetch_flatten instr_at_def nth_opt_def)

lemma rel_option_orelse:
  "rel_option R r v \<Longrightarrow> rel_option R r' v' \<Longrightarrow> rel_option R (orelse r r') (orelse v v')"
  by (cases r; cases v) auto

lemma yields_back:
  "vm_action (flatten (mc_code M)) (mc_tbl M) (mc_input M) fwd pc sp c = Backtrack \<Longrightarrow>
   yields M R fwd pc sp c None"
  unfolding yields_def by (meson bt_back option.rel_intros(1))

lemma yields_advance:
  "vm_action (flatten (mc_code M)) (mc_tbl M) (mc_input M) fwd pc sp c = Advance pc' sp' c' \<Longrightarrow>
   yields M R fwd pc' sp' c' v \<Longrightarrow> yields M R fwd pc sp c v"
  unfolding yields_def by (meson bt_advance)

lemma yields_accept:
  "instr_at M pc (OP_MATCH, a, b) \<Longrightarrow> R c c' \<Longrightarrow> yields M R fwd pc sp c (Some c')"
  unfolding yields_def
  by (intro exI [of _ 0] exI [of _ "Some c"]) (simp add: bt_accept vm_action_ops(16) [OF fetch_at])

lemma yields_split:
  assumes "instr_at M pc (OP_SPLIT, a, b)" "yields M R fwd a sp c v" "yields M R fwd b sp c v'"
  shows "yields M R fwd pc sp c (orelse v v')"
  using assms(2,3) bt_fork [OF vm_action_ops(9) [OF fetch_at [OF assms(1)]]] rel_option_orelse
  unfolding yields_def by blast

lemma yields_jmp: "instr_at M pc (OP_JMP, a, b) \<Longrightarrow> yields M R fwd a sp c v \<Longrightarrow> yields M R fwd pc sp c v"
  by (rule yields_advance [OF vm_action_ops(10) [OF fetch_at]])

lemma yields_save:
  "instr_at M pc (OP_SAVE, a, b) \<Longrightarrow> yields M R fwd (pc + 1) sp (c[a := int sp]) v \<Longrightarrow> yields M R fwd pc sp c v"
  by (rule yields_advance [OF vm_action_ops(11) [OF fetch_at]])

lemma yields_clear:
  "instr_at M pc (OP_CLEAR, a, b) \<Longrightarrow> yields M R fwd (pc + 1) sp (clear_slots a b c) v \<Longrightarrow> yields M R fwd pc sp c v"
  by (rule yields_advance [OF vm_action_ops(15) [OF fetch_at]])

lemma yields_progress:
  assumes "instr_at M pc (OP_PROGRESS, a, b)" "a < length c" "c ! a = int sp0"
    and "sp \<noteq> sp0 \<Longrightarrow> yields M R fwd (pc + 1) sp c v"
  shows "yields M R fwd pc sp c (if sp = sp0 then None else v)"
proof (cases "sp = sp0")
  case True
  then have "vm_action (flatten (mc_code M)) (mc_tbl M) (mc_input M) fwd pc sp c = Backtrack"
    using assms(2,3) by (simp add: vm_action_ops(14) [OF fetch_at [OF assms(1)]] nth_opt_def)
  then show ?thesis using True by (simp add: yields_back)
next
  case False
  then have "vm_action (flatten (mc_code M)) (mc_tbl M) (mc_input M) fwd pc sp c = Advance (pc + 1) sp c"
    using assms(2,3) by (simp add: vm_action_ops(14) [OF fetch_at [OF assms(1)]] nth_opt_def)
  then show ?thesis using assms(4) False by (simp add: yields_advance)
qed

section \<open>Atoms\<close>

lemma view_upd: "a < 2 * mc_groups M \<Longrightarrow> view M (c[a := v]) = (view M c)[a := v]"
  by (simp add: view_def take_list_update_less)

lemma view_upd_ge [simp]: "2 * mc_groups M \<le> a \<Longrightarrow> view M (c[a := v]) = view M c"
  by (simp add: view_def take_list_update_ge)

lemma agree_upd_low: "a < 2 * mc_groups M \<Longrightarrow> agree M b c (c[a := v])"
  by (simp add: agree_def)

lemma agree_upd_high: "b \<le> a \<Longrightarrow> agree M b c (c[a := v])"
  by (simp add: agree_def)

text \<open>A fragment of one instruction that either advances to one outcome or backtracks.\<close>

lemma runs_single:
  assumes "\<And>sp c. ready M Z sp c \<Longrightarrow>
    (case F (sp, view M c) of
       [] \<Rightarrow> vm_action (flatten (mc_code M)) (mc_tbl M) (mc_input M) fwd l sp c = Backtrack
     | s' # rest \<Rightarrow> rest = [] \<and> (\<exists>c'. view M c' = snd s' \<and> agree M b c c' \<and>
         vm_action (flatten (mc_code M)) (mc_tbl M) (mc_input M) fwd l sp c = Advance (l + 1) (fst s') c'))"
  shows "runs M Z fwd l (l + 1) b F"
proof (rule runsI)
  fix R K sp c
  assume r: "ready M Z sp c"
    and k: "\<And>s' c'. s' \<in> set (F (sp, view M c)) \<Longrightarrow> view M c' = snd s' \<Longrightarrow> agree M b c c' \<Longrightarrow>
           yields M R fwd (l + 1) (fst s') c' (K s')"
  show "yields M R fwd l sp c (first_some K (F (sp, view M c)))"
  proof (cases "F (sp, view M c)")
    case Nil
    then show ?thesis using assms [OF r] by (simp add: yields_back)
  next
    case (Cons s' rest)
    then obtain c' where "rest = []" "view M c' = snd s'" "agree M b c c'"
      "vm_action (flatten (mc_code M)) (mc_tbl M) (mc_input M) fwd l sp c = Advance (l + 1) (fst s') c'"
      using assms [OF r] by auto
    with k [of s' c'] Cons show ?thesis
      using yields_advance [of M fwd l sp c "l + 1" "fst s'" c' R "K s'"]
      by (simp only: first_some_single list.set_intros simp_thms)
  qed
qed

lemma runs_consume:
  assumes i: "instr_at M l (x, a, b')" and x: "x \<in> {OP_CHAR, OP_CHARI, OP_ANY, OP_CLASS}"
    and p: "\<And>u. u < 65536 \<Longrightarrow> unitMatches x a b' (mc_tbl M) u = p u" and val: "valid_units (mc_input M)"
  shows "runs M Z fwd l (l + 1) b (consume (mc_input M) fwd p)"
proof (rule runs_single)
  fix sp c assume "ready M Z sp c"
  then have sp: "sp \<le> length (mc_input M)" by (simp add: ready_def good_def)
  have "unit_at (mc_input M) fwd sp < 65536" if "inBounds (mc_input M) fwd sp"
    using that val sp by (auto simp: unit_at_def inBounds_def valid_units_def list_all_length split: if_splits)
  then have u: "inBounds (mc_input M) fwd sp \<Longrightarrow>
      unitMatches x a b' (mc_tbl M) (unit_at (mc_input M) fwd sp) = p (unit_at (mc_input M) fwd sp)"
    using p by blast
  have "vm_action (flatten (mc_code M)) (mc_tbl M) (mc_input M) fwd l sp c =
      (if inBounds (mc_input M) fwd sp \<and> unitMatches x a b' (mc_tbl M) (unit_at (mc_input M) fwd sp)
       then Advance (l + 1) (move fwd sp 1) c else Backtrack)"
    using x fetch_at [OF i] by (auto simp: vm_action_ops simp del: unitMatches.simps)
  with u show "case consume (mc_input M) fwd p (sp, view M c) of
       [] \<Rightarrow> vm_action (flatten (mc_code M)) (mc_tbl M) (mc_input M) fwd l sp c = Backtrack
     | s' # rest \<Rightarrow> rest = [] \<and> (\<exists>c'. view M c' = snd s' \<and> agree M b c c' \<and>
         vm_action (flatten (mc_code M)) (mc_tbl M) (mc_input M) fwd l sp c = Advance (l + 1) (fst s') c')"
    by (auto simp: consume_def simp del: unitMatches.simps)
qed

lemma runs_consume_cp:
  assumes i: "instr_at M l (OP_CPCLASS, a, b')"
    and p: "\<And>sp cp w. sp \<le> length (mc_input M) \<Longrightarrow> readCodePoint (mc_input M) fwd sp = Some (cp, w) \<Longrightarrow>
      classMatch (mc_tbl M) a cp (b' \<noteq> 0) = p cp"
  shows "runs M Z fwd l (l + 1) b (consume_cp (mc_input M) fwd p)"
proof (rule runs_single)
  fix sp c assume "ready M Z sp c"
  then have sp: "sp \<le> length (mc_input M)" by (simp add: ready_def good_def)
  show "case consume_cp (mc_input M) fwd p (sp, view M c) of
       [] \<Rightarrow> vm_action (flatten (mc_code M)) (mc_tbl M) (mc_input M) fwd l sp c = Backtrack
     | s' # rest \<Rightarrow> rest = [] \<and> (\<exists>c'. view M c' = snd s' \<and> agree M b c c' \<and>
         vm_action (flatten (mc_code M)) (mc_tbl M) (mc_input M) fwd l sp c = Advance (l + 1) (fst s') c')"
  proof (cases "readCodePoint (mc_input M) fwd sp")
    case (Some r)
    then show ?thesis using p [OF sp, of "fst r" "snd r"]
      by (auto simp: consume_cp_def vm_action_ops(5) [OF fetch_at [OF i]] split: prod.splits)
  qed (simp add: consume_cp_def vm_action_ops(5) [OF fetch_at [OF i]])
qed

lemma runs_guard:
  assumes i: "instr_at M l (x, a, b')" and x: "x \<in> {OP_BOL, OP_EOL, OP_WBOUND}"
    and p: "\<And>sp. sp \<le> length (mc_input M) \<Longrightarrow> assertionHolds x a (mc_input M) sp = p sp"
  shows "runs M Z fwd l (l + 1) b (guard p)"
proof (rule runs_single)
  fix sp c assume "ready M Z sp c"
  then have sp: "sp \<le> length (mc_input M)" by (simp add: ready_def good_def)
  have "vm_action (flatten (mc_code M)) (mc_tbl M) (mc_input M) fwd l sp c =
      (if assertionHolds x a (mc_input M) sp then Advance (l + 1) sp c else Backtrack)"
    using x fetch_at [OF i] by (auto simp: vm_action_ops simp del: assertionHolds.simps)
  with p [OF sp] show "case guard p (sp, view M c) of
       [] \<Rightarrow> vm_action (flatten (mc_code M)) (mc_tbl M) (mc_input M) fwd l sp c = Backtrack
     | s' # rest \<Rightarrow> rest = [] \<and> (\<exists>c'. view M c' = snd s' \<and> agree M b c c' \<and>
         vm_action (flatten (mc_code M)) (mc_tbl M) (mc_input M) fwd l sp c = Advance (l + 1) (fst s') c')"
    by (auto simp: guard_def simp del: assertionHolds.simps)
qed

lemma same_units_slice:
  assumes "i + n \<le> length input" "j + n \<le> length input"
  shows "same_units ci (slice input i n) (slice input j n) \<longleftrightarrow>
    list_all (\<lambda>d. units_equal input ci (i + d) (j + d)) [0..<n]"
proof -
  have len: "length (slice input i n) = n" "length (slice input j n) = n"
    using assms by (auto simp: slice_def)
  have nth: "slice input i n ! d = input ! (i + d)" "slice input j n ! d = input ! (j + d)" if "d < n" for d
    using assms that by (auto simp: slice_def)
  show ?thesis using assms len nth
    by (auto simp: same_units_def list_eq_iff_nth_eq list_all_iff units_equal_def charCodeAt_def nth_opt_def)
qed

lemma runs_backref:
  assumes i: "instr_at M l (OP_BACKREF, i, b')" and k: "i < mc_groups M" and Z: "i \<notin> Z"
  shows "runs M Z fwd l (l + 1) b (backref (mc_input M) (b' \<noteq> 0) fwd i)"
proof (rule runs_single)
  fix sp c assume r: "ready M Z sp c"
  let ?in = "mc_input M"
  define gs ge where "gs = c ! (2 * i)" and "ge = c ! (2 * i + 1)"
  have len: "length (view M c) = 2 * mc_groups M" and sp: "sp \<le> length ?in"
    and pair: "pair_ok ?in (view M c) i"
    using r k Z by (auto simp: ready_def good_def)
  have v: "view M c ! (2 * i) = gs" "view M c ! (2 * i + 1) = ge" and lc: "2 * i + 1 < length c"
    using len k by (auto simp: view_def gs_def ge_def)
  have act: "vm_action (flatten (mc_code M)) (mc_tbl M) ?in fwd l sp c = backref_action ?in fwd l sp c i (b' \<noteq> 0)"
    by (rule vm_action_ops(12) [OF fetch_at [OF i]])
  have n: "nth_opt c (2 * i) = Some gs" "nth_opt c (2 * i + 1) = Some ge"
    using lc by (auto simp: nth_opt_def gs_def ge_def)
  show "case backref ?in (b' \<noteq> 0) fwd i (sp, view M c) of
       [] \<Rightarrow> vm_action (flatten (mc_code M)) (mc_tbl M) ?in fwd l sp c = Backtrack
     | s' # rest \<Rightarrow> rest = [] \<and> (\<exists>c'. view M c' = snd s' \<and> agree M b c c' \<and>
         vm_action (flatten (mc_code M)) (mc_tbl M) ?in fwd l sp c = Advance (l + 1) (fst s') c')"
  proof (cases "gs < 0 \<or> ge < 0")
    case True
    then show ?thesis using n v by (auto simp: act backref_action_def backref_def)
  next
    case False
    define m where "m = nat (ge - gs)"
    from False pair v have m: "gs = int (nat gs)" "ge = int (nat gs + m)" "nat gs + m \<le> length ?in"
      by (auto simp: pair_ok_def m_def)
    define base where "base = (if fwd then sp else sp - m)"
    define fit where "fit \<longleftrightarrow> (if fwd then sp + m \<le> length ?in else m \<le> sp)"
    have eq: "fit \<Longrightarrow> same_units (b' \<noteq> 0) (slice ?in (nat gs) m) (slice ?in base m) \<longleftrightarrow>
        list_all (\<lambda>d. units_equal ?in (b' \<noteq> 0) (nat gs + d) (base + d)) [0..<m]"
      using m sp by (intro same_units_slice) (auto simp: base_def fit_def split: if_splits)
    have ref: "backref ?in (b' \<noteq> 0) fwd i (sp, view M c) =
        (if fit \<and> same_units (b' \<noteq> 0) (slice ?in (nat gs) m) (slice ?in base m)
         then [(move fwd sp m, view M c)] else [])"
      using False v by (simp add: backref_def Let_def m_def base_def fit_def)
    have blen: "ge - gs = int m" using m by simp
    have base: "fit \<Longrightarrow> nat (if fwd then int sp else int sp - int m) = base"
      by (auto simp: base_def fit_def split: if_splits)
    have over: "(if fwd then int sp + int m > int (length ?in) else int sp - int m < 0) = (\<not> fit)"
      by (auto simp: fit_def)
    have dest: "fit \<Longrightarrow> int sp + (if fwd then int m else - int m) = int (move fwd sp m)"
      by (auto simp: move_def fit_def split: if_splits)
    have "backref_action ?in fwd l sp c i (b' \<noteq> 0) =
        (if \<not> fit then Backtrack
         else if list_all (\<lambda>d. units_equal ?in (b' \<noteq> 0) (nat gs + d) (base + d)) [0..<m]
         then Advance (l + 1) (move fwd sp m) c else Backtrack)"
    proof (cases fit)
      case True
      then show ?thesis using False n
        by (simp only: backref_action_def Let_def blen over base dest option.case prod.case if_False if_True
            simp_thms nat_int of_nat_less_0_iff)
    next
      case nofit: False
      then show ?thesis using False n
        by (simp only: backref_action_def Let_def blen over option.case prod.case if_False if_True simp_thms)
    qed
    with eq ref show ?thesis by (auto simp: act)
  qed
qed

section \<open>Sequences and alternatives\<close>

lemma runs_empty: "runs M Z fwd l l b (\<lambda>s. [s])"
proof (rule runsI)
  fix R K sp c
  assume "\<And>s' c'. s' \<in> set [(sp, view M c)] \<Longrightarrow> view M c' = snd s' \<Longrightarrow> agree M b c c' \<Longrightarrow>
           yields M R fwd l (fst s') c' (K s')"
  from this [of "(sp, view M c)" c] show "yields M R fwd l sp c (first_some K [(sp, view M c)])"
    by (simp only: first_some_single list.set_intros snd_conv fst_conv agree_refl simp_thms)
qed

lemma runs_both:
  assumes f: "runs M Z fwd l m b F" and g: "runs M Z fwd m h b G"
    and sf: "safe (mc_groups M) (mc_input M) Z fwd e F"
  shows "runs M Z fwd l h b (both F G)"
proof (rule runsI)
  fix R K sp c
  assume r: "ready M Z sp c"
    and k: "\<And>s' c'. s' \<in> set (both F G (sp, view M c)) \<Longrightarrow> view M c' = snd s' \<Longrightarrow> agree M b c c' \<Longrightarrow>
           yields M R fwd h (fst s') c' (K s')"
  have "yields M R fwd l sp c (first_some (\<lambda>t. first_some K (G t)) (F (sp, view M c)))"
  proof (rule runsD [OF f r])
    fix t c' assume t: "t \<in> set (F (sp, view M c))" "view M c' = snd t" "agree M b c c'"
    have "yields M R fwd m (fst t) c' (first_some K (G (fst t, view M c')))"
    proof (rule runsD [OF g ready_next [OF r sf t]])
      fix s' c'' assume "s' \<in> set (G (fst t, view M c'))" "view M c'' = snd s'" "agree M b c' c''"
      with t show "yields M R fwd h (fst s') c'' (K s')"
        by (intro k) (auto simp: both_def intro: agree_trans)
    qed
    then show "yields M R fwd m (fst t) c' (first_some K (G t))" using t(2) by simp
  qed
  then show "yields M R fwd l sp c (first_some K (both F G (sp, view M c)))"
    by (simp add: both_def first_some_concat)
qed

lemma runs_pure: "(\<And>sp c. ready M Z sp c \<Longrightarrow> \<exists>c'. view M c' = snd (f (sp, view M c)) \<and> fst (f (sp, view M c)) = sp \<and>
    agree M b c c' \<and> (\<forall>R v. yields M R fwd h sp c' v \<longrightarrow> yields M R fwd l sp c v)) \<Longrightarrow>
  runs M Z fwd l h b (\<lambda>s. [f s])"
  by (rule runsI) (simp only: first_some_single list.set simp_thms singleton_iff, metis)

text \<open>One round of a choice between the fragment at \<open>p\<close> and what follows.\<close>

lemma runs_maybe:
  assumes split: "instr_at M l (if greedy then (OP_SPLIT, p, h) else (OP_SPLIT, h, p))"
    and f: "runs M Z fwd p h b F"
  shows "runs M Z fwd l h b (maybe greedy F)"
proof (rule runsI)
  fix R K sp c
  assume r: "ready M Z sp c"
    and k: "\<And>s' c'. s' \<in> set (maybe greedy F (sp, view M c)) \<Longrightarrow> view M c' = snd s' \<Longrightarrow> agree M b c c' \<Longrightarrow>
           yields M R fwd h (fst s') c' (K s')"
  have body: "yields M R fwd p sp c (first_some K (F (sp, view M c)))"
    by (rule runsD [OF f r], rule k) (auto simp: maybe_def)
  have exit: "yields M R fwd h sp c (K (sp, view M c))"
    using k [of "(sp, view M c)" c] by (simp add: maybe_def)
  from split body exit show "yields M R fwd l sp c (first_some K (maybe greedy F (sp, view M c)))"
    by (cases greedy) (auto simp: maybe_def first_some_Cons simp del: first_some.simps(2) intro: yields_split)
qed

lemma runs_orelse:
  assumes split: "instr_at M l (OP_SPLIT, p, q)" and f: "runs M Z fwd p e b F" and jmp: "instr_at M e (OP_JMP, h, z)"
    and g: "runs M Z fwd q h b G"
  shows "runs M Z fwd l h b (\<lambda>s. F s @ G s)"
proof (rule runsI)
  fix R K sp c
  assume r: "ready M Z sp c"
    and k: "\<And>s' c'. s' \<in> set (F (sp, view M c) @ G (sp, view M c)) \<Longrightarrow> view M c' = snd s' \<Longrightarrow> agree M b c c' \<Longrightarrow>
           yields M R fwd h (fst s') c' (K s')"
  have "yields M R fwd p sp c (first_some K (F (sp, view M c)))"
    by (rule runsD [OF f r], rule yields_jmp [OF jmp], rule k) auto
  moreover have "yields M R fwd q sp c (first_some K (G (sp, view M c)))"
    by (rule runsD [OF g r], rule k) auto
  ultimately show "yields M R fwd l sp c (first_some K (F (sp, view M c) @ G (sp, view M c)))"
    using yields_split [OF split] by simp
qed

section \<open>Captures and lookaround\<close>

lemma runs_capture:
  assumes s1: "instr_at M l (OP_SAVE, if fwd then 2 * i else 2 * i + 1, x)"
    and f: "runs M (insert i Z) fwd (l + 1) e b F"
    and s2: "instr_at M e (OP_SAVE, if fwd then 2 * i + 1 else 2 * i, y)" and i: "i < mc_groups M"
  shows "runs M Z fwd l (e + 1) b (capture fwd i F)"
proof (rule runsI)
  fix R K sp c
  define a d where "a = (if fwd then 2 * i else 2 * i + 1)" and "d = (if fwd then 2 * i + 1 else 2 * i)"
  have ad: "a < 2 * mc_groups M" "d < 2 * mc_groups M" using i by (auto simp: a_def d_def)
  assume r: "ready M Z sp c"
    and k: "\<And>s' c'. s' \<in> set (capture fwd i F (sp, view M c)) \<Longrightarrow> view M c' = snd s' \<Longrightarrow> agree M b c c' \<Longrightarrow>
           yields M R fwd (e + 1) (fst s') c' (K s')"
  let ?c = "c[a := int sp]"
  let ?fin = "\<lambda>s'. (fst s', (snd s')[d := int (fst s')])"
  have cap: "capture fwd i F (sp, view M c) = map ?fin (F (sp, view M ?c))"
    using ad by (simp add: capture_def a_def d_def view_upd)
  have "good (mc_groups M) (mc_input M) (insert i Z) (sp, view M ?c)"
    using good_set_open [OF good_insert, of "mc_groups M" "mc_input M" Z "(sp, view M c)" a i "int sp"] r ad
    by (auto simp: ready_def view_upd a_def)
  then have r': "ready M (insert i Z) sp ?c" using r by (simp add: ready_def)
  have "yields M R fwd (l + 1) sp ?c (first_some (\<lambda>s'. K (?fin s')) (F (sp, view M ?c)))"
  proof (rule runsD [OF f r'])
    fix s' c' assume s': "s' \<in> set (F (sp, view M ?c))" "view M c' = snd s'" "agree M b ?c c'"
    have "agree M b c (c'[d := int (fst s')])"
      using s'(3) ad by (blast intro: agree_trans agree_upd_low)
    then have "yields M R fwd (e + 1) (fst (?fin s')) (c'[d := int (fst s')]) (K (?fin s'))"
      using s' ad by (intro k) (auto simp: cap view_upd)
    then show "yields M R fwd e (fst s') c' (K (?fin s'))"
      using yields_save [OF s2 [folded d_def]] by simp
  qed
  then have "yields M R fwd l sp c (first_some (\<lambda>s'. K (?fin s')) (F (sp, view M ?c)))"
    by (rule yields_save [OF s1 [folded a_def]])
  then show "yields M R fwd l sp c (first_some K (capture fwd i F (sp, view M c)))"
    by (simp add: cap)
qed

lemma runs_look:
  assumes i: "instr_at M l (OP_LOOKAROUND, entry, fl)" and fl: "has_flag fl 2 = behind" "has_flag fl 1 = negated"
    and f: "runs M Z (\<not> behind) entry e b F" and m: "instr_at M e (OP_MATCH, x, y)"
    and sf: "safe (mc_groups M) (mc_input M) Z (\<not> behind) n F"
  shows "runs M Z fwd l (l + 1) b (look negated F)"
proof (rule runsI)
  fix R K sp c
  assume r: "ready M Z sp c"
    and k: "\<And>s' c'. s' \<in> set (look negated F (sp, view M c)) \<Longrightarrow> view M c' = snd s' \<Longrightarrow> agree M b c c' \<Longrightarrow>
           yields M R fwd (l + 1) (fst s') c' (K s')"
  let ?s = "(sp, view M c)"
  let ?S = "\<lambda>sub v. view M sub = v \<and> agree M b c sub"
  have act: "vm_action (flatten (mc_code M)) (mc_tbl M) (mc_input M) fwd l sp c = Look entry behind negated"
    using vm_action_ops(13) [OF fetch_at [OF i]] fl by simp
  have "yields M ?S (\<not> behind) entry sp c (first_some (\<lambda>s'. Some (snd s')) (F ?s))"
    by (rule runsD [OF f r], rule yields_accept [OF m]) simp
  then obtain h1 r1 where sub: "bt (flatten (mc_code M)) (mc_tbl M) (mc_input M) (\<not> behind) entry sp c h1 r1"
    and r1: "rel_option ?S r1 (first_some (\<lambda>s'. Some (snd s')) (F ?s))"
    unfolding yields_def by blast
  show "yields M R fwd l sp c (first_some K (look negated F ?s))"
  proof (cases "F ?s")
    case Nil
    then have r1: "r1 = None" using r1 by simp
    show ?thesis
    proof (cases negated)
      case True
      then have "yields M R fwd (l + 1) sp c (K ?s)" using k [of ?s c] Nil by (simp add: look_def)
      then obtain h2 r2 where "bt (flatten (mc_code M)) (mc_tbl M) (mc_input M) fwd (l + 1) sp c h2 r2"
        "rel_option R r2 (K ?s)" unfolding yields_def by blast
      with bt_look_go [OF act sub] r1 True Nil show ?thesis
        unfolding yields_def by (auto simp: look_def first_some_Cons simp del: first_some.simps(2))
    next
      case False
      with bt_look_fail [OF act sub] r1 Nil show ?thesis
        unfolding yields_def by (auto simp: look_def)
    qed
  next
    case (Cons t ts)
    then obtain sub' where r1: "r1 = Some sub'" and sub': "view M sub' = snd t" "agree M b c sub'"
      using r1 by (auto elim: option.rel_cases)
    show ?thesis
    proof (cases negated)
      case True
      with bt_look_fail [OF act sub] r1 Cons show ?thesis
        unfolding yields_def by (auto simp: look_def)
    next
      case False
      then have "yields M R fwd (l + 1) sp sub' (K (sp, snd t))"
        using k [of "(sp, snd t)" sub'] Cons sub' by (simp add: look_def)
      then obtain h2 r2 where "bt (flatten (mc_code M)) (mc_tbl M) (mc_input M) fwd (l + 1) sp sub' h2 r2"
        "rel_option R r2 (K (sp, snd t))" unfolding yields_def by blast
      with bt_look_go [OF act sub] r1 False Cons show ?thesis
        unfolding yields_def by (auto simp: look_def first_some_Cons simp del: first_some.simps(2))
    qed
  qed
qed

section \<open>Loops\<close>

text \<open>One round of a loop whose head is at \<open>p\<close>: non-empty iterations come back to the head.\<close>

definition loop_round :: "machine \<Rightarrow> nat set \<Rightarrow> bool \<Rightarrow> nat \<Rightarrow> nat \<Rightarrow> nat \<Rightarrow> bool \<Rightarrow> matcher \<Rightarrow> bool" where
  "loop_round M Z fwd p h b greedy B \<longleftrightarrow>
     (\<forall>R K v sp c. ready M Z sp c \<longrightarrow>
        (\<forall>s' \<in> set (B (sp, view M c)). fst s' \<noteq> sp \<longrightarrow> (\<forall>c'. view M c' = snd s' \<longrightarrow> agree M b c c' \<longrightarrow>
           yields M R fwd p (fst s') c' (K s'))) \<longrightarrow>
        (\<forall>c'. view M c' = view M c \<longrightarrow> agree M b c c' \<longrightarrow> yields M R fwd h sp c' v) \<longrightarrow>
        yields M R fwd p sp c
          (let more = first_some K (filter (\<lambda>s'. fst s' \<noteq> sp) (B (sp, view M c)))
           in if greedy then orelse more v else orelse v more))"

lemma loop_roundI:
  assumes "\<And>R K v sp c. ready M Z sp c \<Longrightarrow>
     (\<And>s' c'. s' \<in> set (B (sp, view M c)) \<Longrightarrow> fst s' \<noteq> sp \<Longrightarrow> view M c' = snd s' \<Longrightarrow> agree M b c c' \<Longrightarrow>
           yields M R fwd p (fst s') c' (K s')) \<Longrightarrow>
     (\<And>c'. view M c' = view M c \<Longrightarrow> agree M b c c' \<Longrightarrow> yields M R fwd h sp c' v) \<Longrightarrow>
     yields M R fwd p sp c
          (let more = first_some K (filter (\<lambda>s'. fst s' \<noteq> sp) (B (sp, view M c)))
           in if greedy then orelse more v else orelse v more)"
  shows "loop_round M Z fwd p h b greedy B"
  unfolding loop_round_def using assms by blast

lemma loop_roundD:
  assumes "loop_round M Z fwd p h b greedy B" "ready M Z sp c"
    and "\<And>s' c'. s' \<in> set (B (sp, view M c)) \<Longrightarrow> fst s' \<noteq> sp \<Longrightarrow> view M c' = snd s' \<Longrightarrow> agree M b c c' \<Longrightarrow>
           yields M R fwd p (fst s') c' (K s')"
    and "\<And>c'. view M c' = view M c \<Longrightarrow> agree M b c c' \<Longrightarrow> yields M R fwd h sp c' v"
  shows "yields M R fwd p sp c
          (let more = first_some K (filter (\<lambda>s'. fst s' \<noteq> sp) (B (sp, view M c)))
           in if greedy then orelse more v else orelse v more)"
  using assms unfolding loop_round_def by blast

lemma first_some_maybe:
  "first_some K (maybe greedy F s) =
     (let more = first_some K (F s) in if greedy then orelse more (K s) else orelse (K s) more)"
  by (simp add: maybe_def Let_def first_some_Cons del: first_some.simps(2))

lemma star_iter_yields:
  assumes round: "loop_round M Z fwd p h b greedy B"
    and sf: "safe (mc_groups M) (mc_input M) Z fwd e B"
  shows "\<lbrakk> ready M Z sp c; dist (mc_input M) fwd (sp, view M c) \<le> n;
      \<And>s' c'. s' \<in> set (star_iter greedy B n (sp, view M c)) \<Longrightarrow> view M c' = snd s' \<Longrightarrow> agree M b c c' \<Longrightarrow>
           yields M R fwd h (fst s') c' (K s') \<rbrakk>
    \<Longrightarrow> yields M R fwd p sp c (first_some K (star_iter greedy B n (sp, view M c)))"
proof (induction n arbitrary: sp c)
  case 0
  let ?s = "(sp, view M c)"
  have s: "good (mc_groups M) (mc_input M) Z ?s" using "0.prems"(1) by (simp add: ready_def)
  have none: "fst s' = sp" if "s' \<in> set (B ?s)" for s'
    using ahead_dist [OF safeD(2) [OF sf s that] _ safeD(1) [OF sf s that]] "0.prems"(2) by fastforce
  have "yields M R fwd p sp c (let more = first_some K (filter (\<lambda>s'. fst s' \<noteq> sp) (B ?s))
      in if greedy then orelse more (K ?s) else orelse (K ?s) more)"
  proof (rule loop_roundD [OF round "0.prems"(1)])
    show "yields M R fwd h sp c' (K ?s)" if "view M c' = view M c" "agree M b c c'" for c'
      using "0.prems"(3) [of ?s c'] that by simp
  qed (use none in blast)
  moreover have "filter (\<lambda>s'. fst s' \<noteq> sp) (B ?s) = []" using none by (simp add: filter_empty_conv)
  ultimately show ?case by (simp only: star_iter.simps first_some_single first_some.simps(1) Let_def
        orelse_simps if_cancel)
next
  case (Suc n)
  let ?s = "(sp, view M c)"
  have s: "good (mc_groups M) (mc_input M) Z ?s" using Suc.prems(1) by (simp add: ready_def)
  let ?K = "\<lambda>s'. first_some K (star_iter greedy B n s')"
  have "yields M R fwd p sp c (let more = first_some ?K (filter (\<lambda>s'. fst s' \<noteq> sp) (B ?s))
      in if greedy then orelse more (K ?s) else orelse (K ?s) more)"
  proof (rule loop_roundD [OF round Suc.prems(1)])
    show "yields M R fwd h sp c' (K ?s)" if "view M c' = view M c" "agree M b c c'" for c'
      using Suc.prems(3) [of ?s c'] that by (simp add: maybe_def)
  next
    fix s' c' assume s': "s' \<in> set (B ?s)" "fst s' \<noteq> sp" "view M c' = snd s'" "agree M b c c'"
    have d: "dist (mc_input M) fwd s' \<le> n"
      using ahead_dist [OF safeD(2) [OF sf s s'(1)] _ safeD(1) [OF sf s s'(1)]] s'(2) Suc.prems(2) by fastforce
    have "yields M R fwd p (fst s') c' (first_some K (star_iter greedy B n (fst s', view M c')))"
    proof (rule Suc.IH [OF ready_next [OF Suc.prems(1) sf s'(1,3,4)]])
      show "dist (mc_input M) fwd (fst s', view M c') \<le> n" using d s'(3) by (simp add: dist_def)
      fix u c'' assume u: "u \<in> set (star_iter greedy B n (fst s', view M c'))" "view M c'' = snd u" "agree M b c' c''"
      have "u \<in> set (star_iter greedy B (Suc n) ?s)"
        using u(1) s'(1,2,3) by (cases s') (auto simp: maybe_def, blast+)
      then show "yields M R fwd h (fst u) c'' (K u)"
        using Suc.prems(3) u(2) agree_trans [OF s'(4) u(3)] by blast
    qed
    then show "yields M R fwd p (fst s') c' (?K s')" using s'(3) by simp
  qed
  then show ?case
    by (simp only: star_iter.simps first_some_maybe first_some_concat fst_conv)
qed

lemma runs_star:
  assumes "loop_round M Z fwd p h b greedy B" "safe (mc_groups M) (mc_input M) Z fwd e B"
  shows "runs M Z fwd p h b (star (mc_input M) fwd greedy B)"
proof (rule runsI)
  fix R K sp c
  assume "ready M Z sp c"
    and "\<And>s' c'. s' \<in> set (star (mc_input M) fwd greedy B (sp, view M c)) \<Longrightarrow> view M c' = snd s' \<Longrightarrow>
      agree M b c c' \<Longrightarrow> yields M R fwd h (fst s') c' (K s')"
  then show "yields M R fwd p sp c (first_some K (star (mc_input M) fwd greedy B (sp, view M c)))"
    unfolding star_def by (intro star_iter_yields [OF assms]) auto
qed

lemma first_some_filter: "first_some K (filter P xs) = first_some (\<lambda>x. if \<not> P x then None else K x) xs"
  by (induction xs) (auto split: option.splits)

text \<open>The loop with an empty-iteration guard in scratch slot \<open>g\<close>.\<close>

lemma loop_round_guarded:
  assumes save: "instr_at M l (OP_SAVE, g, x)"
    and split: "instr_at M (l + 1) (if greedy then (OP_SPLIT, q, h) else (OP_SPLIT, h, q))"
    and body: "runs M Z fwd q e (g + 1) B"
    and prog: "instr_at M e (OP_PROGRESS, g, y)" and jmp: "instr_at M (e + 1) (OP_JMP, l, z)"
    and g: "2 * mc_groups M \<le> g" "g < mc_slots M"
  shows "loop_round M Z fwd l h g greedy B"
proof (rule loop_roundI)
  fix R K v sp c
  assume r: "ready M Z sp c"
    and k: "\<And>s' c'. s' \<in> set (B (sp, view M c)) \<Longrightarrow> fst s' \<noteq> sp \<Longrightarrow> view M c' = snd s' \<Longrightarrow> agree M g c c' \<Longrightarrow>
           yields M R fwd l (fst s') c' (K s')"
    and ex: "\<And>c'. view M c' = view M c \<Longrightarrow> agree M g c c' \<Longrightarrow> yields M R fwd h sp c' v"
  let ?c = "c[g := int sp]"
  have view: "view M ?c = view M c" and ag: "agree M g c ?c" using g by (auto simp: agree_upd_high)
  have r': "ready M Z sp ?c" using r view by (simp add: ready_def)
  have "yields M R fwd q sp ?c (first_some (\<lambda>s'. if fst s' = sp then None else K s') (B (sp, view M ?c)))"
  proof (rule runsD [OF body r'])
    fix s' c' assume s': "s' \<in> set (B (sp, view M ?c))" "view M c' = snd s'" "agree M (g + 1) ?c c'"
    have "g < length c'" "c' ! g = int sp" using s'(3) g r by (auto simp: agree_def ready_def)
    then show "yields M R fwd e (fst s') c' (if fst s' = sp then None else K s')"
    proof (rule yields_progress [OF prog])
      assume "fst s' \<noteq> sp"
      then have "yields M R fwd l (fst s') c' (K s')"
        using k [of s' c'] s' view agree_trans [OF ag agree_mono [OF s'(3), of g]] by simp
      then show "yields M R fwd (e + 1) (fst s') c' (K s')" by (rule yields_jmp [OF jmp])
    qed
  qed
  then have "yields M R fwd q sp ?c (first_some K (filter (\<lambda>s'. fst s' \<noteq> sp) (B (sp, view M c))))"
    unfolding first_some_filter view by (simp only: not_not)
  with split ex [OF view ag]
  have "yields M R fwd (l + 1) sp ?c (let more = first_some K (filter (\<lambda>s'. fst s' \<noteq> sp) (B (sp, view M c)))
           in if greedy then orelse more v else orelse v more)"
    by (cases greedy) (auto simp: Let_def intro: yields_split)
  then show "yields M R fwd l sp c (let more = first_some K (filter (\<lambda>s'. fst s' \<noteq> sp) (B (sp, view M c)))
           in if greedy then orelse more v else orelse v more)"
    by (rule yields_save [OF save])
qed

text \<open>The loop over a body that always moves; the back edge is either a JMP or the SPLIT itself.\<close>

lemma loop_round_plain:
  assumes split: "instr_at M p (if greedy then (OP_SPLIT, q, h) else (OP_SPLIT, h, q))"
    and body: "runs M Z fwd q e b B"
    and ret: "e = p \<or> instr_at M e (OP_JMP, p, z)"
    and sf: "safe (mc_groups M) (mc_input M) Z fwd False B"
  shows "loop_round M Z fwd p h b greedy B"
proof (rule loop_roundI)
  fix R K v sp c
  assume r: "ready M Z sp c"
    and k: "\<And>s' c'. s' \<in> set (B (sp, view M c)) \<Longrightarrow> fst s' \<noteq> sp \<Longrightarrow> view M c' = snd s' \<Longrightarrow> agree M b c c' \<Longrightarrow>
           yields M R fwd p (fst s') c' (K s')"
    and ex: "\<And>c'. view M c' = view M c \<Longrightarrow> agree M b c c' \<Longrightarrow> yields M R fwd h sp c' v"
  have s: "good (mc_groups M) (mc_input M) Z (sp, view M c)" using r by (simp add: ready_def)
  have moves: "fst s' \<noteq> sp" if "s' \<in> set (B (sp, view M c))" for s'
    using safeD(3) [OF sf s that] by simp
  have "yields M R fwd q sp c (first_some K (B (sp, view M c)))"
  proof (rule runsD [OF body r])
    fix s' c' assume s': "s' \<in> set (B (sp, view M c))" "view M c' = snd s'" "agree M b c c'"
    then have "yields M R fwd p (fst s') c' (K s')" using k moves by blast
    then show "yields M R fwd e (fst s') c' (K s')" using ret by (auto intro: yields_jmp)
  qed
  moreover have "filter (\<lambda>s'. fst s' \<noteq> sp) (B (sp, view M c)) = B (sp, view M c)"
    using moves by (simp add: filter_id_conv)
  moreover have "yields M R fwd h sp c v" using ex [of c] by simp
  ultimately show "yields M R fwd p sp c (let more = first_some K (filter (\<lambda>s'. fst s' \<noteq> sp) (B (sp, view M c)))
           in if greedy then orelse more v else orelse v more)"
    using split by (cases greedy) (auto simp: Let_def intro: yields_split)
qed

lemma clear_slots_view: "view M (clear_slots a b c) = clear_slots a b (view M c)"
  by (rule nth_equalityI) (auto simp: view_def clear_slots_nth)

lemma runs_clear:
  assumes "instr_at M l (OP_CLEAR, a, d)" "d < 2 * mc_groups M"
  shows "runs M Z fwd l (l + 1) b (\<lambda>s. [(fst s, clear_slots a d (snd s))])"
proof (rule runs_pure)
  fix sp c assume "ready M Z sp c"
  have "agree M b c (clear_slots a d c)"
    using assms(2) by (auto simp: agree_def clear_slots_nth)
  then show "\<exists>c'. view M c' = snd (fst (sp, view M c), clear_slots a d (snd (sp, view M c))) \<and>
      fst (fst (sp, view M c), clear_slots a d (snd (sp, view M c))) = sp \<and>
      agree M b c c' \<and> (\<forall>R v. yields M R fwd (l + 1) sp c' v \<longrightarrow> yields M R fwd l sp c v)"
    using yields_clear [OF assms(1)]
    by (intro exI [of _ "clear_slots a d c"]) (auto simp: clear_slots_view)
qed

end
