(* ===== verification/Re_Emitter.thy ===== *)
theory Re_Emitter
  imports Re_Ast
begin

text \<open>
  The emitter (\<^verbatim>\<open>src/codegen/regex/compile.ts\<close>): a tree becomes instruction records, with jump
  targets patched after the fact, classes appended to a table, and lookaround bodies queued and
  emitted after the main program. The emitter object is the record \<open>emitter\<close>; each method is a
  function on it, and a throw is \<open>Inl\<close>.
\<close>

definition MAX_REPEAT_EXPANSION :: nat where "MAX_REPEAT_EXPANSION = 1000"

record pending_sub =
  ps_node :: re_node
  ps_patchPc :: nat
  ps_reversed :: bool
  ps_caseInsensitive :: bool
  ps_dotAll :: bool
  ps_multiline :: bool

record emitter =
  instrs :: "instr list"
  em_classTable :: "nat list"
  em_caseInsensitive :: bool
  em_dotAll :: bool
  em_multiline :: bool
  em_unicode :: bool
  em_reversed :: bool
  pendingSubs :: "pending_sub list"
  scratchCount :: nat
  scratchBase :: nat

type_synonym emission = "emitter \<Rightarrow> regex_error + emitter"

definition new_emitter :: "bool \<Rightarrow> bool \<Rightarrow> bool \<Rightarrow> bool \<Rightarrow> emitter" where
  "new_emitter caseInsensitive dotAll multiline unicode =
     \<lparr>instrs = [], em_classTable = [], em_caseInsensitive = caseInsensitive, em_dotAll = dotAll,
      em_multiline = multiline, em_unicode = unicode, em_reversed = False, pendingSubs = [],
      scratchCount = 0, scratchBase = 0\<rparr>"

section \<open>Primitive emission\<close>

definition here :: "emitter \<Rightarrow> nat" where
  "here em = length (instrs em)"

definition emit :: "ReOp \<Rightarrow> nat \<Rightarrow> nat \<Rightarrow> emitter \<Rightarrow> emitter" where
  "emit x a b em = em\<lparr>instrs := instrs em @ [(x, a, b)]\<rparr>"

text \<open>Patching writes one operand of a record that was emitted before.\<close>

definition patchA :: "nat \<Rightarrow> nat \<Rightarrow> emitter \<Rightarrow> emitter" where
  "patchA pc a em =
     em\<lparr>instrs := (instrs em)[pc := (case instrs em ! pc of (x, _, b) \<Rightarrow> (x, a, b))]\<rparr>"

definition patchB :: "nat \<Rightarrow> nat \<Rightarrow> emitter \<Rightarrow> emitter" where
  "patchB pc b em =
     em\<lparr>instrs := (instrs em)[pc := (case instrs em ! pc of (x, a, _) \<Rightarrow> (x, a, b))]\<rparr>"

definition allocScratch :: "emitter \<Rightarrow> nat \<times> emitter" where
  "allocScratch em = (scratchBase em + scratchCount em, em\<lparr>scratchCount := scratchCount em + 1\<rparr>)"

definition emitClearForBody :: "re_node \<Rightarrow> emitter \<Rightarrow> emitter" where
  "emitClearForBody body em =
     (case captureSpan body of
        None \<Rightarrow> em
      | Some (lo, hi) \<Rightarrow> emit OP_CLEAR (2 * lo) (2 * hi + 1) em)"

definition addClass :: "ranges \<Rightarrow> emitter \<Rightarrow> nat \<times> emitter" where
  "addClass rs em =
     (length (em_classTable em),
      em\<lparr>em_classTable := em_classTable em @ encode_class (normalizeRanges rs)\<rparr>)"

definition emit_class :: "ReOp \<Rightarrow> ranges \<Rightarrow> bool \<Rightarrow> emitter \<Rightarrow> emitter" where
  "emit_class x rs negated em =
     (case addClass rs em of (offset, em') \<Rightarrow> emit x offset (if negated then 1 else 0) em')"

text \<open>The code points of \<open>.\<close> in u/v mode (\<^verbatim>\<open>dotCpRanges\<close> of \<^verbatim>\<open>unicode.ts\<close>).\<close>

definition dotCpRanges :: "bool \<Rightarrow> ranges" where
  "dotCpRanges dotAll =
     (if dotAll then [(0, 0x10ffff)]
      else [(0, 0x09), (0x0b, 0x0c), (0x0e, 0x2027), (0x202a, 0x10ffff)])"

section \<open>Sequencing\<close>

primrec seqE :: "emission list \<Rightarrow> emission" where
  "seqE [] em = Inr em"
| "seqE (f # fs) em = bindE (f em) (seqE fs)"

text \<open>
  The loop over alternatives: every option but the last is preceded by a SPLIT and followed by a
  JMP; the SPLITs are patched at once, the JMPs when the end is known.
\<close>

fun emit_chain :: "emission list \<Rightarrow> nat list \<Rightarrow> emitter \<Rightarrow> regex_error + (nat list \<times> emitter)" where
  "emit_chain [] jmpEnds em = Inr (jmpEnds, em)"
| "emit_chain [f] jmpEnds em = bindE (f em) (\<lambda>em'. Inr (jmpEnds, em'))"
| "emit_chain (f # g # fs) jmpEnds em =
     (let split = here em;
          em1 = emit OP_SPLIT 0 0 em;
          em2 = patchA split (here em1) em1
      in bindE (f em2) (\<lambda>em3.
           let jmp = here em3;
               em4 = emit OP_JMP 0 0 em3;
               em5 = patchB split (here em4) em4
           in emit_chain (g # fs) (jmpEnds @ [jmp]) em5))"

definition emit_alternatives :: "emission list \<Rightarrow> emission" where
  "emit_alternatives fs em =
     bindE (emit_chain fs [] em) (\<lambda>(jmpEnds, em').
       Inr (fold (\<lambda>j e. patchA j (here em') e) jmpEnds em'))"

section \<open>Literal alternations as a trie\<close>

fun literalCodes :: "re_node \<Rightarrow> nat list option" where
  "literalCodes (RChar c) = Some [c]"
| "literalCodes (RConcat parts) =
     those (map (\<lambda>p. case p of RChar c \<Rightarrow> Some c | _ \<Rightarrow> None) parts)"
| "literalCodes _ = None"

datatype lit_branch = EpsBranch | LitBranch nat "nat list list"

text \<open>
  The grouping loop: \<open>idxByChar\<close> maps a first unit to its branch since the last empty literal.
\<close>

definition group_step ::
  "nat list \<Rightarrow> lit_branch list \<times> (nat \<rightharpoonup> nat) \<Rightarrow> lit_branch list \<times> (nat \<rightharpoonup> nat)"
where
  "group_step l st =
     (case st of (branches, idxByChar) \<Rightarrow>
       (case l of
          [] \<Rightarrow> (branches @ [EpsBranch], Map.empty)
        | c # rest \<Rightarrow>
            (case idxByChar c of
               Some gi \<Rightarrow>
                 (branches[gi := (case branches ! gi of
                                    LitBranch c' sufs \<Rightarrow> LitBranch c' (sufs @ [rest])
                                  | EpsBranch \<Rightarrow> EpsBranch)], idxByChar)
             | None \<Rightarrow> (branches @ [LitBranch c [rest]], idxByChar(c \<mapsto> length branches)))))"

definition group_lits :: "nat list list \<Rightarrow> lit_branch list" where
  "group_lits lits = fst (fold group_step lits ([], Map.empty))"

definition emit_chars :: "nat list \<Rightarrow> emission" where
  "emit_chars cs em = Inr (fold (\<lambda>c e. emit OP_CHAR c 0 e) cs em)"

fun lit_total :: "nat list list \<Rightarrow> nat" where
  "lit_total [] = 0"
| "lit_total (l # ls) = length l + lit_total ls"

lemma lit_total_append [simp]: "lit_total (xs @ ys) = lit_total xs + lit_total ys"
  by (induction xs) auto

text \<open>A branch weighs its own unit for every literal in it.\<close>

fun branch_total :: "lit_branch \<Rightarrow> nat" where
  "branch_total EpsBranch = 0"
| "branch_total (LitBranch c sufs) = lit_total sufs + length sufs"

definition branches_ok :: "lit_branch list \<times> (nat \<rightharpoonup> nat) \<Rightarrow> bool" where
  "branches_ok st \<longleftrightarrow>
     (\<forall>c gi. snd st c = Some gi \<longrightarrow>
        gi < length (fst st) \<and> (\<exists>sufs. fst st ! gi = LitBranch c sufs)) \<and>
     (\<forall>b \<in> set (fst st). \<forall>c sufs. b = LitBranch c sufs \<longrightarrow> sufs \<noteq> [])"

lemma group_step_ok:
  assumes "branches_ok st"
  shows "branches_ok (group_step l st)"
    and "sum_list (map branch_total (fst (group_step l st))) =
      sum_list (map branch_total (fst st)) + length l"
proof -
  obtain bs idx where st: "st = (bs, idx)" by (cases st)
  have idx: "gi < length bs \<and> (\<exists>sufs. bs ! gi = LitBranch c sufs)" if "idx c = Some gi" for c gi
    using assms that by (auto simp: branches_ok_def st)
  have ne: "sufs \<noteq> []" if "LitBranch c sufs \<in> set bs" for c sufs
    using assms that by (auto simp: branches_ok_def st)
  show "branches_ok (group_step l st)"
  proof (cases l)
    case Nil
    then show ?thesis using ne by (auto simp: branches_ok_def group_step_def st)
  next
    case (Cons c rest)
    show ?thesis
    proof (cases "idx c")
      case None
      then show ?thesis using idx ne
        by (fastforce simp: branches_ok_def group_step_def st Cons nth_append less_Suc_eq split: if_splits)
    next
      case (Some gi)
      then obtain sufs where gi: "gi < length bs" "bs ! gi = LitBranch c sufs" using idx by blast
      then have upd: "fst (group_step l st) = bs[gi := LitBranch c (sufs @ [rest])]" "snd (group_step l st) = idx"
        using Some by (auto simp: group_step_def st Cons)
      have "gi' < length (fst (group_step l st)) \<and>
          (\<exists>sufs. fst (group_step l st) ! gi' = LitBranch c' sufs)" if "idx c' = Some gi'" for c' gi'
        using idx [OF that] gi by (cases "gi' = gi") (auto simp: upd)
      moreover have "\<forall>b \<in> set (fst (group_step l st)). \<forall>c' sufs'. b = LitBranch c' sufs' \<longrightarrow> sufs' \<noteq> []"
        using ne set_update_subset_insert [of bs gi "LitBranch c (sufs @ [rest])"] by (auto simp: upd)
      ultimately show ?thesis by (simp add: branches_ok_def upd)
    qed
  qed
  show "sum_list (map branch_total (fst (group_step l st))) =
      sum_list (map branch_total (fst st)) + length l"
  proof (cases l)
    case Nil
    then show ?thesis by (simp add: group_step_def st)
  next
    case (Cons c rest)
    show ?thesis
    proof (cases "idx c")
      case None
      then show ?thesis by (simp add: group_step_def st Cons)
    next
      case (Some gi)
      then obtain sufs where gi: "gi < length bs" "bs ! gi = LitBranch c sufs" using idx by blast
      have "sum_list (map branch_total (bs[gi := LitBranch c (sufs @ [rest])])) =
          sum_list (map branch_total bs) + length (c # rest)"
        using gi by (simp add: map_update sum_list_update)
      then show ?thesis using Some gi by (simp add: group_step_def st Cons)
    qed
  qed
qed

lemma group_fold_ok:
  assumes "branches_ok st"
  shows "branches_ok (fold group_step lits st) \<and>
    sum_list (map branch_total (fst (fold group_step lits st))) =
      sum_list (map branch_total (fst st)) + lit_total lits"
  using assms
proof (induction lits arbitrary: st)
  case (Cons l lits)
  then show ?case using group_step_ok [OF Cons.prems, of l] by simp
qed simp

lemma group_lits_total:
  assumes "LitBranch c sufs \<in> set (group_lits lits)"
  shows "lit_total sufs < lit_total lits" "sufs \<noteq> []"
proof -
  have ok: "branches_ok ([], Map.empty)" by (simp add: branches_ok_def)
  note res = group_fold_ok [OF ok, of lits]
  from assms have mem: "LitBranch c sufs \<in> set (fst (fold group_step lits ([], Map.empty)))"
    by (simp add: group_lits_def)
  then show ne: "sufs \<noteq> []" using res by (auto simp: branches_ok_def)
  have "branch_total (LitBranch c sufs) \<le>
      sum_list (map branch_total (fst (fold group_step lits ([], Map.empty))))"
    by (rule member_le_sum_list) (simp only: set_map imageI [OF mem], simp)
  also have "\<dots> = lit_total lits" using res by simp
  finally show "lit_total sufs < lit_total lits" using ne by (cases sufs) auto
qed

function emitLitAltGrouped :: "nat list list \<Rightarrow> emission" where
  "emitLitAltGrouped lits =
     emit_alternatives (map (\<lambda>b em.
       case b of
         EpsBranch \<Rightarrow> Inr em
       | LitBranch c sufs \<Rightarrow>
           (let em1 = emit OP_CHAR c 0 em in
            if length sufs = 1 then emit_chars (hd sufs) em1 else emitLitAltGrouped sufs em1))
       (group_lits lits))"
  by pat_completeness auto
termination
  by (relation "measure lit_total") (auto dest: group_lits_total)

declare emitLitAltGrouped.simps [simp del]

text \<open>The literals of an alternation that qualifies for the trie.\<close>

definition trie_literals :: "bool \<Rightarrow> re_node list \<Rightarrow> nat list list option" where
  "trie_literals caseInsensitive options =
     (if caseInsensitive \<or> length options < 4 then None
      else case those (map literalCodes options) of
             None \<Rightarrow> None
           | Some lits \<Rightarrow> (if [] \<in> set lits then None else Some lits))"

section \<open>Nodes\<close>

definition emit_star :: "emission \<Rightarrow> re_node \<Rightarrow> bool \<Rightarrow> emission" where
  "emit_star body n greedy em =
     (let guarded = canMatchEmpty n;
          (guard, em0) = (if guarded then allocScratch em else (0, em));
          em1 = (if guarded then emit OP_SAVE guard 0 em0 else em0);
          l1 = here em1;
          em2 = emit OP_SPLIT 0 0 em1;
          bodyStart = here em2
      in bindE (body (emitClearForBody n em2)) (\<lambda>em3.
           let em4 = (if guarded then emit OP_PROGRESS guard 0 em3 else em3);
               em5 = emit OP_JMP (if guarded then l1 - 1 else l1) 0 em4;
               exit = here em5
           in Inr (if greedy then patchB l1 exit (patchA l1 bodyStart em5)
                   else patchB l1 bodyStart (patchA l1 exit em5))))"

definition emit_plus :: "emission \<Rightarrow> re_node \<Rightarrow> bool \<Rightarrow> emission" where
  "emit_plus body n greedy em =
     (if \<not> canMatchEmpty n then
        (let l1 = here em in
         bindE (body (emitClearForBody n em)) (\<lambda>em1.
           let split = here em1;
               em2 = emit OP_SPLIT 0 0 em1;
               exit = here em2
           in Inr (if greedy then patchB split exit (patchA split l1 em2)
                   else patchB split l1 (patchA split exit em2))))
      else
        (let (guard, em0) = allocScratch em in
         bindE (body (emitClearForBody n em0)) (emit_star body n greedy)))"

definition emit_opt :: "emission \<Rightarrow> bool \<Rightarrow> emission" where
  "emit_opt body greedy em =
     (let split = here em;
          em1 = emit OP_SPLIT 0 0 em;
          bodyStart = here em1
      in bindE (body em1) (\<lambda>em2.
           let exit = here em2
           in Inr (if greedy then patchB split exit (patchA split bodyStart em2)
                   else patchB split bodyStart (patchA split exit em2))))"

definition compileRepeat :: "emission \<Rightarrow> re_node \<Rightarrow> nat \<Rightarrow> nat option \<Rightarrow> bool \<Rightarrow> emission" where
  "compileRepeat body n mn mx greedy em =
     (if (case mx of Some m \<Rightarrow> MAX_REPEAT_EXPANSION < m \<or> MAX_REPEAT_EXPANSION < mn | None \<Rightarrow> False)
      then Inl (RepeatTooLarge mn mx)
      else bindE (timesE mn body em) (\<lambda>em1.
        case mx of
          None \<Rightarrow> emit_star body n greedy em1
        | Some m \<Rightarrow> timesE (m - mn) (emit_opt body greedy) em1))"

text \<open>The flag scope of \<open>(?ims-ims:\<dots>)\<close>: additions first, then removals, restored afterwards.\<close>

definition scoped_flag :: "nat \<Rightarrow> nat \<Rightarrow> nat \<Rightarrow> bool \<Rightarrow> bool" where
  "scoped_flag f add remove cur =
     (let cur1 = (if has_flag add f then True else cur) in if has_flag remove f then False else cur1)"

definition emit_modGroup :: "emission \<Rightarrow> nat \<Rightarrow> nat \<Rightarrow> emission" where
  "emit_modGroup body add remove em =
     bindE (body (em\<lparr>em_caseInsensitive := scoped_flag RE_FLAG_I add remove (em_caseInsensitive em),
                     em_dotAll := scoped_flag RE_FLAG_S add remove (em_dotAll em),
                     em_multiline := scoped_flag RE_FLAG_M add remove (em_multiline em)\<rparr>)) (\<lambda>em1.
       Inr (em1\<lparr>em_caseInsensitive := em_caseInsensitive em, em_dotAll := em_dotAll em,
                em_multiline := em_multiline em\<rparr>))"

definition emit_group :: "emission \<Rightarrow> nat option \<Rightarrow> emission" where
  "emit_group body cap em =
     (case cap of
        None \<Rightarrow> body em
      | Some i \<Rightarrow>
          (let first = (if em_reversed em then 2 * i + 1 else 2 * i);
               second = (if em_reversed em then 2 * i else 2 * i + 1)
           in bindE (body (emit OP_SAVE first 0 em)) (\<lambda>em1. Inr (emit OP_SAVE second 0 em1))))"

definition emit_char :: "(nat \<Rightarrow> nat list) \<Rightarrow> nat \<Rightarrow> emission" where
  "emit_char upper code em =
     (if \<not> em_caseInsensitive em then Inr (emit OP_CHAR code 0 em)
      else if em_unicode em then Inr (emit OP_CHARI (asciiFold code) 0 em)
      else (let units = foldCharUnitsLegacy upper code in
            if length units = 1 then Inr (emit OP_CHAR (hd units) 0 em)
            else Inr (emit_class OP_CLASS (unitsToRanges units) False em)))"

definition emit_class_node :: "(nat \<Rightarrow> nat list) \<Rightarrow> ranges \<Rightarrow> bool \<Rightarrow> emission" where
  "emit_class_node upper rs negated em =
     (let rs' = (if em_caseInsensitive em
                 then (if em_unicode em then foldClassRangesAscii rs else foldClassRangesLegacy upper rs)
                 else rs)
      in Inr (emit_class OP_CLASS rs' negated em))"

definition emit_lookaround :: "re_node \<Rightarrow> bool \<Rightarrow> bool \<Rightarrow> emission" where
  "emit_lookaround body negated behind em =
     (let flags = (if negated then 1 else 0) + (if behind then 2 else 0);
          pc = here em;
          em1 = emit OP_LOOKAROUND 0 flags em;
          sub = \<lparr>ps_node = (if behind then reverseNode body else body), ps_patchPc = pc,
                 ps_reversed = behind, ps_caseInsensitive = em_caseInsensitive em,
                 ps_dotAll = em_dotAll em, ps_multiline = em_multiline em\<rparr>
      in Inr (em1\<lparr>pendingSubs := pendingSubs em1 @ [sub]\<rparr>))"

fun compileNode :: "(nat \<Rightarrow> nat list) \<Rightarrow> re_node \<Rightarrow> emission" where
  "compileNode upper (RChar code) = emit_char upper code"
| "compileNode upper RAny = (\<lambda>em. Inr (emit OP_ANY (if em_dotAll em then 1 else 0) 0 em))"
| "compileNode upper RUdot = (\<lambda>em. Inr (emit_class OP_CPCLASS (dotCpRanges (em_dotAll em)) False em))"
| "compileNode upper (RClass rs negated) = emit_class_node upper rs negated"
| "compileNode upper (RCpClass rs negated) = (\<lambda>em. Inr (emit_class OP_CPCLASS rs negated em))"
| "compileNode upper RBol = (\<lambda>em. Inr (emit OP_BOL (if em_multiline em then 1 else 0) 0 em))"
| "compileNode upper REol = (\<lambda>em. Inr (emit OP_EOL (if em_multiline em then 1 else 0) 0 em))"
| "compileNode upper (RWordBoundary negated) = (\<lambda>em. Inr (emit OP_WBOUND (if negated then 1 else 0) 0 em))"
| "compileNode upper (RBackref i) =
     (\<lambda>em. Inr (emit OP_BACKREF i (if em_caseInsensitive em then 1 else 0) em))"
| "compileNode upper (RLookaround n negated behind) = emit_lookaround n negated behind"
| "compileNode upper (RModGroup add remove n) = emit_modGroup (compileNode upper n) add remove"
| "compileNode upper (RConcat parts) = seqE (map (\<lambda>p. compileNode upper p) parts)"
| "compileNode upper (RAlt options) =
     (\<lambda>em. case trie_literals (em_caseInsensitive em) options of
             Some lits \<Rightarrow> emitLitAltGrouped lits em
           | None \<Rightarrow> emit_alternatives (map (\<lambda>p. compileNode upper p) options) em)"
| "compileNode upper (RStar n greedy) = emit_star (compileNode upper n) n greedy"
| "compileNode upper (RPlus n greedy) = emit_plus (compileNode upper n) n greedy"
| "compileNode upper (ROpt n greedy) = emit_opt (compileNode upper n) greedy"
| "compileNode upper (RRepeat n mn mx greedy) = compileRepeat (compileNode upper n) n mn mx greedy"
| "compileNode upper (RGroup n cap _) = emit_group (compileNode upper n) cap"

end
