(* ===== verification/Re_Segments.thy ===== *)
theory Re_Segments
  imports Re_Emitter
begin

text \<open>
  A local reading of the emitter. Every emission appends one segment (code, class-table cells,
  queued lookaround bodies, scratch slots) and patches only inside it; \<open>emits f Q\<close> says that the
  segments of \<open>f\<close> satisfy \<open>Q\<close> at the site where they are emitted. One rule per combinator turns
  the patching emitter of \<^verbatim>\<open>compile.ts\<close> into closed forms of its code.
\<close>

record segment =
  sg_code :: "instr list"
  sg_tbl :: "nat list"
  sg_subs :: "pending_sub list"
  sg_slots :: nat

text \<open>What an emission can see of the emitter.\<close>

record site =
  st_pc :: nat
  st_tbl :: "nat list"
  st_ci :: bool
  st_da :: bool
  st_ml :: bool
  st_un :: bool
  st_rev :: bool
  st_slot :: nat

type_synonym seg_pred = "site \<Rightarrow> segment \<Rightarrow> bool"

definition site_of :: "emitter \<Rightarrow> site" where
  "site_of em =
     \<lparr>st_pc = here em, st_tbl = em_classTable em, st_ci = em_caseInsensitive em, st_da = em_dotAll em,
      st_ml = em_multiline em, st_un = em_unicode em, st_rev = em_reversed em,
      st_slot = scratchBase em + scratchCount em\<rparr>"

definition extend :: "emitter \<Rightarrow> segment \<Rightarrow> emitter" where
  "extend em x =
     em\<lparr>instrs := instrs em @ sg_code x, em_classTable := em_classTable em @ sg_tbl x,
        pendingSubs := pendingSubs em @ sg_subs x, scratchCount := scratchCount em + sg_slots x\<rparr>"

definition code_seg :: "instr list \<Rightarrow> segment" where
  "code_seg is = \<lparr>sg_code = is, sg_tbl = [], sg_subs = [], sg_slots = 0\<rparr>"

definition slot_seg :: "nat \<Rightarrow> segment" where
  "slot_seg k = \<lparr>sg_code = [], sg_tbl = [], sg_subs = [], sg_slots = k\<rparr>"

definition seg_app :: "segment \<Rightarrow> segment \<Rightarrow> segment" where
  "seg_app x y =
     \<lparr>sg_code = sg_code x @ sg_code y, sg_tbl = sg_tbl x @ sg_tbl y, sg_subs = sg_subs x @ sg_subs y,
      sg_slots = sg_slots x + sg_slots y\<rparr>"

definition after :: "site \<Rightarrow> segment \<Rightarrow> site" where
  "after s x =
     s\<lparr>st_pc := st_pc s + length (sg_code x), st_tbl := st_tbl s @ sg_tbl x,
       st_slot := st_slot s + sg_slots x\<rparr>"

lemma seg_simps [simp]:
  "sg_code (code_seg is) = is" "sg_tbl (code_seg is) = []" "sg_subs (code_seg is) = []"
  "sg_slots (code_seg is) = 0"
  "sg_code (slot_seg k) = []" "sg_tbl (slot_seg k) = []" "sg_subs (slot_seg k) = []"
  "sg_slots (slot_seg k) = k"
  "sg_code (seg_app x y) = sg_code x @ sg_code y" "sg_tbl (seg_app x y) = sg_tbl x @ sg_tbl y"
  "sg_subs (seg_app x y) = sg_subs x @ sg_subs y" "sg_slots (seg_app x y) = sg_slots x + sg_slots y"
  by (simp_all add: code_seg_def slot_seg_def seg_app_def)

lemma seg_app_assoc: "seg_app (seg_app x y) z = seg_app x (seg_app y z)"
  by (simp add: seg_app_def add.assoc)

lemma seg_app_empty [simp]: "seg_app (code_seg []) x = x" "seg_app x (code_seg []) = x"
  by (simp_all add: seg_app_def code_seg_def)

lemma code_seg_app: "seg_app (code_seg xs) (code_seg ys) = code_seg (xs @ ys)"
  by (simp add: seg_app_def code_seg_def)

lemma after_simps [simp]:
  "st_pc (after s x) = st_pc s + length (sg_code x)" "st_tbl (after s x) = st_tbl s @ sg_tbl x"
  "st_slot (after s x) = st_slot s + sg_slots x" "st_ci (after s x) = st_ci s"
  "st_da (after s x) = st_da s" "st_ml (after s x) = st_ml s" "st_un (after s x) = st_un s"
  "st_rev (after s x) = st_rev s"
  by (simp_all add: after_def)

lemma site_of_simps [simp]:
  "st_pc (site_of em) = here em" "st_tbl (site_of em) = em_classTable em"
  "st_ci (site_of em) = em_caseInsensitive em" "st_da (site_of em) = em_dotAll em"
  "st_ml (site_of em) = em_multiline em" "st_un (site_of em) = em_unicode em"
  "st_rev (site_of em) = em_reversed em" "st_slot (site_of em) = scratchBase em + scratchCount em"
  by (simp_all add: site_of_def)

lemma here_extend [simp]: "here (extend em x) = here em + length (sg_code x)"
  by (simp add: here_def extend_def)

lemma site_of_extend [simp]: "site_of (extend em x) = after (site_of em) x"
  by (simp add: site_of_def extend_def after_def here_def)

lemma extend_fields [simp]:
  "instrs (extend em x) = instrs em @ sg_code x" "em_classTable (extend em x) = em_classTable em @ sg_tbl x"
  "pendingSubs (extend em x) = pendingSubs em @ sg_subs x"
  "scratchCount (extend em x) = scratchCount em + sg_slots x" "scratchBase (extend em x) = scratchBase em"
  "em_caseInsensitive (extend em x) = em_caseInsensitive em" "em_dotAll (extend em x) = em_dotAll em"
  "em_multiline (extend em x) = em_multiline em" "em_unicode (extend em x) = em_unicode em"
  "em_reversed (extend em x) = em_reversed em"
  by (simp_all add: extend_def)

lemma extend_extend: "extend (extend em x) y = extend em (seg_app x y)"
  by (simp add: extend_def seg_app_def)

lemma extend_empty [simp]: "extend em (code_seg []) = em"
  by (simp add: extend_def)

text \<open>The primitives as segments.\<close>

lemma emit_extend: "emit x a b em = extend em (code_seg [(x, a, b)])"
  by (simp add: emit_def extend_def)

lemma allocScratch_extend:
  "allocScratch em = (scratchBase em + scratchCount em, extend em (slot_seg 1))"
  by (simp add: allocScratch_def extend_def)

definition clear_code :: "re_node \<Rightarrow> instr list" where
  "clear_code n = (case captureSpan n of None \<Rightarrow> [] | Some (lo, hi) \<Rightarrow> [(OP_CLEAR, 2 * lo, 2 * hi + 1)])"

lemma emitClearForBody_extend: "emitClearForBody n em = extend em (code_seg (clear_code n))"
  by (simp add: emitClearForBody_def clear_code_def emit_extend split: option.splits)

definition class_seg :: "ReOp \<Rightarrow> nat \<Rightarrow> ranges \<Rightarrow> bool \<Rightarrow> segment" where
  "class_seg x offset rs negated =
     \<lparr>sg_code = [(x, offset, if negated then 1 else 0)], sg_tbl = encode_class (normalizeRanges rs),
      sg_subs = [], sg_slots = 0\<rparr>"

lemma class_seg_simps [simp]:
  "sg_code (class_seg x off rs neg) = [(x, off, if neg then 1 else 0)]"
  "sg_tbl (class_seg x off rs neg) = encode_class (normalizeRanges rs)"
  "sg_subs (class_seg x off rs neg) = []" "sg_slots (class_seg x off rs neg) = 0"
  by (simp_all add: class_seg_def)

lemma emit_class_extend:
  "emit_class x rs negated em = extend em (class_seg x (length (em_classTable em)) rs negated)"
  by (simp add: emit_class_def addClass_def emit_def extend_def)

text \<open>Patching a record of the segment under construction.\<close>

lemma patchA_extend:
  assumes "sg_code x = pre @ (y, a, b) # post" "pc = here em + length pre"
  shows "patchA pc a' (extend em x) = extend em (x\<lparr>sg_code := pre @ (y, a', b) # post\<rparr>)"
  using assms by (simp add: patchA_def extend_def here_def nth_append list_update_append)

lemma patchB_extend:
  assumes "sg_code x = pre @ (y, a, b) # post" "pc = here em + length pre"
  shows "patchB pc b' (extend em x) = extend em (x\<lparr>sg_code := pre @ (y, a, b') # post\<rparr>)"
  using assms by (simp add: patchB_def extend_def here_def nth_append list_update_append)

section \<open>Emissions and their segments\<close>

definition emits :: "emission \<Rightarrow> seg_pred \<Rightarrow> bool" where
  "emits f Q \<longleftrightarrow> (\<forall>em em'. f em = Inr em' \<longrightarrow> (\<exists>x. em' = extend em x \<and> Q (site_of em) x))"

lemma emitsI:
  "(\<And>em em'. f em = Inr em' \<Longrightarrow> \<exists>x. em' = extend em x \<and> Q (site_of em) x) \<Longrightarrow> emits f Q"
  by (simp add: emits_def)

lemma emitsE:
  assumes "emits f Q" "f em = Inr em'"
  obtains x where "em' = extend em x" "Q (site_of em) x"
  using assms by (auto simp: emits_def)

lemma emits_mono: "emits f Q \<Longrightarrow> (\<And>s x. Q s x \<Longrightarrow> R s x) \<Longrightarrow> emits f R"
  by (fastforce simp: emits_def)

definition seg_empty :: seg_pred where
  "seg_empty s x \<longleftrightarrow> x = code_seg []"

definition seg_seq :: "seg_pred \<Rightarrow> seg_pred \<Rightarrow> seg_pred" where
  "seg_seq Q R s x \<longleftrightarrow> (\<exists>y z. Q s y \<and> R (after s y) z \<and> x = seg_app y z)"

primrec seg_all :: "seg_pred list \<Rightarrow> seg_pred" where
  "seg_all [] = seg_empty"
| "seg_all (Q # Qs) = seg_seq Q (seg_all Qs)"

lemma emits_bind: "emits f Q \<Longrightarrow> emits g R \<Longrightarrow> emits (\<lambda>em. bindE (f em) g) (seg_seq Q R)"
proof (rule emitsI)
  fix em em'
  assume f: "emits f Q" and g: "emits g R" and "bindE (f em) g = Inr em'"
  then obtain em1 where em1: "f em = Inr em1" "g em1 = Inr em'" by blast
  obtain y where y: "em1 = extend em y" "Q (site_of em) y" by (rule emitsE [OF f em1(1)])
  obtain z where z: "em' = extend em1 z" "R (site_of em1) z" by (rule emitsE [OF g em1(2)])
  show "\<exists>x. em' = extend em x \<and> seg_seq Q R (site_of em) x"
    using y z by (auto simp: seg_seq_def extend_extend)
qed

lemma emits_skip: "emits Inr seg_empty"
  by (rule emitsI) (auto simp: seg_empty_def intro!: exI [of _ "code_seg []"])

lemma emits_seqE: "list_all2 emits fs Qs \<Longrightarrow> emits (seqE fs) (seg_all Qs)"
proof (induction rule: list_all2_induct)
  case Nil
  show ?case using emits_skip by (simp add: emits_def)
next
  case (Cons f fs Q Qs)
  then show ?case using emits_bind [of f Q "seqE fs" "seg_all Qs"] by (simp add: emits_def)
qed

lemma emits_timesE: "emits f Q \<Longrightarrow> emits (timesE n f) (seg_all (replicate n Q))"
proof (induction n)
  case 0
  show ?case using emits_skip by (simp add: emits_def)
next
  case (Suc n)
  then show ?case using emits_bind [of f Q "timesE n f"] by (simp add: emits_def)
qed

lemma emits_leaf:
  "(\<And>em. f em = Inr (extend em (x (site_of em)))) \<Longrightarrow> emits f (\<lambda>s y. y = x s)"
  by (rule emitsI) auto

section \<open>Alternatives\<close>

fun chain_seg :: "nat \<Rightarrow> seg_pred list \<Rightarrow> seg_pred" where
  "chain_seg e [] s x = seg_empty s x"
| "chain_seg e [Q] s x = Q s x"
| "chain_seg e (Q # R # Qs) s x =
     (\<exists>y z pre. pre = seg_app (code_seg [(OP_SPLIT, st_pc s + 1, st_pc s + length (sg_code y) + 2)])
                 (seg_app y (code_seg [(OP_JMP, e, 0)])) \<and>
        Q (after s (code_seg [(OP_SPLIT, 0, 0)])) y \<and> chain_seg e (R # Qs) (after s pre) z \<and>
        x = seg_app pre z)"

definition alt_seg :: "seg_pred list \<Rightarrow> seg_pred" where
  "alt_seg Qs s x \<longleftrightarrow> chain_seg (st_pc s + length (sg_code x)) Qs s x"

text \<open>The end target is only known at the end; patching it in gives the closed form.\<close>

lemma emit_chain_segs:
  assumes "list_all2 emits fs Qs" "emit_chain fs js em = Inr (js', em')"
  shows "\<exists>x js1. em' = extend em x \<and> js' = js @ js1 \<and>
    (\<forall>e. \<exists>x'. chain_seg e Qs (site_of em) x' \<and> length (sg_code x') = length (sg_code x) \<and>
       (\<forall>em0. here em0 = here em \<longrightarrow> fold (\<lambda>j. patchA j e) js1 (extend em0 x) = extend em0 x'))"
  using assms
proof (induction fs arbitrary: js em Qs rule: induct_list012)
  case (1 js em)
  then show ?case
    by (auto simp: seg_empty_def intro!: exI [of _ "code_seg []"] exI [of _ "[]"])
next
  case (2 f js em)
  then obtain Q where Q: "Qs = [Q]" "emits f Q" by (auto simp: list_all2_Cons1)
  from "2.prems" have f: "f em = Inr em'" "js' = js" by (auto simp: bindE_eq_Inr)
  obtain x where "em' = extend em x" "Q (site_of em) x" by (rule emitsE [OF Q(2) f(1)])
  then show ?case using f Q by (auto intro!: exI [of _ x] exI [of _ "[]"])
next
  case (3 f g fs js em)
  then obtain Q R Rs where Q: "Qs = Q # R # Rs" "emits f Q" "list_all2 emits (g # fs) (R # Rs)"
    by (auto simp: list_all2_Cons1)
  let ?em2 = "extend em (code_seg [(OP_SPLIT, here em + 1, 0)])"
  have em2: "patchA (here em) (here (emit OP_SPLIT 0 0 em)) (emit OP_SPLIT 0 0 em) = ?em2"
    using patchA_extend [of "code_seg [(OP_SPLIT, 0, 0)]" "[]" OP_SPLIT 0 0 "[]" "here em" em "here em + 1"]
    by (simp add: emit_extend code_seg_def)
  from "3.prems"(2) obtain em3 where em3: "f ?em2 = Inr em3"
    by (auto simp: em2 Let_def bindE_eq_Inr)
  obtain y where y: "em3 = extend ?em2 y" "Q (site_of ?em2) y" by (rule emitsE [OF Q(2) em3])
  let ?pre = "\<lambda>a. seg_app (code_seg [(OP_SPLIT, here em + 1, here em + length (sg_code y) + 2)])
                 (seg_app y (code_seg [(OP_JMP, a, 0)]))"
  have em5: "patchB (here em) (here (emit OP_JMP 0 0 em3)) (emit OP_JMP 0 0 em3) = extend em (?pre 0)"
    using patchB_extend [of "seg_app (code_seg [(OP_SPLIT, here em + 1, 0)]) (seg_app y (code_seg [(OP_JMP, 0, 0)]))"
        "[]" OP_SPLIT "here em + 1" 0 "sg_code y @ [(OP_JMP, 0, 0)]" "here em" em "here em + length (sg_code y) + 2"]
    by (simp add: y emit_extend extend_extend seg_app_def code_seg_def)
  have rest: "emit_chain (g # fs) (js @ [here em3]) (extend em (?pre 0)) = Inr (js', em')"
    using "3.prems"(2) em3 by (simp add: em2 Let_def em5 del: emit_chain.simps) (simp add: em2 Let_def em5 em3)
  obtain z js1 where z: "em' = extend (extend em (?pre 0)) z" "js' = js @ [here em3] @ js1"
    and zs: "\<And>e. \<exists>x'. chain_seg e (R # Rs) (site_of (extend em (?pre 0))) x' \<and>
       length (sg_code x') = length (sg_code z) \<and>
       (\<forall>em0. here em0 = here (extend em (?pre 0)) \<longrightarrow> fold (\<lambda>j. patchA j e) js1 (extend em0 z) = extend em0 x')"
    using "3.IH"(2) [OF Q(3) rest] by auto
  have "\<exists>x'. chain_seg e Qs (site_of em) x' \<and> length (sg_code x') = length (sg_code (seg_app (?pre 0) z)) \<and>
      (\<forall>em0. here em0 = here em \<longrightarrow>
         fold (\<lambda>j. patchA j e) (here em3 # js1) (extend em0 (seg_app (?pre 0) z)) = extend em0 x')" for e
  proof -
    obtain z' where z': "chain_seg e (R # Rs) (site_of (extend em (?pre 0))) z'"
        "length (sg_code z') = length (sg_code z)"
        "\<And>em0. here em0 = here (extend em (?pre 0)) \<Longrightarrow> fold (\<lambda>j. patchA j e) js1 (extend em0 z) = extend em0 z'"
      using zs [of e] by blast
    have "site_of (extend em (?pre 0)) = after (site_of em) (?pre e)"
      by (simp add: after_def)
    then have "chain_seg e Qs (site_of em) (seg_app (?pre e) z')"
      using z'(1) y(2) by (simp add: Q after_def) blast
    moreover have "fold (\<lambda>j. patchA j e) (here em3 # js1) (extend em0 (seg_app (?pre 0) z)) =
        extend em0 (seg_app (?pre e) z')" if "here em0 = here em" for em0
    proof -
      have "patchA (here em3) e (extend em0 (seg_app (?pre 0) z)) = extend em0 (seg_app (?pre e) z)"
        using patchA_extend [of "seg_app (?pre 0) z"
            "(OP_SPLIT, here em + 1, here em + length (sg_code y) + 2) # sg_code y" OP_JMP 0 0 "sg_code z"
            "here em3" em0 e] that
        by (simp add: y seg_app_def code_seg_def)
      also have "\<dots> = extend (extend em0 (?pre e)) z" by (simp add: extend_extend)
      finally show ?thesis using z'(3) [of "extend em0 (?pre e)"] that by (simp add: extend_extend)
    qed
    ultimately show ?thesis using z'(2) by auto
  qed
  then show ?case using z by (intro exI [of _ "seg_app (?pre 0) z"] exI [of _ "here em3 # js1"])
      (simp add: extend_extend)
qed

lemma emits_alternatives: "list_all2 emits fs Qs \<Longrightarrow> emits (emit_alternatives fs) (alt_seg Qs)"
proof (rule emitsI)
  fix em em'
  assume fs: "list_all2 emits fs Qs" and "emit_alternatives fs em = Inr em'"
  then obtain js em1 where c: "emit_chain fs [] em = Inr (js, em1)"
    and em': "em' = fold (\<lambda>j. patchA j (here em1)) js em1"
    by (auto simp: emit_alternatives_def bindE_eq_Inr)
  from emit_chain_segs [OF fs c] obtain x where x: "em1 = extend em x"
    and "\<And>e. \<exists>x'. chain_seg e Qs (site_of em) x' \<and> length (sg_code x') = length (sg_code x) \<and>
       (\<forall>em0. here em0 = here em \<longrightarrow> fold (\<lambda>j. patchA j e) js (extend em0 x) = extend em0 x')"
    by auto
  from this(2) [of "here em1"] show "\<exists>x. em' = extend em x \<and> alt_seg Qs (site_of em) x"
    using em' x by (auto simp: alt_seg_def)
qed

section \<open>Quantifiers, groups and scopes\<close>

definition split_instr :: "bool \<Rightarrow> nat \<Rightarrow> nat \<Rightarrow> instr" where
  "split_instr greedy body exit = (if greedy then (OP_SPLIT, body, exit) else (OP_SPLIT, exit, body))"

definition with_code :: "segment \<Rightarrow> instr list \<Rightarrow> instr list \<Rightarrow> segment" where
  "with_code x pre post = seg_app (code_seg pre) (seg_app x (code_seg post))"

lemma with_code_simps [simp]:
  "sg_code (with_code x pre post) = pre @ sg_code x @ post" "sg_tbl (with_code x pre post) = sg_tbl x"
  "sg_subs (with_code x pre post) = sg_subs x" "sg_slots (with_code x pre post) = sg_slots x"
  by (simp_all add: with_code_def)

text \<open>Filling in both operands of a forward SPLIT.\<close>

definition patch_split :: "bool \<Rightarrow> nat \<Rightarrow> nat \<Rightarrow> nat \<Rightarrow> emitter \<Rightarrow> emitter" where
  "patch_split greedy pc body exit em =
     (if greedy then patchB pc exit (patchA pc body em) else patchB pc body (patchA pc exit em))"

lemma patch_split_extend:
  assumes "sg_code x = pre @ (OP_SPLIT, a, b) # post" "pc = here em + length pre"
  shows "patch_split greedy pc body exit (extend em x) =
    extend em (x\<lparr>sg_code := pre @ split_instr greedy body exit # post\<rparr>)"
proof -
  have *: "patchB pc v (patchA pc u (extend em x)) = extend em (x\<lparr>sg_code := pre @ (OP_SPLIT, u, v) # post\<rparr>)" for u v
    using patchB_extend [of "x\<lparr>sg_code := pre @ (OP_SPLIT, u, b) # post\<rparr>" pre OP_SPLIT u b post pc em v] assms(2)
    by (simp add: patchA_extend [OF assms(1)])
  show ?thesis by (simp add: patch_split_def split_instr_def *)
qed

definition star_seg :: "re_node \<Rightarrow> bool \<Rightarrow> seg_pred \<Rightarrow> seg_pred" where
  "star_seg n greedy Q s x \<longleftrightarrow>
     (\<exists>y. let guarded = canMatchEmpty n;
              g = st_slot s;
              pre = (if guarded then [(OP_SAVE, g, 0)] else []);
              post = (if guarded then [(OP_PROGRESS, g, 0)] else []) @ [(OP_JMP, st_pc s, 0)];
              l1 = st_pc s + length pre;
              exit = l1 + 1 + length (clear_code n) + length (sg_code y) + length post;
              slots = slot_seg (if guarded then 1 else 0);
              head = pre @ split_instr greedy (l1 + 1) exit # clear_code n
          in Q (after s (seg_app slots (code_seg head))) y \<and> x = seg_app slots (with_code y head post))"

lemma seg_app_slot_code: "seg_app (code_seg is) (slot_seg k) = seg_app (slot_seg k) (code_seg is)"
  by (simp add: seg_app_def)

lemma after_same_length:
  "length (sg_code x) = length (sg_code y) \<Longrightarrow> sg_tbl x = sg_tbl y \<Longrightarrow> sg_slots x = sg_slots y \<Longrightarrow>
   after s x = after s y"
  by (simp add: after_def)

lemma emits_star:
  assumes "emits body Q"
  shows "emits (emit_star body n greedy) (star_seg n greedy Q)"
proof (rule emitsI)
  fix em em'
  assume run: "emit_star body n greedy em = Inr em'"
  show "\<exists>x. em' = extend em x \<and> star_seg n greedy Q (site_of em) x"
  proof (cases "canMatchEmpty n")
    case True
    let ?g = "scratchBase em + scratchCount em"
    let ?pre = "\<lambda>sp. [(OP_SAVE, ?g, 0), sp] @ clear_code n"
    let ?emb = "extend em (seg_app (slot_seg 1) (code_seg (?pre (OP_SPLIT, 0, 0))))"
    from run True obtain em3 where em3: "body ?emb = Inr em3"
      and em': "em' = patch_split greedy (here em + 1) (here em + 2) (here em3 + 2)
        (extend em3 (code_seg [(OP_PROGRESS, ?g, 0), (OP_JMP, here em, 0)]))"
      by (auto simp: emit_star_def Let_def bindE_eq_Inr allocScratch_extend emitClearForBody_extend
          emit_extend extend_extend seg_app_assoc code_seg_app patch_split_def split: if_splits)
    obtain y where y: "em3 = extend ?emb y" "Q (site_of ?emb) y" by (rule emitsE [OF assms em3])
    have "star_seg n greedy Q (site_of em) (seg_app (slot_seg 1) (with_code y
        (?pre (split_instr greedy (here em + 2) (here em3 + 2))) [(OP_PROGRESS, ?g, 0), (OP_JMP, here em, 0)]))"
      unfolding star_seg_def
      by (rule exI [of _ y]) (use y in \<open>simp add: True after_def\<close>)
    moreover have "em' = extend em (seg_app (slot_seg 1) (with_code y
        (?pre (split_instr greedy (here em + 2) (here em3 + 2))) [(OP_PROGRESS, ?g, 0), (OP_JMP, here em, 0)]))"
      using patch_split_extend [of "seg_app (slot_seg 1) (with_code y (?pre (OP_SPLIT, 0, 0))
            [(OP_PROGRESS, ?g, 0), (OP_JMP, here em, 0)])" "[(OP_SAVE, ?g, 0)]" 0 0
          "clear_code n @ sg_code y @ [(OP_PROGRESS, ?g, 0), (OP_JMP, here em, 0)]" "here em + 1" em greedy
          "here em + 2" "here em3 + 2"] y
      by (simp add: em' extend_extend seg_app_assoc with_code_def)
    ultimately show ?thesis by blast
  next
    case False
    let ?pre = "\<lambda>sp. sp # clear_code n"
    let ?emb = "extend em (code_seg (?pre (OP_SPLIT, 0, 0)))"
    from run False obtain em3 where em3: "body ?emb = Inr em3"
      and em': "em' = patch_split greedy (here em) (here em + 1) (here em3 + 1)
        (extend em3 (code_seg [(OP_JMP, here em, 0)]))"
      by (auto simp: emit_star_def Let_def bindE_eq_Inr emitClearForBody_extend
          emit_extend extend_extend seg_app_assoc code_seg_app patch_split_def split: if_splits)
    obtain y where y: "em3 = extend ?emb y" "Q (site_of ?emb) y" by (rule emitsE [OF assms em3])
    have "star_seg n greedy Q (site_of em) (with_code y
        (?pre (split_instr greedy (here em + 1) (here em3 + 1))) [(OP_JMP, here em, 0)])"
      unfolding star_seg_def
      by (rule exI [of _ y]) (use y in \<open>simp add: False after_def seg_app_def code_seg_def\<close>)
    moreover have "em' = extend em (with_code y
        (?pre (split_instr greedy (here em + 1) (here em3 + 1))) [(OP_JMP, here em, 0)])"
      using patch_split_extend [of "with_code y (?pre (OP_SPLIT, 0, 0)) [(OP_JMP, here em, 0)]" "[]" 0 0
          "clear_code n @ sg_code y @ [(OP_JMP, here em, 0)]" "here em" em greedy
          "here em + 1" "here em3 + 1"] y
      by (simp add: em' extend_extend seg_app_assoc with_code_def)
    ultimately show ?thesis by blast
  qed
qed

definition opt_seg :: "bool \<Rightarrow> seg_pred \<Rightarrow> seg_pred" where
  "opt_seg greedy Q s x \<longleftrightarrow>
     (\<exists>y. Q (after s (code_seg [(OP_SPLIT, 0, 0)])) y \<and>
          x = with_code y [split_instr greedy (st_pc s + 1) (st_pc s + 1 + length (sg_code y))] [])"

lemma emits_opt:
  assumes "emits body Q"
  shows "emits (emit_opt body greedy) (opt_seg greedy Q)"
proof (rule emitsI)
  fix em em'
  let ?emb = "extend em (code_seg [(OP_SPLIT, 0, 0)])"
  assume "emit_opt body greedy em = Inr em'"
  then obtain em2 where em2: "body ?emb = Inr em2"
    and em': "em' = patch_split greedy (here em) (here em + 1) (here em2) em2"
    by (auto simp: emit_opt_def Let_def bindE_eq_Inr emit_extend patch_split_def split: if_splits)
  obtain y where y: "em2 = extend ?emb y" "Q (site_of ?emb) y" by (rule emitsE [OF assms em2])
  have "em' = extend em (with_code y [split_instr greedy (here em + 1) (here em + 1 + length (sg_code y))] [])"
    using patch_split_extend [of "with_code y [(OP_SPLIT, 0, 0)] []" "[]" 0 0 "sg_code y" "here em" em greedy
        "here em + 1" "here em2"] y
    by (simp add: em' extend_extend with_code_def)
  then show "\<exists>x. em' = extend em x \<and> opt_seg greedy Q (site_of em) x"
    using y by (auto simp: opt_seg_def)
qed

definition plus_seg :: "re_node \<Rightarrow> bool \<Rightarrow> seg_pred \<Rightarrow> seg_pred" where
  "plus_seg n greedy Q s x \<longleftrightarrow>
     (if canMatchEmpty n then
        (\<exists>y z. let pre = seg_app (slot_seg 1) (code_seg (clear_code n))
               in Q (after s pre) y \<and> star_seg n greedy Q (after s (seg_app pre y)) z \<and>
                  x = seg_app (seg_app pre y) z)
      else
        (\<exists>y. Q (after s (code_seg (clear_code n))) y \<and>
             x = with_code y (clear_code n)
                   [split_instr greedy (st_pc s) (st_pc s + length (clear_code n) + length (sg_code y) + 1)]))"

lemma emits_plus:
  assumes body: "emits body Q"
  shows "emits (emit_plus body n greedy) (plus_seg n greedy Q)"
proof (rule emitsI)
  fix em em'
  assume run: "emit_plus body n greedy em = Inr em'"
  show "\<exists>x. em' = extend em x \<and> plus_seg n greedy Q (site_of em) x"
  proof (cases "canMatchEmpty n")
    case True
    let ?pre = "seg_app (slot_seg 1) (code_seg (clear_code n))"
    from run True obtain em1 where em1: "body (extend em ?pre) = Inr em1" "emit_star body n greedy em1 = Inr em'"
      by (auto simp: emit_plus_def allocScratch_extend emitClearForBody_extend extend_extend bindE_eq_Inr)
    obtain y where y: "em1 = extend (extend em ?pre) y" "Q (site_of (extend em ?pre)) y"
      by (rule emitsE [OF body em1(1)])
    obtain z where z: "em' = extend em1 z" "star_seg n greedy Q (site_of em1) z"
      by (rule emitsE [OF emits_star [OF body] em1(2)])
    have "em' = extend em (seg_app (seg_app ?pre y) z)" by (simp add: z(1) y(1) extend_extend seg_app_assoc)
    moreover have "plus_seg n greedy Q (site_of em) (seg_app (seg_app ?pre y) z)"
      using y z by (auto simp: plus_seg_def True Let_def extend_extend)
    ultimately show ?thesis by blast
  next
    case False
    let ?emb = "extend em (code_seg (clear_code n))"
    from run False obtain em1 where em1: "body ?emb = Inr em1"
      and em': "em' = patch_split greedy (here em1) (here em) (here em1 + 1)
        (extend em1 (code_seg [(OP_SPLIT, 0, 0)]))"
      by (auto simp: emit_plus_def Let_def bindE_eq_Inr emitClearForBody_extend emit_extend patch_split_def
          split: if_splits)
    obtain y where y: "em1 = extend ?emb y" "Q (site_of ?emb) y" by (rule emitsE [OF body em1])
    have "em' = extend em (with_code y (clear_code n)
        [split_instr greedy (here em) (here em + length (clear_code n) + length (sg_code y) + 1)])"
      using patch_split_extend [of "with_code y (clear_code n) [(OP_SPLIT, 0, 0)]" "clear_code n @ sg_code y" 0 0 "[]"
          "here em1" em greedy "here em" "here em1 + 1"] y
      by (simp add: em' extend_extend seg_app_assoc with_code_def) (simp add: seg_app_def code_seg_def ac_simps)
    then show ?thesis using y False by (auto simp: plus_seg_def)
  qed
qed

definition repeat_seg :: "re_node \<Rightarrow> nat \<Rightarrow> nat option \<Rightarrow> bool \<Rightarrow> seg_pred \<Rightarrow> seg_pred" where
  "repeat_seg n mn mx greedy Q =
     seg_seq (seg_all (replicate mn Q))
       (case mx of None \<Rightarrow> star_seg n greedy Q | Some m \<Rightarrow> seg_all (replicate (m - mn) (opt_seg greedy Q)))"

lemma emits_repeat:
  assumes "emits body Q"
  shows "emits (compileRepeat body n mn mx greedy) (repeat_seg n mn mx greedy Q)"
proof -
  define tail where "tail = (case mx of None \<Rightarrow> emit_star body n greedy
    | Some m \<Rightarrow> timesE (m - mn) (emit_opt body greedy))"
  have "emits tail (case mx of None \<Rightarrow> star_seg n greedy Q
      | Some m \<Rightarrow> seg_all (replicate (m - mn) (opt_seg greedy Q)))"
    using emits_star [OF assms] emits_timesE [OF emits_opt [OF assms]]
    by (simp add: tail_def split: option.splits)
  then have *: "emits (\<lambda>em. bindE (timesE mn body em) tail) (repeat_seg n mn mx greedy Q)"
    unfolding repeat_seg_def by (rule emits_bind [OF emits_timesE [OF assms]])
  have tail: "(case mx of None \<Rightarrow> emit_star body n greedy em
      | Some m \<Rightarrow> timesE (m - mn) (emit_opt body greedy) em) = tail em" for em
    by (simp add: tail_def split: option.splits)
  show ?thesis
  proof (rule emitsI)
    fix em em'
    assume "compileRepeat body n mn mx greedy em = Inr em'"
    then have "bindE (timesE mn body em) tail = Inr em'"
      unfolding compileRepeat_def tail by (simp split: if_splits)
    then show "\<exists>x. em' = extend em x \<and> repeat_seg n mn mx greedy Q (site_of em) x"
      by (blast elim: emitsE [OF *])
  qed
qed

definition group_seg :: "nat option \<Rightarrow> seg_pred \<Rightarrow> seg_pred" where
  "group_seg cap Q s x \<longleftrightarrow>
     (case cap of
        None \<Rightarrow> Q s x
      | Some i \<Rightarrow>
          (\<exists>y. Q (after s (code_seg [(OP_SAVE, 0, 0)])) y \<and>
               x = with_code y [(OP_SAVE, if st_rev s then 2 * i + 1 else 2 * i, 0)]
                     [(OP_SAVE, if st_rev s then 2 * i else 2 * i + 1, 0)]))"

lemma emits_group:
  assumes "emits body Q"
  shows "emits (emit_group body cap) (group_seg cap Q)"
proof (rule emitsI)
  fix em em'
  assume run: "emit_group body cap em = Inr em'"
  show "\<exists>x. em' = extend em x \<and> group_seg cap Q (site_of em) x"
  proof (cases cap)
    case None
    then show ?thesis using run emitsE [OF assms, of em em'] by (auto simp: emit_group_def group_seg_def)
  next
    case (Some i)
    let ?a = "if em_reversed em then 2 * i + 1 else 2 * i" and ?b = "if em_reversed em then 2 * i else 2 * i + 1"
    let ?emb = "extend em (code_seg [(OP_SAVE, ?a, 0)])"
    from run Some obtain em1 where em1: "body ?emb = Inr em1" "em' = extend em1 (code_seg [(OP_SAVE, ?b, 0)])"
      by (auto simp: emit_group_def Let_def bindE_eq_Inr emit_extend)
    obtain y where y: "em1 = extend ?emb y" "Q (site_of ?emb) y" by (rule emitsE [OF assms em1(1)])
    have "em' = extend em (with_code y [(OP_SAVE, ?a, 0)] [(OP_SAVE, ?b, 0)])"
      by (simp add: em1 y extend_extend with_code_def seg_app_assoc)
    moreover have "group_seg cap Q (site_of em) (with_code y [(OP_SAVE, ?a, 0)] [(OP_SAVE, ?b, 0)])"
      using y(2) by (auto simp: group_seg_def Some after_def)
    ultimately show ?thesis by blast
  qed
qed

definition scoped_site :: "nat \<Rightarrow> nat \<Rightarrow> site \<Rightarrow> site" where
  "scoped_site add remove s =
     s\<lparr>st_ci := scoped_flag RE_FLAG_I add remove (st_ci s), st_da := scoped_flag RE_FLAG_S add remove (st_da s),
       st_ml := scoped_flag RE_FLAG_M add remove (st_ml s)\<rparr>"

lemma emits_modGroup:
  assumes "emits body Q"
  shows "emits (emit_modGroup body add remove) (\<lambda>s. Q (scoped_site add remove s))"
proof (rule emitsI)
  fix em em' :: emitter
  let ?em = "em\<lparr>em_caseInsensitive := scoped_flag RE_FLAG_I add remove (em_caseInsensitive em),
                     em_dotAll := scoped_flag RE_FLAG_S add remove (em_dotAll em),
                     em_multiline := scoped_flag RE_FLAG_M add remove (em_multiline em)\<rparr>"
  assume "emit_modGroup body add remove em = Inr em'"
  then obtain em1 where em1: "body ?em = Inr em1"
    and em': "em' = em1\<lparr>em_caseInsensitive := em_caseInsensitive em, em_dotAll := em_dotAll em,
                em_multiline := em_multiline em\<rparr>"
    by (auto simp: emit_modGroup_def bindE_eq_Inr)
  obtain y where y: "em1 = extend ?em y" "Q (site_of ?em) y" by (rule emitsE [OF assms em1])
  have "em' = extend em y" by (simp add: em' y extend_def)
  moreover have "site_of ?em = scoped_site add remove (site_of em)"
    by (simp add: site_of_def scoped_site_def here_def)
  ultimately show "\<exists>x. em' = extend em x \<and> Q (scoped_site add remove (site_of em)) x" using y by auto
qed

section \<open>Literal tries\<close>

definition chars_seg :: "nat list \<Rightarrow> seg_pred" where
  "chars_seg cs s x \<longleftrightarrow> x = code_seg (map (\<lambda>c. (OP_CHAR, c, 0)) cs)"

lemma emits_chars: "emits (emit_chars cs) (chars_seg cs)"
proof -
  have "fold (\<lambda>c e. emit OP_CHAR c 0 e) cs em = extend em (code_seg (map (\<lambda>c. (OP_CHAR, c, 0)) cs))" for em
    by (induction cs arbitrary: em) (simp_all add: emit_extend extend_extend code_seg_app)
  then show ?thesis by (auto intro!: emitsI simp: emit_chars_def chars_seg_def)
qed

lemma emits_char_then:
  assumes "emits f Q"
  shows "emits (\<lambda>em. f (emit OP_CHAR c 0 em)) (seg_seq (chars_seg [c]) Q)"
proof -
  have "emits (\<lambda>em. bindE (emit_chars [c] em) f) (seg_seq (chars_seg [c]) Q)"
    by (rule emits_bind [OF emits_chars assms])
  then show ?thesis by (simp add: emit_chars_def)
qed

function lit_seg :: "nat list list \<Rightarrow> seg_pred" where
  "lit_seg lits =
     alt_seg (map (\<lambda>b.
       case b of
         EpsBranch \<Rightarrow> seg_empty
       | LitBranch c sufs \<Rightarrow>
           seg_seq (chars_seg [c]) (if length sufs = 1 then chars_seg (hd sufs) else lit_seg sufs))
       (group_lits lits))"
  by pat_completeness auto
termination
  by (relation "measure lit_total") (auto dest: group_lits_total)

declare lit_seg.simps [simp del]

lemma emits_lits: "emits (emitLitAltGrouped lits) (lit_seg lits)"
proof (induction lits rule: emitLitAltGrouped.induct)
  case (1 lits)
  have branch: "emits (\<lambda>em. case b of EpsBranch \<Rightarrow> Inr em
       | LitBranch c sufs \<Rightarrow>
           (let em1 = emit OP_CHAR c 0 em in
            if length sufs = 1 then emit_chars (hd sufs) em1 else emitLitAltGrouped sufs em1))
     (case b of EpsBranch \<Rightarrow> seg_empty
       | LitBranch c sufs \<Rightarrow>
           seg_seq (chars_seg [c]) (if length sufs = 1 then chars_seg (hd sufs) else lit_seg sufs))"
    if b: "b \<in> set (group_lits lits)" for b
  proof (cases b)
    case EpsBranch
    then show ?thesis using emits_skip by (simp add: emits_def)
  next
    case (LitBranch c sufs)
    have "emits (if length sufs = 1 then emit_chars (hd sufs) else emitLitAltGrouped sufs)
        (if length sufs = 1 then chars_seg (hd sufs) else lit_seg sufs)"
      using 1 [OF b LitBranch refl] emits_chars by simp
    from emits_char_then [OF this, of c] show ?thesis by (simp add: LitBranch Let_def if_distribR)
  qed
  then show ?case
    unfolding emitLitAltGrouped.simps [of lits] lit_seg.simps [of lits]
    by (intro emits_alternatives) (simp only: list.rel_map list.rel_refl_strong)
qed

section \<open>Nodes\<close>

definition char_seg :: "(nat \<Rightarrow> nat list) \<Rightarrow> nat \<Rightarrow> site \<Rightarrow> segment" where
  "char_seg upper code s =
     (if \<not> st_ci s then code_seg [(OP_CHAR, code, 0)]
      else if st_un s then code_seg [(OP_CHARI, asciiFold code, 0)]
      else (let units = foldCharUnitsLegacy upper code in
            if length units = 1 then code_seg [(OP_CHAR, hd units, 0)]
            else class_seg OP_CLASS (length (st_tbl s)) (unitsToRanges units) False))"

definition class_node_seg :: "(nat \<Rightarrow> nat list) \<Rightarrow> ranges \<Rightarrow> bool \<Rightarrow> site \<Rightarrow> segment" where
  "class_node_seg upper rs negated s =
     class_seg OP_CLASS (length (st_tbl s))
       (if st_ci s then (if st_un s then foldClassRangesAscii rs else foldClassRangesLegacy upper rs) else rs)
       negated"

definition look_seg :: "re_node \<Rightarrow> bool \<Rightarrow> bool \<Rightarrow> site \<Rightarrow> segment" where
  "look_seg body negated behind s =
     \<lparr>sg_code = [(OP_LOOKAROUND, 0, (if negated then 1 else 0) + (if behind then 2 else 0))], sg_tbl = [],
      sg_subs = [\<lparr>ps_node = (if behind then reverseNode body else body), ps_patchPc = st_pc s,
                 ps_reversed = behind, ps_caseInsensitive = st_ci s, ps_dotAll = st_da s,
                 ps_multiline = st_ml s\<rparr>], sg_slots = 0\<rparr>"

fun node_seg :: "(nat \<Rightarrow> nat list) \<Rightarrow> re_node \<Rightarrow> seg_pred" where
  "node_seg upper (RChar code) = (\<lambda>s x. x = char_seg upper code s)"
| "node_seg upper RAny = (\<lambda>s x. x = code_seg [(OP_ANY, if st_da s then 1 else 0, 0)])"
| "node_seg upper RUdot = (\<lambda>s x. x = class_seg OP_CPCLASS (length (st_tbl s)) (dotCpRanges (st_da s)) False)"
| "node_seg upper (RClass rs negated) = (\<lambda>s x. x = class_node_seg upper rs negated s)"
| "node_seg upper (RCpClass rs negated) = (\<lambda>s x. x = class_seg OP_CPCLASS (length (st_tbl s)) rs negated)"
| "node_seg upper RBol = (\<lambda>s x. x = code_seg [(OP_BOL, if st_ml s then 1 else 0, 0)])"
| "node_seg upper REol = (\<lambda>s x. x = code_seg [(OP_EOL, if st_ml s then 1 else 0, 0)])"
| "node_seg upper (RWordBoundary negated) = (\<lambda>s x. x = code_seg [(OP_WBOUND, if negated then 1 else 0, 0)])"
| "node_seg upper (RBackref i) = (\<lambda>s x. x = code_seg [(OP_BACKREF, i, if st_ci s then 1 else 0)])"
| "node_seg upper (RLookaround n negated behind) = (\<lambda>s x. x = look_seg n negated behind s)"
| "node_seg upper (RModGroup add remove n) = (\<lambda>s. node_seg upper n (scoped_site add remove s))"
| "node_seg upper (RConcat parts) = seg_all (map (\<lambda>p. node_seg upper p) parts)"
| "node_seg upper (RAlt options) =
     (\<lambda>s. case trie_literals (st_ci s) options of
            Some lits \<Rightarrow> lit_seg lits s
          | None \<Rightarrow> alt_seg (map (\<lambda>p. node_seg upper p) options) s)"
| "node_seg upper (RStar n greedy) = star_seg n greedy (node_seg upper n)"
| "node_seg upper (RPlus n greedy) = plus_seg n greedy (node_seg upper n)"
| "node_seg upper (ROpt n greedy) = opt_seg greedy (node_seg upper n)"
| "node_seg upper (RRepeat n mn mx greedy) = repeat_seg n mn mx greedy (node_seg upper n)"
| "node_seg upper (RGroup n cap _) = group_seg cap (node_seg upper n)"

lemma emits_alt_node:
  assumes "emits f Q"
  shows "emits (\<lambda>em. case trie_literals (em_caseInsensitive em) options of
             Some lits \<Rightarrow> emitLitAltGrouped lits em | None \<Rightarrow> f em)
    (\<lambda>s. case trie_literals (st_ci s) options of Some lits \<Rightarrow> lit_seg lits s | None \<Rightarrow> Q s)"
  using assms emits_lits by (fastforce simp: emits_def split: option.splits)

lemma emits_compileNode: "emits (compileNode upper n) (node_seg upper n)"
proof (induction n)
  case (RChar code)
  show ?case by (simp, rule emits_leaf)
      (simp add: emit_char_def char_seg_def emit_extend emit_class_extend Let_def)
next
  case (RClass rs negated)
  show ?case by (simp, rule emits_leaf)
      (simp add: emit_class_node_def class_node_seg_def emit_class_extend Let_def)
next
  case (RLookaround n negated behind)
  show ?case by (simp, rule emits_leaf)
      (simp add: emit_lookaround_def look_seg_def emit_def extend_def Let_def here_def)
next
  case (RConcat parts)
  then show ?case by (auto intro!: emits_seqE simp: list.rel_map list.rel_refl_strong)
next
  case (RAlt options)
  then have "emits (emit_alternatives (map (\<lambda>p. compileNode upper p) options))
      (alt_seg (map (\<lambda>p. node_seg upper p) options))"
    by (auto intro!: emits_alternatives simp: list.rel_map list.rel_refl_strong)
  from emits_alt_node [OF this] show ?case by simp
qed (auto intro!: emits_leaf emits_modGroup emits_star emits_plus emits_opt emits_repeat emits_group
    simp: emit_extend emit_class_extend)

section \<open>Properties of all segments of a tree\<close>

fun children :: "re_node \<Rightarrow> re_node set" where
  "children (RLookaround n _ _) = {n}"
| "children (RModGroup _ _ n) = {n}"
| "children (RConcat parts) = set parts"
| "children (RAlt options) = set options"
| "children (RStar n _) = {n}"
| "children (RPlus n _) = {n}"
| "children (ROpt n _) = {n}"
| "children (RRepeat n _ _ _) = {n}"
| "children (RGroup n _ _) = {n}"
| "children _ = {}"

lemma size_children: "m \<in> children n \<Longrightarrow> size m < size n"
  by (cases n) (auto simp: less_Suc_eq_le intro: size_list_estimation')

lemma size_reverseNode [simp]: "size (reverseNode n) = size n"
proof (induction n)
  case (RConcat parts)
  then have "sum_list (map (\<lambda>p. size (reverseNode p)) parts) = sum_list (map size parts)"
    by (intro arg_cong [of _ _ sum_list] map_cong) simp_all
  then show ?case by (simp add: size_list_conv_sum_list comp_def rev_map [symmetric])
next
  case (RAlt options)
  then have "sum_list (map (\<lambda>p. size (reverseNode p)) options) = sum_list (map size options)"
    by (intro arg_cong [of _ _ sum_list] map_cong) simp_all
  then show ?case by (simp add: size_list_conv_sum_list comp_def)
qed simp_all

text \<open>
  Properties of segments that only grow by concatenation: once a property holds of bare code and is
  closed under appending, every combinator inherits it from its parts.
\<close>

locale segment_property =
  fixes J :: "nat \<Rightarrow> segment \<Rightarrow> bool"
  assumes J_code: "J l (code_seg is)"
    and J_slot: "J l (slot_seg i)"
    and J_app: "J l x \<Longrightarrow> J (l + length (sg_code x)) y \<Longrightarrow> J l (seg_app x y)"
begin

lemma J_with_code: "J (l + length pre) x \<Longrightarrow> J l (with_code x pre post)"
  unfolding with_code_def by (intro J_app J_code) simp_all

lemma J_seg_all: "seg_all Qs s x \<Longrightarrow> (\<And>Q s y. Q \<in> set Qs \<Longrightarrow> Q s y \<Longrightarrow> J (st_pc s) y) \<Longrightarrow> J (st_pc s) x"
proof (induction Qs arbitrary: s x)
  case (Cons Q Qs)
  then obtain y z where x: "x = seg_app y z" and y: "Q s y" and z: "seg_all Qs (after s y) z"
    by (auto simp: seg_seq_def)
  have "J (st_pc (after s y)) z" by (rule Cons.IH [OF z]) (use Cons.prems(2) in auto)
  moreover have "J (st_pc s) y" by (rule Cons.prems(2) [of Q]) (simp_all add: y)
  ultimately show ?case unfolding x by (intro J_app) simp_all
qed (simp add: seg_empty_def J_code)

lemma J_chain:
  "chain_seg e Qs s x \<Longrightarrow> (\<And>Q s y. Q \<in> set Qs \<Longrightarrow> Q s y \<Longrightarrow> J (st_pc s) y) \<Longrightarrow> J (st_pc s) x"
proof (induction Qs arbitrary: s x rule: induct_list012)
  case (3 Q R Qs)
  from "3.prems"(1) obtain y z pre where pre: "pre = with_code y
        [(OP_SPLIT, st_pc s + 1, st_pc s + length (sg_code y) + 2)] [(OP_JMP, e, 0)]"
    and y: "Q (after s (code_seg [(OP_SPLIT, 0, 0)])) y" and z: "chain_seg e (R # Qs) (after s pre) z"
    and x: "x = seg_app pre z"
    unfolding chain_seg.simps with_code_def by blast
  have "J (st_pc (after s (code_seg [(OP_SPLIT, 0, 0)]))) y" using "3.prems"(2) y by (meson list.set_intros(1))
  then have "J (st_pc s) pre" unfolding pre by (intro J_with_code) simp
  moreover have "J (st_pc (after s pre)) z" by (rule "3.IH"(2) [OF z]) (use "3.prems"(2) in auto)
  ultimately show ?case unfolding x by (intro J_app) simp_all
qed (auto simp: seg_empty_def J_code)

lemma J_star:
  assumes "star_seg n g Q s x" "\<And>s y. Q s y \<Longrightarrow> J (st_pc s) y"
  shows "J (st_pc s) x"
proof -
  from assms(1) obtain y head post k where Q: "Q (after s (seg_app (slot_seg k) (code_seg head))) y"
    and x: "x = seg_app (slot_seg k) (with_code y head post)"
    by (auto simp: star_seg_def Let_def)
  show ?thesis unfolding x using assms(2) [OF Q] by (intro J_app J_slot J_with_code) simp
qed

lemma J_opt:
  assumes "opt_seg g Q s x" "\<And>s y. Q s y \<Longrightarrow> J (st_pc s) y"
  shows "J (st_pc s) x"
  using assms by (auto simp: opt_seg_def intro!: J_with_code dest!: assms(2))

lemma J_plus:
  assumes "plus_seg n g Q s x" "\<And>s y. Q s y \<Longrightarrow> J (st_pc s) y"
  shows "J (st_pc s) x"
proof (cases "canMatchEmpty n")
  case True
  with assms(1) obtain y z pre where pre: "pre = seg_app (slot_seg 1) (code_seg (clear_code n))"
    and Q: "Q (after s pre) y" and z: "star_seg n g Q (after s (seg_app pre y)) z" and x: "x = seg_app (seg_app pre y) z"
    by (auto simp: plus_seg_def Let_def)
  have "J (st_pc s) pre" unfolding pre by (intro J_app J_slot J_code)
  moreover have "J (st_pc s + length (sg_code pre)) y" using assms(2) [OF Q] by simp
  moreover have "J (st_pc (after s (seg_app pre y))) z" by (rule J_star [OF z assms(2)])
  ultimately show ?thesis unfolding x by (intro J_app) (simp_all add: add.assoc)
next
  case False
  with assms(1) show ?thesis by (auto simp: plus_seg_def intro!: J_with_code dest!: assms(2))
qed

lemma J_copies:
  assumes "seg_all (replicate k Q) s x" "\<And>s y. Q s y \<Longrightarrow> J (st_pc s) y"
  shows "J (st_pc s) x"
  using assms(1) by (rule J_seg_all) (auto dest: assms(2))

lemma J_repeat:
  assumes "repeat_seg n mn mx g Q s x" "\<And>s y. Q s y \<Longrightarrow> J (st_pc s) y"
  shows "J (st_pc s) x"
proof -
  from assms(1) obtain y z where x: "x = seg_app y z" and y: "seg_all (replicate mn Q) s y"
    and z: "(case mx of None \<Rightarrow> star_seg n g Q | Some m \<Rightarrow> seg_all (replicate (m - mn) (opt_seg g Q))) (after s y) z"
    by (auto simp: repeat_seg_def seg_seq_def)
  have "J (st_pc (after s y)) z"
  proof (cases mx)
    case None
    with z have "star_seg n g Q (after s y) z" by simp
    then show ?thesis by (rule J_star [OF _ assms(2)])
  next
    case (Some m)
    with z have "seg_all (replicate (m - mn) (opt_seg g Q)) (after s y) z" by simp
    then show ?thesis by (rule J_copies [OF _ J_opt [OF _ assms(2)]])
  qed
  with J_copies [OF y assms(2)] show ?thesis unfolding x by (intro J_app) simp_all
qed

lemma J_group:
  assumes "group_seg cap Q s x" "\<And>s y. Q s y \<Longrightarrow> J (st_pc s) y"
  shows "J (st_pc s) x"
  using assms by (auto simp: group_seg_def intro!: J_with_code dest!: assms(2) split: option.splits)

lemma J_lits: "lit_seg lits s x \<Longrightarrow> J (st_pc s) x"
proof (induction lits arbitrary: s x rule: lit_seg.induct)
  case (1 lits)
  from "1.prems" show ?case
    unfolding lit_seg.simps [of lits] alt_seg_def
  proof (rule J_chain)
    fix Q s y
    assume "Q \<in> set (map (\<lambda>b. case b of EpsBranch \<Rightarrow> seg_empty
       | LitBranch c sufs \<Rightarrow>
           seg_seq (chars_seg [c]) (if length sufs = 1 then chars_seg (hd sufs) else lit_seg sufs))
       (group_lits lits))" and Q: "Q s y"
    then obtain b where b: "b \<in> set (group_lits lits)" and Q': "Q = (case b of EpsBranch \<Rightarrow> seg_empty
       | LitBranch c sufs \<Rightarrow>
           seg_seq (chars_seg [c]) (if length sufs = 1 then chars_seg (hd sufs) else lit_seg sufs))" by auto
    show "J (st_pc s) y"
    proof (cases b)
      case EpsBranch
      then show ?thesis using Q Q' by (simp add: seg_empty_def J_code)
    next
      case (LitBranch c sufs)
      with Q Q' obtain u v where y: "y = seg_app u v" and u: "chars_seg [c] s u"
        and v: "(if length sufs = 1 then chars_seg (hd sufs) else lit_seg sufs) (after s u) v"
        by (auto simp: seg_seq_def)
      have "J (st_pc (after s u)) v"
      proof (cases "length sufs = 1")
        case True
        then show ?thesis using v by (simp add: chars_seg_def J_code)
      next
        case False
        then show ?thesis using v "1.IH" [OF b LitBranch False, of "after s u" v] by (simp only: if_False)
      qed
      moreover have "J (st_pc s) u" using u by (simp add: chars_seg_def J_code)
      ultimately show ?thesis unfolding y by (intro J_app) simp_all
    qed
  qed
qed

text \<open>A whole tree has the property when its classes and lookarounds have it.\<close>

lemma J_node:
  assumes "\<And>l off rs neg op. J l (class_seg op off rs neg)"
    and "\<And>s :: site. \<And>m neg behind. P (RLookaround m neg behind) \<Longrightarrow> J (st_pc s) (look_seg m neg behind s)"
    and "\<And>n m. P n \<Longrightarrow> m \<in> children n \<Longrightarrow> P m"
  shows "P n \<Longrightarrow> node_seg upper n s x \<Longrightarrow> J (st_pc s) x"
proof (induction n arbitrary: s x)
  case (RConcat parts)
  show ?case
  proof (rule J_seg_all [of "map (\<lambda>p. node_seg upper p) parts" s x])
    fix Q s y assume "Q \<in> set (map (\<lambda>p. node_seg upper p) parts)" "Q s y"
    then obtain p where p: "p \<in> set parts" "node_seg upper p s y" by auto
    then show "J (st_pc s) y" using RConcat.IH [OF p(1)] assms(3) [OF RConcat.prems(1)] by simp
  qed (use RConcat.prems in simp)
next
  case (RAlt options)
  show ?case
  proof (cases "trie_literals (st_ci s) options")
    case None
    show ?thesis
    proof (rule J_chain [of _ "map (\<lambda>p. node_seg upper p) options" s x])
      fix Q s y assume "Q \<in> set (map (\<lambda>p. node_seg upper p) options)" "Q s y"
      then obtain p where p: "p \<in> set options" "node_seg upper p s y" by auto
      then show "J (st_pc s) y" using RAlt.IH [OF p(1)] assms(3) [OF RAlt.prems(1)] by simp
    qed (use RAlt.prems None in \<open>simp add: alt_seg_def\<close>)
  qed (use RAlt.prems in \<open>simp add: J_lits\<close>)
next
  case (RStar n g)
  have "P n" by (rule assms(3) [OF RStar.prems(1)]) simp
  from J_star [OF _ RStar.IH [OF this]] RStar.prems(2) show ?case by simp
next
  case (RPlus n g)
  have "P n" by (rule assms(3) [OF RPlus.prems(1)]) simp
  from J_plus [OF _ RPlus.IH [OF this]] RPlus.prems(2) show ?case by simp
next
  case (ROpt n g)
  have "P n" by (rule assms(3) [OF ROpt.prems(1)]) simp
  from J_opt [OF _ ROpt.IH [OF this]] ROpt.prems(2) show ?case by simp
next
  case (RRepeat n mn mx g)
  have "P n" by (rule assms(3) [OF RRepeat.prems(1)]) simp
  from J_repeat [OF _ RRepeat.IH [OF this]] RRepeat.prems(2) show ?case by simp
next
  case (RGroup n cap name)
  have "P n" by (rule assms(3) [OF RGroup.prems(1)]) simp
  from J_group [OF _ RGroup.IH [OF this]] RGroup.prems(2) show ?case by simp
next
  case (RModGroup add remove n)
  have "P n" by (rule assms(3) [OF RModGroup.prems(1)]) simp
  from RModGroup.IH [OF this, of "scoped_site add remove s" x] RModGroup.prems(2)
  show ?case by (simp add: scoped_site_def)
next
  case (RLookaround n negated behind)
  then show ?case using assms(2) by simp
qed (auto simp: char_seg_def class_node_seg_def Let_def J_code assms(1))

end

text \<open>Every queued body is smaller than the node that queued it.\<close>

definition subs_below :: "nat \<Rightarrow> segment \<Rightarrow> bool" where
  "subs_below k x \<longleftrightarrow> (\<forall>p \<in> set (sg_subs x). size (ps_node p) < k)"

interpretation below: segment_property "\<lambda>_. subs_below k" for k
  by unfold_locales (auto simp: subs_below_def)

lemma node_seg_subs:
  assumes "node_seg upper n s x"
  shows "subs_below (size n) x"
proof (rule below.J_node [where P = "\<lambda>m. size m \<le> size n", OF _ _ _ order_refl assms])
  fix m k :: re_node
  assume "size m \<le> size n" "k \<in> children m"
  then show "size k \<le> size n" using size_children [of k m] by simp
qed (auto simp: subs_below_def look_seg_def)

end
