(* ===== verification/Re_Compile.thy ===== *)
theory Re_Compile
  imports Re_Segments "HOL-Library.Multiset"
begin

text \<open>
  The end of \<^verbatim>\<open>compile.ts\<close>: draining the queue of lookaround bodies and the entry point
  \<^verbatim>\<open>compileParsed\<close>. The queue shrinks in the multiset order of the bodies' sizes. The last section
  says exactly when compilation throws.
\<close>

definition enter_sub :: "pending_sub \<Rightarrow> emitter \<Rightarrow> emitter" where
  "enter_sub sub em =
     em\<lparr>em_caseInsensitive := ps_caseInsensitive sub, em_dotAll := ps_dotAll sub,
        em_multiline := ps_multiline sub, em_reversed := ps_reversed sub\<rparr>"

definition leave_sub :: "emitter \<Rightarrow> emitter \<Rightarrow> emitter" where
  "leave_sub saved em =
     em\<lparr>em_caseInsensitive := em_caseInsensitive saved, em_dotAll := em_dotAll saved,
        em_multiline := em_multiline saved, em_reversed := em_reversed saved\<rparr>"

function drainPendingSubs :: "(nat \<Rightarrow> nat list) \<Rightarrow> emission" where
  "drainPendingSubs upper em =
     (case pendingSubs em of
        [] \<Rightarrow> Inr em
      | sub # rest \<Rightarrow>
          (let em1 = patchA (ps_patchPc sub) (here em) (em\<lparr>pendingSubs := rest\<rparr>)
           in bindE (compileNode upper (ps_node sub) (enter_sub sub em1)) (\<lambda>em2.
                drainPendingSubs upper (leave_sub em (emit OP_MATCH 0 0 em2)))))"
  by pat_completeness auto
termination
proof (relation "inv_image (mult less_than) (\<lambda>(_, em). mset (map (\<lambda>p. size (ps_node p)) (pendingSubs em)))")
  fix upper em sub rest em1 em2
  assume q: "pendingSubs em = sub # rest"
    and em1: "em1 = patchA (ps_patchPc sub) (here em) (em\<lparr>pendingSubs := rest\<rparr>)"
    and run: "compileNode upper (ps_node sub) (enter_sub sub em1) = Inr em2"
  obtain x where x: "em2 = extend (enter_sub sub em1) x" "node_seg upper (ps_node sub) (site_of (enter_sub sub em1)) x"
    by (rule emitsE [OF emits_compileNode run])
  have "pendingSubs (leave_sub em (emit OP_MATCH 0 0 em2)) = rest @ sg_subs x"
    by (simp add: leave_sub_def emit_def x enter_sub_def em1 patchA_def)
  moreover have "\<forall>k \<in># mset (map (\<lambda>p. size (ps_node p)) (sg_subs x)). k < size (ps_node sub)"
    using node_seg_subs [OF x(2)] by (auto simp: subs_below_def)
  then have "(mset (map (\<lambda>p. size (ps_node p)) rest) + mset (map (\<lambda>p. size (ps_node p)) (sg_subs x)),
      mset (map (\<lambda>p. size (ps_node p)) rest) + {#size (ps_node sub)#}) \<in> mult less_than"
    by (intro one_step_implies_mult) (auto simp: less_than_iff)
  ultimately show "((upper, leave_sub em (emit OP_MATCH 0 0 em2)), upper, em) \<in>
      inv_image (mult less_than) (\<lambda>(_, em). mset (map (\<lambda>p. size (ps_node p)) (pendingSubs em)))"
    by (simp add: q)
qed (simp add: wf_mult)

declare drainPendingSubs.simps [simp del]

definition finish :: "emitter \<Rightarrow> nat list" where
  "finish em = flatten (instrs em)"

definition compileParsed :: "(nat \<Rightarrow> nat list) \<Rightarrow> parsed_regex \<Rightarrow> nat \<Rightarrow> regex_error + compiled_regex" where
  "compileParsed upper parsed flags =
     (let caseInsensitive = has_flag flags RE_FLAG_I;
          dotAll = has_flag flags RE_FLAG_S;
          multiline = has_flag flags RE_FLAG_M;
          unicode = has_flag flags (RE_FLAG_U OR RE_FLAG_V);
          nGroups = numCaptures parsed + 1;
          em = (new_emitter caseInsensitive dotAll multiline unicode)\<lparr>scratchBase := 2 * nGroups\<rparr>
      in bindE (compileNode upper (root parsed) (emit OP_SAVE 0 0 em)) (\<lambda>em1.
         bindE (drainPendingSubs upper (emit OP_MATCH 0 0 (emit OP_SAVE 1 0 em1))) (\<lambda>em2.
           Inr \<lparr>cr_prog = finish em2, cr_classTable = em_classTable em2, cr_nGroups = nGroups,
                cr_nScratch = scratchCount em2, cr_flags = flags, cr_groupNames = pr_groupNames parsed\<rparr>)))"

section \<open>When compilation throws\<close>

definition repeat_fits :: "nat \<Rightarrow> nat option \<Rightarrow> bool" where
  "repeat_fits mn mx \<longleftrightarrow>
     (case mx of None \<Rightarrow> True | Some m \<Rightarrow> m \<le> MAX_REPEAT_EXPANSION \<and> mn \<le> MAX_REPEAT_EXPANSION)"

fun repeats_ok :: "re_node \<Rightarrow> bool" where
  "repeats_ok (RLookaround n _ _) = repeats_ok n"
| "repeats_ok (RModGroup _ _ n) = repeats_ok n"
| "repeats_ok (RConcat parts) = list_all repeats_ok parts"
| "repeats_ok (RAlt options) = list_all repeats_ok options"
| "repeats_ok (RStar n _) = repeats_ok n"
| "repeats_ok (RPlus n _) = repeats_ok n"
| "repeats_ok (ROpt n _) = repeats_ok n"
| "repeats_ok (RRepeat n mn mx _) = (repeat_fits mn mx \<and> repeats_ok n)"
| "repeats_ok (RGroup n _ _) = repeats_ok n"
| "repeats_ok _ = True"

fun too_large :: "regex_error \<Rightarrow> bool" where
  "too_large (RepeatTooLarge mn mx) = (\<not> repeat_fits mn mx)"
| "too_large _ = False"

text \<open>\<open>throws f ok\<close>: \<open>f\<close> only throws for an oversized repetition, and not at all when \<open>ok\<close>.\<close>

definition throws :: "('a \<Rightarrow> regex_error + 'b) \<Rightarrow> bool \<Rightarrow> bool" where
  "throws f ok \<longleftrightarrow> (\<forall>x e. f x = Inl e \<longrightarrow> too_large e \<and> \<not> ok)"

lemma throwsI: "(\<And>x e. f x = Inl e \<Longrightarrow> too_large e \<and> \<not> ok) \<Longrightarrow> throws f ok"
  by (simp add: throws_def)

lemma throwsD: "throws f ok \<Longrightarrow> f x = Inl e \<Longrightarrow> too_large e \<and> \<not> ok"
  by (simp add: throws_def)

lemma throws_weaken: "throws f ok \<Longrightarrow> (ok' \<Longrightarrow> ok) \<Longrightarrow> throws f ok'"
  by (auto simp: throws_def)

lemma throws_seqE: "(\<And>f. f \<in> set fs \<Longrightarrow> throws f ok) \<Longrightarrow> throws (seqE fs) ok"
proof (induction fs)
  case (Cons f fs)
  have "throws f ok" "throws (seqE fs) ok" using Cons by auto
  then show ?case by (auto simp: throws_def bindE_eq_Inl)
qed (simp add: throws_def)

lemma throws_timesE: "throws f ok \<Longrightarrow> throws (timesE n f) ok"
  by (induction n) (auto simp: throws_def bindE_eq_Inl)

lemma throws_chain: "(\<And>f. f \<in> set fs \<Longrightarrow> throws f ok) \<Longrightarrow> emit_chain fs js em = Inl e \<Longrightarrow> too_large e \<and> \<not> ok"
proof (induction fs arbitrary: js em rule: induct_list012)
  case (2 f)
  then show ?case by (auto simp: bindE_eq_Inl dest: throwsD)
next
  case (3 f g fs)
  have "throws f ok" using "3.prems"(1) by simp
  moreover have "emit_chain (g # fs) js em = Inl e \<Longrightarrow> too_large e \<and> \<not> ok" for js em
    by (rule "3.IH"(2)) (use "3.prems"(1) in auto)
  ultimately show ?case using "3.prems"(2) by (auto simp: bindE_eq_Inl Let_def dest: throwsD)
qed simp

lemma throws_alternatives: "(\<And>f. f \<in> set fs \<Longrightarrow> throws f ok) \<Longrightarrow> throws (emit_alternatives fs) ok"
  by (rule throwsI) (auto simp: emit_alternatives_def bindE_eq_Inl dest!: throws_chain [rotated])

lemma throws_lits: "throws (emitLitAltGrouped lits) ok"
proof (induction lits rule: emitLitAltGrouped.induct)
  case (1 lits)
  have "throws (\<lambda>em. case b of EpsBranch \<Rightarrow> Inr em | LitBranch c sufs \<Rightarrow>
      (let em1 = emit OP_CHAR c 0 em in if length sufs = 1 then emit_chars (hd sufs) em1
       else emitLitAltGrouped sufs em1)) ok" if b: "b \<in> set (group_lits lits)" for b
  proof (cases b)
    case (LitBranch c sufs)
    then show ?thesis using 1 [OF b LitBranch refl] by (auto simp: throws_def emit_chars_def Let_def)
  qed (simp add: throws_def)
  then show ?case
    unfolding emitLitAltGrouped.simps [of lits] by (intro throws_alternatives) auto
qed

lemma throws_star: "throws f ok \<Longrightarrow> throws (emit_star f n g) ok"
  by (rule throwsI) (auto simp: emit_star_def bindE_eq_Inl Let_def split: prod.splits dest: throwsD)

lemma throws_plus: "throws f ok \<Longrightarrow> throws (emit_plus f n g) ok"
  using throws_star [of f ok n g]
  by (intro throwsI) (auto simp: emit_plus_def bindE_eq_Inl Let_def split: prod.splits if_splits dest: throwsD)

lemma throws_opt: "throws f ok \<Longrightarrow> throws (emit_opt f g) ok"
  by (rule throwsI) (auto simp: emit_opt_def bindE_eq_Inl Let_def dest: throwsD)

lemma throws_repeat:
  assumes f: "throws f ok"
  shows "throws (compileRepeat f n mn mx g) (repeat_fits mn mx \<and> ok)"
proof (rule throwsI)
  fix em e assume err: "compileRepeat f n mn mx g em = Inl e"
  show "too_large e \<and> \<not> (repeat_fits mn mx \<and> ok)"
  proof (cases "repeat_fits mn mx")
    case True
    then have "\<not> (case mx of Some m \<Rightarrow> MAX_REPEAT_EXPANSION < m \<or> MAX_REPEAT_EXPANSION < mn | None \<Rightarrow> False)"
      by (auto simp: repeat_fits_def split: option.splits)
    with err show ?thesis
      using throwsD [OF throws_timesE [OF f]] throwsD [OF throws_star [OF f]]
        throwsD [OF throws_timesE [OF throws_opt [OF f]]]
      by (auto simp: compileRepeat_def bindE_eq_Inl split: option.splits)
  next
    case False
    then have "case mx of Some m \<Rightarrow> MAX_REPEAT_EXPANSION < m \<or> MAX_REPEAT_EXPANSION < mn | None \<Rightarrow> False"
      by (auto simp: repeat_fits_def split: option.splits)
    with err False show ?thesis by (auto simp: compileRepeat_def)
  qed
qed

lemma throws_compileNode: "throws (compileNode upper n) (repeats_ok n)"
proof (induction n)
  case (RConcat parts)
  have "throws (compileNode upper p) (repeats_ok (RConcat parts))" if "p \<in> set parts" for p
    by (rule throws_weaken [OF RConcat [OF that]]) (use that in \<open>simp add: list_all_iff\<close>)
  then show ?case unfolding compileNode.simps by (intro throws_seqE) auto
next
  case (RAlt options)
  have "throws (compileNode upper p) (repeats_ok (RAlt options))" if "p \<in> set options" for p
    by (rule throws_weaken [OF RAlt [OF that]]) (use that in \<open>simp add: list_all_iff\<close>)
  then have "throws (emit_alternatives (map (\<lambda>p. compileNode upper p) options)) (repeats_ok (RAlt options))"
    by (intro throws_alternatives) auto
  then show ?case
    by (auto simp: throws_def split: option.splits dest: throwsD [OF throws_lits [where ok = True]])
next
  case (RRepeat n mn mx g)
  show ?case using throws_repeat [OF RRepeat] by simp
qed (auto simp: throws_star throws_plus throws_opt,
     auto simp: throws_def emit_char_def emit_class_node_def emit_lookaround_def emit_group_def emit_modGroup_def
       Let_def bindE_eq_Inl split: if_splits option.splits)

text \<open>Queued bodies come from the tree, so an admissible tree queues admissible bodies.\<close>

definition subs_fit :: "nat \<Rightarrow> segment \<Rightarrow> bool" where
  "subs_fit l x \<longleftrightarrow> (\<forall>p \<in> set (sg_subs x). repeats_ok (ps_node p))"

interpretation fit: segment_property subs_fit
  by unfold_locales (auto simp: subs_fit_def)

lemma repeats_ok_reverseNode [simp]: "repeats_ok (reverseNode n) = repeats_ok n"
  by (induction n) (auto simp: list_all_iff)

lemma repeats_ok_children: "repeats_ok n \<Longrightarrow> m \<in> children n \<Longrightarrow> repeats_ok m"
  by (cases n) (auto simp: list_all_iff)

lemma node_seg_fit: "repeats_ok n \<Longrightarrow> node_seg upper n s x \<Longrightarrow> subs_fit (st_pc s) x"
  by (rule fit.J_node [where P = repeats_ok])
     (auto simp: subs_fit_def look_seg_def dest: repeats_ok_children)

lemma drain_throws:
  "drainPendingSubs upper em = Inl e \<Longrightarrow> too_large e \<and> \<not> (\<forall>p \<in> set (pendingSubs em). repeats_ok (ps_node p))"
proof (induction upper em rule: drainPendingSubs.induct)
  case (1 upper em)
  show ?case
  proof (cases "pendingSubs em")
    case Nil
    then show ?thesis using "1.prems" by (simp add: drainPendingSubs.simps)
  next
    case (Cons sub rest)
    define em1 where "em1 = enter_sub sub (patchA (ps_patchPc sub) (here em) (em\<lparr>pendingSubs := rest\<rparr>))"
    from "1.prems" Cons consider "compileNode upper (ps_node sub) em1 = Inl e"
      | em2 where "compileNode upper (ps_node sub) em1 = Inr em2"
          "drainPendingSubs upper (leave_sub em (emit OP_MATCH 0 0 em2)) = Inl e"
      by (auto simp: drainPendingSubs.simps [of upper em] bindE_eq_Inl em1_def)
    then show ?thesis
    proof cases
      case 1
      then show ?thesis using throwsD [OF throws_compileNode] Cons by auto
    next
      case (2 em2)
      obtain x where x: "em2 = extend em1 x" "node_seg upper (ps_node sub) (site_of em1) x"
        by (rule emitsE [OF emits_compileNode 2(1)])
      have pend: "pendingSubs (leave_sub em (emit OP_MATCH 0 0 em2)) = rest @ sg_subs x"
        by (simp add: leave_sub_def emit_def x enter_sub_def em1_def patchA_def)
      from "1.IH" [OF Cons refl 2(1) [unfolded em1_def] 2(2)] pend
      have "too_large e" "\<not> (\<forall>p \<in> set rest. repeats_ok (ps_node p)) \<or> \<not> subs_fit (st_pc (site_of em1)) x"
        by (auto simp: subs_fit_def)
      then show ?thesis using node_seg_fit [OF _ x(2)] by (auto simp: Cons)
    qed
  qed
qed

lemma compileParsed_throws:
  assumes "compileParsed upper p flags = Inl e"
  shows "too_large e \<and> \<not> repeats_ok (root p)"
proof -
  define em0 where "em0 = emit OP_SAVE 0 0 ((new_emitter (has_flag flags RE_FLAG_I) (has_flag flags RE_FLAG_S)
    (has_flag flags RE_FLAG_M) (has_flag flags (RE_FLAG_U OR RE_FLAG_V)))\<lparr>scratchBase := 2 * (numCaptures p + 1)\<rparr>)"
  from assms consider "compileNode upper (root p) em0 = Inl e"
    | em1 where "compileNode upper (root p) em0 = Inr em1"
        "drainPendingSubs upper (emit OP_MATCH 0 0 (emit OP_SAVE 1 0 em1)) = Inl e"
    by (auto simp: compileParsed_def Let_def bindE_eq_Inl em0_def)
  then show ?thesis
  proof cases
    case 1
    then show ?thesis using throwsD [OF throws_compileNode] by auto
  next
    case (2 em1)
    obtain x where x: "em1 = extend em0 x" "node_seg upper (root p) (site_of em0) x"
      by (rule emitsE [OF emits_compileNode 2(1)])
    have "pendingSubs em0 = []" by (simp add: em0_def new_emitter_def emit_def)
    then show ?thesis using drain_throws [OF 2(2)] node_seg_fit [OF _ x(2)]
      by (auto simp: x(1) emit_extend subs_fit_def)
  qed
qed

end
