(* ===== verification/Re_Compile_Correct.thy ===== *)
theory Re_Compile_Correct
  imports Re_Runs Re_Compile
begin

text \<open>
  Compiled code implements the reference semantics. A segment is placed in a machine when the final
  program carries its code (lookaround targets filled in), the class table extends its cells, its
  scratch slots exist and its queued bodies have been emitted; every placed segment of a node then
  runs as the node's matcher.
\<close>

section \<open>Segments in a final program\<close>

definition same_instr :: "instr \<Rightarrow> instr \<Rightarrow> bool" where
  "same_instr i i' \<longleftrightarrow>
     i = i' \<or> (fst i = OP_LOOKAROUND \<and> fst i' = OP_LOOKAROUND \<and> snd (snd i) = snd (snd i'))"

definition fits :: "machine \<Rightarrow> nat \<Rightarrow> instr list \<Rightarrow> bool" where
  "fits M l is \<longleftrightarrow>
     (\<forall>j < length is. l + j < length (mc_code M) \<and> same_instr (mc_code M ! (l + j)) (is ! j))"

lemma fits_Nil [simp]: "fits M l []"
  by (simp add: fits_def)

lemma fits_Cons: "fits M l (i # is) \<longleftrightarrow>
    l < length (mc_code M) \<and> same_instr (mc_code M ! l) i \<and> fits M (l + 1) is"
proof
  assume f: "fits M l (i # is)"
  have "l + 1 + j < length (mc_code M) \<and> same_instr (mc_code M ! (l + 1 + j)) (is ! j)" if "j < length is" for j
    using f [unfolded fits_def, rule_format, of "Suc j"] that by simp
  then show "l < length (mc_code M) \<and> same_instr (mc_code M ! l) i \<and> fits M (l + 1) is"
    using f [unfolded fits_def, rule_format, of 0] by (simp add: fits_def)
next
  assume "l < length (mc_code M) \<and> same_instr (mc_code M ! l) i \<and> fits M (l + 1) is"
  then show "fits M l (i # is)" by (auto simp: fits_def nth_Cons split: nat.splits)
qed

lemma fits_append: "fits M l (is @ js) \<longleftrightarrow> fits M l is \<and> fits M (l + length is) js"
  by (induction "is" arbitrary: l) (auto simp: fits_Cons)

lemma fits_instr: "fits M l (i # is) \<Longrightarrow> fst i \<noteq> OP_LOOKAROUND \<Longrightarrow> instr_at M l i"
  by (auto simp: fits_Cons same_instr_def instr_at_def)

definition ctx_of :: "site \<Rightarrow> re_ctx" where
  "ctx_of s = \<lparr>cx_ci = st_ci s, cx_da = st_da s, cx_ml = st_ml s, cx_un = st_un s\<rparr>"

definition sub_ctx :: "machine \<Rightarrow> pending_sub \<Rightarrow> re_ctx" where
  "sub_ctx M sub =
     \<lparr>cx_ci = ps_caseInsensitive sub, cx_da = ps_dotAll sub, cx_ml = ps_multiline sub, cx_un = mc_un M\<rparr>"

definition sub_body :: "pending_sub \<Rightarrow> re_node" where
  "sub_body sub = orient (\<not> ps_reversed sub) (ps_node sub)"

text \<open>A queued body has been emitted behind the main program and its lookaround points to it.\<close>

definition resolved :: "machine \<Rightarrow> nat \<Rightarrow> pending_sub \<Rightarrow> bool" where
  "resolved M b sub \<longleftrightarrow>
     (\<forall>Z. backrefs (sub_body sub) \<inter> Z = {} \<longrightarrow>
        (\<exists>entry fl e x y. instr_at M (ps_patchPc sub) (OP_LOOKAROUND, entry, fl) \<and>
           runs M Z (\<not> ps_reversed sub) entry e b
             (mres (mc_upper M) (mc_input M) (sub_ctx M sub) (\<not> ps_reversed sub) (sub_body sub)) \<and>
           instr_at M e (OP_MATCH, x, y)))"

lemma resolved_mono: "resolved M b sub \<Longrightarrow> b' \<le> b \<Longrightarrow> resolved M b' sub"
  unfolding resolved_def by (meson runs_mono)

definition placed :: "machine \<Rightarrow> seg_pred" where
  "placed M s x \<longleftrightarrow>
     fits M (st_pc s) (sg_code x) \<and> prefix (st_tbl s @ sg_tbl x) (mc_tbl M) \<and>
     2 * mc_groups M \<le> st_slot s \<and> st_slot s + sg_slots x \<le> mc_slots M \<and> st_un s = mc_un M \<and>
     (\<forall>sub \<in> set (sg_subs x). resolved M (st_slot s + sg_slots x) sub)"

lemma placed_app:
  assumes "placed M s (seg_app x y)"
  shows "placed M s x" "placed M (after s x) y"
proof -
  show "placed M s x"
    using assms by (auto simp: placed_def fits_append append_assoc [symmetric] simp del: append_assoc
        intro: resolved_mono dest: append_prefixD)
  show "placed M (after s x) y"
    using assms by (auto simp: placed_def fits_append add.assoc)
qed

definition implements :: "machine \<Rightarrow> nat set \<Rightarrow> bool \<Rightarrow> re_ctx \<Rightarrow> seg_pred \<Rightarrow> matcher \<Rightarrow> bool" where
  "implements M Z fwd cx Q F \<longleftrightarrow>
     (\<forall>s x. Q s x \<longrightarrow> st_rev s = (\<not> fwd) \<longrightarrow> ctx_of s = cx \<longrightarrow> placed M s x \<longrightarrow>
        runs M Z fwd (st_pc s) (st_pc s + length (sg_code x)) (st_slot s) F)"

lemma implementsI:
  "(\<And>s x. Q s x \<Longrightarrow> st_rev s = (\<not> fwd) \<Longrightarrow> ctx_of s = cx \<Longrightarrow> placed M s x \<Longrightarrow>
      runs M Z fwd (st_pc s) (st_pc s + length (sg_code x)) (st_slot s) F) \<Longrightarrow> implements M Z fwd cx Q F"
  by (simp add: implements_def)

lemma implementsD:
  "\<lbrakk> implements M Z fwd cx Q F; Q s x; st_rev s = (\<not> fwd); ctx_of s = cx; placed M s x \<rbrakk> \<Longrightarrow>
   runs M Z fwd (st_pc s) (st_pc s + length (sg_code x)) (st_slot s) F"
  by (simp add: implements_def)

text \<open>The same at a site further on, seen from an earlier one.\<close>

lemma implements_at:
  assumes "implements M Z fwd cx Q F" "Q (after s p) y" "st_rev s = (\<not> fwd)" "ctx_of s = cx" "placed M (after s p) y"
  shows "runs M Z fwd (st_pc s + length (sg_code p)) (st_pc s + length (sg_code p) + length (sg_code y))
    (st_slot s + sg_slots p) F"
  using implementsD [OF assms(1,2)] assms(3-5) by (simp add: ctx_of_def)

lemma after_code: "after s (code_seg is) = s\<lparr>st_pc := st_pc s + length is\<rparr>"
  by (simp add: after_def)

lemma runs_cast:
  "runs M Z fwd l h b F \<Longrightarrow> l = l' \<Longrightarrow> h = h' \<Longrightarrow> b' \<le> b \<Longrightarrow> runs M Z fwd l' h' b' F"
  using runs_mono by blast

abbreviation okay :: "machine \<Rightarrow> nat set \<Rightarrow> bool \<Rightarrow> bool \<Rightarrow> matcher \<Rightarrow> bool" where
  "okay M Z fwd e F \<equiv> safe (mc_groups M) (mc_input M) Z fwd e F"

lemma implements_seq:
  assumes f: "implements M Z fwd cx Q F" and g: "implements M Z fwd cx R G" and sf: "okay M Z fwd e F"
  shows "implements M Z fwd cx (seg_seq Q R) (both F G)"
proof (rule implementsI)
  fix s x assume "seg_seq Q R s x" and st: "st_rev s = (\<not> fwd)" "ctx_of s = cx" and pl: "placed M s x"
  then obtain y z where x: "Q s y" "R (after s y) z" "x = seg_app y z" by (auto simp: seg_seq_def)
  note pl = placed_app [OF pl [unfolded x(3)]]
  have "runs M Z fwd (st_pc s) (st_pc s + length (sg_code y)) (st_slot s) F"
    by (rule implementsD [OF f x(1) st pl(1)])
  moreover have "runs M Z fwd (st_pc s + length (sg_code y)) (st_pc s + length (sg_code x)) (st_slot s) G"
    using implements_at [OF g x(2) st pl(2)] by (rule runs_cast) (simp_all add: x(3))
  ultimately show "runs M Z fwd (st_pc s) (st_pc s + length (sg_code x)) (st_slot s) (both F G)"
    by (rule runs_both [OF _ _ sf])
qed

lemma implements_empty: "implements M Z fwd cx seg_empty (\<lambda>s. [s])"
  by (rule implementsI) (simp add: seg_empty_def runs_empty)

lemma in_order_Nil: "in_order [] = (\<lambda>s. [s])"
  by (rule ext) simp

lemma in_order_both: "in_order (f # fs) = both f (in_order fs)"
  by (rule ext) (simp add: both_def)

lemma implements_all:
  assumes "list_all2 (implements M Z fwd cx) Qs Fs" "\<forall>F \<in> set Fs. \<exists>e. okay M Z fwd e F"
  shows "implements M Z fwd cx (seg_all Qs) (in_order Fs)"
  using assms
proof (induction rule: list_all2_induct)
  case Nil
  then show ?case using implements_empty by (simp add: in_order_Nil)
next
  case (Cons Q Qs F Fs)
  then obtain e where "okay M Z fwd e F" by auto
  then show ?case using implements_seq [OF Cons(1)] Cons by (simp add: in_order_both)
qed

lemma implements_chain:
  assumes "list_all2 (implements M Z fwd cx) Qs Fs" "Qs \<noteq> []"
    and "chain_seg e Qs s x" "st_rev s = (\<not> fwd)" "ctx_of s = cx" "placed M s x"
    and "e = st_pc s + length (sg_code x)"
  shows "runs M Z fwd (st_pc s) e (st_slot s) (any_of Fs)"
  using assms
proof (induction Qs arbitrary: Fs s x rule: induct_list012)
  case (2 Q)
  then obtain F where F: "Fs = [F]" "implements M Z fwd cx Q F" by (auto simp: list_all2_Cons1)
  have "any_of [F] = F" by (rule ext) (simp add: any_of_def)
  then show ?case using implementsD [OF F(2) _ 2(4-6)] 2(3,7) F(1) by simp
next
  case (3 Q R Qs)
  then obtain F G Gs where F: "Fs = F # G # Gs" "implements M Z fwd cx Q F"
    "list_all2 (implements M Z fwd cx) (R # Qs) (G # Gs)" by (auto simp: list_all2_Cons1)
  from "3.prems"(3) obtain y z pre where
    pre: "pre = seg_app (code_seg [(OP_SPLIT, st_pc s + 1, st_pc s + length (sg_code y) + 2)])
                 (seg_app y (code_seg [(OP_JMP, e, 0)]))"
    and y: "Q (after s (code_seg [(OP_SPLIT, 0, 0)])) y" and z: "chain_seg e (R # Qs) (after s pre) z"
    and x: "x = seg_app pre z"
    unfolding chain_seg.simps by blast
  note pl = placed_app [OF "3.prems"(6) [unfolded x]]
  note pl1 = placed_app [OF pl(1) [unfolded pre]]
  note pl2 = placed_app [OF pl1(2)]
  have sp: "instr_at M (st_pc s) (OP_SPLIT, st_pc s + 1, st_pc s + length (sg_code y) + 2)"
    using pl1(1) by (auto simp: placed_def intro: fits_instr)
  have jm: "instr_at M (st_pc s + 1 + length (sg_code y)) (OP_JMP, e, 0)"
    using pl2(2) by (auto simp: placed_def intro: fits_instr)
  have "runs M Z fwd (st_pc s + 1) (st_pc s + 1 + length (sg_code y)) (st_slot s) F"
    using implements_at [OF F(2) y "3.prems"(4,5)] pl2(1) by (simp add: after_code)
  moreover have "runs M Z fwd (st_pc s + length (sg_code y) + 2) e (st_slot s) (any_of (G # Gs))"
  proof -
    have "runs M Z fwd (st_pc (after s pre)) e (st_slot (after s pre)) (any_of (G # Gs))"
      by (rule "3.IH"(2) [OF F(3) _ z]) (use "3.prems" pl x in \<open>simp_all add: ctx_of_def\<close>)
    then show ?thesis by (rule runs_cast) (simp_all add: pre)
  qed
  ultimately have "runs M Z fwd (st_pc s) e (st_slot s) (\<lambda>s. F s @ any_of (G # Gs) s)"
    by (rule runs_orelse [OF sp _ jm])
  then show ?case by (simp add: F(1) any_of_def)
qed simp

lemma implements_alt:
  assumes "list_all2 (implements M Z fwd cx) Qs Fs" "Qs \<noteq> []"
  shows "implements M Z fwd cx (alt_seg Qs) (any_of Fs)"
  by (rule implementsI) (auto simp: alt_seg_def intro!: implements_chain [OF assms])

section \<open>Quantifiers and groups\<close>

lemma runs_clear_code:
  assumes "fits M l (clear_code n)" "\<And>i. i \<in> cap_indices n \<Longrightarrow> i < mc_groups M"
  shows "runs M Z fwd l (l + length (clear_code n)) b (\<lambda>s. [clear_captures n s])"
proof (cases "captureSpan n")
  case None
  then show ?thesis by (simp add: clear_code_def clear_captures_def runs_empty)
next
  case (Some r)
  obtain lo hi where r: "r = (lo, hi)" by (cases r)
  have "cap_indices n \<noteq> {}" "hi = Max (cap_indices n)"
    using Some r by (auto simp: captureSpan_hull hull_def split: if_splits)
  then have "hi < mc_groups M" using assms(2) Max_in [of "cap_indices n"] by simp
  moreover have "instr_at M l (OP_CLEAR, 2 * lo, 2 * hi + 1)"
    using assms(1) Some r by (auto simp: clear_code_def intro: fits_instr)
  ultimately show ?thesis using runs_clear [of M l "2 * lo" "2 * hi + 1" Z fwd b] Some r
    by (simp add: clear_code_def clear_captures_def)
qed

lemma runs_cleared:
  assumes "fits M l (clear_code n)" "\<And>i. i \<in> cap_indices n \<Longrightarrow> i < mc_groups M"
    and "runs M Z fwd (l + length (clear_code n)) h b F"
  shows "runs M Z fwd l h b (\<lambda>s. F (clear_captures n s))"
proof -
  have "okay M Z fwd True (\<lambda>s. [clear_captures n s])"
    by (rule safeI) (auto simp: good_clear ahead_def)
  from runs_both [OF runs_clear_code [OF assms(1,2)] assms(3) this] show ?thesis
    by (simp add: both_def [abs_def])
qed

lemma placed_inner:
  assumes "placed M s (seg_app p (seg_app y q))"
  shows "fits M (st_pc s) (sg_code p)" "placed M (after s p) y"
    "fits M (st_pc s + length (sg_code p) + length (sg_code y)) (sg_code q)"
  using placed_app [OF assms] placed_app [OF placed_app(2) [OF assms]] by (auto simp: placed_def)

lemma fits_two: "fits M l [i, j] \<Longrightarrow> fst i \<noteq> OP_LOOKAROUND \<Longrightarrow> fst j \<noteq> OP_LOOKAROUND \<Longrightarrow>
    instr_at M l i \<and> instr_at M (l + 1) j"
  by (auto simp: fits_Cons same_instr_def instr_at_def)

lemma split_instr_op [simp]: "fst (split_instr greedy a b) = OP_SPLIT"
  by (simp add: split_instr_def)

lemma implements_star:
  assumes f: "implements M Z fwd cx Q F" and sf: "okay M Z fwd (canMatchEmpty n) F"
    and caps: "\<And>i. i \<in> cap_indices n \<Longrightarrow> i < mc_groups M"
  shows "implements M Z fwd cx (star_seg n greedy Q)
    (star (mc_input M) fwd greedy (\<lambda>s. F (clear_captures n s)))"
proof (rule implementsI)
  fix s x assume x: "star_seg n greedy Q s x" and st: "st_rev s = (\<not> fwd)" "ctx_of s = cx" and pl: "placed M s x"
  let ?B = "\<lambda>s. F (clear_captures n s)" and ?g = "st_slot s" and ?l = "st_pc s"
  define h where "h = ?l + length (sg_code x)"
  have sfB: "okay M Z fwd (canMatchEmpty n) ?B" by (rule safe_clear [OF sf])
  have "loop_round M Z fwd ?l h ?g greedy ?B"
  proof (cases "canMatchEmpty n")
    case True
    let ?p = "\<lambda>h. seg_app (slot_seg 1) (code_seg ((OP_SAVE, ?g, 0) # split_instr greedy (?l + 2) h # clear_code n))"
    define p where "p = ?p h"
    define q where "q = code_seg [(OP_PROGRESS, ?g, 0), (OP_JMP, ?l, 0)]"
    from x True obtain y where y': "Q (after s (?p (?l + 4 + length (clear_code n) + length (sg_code y)))) y"
      and code': "x = seg_app (?p (?l + 4 + length (clear_code n) + length (sg_code y))) (seg_app y q)"
      by (auto simp: star_seg_def Let_def with_code_def seg_app_assoc q_def numeral_eq_Suc)
    have "h = ?l + 4 + length (clear_code n) + length (sg_code y)" by (simp add: h_def code' q_def)
    with y' code' have y: "Q (after s p) y" and code: "x = seg_app p (seg_app y q)" by (simp_all add: p_def)
    note p = p_def and q = q_def
    let ?e = "?l + 2 + length (clear_code n) + length (sg_code y)"
    note pl' = placed_inner [OF pl [unfolded code]]
    have i1: "instr_at M ?l (OP_SAVE, ?g, 0)" and i2: "instr_at M (?l + 1) (split_instr greedy (?l + 2) h)"
      and i3: "fits M (?l + 2) (clear_code n)"
      using pl'(1) by (auto simp: p fits_Cons same_instr_def instr_at_def split_instr_def)
    have i4: "instr_at M ?e (OP_PROGRESS, ?g, 0) \<and> instr_at M (?e + 1) (OP_JMP, ?l, 0)"
      by (rule fits_two) (use pl'(3) in \<open>auto simp: p q\<close>)
    have "runs M Z fwd (?l + 2 + length (clear_code n)) ?e (?g + 1) F"
      using implements_at [OF f y st pl'(2)] by (rule runs_cast) (simp_all add: p)
    from loop_round_guarded [OF i1 i2 [unfolded split_instr_def] runs_cleared [OF i3 caps this]] i4
    show ?thesis using pl by (auto simp: placed_def code p)
  next
    case False
    let ?p = "\<lambda>h. seg_app (slot_seg 0) (code_seg (split_instr greedy (?l + 1) h # clear_code n))"
    define p where "p = ?p h"
    define q where "q = code_seg [(OP_JMP, ?l, 0)]"
    from x False obtain y where y': "Q (after s (?p (?l + 2 + length (clear_code n) + length (sg_code y)))) y"
      and code': "x = seg_app (?p (?l + 2 + length (clear_code n) + length (sg_code y))) (seg_app y q)"
      by (auto simp: star_seg_def Let_def with_code_def seg_app_assoc q_def numeral_eq_Suc)
    have "h = ?l + 2 + length (clear_code n) + length (sg_code y)" by (simp add: h_def code' q_def)
    with y' code' have y: "Q (after s p) y" and code: "x = seg_app p (seg_app y q)" by (simp_all add: p_def)
    note p = p_def and q = q_def
    let ?e = "?l + 1 + length (clear_code n) + length (sg_code y)"
    note pl' = placed_inner [OF pl [unfolded code]]
    have i2: "instr_at M ?l (split_instr greedy (?l + 1) h)" and i3: "fits M (?l + 1) (clear_code n)"
      using pl'(1) by (auto simp: p fits_Cons same_instr_def instr_at_def split_instr_def)
    have i4: "instr_at M ?e (OP_JMP, ?l, 0)"
      by (rule fits_instr) (use pl'(3) in \<open>auto simp: p q\<close>)
    have "runs M Z fwd (?l + 1 + length (clear_code n)) ?e ?g F"
      using implements_at [OF f y st pl'(2)] by (rule runs_cast) (simp_all add: p)
    from loop_round_plain [OF i2 [unfolded split_instr_def] runs_cleared [OF i3 caps this]] i4 sfB False
    show ?thesis by auto
  qed
  then show "runs M Z fwd ?l (?l + length (sg_code x)) ?g (star (mc_input M) fwd greedy ?B)"
    unfolding h_def by (rule runs_star [OF _ sfB])
qed

lemma implements_plus:
  assumes f: "implements M Z fwd cx Q F" and sf: "okay M Z fwd (canMatchEmpty n) F"
    and caps: "\<And>i. i \<in> cap_indices n \<Longrightarrow> i < mc_groups M"
  shows "implements M Z fwd cx (plus_seg n greedy Q)
    (let once = (\<lambda>s. F (clear_captures n s)) in both once (star (mc_input M) fwd greedy once))"
proof (rule implementsI)
  fix s x assume x: "plus_seg n greedy Q s x" and st: "st_rev s = (\<not> fwd)" "ctx_of s = cx" and pl: "placed M s x"
  let ?B = "\<lambda>s. F (clear_captures n s)" and ?g = "st_slot s" and ?l = "st_pc s"
  have sfB: "okay M Z fwd (canMatchEmpty n) ?B" by (rule safe_clear [OF sf])
  show "runs M Z fwd ?l (?l + length (sg_code x)) ?g
    (let once = ?B in both once (star (mc_input M) fwd greedy once))"
  proof (cases "canMatchEmpty n")
    case True
    from x True obtain y z p where p: "p = seg_app (slot_seg 1) (code_seg (clear_code n))"
      and y: "Q (after s p) y" and z: "star_seg n greedy Q (after s (seg_app p y)) z"
      and code: "x = seg_app (seg_app p y) z" by (auto simp: plus_seg_def Let_def)
    note pl' = placed_app [OF pl [unfolded code]]
    note pl1 = placed_app [OF pl'(1)]
    let ?m = "?l + length (clear_code n) + length (sg_code y)"
    have "runs M Z fwd (?l + length (clear_code n)) ?m ?g F"
      using implements_at [OF f y st pl1(2)] by (rule runs_cast) (simp_all add: p)
    moreover have "fits M ?l (clear_code n)" using pl1(1) by (simp add: placed_def p)
    ultimately have "runs M Z fwd ?l ?m ?g ?B" by (intro runs_cleared [OF _ caps])
    moreover have "runs M Z fwd ?m (?l + length (sg_code x)) ?g (star (mc_input M) fwd greedy ?B)"
      using implements_at [OF implements_star [OF f sf caps] z st pl'(2)]
      by (rule runs_cast) (simp_all add: p code)
    ultimately show ?thesis unfolding Let_def by (rule runs_both [OF _ _ sfB])
  next
    case False
    from x False obtain y p q where p: "p = code_seg (clear_code n)"
      and q: "q = code_seg [split_instr greedy ?l (?l + length (clear_code n) + length (sg_code y) + 1)]"
      and y: "Q (after s p) y" and code: "x = seg_app p (seg_app y q)"
      by (auto simp: plus_seg_def with_code_def)
    note pl' = placed_inner [OF pl [unfolded code]]
    let ?m = "?l + length (clear_code n) + length (sg_code y)"
    have "runs M Z fwd (?l + length (clear_code n)) ?m ?g F"
      using implements_at [OF f y st pl'(2)] by (rule runs_cast) (simp_all add: p)
    with pl'(1) have body: "runs M Z fwd ?l ?m ?g ?B" by (intro runs_cleared [OF _ caps]) (simp add: p)
    have sp: "instr_at M ?m (split_instr greedy ?l (?m + 1))"
      using pl'(3) by (intro fits_instr) (auto simp: p q)
    have "loop_round M Z fwd ?m (?m + 1) ?g greedy ?B"
      by (rule loop_round_plain [OF sp [unfolded split_instr_def] body]) (use sfB False in auto)
    from runs_both [OF body runs_star [OF this sfB] sfB] show ?thesis by (simp add: code p q Let_def add.assoc)
  qed
qed

lemma implements_opt:
  assumes f: "implements M Z fwd cx Q F"
  shows "implements M Z fwd cx (opt_seg greedy Q) (maybe greedy F)"
proof (rule implementsI)
  fix s x assume x: "opt_seg greedy Q s x" and st: "st_rev s = (\<not> fwd)" "ctx_of s = cx" and pl: "placed M s x"
  let ?g = "st_slot s" and ?l = "st_pc s"
  from x obtain y p where p: "p = code_seg [split_instr greedy (?l + 1) (?l + 1 + length (sg_code y))]"
    and y: "Q (after s p) y" and code: "x = seg_app p y"
    by (auto simp: opt_seg_def with_code_def after_code)
  note pl' = placed_app [OF pl [unfolded code]]
  have "runs M Z fwd (?l + 1) (?l + 1 + length (sg_code y)) ?g F"
    using implements_at [OF f y st pl'(2)] by (rule runs_cast) (simp_all add: p)
  moreover have "instr_at M ?l (split_instr greedy (?l + 1) (?l + 1 + length (sg_code y)))"
    using pl'(1) by (intro fits_instr) (auto simp: placed_def p)
  ultimately have "runs M Z fwd ?l (?l + 1 + length (sg_code y)) ?g (maybe greedy F)"
    by (intro runs_maybe [of M ?l greedy "?l + 1"]) (auto simp: split_instr_def)
  then show "runs M Z fwd ?l (?l + length (sg_code x)) ?g (maybe greedy F)" by (simp add: code p)
qed

lemma implements_copies:
  assumes "implements M Z fwd cx Q F" "okay M Z fwd e F"
  shows "implements M Z fwd cx (seg_all (replicate k Q)) (in_order (replicate k F))"
  using assms by (intro implements_all) (auto simp: list_all2_conv_all_nth)

lemma implements_repeat:
  assumes f: "implements M Z fwd cx Q F" and sf: "okay M Z fwd (canMatchEmpty n) F"
    and caps: "\<And>i. i \<in> cap_indices n \<Longrightarrow> i < mc_groups M"
  shows "implements M Z fwd cx (repeat_seg n mn mx greedy Q)
    (both (in_order (replicate mn F))
       (case mx of None \<Rightarrow> star (mc_input M) fwd greedy (\<lambda>s. F (clear_captures n s))
        | Some m \<Rightarrow> in_order (replicate (m - mn) (maybe greedy F))))"
proof -
  have "implements M Z fwd cx
      (case mx of None \<Rightarrow> star_seg n greedy Q | Some m \<Rightarrow> seg_all (replicate (m - mn) (opt_seg greedy Q)))
      (case mx of None \<Rightarrow> star (mc_input M) fwd greedy (\<lambda>s. F (clear_captures n s))
        | Some m \<Rightarrow> in_order (replicate (m - mn) (maybe greedy F)))"
    using implements_star [OF f sf caps] implements_copies [OF implements_opt [OF f] safe_maybe [OF sf]]
    by (simp split: option.splits)
  then show ?thesis
    unfolding repeat_seg_def by (rule implements_seq [OF implements_copies [OF f sf] _ safe_copies [OF sf]])
qed

lemma implements_capture:
  assumes f: "implements M (insert i Z) fwd cx Q F" and i: "i < mc_groups M"
  shows "implements M Z fwd cx (group_seg (Some i) Q) (capture fwd i F)"
proof (rule implementsI)
  fix s x assume x: "group_seg (Some i) Q s x" and st: "st_rev s = (\<not> fwd)" "ctx_of s = cx" and pl: "placed M s x"
  let ?g = "st_slot s" and ?l = "st_pc s"
  define p where "p = code_seg [(OP_SAVE, if fwd then 2 * i else 2 * i + 1, 0)]"
  define q where "q = code_seg [(OP_SAVE, if fwd then 2 * i + 1 else 2 * i, 0)]"
  have "after s (code_seg [(OP_SAVE, 0, 0)]) = after s p" by (simp add: after_code p_def)
  moreover from x obtain y where "Q (after s (code_seg [(OP_SAVE, 0, 0)])) y"
    and "x = with_code y [(OP_SAVE, if st_rev s then 2 * i + 1 else 2 * i, 0)]
                     [(OP_SAVE, if st_rev s then 2 * i else 2 * i + 1, 0)]"
    by (auto simp: group_seg_def)
  ultimately have y: "Q (after s p) y" and code: "x = seg_app p (seg_app y q)"
    using st(1) by (auto simp: with_code_def p_def q_def after_code)
  note p = p_def and q = q_def
  note pl' = placed_inner [OF pl [unfolded code]]
  let ?e = "?l + 1 + length (sg_code y)"
  have "instr_at M ?l (OP_SAVE, if fwd then 2 * i else 2 * i + 1, 0)"
    using pl'(1) by (intro fits_instr) (auto simp: p)
  moreover have "instr_at M ?e (OP_SAVE, if fwd then 2 * i + 1 else 2 * i, 0)"
    using pl'(3) by (intro fits_instr) (auto simp: p q)
  moreover have "runs M (insert i Z) fwd (?l + 1) ?e ?g F"
    using implements_at [OF f y st pl'(2)] by (rule runs_cast) (simp_all add: p)
  ultimately have "runs M Z fwd ?l (?e + 1) ?g (capture fwd i F)" by (intro runs_capture [OF _ _ _ i])
  then show "runs M Z fwd ?l (?l + length (sg_code x)) ?g (capture fwd i F)" by (simp add: code p q)
qed

section \<open>Literal tries\<close>

text \<open>
  The outcomes of a literal, of a list of literals in priority order, and of a branch. Grouping by
  first unit keeps the outcomes because branches with different first units exclude each other.
\<close>

definition lit_matcher :: "js_string \<Rightarrow> bool \<Rightarrow> nat list \<Rightarrow> matcher" where
  "lit_matcher input fwd cs = in_order (map (\<lambda>c. consume input fwd (\<lambda>u. u = c)) cs)"

definition lits_matcher :: "js_string \<Rightarrow> bool \<Rightarrow> nat list list \<Rightarrow> matcher" where
  "lits_matcher input fwd lits = any_of (map (lit_matcher input fwd) lits)"

fun branch_matcher :: "js_string \<Rightarrow> bool \<Rightarrow> lit_branch \<Rightarrow> matcher" where
  "branch_matcher input fwd EpsBranch = (\<lambda>s. [s])"
| "branch_matcher input fwd (LitBranch c sufs) =
     both (consume input fwd (\<lambda>u. u = c)) (lits_matcher input fwd sufs)"

fun branch_char :: "lit_branch \<Rightarrow> nat option" where
  "branch_char EpsBranch = None"
| "branch_char (LitBranch c _) = Some c"

definition distinct_tail :: "lit_branch list \<times> (nat \<rightharpoonup> nat) \<Rightarrow> bool" where
  "distinct_tail st \<longleftrightarrow>
     (let cs = map branch_char (fst st) in
      \<forall>c gi. snd st c = Some gi \<longrightarrow> gi < length cs \<and> cs ! gi = Some c \<and>
        (\<forall>j. gi < j \<longrightarrow> j < length cs \<longrightarrow> cs ! j \<noteq> None \<and> cs ! j \<noteq> Some c))"

abbreviation branches_matcher :: "js_string \<Rightarrow> bool \<Rightarrow> lit_branch list \<Rightarrow> matcher" where
  "branches_matcher input fwd bs \<equiv> any_of (map (branch_matcher input fwd) bs)"

lemma any_of_simps: "any_of [] s = []" "any_of (f # fs) s = f s @ any_of fs s" "any_of (fs @ gs) s = any_of fs s @ any_of gs s"
  by (simp_all add: any_of_def)

lemma lit_matcher_Cons: "lit_matcher input fwd (c # cs) = both (consume input fwd (\<lambda>u. u = c)) (lit_matcher input fwd cs)"
  by (rule ext) (simp add: lit_matcher_def both_def)

lemma lits_matcher_append: "lits_matcher input fwd (xs @ [l]) s = lits_matcher input fwd xs s @ lit_matcher input fwd l s"
  by (simp add: lits_matcher_def any_of_simps)

text \<open>A literal moves past the later branches, which start with other units.\<close>

lemma branch_commute:
  assumes "\<forall>b \<in> set rest. branch_char b \<noteq> None \<and> branch_char b \<noteq> Some c"
  shows "branches_matcher input fwd (LitBranch c (sufs @ [l]) # rest) s =
    branches_matcher input fwd (LitBranch c sufs # rest) s @ lit_matcher input fwd (c # l) s"
proof (cases "consume input fwd (\<lambda>u. u = c) s")
  case Nil
  then show ?thesis by (simp add: any_of_simps both_def lit_matcher_Cons)
next
  case (Cons t ts)
  then have one: "consume input fwd (\<lambda>u. u = c) s = [t]" and unit: "unit_at input fwd (fst s) = c"
    by (auto simp: consume_def split: if_splits)
  have "branch_matcher input fwd b s = []" if b: "b \<in> set rest" for b
  proof -
    obtain c' sufs where "b = LitBranch c' sufs" "c' \<noteq> c" using assms b by (cases b) auto
    then show ?thesis using unit by (simp add: both_def consume_def)
  qed
  then have "branches_matcher input fwd rest s = []" by (auto simp: any_of_def)
  then show ?thesis by (simp add: any_of_simps both_def lit_matcher_Cons one lits_matcher_append)
qed

lemma group_step_matcher:
  assumes "distinct_tail st"
  shows "distinct_tail (group_step l st) \<and> branches_matcher input fwd (fst (group_step l st)) s =
      branches_matcher input fwd (fst st) s @ lit_matcher input fwd l s"
proof -
  obtain bs idx where st: "st = (bs, idx)" by (cases st)
  show ?thesis
  proof (cases l)
    case Nil
    then show ?thesis by (simp add: distinct_tail_def group_step_def st any_of_simps lit_matcher_def)
  next
    case (Cons c l')
    show ?thesis
    proof (cases "idx c")
      case None
      then have step: "group_step l st = (bs @ [LitBranch c [l']], idx(c \<mapsto> length bs))"
        by (simp add: group_step_def st Cons)
      have "distinct_tail (group_step l st)"
        using assms [unfolded st] None unfolding step by (fastforce simp: distinct_tail_def Let_def nth_append less_Suc_eq)
      moreover have "lits_matcher input fwd [l'] = lit_matcher input fwd l'"
        by (rule ext) (simp add: lits_matcher_def any_of_simps)
      ultimately show ?thesis unfolding step by (simp add: st Cons any_of_simps lit_matcher_Cons)
    next
      case (Some gi)
      then have gi: "gi < length bs" "branch_char (bs ! gi) = Some c"
        and later: "\<And>j. gi < j \<Longrightarrow> j < length bs \<Longrightarrow> branch_char (bs ! j) \<noteq> None \<and> branch_char (bs ! j) \<noteq> Some c"
        using assms by (fastforce simp: distinct_tail_def st Let_def)+
      then obtain sufs where sufs: "bs ! gi = LitBranch c sufs" by (cases "bs ! gi") auto
      then have step: "group_step l st = (bs[gi := LitBranch c (sufs @ [l'])], idx)"
        using Some by (simp add: group_step_def st Cons)
      have "map branch_char (bs[gi := LitBranch c (sufs @ [l'])]) = map branch_char bs"
        using gi by (simp add: map_update list_update_same_conv)
      then have "distinct_tail (group_step l st)"
        using assms [unfolded st] unfolding step by (simp only: distinct_tail_def fst_conv snd_conv)
      moreover have split: "bs = take gi bs @ LitBranch c sufs # drop (Suc gi) bs"
        using gi sufs id_take_nth_drop by metis
      have "\<forall>b \<in> set (drop (Suc gi) bs). branch_char b \<noteq> None \<and> branch_char b \<noteq> Some c"
        using later by (auto simp: in_set_conv_nth)
      from branch_commute [OF this, of input fwd sufs l' s]
      have "branches_matcher input fwd (bs[gi := LitBranch c (sufs @ [l'])]) s =
          branches_matcher input fwd bs s @ lit_matcher input fwd l s"
        using gi(1) by (subst (2) split) (simp add: upd_conv_take_nth_drop any_of_simps Cons)
      ultimately show ?thesis unfolding step by (simp add: st)
    qed
  qed
qed

lemma group_lits_matcher: "branches_matcher input fwd (group_lits lits) = lits_matcher input fwd lits"
proof
  fix s
  have "branches_matcher input fwd (fst (fold group_step ls st)) s =
      branches_matcher input fwd (fst st) s @ lits_matcher input fwd ls s" if "distinct_tail st" for ls st
    using that
  proof (induction ls arbitrary: st)
    case (Cons l ls)
    then show ?case using group_step_matcher [OF Cons.prems, of l input fwd s]
      by (simp add: lits_matcher_def any_of_simps)
  qed (simp add: lits_matcher_def any_of_simps)
  from this [of "([], Map.empty)" lits]
  show "branches_matcher input fwd (group_lits lits) s = lits_matcher input fwd lits s"
    by (simp add: group_lits_def distinct_tail_def any_of_simps)
qed

lemma group_lits_nonempty: "lits \<noteq> [] \<Longrightarrow> group_lits lits \<noteq> []"
proof -
  have "fst st \<noteq> [] \<Longrightarrow> fst (fold group_step ls st) \<noteq> []" for ls st
  proof (induction ls arbitrary: st)
    case (Cons l ls)
    have "fst (group_step l st) \<noteq> []"
      using Cons.prems by (auto simp: group_step_def split: prod.splits list.splits option.splits)
    then show ?case using Cons.IH by simp
  qed simp
  from this [of "group_step (hd lits) ([], Map.empty)" "tl lits"] show "lits \<noteq> [] \<Longrightarrow> group_lits lits \<noteq> []"
    by (cases lits) (auto simp: group_lits_def group_step_def split: list.splits)
qed

lemma implements_chars:
  assumes val: "valid_units (mc_input M)"
  shows "implements M Z fwd cx (chars_seg cs) (lit_matcher (mc_input M) fwd cs)"
proof (induction cs)
  case Nil
  then show ?case using implements_empty by (simp add: lit_matcher_def in_order_Nil chars_seg_def seg_empty_def implements_def)
next
  case (Cons c cs)
  have one: "implements M Z fwd cx (chars_seg [c]) (consume (mc_input M) fwd (\<lambda>u. u = c))"
  proof (rule implementsI)
    fix s x assume "chars_seg [c] s x" "placed M s x"
    then have "instr_at M (st_pc s) (OP_CHAR, c, 0)" "length (sg_code x) = 1"
      by (auto simp: chars_seg_def placed_def intro: fits_instr)
    then show "runs M Z fwd (st_pc s) (st_pc s + length (sg_code x)) (st_slot s) (consume (mc_input M) fwd (\<lambda>u. u = c))"
      using runs_consume [OF _ _ _ val, of "st_pc s" OP_CHAR c 0] by simp
  qed
  have "chars_seg (c # cs) s x \<Longrightarrow> seg_seq (chars_seg [c]) (chars_seg cs) s x" for s x
    by (auto simp: chars_seg_def seg_seq_def code_seg_app)
  then show ?case using implements_seq [OF one Cons.IH safe_consume]
    by (auto simp: lit_matcher_Cons implements_def)
qed

lemma implements_lits:
  assumes val: "valid_units (mc_input M)"
  shows "lits \<noteq> [] \<Longrightarrow> implements M Z fwd cx (lit_seg lits) (lits_matcher (mc_input M) fwd lits)"
proof (induction lits rule: lit_seg.induct)
  case (1 lits)
  let ?Q = "\<lambda>b. case b of EpsBranch \<Rightarrow> seg_empty
       | LitBranch c sufs \<Rightarrow>
           seg_seq (chars_seg [c]) (if length sufs = 1 then chars_seg (hd sufs) else lit_seg sufs)"
  have branch: "implements M Z fwd cx (?Q b) (branch_matcher (mc_input M) fwd b)" if b: "b \<in> set (group_lits lits)" for b
  proof (cases b)
    case EpsBranch
    then show ?thesis using implements_empty by simp
  next
    case (LitBranch c sufs)
    note ne = group_lits_total(2) [OF b [unfolded LitBranch]]
    have rest: "implements M Z fwd cx (if length sufs = 1 then chars_seg (hd sufs) else lit_seg sufs)
        (lits_matcher (mc_input M) fwd sufs)"
    proof (cases "length sufs = 1")
      case True
      then obtain l where l: "sufs = [l]" by (auto simp: length_Suc_conv)
      have "lits_matcher (mc_input M) fwd [l] = lit_matcher (mc_input M) fwd l"
        by (rule ext) (simp add: lits_matcher_def any_of_simps)
      then show ?thesis using implements_chars [OF val] by (simp add: l)
    next
      case False
      then show ?thesis using "1.IH" [OF b LitBranch False ne] by simp
    qed
    have "lit_matcher (mc_input M) fwd [c] = consume (mc_input M) fwd (\<lambda>u. u = c)"
      by (simp add: lit_matcher_def del: in_order.simps)
    with implements_chars [OF val, of Z fwd cx "[c]"]
    have "implements M Z fwd cx (chars_seg [c]) (consume (mc_input M) fwd (\<lambda>u. u = c))" by simp
    from implements_seq [OF this rest safe_consume] show ?thesis by (simp add: LitBranch)
  qed
  have "implements M Z fwd cx (alt_seg (map ?Q (group_lits lits)))
      (any_of (map (branch_matcher (mc_input M) fwd) (group_lits lits)))"
    by (rule implements_alt)
      (use branch group_lits_nonempty [OF "1.prems"] in \<open>simp_all only: list.rel_map list.rel_refl_strong map_is_Nil_conv simp_thms\<close>)
  then show ?case unfolding lit_seg.simps [of lits] group_lits_matcher .
qed

end
