(* ===== verification/Re_Node_Correct.thy ===== *)
theory Re_Node_Correct
  imports Re_Compile_Correct
begin

text \<open>
  The code of every node implements the node: the atoms with their classes and case folding, the
  lookarounds through their resolved bodies, and the induction over the tree.
\<close>

section \<open>Classes\<close>

lemma class_at_prefix: "prefix (pre @ encode_class rs) tbl \<Longrightarrow> class_at tbl (length pre) rs"
  by (auto simp: prefix_def class_at_def)

lemma placed_class:
  assumes "placed M s (class_seg x (length (st_tbl s)) rs negated)" "ordered rs" "x \<noteq> OP_LOOKAROUND"
  shows "instr_at M (st_pc s) (x, length (st_tbl s), if negated then 1 else 0)"
    and "classMatch (mc_tbl M) (length (st_tbl s)) c negated = (in_ranges rs c \<noteq> negated)"
proof -
  show "instr_at M (st_pc s) (x, length (st_tbl s), if negated then 1 else 0)"
    using assms by (auto simp: placed_def intro: fits_instr)
  have "class_at (mc_tbl M) (length (st_tbl s)) (normalizeRanges rs)"
    using assms(1) by (auto simp: placed_def intro: class_at_prefix)
  from add_class.lookup [OF this assms(2)]
  show "classMatch (mc_tbl M) (length (st_tbl s)) c negated = (in_ranges rs c \<noteq> negated)" .
qed

lemma runs_class:
  assumes "placed M s (class_seg OP_CLASS (length (st_tbl s)) rs negated)" "ordered rs" "valid_units (mc_input M)"
    and "\<And>u. u < 65536 \<Longrightarrow> in_ranges rs u = p u"
  shows "runs M Z fwd (st_pc s) (st_pc s + 1) b (consume (mc_input M) fwd (\<lambda>u. p u \<noteq> negated))"
  by (rule runs_consume [OF placed_class(1) [OF assms(1,2)] _ _ assms(3)])
     (use placed_class(2) [OF assms(1,2)] assms(4) in auto)

lemma runs_cpclass:
  assumes "placed M s (class_seg OP_CPCLASS (length (st_tbl s)) rs negated)" "ordered rs"
    and "\<And>sp cp w. sp \<le> length (mc_input M) \<Longrightarrow> readCodePoint (mc_input M) fwd sp = Some (cp, w) \<Longrightarrow>
      in_ranges rs cp = p cp"
  shows "runs M Z fwd (st_pc s) (st_pc s + 1) b (consume_cp (mc_input M) fwd (\<lambda>cp. p cp \<noteq> negated))"
  by (rule runs_consume_cp [OF placed_class(1) [OF assms(1,2)]])
     (use placed_class(2) [OF assms(1,2)] assms(3) in auto)

lemma unitsToRanges_ok:
  "ordered (unitsToRanges us)" "in_ranges (unitsToRanges us) c \<longleftrightarrow> c \<in> set us"
  using fold_class.norm_member [of "map (\<lambda>u. (u, u)) us" c]
    disjoint_sorted_ordered [OF fold_class.norm_searchable [of "map (\<lambda>u. (u, u)) us"]]
  by (simp_all add: unitsToRanges_def)

lemma in_foldRangeAscii:
  "lo \<le> hi \<Longrightarrow> in_ranges (foldRangeAscii (lo, hi)) c \<longleftrightarrow> (\<exists>u. lo \<le> u \<and> u \<le> hi \<and> asciiFold u = asciiFold c)"
proof
  assume "in_ranges (foldRangeAscii (lo, hi)) c"
  then consider "lo \<le> c" "c \<le> hi" | "0x61 \<le> c" "c \<le> 0x7a" "lo \<le> c - 0x20" "c - 0x20 \<le> hi"
    | "0x41 \<le> c" "c \<le> 0x5a" "lo \<le> c + 0x20" "c + 0x20 \<le> hi"
    by (auto simp: foldRangeAscii_def Let_def split: if_splits)
  then show "\<exists>u. lo \<le> u \<and> u \<le> hi \<and> asciiFold u = asciiFold c"
  proof cases
    case 1
    then show ?thesis by blast
  next
    case 2
    then have "asciiFold (c - 0x20) = asciiFold c" by (auto simp: asciiFold_def)
    with 2 show ?thesis by blast
  next
    case 3
    then have "asciiFold (c + 0x20) = asciiFold c" by (auto simp: asciiFold_def)
    with 3 show ?thesis by blast
  qed
next
  assume lh: "lo \<le> hi" and "\<exists>u. lo \<le> u \<and> u \<le> hi \<and> asciiFold u = asciiFold c"
  then obtain u where u: "lo \<le> u" "u \<le> hi" "asciiFold u = asciiFold c" by blast
  have "u = c \<or> 0x41 \<le> u \<and> u \<le> 0x5a \<and> c = u + 0x20 \<or> 0x41 \<le> c \<and> c \<le> 0x5a \<and> u = c + 0x20"
    by (cases "0x41 \<le> u \<and> u \<le> 0x5a"; cases "0x41 \<le> c \<and> c \<le> 0x5a"; insert u(3);
        simp only: asciiFold_def if_True if_False simp_thms; linarith)
  then consider "u = c" | "0x41 \<le> u" "u \<le> 0x5a" "c = u + 0x20" | "0x41 \<le> c" "c \<le> 0x5a" "u = c + 0x20"
    by blast
  then show "in_ranges (foldRangeAscii (lo, hi)) c"
    by cases (use u in \<open>auto simp: foldRangeAscii_def Let_def\<close>)
qed

lemma foldClassRangesAscii_ok:
  assumes "ordered rs"
  shows "ordered (foldClassRangesAscii rs)"
    and "in_ranges (foldClassRangesAscii rs) c \<longleftrightarrow> (\<exists>u. in_ranges rs u \<and> asciiFold u = asciiFold c)"
proof -
  have "ordered (foldRangeAscii r)" if "fst r \<le> snd r" for r
    using that by (auto simp: foldRangeAscii_def ordered_iff Let_def)
  then show "ordered (foldClassRangesAscii rs)"
    using assms by (fastforce simp: foldClassRangesAscii_def ordered_iff)
  show "in_ranges (foldClassRangesAscii rs) c \<longleftrightarrow> (\<exists>u. in_ranges rs u \<and> asciiFold u = asciiFold c)"
    using assms
  proof (induction rs)
    case (Cons r rs)
    obtain lo hi where r: "r = (lo, hi)" by (cases r)
    have lh: "lo \<le> hi" "ordered rs" using Cons.prems by (auto simp: ordered_iff r)
    have "in_ranges (foldClassRangesAscii (r # rs)) c \<longleftrightarrow>
        in_ranges (foldRangeAscii (lo, hi)) c \<or> in_ranges (foldClassRangesAscii rs) c"
      by (simp add: foldClassRangesAscii_def r)
    also have "\<dots> \<longleftrightarrow> (\<exists>u. in_ranges (r # rs) u \<and> asciiFold u = asciiFold c)"
      unfolding in_foldRangeAscii [OF lh(1)] Cons.IH [OF lh(2)] by (auto simp: r)
    finally show ?case .
  qed (simp add: foldClassRangesAscii_def)
qed

lemma asciiFold_bmp: "asciiFold u = asciiFold c \<Longrightarrow> c < 0x10000 \<Longrightarrow> u < 0x10000"
  by (auto simp: asciiFold_def split: if_splits)

lemma dotCpRanges_ok:
  "ordered (dotCpRanges da)" "c \<le> 0x10ffff \<Longrightarrow> in_ranges (dotCpRanges da) c \<longleftrightarrow> da \<or> \<not> isLineTerminator c"
  by (auto simp: dotCpRanges_def ordered_iff isLineTerminator_def)

lemma readCodePoint_range:
  assumes "valid_units input" "sp \<le> length input" "readCodePoint input fwd sp = Some (cp, w)"
  shows "cp \<le> 0x10ffff"
proof -
  have u: "input ! i < 65536" if "i < length input" for i
    using assms(1) that by (simp add: valid_units_def list_all_length)
  have pair: "pair_code_point a b \<le> 0x10ffff" if "is_lead a" "is_trail b" for a b
  proof -
    have "a - 0xd800 \<le> 1023" "b - 0xdc00 \<le> 1023" using that by (auto simp: is_lead_def is_trail_def)
    then show ?thesis by (simp add: pair_code_point_def)
  qed
  show ?thesis
  proof (cases fwd)
    case True
    with assms(3) have sp: "sp < length input" and cp: "forwardCodePoint input sp = Some cp"
      by (auto simp: readCodePoint_def inBounds_def split: if_splits option.splits)
    show ?thesis using cp u [OF sp] pair
      by (auto simp: forwardCodePoint_def Let_def split: if_splits)
  next
    case False
    with assms(2,3) have "0 < sp" "sp - 1 < length input" by (auto simp: readCodePoint_def inBounds_def split: if_splits)
    with False assms(3) show ?thesis using u [of "sp - 1"] pair
      by (auto simp: readCodePoint_def inBounds_def unit_at_def Let_def split: if_splits)
  qed
qed

section \<open>Leaves\<close>

lemma ctx_of_sel:
  assumes "ctx_of s = cx"
  shows "cx_ci cx = st_ci s" "cx_da cx = st_da s" "cx_ml cx = st_ml s" "cx_un cx = st_un s"
  using assms by (auto simp: ctx_of_def)

lemma implements_unit:
  assumes val: "valid_units (mc_input M)" and x: "x \<in> {OP_CHAR, OP_CHARI, OP_ANY, OP_CLASS}"
    and pl: "placed M s (code_seg [(x, a, b)])"
    and p: "\<And>u. u < 65536 \<Longrightarrow> unitMatches x a b (mc_tbl M) u = p u"
  shows "runs M Z fwd (st_pc s) (st_pc s + 1) g (consume (mc_input M) fwd p)"
proof -
  have "instr_at M (st_pc s) (x, a, b)" using pl x by (auto simp: placed_def intro: fits_instr)
  from runs_consume [OF this x p val] show ?thesis .
qed

lemma implements_char:
  assumes val: "valid_units (mc_input M)" and code: "code < 0x10000"
  shows "implements M Z fwd cx (node_seg (mc_upper M) (RChar code))
    (consume (mc_input M) fwd (char_matches (mc_upper M) cx code))"
proof (rule implementsI)
  fix s x assume x: "node_seg (mc_upper M) (RChar code) s x" and cx: "ctx_of s = cx" and pl: "placed M s x"
  note sel = ctx_of_sel [OF cx]
  let ?us = "foldCharUnitsLegacy (mc_upper M) code"
  have x: "x = char_seg (mc_upper M) code s" using x by simp
  consider (plain) "\<not> st_ci s" | (ascii) "st_ci s" "st_un s" | (one) "st_ci s" "\<not> st_un s" "length ?us = 1"
    | (many) "st_ci s" "\<not> st_un s" "length ?us \<noteq> 1" by blast
  then show "runs M Z fwd (st_pc s) (st_pc s + length (sg_code x)) (st_slot s)
      (consume (mc_input M) fwd (char_matches (mc_upper M) cx code))"
  proof cases
    case plain
    then have "x = code_seg [(OP_CHAR, code, 0)]" by (simp add: x char_seg_def)
    with implements_unit [OF val _ pl [unfolded this], of "char_matches (mc_upper M) cx code"] plain sel
    show ?thesis by (simp add: char_matches_def)
  next
    case ascii
    then have "x = code_seg [(OP_CHARI, asciiFold code, 0)]" by (simp add: x char_seg_def)
    with implements_unit [OF val _ pl [unfolded this], of "char_matches (mc_upper M) cx code"] ascii sel
    show ?thesis by (simp add: char_matches_def canon_def)
  next
    case one
    then obtain u where u: "?us = [u]" by (auto simp: length_Suc_conv)
    then have "x = code_seg [(OP_CHAR, u, 0)]" using one by (simp add: x char_seg_def)
    with implements_unit [OF val _ pl [unfolded this], of "char_matches (mc_upper M) cx code"] one sel
      legacy.fold_char_single [OF code _ u]
    show ?thesis by (simp add: char_matches_def canon_def)
  next
    case many
    then have xs: "x = class_seg OP_CLASS (length (st_tbl s)) (unitsToRanges ?us) False"
      by (simp add: x char_seg_def Let_def)
    have "in_ranges (unitsToRanges ?us) u = char_matches (mc_upper M) cx code u" if "u < 65536" for u
      using legacy.fold_char_mem [OF code, of u "mc_upper M"] that many sel
      by (simp add: unitsToRanges_ok char_matches_def canon_def)
    from runs_class [OF pl [unfolded xs] unitsToRanges_ok(1) val this] show ?thesis by (simp add: xs)
  qed
qed

lemma implements_class:
  assumes val: "valid_units (mc_input M)" and rs: "ordered rs"
  shows "implements M Z fwd cx (node_seg (mc_upper M) (RClass rs negated))
    (consume (mc_input M) fwd (\<lambda>c. class_member (mc_upper M) cx rs c \<noteq> negated))"
proof (rule implementsI)
  fix s x assume x: "node_seg (mc_upper M) (RClass rs negated) s x" and cx: "ctx_of s = cx" and pl: "placed M s x"
  note sel = ctx_of_sel [OF cx]
  define rs' where "rs' = (if st_ci s then (if st_un s then foldClassRangesAscii rs
    else foldClassRangesLegacy (mc_upper M) rs) else rs)"
  have x: "x = class_seg OP_CLASS (length (st_tbl s)) rs' negated"
    using x by (simp add: class_node_seg_def rs'_def)
  have ord: "ordered rs'"
    using rs foldClassRangesAscii_ok(1) legacy.fold_ranges_ordered by (simp add: rs'_def)
  have "in_ranges rs' u = class_member (mc_upper M) cx rs u" if u: "u < 65536" for u
  proof -
    have "(\<exists>v. in_ranges rs v \<and> asciiFold v = asciiFold u) \<longleftrightarrow>
        (\<exists>v < 0x10000. in_ranges rs v \<and> asciiFold v = asciiFold u)"
      using asciiFold_bmp u by (metis numeral_eq_iff)
    then show ?thesis
      using foldClassRangesAscii_ok(2) [OF rs, of u] legacy.fold_ranges_mem [OF rs, of u "mc_upper M"] u sel
      by (auto simp: rs'_def class_member_def canon_def)
  qed
  from runs_class [OF pl [unfolded x] ord val this]
  show "runs M Z fwd (st_pc s) (st_pc s + length (sg_code x)) (st_slot s)
      (consume (mc_input M) fwd (\<lambda>c. class_member (mc_upper M) cx rs c \<noteq> negated))"
    by (simp add: x)
qed

lemma implements_any:
  assumes val: "valid_units (mc_input M)"
  shows "implements M Z fwd cx (node_seg (mc_upper M) RAny)
    (consume (mc_input M) fwd (\<lambda>c. cx_da cx \<or> \<not> isLineTerminator c))"
proof (rule implementsI)
  fix s x assume x: "node_seg (mc_upper M) RAny s x" and cx: "ctx_of s = cx" and pl: "placed M s x"
  have xs: "x = code_seg [(OP_ANY, if st_da s then 1 else 0, 0)]" using x by simp
  from implements_unit [OF val _ pl [unfolded xs], of "\<lambda>c. cx_da cx \<or> \<not> isLineTerminator c"] ctx_of_sel [OF cx]
  show "runs M Z fwd (st_pc s) (st_pc s + length (sg_code x)) (st_slot s)
      (consume (mc_input M) fwd (\<lambda>c. cx_da cx \<or> \<not> isLineTerminator c))"
    by (simp add: xs)
qed

lemma implements_udot:
  assumes val: "valid_units (mc_input M)"
  shows "implements M Z fwd cx (node_seg (mc_upper M) RUdot)
    (consume_cp (mc_input M) fwd (\<lambda>c. cx_da cx \<or> \<not> isLineTerminator c))"
proof (rule implementsI)
  fix s x assume x: "node_seg (mc_upper M) RUdot s x" and cx: "ctx_of s = cx" and pl: "placed M s x"
  have xs: "x = class_seg OP_CPCLASS (length (st_tbl s)) (dotCpRanges (st_da s)) False" using x by simp
  have "in_ranges (dotCpRanges (st_da s)) cp = (cx_da cx \<or> \<not> isLineTerminator cp)"
    if "sp \<le> length (mc_input M)" "readCodePoint (mc_input M) fwd sp = Some (cp, w)" for sp cp w
    using dotCpRanges_ok(2) [OF readCodePoint_range [OF val that]] ctx_of_sel [OF cx] by simp
  from runs_cpclass [OF pl [unfolded xs] dotCpRanges_ok(1) this]
  show "runs M Z fwd (st_pc s) (st_pc s + length (sg_code x)) (st_slot s)
      (consume_cp (mc_input M) fwd (\<lambda>c. cx_da cx \<or> \<not> isLineTerminator c))"
    by (simp add: xs)
qed

lemma implements_cpclass:
  assumes rs: "ordered rs"
  shows "implements M Z fwd cx (node_seg (mc_upper M) (RCpClass rs negated))
    (consume_cp (mc_input M) fwd (\<lambda>c. in_ranges rs c \<noteq> negated))"
proof (rule implementsI)
  fix s x assume x: "node_seg (mc_upper M) (RCpClass rs negated) s x" and pl: "placed M s x"
  have xs: "x = class_seg OP_CPCLASS (length (st_tbl s)) rs negated" using x by simp
  from runs_cpclass [OF pl [unfolded xs] rs, of fwd "in_ranges rs" Z "st_slot s"]
  show "runs M Z fwd (st_pc s) (st_pc s + length (sg_code x)) (st_slot s)
      (consume_cp (mc_input M) fwd (\<lambda>c. in_ranges rs c \<noteq> negated))"
    by (simp add: xs)
qed

lemma implements_assertion:
  assumes x: "\<And>s. ctx_of s = cx \<Longrightarrow> Q s = (\<lambda>x. x = code_seg [(op, a, 0)])" and op: "op \<in> {OP_BOL, OP_EOL, OP_WBOUND}"
    and p: "\<And>sp. sp \<le> length (mc_input M) \<Longrightarrow> assertionHolds op a (mc_input M) sp = p sp"
  shows "implements M Z fwd cx Q (guard p)"
proof (rule implementsI)
  fix s y assume "Q s y" "ctx_of s = cx" "placed M s y"
  then have y: "y = code_seg [(op, a, 0)]" and "instr_at M (st_pc s) (op, a, 0)"
    using x [of s] op by (auto simp: placed_def intro: fits_instr)
  from runs_guard [OF this(2) op p] show "runs M Z fwd (st_pc s) (st_pc s + length (sg_code y)) (st_slot s) (guard p)"
    by (simp add: y)
qed

lemma assertion_specs:
  assumes "sp \<le> length input"
  shows "assertionHolds OP_BOL (if ml then 1 else 0) input sp = at_bol ml input sp"
    and "assertionHolds OP_EOL (if ml then 1 else 0) input sp = at_eol ml input sp"
    and "assertionHolds OP_WBOUND (if neg then 1 else 0) input sp = (at_boundary input sp \<noteq> neg)"
  using assms by (auto simp: at_bol_def at_eol_def at_boundary_def charCodeAt_def nth_opt_def Let_def)

lemma implements_backref:
  assumes "i < mc_groups M" "i \<notin> Z"
  shows "implements M Z fwd cx (node_seg (mc_upper M) (RBackref i)) (backref (mc_input M) (cx_ci cx) fwd i)"
proof (rule implementsI)
  fix s x assume x: "node_seg (mc_upper M) (RBackref i) s x" and cx: "ctx_of s = cx" and pl: "placed M s x"
  have xs: "x = code_seg [(OP_BACKREF, i, if st_ci s then 1 else 0)]" using x by simp
  have "instr_at M (st_pc s) (OP_BACKREF, i, if st_ci s then 1 else 0)"
    using pl by (auto simp: xs placed_def intro: fits_instr)
  from runs_backref [OF this assms, of fwd "st_slot s"] ctx_of_sel [OF cx]
  show "runs M Z fwd (st_pc s) (st_pc s + length (sg_code x)) (st_slot s) (backref (mc_input M) (cx_ci cx) fwd i)"
    by (cases "st_ci s") (simp_all add: xs)
qed

lemma sub_body_look: "sub_body (hd (sg_subs (look_seg n negated behind s))) = n"
  by (simp add: sub_body_def look_seg_def orient_def reverseNode_reverseNode)

lemma look_flags:
  "has_flag ((if negated then 1 else 0) + (if behind then 2 else 0)) 2 = behind"
  "has_flag ((if negated then 1 else 0) + (if behind then 2 else 0)) 1 = negated"
proof -
  have "(3 :: nat) AND 2 = 2" "(3 :: nat) AND 1 = 1" "(2 :: nat) AND 2 = 2" "(2 :: nat) AND 1 = 0" "(1 :: nat) AND 2 = 0"
    by simp_all
  then show "has_flag ((if negated then 1 else 0) + (if behind then 2 else 0)) 2 = behind"
    "has_flag ((if negated then 1 else 0) + (if behind then 2 else 0)) 1 = negated"
    by (cases negated; cases behind; simp add: has_flag_def numeral_eq_Suc)+
qed

lemma implements_look:
  assumes "okay M Z (\<not> behind) e (mres (mc_upper M) (mc_input M) cx (\<not> behind) n)" "backrefs n \<inter> Z = {}"
  shows "implements M Z fwd cx (node_seg (mc_upper M) (RLookaround n negated behind))
    (look negated (mres (mc_upper M) (mc_input M) cx (\<not> behind) n))"
proof (rule implementsI)
  fix s x assume x: "node_seg (mc_upper M) (RLookaround n negated behind) s x" and cx: "ctx_of s = cx" and pl: "placed M s x"
  define sub where "sub = hd (sg_subs (look_seg n negated behind s))"
  have xs: "x = look_seg n negated behind s" using x by simp
  have sub: "ps_patchPc sub = st_pc s" "ps_reversed sub = behind" "sub_body sub = n" "sub_ctx M sub = cx"
    using pl cx sub_body_look [of n negated behind s]
    by (auto simp: sub_def look_seg_def sub_ctx_def ctx_of_def placed_def)
  have "resolved M (st_slot s) sub" using pl by (auto simp: placed_def xs look_seg_def sub_def)
  then have "\<exists>entry fl e1 y z. instr_at M (st_pc s) (OP_LOOKAROUND, entry, fl) \<and>
    runs M Z (\<not> behind) entry e1 (st_slot s) (mres (mc_upper M) (mc_input M) cx (\<not> behind) n) \<and>
    instr_at M e1 (OP_MATCH, y, z)"
    using assms(2) by (simp only: resolved_def sub)
  then obtain entry fl e1 y z where r: "instr_at M (st_pc s) (OP_LOOKAROUND, entry, fl)"
    "runs M Z (\<not> behind) entry e1 (st_slot s) (mres (mc_upper M) (mc_input M) cx (\<not> behind) n)"
    "instr_at M e1 (OP_MATCH, y, z)"
    by blast
  have "fl = (if negated then 1 else 0) + (if behind then 2 else 0)"
    using pl r(1) by (auto simp: placed_def xs look_seg_def fits_Cons same_instr_def instr_at_def)
  with look_flags have "has_flag fl 2 = behind" "has_flag fl 1 = negated" by auto
  from runs_look [OF r(1) this r(2,3) assms(1), of fwd]
  show "runs M Z fwd (st_pc s) (st_pc s + length (sg_code x)) (st_slot s)
      (look negated (mres (mc_upper M) (mc_input M) cx (\<not> behind) n))"
    by (simp add: xs look_seg_def)
qed

lemma implements_scoped:
  assumes "implements M Z fwd (scoped_ctx add remove cx) Q F"
  shows "implements M Z fwd cx (\<lambda>s. Q (scoped_site add remove s)) F"
proof (rule implementsI)
  fix s x assume "Q (scoped_site add remove s) x" "st_rev s = (\<not> fwd)" "ctx_of s = cx" "placed M s x"
  moreover from this have "ctx_of (scoped_site add remove s) = scoped_ctx add remove cx"
    by (auto simp: ctx_of_def scoped_site_def scoped_ctx_def scoped_flag_def Let_def)
  ultimately show "runs M Z fwd (st_pc s) (st_pc s + length (sg_code x)) (st_slot s) F"
    using implementsD [OF assms, of "scoped_site add remove s" x] by (simp add: scoped_site_def placed_def)
qed

section \<open>Literal alternations\<close>

lemma orient_simps:
  "orient fwd (RChar c) = RChar c" "orient fwd RAny = RAny" "orient fwd RUdot = RUdot"
  "orient fwd (RClass rs neg) = RClass rs neg" "orient fwd (RCpClass rs neg) = RCpClass rs neg"
  "orient fwd RBol = RBol" "orient fwd REol = REol" "orient fwd (RWordBoundary neg) = RWordBoundary neg"
  "orient fwd (RBackref i) = RBackref i" "orient fwd (RLookaround n neg behind) = RLookaround n neg behind"
  "orient fwd (RModGroup add remove n) = RModGroup add remove (orient fwd n)"
  "orient fwd (RConcat parts) = RConcat (map (orient fwd) (if fwd then parts else rev parts))"
  "orient fwd (RAlt options) = RAlt (map (orient fwd) options)"
  "orient fwd (RStar n g) = RStar (orient fwd n) g" "orient fwd (RPlus n g) = RPlus (orient fwd n) g"
  "orient fwd (ROpt n g) = ROpt (orient fwd n) g"
  "orient fwd (RRepeat n mn mx g) = RRepeat (orient fwd n) mn mx g"
  "orient fwd (RGroup n cap name) = RGroup (orient fwd n) cap name"
  by (auto simp: orient_def map_idI)

lemma orient_char: "orient fwd q = RChar c \<longleftrightarrow> q = RChar c"
  by (cases q) (auto simp: orient_simps)

lemma mres_literal:
  assumes "literalCodes (orient fwd p) = Some cs" "\<not> cx_ci cx"
  shows "mres upper input cx fwd p = lit_matcher input fwd cs"
proof -
  have char: "mres upper input cx fwd (RChar c) = consume input fwd (\<lambda>u. u = c)" for c
    using assms(2) by (simp add: char_matches_def [abs_def])
  show ?thesis
  proof (cases p)
    case (RChar c)
    then have "cs = [c]" using assms(1) by (simp add: orient_simps)
    then show ?thesis by (simp add: RChar lit_matcher_def char del: mres.simps in_order.simps)
  next
    case (RConcat parts)
    let ?ps = "if fwd then parts else rev parts"
    from assms(1) RConcat have "list_all2 (\<lambda>q c. (case orient fwd q of RChar c \<Rightarrow> Some c | _ \<Rightarrow> None) = Some c) ?ps cs"
      by (cases fwd) (simp_all add: orient_simps those_map_Some list.rel_map del: map_map)
    then have ps: "?ps = map RChar cs"
      by (rule list_all2_induct) (auto simp: orient_char split: re_node.splits)
    have "mres upper input cx fwd p = in_order (map (\<lambda>p. mres upper input cx fwd p) ?ps)"
      by (simp add: RConcat Let_def rev_map)
    then show ?thesis by (simp add: ps lit_matcher_def comp_def char del: mres.simps)
  qed (use assms in \<open>simp_all add: orient_simps\<close>)
qed

lemma trie_matcher:
  assumes "trie_literals (cx_ci cx) (map (orient fwd) options) = Some lits"
  shows "lits \<noteq> []" "any_of (map (\<lambda>p. mres upper input cx fwd p) options) = lits_matcher input fwd lits"
proof -
  from assms have ci: "\<not> cx_ci cx" and len: "4 \<le> length options"
    and lits: "those (map literalCodes (map (orient fwd) options)) = Some lits"
    by (auto simp: trie_literals_def split: if_splits option.splits)
  then have all: "list_all2 (\<lambda>p cs. literalCodes (orient fwd p) = Some cs) options lits"
    unfolding those_map_Some by (simp add: list.rel_map)
  then show "lits \<noteq> []" using len by auto
  from all have "map (\<lambda>p. mres upper input cx fwd p) options = map (lit_matcher input fwd) lits"
    by (induction rule: list_all2_induct) (auto simp: mres_literal [OF _ ci] simp del: mres.simps)
  then show "any_of (map (\<lambda>p. mres upper input cx fwd p) options) = lits_matcher input fwd lits"
    by (simp add: lits_matcher_def del: mres.simps)
qed

lemma star_seg_orient [simp]: "star_seg (orient fwd n) g Q = star_seg n g Q"
  by (intro ext) (simp add: star_seg_def clear_code_def)

lemma plus_seg_orient [simp]: "plus_seg (orient fwd n) g Q = plus_seg n g Q"
  by (intro ext) (simp add: plus_seg_def clear_code_def)

lemma repeat_seg_orient [simp]: "repeat_seg (orient fwd n) mn mx g Q = repeat_seg n mn mx g Q"
  by (simp add: repeat_seg_def split: option.splits)

lemma cap_indices_bound: "wf_node k n \<Longrightarrow> i \<in> cap_indices n \<Longrightarrow> i < k"
  by (induction n rule: cap_indices.induct) (auto simp: list_all_iff split: option.splits)

section \<open>All nodes\<close>

lemma implements_node:
  assumes val: "valid_units (mc_input M)"
  shows "wf_node (mc_groups M) n \<Longrightarrow> backrefs n \<inter> Z = {} \<Longrightarrow>
    implements M Z fwd cx (node_seg (mc_upper M) (orient fwd n)) (mres (mc_upper M) (mc_input M) cx fwd n)"
proof (induction n arbitrary: Z fwd cx)
  case (RConcat parts)
  let ?ps = "if fwd then parts else rev parts"
  have sub: "implements M Z fwd cx (node_seg (mc_upper M) (orient fwd p)) (mres (mc_upper M) (mc_input M) cx fwd p)"
    "okay M Z fwd (canMatchEmpty p) (mres (mc_upper M) (mc_input M) cx fwd p)" if "p \<in> set parts" for p
    using RConcat that by (auto simp: list_all_iff intro!: RConcat.IH safe_mres [OF val])
  have "implements M Z fwd cx (seg_all (map (\<lambda>p. node_seg (mc_upper M) (orient fwd p)) ?ps))
      (in_order (map (\<lambda>p. mres (mc_upper M) (mc_input M) cx fwd p) ?ps))"
  proof (rule implements_all)
    show "list_all2 (implements M Z fwd cx) (map (\<lambda>p. node_seg (mc_upper M) (orient fwd p)) ?ps)
        (map (\<lambda>p. mres (mc_upper M) (mc_input M) cx fwd p) ?ps)"
      using sub(1) by (auto simp: list.rel_map list.rel_refl_strong)
    show "\<forall>F \<in> set (map (\<lambda>p. mres (mc_upper M) (mc_input M) cx fwd p) ?ps). \<exists>e. okay M Z fwd e F"
    proof
      fix F assume "F \<in> set (map (\<lambda>p. mres (mc_upper M) (mc_input M) cx fwd p) ?ps)"
      then obtain p where "p \<in> set parts" "F = mres (mc_upper M) (mc_input M) cx fwd p"
        by (auto split: if_splits)
      then show "\<exists>e. okay M Z fwd e F" using sub(2) by blast
    qed
  qed
  then show ?case by (auto simp: orient_simps Let_def comp_def rev_map split: if_splits)
next
  case (RAlt options)
  let ?F = "any_of (map (\<lambda>p. mres (mc_upper M) (mc_input M) cx fwd p) options)"
  have sub: "implements M Z fwd cx (node_seg (mc_upper M) (orient fwd p)) (mres (mc_upper M) (mc_input M) cx fwd p)"
    if "p \<in> set options" for p
    using RAlt that by (auto simp: list_all_iff intro!: RAlt.IH)
  have alt: "implements M Z fwd cx (alt_seg (map (\<lambda>p. node_seg (mc_upper M) (orient fwd p)) options)) ?F"
    by (rule implements_alt) (use sub RAlt.prems in \<open>auto simp: list.rel_map list.rel_refl_strong\<close>)
  show ?case
  proof (rule implementsI)
    fix s x assume x: "node_seg (mc_upper M) (orient fwd (RAlt options)) s x"
      and st: "st_rev s = (\<not> fwd)" "ctx_of s = cx" "placed M s x"
    show "runs M Z fwd (st_pc s) (st_pc s + length (sg_code x)) (st_slot s)
        (mres (mc_upper M) (mc_input M) cx fwd (RAlt options))"
    proof (cases "trie_literals (st_ci s) (map (orient fwd) options)")
      case None
      then have "alt_seg (map (\<lambda>p. node_seg (mc_upper M) (orient fwd p)) options) s x"
        using x by (simp add: orient_simps comp_def)
      from implementsD [OF alt this st] show ?thesis by simp
    next
      case (Some lits)
      then have "lit_seg lits s x" using x by (simp add: orient_simps)
      moreover have "trie_literals (cx_ci cx) (map (orient fwd) options) = Some lits"
        using Some ctx_of_sel(1) [OF st(2)] by simp
      note trie = trie_matcher [OF this]
      ultimately show ?thesis using implementsD [OF implements_lits [OF val trie(1)] _ st] trie(2) by simp
    qed
  qed
next
  case (RStar n g)
  then show ?case using cap_indices_bound [of "mc_groups M" n]
    by (auto simp: orient_simps intro!: implements_star safe_mres [OF val])
next
  case (RPlus n g)
  then show ?case using cap_indices_bound [of "mc_groups M" n]
    by (auto simp: orient_simps simp del: Let_def intro!: implements_plus safe_mres [OF val])
next
  case (ROpt n g)
  then show ?case by (auto simp: orient_simps intro!: implements_opt)
next
  case (RRepeat n mn mx g)
  then show ?case using cap_indices_bound [of "mc_groups M" n]
    by (auto simp: orient_simps intro!: implements_repeat safe_mres [OF val])
next
  case (RGroup n cap name)
  show ?case
  proof (cases cap)
    case None
    then show ?thesis using RGroup by (simp add: orient_simps group_seg_def [abs_def])
  next
    case (Some i)
    then show ?thesis using RGroup by (auto simp: orient_simps intro!: implements_capture)
  qed
next
  case (RModGroup add remove n)
  then show ?case by (auto simp: orient_simps intro!: implements_scoped)
next
  case (RLookaround n negated behind)
  then have "wf_node (mc_groups M) n" "backrefs n \<inter> Z = {}" by auto
  then show ?case unfolding orient_simps mres.simps by (intro implements_look [OF safe_mres [OF val]])
next
  case RBol
  show ?case unfolding orient_simps mres.simps
    by (rule implements_assertion [OF _ _ assertion_specs(1)]) (auto simp: ctx_of_def)
next
  case REol
  show ?case unfolding orient_simps mres.simps
    by (rule implements_assertion [OF _ _ assertion_specs(2)]) (auto simp: ctx_of_def)
next
  case (RWordBoundary negated)
  show ?case unfolding orient_simps mres.simps
    by (rule implements_assertion [OF _ _ assertion_specs(3)]) auto
next
  case (RBackref i)
  then show ?case unfolding orient_simps mres.simps by (intro implements_backref) auto
next
  case (RChar c)
  then show ?case unfolding orient_simps mres.simps by (intro implements_char [OF val]) simp
next
  case (RClass rs neg)
  then show ?case unfolding orient_simps mres.simps by (intro implements_class [OF val]) simp
next
  case (RCpClass rs neg)
  then show ?case unfolding orient_simps mres.simps by (intro implements_cpclass) simp
next
  case RAny
  show ?case unfolding orient_simps mres.simps by (rule implements_any [OF val])
next
  case RUdot
  show ?case unfolding orient_simps mres.simps by (rule implements_udot [OF val])
qed

end
