(* ===== verification/Re_Drain.thy ===== *)
theory Re_Drain
  imports Re_Node_Correct
begin

text \<open>
  Draining the queue: every lookaround in the queue ends up pointing at code that implements its
  body, and nothing that was emitted before is disturbed. With it, the program of
  \<^verbatim>\<open>compileParsed\<close> implements the pattern from its first instruction.
\<close>

section \<open>The queue\<close>

definition awaiting :: "nat \<Rightarrow> nat \<Rightarrow> instr list \<Rightarrow> pending_sub \<Rightarrow> bool" where
  "awaiting k l is sub \<longleftrightarrow>
     l \<le> ps_patchPc sub \<and> ps_patchPc sub < l + length is \<and>
     fst (is ! (ps_patchPc sub - l)) = OP_LOOKAROUND \<and> wf_node k (sub_body sub)"

definition queued :: "nat \<Rightarrow> nat \<Rightarrow> segment \<Rightarrow> bool" where
  "queued k l x \<longleftrightarrow>
     (\<forall>sub \<in> set (sg_subs x). awaiting k l (sg_code x) sub) \<and> distinct (map ps_patchPc (sg_subs x))"

lemma awaiting_left: "awaiting k l is sub \<Longrightarrow> awaiting k l (is @ js) sub"
  by (auto simp: awaiting_def nth_append)

lemma awaiting_right: "awaiting k (l + length is) js sub \<Longrightarrow> awaiting k l (is @ js) sub"
  by (auto simp: awaiting_def nth_append)

interpretation queue: segment_property "queued k" for k
proof unfold_locales
  fix l x y
  assume x: "queued k l x" and y: "queued k (l + length (sg_code x)) y"
  have "ps_patchPc p < ps_patchPc q" if "p \<in> set (sg_subs x)" "q \<in> set (sg_subs y)" for p q
    using x y that unfolding queued_def awaiting_def by fastforce
  then have "ps_patchPc ` set (sg_subs x) \<inter> ps_patchPc ` set (sg_subs y) = {}" by fastforce
  then show "queued k l (seg_app x y)"
    using x y by (auto simp: queued_def intro: awaiting_left awaiting_right)
qed (simp_all add: queued_def)

lemma all_caps_reverseNode [simp]: "all_caps (reverseNode n) = all_caps n"
  by (induction n) auto

lemma backrefs_reverseNode [simp]: "backrefs (reverseNode n) = backrefs n"
  by (induction n) auto

lemma wf_node_reverseNode [simp]: "wf_node k (reverseNode n) = wf_node k n"
  by (induction n) (auto simp: list_all_iff split: option.splits)

lemma wf_node_orient [simp]: "wf_node k (orient fwd n) = wf_node k n"
  by (simp add: orient_def)

lemma wf_node_children: "wf_node k n \<Longrightarrow> m \<in> children n \<Longrightarrow> wf_node k m"
  by (cases n) (auto simp: list_all_iff)

lemma node_seg_queued: "wf_node k n \<Longrightarrow> node_seg upper n s x \<Longrightarrow> queued k (st_pc s) x"
proof (rule queue.J_node [where P = "wf_node k"])
  fix s :: site and m neg behind
  assume "wf_node k (RLookaround m neg behind)"
  then show "queued k (st_pc s) (look_seg m neg behind s)"
    by (simp add: queued_def awaiting_def look_seg_def sub_body_def orient_def)
qed (auto simp: queued_def dest: wf_node_children)

section \<open>Emitters with a consistent queue\<close>

definition queue_ok :: "nat \<Rightarrow> emitter \<Rightarrow> bool" where
  "queue_ok k em \<longleftrightarrow>
     (\<forall>sub \<in> set (pendingSubs em). awaiting k 0 (instrs em) sub) \<and>
     distinct (map ps_patchPc (pendingSubs em)) \<and> scratchBase em = 2 * k"

text \<open>The final program contains the code of \<open>em\<close>; only queued lookarounds may still change.\<close>

definition completes :: "emitter \<Rightarrow> emitter \<Rightarrow> bool" where
  "completes em emF \<longleftrightarrow>
     length (instrs em) \<le> length (instrs emF) \<and>
     (\<forall>pc < length (instrs em). same_instr (instrs emF ! pc) (instrs em ! pc) \<and>
        (pc \<notin> ps_patchPc ` set (pendingSubs em) \<longrightarrow> instrs emF ! pc = instrs em ! pc)) \<and>
     prefix (em_classTable em) (em_classTable emF) \<and> scratchCount em \<le> scratchCount emF \<and>
     scratchBase em = scratchBase emF \<and> em_unicode em = em_unicode emF"

definition machine_of :: "(nat \<Rightarrow> nat list) \<Rightarrow> js_string \<Rightarrow> nat \<Rightarrow> emitter \<Rightarrow> machine" where
  "machine_of upper input k em =
     \<lparr>mc_code = instrs em, mc_tbl = em_classTable em, mc_input = input, mc_upper = upper,
      mc_un = em_unicode em, mc_groups = k, mc_slots = 2 * k + scratchCount em\<rparr>"

lemma machine_of_simps [simp]:
  "mc_code (machine_of upper input k em) = instrs em" "mc_tbl (machine_of upper input k em) = em_classTable em"
  "mc_input (machine_of upper input k em) = input" "mc_upper (machine_of upper input k em) = upper"
  "mc_un (machine_of upper input k em) = em_unicode em" "mc_groups (machine_of upper input k em) = k"
  "mc_slots (machine_of upper input k em) = 2 * k + scratchCount em"
  by (simp_all add: machine_of_def)

lemma same_instr_refl [simp]: "same_instr i i"
  by (simp add: same_instr_def)

text \<open>One step of the loop, as the emitter that the next iteration sees.\<close>

lemma drain_step:
  assumes q: "queue_ok k em" and sub: "pendingSubs em = sub # rest"
    and run: "compileNode upper (ps_node sub)
      (enter_sub sub (patchA (ps_patchPc sub) (here em) (em\<lparr>pendingSubs := rest\<rparr>))) = Inr em2"
  obtains x fl where "node_seg upper (ps_node sub)
      \<lparr>st_pc = here em, st_tbl = em_classTable em, st_ci = ps_caseInsensitive sub, st_da = ps_dotAll sub,
       st_ml = ps_multiline sub, st_un = em_unicode em, st_rev = ps_reversed sub,
       st_slot = 2 * k + scratchCount em\<rparr> x"
    "instrs (leave_sub em (emit OP_MATCH 0 0 em2)) =
       (instrs em)[ps_patchPc sub := (OP_LOOKAROUND, here em, fl)] @ sg_code x @ [(OP_MATCH, 0, 0)]"
    "same_instr (OP_LOOKAROUND, here em, fl) (instrs em ! ps_patchPc sub)"
    "em_classTable (leave_sub em (emit OP_MATCH 0 0 em2)) = em_classTable em @ sg_tbl x"
    "pendingSubs (leave_sub em (emit OP_MATCH 0 0 em2)) = rest @ sg_subs x"
    "scratchCount (leave_sub em (emit OP_MATCH 0 0 em2)) = scratchCount em + sg_slots x"
    "scratchBase (leave_sub em (emit OP_MATCH 0 0 em2)) = 2 * k"
    "em_unicode (leave_sub em (emit OP_MATCH 0 0 em2)) = em_unicode em"
proof -
  have aw: "awaiting k 0 (instrs em) sub" and base: "scratchBase em = 2 * k"
    using q sub by (auto simp: queue_ok_def)
  obtain x where x: "em2 = extend (enter_sub sub (patchA (ps_patchPc sub) (here em) (em\<lparr>pendingSubs := rest\<rparr>))) x"
    "node_seg upper (ps_node sub)
       (site_of (enter_sub sub (patchA (ps_patchPc sub) (here em) (em\<lparr>pendingSubs := rest\<rparr>)))) x"
    by (rule emitsE [OF emits_compileNode run])
  obtain a fl where at: "instrs em ! ps_patchPc sub = (OP_LOOKAROUND, a, fl)"
    using aw by (cases "instrs em ! ps_patchPc sub") (auto simp: awaiting_def)
  show thesis
  proof (rule that [of x fl])
    show "same_instr (OP_LOOKAROUND, here em, fl) (instrs em ! ps_patchPc sub)" by (simp add: at same_instr_def)
  qed (use x at base in \<open>simp_all add: site_of_def enter_sub_def leave_sub_def patchA_def emit_def here_def\<close>)
qed

lemma completes_trans_step:
  assumes len: "length (instrs em) \<le> length (instrs em1)"
    and old: "\<And>pc. pc < length (instrs em) \<Longrightarrow> pc \<noteq> p \<Longrightarrow> instrs em1 ! pc = instrs em ! pc"
    and at: "p < length (instrs em) \<Longrightarrow> same_instr (instrs em1 ! p) (instrs em ! p)"
    and subs: "\<And>pc. pc < length (instrs em) \<Longrightarrow> pc \<in> ps_patchPc ` set (pendingSubs em1) \<Longrightarrow> pc \<in> ps_patchPc ` set (pendingSubs em)"
    and p: "p \<in> ps_patchPc ` set (pendingSubs em)" "p \<notin> ps_patchPc ` set (pendingSubs em1)"
    and rest: "prefix (em_classTable em) (em_classTable em1)" "scratchCount em \<le> scratchCount em1"
      "scratchBase em = scratchBase em1" "em_unicode em = em_unicode em1"
    and fin: "completes em1 emF"
  shows "completes em emF"
proof -
  have "same_instr (instrs emF ! pc) (instrs em ! pc) \<and>
      (pc \<notin> ps_patchPc ` set (pendingSubs em) \<longrightarrow> instrs emF ! pc = instrs em ! pc)" if pc: "pc < length (instrs em)" for pc
  proof (cases "pc = p")
    case True
    then have "instrs emF ! p = instrs em1 ! p" using fin p pc len by (auto simp: completes_def)
    with True at pc p show ?thesis by auto
  next
    case False
    have "pc < length (instrs em1)" using pc len by simp
    with fin have "same_instr (instrs emF ! pc) (instrs em1 ! pc)"
      "pc \<notin> ps_patchPc ` set (pendingSubs em1) \<Longrightarrow> instrs emF ! pc = instrs em1 ! pc"
      by (simp_all add: completes_def)
    then show ?thesis using old [OF pc False] subs [OF pc] by auto
  qed
  moreover have "prefix (em_classTable em) (em_classTable emF)"
    using rest(1) fin unfolding completes_def by (metis prefix_order.trans)
  ultimately show ?thesis using fin len rest(2-4) unfolding completes_def by (auto dest: order_trans)
qed

lemma fits_middle:
  assumes "completes em emF" "instrs em = pre @ is @ post"
  shows "fits (machine_of upper input k emF) (length pre) is"
  unfolding fits_def
proof (intro allI impI)
  fix j assume "j < length is"
  with assms(2) have "length pre + j < length (instrs em)" "instrs em ! (length pre + j) = is ! j"
    by (auto simp: nth_append)
  with assms(1) show "length pre + j < length (mc_code (machine_of upper input k emF)) \<and>
      same_instr (mc_code (machine_of upper input k emF) ! (length pre + j)) (is ! j)"
    by (auto simp: completes_def)
qed

lemma orient_orient [simp]: "orient fwd (orient fwd n) = n"
  by (simp add: orient_def reverseNode_reverseNode)

lemma awaiting_update:
  "awaiting k 0 is sub \<Longrightarrow> ps_patchPc sub \<noteq> p \<Longrightarrow> awaiting k 0 (is[p := i] @ js) sub"
  by (auto simp: awaiting_def nth_append)

lemma drain_correct:
  assumes val: "valid_units input"
  shows "drainPendingSubs upper em = Inr emF \<Longrightarrow> queue_ok k em \<Longrightarrow>
    completes em emF \<and>
    (\<forall>sub \<in> set (pendingSubs em). resolved (machine_of upper input k emF) (2 * k + scratchCount em) sub)"
proof (induction upper em rule: drainPendingSubs.induct)
  case (1 upper em)
  show ?case
  proof (cases "pendingSubs em")
    case Nil
    then have "emF = em" using "1.prems"(1) by (simp add: drainPendingSubs.simps)
    then show ?thesis by (simp add: completes_def Nil)
  next
    case (Cons sub rest)
    define em1 where "em1 = enter_sub sub (patchA (ps_patchPc sub) (here em) (em\<lparr>pendingSubs := rest\<rparr>))"
    from "1.prems"(1) Cons obtain em2 where em2: "compileNode upper (ps_node sub) em1 = Inr em2"
      and fin: "drainPendingSubs upper (leave_sub em (emit OP_MATCH 0 0 em2)) = Inr emF"
      by (auto simp: drainPendingSubs.simps [of upper em] bindE_eq_Inr em1_def)
    define em3 where "em3 = leave_sub em (emit OP_MATCH 0 0 em2)"
    define s where "s = \<lparr>st_pc = here em, st_tbl = em_classTable em, st_ci = ps_caseInsensitive sub,
      st_da = ps_dotAll sub, st_ml = ps_multiline sub, st_un = em_unicode em, st_rev = ps_reversed sub,
      st_slot = 2 * k + scratchCount em\<rparr>"
    obtain x fl where x: "node_seg upper (ps_node sub) s x"
      and code: "instrs em3 = (instrs em)[ps_patchPc sub := (OP_LOOKAROUND, here em, fl)] @ sg_code x @ [(OP_MATCH, 0, 0)]"
      and at: "same_instr (OP_LOOKAROUND, here em, fl) (instrs em ! ps_patchPc sub)"
      and e3: "em_classTable em3 = em_classTable em @ sg_tbl x" "pendingSubs em3 = rest @ sg_subs x"
        "scratchCount em3 = scratchCount em + sg_slots x" "scratchBase em3 = 2 * k" "em_unicode em3 = em_unicode em"
      using drain_step [OF "1.prems"(2) Cons em2 [unfolded em1_def]] unfolding em3_def s_def by blast
    have q: "\<And>p. p \<in> set (sub # rest) \<Longrightarrow> awaiting k 0 (instrs em) p" "distinct (map ps_patchPc (sub # rest))"
      using "1.prems"(2) Cons by (auto simp: queue_ok_def)
    have p: "ps_patchPc sub < length (instrs em)" using q(1) [of sub] by (simp add: awaiting_def)
    have wf: "wf_node k (ps_node sub)" using q(1) [of sub] by (simp add: awaiting_def sub_body_def)
    have qx: "queued k (here em) x" using node_seg_queued [OF wf x] by (simp add: s_def)
    have len3: "length (instrs em3) = here em + length (sg_code x) + 1" by (simp add: code here_def)
    have new: "here em \<le> ps_patchPc r" if "r \<in> set (sg_subs x)" for r
      using qx that by (simp add: queued_def awaiting_def)
    have old: "ps_patchPc r < here em \<and> ps_patchPc r \<noteq> ps_patchPc sub" if "r \<in> set rest" for r
      using q that by (auto simp: awaiting_def here_def image_iff)
    have "queue_ok k em3"
      unfolding queue_ok_def e3
    proof (intro conjI ballI)
      fix r assume "r \<in> set (rest @ sg_subs x)"
      then consider "r \<in> set rest" | "r \<in> set (sg_subs x)" by auto
      then show "awaiting k 0 (instrs em3) r"
      proof cases
        case 1
        then show ?thesis unfolding code using q(1) [of r] old [OF 1] by (intro awaiting_update) auto
      next
        case 2
        then have "awaiting k (0 + length ((instrs em)[ps_patchPc sub := (OP_LOOKAROUND, here em, fl)]))
            (sg_code x @ [(OP_MATCH, 0, 0)]) r"
          using qx by (auto simp: queued_def here_def intro: awaiting_left)
        then show ?thesis unfolding code by (rule awaiting_right)
      qed
    next
      have "ps_patchPc ` set rest \<inter> ps_patchPc ` set (sg_subs x) = {}" using new old by fastforce
      then show "distinct (map ps_patchPc (rest @ sg_subs x))" using q(2) qx by (auto simp: queued_def)
    qed simp
    from "1.IH" [OF Cons refl em2 [unfolded em1_def], folded em3_def, OF fin [folded em3_def] this]
    have c3: "completes em3 emF"
      and r3: "\<And>r. r \<in> set (rest @ sg_subs x) \<Longrightarrow> resolved (machine_of upper input k emF) (2 * k + scratchCount em3) r"
      by (auto simp: e3)
    let ?M = "machine_of upper input k emF"
    have notin: "ps_patchPc sub \<notin> ps_patchPc ` set (pendingSubs em3)"
      using q(2) new p by (fastforce simp: e3 here_def)
    have "completes em emF"
    proof (rule completes_trans_step [OF _ _ _ _ _ notin _ _ _ _ c3])
      show "\<And>pc. pc < length (instrs em) \<Longrightarrow> pc \<noteq> ps_patchPc sub \<Longrightarrow> instrs em3 ! pc = instrs em ! pc"
        by (simp add: code nth_append)
      show "\<And>pc. pc < length (instrs em) \<Longrightarrow> pc \<in> ps_patchPc ` set (pendingSubs em3) \<Longrightarrow>
          pc \<in> ps_patchPc ` set (pendingSubs em)"
        using new by (fastforce simp: e3 Cons here_def)
      show "scratchBase em = scratchBase em3" using "1.prems"(2) by (simp add: queue_ok_def e3)
    qed (use p at in \<open>auto simp: code nth_append e3 Cons\<close>)
    moreover have "resolved ?M (2 * k + scratchCount em) sub"
      unfolding resolved_def
    proof (intro allI impI)
      fix Z assume Z: "backrefs (sub_body sub) \<inter> Z = {}"
      let ?fwd = "\<not> ps_reversed sub"
      have "instrs em3 ! ps_patchPc sub = (OP_LOOKAROUND, here em, fl)" using p by (simp add: code nth_append)
      then have i1: "instr_at ?M (ps_patchPc sub) (OP_LOOKAROUND, here em, fl)"
        using c3 notin p len3 by (auto simp: completes_def instr_at_def here_def)
      have f: "fits ?M (here em) (sg_code x @ [(OP_MATCH, 0, 0)])"
        using fits_middle [OF c3, of "(instrs em)[ps_patchPc sub := (OP_LOOKAROUND, here em, fl)]"
            "sg_code x @ [(OP_MATCH, 0, 0)]" "[]" upper input k] by (simp add: code here_def)
      then have i2: "instr_at ?M (here em + length (sg_code x)) (OP_MATCH, 0, 0)"
        by (auto simp: fits_append intro: fits_instr)
      have "placed ?M s x"
        using c3 f r3 by (auto simp: placed_def s_def completes_def e3 fits_append add.assoc)
      moreover have "node_seg (mc_upper ?M) (orient ?fwd (sub_body sub)) s x" using x by (simp add: sub_body_def)
      moreover have "ctx_of s = sub_ctx ?M sub"
        using c3 by (simp add: ctx_of_def sub_ctx_def s_def completes_def e3)
      ultimately have "runs ?M Z ?fwd (here em) (here em + length (sg_code x)) (2 * k + scratchCount em)
          (mres (mc_upper ?M) (mc_input ?M) (sub_ctx ?M sub) ?fwd (sub_body sub))"
        using implementsD [OF implements_node [of ?M "sub_body sub" Z ?fwd "sub_ctx ?M sub"], of s x] val wf Z
        by (simp add: s_def sub_body_def)
      with i1 i2 show "\<exists>entry fl e y z. instr_at ?M (ps_patchPc sub) (OP_LOOKAROUND, entry, fl) \<and>
          runs ?M Z ?fwd entry e (2 * k + scratchCount em)
            (mres (mc_upper ?M) (mc_input ?M) (sub_ctx ?M sub) ?fwd (sub_body sub)) \<and>
          instr_at ?M e (OP_MATCH, y, z)" by blast
    qed
    moreover have "resolved ?M (2 * k + scratchCount em) r" if "r \<in> set rest" for r
      using r3 [of r] that by (auto simp: e3 elim: resolved_mono)
    ultimately show ?thesis by (simp add: Cons)
  qed
qed

end
