(* ===== verification/Re_Linear_Correct.thy ===== *)
theory Re_Linear_Correct
  imports Re_Backtrack
begin

text \<open>
  The linear matcher answers what backtracking answers. A linear-safe program is oblivious to its
  captures: whether a state can still match at a position, and how high its tree is, does not depend
  on the capture array. So a second arrival at an admitted state can be dropped. The closure walk is
  related to the trees by induction on their height; the lists are related position by position.
\<close>

section \<open>Linear-safe programs are oblivious to captures\<close>

lemma isLinearSafe_nth:
  "isLinearSafe prog \<Longrightarrow> pc * 3 < length prog \<Longrightarrow> prog ! (pc * 3) \<in> set (map op_code LINEAR_OPS)"
proof (induction prog arbitrary: pc rule: isLinearSafe.induct)
  case (2 c rest)
  show ?case
  proof (cases pc)
    case (Suc p)
    then have "(c # rest) ! (pc * 3) = drop 2 rest ! (p * 3)" and "p * 3 < length (drop 2 rest)"
      using "2.prems"(2) by auto
    with "2.IH" "2.prems"(1) show ?thesis by simp
  qed (use "2.prems" in simp)
qed simp

lemma linear_fetch:
  assumes "isLinearSafe prog" "fetch prog pc = Some (x, a, b)"
  shows "x \<in> set LINEAR_OPS"
proof -
  have lt: "pc * 3 + 2 < length prog" and x: "op_of (prog ! (pc * 3)) = Some x"
    using assms(2) by (auto simp: fetch_def INSTR_WIDTH_def split: if_splits)
  have "prog ! (pc * 3) \<in> set (map op_code LINEAR_OPS)"
    using isLinearSafe_nth [OF assms(1), of pc] lt by simp
  with x show ?thesis by auto
qed

lemma fetch_less: "fetch prog pc = Some i \<Longrightarrow> pc < n_instrs prog"
  by (auto simp: fetch_def n_instrs_def INSTR_WIDTH_def split: if_splits)

lemma bt_fetch: "bt prog tbl input fwd pc sp c h r \<Longrightarrow> \<exists>i. fetch prog pc = Some i"
proof (cases "fetch prog pc")
  case None
  then have "vm_action prog tbl input fwd pc sp c = Halt" by (simp add: vm_action_def)
  moreover assume "bt prog tbl input fwd pc sp c h r"
  then have "vm_action prog tbl input fwd pc sp c \<noteq> Halt" by cases simp_all
  ultimately show ?thesis by simp
qed blast

lemma bt_less: "bt prog tbl input fwd pc sp c h r \<Longrightarrow> pc < n_instrs prog"
  by (blast dest: bt_fetch fetch_less)

text \<open>The shape of an action, without its captures.\<close>

fun same_shape :: "vm_action \<Rightarrow> vm_action \<Rightarrow> bool" where
  "same_shape (Advance pc sp c) a' = (\<exists>c'. a' = Advance pc sp c')"
| "same_shape (Look _ _ _) a' = False"
| "same_shape Stuck a' = False"
| "same_shape a a' = (a' = a)"

lemma vm_action_oblivious:
  assumes "isLinearSafe prog"
  shows "same_shape (vm_action prog tbl input fwd pc sp c) (vm_action prog tbl input fwd pc sp c')"
proof (cases "fetch prog pc")
  case None
  then show ?thesis by (simp add: vm_action_def)
next
  case (Some i)
  obtain x a b where i: "i = (x, a, b)" by (cases i)
  have mem: "x \<in> set LINEAR_OPS" using linear_fetch assms Some i by blast
  have f: "fetch prog pc = Some (x, a, b)" by (simp add: Some i)
  show ?thesis
    by (cases x; use mem f in \<open>simp add: LINEAR_OPS_def vm_action_ops
        del: assertionHolds.simps unitMatches.simps split: option.split\<close>)
qed

lemma bt_oblivious:
  assumes lin: "isLinearSafe prog"
  shows "bt prog tbl input fwd pc sp c h r \<Longrightarrow>
    \<exists>r'. bt prog tbl input fwd pc sp c' h r' \<and> (r' = None \<longleftrightarrow> r = None)"
proof (induction arbitrary: c' rule: bt.induct)
  case (bt_back fwd pc sp c)
  with vm_action_oblivious [OF lin, of tbl input fwd pc sp c c'] show ?case
    by (auto intro!: bt.bt_back)
next
  case (bt_accept fwd pc sp c)
  with vm_action_oblivious [OF lin, of tbl input fwd pc sp c c']
  have "bt prog tbl input fwd pc sp c' 0 (Some c')" by (auto intro!: bt.bt_accept)
  then show ?case by auto
next
  case (bt_advance fwd pc sp c pc' sp' c1 h r)
  with vm_action_oblivious [OF lin, of tbl input fwd pc sp c c'] obtain c1' where
    "vm_action prog tbl input fwd pc sp c' = Advance pc' sp' c1'" by auto
  with bt_advance.IH [of c1'] show ?case by (blast intro: bt.bt_advance)
next
  case (bt_fork fwd pc sp c a b h1 r1 h2 r2)
  with vm_action_oblivious [OF lin, of tbl input fwd pc sp c c'] have
    fork: "vm_action prog tbl input fwd pc sp c' = Fork a b" by auto
  obtain r1' r2' where r: "bt prog tbl input fwd a sp c' h1 r1'" "r1' = None \<longleftrightarrow> r1 = None"
    "bt prog tbl input fwd b sp c' h2 r2'" "r2' = None \<longleftrightarrow> r2 = None"
    using bt_fork.IH(1) [of c'] bt_fork.IH(2) [of c'] by metis
  from bt.bt_fork [OF fork r(1,3)] r(2,4) show ?case
    by (intro exI [of _ "orelse r1' r2'"]) simp
next
  case (bt_look_go fwd pc sp c entry behind negated h1 r1 h2 r2)
  with vm_action_oblivious [OF lin, of tbl input fwd pc sp c c'] show ?case
    by auto
next
  case (bt_look_fail fwd pc sp c entry behind negated h1 r1)
  with vm_action_oblivious [OF lin, of tbl input fwd pc sp c c'] show ?case
    by auto
qed

section \<open>Threads and their trees\<close>

text \<open>
  A state below \<open>n\<close> is about to execute; a state \<open>n + pc\<close> consumes the trail unit at \<open>sp\<close> and
  resumes at \<open>pc + 1\<close>.
\<close>

definition tree ::
  "nat list \<Rightarrow> nat list \<Rightarrow> js_string \<Rightarrow> nat \<Rightarrow> nat \<Rightarrow> caps \<Rightarrow> nat \<Rightarrow> caps option \<Rightarrow> bool"
where
  "tree prog tbl input sp s c h r \<longleftrightarrow>
     (if s < n_instrs prog then bt prog tbl input True s sp c h r
      else s < seen_size prog \<and> sp < length input \<and>
           bt prog tbl input True (s - n_instrs prog + 1) (sp + 1) c h r)"

definition tval :: "nat list \<Rightarrow> nat list \<Rightarrow> js_string \<Rightarrow> nat \<Rightarrow> thread \<Rightarrow> caps option" where
  "tval prog tbl input sp t = (THE r. \<exists>h. tree prog tbl input sp (fst t) (snd t) h r)"

lemma tree_determ:
  "tree prog tbl input sp s c h r \<Longrightarrow> tree prog tbl input sp s c h' r' \<Longrightarrow> h = h' \<and> r = r'"
  by (auto simp: tree_def split: if_splits dest: bt_determ)

lemma tree_oblivious:
  assumes "isLinearSafe prog" "tree prog tbl input sp s c h r"
  shows "\<exists>r'. tree prog tbl input sp s c' h r' \<and> (r' = None \<longleftrightarrow> r = None)"
  using assms bt_oblivious [OF assms(1)] by (auto simp: tree_def split: if_splits)

lemma tree_oblivious_iff:
  assumes "isLinearSafe prog" "tree prog tbl input sp s c h r" "tree prog tbl input sp s c' h' r'"
  shows "h' = h" "r' = None \<longleftrightarrow> r = None"
  using tree_oblivious [OF assms(1,2), of c'] tree_determ [OF assms(3)] by blast+

lemma tval_tree: "tree prog tbl input sp s c h r \<Longrightarrow> tval prog tbl input sp (s, c) = r"
  unfolding tval_def by (rule the_equality) (auto dest: tree_determ)

lemma n_le_seen: "2 * n_instrs prog \<le> seen_size prog"
  by (auto simp: n_instrs_def seen_size_def INSTR_WIDTH_def)

lemma tree_seen: "tree prog tbl input sp s c h r \<Longrightarrow> s < seen_size prog"
  using n_le_seen [of prog] by (auto simp: tree_def split: if_splits)

lemma tree_bt: "bt prog tbl input True s sp c h r \<Longrightarrow> tree prog tbl input sp s c h r"
  by (simp add: tree_def bt_less)

text \<open>An epsilon instruction splits a tree into the trees of its successors.\<close>

lemma eps_succs_tree:
  assumes lin: "isLinearSafe prog" and t: "bt prog tbl input True s sp c h r"
    and succs: "eps_succs prog input sp (s, c) = Some ts"
  shows "\<exists>rs. list_all2 (\<lambda>t r. \<exists>h' < h. bt prog tbl input True (fst t) sp (snd t) h' r) ts rs \<and>
     r = first_some (\<lambda>x. x) rs"
proof -
  obtain x a b where f: "fetch prog s = Some (x, a, b)"
    using bt_fetch [OF t] by (metis prod_cases3)
  from t show ?thesis
  proof cases
    case bt_back
    then have "ts = []"
      using succs f by (auto simp: eps_succs_def vm_action_def simp del: assertionHolds.simps unitMatches.simps
          split: ReOp.splits if_splits)
    with bt_back show ?thesis by simp
  next
    case bt_accept
    then show ?thesis
      using succs f by (auto simp: eps_succs_def vm_action_def simp del: assertionHolds.simps unitMatches.simps
          split: ReOp.splits if_splits option.splits)
  next
    case (bt_advance pc' sp' c' h')
    have "ts = [(pc', c')] \<and> sp' = sp"
      using succs f bt_advance(2)
      by (auto simp: eps_succs_def vm_action_def simp del: assertionHolds.simps unitMatches.simps
          split: ReOp.splits if_splits)
    with bt_advance show ?thesis by (intro exI [of _ "[r]"]) (auto split: option.splits)
  next
    case (bt_fork a' b' h1 r1 h2 r2)
    have "ts = [(a', c), (b', c)]"
      using succs f bt_fork(3)
      by (auto simp: eps_succs_def vm_action_def simp del: assertionHolds.simps unitMatches.simps
          split: ReOp.splits if_splits option.splits)
    moreover have "\<exists>h' < h. bt prog tbl input True a' sp c h' r1"
      using bt_fork by (intro exI [of _ h1]) auto
    moreover have "\<exists>h' < h. bt prog tbl input True b' sp c h' r2"
      using bt_fork by (intro exI [of _ h2]) auto
    ultimately show ?thesis
      using bt_fork(2) by (intro exI [of _ "[r1, r2]"]) (auto simp: orelse_def split: option.splits)
  qed (use vm_action_oblivious [OF lin, of tbl input True s sp c c] in auto)
qed

section \<open>The closure walk\<close>

declare addThread_loop.simps(2) [simp del]

lemma addThread_loop_refused:
  "\<not> admit prog seen stamp s \<Longrightarrow> addThread_loop prog input sp stamp seen ts ((s, c) # stack) =
     addThread_loop prog input sp stamp seen ts stack"
  by (simp add: addThread_loop.simps(2))

lemma addThread_loop_listed:
  "\<lbrakk> admit prog seen stamp s; s < n_instrs prog \<longrightarrow> eps_succs prog input sp (s, c) = None \<rbrakk> \<Longrightarrow>
   addThread_loop prog input sp stamp seen ts ((s, c) # stack) =
   addThread_loop prog input sp stamp (seen(s := stamp)) (ts @ [(s, c)]) stack"
  by (simp add: addThread_loop.simps(2))

lemma addThread_loop_expanded:
  "\<lbrakk> admit prog seen stamp s; s < n_instrs prog; eps_succs prog input sp (s, c) = Some us \<rbrakk> \<Longrightarrow>
   addThread_loop prog input sp stamp seen ts ((s, c) # stack) =
   addThread_loop prog input sp stamp (seen(s := stamp)) ts (us @ stack)"
  by (simp add: addThread_loop.simps(2))

definition stamped :: "nat list \<Rightarrow> (nat \<Rightarrow> nat) \<Rightarrow> nat \<Rightarrow> nat \<Rightarrow> bool" where
  "stamped prog seen stamp s \<longleftrightarrow> s < seen_size prog \<and> seen s = stamp"

lemma admit_stamped: "admit prog seen stamp s \<longleftrightarrow> \<not> stamped prog seen stamp s"
  by (simp add: admit_def stamped_def)

text \<open>
  \<open>covered H\<close>: whenever an admitted state with a tree no higher than \<open>H\<close> can match, some listed thread
  already does. The bound leaves out the states whose closure is still being walked.
\<close>

definition covered ::
  "nat list \<Rightarrow> nat list \<Rightarrow> js_string \<Rightarrow> nat \<Rightarrow> nat \<Rightarrow> nat \<Rightarrow> (nat \<Rightarrow> nat) \<Rightarrow> thread list \<Rightarrow> bool"
where
  "covered prog tbl input sp stamp H seen ts \<longleftrightarrow>
     (\<forall>s c h r. stamped prog seen stamp s \<longrightarrow> tree prog tbl input sp s c h (Some r) \<longrightarrow> h \<le> H \<longrightarrow>
        first_some (tval prog tbl input sp) ts \<noteq> None)"

text \<open>A listed thread waits for its unit: it has a tree and no epsilon successors.\<close>

definition waiting :: "nat list \<Rightarrow> nat list \<Rightarrow> js_string \<Rightarrow> nat \<Rightarrow> thread \<Rightarrow> bool" where
  "waiting prog tbl input sp t \<longleftrightarrow>
     (\<exists>h r. tree prog tbl input sp (fst t) (snd t) h r) \<and>
     (fst t < n_instrs prog \<longrightarrow> eps_succs prog input sp t = None)"

text \<open>The effect of walking the closure of one thread, whose tree has height \<open>h\<close> and answer \<open>r\<close>.\<close>

definition walked ::
  "nat list \<Rightarrow> nat list \<Rightarrow> js_string \<Rightarrow> nat \<Rightarrow> nat \<Rightarrow> nat \<Rightarrow> caps option \<Rightarrow> (nat \<Rightarrow> nat) \<Rightarrow> thread list
    \<Rightarrow> (nat \<Rightarrow> nat) \<Rightarrow> thread list \<Rightarrow> bool"
where
  "walked prog tbl input sp stamp h r seen ts seen' ts' \<longleftrightarrow>
     (\<forall>H \<ge> h. covered prog tbl input sp stamp H seen ts \<longrightarrow>
        covered prog tbl input sp stamp H seen' (ts @ ts')) \<and>
     (\<forall>s. seen' s = seen s \<or> seen' s = stamp \<and>
        (\<exists>c h' r'. tree prog tbl input sp s c h' r' \<and> h' \<le> h)) \<and>
     (\<forall>t \<in> set ts'. waiting prog tbl input sp t) \<and>
     (covered prog tbl input sp stamp h seen ts \<longrightarrow>
        first_some (tval prog tbl input sp) (ts @ ts') =
        orelse (first_some (tval prog tbl input sp) ts) r)"

lemma coveredD:
  "\<lbrakk> covered prog tbl input sp stamp H seen ts; stamped prog seen stamp s;
     tree prog tbl input sp s c h (Some r); h \<le> H \<rbrakk>
   \<Longrightarrow> first_some (tval prog tbl input sp) ts \<noteq> None"
  unfolding covered_def by blast

lemma covered_mono:
  "covered prog tbl input sp stamp H seen ts \<Longrightarrow> H' \<le> H \<Longrightarrow> covered prog tbl input sp stamp H' seen ts"
  by (auto simp: covered_def)

lemma walked_refused:
  assumes "isLinearSafe prog" "tree prog tbl input sp s c h r" "stamped prog seen stamp s"
  shows "walked prog tbl input sp stamp h r seen ts seen []"
proof -
  have "orelse (first_some (tval prog tbl input sp) ts) r = first_some (tval prog tbl input sp) ts"
    if "covered prog tbl input sp stamp h seen ts"
  proof (cases r)
    case (Some a)
    with coveredD [OF that assms(3)] assms(2)
    have "first_some (tval prog tbl input sp) ts \<noteq> None" by blast
    then show ?thesis by (rule orelse_absorb)
  qed simp
  then show ?thesis by (auto simp: walked_def)
qed

lemma walked_listed:
  assumes lin: "isLinearSafe prog" and t: "tree prog tbl input sp s c h r"
    and w: "s < n_instrs prog \<longrightarrow> eps_succs prog input sp (s, c) = None"
  shows "walked prog tbl input sp stamp h r seen ts (seen(s := stamp)) [(s, c)]"
proof -
  have fs: "first_some (tval prog tbl input sp) (ts @ [(s, c)]) =
      orelse (first_some (tval prog tbl input sp) ts) r"
    using tval_tree [OF t] by (simp del: first_some.simps)
  have "covered prog tbl input sp stamp H (seen(s := stamp)) (ts @ [(s, c)])"
    if cov: "covered prog tbl input sp stamp H seen ts" for H
    unfolding covered_def
  proof (intro allI impI)
    fix s' c' h' r'
    assume st: "stamped prog (seen(s := stamp)) stamp s'"
      and t': "tree prog tbl input sp s' c' h' (Some r')" and "h' \<le> H"
    show "first_some (tval prog tbl input sp) (ts @ [(s, c)]) \<noteq> None"
    proof (cases "s' = s")
      case True
      with tree_oblivious_iff(2) [OF lin t] t' have "r \<noteq> None" by blast
      then show ?thesis unfolding fs by simp
    next
      case False
      with st have "stamped prog seen stamp s'" by (simp add: stamped_def)
      from coveredD [OF cov this t' \<open>h' \<le> H\<close>] show ?thesis unfolding fs by simp
    qed
  qed
  then show ?thesis using t w by (auto simp: walked_def waiting_def fs simp del: first_some_append)
qed

text \<open>Walking the successors of an epsilon state one after the other.\<close>

lemma walked_trans:
  assumes "walked prog tbl input sp stamp h1 r1 seen ts seen1 ts1"
    and "walked prog tbl input sp stamp h2 r2 seen1 (ts @ ts1) seen2 ts2"
    and "h1 \<le> h" "h2 \<le> h"
  shows "walked prog tbl input sp stamp h (orelse r1 r2) seen ts seen2 (ts1 @ ts2)"
  unfolding walked_def
proof (intro conjI allI impI)
  fix H assume "h \<le> H" "covered prog tbl input sp stamp H seen ts"
  then show "covered prog tbl input sp stamp H seen2 (ts @ ts1 @ ts2)"
    using assms by (simp add: walked_def)
next
  fix s
  show "seen2 s = seen s \<or> seen2 s = stamp \<and> (\<exists>c h' r'. tree prog tbl input sp s c h' r' \<and> h' \<le> h)"
    using assms unfolding walked_def by (metis le_trans)
next
  show "\<forall>t\<in>set (ts1 @ ts2). waiting prog tbl input sp t"
    using assms by (auto simp: walked_def)
next
  assume cov: "covered prog tbl input sp stamp h seen ts"
  then have "covered prog tbl input sp stamp h seen1 (ts @ ts1)"
    using assms(1,3) by (simp add: walked_def)
  then have "covered prog tbl input sp stamp h2 seen1 (ts @ ts1)"
    using assms(4) by (rule covered_mono)
  with assms(2) have "first_some (tval prog tbl input sp) ((ts @ ts1) @ ts2) =
      orelse (first_some (tval prog tbl input sp) (ts @ ts1)) r2" by (simp only: walked_def)
  moreover have "covered prog tbl input sp stamp h1 seen ts"
    using cov assms(3) by (rule covered_mono)
  with assms(1) have "first_some (tval prog tbl input sp) (ts @ ts1) =
      orelse (first_some (tval prog tbl input sp) ts) r1" by (simp only: walked_def)
  ultimately show "first_some (tval prog tbl input sp) (ts @ ts1 @ ts2) =
      orelse (first_some (tval prog tbl input sp) ts) (orelse r1 r2)"
    by (simp only: append_assoc orelse_assoc)
qed

lemma walked_nil: "walked prog tbl input sp stamp h None seen ts seen []"
  by (auto simp: walked_def)

text \<open>The state itself is stamped first, then its successors, which all have lower trees.\<close>

lemma walked_expanded:
  assumes lin: "isLinearSafe prog" and t: "tree prog tbl input sp s c h r" and h: "h = Suc h'"
    and w: "walked prog tbl input sp stamp h' r (seen(s := stamp)) ts seen1 ts1"
  shows "walked prog tbl input sp stamp h r seen ts seen1 ts1"
proof -
  have low: "covered prog tbl input sp stamp h' (seen(s := stamp)) ts"
    if "covered prog tbl input sp stamp H seen ts" "h \<le> H" for H
    unfolding covered_def
  proof (intro allI impI)
    fix s' c' g r'
    assume st: "stamped prog (seen(s := stamp)) stamp s'"
      and t': "tree prog tbl input sp s' c' g (Some r')" and "g \<le> h'"
    have "s' \<noteq> s" using tree_oblivious_iff(1) [OF lin t] t' \<open>g \<le> h'\<close> h by fastforce
    with st have "stamped prog seen stamp s'" by (simp add: stamped_def)
    then show "first_some (tval prog tbl input sp) ts \<noteq> None"
      using coveredD [OF that(1) _ t'] \<open>g \<le> h'\<close> \<open>h \<le> H\<close> h by simp
  qed
  have fs: "first_some (tval prog tbl input sp) (ts @ ts1) =
      orelse (first_some (tval prog tbl input sp) ts) r"
    if "covered prog tbl input sp stamp H seen ts" "h \<le> H" for H
    using w low [OF that] unfolding walked_def by blast
  have "covered prog tbl input sp stamp H seen1 (ts @ ts1)"
    if cov: "covered prog tbl input sp stamp H seen ts" and H: "h \<le> H" for H
    unfolding covered_def
  proof (intro allI impI)
    fix s' c' g r'
    assume st: "stamped prog seen1 stamp s'" and t': "tree prog tbl input sp s' c' g (Some r')"
      and g: "g \<le> H"
    consider "s' = s" | "stamped prog seen stamp s'" | "\<not> stamped prog seen stamp s'" "s' \<noteq> s" by blast
    then show "first_some (tval prog tbl input sp) (ts @ ts1) \<noteq> None"
    proof cases
      case 1
      with tree_oblivious_iff(2) [OF lin t] t' have "r \<noteq> None" by blast
      then show ?thesis unfolding fs [OF cov H] by simp
    next
      case 2
      from coveredD [OF cov 2 t' g] show ?thesis unfolding fs [OF cov H] by simp
    next
      case 3
      then have "seen1 s' \<noteq> (seen(s := stamp)) s'" using st by (auto simp: stamped_def)
      with w obtain c2 h2 r2 where "tree prog tbl input sp s' c2 h2 r2" "h2 \<le> h'"
        unfolding walked_def by blast
      with tree_oblivious_iff(1) [OF lin t'] have "g \<le> h'" by blast
      moreover have "covered prog tbl input sp stamp h' seen1 (ts @ ts1)"
        using w low [OF cov H] unfolding walked_def by blast
      ultimately show ?thesis using coveredD st t' by blast
    qed
  qed
  then show ?thesis
    using w t h fs unfolding walked_def
    by (auto simp del: first_some_append) (metis fun_upd_apply le_SucI order_refl)+
qed

lemma walked_failed:
  assumes lin: "isLinearSafe prog" and t: "tree prog tbl input sp s c h None"
  shows "walked prog tbl input sp stamp h None seen ts (seen(s := stamp)) []"
proof -
  have "covered prog tbl input sp stamp H (seen(s := stamp)) ts"
    if cov: "covered prog tbl input sp stamp H seen ts" for H
    unfolding covered_def
  proof (intro allI impI)
    fix s' c' h' r'
    assume st: "stamped prog (seen(s := stamp)) stamp s'"
      and t': "tree prog tbl input sp s' c' h' (Some r')" and "h' \<le> H"
    have "s' \<noteq> s" using tree_oblivious_iff(2) [OF lin t] t' by blast
    with st have "stamped prog seen stamp s'" by (simp add: stamped_def)
    from coveredD [OF cov this t' \<open>h' \<le> H\<close>]
    show "first_some (tval prog tbl input sp) ts \<noteq> None" .
  qed
  then show ?thesis using t by (auto simp: walked_def)
qed

text \<open>\<open>walks us h r\<close>: processing \<open>us\<close> on top of any stack has the effect \<open>walked\<close> and then goes on.\<close>

definition walks ::
  "nat list \<Rightarrow> nat list \<Rightarrow> js_string \<Rightarrow> nat \<Rightarrow> nat \<Rightarrow> thread list \<Rightarrow> nat \<Rightarrow> caps option \<Rightarrow> (nat \<Rightarrow> nat)
    \<Rightarrow> thread list \<Rightarrow> bool"
where
  "walks prog tbl input sp stamp us h r seen ts \<longleftrightarrow>
     (\<exists>seen' ts'. walked prog tbl input sp stamp h r seen ts seen' ts' \<and>
        (\<forall>stack. addThread_loop prog input sp stamp seen ts (us @ stack) =
           addThread_loop prog input sp stamp seen' (ts @ ts') stack))"

lemma walks_list:
  assumes one: "\<And>t r h' seen ts. \<lbrakk> h' < h; tree prog tbl input sp (fst t) (snd t) h' r \<rbrakk> \<Longrightarrow>
      walks prog tbl input sp stamp [t] h' r seen ts"
    and "list_all2 (\<lambda>t r. \<exists>h' < h. bt prog tbl input True (fst t) sp (snd t) h' r) us rs"
    and "us \<noteq> []"
  shows "walks prog tbl input sp stamp us (h - 1) (first_some (\<lambda>x. x) rs) seen ts"
  using assms(2,3)
proof (induction us arbitrary: rs seen ts)
  case (Cons t us rs seen ts)
  then obtain r rs' h' where rs: "rs = r # rs'" and h': "h' < h"
    and bt: "bt prog tbl input True (fst t) sp (snd t) h' r"
    and us: "list_all2 (\<lambda>t r. \<exists>h' < h. bt prog tbl input True (fst t) sp (snd t) h' r) us rs'"
    by (auto simp: list_all2_Cons1)
  obtain seen1 ts1 where 1: "walked prog tbl input sp stamp h' r seen ts seen1 ts1"
    and loop1: "\<And>stack. addThread_loop prog input sp stamp seen ts (t # stack) =
       addThread_loop prog input sp stamp seen1 (ts @ ts1) stack"
    using one [OF h' tree_bt [OF bt], of seen ts] by (auto simp: walks_def)
  have "walks prog tbl input sp stamp us (h - 1) (first_some (\<lambda>x. x) rs') seen1 (ts @ ts1)"
  proof (cases "us = []")
    case True
    then have "rs' = []" using us by simp
    then show ?thesis using True walked_nil by (force simp: walks_def)
  next
    case False
    then show ?thesis using Cons.IH [OF us] by blast
  qed
  then obtain seen2 ts2 where
      2: "walked prog tbl input sp stamp (h - 1) (first_some (\<lambda>x. x) rs') seen1 (ts @ ts1) seen2 ts2"
    and loop2: "\<And>stack. addThread_loop prog input sp stamp seen1 (ts @ ts1) (us @ stack) =
       addThread_loop prog input sp stamp seen2 ((ts @ ts1) @ ts2) stack"
    by (auto simp: walks_def)
  have "walked prog tbl input sp stamp (h - 1) (orelse r (first_some (\<lambda>x. x) rs')) seen ts seen2
      (ts1 @ ts2)"
    using h' by (intro walked_trans [OF 1 2]) auto
  then show ?case
    unfolding walks_def rs first_some_Cons
    using loop1 loop2 by (intro exI [of _ seen2] exI [of _ "ts1 @ ts2"]) simp
qed simp

lemma walks_thread:
  assumes lin: "isLinearSafe prog"
  shows "tree prog tbl input sp (fst t) (snd t) h r \<Longrightarrow> walks prog tbl input sp stamp [t] h r seen ts"
proof (induction h arbitrary: t r seen ts rule: less_induct)
  case (less h t r seen ts)
  obtain s c where t: "t = (s, c)" by (cases t)
  note tr = less.prems [unfolded t fst_conv snd_conv]
  show ?case
  proof (cases "stamped prog seen stamp s")
    case True
    with walked_refused [OF lin tr] show ?thesis
      unfolding walks_def t by (intro exI [of _ seen] exI [of _ "[]"]) (simp add: admit_stamped addThread_loop_refused)
  next
    case fresh: False
    show ?thesis
    proof (cases "s < n_instrs prog \<longrightarrow> eps_succs prog input sp (s, c) = None")
      case True
      have "addThread_loop prog input sp stamp seen ts (t # stack) =
          addThread_loop prog input sp stamp (seen(s := stamp)) (ts @ [(s, c)]) stack" for stack
        using fresh True by (simp add: t admit_stamped addThread_loop_listed)
      with walked_listed [OF lin tr True] show ?thesis
        unfolding walks_def t by (intro exI [of _ "seen(s := stamp)"] exI [of _ "[(s, c)]"]) simp
    next
      case False
      then obtain us where s: "s < n_instrs prog" and us: "eps_succs prog input sp (s, c) = Some us"
        by auto
      have loop: "addThread_loop prog input sp stamp seen ts (t # stack) =
          addThread_loop prog input sp stamp (seen(s := stamp)) ts (us @ stack)" for stack
        using fresh s us by (simp add: t admit_stamped addThread_loop_expanded)
      from tr s have bt: "bt prog tbl input True s sp c h r" by (simp add: tree_def)
      from eps_succs_tree [OF lin bt us] obtain rs where
        rs: "list_all2 (\<lambda>t r. \<exists>h' < h. bt prog tbl input True (fst t) sp (snd t) h' r) us rs"
        and r: "r = first_some (\<lambda>x. x) rs" by blast
      show ?thesis
      proof (cases "us = []")
        case True
        then have "r = None" using rs r by simp
        with walked_failed [OF lin] tr loop True show ?thesis
          unfolding walks_def t by (intro exI [of _ "seen(s := stamp)"] exI [of _ "[]"]) simp
      next
        case False
        then have h: "h = Suc (h - 1)" using rs by (cases us) (auto simp: list_all2_Cons1)
        obtain seen1 ts1 where
            w: "walked prog tbl input sp stamp (h - 1) r (seen(s := stamp)) ts seen1 ts1"
          and loop1: "\<And>stack. addThread_loop prog input sp stamp (seen(s := stamp)) ts (us @ stack) =
             addThread_loop prog input sp stamp seen1 (ts @ ts1) stack"
          using walks_list [OF less.IH rs False] unfolding walks_def r by blast
        from walked_expanded [OF lin tr h w] show ?thesis
          unfolding walks_def t using loop loop1
          by (intro exI [of _ seen1] exI [of _ ts1]) (simp add: t)
      qed
    qed
  qed
qed

section \<open>One position\<close>

text \<open>A list in a good state for position \<open>sp\<close>, and the answer it stands for.\<close>

definition list_ok ::
  "nat list \<Rightarrow> nat list \<Rightarrow> js_string \<Rightarrow> nat \<Rightarrow> nat \<Rightarrow> (nat \<Rightarrow> nat) \<times> thread list \<Rightarrow> bool"
where
  "list_ok prog tbl input sp stamp L \<longleftrightarrow>
     (\<forall>H. covered prog tbl input sp stamp H (fst L) (snd L)) \<and>
     (\<forall>t \<in> set (snd L). waiting prog tbl input sp t) \<and>
     (\<forall>s. fst L s \<le> stamp) \<and> (length input < sp \<longrightarrow> snd L = [])"

definition answer ::
  "nat list \<Rightarrow> nat list \<Rightarrow> js_string \<Rightarrow> nat \<Rightarrow> (nat \<Rightarrow> nat) \<times> thread list \<Rightarrow> caps option"
where
  "answer prog tbl input sp L = first_some (tval prog tbl input sp) (snd L)"

lemma list_ok_empty:
  "(\<And>s. seen s < stamp) \<Longrightarrow> list_ok prog tbl input sp stamp (seen, [])"
  by (force simp: list_ok_def covered_def stamped_def less_imp_le)

lemma answer_empty [simp]: "answer prog tbl input sp (seen, []) = None"
  by (simp add: answer_def)

lemma addThread_ok:
  assumes lin: "isLinearSafe prog" and ok: "list_ok prog tbl input sp stamp L"
    and t: "tree prog tbl input sp s c h r" and sp: "sp \<le> length input"
  shows "list_ok prog tbl input sp stamp (addThread prog input stamp L s c sp)"
    and "answer prog tbl input sp (addThread prog input stamp L s c sp) =
      orelse (answer prog tbl input sp L) r"
proof -
  obtain seen' ts' where w: "walked prog tbl input sp stamp h r (fst L) (snd L) seen' ts'"
    and loop: "\<And>stack. addThread_loop prog input sp stamp (fst L) (snd L) ((s, c) # stack) =
       addThread_loop prog input sp stamp seen' (snd L @ ts') stack"
    using walks_thread [OF lin, of tbl input sp "(s, c)" h r stamp "fst L" "snd L"] t
    by (auto simp: walks_def)
  have add: "addThread prog input stamp L s c sp = (seen', snd L @ ts')"
    using loop [of "[]"] by (simp add: addThread_def)
  have cov: "covered prog tbl input sp stamp H seen' (snd L @ ts')" for H
  proof -
    have "covered prog tbl input sp stamp (max h H) seen' (snd L @ ts')"
      using w ok unfolding walked_def list_ok_def by (meson max.cobounded1)
    then show ?thesis by (rule covered_mono) simp
  qed
  have "seen' s' \<le> stamp" for s'
    using w ok unfolding walked_def list_ok_def by (metis order_refl)
  then show "list_ok prog tbl input sp stamp (addThread prog input stamp L s c sp)"
    using ok w sp cov by (auto simp: list_ok_def add walked_def)
  show "answer prog tbl input sp (addThread prog input stamp L s c sp) =
      orelse (answer prog tbl input sp L) r"
    using w ok unfolding answer_def add walked_def list_ok_def by simp
qed

lemma forwardCodePoint_astral:
  assumes "valid_units input" "sp < length input" "forwardCodePoint input sp = Some cp" "0xffff < cp"
  shows "sp + 1 < length input"
proof -
  have "input ! sp < 65536" using assms(1,2) by (simp add: valid_units_def list_all_length)
  then show ?thesis using assms(3,4) by (auto simp: forwardCodePoint_def Let_def split: if_splits)
qed

lemma waiting_op:
  assumes "isLinearSafe prog" "fetch prog s = Some (x, a, b)" "eps_succs prog input sp (s, c) = None"
  shows "x \<in> {OP_CHAR, OP_CHARI, OP_ANY, OP_CLASS, OP_CPCLASS, OP_MATCH}"
  using linear_fetch [OF assms(1,2)] assms(2,3) by (auto simp: LINEAR_OPS_def eps_succs_def)

lemma step_unit:
  assumes lin: "isLinearSafe prog" and ok: "list_ok prog tbl input (sp + 1) stamp next"
    and sp: "sp < length input" and bt: "bt prog tbl input True s sp c h r"
    and f: "fetch prog s = Some (x, a, b)" and x: "x \<in> {OP_CHAR, OP_CHARI, OP_ANY, OP_CLASS}"
    and next': "next' = (if unitMatches x a b tbl (input ! sp)
      then addThread prog input stamp next (s + 1) c (sp + 1) else next)"
  shows "list_ok prog tbl input (sp + 1) stamp next' \<and>
    answer prog tbl input (sp + 1) next' = orelse (answer prog tbl input (sp + 1) next) r"
proof -
  have act: "vm_action prog tbl input True s sp c =
      (if unitMatches x a b tbl (input ! sp) then Advance (s + 1) (sp + 1) c else Backtrack)"
    using x f sp by (auto simp: vm_action_ops inBounds_def unit_at_def move_def simp del: unitMatches.simps)
  show ?thesis
  proof (cases "unitMatches x a b tbl (input ! sp)")
    case True
    with act obtain h' where "bt prog tbl input True (s + 1) (sp + 1) c h' r"
      using bt_advanceD [OF bt] by auto
    with addThread_ok [OF lin ok tree_bt] True next' sp show ?thesis by simp
  next
    case False
    with act bt_backD [OF bt] ok next' show ?thesis by simp
  qed
qed

lemma step_cpclass:
  assumes lin: "isLinearSafe prog" and ok: "list_ok prog tbl input (sp + 1) stamp next"
    and val: "valid_units input" and sp: "sp < length input"
    and bt: "bt prog tbl input True s sp c h r" and f: "fetch prog s = Some (OP_CPCLASS, a, b)"
    and st: "step prog tbl input (s, c) sp stamp next = (m, next')"
  shows "\<not> m \<and> list_ok prog tbl input (sp + 1) stamp next' \<and>
    answer prog tbl input (sp + 1) next' = orelse (answer prog tbl input (sp + 1) next) r"
proof -
  have s: "s < n_instrs prog" by (rule bt_less [OF bt])
  have act: "vm_action prog tbl input True s sp c =
      (case forwardCodePoint input sp of
         None \<Rightarrow> Backtrack
       | Some cp \<Rightarrow> if classMatch tbl a cp (b \<noteq> 0)
           then Advance (s + 1) (sp + (if 0xffff < cp then 2 else 1)) c else Backtrack)"
    using f sp by (simp add: vm_action_ops readCodePoint_def inBounds_def move_def split: option.split)
  show ?thesis
  proof (cases "\<exists>cp. forwardCodePoint input sp = Some cp \<and> classMatch tbl a cp (b \<noteq> 0)")
    case False
    then have "m = False" "next' = next"
      using st f s sp by (auto simp: step_def Let_def split: option.splits if_splits)
    moreover have "r = None" using False act bt_backD [OF bt] by (auto split: option.splits)
    ultimately show ?thesis using ok by simp
  next
    case True
    then obtain cp where cp: "forwardCodePoint input sp = Some cp" "classMatch tbl a cp (b \<noteq> 0)" by blast
    then obtain h' where bt': "bt prog tbl input True (s + 1) (sp + (if 0xffff < cp then 2 else 1)) c h' r"
      using act bt_advanceD [OF bt] by auto
    show ?thesis
    proof (cases "0xffff < cp")
      case False
      then have "m = False" "next' = addThread prog input stamp next (s + 1) c (sp + 1)"
        using st f s sp cp by (auto simp: step_def Let_def)
      with addThread_ok [OF lin ok tree_bt] bt' False sp show ?thesis by simp
    next
      case True
      then have eq: "m = False" "next' = addThread prog input stamp next (n_instrs prog + s) c (sp + 1)"
        using st f s sp cp by (auto simp: step_def Let_def)
      have "tree prog tbl input (sp + 1) (n_instrs prog + s) c h' r"
        using bt' True s n_le_seen [of prog] forwardCodePoint_astral [OF val sp cp(1) True]
        by (simp add: tree_def)
      with addThread_ok [OF lin ok] eq sp show ?thesis by simp
    qed
  qed
qed

lemma step_ok:
  assumes lin: "isLinearSafe prog" and ok: "list_ok prog tbl input (sp + 1) stamp next"
    and val: "valid_units input" and sp: "sp \<le> length input"
    and w: "waiting prog tbl input sp (s, c)" and t: "tree prog tbl input sp s c h r"
    and st: "step prog tbl input (s, c) sp stamp next = (m, next')"
  shows "list_ok prog tbl input (sp + 1) stamp next' \<and>
    (if m then r = Some c \<and> next' = next
     else answer prog tbl input (sp + 1) next' = orelse (answer prog tbl input (sp + 1) next) r)"
proof (cases "s < n_instrs prog")
  case False
  then have eq: "m = False" "next' = addThread prog input stamp next (s - n_instrs prog + 1) c (sp + 1)"
    using st by (auto simp: step_def)
  from t False have "bt prog tbl input True (s - n_instrs prog + 1) (sp + 1) c h r" "sp < length input"
    by (auto simp: tree_def)
  with addThread_ok [OF lin ok tree_bt] eq show ?thesis by simp
next
  case True
  then have bt: "bt prog tbl input True s sp c h r" using t by (simp add: tree_def)
  obtain x a b where f: "fetch prog s = Some (x, a, b)" using bt_fetch [OF bt] by (metis prod_cases3)
  have x: "x \<in> {OP_CHAR, OP_CHARI, OP_ANY, OP_CLASS, OP_CPCLASS, OP_MATCH}"
    using waiting_op [OF lin f, of input sp c] w True by (simp add: waiting_def)
  consider "x = OP_MATCH" | "x \<noteq> OP_MATCH" "sp = length input" | "x = OP_CPCLASS" "sp < length input"
    | "x \<in> {OP_CHAR, OP_CHARI, OP_ANY, OP_CLASS}" "sp < length input"
    using x sp by fastforce
  then show ?thesis
  proof cases
    case 1
    with bt_acceptD [OF bt] f True st ok show ?thesis by (auto simp: step_def vm_action_ops)
  next
    case 2
    then have "vm_action prog tbl input True s sp c = Backtrack"
      using x f by (auto simp: vm_action_ops inBounds_def readCodePoint_def)
    with 2 bt_backD [OF bt] f True st ok show ?thesis by (auto simp: step_def)
  next
    case 3
    with step_cpclass [OF lin ok val _ bt _ st] f show ?thesis by simp
  next
    case 4
    then have "m = False \<and> next' = (if unitMatches x a b tbl (input ! sp)
      then addThread prog input stamp next (s + 1) c (sp + 1) else next)"
      using st f True by (auto simp: step_def Let_def simp del: unitMatches.simps split: if_splits)
    with step_unit [OF lin ok 4(2) bt f 4(1)] show ?thesis by simp
  qed
qed

section \<open>The search\<close>

lemma step_all_ok:
  assumes lin: "isLinearSafe prog" and val: "valid_units input" and sp: "sp \<le> length input"
  shows "\<lbrakk> \<forall>t \<in> set ts. waiting prog tbl input sp t; list_ok prog tbl input (sp + 1) stamp next;
      step_all prog tbl input ts sp stamp next = (m, next') \<rbrakk> \<Longrightarrow>
    list_ok prog tbl input (sp + 1) stamp next' \<and>
    orelse (answer prog tbl input (sp + 1) next') m =
      orelse (answer prog tbl input (sp + 1) next) (first_some (tval prog tbl input sp) ts)"
proof (induction ts arbitrary: "next")
  case Nil
  then show ?case by simp
next
  case (Cons t ts "next")
  obtain s c where t: "t = (s, c)" by (cases t)
  have w: "waiting prog tbl input sp (s, c)" using Cons.prems(1) t by simp
  then obtain h r where tr: "tree prog tbl input sp s c h r" by (auto simp: waiting_def)
  obtain b n1 where st: "step prog tbl input (s, c) sp stamp next = (b, n1)" by (meson surj_pair)
  note ok = step_ok [OF lin Cons.prems(2) val sp w tr st]
  show ?case
  proof (cases b)
    case True
    with ok have "r = Some c" "n1 = next" by auto
    moreover from this have "m = Some c" "next' = next"
      using True Cons.prems(3) st by (simp_all add: t)
    ultimately show ?thesis
      using Cons.prems(2) tval_tree [OF tr]
      by (simp add: t first_some_Cons del: first_some.simps)
  next
    case False
    with Cons.IH [of n1] ok Cons.prems st show ?thesis
      by (simp add: t first_some_Cons tval_tree [OF tr] orelse_assoc del: first_some.simps)
  qed
qed

text \<open>The answer of a fresh attempt, and of all attempts that the scan still has to make.\<close>

definition attempt :: "nat list \<Rightarrow> nat list \<Rightarrow> nat \<Rightarrow> js_string \<Rightarrow> nat \<Rightarrow> caps option" where
  "attempt prog tbl nSlots input i = tval prog tbl input i (0, replicate nSlots (- 1))"

definition attempts ::
  "nat list \<Rightarrow> nat list \<Rightarrow> nat \<Rightarrow> js_string \<Rightarrow> nat \<Rightarrow> bool \<Rightarrow> nat \<Rightarrow> caps option"
where
  "attempts prog tbl nSlots input start sticky sp =
     (if sticky then
        (if sp = start \<and> start \<le> length input then attempt prog tbl nSlots input start else None)
      else first_some (attempt prog tbl nSlots input) [sp..<length input + 1])"

lemma attempts_step:
  assumes "start \<le> sp" "sp \<le> length input"
  shows "attempts prog tbl nSlots input start sticky sp =
    orelse (if sticky \<and> sp \<noteq> start then None else attempt prog tbl nSlots input sp)
      (attempts prog tbl nSlots input start sticky (sp + 1))"
proof -
  have "[sp..<length input + 1] = sp # [sp + 1..<length input + 1]"
    using assms(2) by (simp add: upt_conv_Cons)
  then show ?thesis
    using assms by (auto simp: attempts_def first_some_Cons simp del: first_some.simps upt_Suc)
qed

lemma searchLinear_loop_correct:
  assumes lin: "isLinearSafe prog" and val: "valid_units input"
    and trees: "\<And>i. \<lbrakk> start \<le> i; i \<le> length input \<rbrakk> \<Longrightarrow>
      \<exists>h r. bt prog tbl input True 0 i (replicate nSlots (- 1)) h r"
  shows "\<lbrakk> k = length input + 1 - sp; start \<le> sp; list_ok prog tbl input sp (sp + 1) current \<rbrakk> \<Longrightarrow>
    searchLinear_loop prog tbl nSlots input start sticky k sp current matched =
    orelse (answer prog tbl input sp current)
      (if matched = None then attempts prog tbl nSlots input start sticky sp else matched)"
proof (induction k arbitrary: sp current matched)
  case 0
  then have "snd current = []" "length input < sp" by (auto simp: list_ok_def)
  then show ?case
    using "0.prems"(2) by (auto simp: answer_def attempts_def)
next
  case (Suc k sp current matched)
  let ?init = "replicate nSlots (- 1 :: int)"
  have sp: "sp \<le> length input" and k: "k = length input + 1 - (sp + 1)" using Suc.prems(1) by auto
  define fresh where "fresh \<longleftrightarrow> matched = None \<and> (\<not> sticky \<or> sp = start)"
  define cur where "cur = (if fresh then addThread prog input (sp + 1) current 0 ?init sp else current)"
  obtain h r where bt: "bt prog tbl input True 0 sp ?init h r" using trees Suc.prems(2) sp by blast
  have att: "attempt prog tbl nSlots input sp = r"
    unfolding attempt_def by (rule tval_tree [OF tree_bt [OF bt]])
  have ok: "list_ok prog tbl input sp (sp + 1) cur"
    and ans: "answer prog tbl input sp cur =
      orelse (answer prog tbl input sp current) (if fresh then r else None)"
    using addThread_ok [OF lin Suc.prems(3) tree_bt [OF bt] sp] Suc.prems(3) by (auto simp: cur_def)
  obtain m "next" where
    st: "step_all prog tbl input (snd cur) sp (sp + 2) (fst cur, []) = (m, next)" by (meson surj_pair)
  have "list_ok prog tbl input (sp + 1) (sp + 2) (fst cur, [])"
    using ok by (intro list_ok_empty) (auto simp: list_ok_def le_imp_less_Suc)
  with step_all_ok [OF lin val sp _ _ st] ok
  have next_ok: "list_ok prog tbl input (sp + 1) (sp + 2) next"
    and next_ans: "orelse (answer prog tbl input (sp + 1) next) m = answer prog tbl input sp cur"
    by (auto simp: list_ok_def answer_def)
  have unf: "searchLinear_loop prog tbl nSlots input start sticky (Suc k) sp current matched =
      (if snd cur = [] \<and> (matched \<noteq> None \<or> sticky) then matched
       else searchLinear_loop prog tbl nSlots input start sticky k (sp + 1) next (orelse m matched))"
    unfolding searchLinear_loop.simps Let_def fresh_def [symmetric] cur_def [symmetric] st prod.case
      orelse_def
    by (rule refl)
  note att_step = attempts_step [OF Suc.prems(2) sp, of prog tbl nSlots sticky, unfolded att]
  show ?case
  proof (cases "snd cur = [] \<and> (matched \<noteq> None \<or> sticky)")
    case True
    then have "answer prog tbl input sp cur = None" by (simp add: answer_def)
    with ans have "answer prog tbl input sp current = None" "fresh \<longrightarrow> r = None" by auto
    then show ?thesis
      unfolding unf if_P [OF True] att_step using True Suc.prems(2)
      by (auto simp: fresh_def attempts_def)
  next
    case False
    have IH: "searchLinear_loop prog tbl nSlots input start sticky k (sp + 1) next (orelse m matched) =
      orelse (answer prog tbl input (sp + 1) next)
        (if orelse m matched = None then attempts prog tbl nSlots input start sticky (sp + 1)
         else orelse m matched)"
      using Suc.IH [OF k] Suc.prems(2) next_ok by simp
    show ?thesis
      unfolding unf if_not_P [OF False] IH att_step
      using next_ans ans
      by (cases m; cases matched; cases "answer prog tbl input sp current")
        (auto simp: fresh_def orelse_assoc)
  qed
qed

end
