(* ===== verification/Re_Search.thy ===== *)
theory Re_Search
  imports Re_Drain Re_Linear_Correct
begin

text \<open>
  The search over start positions. Both matchers answer the first attempt in scan order; the hybrid
  \<^verbatim>\<open>search\<close> of \<^verbatim>\<open>vm.ts\<close> therefore answers the same whether or not it hands over. Put
  together with the compiler: a compiled pattern, searched by the hybrid engine, gives the first
  outcome of the reference semantics or throws a RangeError, and never throws when the program is
  linear-safe.
\<close>

section \<open>The positions of a search\<close>

definition positions :: "js_string \<Rightarrow> nat \<Rightarrow> bool \<Rightarrow> nat list" where
  "positions input start sticky =
     (if sticky then (if start \<le> length input then [start] else []) else [start..<length input + 1])"

definition trees_for :: "nat list \<Rightarrow> nat list \<Rightarrow> js_string \<Rightarrow> nat \<Rightarrow> (nat \<Rightarrow> caps option) \<Rightarrow> nat \<Rightarrow> bool" where
  "trees_for prog tbl input nSlots A start \<longleftrightarrow>
     (\<forall>i. start \<le> i \<longrightarrow> i \<le> length input \<longrightarrow> (\<exists>h. bt prog tbl input True 0 i (replicate nSlots (- 1)) h (A i)))"

lemma trees_for_attempt:
  assumes "trees_for prog tbl input nSlots A start" "start \<le> i" "i \<le> length input"
  shows "attempt prog tbl nSlots input i = A i"
proof -
  obtain h where "bt prog tbl input True 0 i (replicate nSlots (- 1)) h (A i)"
    using assms by (auto simp: trees_for_def)
  then show ?thesis unfolding attempt_def by (intro tval_tree [OF tree_bt])
qed

lemma searchLinear_first:
  assumes lin: "isLinearSafe prog" and val: "valid_units input"
    and trees: "trees_for prog tbl input nSlots A (nat (max 0 startIdx))"
  shows "searchLinear prog tbl nSlots input startIdx sticky =
    first_some A (positions input (nat (max 0 startIdx)) sticky)"
proof -
  define start where "start = nat (max 0 startIdx)"
  have bts: "\<exists>h r. bt prog tbl input True 0 i (replicate nSlots (- 1)) h r" if "start \<le> i" "i \<le> length input" for i
    using trees that unfolding trees_for_def start_def by blast
  have "searchLinear prog tbl nSlots input startIdx sticky = attempts prog tbl nSlots input start sticky start"
    unfolding searchLinear_def Let_def start_def [symmetric]
    by (subst searchLinear_loop_correct [OF lin val bts]) (simp_all add: answer_def list_ok_empty)
  also have "\<dots> = first_some A (positions input start sticky)"
    using trees_for_attempt [OF trees [folded start_def]]
    by (auto simp: attempts_def positions_def simp del: upt_Suc first_some.simps(2) intro!: first_some_cong)
  finally show ?thesis by (simp add: start_def)
qed

lemma runAt_tree:
  assumes "bt prog tbl input True 0 i (replicate (2 * nGroups + nScratch) (- 1)) h r"
  shows "runAt depth prog tbl nGroups input i 0 True None nScratch \<in> {RangeErr, result_of r}"
  unfolding runAt_def Let_def using vm_loop_sound [OF assms] by simp

lemma search_loop_first:
  assumes val: "valid_units input"
    and trees: "trees_for prog tbl input (2 * nGroups + nScratch) A start"
  shows "\<lbrakk> start \<le> i; k = length input + 1 - i \<rbrakk> \<Longrightarrow>
    (search_loop depth prog tbl nGroups input sticky nScratch k i = result_of (first_some A (positions input i sticky))) \<or>
    (\<not> isLinearSafe prog \<and> search_loop depth prog tbl nGroups input sticky nScratch k i = RangeErr)"
proof (induction k arbitrary: i)
  case 0
  then show ?case by (simp add: positions_def)
next
  case (Suc k)
  then have i: "i \<le> length input" by simp
  then have pos: "[i..<length input + 1] = i # [i + 1..<length input + 1]" by (simp add: upt_conv_Cons)
  obtain h where bt: "bt prog tbl input True 0 i (replicate (2 * nGroups + nScratch) (- 1)) h (A i)"
    using trees Suc.prems(1) i by (auto simp: trees_for_def)
  have "runAt depth prog tbl nGroups input i 0 True None nScratch = RangeErr \<or>
      runAt depth prog tbl nGroups input i 0 True None nScratch = result_of (A i)"
    using runAt_tree [OF bt, of depth] by blast
  then show ?case
  proof
    assume err: "runAt depth prog tbl nGroups input i 0 True None nScratch = RangeErr"
    show ?thesis
    proof (cases "isLinearSafe prog")
      case True
      have "trees_for prog tbl input (2 * nGroups + nScratch) A (nat (max 0 (int i)))"
        using trees Suc.prems(1) by (auto simp: trees_for_def)
      from searchLinear_first [OF True val this, of sticky] err True show ?thesis
        by (cases "first_some A (positions input i sticky)") simp_all
    qed (use err in simp)
  next
    assume res: "runAt depth prog tbl nGroups input i 0 True None nScratch = result_of (A i)"
    show ?thesis
    proof (cases "A i")
      case None
      have "(search_loop depth prog tbl nGroups input sticky nScratch k (i + 1) =
          result_of (first_some A (positions input (i + 1) sticky))) \<or>
        (\<not> isLinearSafe prog \<and> search_loop depth prog tbl nGroups input sticky nScratch k (i + 1) = RangeErr)"
        by (rule Suc.IH) (use Suc.prems in auto)
      then show ?thesis using res None i pos by (auto simp: positions_def simp del: upt_Suc)
    next
      case (Some c)
      then show ?thesis using res i pos by (auto simp: positions_def simp del: upt_Suc)
    qed
  qed
qed

lemma search_first:
  assumes "valid_units input" "trees_for prog tbl input (2 * nGroups + nScratch) A (nat (max 0 startIdx))"
  shows "search depth prog tbl nGroups input startIdx sticky nScratch =
      result_of (first_some A (positions input (nat (max 0 startIdx)) sticky)) \<or>
    (\<not> isLinearSafe prog \<and> search depth prog tbl nGroups input startIdx sticky nScratch = RangeErr)"
  unfolding search_def Let_def by (rule search_loop_first [OF assms]) simp_all

section \<open>A compiled pattern\<close>

definition flags_ctx :: "nat \<Rightarrow> re_ctx" where
  "flags_ctx flags =
     \<lparr>cx_ci = has_flag flags RE_FLAG_I, cx_da = has_flag flags RE_FLAG_S, cx_ml = has_flag flags RE_FLAG_M,
      cx_un = has_flag flags (RE_FLAG_U OR RE_FLAG_V)\<rparr>"

lemma compileParsed_parts:
  assumes run: "compileParsed upper p flags = Inr cr" and wf: "wf_parsed p"
  obtains em emF x s where "drainPendingSubs upper em = Inr emF" "queue_ok (numCaptures p + 1) em"
    "node_seg upper (RGroup (root p) (Some 0) None) s x" "instrs em = sg_code x @ [(OP_MATCH, 0, 0)]"
    "st_pc s = 0" "st_rev s = False" "ctx_of s = flags_ctx flags" "st_tbl s = []"
    "st_slot s = 2 * (numCaptures p + 1)" "em_classTable em = sg_tbl x" "scratchCount em = sg_slots x"
    "pendingSubs em = sg_subs x" "em_unicode em = st_un s"
    "cr_prog cr = flatten (instrs emF)" "cr_classTable cr = em_classTable emF"
    "cr_nGroups cr = numCaptures p + 1" "cr_nScratch cr = scratchCount emF"
proof -
  let ?k = "numCaptures p + 1"
  define em0 where "em0 = (new_emitter (has_flag flags RE_FLAG_I) (has_flag flags RE_FLAG_S)
    (has_flag flags RE_FLAG_M) (has_flag flags (RE_FLAG_U OR RE_FLAG_V)))\<lparr>scratchBase := 2 * ?k\<rparr>"
  from run obtain em1 emF where em1: "compileNode upper (root p) (emit OP_SAVE 0 0 em0) = Inr em1"
    and emF: "drainPendingSubs upper (emit OP_MATCH 0 0 (emit OP_SAVE 1 0 em1)) = Inr emF"
    and cr: "cr_prog cr = flatten (instrs emF)" "cr_classTable cr = em_classTable emF"
      "cr_nGroups cr = ?k" "cr_nScratch cr = scratchCount emF"
    by (auto simp: compileParsed_def Let_def em0_def bindE_eq_Inr finish_def)
  have "emit_group (compileNode upper (root p)) (Some 0) em0 = Inr (emit OP_SAVE 1 0 em1)"
    using em1 by (simp add: emit_group_def em0_def new_emitter_def)
  then have "compileNode upper (RGroup (root p) (Some 0) None) em0 = Inr (emit OP_SAVE 1 0 em1)" by simp
  then obtain x where x: "emit OP_SAVE 1 0 em1 = extend em0 x"
    "node_seg upper (RGroup (root p) (Some 0) None) (site_of em0) x"
    by (rule emitsE [OF emits_compileNode])
  let ?em = "emit OP_MATCH 0 0 (emit OP_SAVE 1 0 em1)"
  have em0: "instrs em0 = []" "em_classTable em0 = []" "pendingSubs em0 = []" "scratchCount em0 = 0"
    "scratchBase em0 = 2 * ?k" by (simp_all add: em0_def new_emitter_def)
  have fields: "instrs ?em = sg_code x @ [(OP_MATCH, 0, 0)]" "em_classTable ?em = sg_tbl x"
    "pendingSubs ?em = sg_subs x" "scratchCount ?em = sg_slots x" "scratchBase ?em = 2 * ?k"
    unfolding x(1) by (simp_all add: emit_extend em0)
  have "queued ?k 0 x"
    using node_seg_queued [OF wf [unfolded wf_parsed_def] x(2)] by (simp add: here_def em0)
  then have "queue_ok ?k ?em"
    unfolding queue_ok_def fields by (auto simp: queued_def intro: awaiting_left)
  then show thesis
  proof (rule that [OF emF _ x(2)])
    show "em_unicode ?em = st_un (site_of em0)" unfolding x(1) by (simp add: emit_extend)
    show "ctx_of (site_of em0) = flags_ctx flags" "st_rev (site_of em0) = False"
      by (simp_all add: em0_def new_emitter_def ctx_of_def flags_ctx_def)
  qed (use fields cr in \<open>simp_all add: here_def em0\<close>)
qed

lemma ready_start:
  assumes "mc_slots M = 2 * mc_groups M + j" "i \<le> length (mc_input M)"
  shows "ready M Z i (replicate (mc_slots M) (- 1))"
  using assms by (auto simp: ready_def good_def view_def pair_ok_def)

lemma compiled_trees:
  assumes run: "compileParsed upper p flags = Inr cr" and wf: "wf_parsed p" and val: "valid_units input"
    and i: "i \<le> length input"
  shows "\<exists>h r. bt (cr_prog cr) (cr_classTable cr) input True 0 i
        (replicate (2 * cr_nGroups cr + cr_nScratch cr) (- 1)) h r \<and>
      map_option (take (2 * cr_nGroups cr)) r = ref_match upper input (flags_ctx flags) p i"
proof -
  let ?k = "numCaptures p + 1" and ?cx = "flags_ctx flags"
  obtain em emF x s where drain: "drainPendingSubs upper em = Inr emF" and q: "queue_ok ?k em"
    and x: "node_seg upper (RGroup (root p) (Some 0) None) s x" and code: "instrs em = sg_code x @ [(OP_MATCH, 0, 0)]"
    and s: "st_pc s = 0" "st_rev s = False" "ctx_of s = ?cx" "st_tbl s = []" "st_slot s = 2 * ?k"
    and em: "em_classTable em = sg_tbl x" "scratchCount em = sg_slots x" "pendingSubs em = sg_subs x"
      "em_unicode em = st_un s"
    and cr: "cr_prog cr = flatten (instrs emF)" "cr_classTable cr = em_classTable emF"
      "cr_nGroups cr = ?k" "cr_nScratch cr = scratchCount emF"
    by (rule compileParsed_parts [OF run wf])
  let ?M = "machine_of upper input ?k emF"
  let ?F = "mres upper input ?cx True (RGroup (root p) (Some 0) None)"
  note fin = drain_correct [OF val drain q]
  have f: "fits ?M 0 (sg_code x @ [(OP_MATCH, 0, 0)])"
    using fits_middle [of em emF "[]" _ "[]" upper input ?k] fin code by simp
  then have m: "instr_at ?M (length (sg_code x)) (OP_MATCH, 0, 0)"
    by (auto simp: fits_append intro: fits_instr)
  have "placed ?M s x"
    using fin f by (auto simp: placed_def s em completes_def fits_append)
  then have "runs ?M {} True 0 (length (sg_code x)) (2 * ?k) ?F"
    using implementsD [OF implements_node [of ?M "RGroup (root p) (Some 0) None" "{}" True ?cx], of s x] val wf x s
    by (simp add: wf_parsed_def orient_def)
  then have "yields ?M (\<lambda>c v. view ?M c = v) True 0 i (replicate (mc_slots ?M) (- 1))
      (first_some (\<lambda>s'. Some (snd s')) (?F (i, view ?M (replicate (mc_slots ?M) (- 1)))))"
  proof (rule runsD [OF _ ready_start])
    fix s' :: rstate and c' assume "view ?M c' = snd s'"
    then show "yields ?M (\<lambda>c v. view ?M c = v) True (length (sg_code x)) (fst s') c' (Some (snd s'))"
      by (rule yields_accept [OF m])
  qed (use i in simp_all)
  moreover have "view ?M (replicate (mc_slots ?M) (- 1)) = replicate (2 * ?k) (- 1)"
    by (simp add: view_def)
  moreover have "first_some (\<lambda>s'. Some (snd s')) (?F (i, replicate (2 * ?k) (- 1))) = ref_match upper input ?cx p i"
    by (simp add: ref_match_def split: list.splits)
  ultimately obtain h r where "bt (flatten (instrs emF)) (em_classTable emF) input True 0 i
        (replicate (2 * ?k + scratchCount emF) (- 1)) h r"
      "rel_option (\<lambda>c v. view ?M c = v) r (ref_match upper input ?cx p i)"
    unfolding yields_def by auto
  then show ?thesis
    by (intro exI [of _ h] exI [of _ r]) (auto simp: cr view_def elim: option.rel_cases)
qed

text \<open>The engine's answer with only the capture slots kept, as its callers read it.\<close>

fun project_result :: "nat \<Rightarrow> vm_result \<Rightarrow> vm_result" where
  "project_result n (Matched c) = Matched (take n c)"
| "project_result n r = r"

lemma project_result_of: "project_result n (result_of r) = result_of (map_option (take n) r)"
  by (cases r) auto

lemma first_some_map_option: "map_option g (first_some A xs) = first_some (\<lambda>i. map_option g (A i)) xs"
  by (induction xs) (auto split: option.splits)

lemma compiled_search:
  assumes run: "compileParsed upper p flags = Inr cr" and wf: "wf_parsed p" and val: "valid_units input"
  shows "project_result (2 * cr_nGroups cr)
      (search depth (cr_prog cr) (cr_classTable cr) (cr_nGroups cr) input startIdx sticky (cr_nScratch cr)) =
      result_of (ref_search upper input (flags_ctx flags) p (nat (max 0 startIdx)) sticky) \<or>
    (\<not> isLinearSafe (cr_prog cr) \<and>
     search depth (cr_prog cr) (cr_classTable cr) (cr_nGroups cr) input startIdx sticky (cr_nScratch cr) = RangeErr)"
proof -
  let ?start = "nat (max 0 startIdx)" and ?m = "2 * cr_nGroups cr"
  let ?ok = "\<lambda>i r. \<exists>h. bt (cr_prog cr) (cr_classTable cr) input True 0 i (replicate (?m + cr_nScratch cr) (- 1)) h r \<and>
      map_option (take ?m) r = ref_match upper input (flags_ctx flags) p i"
  have "\<exists>r. i \<le> length input \<longrightarrow> ?ok i r" for i
  proof (cases "i \<le> length input")
    case True
    obtain h r where "bt (cr_prog cr) (cr_classTable cr) input True 0 i (replicate (?m + cr_nScratch cr) (- 1)) h r"
      "map_option (take ?m) r = ref_match upper input (flags_ctx flags) p i"
      using compiled_trees [OF run wf val True] by (elim exE conjE)
    then show ?thesis by (intro exI [of _ r] impI exI [of _ h] conjI)
  qed simp
  then have "\<exists>A. \<forall>i. i \<le> length input \<longrightarrow> ?ok i (A i)" by (intro choice allI)
  then obtain A where A: "\<forall>i. i \<le> length input \<longrightarrow> ?ok i (A i)" by (rule exE)
  have trees: "trees_for (cr_prog cr) (cr_classTable cr) input (?m + cr_nScratch cr) A ?start"
    unfolding trees_for_def
  proof (intro allI impI)
    fix i assume i: "i \<le> length input"
    obtain h where "bt (cr_prog cr) (cr_classTable cr) input True 0 i
        (replicate (?m + cr_nScratch cr) (- 1)) h (A i)" using A [rule_format, OF i] by (elim exE conjE)
    then show "\<exists>h. bt (cr_prog cr) (cr_classTable cr) input True 0 i (replicate (?m + cr_nScratch cr) (- 1)) h (A i)"
      by (rule exI)
  qed
  have ref: "map_option (take ?m) (A i) = ref_match upper input (flags_ctx flags) p i" if "i \<le> length input" for i
    using A [rule_format, OF that] by (elim exE conjE)
  have "map_option (take ?m) (first_some A (positions input ?start sticky)) =
      ref_search upper input (flags_ctx flags) p ?start sticky"
    unfolding first_some_map_option ref_search_def positions_def [symmetric]
    by (rule first_some_cong) (use ref in \<open>auto simp: positions_def split: if_splits\<close>)
  with search_first [OF val trees, of depth sticky] show ?thesis
    by (auto simp: project_result_of)
qed

section \<open>The shape of an answer\<close>

lemma first_some_SomeE:
  assumes "first_some f xs = Some y"
  obtains x where "x \<in> set xs" "f x = Some y"
  using assms by (induction xs) (auto split: option.splits)

lemma ref_match_shape:
  assumes wf: "wf_parsed p" and val: "valid_units input" and i: "i \<le> length input"
    and c: "ref_match upper input cx p i = Some c"
  shows "length c = 2 * (numCaptures p + 1)" "c ! 0 = int i" "c ! 0 \<le> c ! 1" "c ! 1 \<le> int (length input)"
    "\<And>j. j < numCaptures p + 1 \<Longrightarrow> pair_ok input c j"
proof -
  let ?k = "numCaptures p + 1" and ?f = "mres upper input cx True (root p)"
  define s where "s = (i, replicate (2 * ?k) (- 1 :: int))"
  have good: "good ?k input {} s" using i by (auto simp: s_def good_def pair_ok_def simp del: replicate_Suc mult_Suc_right)
  obtain s' where s': "s' \<in> set (capture True 0 ?f s)" and cs: "c = snd s'"
    using c unfolding ref_match_def s_def [symmetric] by (cases "capture True 0 ?f s") auto
  have "safe ?k input {} True (canMatchEmpty (RGroup (root p) (Some 0) None)) (capture True 0 ?f)"
    using safe_mres [OF val wf [unfolded wf_parsed_def], of "{}" True upper cx] by simp
  note ok = safeD [OF this good s']
  obtain t where t: "t \<in> set (?f (i, (replicate (2 * ?k) (- 1))[0 := int i]))"
    and s't: "s' = (fst t, (snd t)[1 := int (fst t)])"
    using s' by (auto simp: capture_def s_def)
  have "keeps 0 ?f" using wf by (intro keeps_mres) (simp add: wf_parsed_def)
  from keepsD [OF this t] have "take 2 (snd t) = take 2 ((replicate (2 * ?k) (- 1))[0 := int i])"
    by (simp add: numeral_2_eq_2)
  then have "take 2 (snd t) ! 0 = int i" by simp
  then have c0: "snd t ! 0 = int i" by simp
  have len: "length c = 2 * ?k" using ok(1) by (simp add: good_def cs)
  then have lt: "1 < length (snd t)" by (simp add: cs s't)
  show "length c = 2 * ?k" by (rule len)
  show "c ! 0 = int i" by (simp add: cs s't c0)
  show "c ! 0 \<le> c ! 1" using ok(2) lt by (simp add: cs s't c0 ahead_def s_def)
  show "c ! 1 \<le> int (length input)" using ok(1) lt by (simp add: cs s't good_def)
  show "pair_ok input c j" if "j < ?k" for j using ok(1) that by (simp add: good_def cs)
qed

lemma ref_search_shape:
  assumes wf: "wf_parsed p" and val: "valid_units input"
    and c: "ref_search upper input cx p start sticky = Some c"
  shows "length c = 2 * (numCaptures p + 1)" "int start \<le> c ! 0" "c ! 0 \<le> c ! 1" "c ! 1 \<le> int (length input)"
    "\<And>j. j < numCaptures p + 1 \<Longrightarrow> pair_ok input c j"
proof -
  obtain i where i: "start \<le> i" "i \<le> length input" and m: "ref_match upper input cx p i = Some c"
    by (rule first_some_SomeE [OF c [unfolded ref_search_def]]) (auto split: if_splits)
  note shape = ref_match_shape [OF wf val i(2) m]
  show "length c = 2 * (numCaptures p + 1)" "int start \<le> c ! 0" "c ! 0 \<le> c ! 1" "c ! 1 \<le> int (length input)"
    "\<And>j. j < numCaptures p + 1 \<Longrightarrow> pair_ok input c j"
    using shape i(1) by simp_all
qed

lemma compileParsed_nGroups: "compileParsed upper p flags = Inr cr \<Longrightarrow> cr_nGroups cr = numCaptures p + 1"
  by (auto simp: compileParsed_def Let_def bindE_eq_Inr)

end
