(* ===== verification/Js_Strings.thy ===== *)
theory Js_Strings
  imports Re_Match_Units "HOL-Library.Sublist"
begin

text \<open>
  The operations of JavaScript's \<^verbatim>\<open>String\<close> and \<^verbatim>\<open>Number\<close> that the regex front end calls:
  code points of a UTF-16 string, substring search, and numerals in a radix. Source literals are
  written \<open>str ''...''\<close> and \<open>cu CHR ''.''\<close>.
\<close>

abbreviation cu :: "char \<Rightarrow> nat" where "cu \<equiv> of_char"

definition str :: "string \<Rightarrow> js_string" where
  "str = map of_char"

section \<open>Code points\<close>

definition codePointAt :: "js_string \<Rightarrow> nat \<Rightarrow> nat option" where
  "codePointAt s i =
     (case nth_opt s i of
        None \<Rightarrow> None
      | Some u \<Rightarrow>
          (case nth_opt s (i + 1) of
             Some t \<Rightarrow> if is_lead u \<and> is_trail t then Some (pair_code_point u t) else Some u
           | None \<Rightarrow> Some u))"

definition fromCodePoint :: "nat \<Rightarrow> js_string" where
  "fromCodePoint cp =
     (if cp \<le> 0xffff then [cp]
      else [0xd800 + (cp - 0x10000) div 1024, 0xdc00 + (cp - 0x10000) mod 1024])"

definition cp_width :: "nat \<Rightarrow> nat" where
  "cp_width cp = (if 0xffff < cp then 2 else 1)"

text \<open>\<^verbatim>\<open>Array.from(s)\<close>, each element as its code point.\<close>

fun code_points :: "js_string \<Rightarrow> nat list" where
  "code_points [] = []"
| "code_points [u] = [u]"
| "code_points (u # v # s) =
     (if is_lead u \<and> is_trail v then pair_code_point u v # code_points s
      else u # code_points (v # s))"

lemma pair_code_point_parts:
  assumes "0x10000 \<le> cp" "cp \<le> 0x10ffff"
  shows "is_lead (0xd800 + (cp - 0x10000) div 1024)" "is_trail (0xdc00 + (cp - 0x10000) mod 1024)"
    "pair_code_point (0xd800 + (cp - 0x10000) div 1024) (0xdc00 + (cp - 0x10000) mod 1024) = cp"
proof -
  define q r where "q = (cp - 0x10000) div 1024" and "r = (cp - 0x10000) mod 1024"
  have q: "q \<le> 1023" and r: "r < 1024" using assms by (simp_all add: q_def r_def)
  have "cp - 0x10000 = q * 1024 + r" by (simp add: q_def r_def)
  then have cp: "cp = 0x10000 + q * 1024 + r" using assms(1) by linarith
  show "is_lead (0xd800 + (cp - 0x10000) div 1024)" "is_trail (0xdc00 + (cp - 0x10000) mod 1024)"
    unfolding q_def [symmetric] r_def [symmetric] is_lead_def is_trail_def using q r by simp_all
  show "pair_code_point (0xd800 + (cp - 0x10000) div 1024) (0xdc00 + (cp - 0x10000) mod 1024) = cp"
    unfolding q_def [symmetric] r_def [symmetric] pair_code_point_def by (simp add: cp)
qed

lemma codePointAt_fromCodePoint:
  assumes "cp \<le> 0x10ffff" "\<not> is_lead cp"
  shows "codePointAt (fromCodePoint cp @ s) 0 = Some cp"
  using assms pair_code_point_parts [of cp]
  by (cases s) (auto simp: codePointAt_def fromCodePoint_def nth_opt_def)

lemma length_fromCodePoint [simp]: "length (fromCodePoint cp) = cp_width cp"
  by (simp add: fromCodePoint_def cp_width_def)

lemma valid_units_fromCodePoint: "cp \<le> 0x10ffff \<Longrightarrow> valid_units (fromCodePoint cp)"
  by (auto simp: fromCodePoint_def valid_units_def)

lemma pair_code_point_le: "is_lead u \<Longrightarrow> is_trail t \<Longrightarrow> pair_code_point u t \<le> 0x10ffff \<and> 0xffff < pair_code_point u t"
  unfolding pair_code_point_def is_lead_def is_trail_def by auto

lemma codePointAt_bound:
  assumes "valid_units s" "codePointAt s i = Some cp"
  shows "cp \<le> 0x10ffff" "i + cp_width cp \<le> length s"
proof -
  from assms(1) have units: "s ! j < 65536" if "j < length s" for j
    using that by (simp add: valid_units_def list_all_length)
  have "cp \<le> 0x10ffff \<and> i + cp_width cp \<le> length s"
  proof (cases "i + 1 < length s \<and> is_lead (s ! i) \<and> is_trail (s ! (i + 1))")
    case True
    then have "cp = pair_code_point (s ! i) (s ! (i + 1))"
      using assms(2) by (simp add: codePointAt_def nth_opt_def)
    with True pair_code_point_le [of "s ! i" "s ! (i + 1)"] show ?thesis by (simp add: cp_width_def)
  next
    case False
    then have "i < length s" "cp = s ! i" using assms(2) by (auto simp: codePointAt_def nth_opt_def split: if_splits)
    with units [of i] show ?thesis by (simp add: cp_width_def)
  qed
  then show "cp \<le> 0x10ffff" "i + cp_width cp \<le> length s" by simp_all
qed

lemma code_points_ascii: "(\<forall>u \<in> set s. \<not> is_lead u) \<Longrightarrow> code_points s = s"
  by (induction s rule: code_points.induct) auto

lemma code_points_append_ascii: "(\<forall>u \<in> set s. \<not> is_lead u) \<Longrightarrow> code_points (s @ t) = s @ code_points t"
proof (induction s)
  case (Cons u s)
  then show ?case by (cases "s @ t") auto
qed simp

section \<open>Searching\<close>

definition startsWith_at :: "js_string \<Rightarrow> js_string \<Rightarrow> nat \<Rightarrow> bool" where
  "startsWith_at s p i \<longleftrightarrow> i \<le> length s \<and> take (length p) (drop i s) = p"

fun includes_str :: "js_string \<Rightarrow> js_string \<Rightarrow> bool" where
  "includes_str [] p = (p = [])"
| "includes_str (c # s) p = (take (length p) (c # s) = p \<or> includes_str s p)"

lemma includes_str_iff: "includes_str s p \<longleftrightarrow> sublist p s"
proof (induction s)
  case (Cons c s)
  have "take (length p) (c # s) = p \<longleftrightarrow> prefix p (c # s)"
    by (metis append_eq_conv_conj prefix_def take_is_prefix)
  then show ?case using Cons by (auto simp: sublist_Cons_right)
qed auto

text \<open>\<^verbatim>\<open>s.indexOf(c, from)\<close> for a single unit; \<open>-1\<close> is \<open>None\<close>.\<close>

definition indexOf :: "js_string \<Rightarrow> nat \<Rightarrow> nat \<Rightarrow> nat option" where
  "indexOf s c i =
     (let k = length (takeWhile (\<lambda>u. u \<noteq> c) (drop i s)) in
      if i + k < length s then Some (i + k) else None)"

lemma indexOf_Some:
  assumes "indexOf s c i = Some j"
  shows "i \<le> j" "j < length s" "s ! j = c"
proof -
  define k where "k = length (takeWhile (\<lambda>u. u \<noteq> c) (drop i s))"
  from assms have j: "j = i + k" and lt: "i + k < length s"
    unfolding indexOf_def Let_def k_def [symmetric] by (simp_all split: if_splits)
  then have "k < length (drop i s)" by simp
  then have "\<not> (drop i s ! k \<noteq> c)"
    unfolding k_def using nth_length_takeWhile [of "\<lambda>u. u \<noteq> c" "drop i s"] by blast
  then show "i \<le> j" "j < length s" "s ! j = c" using j lt by simp_all
qed

lemma indexOf_bounds: "indexOf s c i = Some j \<Longrightarrow> i \<le> j \<and> j < length s"
  using indexOf_Some by blast

lemma indexOf_the: "indexOf s c i \<noteq> None \<Longrightarrow> i \<le> the (indexOf s c i) \<and> the (indexOf s c i) < length s"
  using indexOf_bounds by fastforce

text \<open>\<^verbatim>\<open>s.slice(a, b)\<close> for in-range non-negative bounds.\<close>

definition js_slice :: "js_string \<Rightarrow> nat \<Rightarrow> nat \<Rightarrow> js_string" where
  "js_slice s a b = take (b - a) (drop a s)"

lemma sublist_slice: "sublist (js_slice s a b) s" "sublist (drop a s) s" "sublist (butlast (tl s)) s"
proof -
  show "sublist (js_slice s a b) s" "sublist (drop a s) s"
    unfolding js_slice_def by (meson sublist_drop sublist_take sublist_order.order_trans)+
  show "sublist (butlast (tl s)) s"
    by (metis butlast_conv_take drop_Suc drop0 sublist_drop sublist_take sublist_order.order_trans)
qed

lemma sublist_units: "sublist p s \<Longrightarrow> valid_units s \<Longrightarrow> valid_units p"
  unfolding valid_units_def list_all_iff using set_mono_sublist by blast

section \<open>Splitting and joining\<close>

text \<open>\<^verbatim>\<open>s.split(sep)\<close> for a one-unit separator, and \<^verbatim>\<open>xs.join(sep)\<close>.\<close>

fun split_on :: "nat \<Rightarrow> js_string \<Rightarrow> js_string list" where
  "split_on sep [] = [[]]"
| "split_on sep (c # s) =
     (if c = sep then [] # split_on sep s
      else (case split_on sep s of [] \<Rightarrow> [[c]] | p # ps \<Rightarrow> (c # p) # ps))"

fun join_with :: "nat \<Rightarrow> js_string list \<Rightarrow> js_string" where
  "join_with sep [] = []"
| "join_with sep [p] = p"
| "join_with sep (p # ps) = p @ sep # join_with sep ps"

lemma split_on_clean: "sep \<notin> set s \<Longrightarrow> split_on sep s = [s]"
  by (induction s) auto

lemma split_on_append: "sep \<notin> set p \<Longrightarrow> split_on sep (p @ sep # s) = p # split_on sep s"
  by (induction p) auto

lemma split_on_join: "\<forall>p \<in> set ps. sep \<notin> set p \<Longrightarrow> ps \<noteq> [] \<Longrightarrow> split_on sep (join_with sep ps) = ps"
  by (induction sep ps rule: join_with.induct) (auto simp: split_on_clean split_on_append)

lemma join_with_set: "c \<in> set (join_with sep ps) \<Longrightarrow> c = sep \<or> (\<exists>p \<in> set ps. c \<in> set p)"
  by (induction sep ps rule: join_with.induct) auto

lemma join_with_nonempty: "ps \<noteq> [] \<Longrightarrow> \<forall>p \<in> set ps. p \<noteq> [] \<Longrightarrow> join_with sep ps \<noteq> []"
  by (induction sep ps rule: join_with.induct) auto

section \<open>Numerals\<close>

definition digit_value :: "nat \<Rightarrow> nat option" where
  "digit_value u =
     (if cu CHR ''0'' \<le> u \<and> u \<le> cu CHR ''9'' then Some (u - cu CHR ''0'')
      else if cu CHR ''a'' \<le> u \<and> u \<le> cu CHR ''z'' then Some (u - cu CHR ''a'' + 10)
      else if cu CHR ''A'' \<le> u \<and> u \<le> cu CHR ''Z'' then Some (u - cu CHR ''A'' + 10)
      else None)"

definition is_digit_of :: "nat \<Rightarrow> nat \<Rightarrow> bool" where
  "is_digit_of radix u \<longleftrightarrow> (case digit_value u of Some d \<Rightarrow> d < radix | None \<Rightarrow> False)"

abbreviation is_hex :: "nat \<Rightarrow> bool" where "is_hex \<equiv> is_digit_of 16"
abbreviation is_decimal :: "nat \<Rightarrow> bool" where "is_decimal \<equiv> is_digit_of 10"

definition all_hex :: "nat \<Rightarrow> js_string \<Rightarrow> bool" where
  "all_hex n s \<longleftrightarrow> length s = n \<and> list_all is_hex s"

text \<open>\<^verbatim>\<open>parseInt(s, radix)\<close> of a string of digits, and \<^verbatim>\<open>n.toString(radix)\<close>.\<close>

definition parse_radix :: "nat \<Rightarrow> js_string \<Rightarrow> nat" where
  "parse_radix radix s = foldl (\<lambda>v u. v * radix + the (digit_value u)) 0 s"

definition digit_unit :: "nat \<Rightarrow> nat" where
  "digit_unit d = (if d < 10 then cu CHR ''0'' + d else cu CHR ''a'' + (d - 10))"

fun to_radix :: "nat \<Rightarrow> nat \<Rightarrow> js_string" where
  "to_radix radix n =
     (if n < radix \<or> radix < 2 then [digit_unit n]
      else to_radix radix (n div radix) @ [digit_unit (n mod radix)])"

declare to_radix.simps [simp del]

lemma digit_value_unit: "d < 36 \<Longrightarrow> digit_value (digit_unit d) = Some d"
  by (auto simp: digit_value_def digit_unit_def)

lemma digit_unit_of: "d < radix \<Longrightarrow> radix \<le> 36 \<Longrightarrow> is_digit_of radix (digit_unit d)"
  by (simp add: is_digit_of_def digit_value_unit)

lemma parse_radix_snoc: "parse_radix radix (s @ [u]) = parse_radix radix s * radix + the (digit_value u)"
  by (simp add: parse_radix_def)

lemma parse_to_radix:
  assumes "2 \<le> radix" "radix \<le> 36"
  shows "parse_radix radix (to_radix radix n) = n"
proof (induction n rule: less_induct)
  case (less n)
  show ?case
  proof (cases "n < radix")
    case True
    then show ?thesis using assms by (simp add: to_radix.simps [of radix n] parse_radix_def digit_value_unit)
  next
    case False
    then have "n div radix < n" using assms(1) by (intro div_less_dividend) auto
    moreover have "n mod radix < radix" using assms(1) by simp
    then have "n mod radix < 36" using assms(2) by linarith
    ultimately show ?thesis using False assms less [of "n div radix"]
      by (simp add: to_radix.simps [of radix n] parse_radix_snoc digit_value_unit)
  qed
qed

lemma digits_to_radix:
  assumes "2 \<le> radix" "radix \<le> 36"
  shows "list_all (is_digit_of radix) (to_radix radix n)" "to_radix radix n \<noteq> []"
proof -
  show "list_all (is_digit_of radix) (to_radix radix n)"
  proof (induction n rule: less_induct)
    case (less n)
    show ?case
    proof (cases "n < radix")
      case True
      then show ?thesis using assms by (simp add: to_radix.simps [of radix n] digit_unit_of)
    next
      case False
      then have "n div radix < n" using assms(1) by (intro div_less_dividend) auto
      then show ?thesis using less [of "n div radix"] False assms
        by (simp add: to_radix.simps [of radix n] digit_unit_of)
    qed
  qed
  show "to_radix radix n \<noteq> []" by (subst to_radix.simps) simp
qed

lemma parse_radix_bound:
  assumes "list_all (is_digit_of radix) s"
  shows "parse_radix radix s < radix ^ length s"
  using assms
proof (induction s rule: rev_induct)
  case (snoc u s)
  then have d: "the (digit_value u) < radix" by (auto simp: is_digit_of_def split: option.splits)
  from snoc have "parse_radix radix s + 1 \<le> radix ^ length s" by simp
  then have "(parse_radix radix s + 1) * radix \<le> radix ^ length s * radix" by (rule mult_le_mono1)
  with d show ?case by (simp add: parse_radix_snoc algebra_simps)
qed (simp add: parse_radix_def)

lemma hex_range: "is_hex u \<Longrightarrow> u < 128"
  by (auto simp: is_digit_of_def digit_value_def split: if_splits)

end
