(* ===== verification/Re_Unicode.thy ===== *)
theory Re_Unicode
  imports Js_Strings Re_Casefold
begin

text \<open>
  Code-point sets resolved at compile time (\<^verbatim>\<open>src/codegen/regex/unicode.ts\<close>). The host's
  \<^verbatim>\<open>RegExp\<close>, which carries the Unicode tables, is the parameter \<open>host_env\<close>: its constructor
  may reject a pattern, and an accepted one answers \<^verbatim>\<open>matchAll\<close> and \<^verbatim>\<open>test\<close>. The
  generated emoji tables are a parameter too. The enumeration cache is left out: the host is a
  function, so a cached answer is the answer.
\<close>

record host_regexp =
  hr_matchAll :: "js_string \<Rightarrow> js_string list"
  hr_test :: "js_string \<Rightarrow> bool"

record host_env =
  hostRegExp :: "js_string \<Rightarrow> js_string \<Rightarrow> host_regexp option"
  stringPropertyData :: "js_string \<Rightarrow> js_string"

section \<open>Enumerating a class\<close>

definition scalar_values :: "nat list" where
  "scalar_values = [0..<0xd800] @ [0xe000..<0x110000]"

definition surrogates :: "nat list" where
  "surrogates = [0xd800..<0xe000]"

definition getAllCodePointsString :: js_string where
  "getAllCodePointsString = concat (map fromCodePoint scalar_values)"

declare scalar_values_def [code_unfold] surrogates_def [code_unfold] getAllCodePointsString_def [code_unfold]

definition extend_run :: "ranges \<Rightarrow> nat \<Rightarrow> ranges" where
  "extend_run out cp =
     (if out \<noteq> [] \<and> cp = snd (last out) + 1 then butlast out @ [(fst (last out), cp)]
      else out @ [(cp, cp)])"

definition toRanges :: "nat list \<Rightarrow> ranges" where
  "toRanges xs = foldl extend_run [] xs"

fun matched_code_points :: "js_string list \<Rightarrow> regex_error + nat list" where
  "matched_code_points [] = Inr []"
| "matched_code_points (m # ms) =
     (case codePointAt m 0 of
        None \<Rightarrow> Inl (Unsupported ''class source matched a multi-code-point string'')
      | Some cp \<Rightarrow>
          (if length m \<noteq> cp_width cp
           then Inl (Unsupported ''class source matched a multi-code-point string'')
           else bindE (matched_code_points ms) (\<lambda>cps. Inr (cp # cps))))"

definition enumerateClassRanges :: "host_env \<Rightarrow> js_string \<Rightarrow> js_string \<Rightarrow> regex_error + ranges" where
  "enumerateClassRanges h source flagStr =
     (if includes_str source (str [CHR 0x5C, CHR ''q'', CHR ''{''])
      then Inl (Unsupported ''string disjunction'')
      else case (hostRegExp h source (str ''g'' @ flagStr),
                 hostRegExp h (str ''^(?:'' @ source @ str '')$'') flagStr) of
             (Some scanRe, Some probeRe) \<Rightarrow>
               bindE (matched_code_points (hr_matchAll scanRe getAllCodePointsString)) (\<lambda>matched.
                 Inr (toRanges (sort (matched @ filter (\<lambda>cp. hr_test probeRe [cp]) surrogates))))
           | _ \<Rightarrow> Inl (Unsupported ''host rejected class source''))"

text \<open>Escape a code point as a class-safe source fragment.\<close>

definition codePointSource :: "nat \<Rightarrow> js_string" where
  "codePointSource cp = str [CHR 0x5C, CHR ''u'', CHR ''{''] @ to_radix 16 cp @ str ''}''"

section \<open>String disjunctions\<close>

abbreviation "backslash \<equiv> cu (CHR 0x5C)"

text \<open>The code point of one escape, read after its backslash, with the code points that follow.\<close>

definition q_unicode_escape :: "nat list \<Rightarrow> regex_error + nat \<times> nat list" where
  "q_unicode_escape r =
     (if take 1 r = [cu CHR ''{''] then
        (let hex = takeWhile (\<lambda>c. c \<noteq> cu CHR ''}'') (drop 1 r); rest = drop (length hex + 1) r in
         if rest = [] \<or> hex = [] \<or> \<not> list_all is_hex hex then Inl (Unsupported ''bad u{} escape'')
         else if 0x10ffff < parse_radix 16 hex then Inl (Unsupported ''u{} out of range'')
         else Inr (parse_radix 16 hex, drop 1 rest))
      else if \<not> all_hex 4 (take 4 r) then Inl (Unsupported ''bad u escape'')
      else
        (let cp = parse_radix 16 (take 4 r); r4 = drop 4 r; thex = take 4 (drop 2 r4);
             trail = parse_radix 16 thex
         in if is_lead cp \<and> take 2 r4 = [backslash, cu CHR ''u''] \<and> all_hex 4 thex \<and> is_trail trail
            then Inr (pair_code_point cp trail, drop 6 r4)
            else Inr (cp, r4)))"

fun q_escape :: "nat list \<Rightarrow> regex_error + nat \<times> nat list" where
  "q_escape [] = Inl (Unsupported ''trailing escape'')"
| "q_escape (e # r) =
     (if e = cu CHR ''n'' then Inr (0x0a, r)
      else if e = cu CHR ''r'' then Inr (0x0d, r)
      else if e = cu CHR ''t'' then Inr (0x09, r)
      else if e = cu CHR ''f'' then Inr (0x0c, r)
      else if e = cu CHR ''v'' then Inr (0x0b, r)
      else if e = cu CHR ''b'' then Inr (0x08, r)
      else if e = cu CHR ''0'' then
        (if r \<noteq> [] \<and> is_decimal (hd r) then Inl (Unsupported ''legacy octal escape'') else Inr (0x00, r))
      else if e = cu CHR ''x'' then
        (if all_hex 2 (take 2 r) then Inr (parse_radix 16 (take 2 r), drop 2 r)
         else Inl (Unsupported ''bad x escape''))
      else if e = cu CHR ''u'' then q_unicode_escape r
      else if e = cu CHR ''c'' then
        (case r of
           l # r' \<Rightarrow>
             if cu CHR ''A'' \<le> l \<and> l \<le> cu CHR ''Z'' \<or> cu CHR ''a'' \<le> l \<and> l \<le> cu CHR ''z''
             then Inr (l mod 32, r') else Inl (Unsupported ''c without a control letter'')
         | [] \<Rightarrow> Inl (Unsupported ''c without a control letter''))
      else Inr (e, r))"

lemma q_unicode_escape_length: "q_unicode_escape r = Inr (cp, r') \<Longrightarrow> length r' \<le> length r"
  by (auto simp: q_unicode_escape_def Let_def split: if_splits)

lemma q_escape_length: "q_escape r = Inr (cp, r') \<Longrightarrow> length r' \<le> length r"
  by (cases r) (auto dest: q_unicode_escape_length split: if_splits list.splits)

function parseStringDisjunction_loop ::
  "nat list \<Rightarrow> nat list \<Rightarrow> nat list list \<Rightarrow> regex_error + nat list list"
where
  "parseStringDisjunction_loop [] cur operands = Inr (operands @ [cur])"
| "parseStringDisjunction_loop (ch # r) cur operands =
     (if ch = cu CHR ''|'' then parseStringDisjunction_loop r [] (operands @ [cur])
      else if ch = backslash then
        bindE (q_escape r) (\<lambda>x. parseStringDisjunction_loop (snd x) (cur @ [fst x]) operands)
      else if ch = cu CHR ''}'' then Inl (Unsupported ''unexpected brace in disjunction body'')
      else parseStringDisjunction_loop r (cur @ [ch]) operands)"
  by pat_completeness auto
termination
  by (relation "measure (\<lambda>(r, _, _). length r)") (auto dest: q_escape_length simp: less_Suc_eq_le)

definition parseStringDisjunction :: "js_string \<Rightarrow> regex_error + nat list list" where
  "parseStringDisjunction qBody = parseStringDisjunction_loop (code_points qBody) [] []"

section \<open>The ranges of an enumeration\<close>

lemma extend_run_correct:
  assumes "ordered out"
  shows "ordered (extend_run out cp)" "in_ranges (extend_run out cp) c \<longleftrightarrow> in_ranges out c \<or> c = cp"
proof -
  have "ordered (extend_run out cp) \<and> (in_ranges (extend_run out cp) c \<longleftrightarrow> in_ranges out c \<or> c = cp)"
  proof (cases "out \<noteq> [] \<and> cp = snd (last out) + 1")
    case True
    obtain l h where lh: "last out = (l, h)" by (cases "last out")
    with True have out: "out = butlast out @ [(l, h)]" by (metis append_butlast_last_id)
    have "ordered (butlast out)" "l \<le> h" using assms by (subst (asm) out, simp add: ordered_def)+
    moreover have "in_ranges out c \<longleftrightarrow> in_ranges (butlast out) c \<or> l \<le> c \<and> c \<le> h"
      by (subst (1) out) simp
    ultimately show ?thesis using True by (auto simp: extend_run_def lh ordered_def)
  next
    case False
    then show ?thesis using assms by (auto simp: extend_run_def ordered_def)
  qed
  then show "ordered (extend_run out cp)" "in_ranges (extend_run out cp) c \<longleftrightarrow> in_ranges out c \<or> c = cp" by simp_all
qed

lemma foldl_extend_run:
  assumes "ordered out"
  shows "ordered (foldl extend_run out xs) \<and>
    (in_ranges (foldl extend_run out xs) c \<longleftrightarrow> in_ranges out c \<or> c \<in> set xs)"
  using assms by (induction xs arbitrary: out) (auto simp: extend_run_correct)

lemma toRanges_member: "in_ranges (toRanges xs) c \<longleftrightarrow> c \<in> set xs"
  and toRanges_ordered: "ordered (toRanges xs)"
  using foldl_extend_run [of "[]" xs c] by (auto simp: toRanges_def ordered_def)

lemma foldl_extend_run_sorted:
  assumes "disjoint_sorted out" "sorted_wrt (<) xs" "\<And>x. x \<in> set xs \<Longrightarrow> out \<noteq> [] \<Longrightarrow> snd (last out) < x"
  shows "disjoint_sorted (foldl extend_run out xs)"
  using assms
proof (induction xs arbitrary: out)
  case (Cons x xs)
  have "disjoint_sorted (extend_run out x)"
  proof (cases "out \<noteq> [] \<and> x = snd (last out) + 1")
    case True
    then show ?thesis using disjoint_sorted_last [OF Cons.prems(1), of x] by (simp add: extend_run_def max_def)
  next
    case False
    then show ?thesis using Cons.prems by (auto simp: extend_run_def disjoint_sorted_snoc)
  qed
  moreover have "snd (last (extend_run out x)) = x" by (simp add: extend_run_def)
  ultimately show ?case using Cons.prems(2) by (simp, intro Cons.IH) auto
qed simp

lemma toRanges_disjoint: "sorted_wrt (<) xs \<Longrightarrow> disjoint_sorted (toRanges xs)"
  unfolding toRanges_def by (rule foldl_extend_run_sorted) simp_all

lemma enumerateClassRanges_ordered: "enumerateClassRanges h source fl = Inr rs \<Longrightarrow> ordered rs"
  by (auto simp: enumerateClassRanges_def bindE_eq_Inr toRanges_ordered split: if_splits option.splits)

text \<open>
  What an enumeration relies on: the host accepts the class in both forms, its global scan of the
  scalar values visits the members one code point at a time and in order, and the anchored probe
  answers membership of a lone surrogate.
\<close>

definition host_decides :: "host_env \<Rightarrow> js_string \<Rightarrow> js_string \<Rightarrow> (nat \<Rightarrow> bool) \<Rightarrow> bool" where
  "host_decides h source fl P \<longleftrightarrow>
     \<not> includes_str source (str [CHR 0x5C, CHR ''q'', CHR ''{'']) \<and>
     (\<exists>scan probe. hostRegExp h source (str ''g'' @ fl) = Some scan \<and>
        hostRegExp h (str ''^(?:'' @ source @ str '')$'') fl = Some probe \<and>
        hr_matchAll scan getAllCodePointsString = map fromCodePoint (filter P scalar_values) \<and>
        (\<forall>cp \<in> set surrogates. hr_test probe [cp] = P cp))"

lemma matched_code_points_scalars:
  "(\<And>cp. cp \<in> set cps \<Longrightarrow> cp \<le> 0x10ffff \<and> \<not> is_lead cp) \<Longrightarrow>
   matched_code_points (map fromCodePoint cps) = Inr cps"
proof (induction cps)
  case (Cons cp cps)
  then have "codePointAt (fromCodePoint cp) 0 = Some cp" using codePointAt_fromCodePoint [of cp "[]"] by simp
  then show ?case using Cons by simp
qed simp

lemma set_scalar_values: "cp \<in> set scalar_values \<longleftrightarrow> cp \<le> 0x10ffff \<and> (cp < 0xd800 \<or> 0xe000 \<le> cp)"
  unfolding scalar_values_def set_append set_upt by auto

lemma set_surrogates: "cp \<in> set surrogates \<longleftrightarrow> 0xd800 \<le> cp \<and> cp \<le> 0xdfff"
  unfolding surrogates_def set_upt by auto

lemma distinct_code_points: "distinct (scalar_values @ surrogates)"
  unfolding scalar_values_def surrogates_def by (simp only: distinct_append distinct_upt set_append set_upt) auto

lemma enumerateClassRanges_host:
  assumes "host_decides h source fl P"
  obtains rs where "enumerateClassRanges h source fl = Inr rs" "disjoint_sorted rs"
    "\<And>c. in_ranges rs c \<longleftrightarrow> c \<le> 0x10ffff \<and> P c"
proof -
  obtain scan probe where h: "hostRegExp h source (str ''g'' @ fl) = Some scan"
      "hostRegExp h (str ''^(?:'' @ source @ str '')$'') fl = Some probe"
    and scan: "hr_matchAll scan getAllCodePointsString = map fromCodePoint (filter P scalar_values)"
    and probe: "\<forall>cp \<in> set surrogates. hr_test probe [cp] = P cp"
    using assms unfolding host_decides_def by blast
  define xs where "xs = filter P scalar_values @ filter (\<lambda>cp. hr_test probe [cp]) surrogates"
  have mem: "c \<in> set xs \<longleftrightarrow> c \<le> 0x10ffff \<and> P c" for c
    using probe by (auto simp: xs_def set_scalar_values set_surrogates)
  have "distinct xs" using distinct_code_points by (auto simp: xs_def)
  then have "sorted_wrt (<) (sort xs)" by (simp add: strict_sorted_iff)
  moreover have "matched_code_points (map fromCodePoint (filter P scalar_values)) = Inr (filter P scalar_values)"
    by (rule matched_code_points_scalars) (auto simp: set_scalar_values is_lead_def)
  then have "enumerateClassRanges h source fl = Inr (toRanges (sort xs))"
    using assms h scan by (simp add: enumerateClassRanges_def host_decides_def xs_def)
  ultimately show thesis by (intro that) (auto simp: toRanges_disjoint toRanges_member mem)
qed

section \<open>Reading back printed strings\<close>

text \<open>The disjunction body that spells every code point as an escape.\<close>

fun disjunction_source :: "nat list list \<Rightarrow> js_string" where
  "disjunction_source [] = []"
| "disjunction_source [w] = concat (map codePointSource w)"
| "disjunction_source (w # v # ws) =
     concat (map codePointSource w) @ str ''|'' @ disjunction_source (v # ws)"

lemma hex_not_brace: "is_hex u \<Longrightarrow> u \<noteq> cu CHR ''}''"
  by (auto simp: is_digit_of_def digit_value_def split: if_splits)

lemma q_escape_codePointSource:
  assumes "cp \<le> 0x10ffff"
  shows "q_escape (drop 1 (codePointSource cp) @ r) = Inr (cp, r)"
proof -
  have hex: "list_all is_hex (to_radix 16 cp)" "to_radix 16 cp \<noteq> []" by (rule digits_to_radix; simp)+
  have "takeWhile (\<lambda>c. c \<noteq> cu CHR ''}'') (to_radix 16 cp @ cu CHR ''}'' # r) = to_radix 16 cp"
    using hex(1) hex_not_brace by (subst takeWhile_append2) (metis list_all_iff, simp)
  then show ?thesis using hex assms
    by (simp add: codePointSource_def str_def q_unicode_escape_def Let_def parse_to_radix)
qed

lemma codePointSource_hd: "codePointSource cp = backslash # drop 1 (codePointSource cp)"
  by (simp add: codePointSource_def str_def)

lemma disjunction_word:
  assumes "\<forall>cp \<in> set w. cp \<le> 0x10ffff"
  shows "parseStringDisjunction_loop (concat (map codePointSource w) @ r) cur ops =
    parseStringDisjunction_loop r (cur @ w) ops"
  using assms
proof (induction w arbitrary: cur)
  case (Cons cp w)
  define t where "t = drop 1 (codePointSource cp)"
  have cps: "codePointSource cp = backslash # t" unfolding t_def by (rule codePointSource_hd)
  have "q_escape (t @ concat (map codePointSource w) @ r) = Inr (cp, concat (map codePointSource w) @ r)"
    unfolding t_def by (rule q_escape_codePointSource) (use Cons.prems in simp)
  then show ?case using Cons by (simp add: cps)
qed simp

lemma disjunction_words:
  assumes "ws \<noteq> []" "\<forall>w \<in> set ws. \<forall>cp \<in> set w. cp \<le> 0x10ffff"
  shows "parseStringDisjunction_loop (disjunction_source ws) [] ops = Inr (ops @ ws)"
  using assms
proof (induction ws arbitrary: ops rule: disjunction_source.induct)
  case (2 w)
  then show ?case using disjunction_word [of w "[]" "[]" ops] by simp
next
  case (3 w v ws)
  then show ?case using disjunction_word [of w "str ''|'' @ disjunction_source (v # ws)" "[]" ops]
    by (simp add: str_def)
qed simp

lemma codePointSource_ascii: "u \<in> set (codePointSource cp) \<Longrightarrow> u < 128"
  using digits_to_radix(1) [of 16 cp] hex_range by (auto simp: codePointSource_def str_def list_all_iff)

lemma disjunction_source_ascii: "u \<in> set (disjunction_source ws) \<Longrightarrow> u < 128"
  by (induction ws rule: disjunction_source.induct) (auto simp: codePointSource_ascii str_def)

lemma parseStringDisjunction_source:
  assumes "ws \<noteq> []" "\<forall>w \<in> set ws. \<forall>cp \<in> set w. cp \<le> 0x10ffff"
  shows "parseStringDisjunction (disjunction_source ws) = Inr ws"
proof -
  have "\<forall>u \<in> set (disjunction_source ws). \<not> is_lead u"
    by (auto simp: is_lead_def dest: disjunction_source_ascii)
  then show ?thesis using disjunction_words [OF assms, of "[]"]
    by (simp add: parseStringDisjunction_def code_points_ascii)
qed

end
