(* ===== verification/Re_String_Sets.thy ===== *)
theory Re_String_Sets
  imports Re_Unicode
begin

text \<open>
  Finite sets of strings for v-mode classes (\<^verbatim>\<open>src/codegen/regex/unicode-string-properties.ts\<close>):
  the two-part representation, its algebra, and the evaluator of a class with nested classes,
  \<^verbatim>\<open>\\q{...}\<close> operands, string properties and the operators \<^verbatim>\<open>&&\<close> and \<^verbatim>\<open>--\<close>. The
  source keys its string map by the decimal spelling of a sequence, which is one key per sequence:
  the model keeps the sequences themselves, in insertion order. \<open>depth\<close> is the room on the host's
  stack for nested classes.
\<close>

record unicode_string_set =
  us_ranges :: ranges
  us_strings :: "nat list list"

section \<open>Building and combining sets\<close>

definition singletonRanges :: "nat list \<Rightarrow> ranges" where
  "singletonRanges cps = merge_ranges (map (\<lambda>cp. (cp, cp)) (sort cps))"

text \<open>\<^verbatim>\<open>strings.set(key, sequence)\<close>.\<close>

definition add_string :: "nat list list \<Rightarrow> nat list \<Rightarrow> nat list list" where
  "add_string ws w = (if w \<in> set ws then ws else ws @ [w])"

definition fromSequences :: "nat list list \<Rightarrow> unicode_string_set" where
  "fromSequences ws =
     \<lparr>us_ranges = singletonRanges (concat (filter (\<lambda>w. length w = 1) ws)),
      us_strings = foldl add_string [] (filter (\<lambda>w. length w \<noteq> 1) ws)\<rparr>"

definition unionRanges :: "ranges \<Rightarrow> ranges \<Rightarrow> ranges" where
  "unionRanges left right = merge_ranges (sort (left @ right))"

fun intersectRanges :: "ranges \<Rightarrow> ranges \<Rightarrow> ranges" where
  "intersectRanges ((leftLo, leftHi) # ls) ((rightLo, rightHi) # rs) =
     (let lo = max leftLo rightLo; hi = min leftHi rightHi;
          rest = (if leftHi < rightHi then intersectRanges ls ((rightLo, rightHi) # rs)
                  else intersectRanges ((leftLo, leftHi) # ls) rs)
      in if lo \<le> hi then (lo, hi) # rest else rest)"
| "intersectRanges _ _ = []"

text \<open>The inner loop of the subtraction: what is left of \<open>[cursor, leftHi]\<close>.\<close>

fun subtract_scan :: "nat \<Rightarrow> nat \<Rightarrow> ranges \<Rightarrow> ranges" where
  "subtract_scan cursor leftHi [] = (if cursor \<le> leftHi then [(cursor, leftHi)] else [])"
| "subtract_scan cursor leftHi ((rightLo, rightHi) # rs) =
     (if rightLo \<le> leftHi then
        (let gap = (if cursor < rightLo then [(cursor, min leftHi (rightLo - 1))] else []);
             cursor' = max cursor (rightHi + 1)
         in if leftHi < cursor' then gap else gap @ subtract_scan cursor' leftHi rs)
      else if cursor \<le> leftHi then [(cursor, leftHi)] else [])"

fun subtractRanges :: "ranges \<Rightarrow> ranges \<Rightarrow> ranges" where
  "subtractRanges [] right = []"
| "subtractRanges ((leftLo, leftHi) # ls) right =
     (let right' = dropWhile (\<lambda>(_, hi). hi < leftLo) right
      in subtract_scan leftLo leftHi right' @ subtractRanges ls right')"

definition union :: "unicode_string_set \<Rightarrow> unicode_string_set \<Rightarrow> unicode_string_set" where
  "union left right =
     \<lparr>us_ranges = unionRanges (us_ranges left) (us_ranges right),
      us_strings = foldl add_string (us_strings left) (us_strings right)\<rparr>"

definition intersect :: "unicode_string_set \<Rightarrow> unicode_string_set \<Rightarrow> unicode_string_set" where
  "intersect left right =
     \<lparr>us_ranges = intersectRanges (us_ranges left) (us_ranges right),
      us_strings = filter (\<lambda>w. w \<in> set (us_strings right)) (us_strings left)\<rparr>"

definition subtract :: "unicode_string_set \<Rightarrow> unicode_string_set \<Rightarrow> unicode_string_set" where
  "subtract left right =
     \<lparr>us_ranges = subtractRanges (us_ranges left) (us_ranges right),
      us_strings = filter (\<lambda>w. w \<notin> set (us_strings right)) (us_strings left)\<rparr>"

section \<open>Properties of strings\<close>

definition PROPERTY_NAMES :: "js_string list" where
  "PROPERTY_NAMES = map str [''Basic_Emoji'', ''Emoji_Keycap_Sequence'', ''RGI_Emoji'', ''RGI_Emoji_Flag_Sequence'',
     ''RGI_Emoji_Modifier_Sequence'', ''RGI_Emoji_Tag_Sequence'', ''RGI_Emoji_ZWJ_Sequence'']"

definition decodeProperty :: "host_env \<Rightarrow> js_string \<Rightarrow> unicode_string_set" where
  "decodeProperty h name =
     fromSequences (map (\<lambda>item. map (parse_radix 36) (split_on (cu CHR ''.'') item))
       (split_on (cu CHR '','') (stringPropertyData h name)))"

definition isUnicodeStringPropertyName :: "js_string \<Rightarrow> bool" where
  "isUnicodeStringPropertyName name \<longleftrightarrow> name \<in> set PROPERTY_NAMES"

definition unicodeStringProperty :: "host_env \<Rightarrow> js_string \<Rightarrow> unicode_string_set" where
  "unicodeStringProperty h name =
     (if name = str ''RGI_Emoji''
      then reduce union (map (decodeProperty h) (filter (\<lambda>part. part \<noteq> str ''RGI_Emoji'') PROPERTY_NAMES))
      else decodeProperty h name)"

abbreviation "q_open \<equiv> str [CHR 0x5C, CHR ''q'', CHR ''{'']"
abbreviation "p_open \<equiv> str [CHR 0x5C, CHR ''p'', CHR ''{'']"
abbreviation "P_open \<equiv> str [CHR 0x5C, CHR ''P'', CHR ''{'']"

definition hasUnicodeStringSetSyntax :: "js_string \<Rightarrow> bool" where
  "hasUnicodeStringSetSyntax source \<longleftrightarrow>
     includes_str source q_open \<or>
     list_ex (\<lambda>name. includes_str source (p_open @ name @ str ''}'')) PROPERTY_NAMES"

text \<open>The pattern \<^verbatim>\<open>/^\\p\{([^}]+)\}$/\<close> and the name it captures.\<close>

definition property_escape_name :: "js_string \<Rightarrow> js_string option" where
  "property_escape_name source =
     (let body = drop 3 source; name = takeWhile (\<lambda>c. c \<noteq> cu CHR ''}'') body in
      if take 3 source = p_open \<and> name \<noteq> [] \<and> drop (length name) body = str ''}'' then Some name else None)"

definition unicodeStringPropertyEscape :: "host_env \<Rightarrow> js_string \<Rightarrow> unicode_string_set option" where
  "unicodeStringPropertyEscape h source =
     (case property_escape_name source of
        Some name \<Rightarrow> if isUnicodeStringPropertyName name then Some (unicodeStringProperty h name) else None
      | None \<Rightarrow> None)"

section \<open>Scanning a class\<close>

function (sequential) findClosingBrace :: "js_string \<Rightarrow> nat \<Rightarrow> regex_error + nat" where
  "findClosingBrace s i =
     (if length s \<le> i then Inl (Unsupported ''unterminated string disjunction'')
      else if s ! i \<noteq> backslash then
        (if s ! i = cu CHR ''}'' then Inr i else findClosingBrace s (i + 1))
      else if nth_opt s (i + 1) = Some (cu CHR ''u'') \<and> nth_opt s (i + 2) = Some (cu CHR ''{'') then
        findClosingBrace s (i + 3 + length (takeWhile (\<lambda>c. c \<noteq> cu CHR ''}'') (drop (i + 3) s)) + 1)
      else findClosingBrace s (i + 2))"
  by pat_completeness auto
termination by (relation "measure (\<lambda>(s, i). length s - i)") auto

declare findClosingBrace.simps [simp del]

lemma findClosingBrace_bounds: "findClosingBrace s i = Inr j \<Longrightarrow> i \<le> j \<and> j < length s"
proof (induction "length s - i" arbitrary: i rule: less_induct)
  case less
  from less.prems show ?case
    by (subst (asm) findClosingBrace.simps) (auto split: if_splits dest!: less.hyps [rotated])
qed

text \<open>The loop of \<^verbatim>\<open>findClosingClass\<close>, at \<open>i\<close> and nesting \<open>depth\<close>.\<close>

function (sequential) closing_class :: "js_string \<Rightarrow> nat \<Rightarrow> nat \<Rightarrow> regex_error + nat" where
  "closing_class s i depth =
     (if length s \<le> i then Inl (Unsupported ''unterminated nested v-mode class'')
      else if s ! i = backslash then
        (if nth_opt s (i + 1) = Some (cu CHR ''q'') \<and> nth_opt s (i + 2) = Some (cu CHR ''{'')
         then bindE (findClosingBrace s (i + 3)) (\<lambda>e. closing_class s (e + 1) depth)
         else closing_class s (i + 2) depth)
      else if s ! i = cu CHR ''['' then closing_class s (i + 1) (depth + 1)
      else if s ! i = cu CHR '']'' then
        (if depth = 1 then Inr i else closing_class s (i + 1) (depth - 1))
      else closing_class s (i + 1) depth)"
  by pat_completeness auto
termination
  by (relation "measure (\<lambda>(s, i, _). length s - i)") (auto dest: findClosingBrace_bounds)

declare closing_class.simps [simp del]

definition findClosingClass :: "js_string \<Rightarrow> nat \<Rightarrow> regex_error + nat" where
  "findClosingClass s start = closing_class s (start + 1) 1"

lemma closing_class_bounds: "closing_class s i depth = Inr j \<Longrightarrow> i \<le> j \<and> j < length s"
proof (induction "length s - i" arbitrary: i depth rule: less_induct)
  case less
  from less.prems show ?case
    by (subst (asm) closing_class.simps)
       (auto split: if_splits dest!: less.hyps [rotated] findClosingBrace_bounds simp: bindE_eq_Inr)
qed

lemma findClosingClass_bounds: "findClosingClass s i = Inr j \<Longrightarrow> i < j \<and> j < length s"
  unfolding findClosingClass_def by (auto dest: closing_class_bounds)

text \<open>
  The loop of \<^verbatim>\<open>splitTopLevel\<close>: the parts so far, the start of the current part, and the index.
  The result is empty when the operator does not occur at the top level.
\<close>

function (sequential) split_top ::
  "js_string \<Rightarrow> js_string \<Rightarrow> js_string list \<Rightarrow> nat \<Rightarrow> nat \<Rightarrow> regex_error + js_string list"
where
  "split_top s oper parts start i =
     (if length s \<le> i then Inr (if parts = [] then [] else parts @ [drop start s])
      else if s ! i = backslash then
        (if nth_opt s (i + 1) = Some (cu CHR ''q'') \<and> nth_opt s (i + 2) = Some (cu CHR ''{'')
         then bindE (findClosingBrace s (i + 3)) (\<lambda>e. split_top s oper parts start (e + 1))
         else if nth_opt s (i + 1) \<in> {Some (cu CHR ''p''), Some (cu CHR ''P'')} \<and>
                 nth_opt s (i + 2) = Some (cu CHR ''{'')
         then (case indexOf s (cu CHR ''}'') (i + 3) of
                 None \<Rightarrow> Inl (Unsupported ''unterminated Unicode property escape'')
               | Some e \<Rightarrow> split_top s oper parts start (e + 1))
         else split_top s oper parts start (i + 2))
      else if s ! i = cu CHR ''['' then
        bindE (findClosingClass s i) (\<lambda>e. split_top s oper parts start (e + 1))
      else if startsWith_at s oper i then
        split_top s oper (parts @ [js_slice s start i]) (i + length oper) (i + 2)
      else split_top s oper parts start (i + 1))"
  by pat_completeness auto
termination
  by (relation "measure (\<lambda>(s, _, _, _, i). length s - i)")
     (auto dest!: findClosingBrace_bounds findClosingClass_bounds indexOf_bounds)

declare split_top.simps [simp del]

definition splitTopLevel :: "js_string \<Rightarrow> js_string \<Rightarrow> regex_error + js_string list option" where
  "splitTopLevel s oper =
     bindE (split_top s oper [] 0 0) (\<lambda>parts. Inr (if parts = [] then None else Some parts))"

section \<open>Evaluation\<close>

type_synonym class_eval = "js_string \<Rightarrow> regex_error + unicode_string_set"

definition empty_set :: unicode_string_set where
  "empty_set = \<lparr>us_ranges = [], us_strings = []\<rparr>"

definition flushOrdinary ::
  "host_env \<Rightarrow> js_string \<Rightarrow> js_string \<Rightarrow> unicode_string_set \<Rightarrow> regex_error + unicode_string_set"
where
  "flushOrdinary h fl ordinary result =
     (if ordinary = [] then Inr result
      else bindE (enumerateClassRanges h (str ''['' @ ordinary @ str '']'') fl) (\<lambda>rs.
             Inr (union result \<lparr>us_ranges = rs, us_strings = []\<rparr>)))"

text \<open>The loop of \<^verbatim>\<open>evalUnionBody\<close>; \<open>nested\<close> evaluates a nested class.\<close>

function (sequential) union_body ::
  "class_eval \<Rightarrow> host_env \<Rightarrow> js_string \<Rightarrow> js_string \<Rightarrow> unicode_string_set \<Rightarrow> js_string \<Rightarrow> nat \<Rightarrow>
     regex_error + unicode_string_set"
where
  "union_body nested h s fl result ordinary i =
     (if length s \<le> i then flushOrdinary h fl ordinary result
      else if s ! i = cu CHR ''['' then
        bindE (flushOrdinary h fl ordinary result) (\<lambda>result.
        bindE (findClosingClass s i) (\<lambda>e.
        bindE (nested (js_slice s i (e + 1))) (\<lambda>inner.
          union_body nested h s fl (union result inner) [] (e + 1))))
      else if startsWith_at s q_open i then
        bindE (flushOrdinary h fl ordinary result) (\<lambda>result.
        bindE (findClosingBrace s (i + 3)) (\<lambda>e.
        bindE (parseStringDisjunction (js_slice s (i + 3) e)) (\<lambda>ws.
          union_body nested h s fl (union result (fromSequences ws)) [] (e + 1))))
      else if (startsWith_at s p_open i \<or> startsWith_at s P_open i) \<and> indexOf s (cu CHR ''}'') (i + 3) \<noteq> None then
        (let e = the (indexOf s (cu CHR ''}'') (i + 3)); propertySource = js_slice s i (e + 1) in
         case unicodeStringPropertyEscape h propertySource of
           Some property \<Rightarrow>
             bindE (flushOrdinary h fl ordinary result) (\<lambda>result.
               union_body nested h s fl (union result property) [] (e + 1))
         | None \<Rightarrow> union_body nested h s fl result (ordinary @ propertySource) (e + 1))
      else if s ! i = backslash then
        union_body nested h s fl result (ordinary @ js_slice s i (i + 2)) (i + 2)
      else
        (let cp = the (codePointAt s i) in
         union_body nested h s fl result (ordinary @ fromCodePoint cp) (i + cp_width cp)))"
  by pat_completeness auto
termination
  by (relation "measure (\<lambda>(_, _, s, _, _, _, i). length s - i)")
     (auto dest: findClosingBrace_bounds findClosingClass_bounds simp: cp_width_def,
      (drule indexOf_bounds, arith)+)

declare union_body.simps [simp del]

definition evalUnionBody :: "class_eval \<Rightarrow> host_env \<Rightarrow> js_string \<Rightarrow> js_string \<Rightarrow> regex_error + unicode_string_set" where
  "evalUnionBody nested h fl s = union_body nested h s fl empty_set [] 0"

fun evaluateUnicodeStringClass :: "nat \<Rightarrow> host_env \<Rightarrow> js_string \<Rightarrow> class_eval" where
  "evaluateUnicodeStringClass 0 h fl source = Inl StackOverflow"
| "evaluateUnicodeStringClass (Suc depth) h fl source =
     (if source = [] \<or> hd source \<noteq> cu CHR ''['' \<or> last source \<noteq> cu CHR '']''
      then Inl (Unsupported ''expected a complete v-mode class'')
      else let body = butlast (tl source) in
        if take 1 body = str ''^'' then Inl (Unsupported ''negated v-mode class may not contain strings'')
        else bindE (splitTopLevel body (str ''&&'')) (\<lambda>intersections.
          case intersections of
            Some parts \<Rightarrow>
              bindE (mapE (evalUnionBody (evaluateUnicodeStringClass depth h fl) h fl) parts) (\<lambda>sets.
                Inr (reduce intersect sets))
          | None \<Rightarrow>
              bindE (splitTopLevel body (str ''--'')) (\<lambda>differences.
                case differences of
                  Some parts \<Rightarrow>
                    bindE (mapE (evalUnionBody (evaluateUnicodeStringClass depth h fl) h fl) parts) (\<lambda>sets.
                      Inr (reduce subtract sets))
                | None \<Rightarrow> evalUnionBody (evaluateUnicodeStringClass depth h fl) h fl body)))"

end
