(* ===== verification/Re_Set_Algebra.thy ===== *)
theory Re_Set_Algebra
  imports Re_String_Sets
begin

text \<open>
  What the finite string sets mean: \<open>us_members\<close> is the set of code-point sequences a value stands
  for and \<open>us_ok\<close> the invariant the source documents (single code points live in the sorted ranges
  only). The three operations are union, intersection and difference of members, and the evaluator
  keeps the invariant and never needs more stack than the class is long.
\<close>

definition us_ok :: "unicode_string_set \<Rightarrow> bool" where
  "us_ok A \<longleftrightarrow> disjoint_sorted (us_ranges A) \<and> distinct (us_strings A) \<and> (\<forall>w \<in> set (us_strings A). length w \<noteq> 1)"

definition us_members :: "unicode_string_set \<Rightarrow> nat list set" where
  "us_members A = {[c] |c. in_ranges (us_ranges A) c} \<union> set (us_strings A)"

section \<open>Range algebra\<close>

lemma disjoint_sorted_ends:
  assumes "disjoint_sorted rs" "(a, b) \<in> set rs"
  shows "in_ranges rs a" "in_ranges rs b"
proof -
  have "a \<le> b" using assms disjoint_sorted_ordered by (fastforce simp: ordered_iff)
  then show "in_ranges rs a" "in_ranges rs b" using assms(2) by (auto simp: in_ranges_iff)
qed

lemma disjoint_sorted_above:
  assumes "disjoint_sorted ((lo, hi) # rs)" "in_ranges rs c"
  shows "hi < c"
  using assms by (fastforce simp: disjoint_sorted_Cons in_ranges_iff)

lemma disjoint_sorted_ConsI:
  assumes "lo \<le> hi" "disjoint_sorted rs" "\<And>c. in_ranges rs c \<Longrightarrow> hi < c"
  shows "disjoint_sorted ((lo, hi) # rs)"
  using assms disjoint_sorted_ends by (fastforce simp: disjoint_sorted_Cons)

lemma disjoint_sorted_appendI:
  assumes "disjoint_sorted rs" "disjoint_sorted ss" "\<And>c d. in_ranges rs c \<Longrightarrow> in_ranges ss d \<Longrightarrow> c < d"
  shows "disjoint_sorted (rs @ ss)"
  using assms
proof (induction rs)
  case (Cons r rs)
  obtain lo hi where r: "r = (lo, hi)" by (cases r)
  have "lo \<le> hi" "disjoint_sorted rs" using Cons.prems(1) by (simp_all add: r disjoint_sorted_Cons)
  then show ?case unfolding r append_Cons
    using Cons disjoint_sorted_above by (intro disjoint_sorted_ConsI) (auto simp: r)
qed simp

lemma intersectRanges_correct:
  assumes "disjoint_sorted left" "disjoint_sorted right"
  shows "disjoint_sorted (intersectRanges left right) \<and>
    (\<forall>c. in_ranges (intersectRanges left right) c \<longleftrightarrow> in_ranges left c \<and> in_ranges right c)"
  using assms
proof (induction left right rule: intersectRanges.induct)
  case (1 ll lh ls rl rh rs)
  define rest where "rest = (if lh < rh then intersectRanges ls ((rl, rh) # rs) else intersectRanges ((ll, lh) # ls) rs)"
  have tails: "disjoint_sorted ls" "disjoint_sorted rs" "ll \<le> lh" "rl \<le> rh"
    using "1.prems" by (simp_all add: disjoint_sorted_Cons)
  note above = disjoint_sorted_above [OF "1.prems"(1)] disjoint_sorted_above [OF "1.prems"(2)]
  have ih: "disjoint_sorted rest" "\<And>c. in_ranges rest c \<longleftrightarrow>
      (if lh < rh then in_ranges ls c \<and> in_ranges ((rl, rh) # rs) c else in_ranges ((ll, lh) # ls) c \<and> in_ranges rs c)"
    using 1 tails by (simp_all add: rest_def)
  have step: "intersectRanges ((ll, lh) # ls) ((rl, rh) # rs) =
      (if max ll rl \<le> min lh rh then (max ll rl, min lh rh) # rest else rest)"
    by (simp add: rest_def Let_def)
  have low: "min lh rh < c" if "in_ranges rest c" for c
    using that above [of c] by (auto simp: ih split: if_splits)
  have "in_ranges ((ll, lh) # ls) c \<and> in_ranges ((rl, rh) # rs) c \<longleftrightarrow>
      max ll rl \<le> c \<and> c \<le> min lh rh \<or> in_ranges rest c" for c
    using above [of c] by (auto simp: ih)
  then show ?case unfolding step using ih(1) low by (auto intro: disjoint_sorted_ConsI)
qed simp_all

lemma subtract_scan_correct:
  assumes "disjoint_sorted rs"
  shows "disjoint_sorted (subtract_scan cursor hi rs) \<and>
    (\<forall>c. in_ranges (subtract_scan cursor hi rs) c \<longleftrightarrow> cursor \<le> c \<and> c \<le> hi \<and> \<not> in_ranges rs c)"
  using assms
proof (induction cursor hi rs rule: subtract_scan.induct)
  case (2 cursor hi rl rh rs)
  have rs: "disjoint_sorted rs" "rl \<le> rh" using "2.prems" by (simp_all add: disjoint_sorted_Cons)
  note above = disjoint_sorted_above [OF "2.prems"]
  show ?case
  proof (cases "rl \<le> hi")
    case False
    then show ?thesis using above rs by (force simp: not_le)
  next
    case True
    define gap where "gap = (if cursor < rl then [(cursor, min hi (rl - 1))] else [])"
    define next_cursor where "next_cursor = max cursor (rh + 1)"
    define rest where "rest = (if hi < next_cursor then [] else subtract_scan next_cursor hi rs)"
    have step: "subtract_scan cursor hi ((rl, rh) # rs) = gap @ rest"
      using True by (simp add: gap_def next_cursor_def rest_def Let_def)
    have gap: "disjoint_sorted gap" "\<And>c. in_ranges gap c \<longleftrightarrow> cursor \<le> c \<and> c < rl"
      using True by (auto simp: gap_def)
    have rest: "disjoint_sorted rest"
      "\<And>c. in_ranges rest c \<longleftrightarrow> next_cursor \<le> c \<and> c \<le> hi \<and> \<not> in_ranges rs c"
      using "2.IH" [OF True refl refl] rs(1) by (auto simp: rest_def gap_def next_cursor_def)
    have "cursor \<le> c \<and> c \<le> hi \<and> \<not> in_ranges ((rl, rh) # rs) c \<longleftrightarrow>
        cursor \<le> c \<and> c < rl \<or> next_cursor \<le> c \<and> c \<le> hi \<and> \<not> in_ranges rs c" for c
      using above [of c] rs(2) True by (auto simp: next_cursor_def)
    moreover have "disjoint_sorted (gap @ rest)"
      using gap rest rs(2) by (intro disjoint_sorted_appendI) (auto simp: next_cursor_def)
    ultimately show ?thesis unfolding step by (simp add: gap rest)
  qed
qed simp

lemma in_ranges_dropWhile:
  assumes "disjoint_sorted rs" "lo \<le> c"
  shows "in_ranges (dropWhile (\<lambda>(_, hi). hi < lo) rs) c \<longleftrightarrow> in_ranges rs c"
  using assms by (induction rs) (auto simp: disjoint_sorted_Cons)

lemma disjoint_sorted_dropWhile: "disjoint_sorted rs \<Longrightarrow> disjoint_sorted (dropWhile P rs)"
  by (induction rs) (auto simp: disjoint_sorted_Cons)

lemma subtractRanges_correct:
  assumes "disjoint_sorted left" "disjoint_sorted right"
  shows "disjoint_sorted (subtractRanges left right) \<and>
    (\<forall>c. in_ranges (subtractRanges left right) c \<longleftrightarrow> in_ranges left c \<and> \<not> in_ranges right c)"
  using assms
proof (induction left arbitrary: right)
  case (Cons r ls)
  obtain lo hi where r: "r = (lo, hi)" by (cases r)
  define right' where "right' = dropWhile (\<lambda>(_, h). h < lo) right"
  have ls: "disjoint_sorted ls" "lo \<le> hi" using Cons.prems(1) by (simp_all add: r disjoint_sorted_Cons)
  have right': "disjoint_sorted right'" unfolding right'_def by (rule disjoint_sorted_dropWhile [OF Cons.prems(2)])
  have same: "in_ranges right' c \<longleftrightarrow> in_ranges right c" if "lo \<le> c" for c
    unfolding right'_def by (rule in_ranges_dropWhile [OF Cons.prems(2) that])
  have above: "hi < c" if "in_ranges ls c" for c
    using disjoint_sorted_above [of lo hi ls c] Cons.prems(1) that by (simp add: r)
  note scan = subtract_scan_correct [OF right', of lo hi] and ih = Cons.IH [OF ls(1) right']
  have "disjoint_sorted (subtract_scan lo hi right' @ subtractRanges ls right')"
  proof (rule disjoint_sorted_appendI)
    fix c d assume "in_ranges (subtract_scan lo hi right') c" "in_ranges (subtractRanges ls right') d"
    then have "c \<le> hi" "hi < d" using scan ih above [of d] by simp_all
    then show "c < d" by simp
  qed (use scan ih in simp_all)
  moreover have "in_ranges (subtract_scan lo hi right' @ subtractRanges ls right') c \<longleftrightarrow>
      in_ranges (r # ls) c \<and> \<not> in_ranges right c" for c
    unfolding in_ranges_append scan [THEN conjunct2, rule_format] ih [THEN conjunct2, rule_format] r in_ranges_Cons
    using above [of c] same [of c] ls(2) by (cases "lo \<le> c") auto
  ultimately show ?case by (simp add: r right'_def Let_def)
qed simp

lemma unionRanges_correct:
  assumes "ordered left" "ordered right"
  shows "disjoint_sorted (unionRanges left right)"
    "in_ranges (unionRanges left right) c \<longleftrightarrow> in_ranges left c \<or> in_ranges right c"
  using assms merge_ranges_correct [of "sort (left @ right)"] by (simp_all add: unionRanges_def)

section \<open>The operations on members\<close>

lemma foldl_add_string:
  "set (foldl add_string ws vs) = set ws \<union> set vs"
  "distinct ws \<Longrightarrow> distinct (foldl add_string ws vs)"
  by (induction vs arbitrary: ws) (auto simp: add_string_def)

lemma singletonRanges_correct:
  "disjoint_sorted (singletonRanges cps)" "in_ranges (singletonRanges cps) c \<longleftrightarrow> c \<in> set cps"
proof -
  have "sorted (map (\<lambda>cp. (cp, cp)) (sort cps))"
    by (simp add: sorted_map sorted_wrt_mono_rel [OF _ sorted_sort])
  then show "disjoint_sorted (singletonRanges cps)" "in_ranges (singletonRanges cps) c \<longleftrightarrow> c \<in> set cps"
    using merge_ranges_correct [of "map (\<lambda>cp. (cp, cp)) (sort cps)"] by (simp_all add: singletonRanges_def)
qed

lemma fromSequences_correct: "us_ok (fromSequences ws)" "us_members (fromSequences ws) = set ws"
proof -
  show "us_ok (fromSequences ws)"
    by (auto simp: us_ok_def fromSequences_def singletonRanges_correct foldl_add_string)
  have "{[c] |c. c \<in> set (concat (filter (\<lambda>w. length w = 1) ws))} = {w \<in> set ws. length w = 1}"
    by (auto simp: length_Suc_conv) force
  then show "us_members (fromSequences ws) = set ws"
    by (auto simp: us_members_def fromSequences_def singletonRanges_correct foldl_add_string)
qed

text \<open>The contract of a finite set algebra, and what a chain of operators computes.\<close>

locale finite_set_algebra =
  fixes valid :: "'a \<Rightarrow> bool" and members :: "'a \<Rightarrow> 'b set"
    and join :: "'a \<Rightarrow> 'a \<Rightarrow> 'a" and meet :: "'a \<Rightarrow> 'a \<Rightarrow> 'a" and minus :: "'a \<Rightarrow> 'a \<Rightarrow> 'a"
  assumes join: "\<lbrakk> valid a; valid b \<rbrakk> \<Longrightarrow> valid (join a b) \<and> members (join a b) = members a \<union> members b"
    and meet: "\<lbrakk> valid a; valid b \<rbrakk> \<Longrightarrow> valid (meet a b) \<and> members (meet a b) = members a \<inter> members b"
    and minus: "\<lbrakk> valid a; valid b \<rbrakk> \<Longrightarrow> valid (minus a b) \<and> members (minus a b) = members a - members b"
begin

lemma foldl_join: "\<lbrakk> valid a; list_all valid xs \<rbrakk> \<Longrightarrow>
    valid (foldl join a xs) \<and> members (foldl join a xs) = members a \<union> (\<Union>x \<in> set xs. members x)"
  by (induction xs arbitrary: a) (auto simp: join)

lemma foldl_meet: "\<lbrakk> valid a; list_all valid xs \<rbrakk> \<Longrightarrow>
    valid (foldl meet a xs) \<and> members (foldl meet a xs) = members a \<inter> (\<Inter>x \<in> set xs. members x)"
  by (induction xs arbitrary: a) (auto simp: meet)

lemma foldl_minus: "\<lbrakk> valid a; list_all valid xs \<rbrakk> \<Longrightarrow>
    valid (foldl minus a xs) \<and> members (foldl minus a xs) = members a - (\<Union>x \<in> set xs. members x)"
  by (induction xs arbitrary: a) (auto simp: minus)

lemma reduce_join: "\<lbrakk> xs \<noteq> []; list_all valid xs \<rbrakk> \<Longrightarrow>
    valid (reduce join xs) \<and> members (reduce join xs) = (\<Union>x \<in> set xs. members x)"
  using foldl_join [of "hd xs" "tl xs"] by (cases xs) (auto simp: reduce_def)

lemma reduce_meet: "\<lbrakk> xs \<noteq> []; list_all valid xs \<rbrakk> \<Longrightarrow>
    valid (reduce meet xs) \<and> members (reduce meet xs) = (\<Inter>x \<in> set xs. members x)"
  using foldl_meet [of "hd xs" "tl xs"] by (cases xs) (auto simp: reduce_def)

lemma reduce_minus: "\<lbrakk> xs \<noteq> []; list_all valid xs \<rbrakk> \<Longrightarrow>
    valid (reduce minus xs) \<and> members (reduce minus xs) = members (hd xs) - (\<Union>x \<in> set (tl xs). members x)"
  using foldl_minus [of "hd xs" "tl xs"] by (cases xs) (auto simp: reduce_def)

end

interpretation strings: finite_set_algebra us_ok us_members union intersect subtract
proof unfold_locales
  fix A B :: unicode_string_set
  assume ok: "us_ok A" "us_ok B"
  then have sorted: "disjoint_sorted (us_ranges A)" "disjoint_sorted (us_ranges B)"
    and ord: "ordered (us_ranges A)" "ordered (us_ranges B)"
    by (simp_all add: us_ok_def disjoint_sorted_ordered)
  have single: "[c] \<notin> set (us_strings A)" "[c] \<notin> set (us_strings B)" for c
    using ok by (auto simp: us_ok_def)
  show "us_ok (union A B) \<and> us_members (union A B) = us_members A \<union> us_members B"
    using ok unionRanges_correct [OF ord]
    by (auto simp: us_ok_def us_members_def union_def foldl_add_string)
  show "us_ok (intersect A B) \<and> us_members (intersect A B) = us_members A \<inter> us_members B"
    using ok intersectRanges_correct [OF sorted] single
    by (auto simp: us_ok_def us_members_def intersect_def)
  show "us_ok (subtract A B) \<and> us_members (subtract A B) = us_members A - us_members B"
    using ok subtractRanges_correct [OF sorted] single
    by (auto simp: us_ok_def us_members_def subtract_def)
qed

section \<open>The evaluator\<close>

lemma unicodeStringProperty_ok: "us_ok (unicodeStringProperty h name)"
proof (cases "name = str ''RGI_Emoji''")
  case True
  have "filter (\<lambda>part. part \<noteq> str ''RGI_Emoji'') PROPERTY_NAMES \<noteq> []"
    by (simp add: PROPERTY_NAMES_def str_def)
  then have "us_ok (reduce union (map (decodeProperty h) (filter (\<lambda>part. part \<noteq> str ''RGI_Emoji'') PROPERTY_NAMES)))"
    by (intro strings.reduce_join [THEN conjunct1]) (auto simp: list_all_iff decodeProperty_def fromSequences_correct)
  then show ?thesis using True by (simp add: unicodeStringProperty_def)
qed (simp add: unicodeStringProperty_def decodeProperty_def fromSequences_correct)

lemma union_enumerated: "us_ok A \<Longrightarrow> ordered rs \<Longrightarrow> us_ok (union A \<lparr>us_ranges = rs, us_strings = []\<rparr>)"
  by (auto simp: us_ok_def union_def unionRanges_correct disjoint_sorted_ordered)

lemma flushOrdinary_ok: "flushOrdinary h fl ordinary A = Inr B \<Longrightarrow> us_ok A \<Longrightarrow> us_ok B"
  by (auto simp: flushOrdinary_def bindE_eq_Inr union_enumerated enumerateClassRanges_ordered split: if_splits)

lemma unicodeStringPropertyEscape_ok: "unicodeStringPropertyEscape h s = Some A \<Longrightarrow> us_ok A"
  by (auto simp: unicodeStringPropertyEscape_def unicodeStringProperty_ok split: option.splits if_splits)

lemmas union_ok = strings.join [THEN conjunct1]

lemma union_body_ok:
  assumes nested: "\<And>s A. nested s = Inr A \<Longrightarrow> us_ok A"
  shows "union_body nested h s fl A ordinary i = Inr B \<Longrightarrow> us_ok A \<Longrightarrow> us_ok B"
proof (induction "length s - i" arbitrary: A ordinary i rule: less_induct)
  case less
  note ih = less.hyps [rotated]
  show ?case using less.prems
    by (subst (asm) union_body.simps)
       (auto simp: bindE_eq_Inr Let_def cp_width_def split: if_splits option.splits
         dest: flushOrdinary_ok nested unicodeStringPropertyEscape_ok
         intro: union_ok fromSequences_correct
         dest!: ih findClosingClass_bounds findClosingBrace_bounds indexOf_bounds)
qed

lemma empty_set_ok: "us_ok empty_set" "us_members empty_set = {}"
  by (simp_all add: us_ok_def us_members_def empty_set_def)

lemma evalUnionBody_ok:
  "(\<And>s A. nested s = Inr A \<Longrightarrow> us_ok A) \<Longrightarrow> evalUnionBody nested h fl s = Inr B \<Longrightarrow> us_ok B"
  unfolding evalUnionBody_def using union_body_ok empty_set_ok(1) by blast

lemma splitTopLevel_parts: "splitTopLevel s oper = Inr (Some parts) \<Longrightarrow> parts \<noteq> []"
  by (auto simp: splitTopLevel_def bindE_eq_Inr split: if_splits)

text \<open>The parts of a class body are contiguous pieces of it.\<close>

lemma split_top_pieces:
  "\<lbrakk> split_top s oper parts start i = Inr ps; \<forall>p \<in> set parts. sublist p s \<rbrakk> \<Longrightarrow> \<forall>p \<in> set ps. sublist p s"
proof (induction "length s - i" arbitrary: parts start i rule: less_induct)
  case less
  note ih = less.hyps [rotated]
  from less.prems show ?case
    by (subst (asm) split_top.simps)
       (auto simp: bindE_eq_Inr sublist_slice split: if_splits option.splits
         dest!: ih findClosingBrace_bounds findClosingClass_bounds indexOf_bounds)
qed

lemma splitTopLevel_pieces: "splitTopLevel s oper = Inr (Some parts) \<Longrightarrow> p \<in> set parts \<Longrightarrow> sublist p s"
  by (auto simp: splitTopLevel_def bindE_eq_Inr split: if_splits dest!: split_top_pieces)

text \<open>The three ways an evaluation ends.\<close>

lemma evaluate_cases:
  assumes "evaluateUnicodeStringClass (Suc depth) h fl source = Inr A"
  obtains (chain) parts sets where "parts \<noteq> []" "\<forall>p \<in> set parts. sublist p (butlast (tl source))"
      "mapE (evalUnionBody (evaluateUnicodeStringClass depth h fl) h fl) parts = Inr sets"
      "A = reduce intersect sets \<or> A = reduce subtract sets"
    | (body) "evalUnionBody (evaluateUnicodeStringClass depth h fl) h fl (butlast (tl source)) = Inr A"
proof -
  from assms obtain x where x: "splitTopLevel (butlast (tl source)) (str ''&&'') = Inr x"
    by (auto simp: Let_def bindE_eq_Inr split: if_splits)
  show thesis
  proof (cases x)
    case (Some parts)
    with x have "parts \<noteq> []" "\<forall>p \<in> set parts. sublist p (butlast (tl source))"
      using splitTopLevel_parts splitTopLevel_pieces by blast+
    then show thesis using assms x Some
      by (auto simp: Let_def bindE_eq_Inr split: if_splits intro: chain)
  next
    case None
    from assms x None obtain y where y: "splitTopLevel (butlast (tl source)) (str ''--'') = Inr y"
      by (auto simp: Let_def bindE_eq_Inr split: if_splits)
    have "parts \<noteq> [] \<and> (\<forall>p \<in> set parts. sublist p (butlast (tl source)))" if "y = Some parts" for parts
      using y that splitTopLevel_parts splitTopLevel_pieces by blast
    then show thesis using assms x y None
      by (cases y) (auto simp: Let_def bindE_eq_Inr split: if_splits intro: chain body)
  qed
qed

lemma evaluateUnicodeStringClass_ok:
  "evaluateUnicodeStringClass depth h fl source = Inr A \<Longrightarrow> us_ok A"
proof (induction depth arbitrary: source A)
  case (Suc depth)
  have part: "us_ok B" if "evalUnionBody (evaluateUnicodeStringClass depth h fl) h fl s = Inr B" for s B
    using evalUnionBody_ok [OF Suc.IH that] .
  show ?case using Suc.prems
  proof (cases rule: evaluate_cases)
    case (chain parts sets)
    have "sets \<noteq> []" "list_all us_ok sets"
      using chain(1) mapE_length [OF chain(3)] mapE_all [OF chain(3) part] by auto
    then show ?thesis using strings.reduce_meet [of sets] strings.reduce_minus [of sets] chain(4) by blast
  next
    case body
    then show ?thesis by (rule part)
  qed
qed simp

section \<open>Refusals\<close>

text \<open>An error of the evaluator is a refusal with a message, given the stack it needs.\<close>

definition refuses :: "regex_error + 'a \<Rightarrow> bool" where
  "refuses r \<longleftrightarrow> (case r of Inl e \<Rightarrow> (\<exists>m. e = Unsupported m) | Inr _ \<Rightarrow> True)"

lemma refuses_simps [simp]: "refuses (Inr x)" "refuses (Inl e) \<longleftrightarrow> (\<exists>m. e = Unsupported m)"
  by (simp_all add: refuses_def)

lemma refuses_bindE: "refuses m \<Longrightarrow> (\<And>x. m = Inr x \<Longrightarrow> refuses (f x)) \<Longrightarrow> refuses (bindE m f)"
  by (cases m) auto

lemma refuses_if: "(b \<Longrightarrow> refuses x) \<Longrightarrow> (\<not> b \<Longrightarrow> refuses y) \<Longrightarrow> refuses (if b then x else y)"
  by simp

lemma refuses_option:
  "(o' = None \<Longrightarrow> refuses x) \<Longrightarrow> (\<And>z. o' = Some z \<Longrightarrow> refuses (f z)) \<Longrightarrow> refuses (case o' of None \<Rightarrow> x | Some z \<Rightarrow> f z)"
  by (cases o') auto

lemma refuses_mapE: "(\<And>x. x \<in> set xs \<Longrightarrow> refuses (f x)) \<Longrightarrow> refuses (mapE f xs)"
  by (induction xs) (auto intro!: refuses_bindE)

lemma refuses_matched: "refuses (matched_code_points ms)"
  by (induction ms) (auto intro!: refuses_bindE split: option.splits)

lemma refuses_enumerate: "refuses (enumerateClassRanges h source fl)"
  by (auto simp: enumerateClassRanges_def intro!: refuses_bindE refuses_matched split: option.splits)

lemma refuses_q_escape: "refuses (q_escape r)"
  by (cases r) (auto simp: q_unicode_escape_def Let_def split: list.splits)

lemma refuses_disjunction: "refuses (parseStringDisjunction s)"
proof -
  have "refuses (parseStringDisjunction_loop r cur ops)" for r cur ops
    by (induction r cur ops rule: parseStringDisjunction_loop.induct)
       (auto intro!: refuses_bindE refuses_q_escape)
  then show ?thesis by (simp add: parseStringDisjunction_def)
qed

lemma refuses_findClosingBrace: "refuses (findClosingBrace s i)"
proof (induction "length s - i" arbitrary: i rule: less_induct)
  case less
  then show ?case by (subst findClosingBrace.simps) auto
qed

lemma refuses_findClosingClass: "refuses (findClosingClass s i)"
proof -
  have "refuses (closing_class s i d)" for i d
  proof (induction "length s - i" arbitrary: i d rule: less_induct)
    case less
    then show ?case
      by (subst closing_class.simps)
         (auto intro!: refuses_bindE refuses_findClosingBrace dest: findClosingBrace_bounds)
  qed
  then show ?thesis by (simp add: findClosingClass_def)
qed

lemma refuses_split_top: "refuses (split_top s oper parts start i)"
proof (induction "length s - i" arbitrary: parts start i rule: less_induct)
  case less
  show ?case
    by (subst split_top.simps)
       (auto intro!: refuses_bindE refuses_findClosingBrace refuses_findClosingClass less.hyps
         dest!: findClosingBrace_bounds findClosingClass_bounds indexOf_bounds split: option.splits)
qed

lemma refuses_splitTopLevel: "refuses (splitTopLevel s oper)"
  by (auto simp: splitTopLevel_def intro!: refuses_bindE refuses_split_top)

lemma splitTopLevel_length: "splitTopLevel s oper = Inr (Some parts) \<Longrightarrow> p \<in> set parts \<Longrightarrow> length p \<le> length s"
  by (rule sublist_length_le [OF splitTopLevel_pieces])

lemma refuses_flushOrdinary: "refuses (flushOrdinary h fl ordinary A)"
  by (auto simp: flushOrdinary_def intro!: refuses_bindE refuses_enumerate)

lemma refuses_union_body:
  assumes nested: "\<And>x. length x \<le> length s \<Longrightarrow> refuses (nested x)"
  shows "refuses (union_body nested h s fl A ordinary i)"
proof (induction "length s - i" arbitrary: A ordinary i rule: less_induct)
  case less
  have slice: "refuses (nested (js_slice s i e))" for e
    by (rule nested) (simp add: js_slice_def)
  have "length s - (the (indexOf s (cu CHR ''}'') (i + 3)) + 1) < length s - i"
    if "indexOf s (cu CHR ''}'') (i + 3) \<noteq> None"
    using indexOf_the [OF that] by linarith
  then have property: "refuses (union_body nested h s fl B ord (the (indexOf s (cu CHR ''}'') (i + 3)) + 1))"
    if "indexOf s (cu CHR ''}'') (i + 3) \<noteq> None" for B ord
    using that by (intro less.hyps) simp
  show ?case
    unfolding union_body.simps [of nested h s fl A ordinary i] Let_def
    by (intro refuses_if refuses_bindE refuses_option)
       (auto simp: cp_width_def intro: refuses_findClosingBrace refuses_findClosingClass refuses_flushOrdinary
           refuses_disjunction slice less.hyps property [simplified]
         dest!: findClosingBrace_bounds findClosingClass_bounds)
qed

lemma evaluate_enough_depth:
  "length source < depth \<Longrightarrow> refuses (evaluateUnicodeStringClass depth h fl source)"
proof (induction depth arbitrary: source)
  case (Suc depth)
  let ?body = "butlast (tl source)"
  show ?case
  proof (cases "source = [] \<or> hd source \<noteq> cu CHR ''['' \<or> last source \<noteq> cu CHR '']'' \<or> take 1 ?body = str ''^''")
    case False
    then have "source \<noteq> []" by simp
    then have "length ?body < depth" using Suc.prems False
      by (cases source) (auto split: if_splits)
    then have eval: "refuses (evalUnionBody (evaluateUnicodeStringClass depth h fl) h fl p)"
      if "length p \<le> length ?body" for p
      unfolding evalUnionBody_def using that by (intro refuses_union_body Suc.IH) auto
    show ?thesis using False
      by (auto simp: Let_def simp del: length_butlast length_tl split: option.splits
        intro!: refuses_bindE refuses_splitTopLevel refuses_mapE eval)
        (erule (1) splitTopLevel_length)+
  qed (auto simp: Let_def)
qed simp

end
