(* ===== verification/Re_Parse_Lex.thy ===== *)
theory Re_Parse_Lex
  imports Re_Set_Algebra Re_Ast
begin

text \<open>
  The lexical half of the pattern parser (\<^verbatim>\<open>src/codegen/regex/parse.ts\<close>): the shorthand
  classes and their complements, group names, the pre-scan for groups, the parser's cursor, escapes
  and legacy classes. The parser object is split into its read-only part \<open>parser\<close> and the cursor
  \<open>pstate\<close>; the modifier-scoped \<^verbatim>\<open>iState\<close> is an argument. A \<^verbatim>\<open>RegexUnsupportedError\<close>
  carries an abbreviation of its message.
\<close>

section \<open>Shorthand classes\<close>

definition DIGIT :: ranges where "DIGIT = [(0x30, 0x39)]"

definition WORD :: ranges where
  "WORD = [(0x30, 0x39), (0x41, 0x5a), (0x5f, 0x5f), (0x61, 0x7a)]"

definition SPACE :: ranges where
  "SPACE = [(0x09, 0x0d), (0x20, 0x20), (0xa0, 0xa0), (0x1680, 0x1680), (0x2000, 0x200a), (0x2028, 0x2029),
     (0x202f, 0x202f), (0x205f, 0x205f), (0x3000, 0x3000), (0xfeff, 0xfeff)]"

text \<open>The sweep of \<^verbatim>\<open>complementRanges\<close>: \<open>next\<close> is the first unit not yet decided.\<close>

fun complement_sweep :: "nat \<Rightarrow> ranges \<Rightarrow> ranges" where
  "complement_sweep nxt [] = (if nxt \<le> 0xffff then [(nxt, 0xffff)] else [])"
| "complement_sweep nxt ((lo, hi) # rs) =
     (if nxt < lo then [(nxt, lo - 1)] else []) @ complement_sweep (max nxt (hi + 1)) rs"

definition complementRanges :: "ranges \<Rightarrow> ranges" where
  "complementRanges rs = complement_sweep 0 (sort_key fst rs)"

definition NOT_DIGIT :: ranges where "NOT_DIGIT = complementRanges DIGIT"
definition NOT_WORD :: ranges where "NOT_WORD = complementRanges WORD"
definition NOT_SPACE :: ranges where "NOT_SPACE = complementRanges SPACE"

section \<open>Group names and the pre-scan\<close>

function (sequential) decodeGroupName :: "js_string \<Rightarrow> regex_error + js_string" where
  "decodeGroupName [] = Inr []"
| "decodeGroupName (c # r) =
     (if c \<noteq> backslash then bindE (decodeGroupName r) (\<lambda>out. Inr (c # out))
      else if take 1 r \<noteq> str ''u'' then Inl (Unsupported ''invalid escape in group name'')
      else if take 1 (drop 1 r) = str ''{'' then
        (let body = drop 2 r; digits = takeWhile (\<lambda>u. u \<noteq> cu CHR ''}'') body in
         if length digits = length body then Inl (Unsupported ''unterminated Unicode escape in group name'')
         else if digits = [] \<or> \<not> list_all is_hex digits then Inl (Unsupported ''invalid Unicode escape in group name'')
         else if 0x10ffff < parse_radix 16 digits then Inl (Unsupported ''group-name code point out of range'')
         else bindE (decodeGroupName (drop (length digits + 1) body)) (\<lambda>out.
                Inr (fromCodePoint (parse_radix 16 digits) @ out)))
      else
        (let digits = take 4 (drop 1 r) in
         if \<not> all_hex 4 digits then Inl (Unsupported ''invalid Unicode escape in group name'')
         else bindE (decodeGroupName (drop 5 r)) (\<lambda>out. Inr (parse_radix 16 digits # out))))"
  by pat_completeness auto
termination by (relation "measure length") auto

type_synonym names = "(js_string \<times> nat) list"

text \<open>The scan at the rest \<open>s\<close> of the pattern; only the first declaration of a name counts.\<close>

function (sequential) scanGroups_loop :: "js_string \<Rightarrow> bool \<Rightarrow> nat \<Rightarrow> names \<Rightarrow> regex_error + nat \<times> names" where
  "scanGroups_loop [] inClass count nms = Inr (count, nms)"
| "scanGroups_loop (c # r) inClass count nms =
     (if c = backslash then scanGroups_loop (drop 1 r) inClass count nms
      else if inClass then scanGroups_loop r (c \<noteq> cu CHR '']'') count nms
      else if c = cu CHR ''['' then scanGroups_loop r True count nms
      else if c = cu CHR ''('' then
        (if take 1 r = str ''?'' then
           (if nth_opt r 1 = Some (cu CHR ''<'') \<and> nth_opt r 2 \<noteq> Some (cu CHR ''='') \<and> nth_opt r 2 \<noteq> Some (cu CHR ''!'')
            then bindE (decodeGroupName (takeWhile (\<lambda>u. u \<noteq> cu CHR ''>'') (drop 2 r))) (\<lambda>name.
                   scanGroups_loop r False (count + 1)
                     (if map_of nms name = None then nms @ [(name, count + 1)] else nms))
            else scanGroups_loop r False count nms)
         else scanGroups_loop r False (count + 1) nms)
      else scanGroups_loop r False count nms)"
  by pat_completeness auto
termination by (relation "measure (\<lambda>(s, _, _, _). length s)") auto

definition scanGroups :: "js_string \<Rightarrow> regex_error + nat \<times> names" where
  "scanGroups s = scanGroups_loop s False 0 []"

section \<open>The cursor\<close>

record parser =
  src :: js_string
  totalCaptures :: nat
  ps_groupNames :: names
  ps_unicode :: bool
  ps_vMode :: bool
  ps_host :: host_env

record pstate =
  pos :: nat
  captures :: nat

type_synonym 'a parse = "pstate \<Rightarrow> regex_error + 'a \<times> pstate"

definition new_parser :: "host_env \<Rightarrow> js_string \<Rightarrow> nat \<Rightarrow> regex_error + parser" where
  "new_parser h pattern flags =
     bindE (scanGroups pattern) (\<lambda>scan.
       Inr \<lparr>src = pattern, totalCaptures = fst scan, ps_groupNames = snd scan,
            ps_unicode = has_flag flags (RE_FLAG_U OR RE_FLAG_V), ps_vMode = has_flag flags RE_FLAG_V,
            ps_host = h\<rparr>)"

definition peek :: "parser \<Rightarrow> pstate \<Rightarrow> nat option" where
  "peek P s = nth_opt (src P) (pos s)"

definition eof :: "parser \<Rightarrow> pstate \<Rightarrow> bool" where
  "eof P s \<longleftrightarrow> length (src P) \<le> pos s"

definition advance :: "nat \<Rightarrow> pstate \<Rightarrow> pstate" where
  "advance n s = s\<lparr>pos := pos s + n\<rparr>"

definition next_unit :: "parser \<Rightarrow> nat parse" where
  "next_unit P s =
     (case peek P s of
        None \<Rightarrow> Inl (Unsupported ''unexpected end of pattern'')
      | Some c \<Rightarrow> Inr (c, advance 1 s))"

text \<open>The pattern text from the cursor on, and the loops \<^verbatim>\<open>while (...) acc += this.next()\<close>.\<close>

definition rest_of :: "parser \<Rightarrow> pstate \<Rightarrow> js_string" where
  "rest_of P s = drop (pos s) (src P)"

definition take_units :: "parser \<Rightarrow> (nat \<Rightarrow> bool) \<Rightarrow> pstate \<Rightarrow> js_string \<times> pstate" where
  "take_units P p s = (let taken = takeWhile p (rest_of P s) in (taken, advance (length taken) s))"

section \<open>Quantifier braces and modifiers\<close>

definition consumeLazy :: "parser \<Rightarrow> pstate \<Rightarrow> bool \<times> pstate" where
  "consumeLazy P s = (if peek P s = Some (cu CHR ''?'') then (False, advance 1 s) else (True, s))"

definition tryParseBraceQuantifier :: "parser \<Rightarrow> ((nat \<times> nat option) option) parse" where
  "tryParseBraceQuantifier P s =
     (if peek P s \<noteq> Some (cu CHR ''{'') then Inr (None, s)
      else case take_units P is_decimal (advance 1 s) of (minStr, s1) \<Rightarrow>
        if minStr = [] then Inr (None, s1)
        else
          (case (if peek P s1 = Some (cu CHR '','')
                 then case take_units P is_decimal (advance 1 s1) of (maxStr, s2) \<Rightarrow>
                        (if maxStr = [] then None else Some (parse_radix 10 maxStr), s2)
                 else (Some (parse_radix 10 minStr), s1)) of (mx, s3) \<Rightarrow>
             if peek P s3 \<noteq> Some (cu CHR ''}'') then Inr (None, s3)
             else if (case mx of Some m \<Rightarrow> m < parse_radix 10 minStr | None \<Rightarrow> False)
             then Inl (Unsupported ''quantifier max < min'')
             else Inr (Some (parse_radix 10 minStr, mx), advance 1 s3)))"

definition modifier_bit :: "nat \<Rightarrow> nat option" where
  "modifier_bit c =
     (if c = cu CHR ''i'' then Some RE_FLAG_I
      else if c = cu CHR ''m'' then Some RE_FLAG_M
      else if c = cu CHR ''s'' then Some RE_FLAG_S
      else None)"

text \<open>One side of the modifiers: the letters, the flags already taken elsewhere, the flags so far.\<close>

fun modifier_side :: "js_string \<Rightarrow> nat \<Rightarrow> nat \<Rightarrow> regex_error + nat" where
  "modifier_side [] other acc = Inr acc"
| "modifier_side (c # r) other acc =
     (case modifier_bit c of
        None \<Rightarrow> Inl (Unsupported ''invalid regexp modifier'')
      | Some b \<Rightarrow>
          if has_flag (other OR acc) b then Inl (Unsupported ''duplicate regexp modifier'')
          else modifier_side r other (acc OR b))"

definition parseModifiers :: "parser \<Rightarrow> (nat \<times> nat) parse" where
  "parseModifiers P s =
     (case take_units P (\<lambda>c. c \<noteq> cu CHR ''-'' \<and> c \<noteq> cu CHR '':'') s of (addStr, s1) \<Rightarrow>
      bindE (modifier_side addStr 0 0) (\<lambda>add.
      case (if peek P s1 = Some (cu CHR ''-'')
            then take_units P (\<lambda>c. c \<noteq> cu CHR '':'') (advance 1 s1) else ([], s1)) of (removeStr, s2) \<Rightarrow>
      bindE (modifier_side removeStr add 0) (\<lambda>remove.
        if peek P s2 \<noteq> Some (cu CHR '':'') then Inl (Unsupported ''unterminated regexp modifier group'')
        else if add = 0 \<and> remove = 0 then Inl (Unsupported ''empty regexp modifier group'')
        else Inr ((add, remove), advance 1 s2))))"

section \<open>Escapes\<close>

text \<open>Up to \<open>n\<close> octal digits with a value of at most \<open>0o377\<close>: the value and how many were read.\<close>

fun octal_digits :: "nat \<Rightarrow> nat \<Rightarrow> js_string \<Rightarrow> nat \<times> nat" where
  "octal_digits (Suc n) v (c # r) =
     (if cu CHR ''0'' \<le> c \<and> c \<le> cu CHR ''7'' \<and> v * 8 + (c - 0x30) \<le> 0xff
      then (case octal_digits n (v * 8 + (c - 0x30)) r of (w, k) \<Rightarrow> (w, k + 1))
      else (v, 0))"
| "octal_digits _ v _ = (v, 0)"

definition parseLegacyOctal :: "parser \<Rightarrow> pstate \<Rightarrow> nat \<times> pstate" where
  "parseLegacyOctal P s = (case octal_digits 3 0 (rest_of P s) of (v, k) \<Rightarrow> (v, advance k s))"

definition is_letter :: "nat \<Rightarrow> bool" where
  "is_letter l \<longleftrightarrow> cu CHR ''A'' \<le> l \<and> l \<le> cu CHR ''Z'' \<or> cu CHR ''a'' \<le> l \<and> l \<le> cu CHR ''z''"

text \<open>The control escape, after its \<^verbatim>\<open>c\<close>; outside u/v mode a failed one is a backslash.\<close>

definition control_escape :: "parser \<Rightarrow> bool \<Rightarrow> nat parse" where
  "control_escape P inClass s =
     (case peek P s of
        Some l \<Rightarrow>
          if is_letter l \<or> inClass \<and> \<not> ps_unicode P \<and> (is_decimal l \<or> l = cu CHR ''_'')
          then Inr (l mod 32, advance 1 s)
          else if \<not> ps_unicode P then Inr (0x5c, s\<lparr>pos := pos s - 1\<rparr>)
          else Inl (Unsupported ''c without a control letter'')
      | None \<Rightarrow>
          if \<not> ps_unicode P then Inr (0x5c, s\<lparr>pos := pos s - 1\<rparr>)
          else Inl (Unsupported ''c without a control letter''))"

text \<open>\<^verbatim>\<open>\\x\<close> and \<^verbatim>\<open>\\u\<close> with exactly \<open>n\<close> hex digits, else the letter itself outside u/v mode.\<close>

definition hex_escape :: "parser \<Rightarrow> nat \<Rightarrow> nat \<Rightarrow> nat parse" where
  "hex_escape P n letter s =
     (let hex = take n (rest_of P s) in
      if all_hex n hex then Inr (parse_radix 16 hex, advance n s)
      else if \<not> ps_unicode P then Inr (letter, s)
      else Inl (Unsupported ''bad hex escape''))"

definition parseEscapedCodeUnit :: "parser \<Rightarrow> bool \<Rightarrow> nat parse" where
  "parseEscapedCodeUnit P inClass s =
     bindE (next_unit P s) (\<lambda>(e, s1).
       if e = cu CHR ''n'' then Inr (0x0a, s1)
       else if e = cu CHR ''r'' then Inr (0x0d, s1)
       else if e = cu CHR ''t'' then Inr (0x09, s1)
       else if e = cu CHR ''f'' then Inr (0x0c, s1)
       else if e = cu CHR ''v'' then Inr (0x0b, s1)
       else if cu CHR ''0'' \<le> e \<and> e \<le> cu CHR ''7'' then Inr (parseLegacyOctal P s)
       else if e = cu CHR ''8'' \<or> e = cu CHR ''9'' then Inr (e, s1)
       else if e = cu CHR ''c'' then control_escape P inClass s1
       else if e = cu CHR ''x'' then hex_escape P 2 0x78 s1
       else if e = cu CHR ''u'' then
         (if peek P s1 = Some (cu CHR ''{'') then Inl (Unsupported ''u{} code-point escape'')
          else hex_escape P 4 0x75 s1)
       else Inr (e, s1))"

section \<open>Legacy classes\<close>

datatype class_member = MChar nat | MShorthand ranges

definition class_shorthand :: "nat \<Rightarrow> ranges option" where
  "class_shorthand e =
     (if e = cu CHR ''d'' then Some DIGIT
      else if e = cu CHR ''w'' then Some WORD
      else if e = cu CHR ''s'' then Some SPACE
      else if e = cu CHR ''D'' then Some NOT_DIGIT
      else if e = cu CHR ''W'' then Some NOT_WORD
      else if e = cu CHR ''S'' then Some NOT_SPACE
      else None)"

definition parseClassMember :: "parser \<Rightarrow> class_member parse" where
  "parseClassMember P s =
     (if peek P s = Some backslash then
        (let s1 = advance 1 s in
         case Option.bind (peek P s1) class_shorthand of
           Some rs \<Rightarrow> Inr (MShorthand rs, advance 1 s1)
         | None \<Rightarrow>
             if peek P s1 = Some (cu CHR ''b'') then Inr (MChar 0x08, advance 1 s1)
             else bindE (parseEscapedCodeUnit P True s1) (\<lambda>(code, s2). Inr (MChar code, s2)))
      else bindE (next_unit P s) (\<lambda>(c, s1). Inr (MChar c, s1)))"

text \<open>A \<^verbatim>\<open>-\<close> that neither closes the class nor ends the pattern.\<close>

definition at_dash :: "parser \<Rightarrow> pstate \<Rightarrow> bool" where
  "at_dash P s \<longleftrightarrow>
     peek P s = Some (cu CHR ''-'') \<and>
     nth_opt (src P) (pos s + 1) \<noteq> Some (cu CHR '']'') \<and> nth_opt (src P) (pos s + 1) \<noteq> None"

lemma octal_digits_count: "octal_digits n v r = (w, k) \<Longrightarrow> k \<le> length r \<and> k \<le> n"
  by (induction n v r arbitrary: w k rule: octal_digits.induct) (auto split: if_splits prod.splits)

lemma advance_simps [simp]: "pos (advance n s) = pos s + n" "captures (advance n s) = captures s"
  by (simp_all add: advance_def)

lemma peek_Some: "peek P s = Some c \<longleftrightarrow> pos s < length (src P) \<and> src P ! pos s = c"
  by (auto simp: peek_def nth_opt_iffs)

lemma next_unit_Inr: "next_unit P s = Inr (c, s') \<longleftrightarrow> peek P s = Some c \<and> s' = advance 1 s"
  by (auto simp: next_unit_def split: option.splits)

lemma rest_of_peek: "peek P s = Some c \<Longrightarrow> rest_of P s \<noteq> [] \<and> hd (rest_of P s) = c"
  by (auto simp: peek_Some rest_of_def hd_drop_conv_nth)

lemma length_rest_of: "length (rest_of P s) = length (src P) - pos s"
  by (simp add: rest_of_def)

text \<open>
  How far a lexical parser moves: at least \<open>n\<close> units, never past the end, and no group is counted.
\<close>

definition moves :: "parser \<Rightarrow> nat \<Rightarrow> pstate \<Rightarrow> pstate \<Rightarrow> bool" where
  "moves P n s s' \<longleftrightarrow> pos s + n \<le> pos s' \<and> pos s' \<le> length (src P) \<and> captures s' = captures s"

lemma hex_escape_moves:
  "hex_escape P n l s = Inr (c, s') \<Longrightarrow> pos s \<le> length (src P) \<Longrightarrow> moves P 0 s s'"
  by (auto simp: hex_escape_def Let_def all_hex_def moves_def length_rest_of split: if_splits)

lemma parseEscapedCodeUnit_moves:
  assumes "parseEscapedCodeUnit P inClass s = Inr (c, s')"
  shows "moves P 0 s s'"
proof -
  from assms obtain e where e: "peek P s = Some e" by (auto simp: parseEscapedCodeUnit_def bindE_eq_Inr next_unit_Inr)
  then have lt: "pos s < length (src P)" by (simp add: peek_Some)
  obtain w k where oct: "octal_digits 3 0 (rest_of P s) = (w, k)" by (cases "octal_digits 3 0 (rest_of P s)")
  then have "k \<le> length (src P) - pos s" using octal_digits_count length_rest_of by metis
  then have oct': "moves P 0 s (snd (parseLegacyOctal P s))" using lt oct by (simp add: parseLegacyOctal_def moves_def)
  have ctl: "moves P 0 s s'" if "control_escape P inClass (advance 1 s) = Inr (c, s')"
    using that lt by (auto simp: control_escape_def moves_def peek_Some split: option.splits if_splits)
  have hex: "moves P 0 s s'" if "hex_escape P n l (advance 1 s) = Inr (c, s')" for n l
    using hex_escape_moves [OF that] lt by (simp add: moves_def)
  show ?thesis using assms e lt oct' ctl hex
    by (auto simp: parseEscapedCodeUnit_def bindE_eq_Inr next_unit_Inr moves_def split: if_splits)
qed

lemma parseClassMember_moves:
  assumes "parseClassMember P s = Inr (m, s')"
  shows "moves P 1 s s'"
  using assms
  by (auto simp: parseClassMember_def bindE_eq_Inr next_unit_Inr moves_def Let_def peek_Some
      split: if_splits option.splits Option.bind_splits dest!: parseEscapedCodeUnit_moves)

text \<open>The loop of \<^verbatim>\<open>parseClass\<close>, from one member to the next.\<close>

function parseClass_loop :: "parser \<Rightarrow> ranges \<Rightarrow> ranges parse" where
  "parseClass_loop P rs s =
     (if eof P s \<or> peek P s = Some (cu CHR '']'') then Inr (rs, s)
      else bindE (parseClassMember P s) (\<lambda>x.
        case fst x of
          MShorthand ss \<Rightarrow>
            if at_dash P (snd x) then parseClass_loop P (rs @ ss @ [(0x2d, 0x2d)]) (advance 1 (snd x))
            else parseClass_loop P (rs @ ss) (snd x)
        | MChar lo \<Rightarrow>
            if at_dash P (snd x) then
              bindE (parseClassMember P (advance 1 (snd x))) (\<lambda>y.
                case fst y of
                  MShorthand ss \<Rightarrow> parseClass_loop P (rs @ [(lo, lo), (0x2d, 0x2d)] @ ss) (snd y)
                | MChar hi \<Rightarrow>
                    if hi < lo then Inl (Unsupported ''class range out of order'')
                    else parseClass_loop P (rs @ [(lo, hi)]) (snd y))
            else parseClass_loop P (rs @ [(lo, lo)]) (snd x)))"
  by pat_completeness auto
termination
  by (relation "measure (\<lambda>(P, _, s). length (src P) - pos s)")
     (auto simp: eof_def moves_def dest!: parseClassMember_moves)

declare parseClass_loop.simps [simp del]

definition parseClass :: "parser \<Rightarrow> re_node parse" where
  "parseClass P s =
     (let s1 = advance 1 s; negated = (peek P s1 = Some (cu CHR ''^''));
          s2 = (if negated then advance 1 s1 else s1)
      in bindE (parseClass_loop P [] s2) (\<lambda>(rs, s3).
           if peek P s3 \<noteq> Some (cu CHR '']'') then Inl (Unsupported ''unterminated character class'')
           else Inr (RClass rs negated, advance 1 s3)))"

end
