(* ===== verification/Re_Parse.thy ===== *)
theory Re_Parse
  imports Re_Parse_Lex Re_Emitter "HOL-Library.List_Lexorder"
begin

text \<open>
  The recursive-descent parser of \<^verbatim>\<open>src/codegen/regex/parse.ts\<close>: code-point atoms and finite string
  sets in u/v mode, groups, quantifiers, alternation, and \<^verbatim>\<open>parsePattern\<close>. \<open>depth\<close> is the room on
  the host's stack: one level per nested group, and the room given to nested v-mode classes. The
  \<^verbatim>\<open>while\<close> loops of alternation and concatenation carry a fuel of one round per unit of the
  pattern.
\<close>

section \<open>Tries of strings\<close>

datatype ustrie = UTrie (terminal: bool) (trie_children: "(nat \<times> ustrie) list")

definition new_trie :: ustrie where
  "new_trie = UTrie False []"

primrec insertUnicodeString :: "nat list \<Rightarrow> ustrie \<Rightarrow> ustrie" where
  "insertUnicodeString [] t = UTrie True (trie_children t)"
| "insertUnicodeString (cp # w) t =
     (let cs = trie_children t in
      UTrie (terminal t)
        (case map_of cs cp of
           None \<Rightarrow> cs @ [(cp, insertUnicodeString w new_trie)]
         | Some child \<Rightarrow> map (\<lambda>(c, u). if c = cp then (c, insertUnicodeString w u) else (c, u)) cs))"

fun join_with :: "js_string \<Rightarrow> js_string list \<Rightarrow> js_string" where
  "join_with sep [] = []"
| "join_with sep [w] = w"
| "join_with sep (w # v # ws) = w @ sep @ join_with sep (v # ws)"

primrec unicodeStringTrieSignature :: "ustrie \<Rightarrow> js_string" where
  "unicodeStringTrieSignature (UTrie t cs) =
     (if t then str ''1'' else str ''0'') @ str ''['' @
     join_with (str '','')
       (sort (map (\<lambda>(cp, sig). to_radix 36 cp @ str '':'' @ sig)
          (map (map_prod id unicodeStringTrieSignature) cs))) @ str '']''"

text \<open>Edges with the same continuation, under its signature, in order of first occurrence.\<close>

fun add_edge :: "(js_string \<times> nat list \<times> ustrie) list \<Rightarrow> nat \<times> ustrie \<Rightarrow> (js_string \<times> nat list \<times> ustrie) list" where
  "add_edge [] (cp, child) = [(unicodeStringTrieSignature child, [cp], child)]"
| "add_edge ((sig, cps, u) # gs) (cp, child) =
     (if sig = unicodeStringTrieSignature child then (sig, cps @ [cp], u) # gs
      else (sig, cps, u) # add_edge gs (cp, child))"

definition trie_groups :: "(nat \<times> ustrie) list \<Rightarrow> (nat list \<times> ustrie) list" where
  "trie_groups cs = map snd (foldl add_edge [] cs)"

definition codePointRanges :: "nat list \<Rightarrow> ranges" where
  "codePointRanges cps = merge_ranges (map (\<lambda>cp. (cp, cp)) (sort cps))"

section \<open>Code-point atoms\<close>

definition enumFlags :: "parser \<Rightarrow> bool \<Rightarrow> js_string" where
  "enumFlags P iState = (if ps_vMode P then str ''v'' else str ''u'') @ (if iState then str ''i'' else [])"

definition cpClass :: "ranges \<Rightarrow> re_node" where
  "cpClass rs = RCpClass rs False"

definition uEnum :: "parser \<Rightarrow> bool \<Rightarrow> js_string \<Rightarrow> regex_error + re_node" where
  "uEnum P iState source =
     bindE (enumerateClassRanges (ps_host P) source (enumFlags P iState)) (\<lambda>rs. Inr (cpClass rs))"

definition uChar :: "parser \<Rightarrow> bool \<Rightarrow> nat \<Rightarrow> regex_error + re_node" where
  "uChar P iState cp =
     (if iState then uEnum P iState (codePointSource cp)
      else if 0xffff < cp then
        Inr (RConcat [RChar (0xd800 + (cp - 0x10000) div 1024), RChar (0xdc00 + (cp - 0x10000) mod 1024)])
      else if 0xd800 \<le> cp \<and> cp \<le> 0xdfff then Inr (cpClass [(cp, cp)])
      else Inr (RChar cp))"

definition uStringTrieHead :: "parser \<Rightarrow> bool \<Rightarrow> nat list \<Rightarrow> regex_error + re_node" where
  "uStringTrieHead P iState cps =
     (if length cps = 1 then uChar P iState (hd cps)
      else if iState then uEnum P iState (str ''['' @ concat (map codePointSource cps) @ str '']'')
      else Inr (cpClass (codePointRanges cps)))"

text \<open>No option never matches, one stands for itself.\<close>

definition alt_of :: "re_node list \<Rightarrow> re_node" where
  "alt_of options = (case options of [] \<Rightarrow> cpClass [] | [x] \<Rightarrow> x | _ \<Rightarrow> RAlt options)"

definition trie_node :: "bool \<Rightarrow> re_node list \<Rightarrow> re_node" where
  "trie_node t options = alt_of (options @ (if t then [RConcat []] else []))"

definition trie_branch :: "re_node \<Rightarrow> re_node \<Rightarrow> re_node" where
  "trie_branch head tail =
     (case tail of
        RConcat parts \<Rightarrow> if parts = [] then head else RConcat (head # parts)
      | _ \<Rightarrow> RConcat [head, tail])"

lemma add_edge_children:
  "g \<in> set (add_edge gs e) \<Longrightarrow> snd (snd g) = snd e \<or> (\<exists>g' \<in> set gs. snd (snd g) = snd (snd g'))"
  by (induction gs e rule: add_edge.induct) (auto split: if_splits)

lemma trie_groups_children: "g \<in> set (trie_groups cs) \<Longrightarrow> snd g \<in> snd ` set cs"
proof -
  have "g \<in> set (foldl add_edge gs cs) \<Longrightarrow> snd (snd g) \<in> snd ` set cs \<or> (\<exists>g' \<in> set gs. snd (snd g) = snd (snd g'))"
    for g gs
    by (induction cs arbitrary: gs) (fastforce dest: add_edge_children)+
  then show "g \<in> set (trie_groups cs) \<Longrightarrow> snd g \<in> snd ` set cs"
    by (fastforce simp: trie_groups_def)
qed

lemma trie_child_size: "(cp, u) \<in> set cs \<Longrightarrow> size u < Suc (size_list (size_prod (\<lambda>x. 0) size) cs)"
  by (induction cs) auto

function uStringTrieBranches :: "parser \<Rightarrow> bool \<Rightarrow> ustrie \<Rightarrow> regex_error + re_node list" where
  "uStringTrieBranches P iState (UTrie t cs) =
     mapE (\<lambda>g. bindE (uStringTrieHead P iState (fst g)) (\<lambda>head.
               bindE (uStringTrieBranches P iState (snd g)) (\<lambda>options.
                 Inr (trie_branch head (trie_node (terminal (snd g)) options))))) (trie_groups cs)"
  by pat_completeness auto
termination
  by (relation "measure (\<lambda>(_, _, t). size t)") (auto dest!: trie_groups_children intro: trie_child_size)

definition uStringSet :: "parser \<Rightarrow> bool \<Rightarrow> unicode_string_set \<Rightarrow> regex_error + re_node" where
  "uStringSet P iState A =
     (let root = fold insertUnicodeString (us_strings A) new_trie in
      bindE (uStringTrieBranches P iState root) (\<lambda>options.
        Inr (alt_of (options @ (if us_ranges A \<noteq> [] then [cpClass (us_ranges A)] else [])
               @ (if terminal root then [RConcat []] else [])))))"

section \<open>Classes with string disjunctions\<close>

text \<open>
  The top-level \<^verbatim>\<open>\\q{...}\<close> spans of a class body: the index of the backslash and of the closing
  brace.
\<close>

function (sequential) q_spans :: "js_string \<Rightarrow> nat \<Rightarrow> int \<Rightarrow> (nat \<times> nat) list \<Rightarrow> regex_error + (nat \<times> nat) list" where
  "q_spans s i depth spans =
     (if length s \<le> i then Inr spans
      else if s ! i = backslash then
        (if nth_opt s (i + 1) = Some (cu CHR ''q'') \<and> nth_opt s (i + 2) = Some (cu CHR ''{'')
         then bindE (findClosingBrace s (i + 3)) (\<lambda>j.
                q_spans s (j + 1) depth (if depth = 0 then spans @ [(i, j)] else spans))
         else q_spans s (i + 2) depth spans)
      else if s ! i = cu CHR ''['' then q_spans s (i + 1) (depth + 1) spans
      else if s ! i = cu CHR '']'' then q_spans s (i + 1) (depth - 1) spans
      else if depth = 0 \<and> (startsWith_at s (str ''&&'') i \<or> startsWith_at s (str ''--'') i)
      then Inl (Unsupported ''string disjunction inside a v-mode set operation'')
      else q_spans s (i + 1) depth spans)"
  by pat_completeness auto
termination by (relation "measure (\<lambda>(s, i, _, _). length s - i)") (auto dest: findClosingBrace_bounds)

declare q_spans.simps [simp del]

fun residual_of :: "js_string \<Rightarrow> nat \<Rightarrow> (nat \<times> nat) list \<Rightarrow> js_string" where
  "residual_of s prev [] = drop prev s"
| "residual_of s prev ((i, j) # spans) = js_slice s prev i @ residual_of s (j + 1) spans"

definition operand_arm :: "parser \<Rightarrow> bool \<Rightarrow> nat list \<Rightarrow> regex_error + nat \<times> re_node" where
  "operand_arm P iState cps =
     bindE (mapE (uChar P iState) cps) (\<lambda>parts.
       Inr (length cps, if length parts = 1 then hd parts else RConcat parts))"

definition span_arms :: "parser \<Rightarrow> bool \<Rightarrow> js_string \<Rightarrow> nat \<times> nat \<Rightarrow> regex_error + (nat \<times> re_node) list" where
  "span_arms P iState s sp =
     bindE (parseStringDisjunction (js_slice s (fst sp + 3) (snd sp))) (mapE (operand_arm P iState))"

definition names_string_property :: "js_string \<Rightarrow> bool" where
  "names_string_property s \<longleftrightarrow>
     list_ex (\<lambda>name. includes_str s (p_open @ name @ str ''}'') \<or> includes_str s (P_open @ name @ str ''}'')) PROPERTY_NAMES"

definition residual_arms :: "parser \<Rightarrow> bool \<Rightarrow> js_string \<Rightarrow> regex_error + (nat \<times> re_node) list" where
  "residual_arms P iState residual =
     (if residual = [] then Inr []
      else bindE (enumerateClassRanges (ps_host P) (str ''['' @ residual @ str '']'') (enumFlags P iState)) (\<lambda>rs.
        if rs \<noteq> [] then Inr [(1, cpClass rs)]
        else if names_string_property residual
        then Inl (Unsupported ''v-mode class mixes a string disjunction with a property of strings'')
        else Inr []))"

definition uEnumClassWithStrings :: "parser \<Rightarrow> bool \<Rightarrow> js_string \<Rightarrow> regex_error + re_node" where
  "uEnumClassWithStrings P iState source =
     (let body = butlast (tl source) in
      if take 1 body = str ''^'' then Inl (Unsupported ''negated v-mode class with strings'')
      else bindE (q_spans body 0 0 []) (\<lambda>spans.
        if spans = [] then uEnum P iState source
        else bindE (mapE (span_arms P iState body) spans) (\<lambda>arms.
          bindE (residual_arms P iState (residual_of body 0 spans)) (\<lambda>more.
            Inr (alt_of (map snd (sort_key (\<lambda>a. - int (fst a)) (concat arms @ more))))))))"

text \<open>The index after the bracket that closes the class opened before \<open>i\<close>.\<close>

function (sequential) class_end :: "js_string \<Rightarrow> bool \<Rightarrow> nat \<Rightarrow> nat \<Rightarrow> nat option" where
  "class_end s vMode i depth =
     (if length s \<le> i then None
      else if s ! i = backslash then class_end s vMode (i + 2) depth
      else if vMode \<and> s ! i = cu CHR ''['' then class_end s vMode (i + 1) (depth + 1)
      else if s ! i = cu CHR '']'' then
        (if \<not> vMode \<or> depth = 1 then Some (i + 1) else class_end s vMode (i + 1) (depth - 1))
      else class_end s vMode (i + 1) depth)"
  by pat_completeness auto
termination by (relation "measure (\<lambda>(s, _, i, _). length s - i)") auto

declare class_end.simps [simp del]

definition extractClassSource :: "parser \<Rightarrow> js_string parse" where
  "extractClassSource P s =
     (case class_end (src P) (ps_vMode P) (pos s + 1) 1 of
        None \<Rightarrow> Inl (Unsupported ''unterminated character class'')
      | Some e \<Rightarrow> Inr (js_slice (src P) (pos s) e, s\<lparr>pos := e\<rparr>))"

definition class_node :: "parser \<Rightarrow> nat \<Rightarrow> bool \<Rightarrow> js_string \<Rightarrow> regex_error + re_node" where
  "class_node P depth iState source =
     (if ps_vMode P \<and> hasUnicodeStringSetSyntax source then
        (if includes_str source q_open \<and> \<not> includes_str source p_open \<and>
            \<not> includes_str source (str ''&&'') \<and> \<not> includes_str source (str ''--'')
         then uEnumClassWithStrings P iState source
         else bindE (evaluateUnicodeStringClass depth (ps_host P) (enumFlags P iState) source) (uStringSet P iState))
      else uEnum P iState source)"

text \<open>A node that does not move the cursor.\<close>

definition at_cursor :: "pstate \<Rightarrow> regex_error + re_node \<Rightarrow> regex_error + re_node \<times> pstate" where
  "at_cursor s r = bindE r (\<lambda>n. Inr (n, s))"

section \<open>Escape atoms\<close>

definition backrefNode :: "parser \<Rightarrow> bool \<Rightarrow> nat \<Rightarrow> regex_error + re_node" where
  "backrefNode P iState index =
     (if ps_unicode P \<and> iState then Inl (Unsupported ''backreference under u+i folding'') else Inr (RBackref index))"

definition extractPropertyEscapeSource :: "parser \<Rightarrow> js_string parse" where
  "extractPropertyEscapeSource P s =
     bindE (next_unit P s) (\<lambda>(letter, s1).
       if peek P s1 \<noteq> Some (cu CHR ''{'') then Inl (Unsupported ''property escape must be followed by braces'')
       else case take_units P (\<lambda>c. c \<noteq> cu CHR ''}'') (advance 1 s1) of (body, s2) \<Rightarrow>
         if peek P s2 \<noteq> Some (cu CHR ''}'') then Inl (Unsupported ''unterminated property escape'')
         else Inr ([backslash, letter] @ str ''{'' @ body @ str ''}'', advance 1 s2))"

definition readHex4 :: "parser \<Rightarrow> nat parse" where
  "readHex4 P s =
     (let hex = take 4 (rest_of P s) in
      if length hex < 4 then Inl (Unsupported ''unexpected end of pattern'')
      else if \<not> list_all is_hex hex then Inl (Unsupported ''bad u escape'')
      else Inr (parse_radix 16 hex, advance 4 s))"

definition parseUnicodeEscapeTail :: "parser \<Rightarrow> bool \<Rightarrow> re_node parse" where
  "parseUnicodeEscapeTail P iState s =
     (if peek P s = Some (cu CHR ''u'') then
        (let s1 = advance 1 s in
         if peek P s1 = Some (cu CHR ''{'') then
           (case take_units P (\<lambda>c. c \<noteq> cu CHR ''}'') (advance 1 s1) of (hex, s2) \<Rightarrow>
              if peek P s2 \<noteq> Some (cu CHR ''}'') \<or> hex = [] \<or> \<not> list_all is_hex hex
              then Inl (Unsupported ''bad u{} escape'')
              else if 0x10ffff < parse_radix 16 hex then Inl (Unsupported ''u{} out of code-point range'')
              else at_cursor (advance 1 s2) (uChar P iState (parse_radix 16 hex)))
         else bindE (readHex4 P s1) (\<lambda>(lead, s2).
           case (if is_lead lead \<and> startsWith_at (src P) [backslash, cu CHR ''u''] (pos s2)
                 then readHex4 P (advance 2 s2) else Inl Diverges) of
             Inr (trail, s3) \<Rightarrow>
               if is_trail trail then
                 (case at_cursor s3 (uChar P iState (pair_code_point lead trail)) of
                    Inl _ \<Rightarrow> at_cursor s2 (uChar P iState lead)
                  | Inr r \<Rightarrow> Inr r)
               else at_cursor s2 (uChar P iState lead)
           | Inl _ \<Rightarrow> at_cursor s2 (uChar P iState lead)))
      else bindE (parseEscapedCodeUnit P False s) (\<lambda>(cp, s1). at_cursor s1 (uChar P iState cp)))"

definition shorthand_node :: "nat \<Rightarrow> re_node option" where
  "shorthand_node e =
     (if e = cu CHR ''d'' then Some (RClass DIGIT False)
      else if e = cu CHR ''D'' then Some (RClass DIGIT True)
      else if e = cu CHR ''w'' then Some (RClass WORD False)
      else if e = cu CHR ''W'' then Some (RClass WORD True)
      else if e = cu CHR ''s'' then Some (RClass SPACE False)
      else if e = cu CHR ''S'' then Some (RClass SPACE True)
      else None)"

text \<open>A decimal escape: a backreference, or outside u/v mode an octal or identity escape.\<close>

definition decimal_escape :: "parser \<Rightarrow> bool \<Rightarrow> nat \<Rightarrow> re_node parse" where
  "decimal_escape P iState e s =
     (case take_units P is_decimal s of (digits, s1) \<Rightarrow>
        let value = parse_radix 10 digits in
        if 1 \<le> value \<and> value \<le> totalCaptures P then at_cursor s1 (backrefNode P iState value)
        else if ps_unicode P then Inl (Unsupported ''invalid decimal escape in u/v mode'')
        else if cu CHR ''8'' \<le> e then Inr (RChar e, advance 1 s)
        else case parseLegacyOctal P s of (code, s2) \<Rightarrow> Inr (RChar code, s2))"

definition named_backref :: "parser \<Rightarrow> bool \<Rightarrow> re_node parse" where
  "named_backref P iState s =
     (if ps_groupNames P = [] then
        (if ps_unicode P then Inl (Unsupported ''k without a named group in u/v mode'')
         else Inr (RChar 0x6b, advance 1 s))
      else let s1 = advance 1 s in
        if peek P s1 \<noteq> Some (cu CHR ''<'') then Inl (Unsupported ''k must be followed by a name'')
        else case take_units P (\<lambda>c. c \<noteq> cu CHR ''>'') (advance 1 s1) of (rawName, s2) \<Rightarrow>
          if peek P s2 \<noteq> Some (cu CHR ''>'') then Inl (Unsupported ''unterminated named reference'')
          else bindE (decodeGroupName rawName) (\<lambda>name.
            case map_of (ps_groupNames P) name of
              None \<Rightarrow> Inl (Unsupported ''reference to an undeclared group'')
            | Some idx \<Rightarrow> at_cursor (advance 1 s2) (backrefNode P iState idx)))"

definition parseEscapeAtom :: "parser \<Rightarrow> bool \<Rightarrow> re_node parse" where
  "parseEscapeAtom P iState s0 =
     (let s = advance 1 s0 in
      case peek P s of
        None \<Rightarrow> Inl (Unsupported ''trailing escape'')
      | Some e \<Rightarrow>
          (case shorthand_node e of
             Some n \<Rightarrow>
               at_cursor (advance 1 s) (if ps_unicode P then uEnum P iState [backslash, e] else Inr n)
           | None \<Rightarrow>
               if e = cu CHR ''b'' \<or> e = cu CHR ''B'' then
                 (if ps_unicode P \<and> iState then Inl (Unsupported ''word boundary with u+i word characters'')
                  else Inr (RWordBoundary (e = cu CHR ''B''), advance 1 s))
               else if cu CHR ''1'' \<le> e \<and> e \<le> cu CHR ''9'' then decimal_escape P iState e s
               else if e = cu CHR ''k'' then named_backref P iState s
               else if (e = cu CHR ''p'' \<or> e = cu CHR ''P'') \<and> ps_unicode P then
                 bindE (extractPropertyEscapeSource P s) (\<lambda>(source, s1).
                   at_cursor s1
                     (case (if ps_vMode P then unicodeStringPropertyEscape (ps_host P) source else None) of
                        None \<Rightarrow> uEnum P iState source
                      | Some A \<Rightarrow> uStringSet P iState A))
               else if ps_unicode P then parseUnicodeEscapeTail P iState s
               else bindE (parseEscapedCodeUnit P False s) (\<lambda>(code, s1). Inr (RChar code, s1))))"

section \<open>Atoms, quantifiers, alternation\<close>

type_synonym group_parser = "bool \<Rightarrow> re_node parse"

definition parseAtom :: "nat \<Rightarrow> group_parser \<Rightarrow> parser \<Rightarrow> bool \<Rightarrow> re_node parse" where
  "parseAtom depth grp P iState s =
     (case peek P s of
        None \<Rightarrow> Inl (Unsupported ''unexpected end of pattern'')
      | Some c \<Rightarrow>
          if c = cu CHR ''('' then grp iState s
          else if c = cu CHR ''['' then
            (if ps_unicode P
             then bindE (extractClassSource P s) (\<lambda>(source, s1). at_cursor s1 (class_node P depth iState source))
             else parseClass P s)
          else if c = cu CHR ''.'' then Inr (if ps_unicode P then RUdot else RAny, advance 1 s)
          else if c = cu CHR ''^'' then Inr (RBol, advance 1 s)
          else if c = cu CHR ''$'' then Inr (REol, advance 1 s)
          else if c = backslash then parseEscapeAtom P iState s
          else if c = cu CHR ''*'' \<or> c = cu CHR ''+'' \<or> c = cu CHR ''?'' then Inl (Unsupported ''nothing to repeat'')
          else if ps_unicode P then
            (let cp = the (codePointAt (src P) (pos s)) in at_cursor (advance (cp_width cp) s) (uChar P iState cp))
          else Inr (RChar c, advance 1 s))"

fun is_assertion :: "re_node \<Rightarrow> bool" where
  "is_assertion RBol = True"
| "is_assertion REol = True"
| "is_assertion (RWordBoundary _) = True"
| "is_assertion _ = False"

fun is_lookaround :: "re_node \<Rightarrow> bool" where
  "is_lookaround (RLookaround _ _ _) = True"
| "is_lookaround _ = False"

text \<open>The node of a one-character quantifier, and of a brace quantifier.\<close>

definition quantified :: "nat \<Rightarrow> re_node \<Rightarrow> bool \<Rightarrow> re_node" where
  "quantified c atom greedy =
     (if is_lookaround atom then (if c = cu CHR ''+'' then atom else ROpt atom greedy)
      else if c = cu CHR ''*'' then RStar atom greedy
      else if c = cu CHR ''+'' then RPlus atom greedy
      else ROpt atom greedy)"

definition repeated :: "nat \<times> nat option \<Rightarrow> re_node \<Rightarrow> bool \<Rightarrow> re_node" where
  "repeated bounds atom greedy =
     (if is_lookaround atom then
        (if snd bounds = Some 0 then RConcat []
         else if 1 \<le> fst bounds then atom else ROpt atom greedy)
      else RRepeat atom (fst bounds) (snd bounds) greedy)"

definition parseQuantified :: "nat \<Rightarrow> group_parser \<Rightarrow> parser \<Rightarrow> bool \<Rightarrow> re_node parse" where
  "parseQuantified depth grp P iState s =
     bindE (parseAtom depth grp P iState s) (\<lambda>(atom, s1).
       case peek P s1 of
         None \<Rightarrow> Inr (atom, s1)
       | Some c \<Rightarrow>
           if c = cu CHR ''*'' \<or> c = cu CHR ''+'' \<or> c = cu CHR ''?'' then
             (if is_assertion atom then Inl (Unsupported ''nothing to repeat'')
              else case consumeLazy P (advance 1 s1) of (greedy, s2) \<Rightarrow> Inr (quantified c atom greedy, s2))
           else if c = cu CHR ''{'' then
             bindE (tryParseBraceQuantifier P s1) (\<lambda>(bounds, s2).
               case bounds of
                 None \<Rightarrow> Inr (atom, s1)
               | Some b \<Rightarrow>
                   if is_assertion atom then Inl (Unsupported ''nothing to repeat'')
                   else case consumeLazy P s2 of (greedy, s3) \<Rightarrow> Inr (repeated b atom greedy, s3))
           else Inr (atom, s1))"

primrec parseConcat_loop :: "nat \<Rightarrow> (bool \<Rightarrow> re_node parse) \<Rightarrow> parser \<Rightarrow> bool \<Rightarrow> re_node list \<Rightarrow> re_node list parse" where
  "parseConcat_loop 0 quant P iState parts s = Inl Diverges"
| "parseConcat_loop (Suc n) quant P iState parts s =
     (if eof P s \<or> peek P s = Some (cu CHR ''|'') \<or> peek P s = Some (cu CHR '')'') then Inr (parts, s)
      else bindE (quant iState s) (\<lambda>(part, s1). parseConcat_loop n quant P iState (parts @ [part]) s1))"

definition parseConcat :: "(bool \<Rightarrow> re_node parse) \<Rightarrow> parser \<Rightarrow> bool \<Rightarrow> re_node parse" where
  "parseConcat quant P iState s =
     bindE (parseConcat_loop (length (src P) + 1) quant P iState [] s) (\<lambda>(parts, s1).
       Inr (if length parts = 1 then hd parts else RConcat parts, s1))"

primrec parseAlternation_loop :: "nat \<Rightarrow> (bool \<Rightarrow> re_node parse) \<Rightarrow> parser \<Rightarrow> bool \<Rightarrow> re_node list \<Rightarrow> re_node list parse" where
  "parseAlternation_loop 0 quant P iState options s = Inl Diverges"
| "parseAlternation_loop (Suc n) quant P iState options s =
     (if peek P s \<noteq> Some (cu CHR ''|'') then Inr (options, s)
      else bindE (parseConcat quant P iState (advance 1 s)) (\<lambda>(opt, s1).
             parseAlternation_loop n quant P iState (options @ [opt]) s1))"

definition parseAlternation :: "(bool \<Rightarrow> re_node parse) \<Rightarrow> parser \<Rightarrow> bool \<Rightarrow> re_node parse" where
  "parseAlternation quant P iState s =
     bindE (parseConcat quant P iState s) (\<lambda>(first, s1).
     bindE (parseAlternation_loop (length (src P) + 1) quant P iState [first] s1) (\<lambda>(options, s2).
       Inr (if length options = 1 then hd options else RAlt options, s2)))"

section \<open>Groups\<close>

datatype group_form =
    Plain
  | Capturing nat "js_string option"
  | Looking bool bool            \<comment> \<open>negated, behind\<close>
  | Modified nat nat             \<comment> \<open>add, remove\<close>

definition count_group :: "pstate \<Rightarrow> pstate" where
  "count_group s = s\<lparr>captures := captures s + 1\<rparr>"

text \<open>A named group, the cursor after \<^verbatim>\<open>(?<\<close>.\<close>

definition named_group :: "parser \<Rightarrow> group_form parse" where
  "named_group P s =
     (case take_units P (\<lambda>c. c \<noteq> cu CHR ''>'') s of (rawName, s1) \<Rightarrow>
        if peek P s1 \<noteq> Some (cu CHR ''>'') then Inl (Unsupported ''unterminated group name'')
        else bindE (decodeGroupName rawName) (\<lambda>name.
          let s2 = count_group (advance 1 s1) in
          if map_of (ps_groupNames P) name \<noteq> Some (captures s2)
          then Inl (Unsupported ''duplicate capture group name'')
          else Inr (Capturing (captures s2) (Some name), s2)))"

text \<open>What follows the opening parenthesis, up to the body of the group.\<close>

definition group_head :: "parser \<Rightarrow> group_form parse" where
  "group_head P s0 =
     (let s = advance 1 s0 in
      if peek P s \<noteq> Some (cu CHR ''?'')
      then (let s1 = count_group s in Inr (Capturing (captures s1) None, s1))
      else let s1 = advance 1 s in
        case peek P s1 of
          None \<Rightarrow> Inl (Unsupported ''unsupported group form'')
        | Some t \<Rightarrow>
            if t = cu CHR '':'' then Inr (Plain, advance 1 s1)
            else if t = cu CHR ''<'' then
              (let s2 = advance 1 s1; after = peek P s2 in
               if after = Some (cu CHR ''='') \<or> after = Some (cu CHR ''!'')
               then Inr (Looking (after = Some (cu CHR ''!'')) True, advance 1 s2)
               else named_group P s2)
            else if t = cu CHR ''='' \<or> t = cu CHR ''!'' then Inr (Looking (t = cu CHR ''!'') False, advance 1 s1)
            else if t = cu CHR ''-'' \<or> t = cu CHR ''i'' \<or> t = cu CHR ''m'' \<or> t = cu CHR ''s''
            then bindE (parseModifiers P s1) (\<lambda>((add, remove), s2). Inr (Modified add remove, s2))
            else Inl (Unsupported ''unsupported group form''))"

fun scoped_i :: "group_form \<Rightarrow> bool \<Rightarrow> bool" where
  "scoped_i (Modified add remove) iState = scoped_flag RE_FLAG_I add remove iState"
| "scoped_i _ iState = iState"

fun group_node :: "group_form \<Rightarrow> re_node \<Rightarrow> re_node" where
  "group_node Plain inner = RGroup inner None None"
| "group_node (Capturing i name) inner = RGroup inner (Some i) name"
| "group_node (Looking negated behind) inner = RLookaround inner negated behind"
| "group_node (Modified add remove) inner = RModGroup add remove inner"

primrec parseGroup :: "nat \<Rightarrow> parser \<Rightarrow> group_parser" where
  "parseGroup 0 P iState s = Inl StackOverflow"
| "parseGroup (Suc depth) P iState s =
     bindE (group_head P s) (\<lambda>(form, s1).
     bindE (parseAlternation (parseQuantified depth (parseGroup depth P) P) P (scoped_i form iState) s1)
       (\<lambda>(inner, s2).
         if peek P s2 \<noteq> Some (cu CHR '')'') then Inl (Unsupported ''unterminated group'')
         else Inr (group_node form inner, advance 1 s2)))"

section \<open>Patterns\<close>

definition parse_root :: "nat \<Rightarrow> parser \<Rightarrow> bool \<Rightarrow> re_node parse" where
  "parse_root depth P iState s =
     bindE (parseAlternation (parseQuantified depth (parseGroup depth P) P) P iState s) (\<lambda>(node, s1).
       if \<not> eof P s1 then Inl (Unsupported ''unexpected unit'') else Inr (node, s1))"

definition parsePattern :: "nat \<Rightarrow> host_env \<Rightarrow> js_string \<Rightarrow> nat \<Rightarrow> regex_error + parsed_regex" where
  "parsePattern depth h pattern flags =
     bindE (new_parser h pattern flags) (\<lambda>P.
     bindE (parse_root depth P (has_flag flags RE_FLAG_I) \<lparr>pos = 0, captures = 0\<rparr>) (\<lambda>(node, s).
       Inr \<lparr>root = node, numCaptures = captures s, pr_groupNames = ps_groupNames P\<rparr>))"

end
