(* ===== verification/Re_Parse_Correct.thy ===== *)
theory Re_Parse_Correct
  imports Re_Parse Re_Semantics
begin

text \<open>
  What the parser guarantees. Every refusal is a \<^verbatim>\<open>RegexUnsupportedError\<close> once the stack has one
  level per unit of the pattern, the loops stop, and an accepted pattern gives a tree with code
  units in range, ordered classes, non-empty alternations and groups numbered from the outside in.
\<close>

section \<open>Well-shaped trees\<close>

text \<open>The bounds of \<^verbatim>\<open>{n,m}\<close>.\<close>

definition bounds_in_order :: "nat \<Rightarrow> nat option \<Rightarrow> bool" where
  "bounds_in_order mn mx \<longleftrightarrow> (case mx of None \<Rightarrow> True | Some m \<Rightarrow> mn \<le> m)"

fun shape :: "re_node \<Rightarrow> bool" where
  "shape (RChar c) = (c < 0x10000)"
| "shape (RClass rs _) = ordered rs"
| "shape (RCpClass rs _) = ordered rs"
| "shape (RLookaround n _ _) = shape n"
| "shape (RModGroup _ _ n) = shape n"
| "shape (RConcat parts) = list_all shape parts"
| "shape (RAlt options) = (options \<noteq> [] \<and> list_all shape options)"
| "shape (RStar n _) = shape n"
| "shape (RPlus n _) = shape n"
| "shape (ROpt n _) = shape n"
| "shape (RRepeat n mn mx _) = (shape n \<and> bounds_in_order mn mx)"
| "shape (RGroup n cap _) = (shape n \<and> (case cap of None \<Rightarrow> True | Some i \<Rightarrow> \<forall>j \<in> all_caps n. i < j))"
| "shape _ = True"

lemma proper_node_shape:
  "\<lbrakk> shape n; \<forall>i \<in> all_caps n. i < k; \<forall>i \<in> backrefs n. i < k \<rbrakk> \<Longrightarrow> proper_node k n"
  by (induction n) (auto simp: list_all_iff split: option.splits)

definition node_ok :: "parser \<Rightarrow> nat \<Rightarrow> nat \<Rightarrow> re_node \<Rightarrow> bool" where
  "node_ok P lo hi n \<longleftrightarrow> shape n \<and> all_caps n \<subseteq> {lo<..hi} \<and> backrefs n \<subseteq> {1..totalCaptures P}"

section \<open>Leaves\<close>

text \<open>A computed node without groups or references; under \<open>enough\<close> stack it is refused politely.\<close>

definition leaf :: "re_node \<Rightarrow> bool" where
  "leaf n \<longleftrightarrow> shape n \<and> all_caps n = {} \<and> backrefs n = {}"

definition leafy :: "bool \<Rightarrow> regex_error + re_node \<Rightarrow> bool" where
  "leafy enough r \<longleftrightarrow> (case r of Inl e \<Rightarrow> enough \<longrightarrow> (\<exists>m. e = Unsupported m) | Inr n \<Rightarrow> leaf n)"

lemma leafy_simps [simp]:
  "leafy enough (Inr n) = leaf n" "leafy enough (Inl (Unsupported m))"
  by (simp_all add: leafy_def)

lemma leafyI: "refuses r \<Longrightarrow> (\<And>n. r = Inr n \<Longrightarrow> leaf n) \<Longrightarrow> leafy enough r"
  by (cases r) (auto simp: leafy_def)

lemma leaf_simps [simp]:
  "leaf (RChar c) \<longleftrightarrow> c < 0x10000" "leaf (cpClass rs) \<longleftrightarrow> ordered rs"
  "leaf (RClass rs neg) \<longleftrightarrow> ordered rs" "leaf (RConcat parts) \<longleftrightarrow> list_all leaf parts"
  "leaf (RAlt options) \<longleftrightarrow> options \<noteq> [] \<and> list_all leaf options"
  by (auto simp: leaf_def cpClass_def list_all_iff)

lemma ordered_Nil [simp]: "ordered []"
  by (simp add: ordered_def)

lemma leaf_alt_of: "list_all leaf ns \<Longrightarrow> leaf (alt_of ns)"
  by (auto simp: alt_of_def split: list.splits)

lemma uEnum_facts: "refuses (uEnum P i source)" "uEnum P i source = Inr n \<Longrightarrow> leaf n"
  by (auto simp: uEnum_def bindE_eq_Inr enumerateClassRanges_ordered intro: refuses_bindE refuses_enumerate)

lemma uChar_facts: "refuses (uChar P i cp)" "uChar P i cp = Inr n \<Longrightarrow> cp \<le> 0x10ffff \<Longrightarrow> leaf n"
proof -
  show "refuses (uChar P i cp)" by (simp add: uChar_def uEnum_facts)
  assume n: "uChar P i cp = Inr n" and cp: "cp \<le> 0x10ffff"
  have "0xd800 + (cp - 0x10000) div 1024 < 0x10000" "0xdc00 + (cp - 0x10000) mod 1024 < 0x10000"
  proof -
    have "(cp - 0x10000) div 1024 \<le> 1023" using cp by simp
    then show "0xd800 + (cp - 0x10000) div 1024 < 0x10000" by linarith
    have "(cp - 0x10000) mod 1024 < 1024" by simp
    then show "0xdc00 + (cp - 0x10000) mod 1024 < 0x10000" by linarith
  qed
  then show "leaf n" using n by (auto simp: uChar_def uEnum_facts ordered_def split: if_splits)
qed

lemma codePointRanges_ordered: "ordered (codePointRanges cps)"
  using singletonRanges_correct(1) [of cps] disjoint_sorted_ordered
  by (simp add: codePointRanges_def singletonRanges_def)

text \<open>Code points of a trie.\<close>

primrec trie_scalar :: "ustrie \<Rightarrow> bool" where
  "trie_scalar (UTrie t cs) = list_all (\<lambda>(cp, ok). cp \<le> 0x10ffff \<and> ok) (map (map_prod id trie_scalar) cs)"

lemma trie_scalar_iff: "trie_scalar t \<longleftrightarrow> (\<forall>(cp, u) \<in> set (trie_children t). cp \<le> 0x10ffff \<and> trie_scalar u)"
  by (cases t) (auto simp: list_all_iff)

declare trie_scalar.simps [simp del]

lemma trie_scalar_new: "trie_scalar new_trie"
  by (subst trie_scalar_iff) (simp add: new_trie_def)

lemma trie_scalar_insert:
  "\<forall>cp \<in> set w. cp \<le> 0x10ffff \<Longrightarrow> trie_scalar t \<Longrightarrow> trie_scalar (insertUnicodeString w t)"
proof (induction w arbitrary: t)
  case Nil
  then show ?case unfolding insertUnicodeString.simps
    by (subst trie_scalar_iff) (simp add: trie_scalar_iff [of t])
next
  case (Cons cp w)
  let ?cs = "trie_children t"
  have cs: "\<forall>(c, u) \<in> set ?cs. c \<le> 0x10ffff \<and> trie_scalar u" using Cons.prems(2) trie_scalar_iff by blast
  have "\<forall>(c, u) \<in> set (case map_of ?cs cp of
      None \<Rightarrow> ?cs @ [(cp, insertUnicodeString w new_trie)]
    | Some child \<Rightarrow> map (\<lambda>(c, u). if c = cp then (c, insertUnicodeString w u) else (c, u)) ?cs).
      c \<le> 0x10ffff \<and> trie_scalar u"
    using cs Cons.IH [OF _ trie_scalar_new] Cons.IH Cons.prems(1)
    by (cases "map_of ?cs cp") (auto split: if_splits)
  then show ?case unfolding insertUnicodeString.simps Let_def
    by (subst trie_scalar_iff) (simp only: ustrie.sel)
qed

lemma trie_scalar_fold:
  "\<forall>w \<in> set ws. \<forall>cp \<in> set w. cp \<le> 0x10ffff \<Longrightarrow> trie_scalar t \<Longrightarrow> trie_scalar (fold insertUnicodeString ws t)"
  by (induction ws arbitrary: t) (auto simp: trie_scalar_insert)

lemma add_edge_codes:
  "g \<in> set (add_edge gs e) \<Longrightarrow> cp \<in> set (fst (snd g)) \<Longrightarrow> cp = fst e \<or> (\<exists>g' \<in> set gs. cp \<in> set (fst (snd g')))"
  by (induction gs e rule: add_edge.induct) (auto split: if_splits)

lemma trie_groups_codes: "g \<in> set (trie_groups cs) \<Longrightarrow> cp \<in> set (fst g) \<Longrightarrow> cp \<in> fst ` set cs"
proof -
  have "g \<in> set (foldl add_edge gs cs) \<Longrightarrow> cp \<in> set (fst (snd g)) \<Longrightarrow>
      cp \<in> fst ` set cs \<or> (\<exists>g' \<in> set gs. cp \<in> set (fst (snd g')))" for g gs
    by (induction cs arbitrary: gs) (fastforce dest: add_edge_codes)+
  then show "g \<in> set (trie_groups cs) \<Longrightarrow> cp \<in> set (fst g) \<Longrightarrow> cp \<in> fst ` set cs"
    by (fastforce simp: trie_groups_def)
qed

lemma uStringTrieHead_facts:
  "refuses (uStringTrieHead P i cps)"
  "uStringTrieHead P i cps = Inr n \<Longrightarrow> \<forall>cp \<in> set cps. cp \<le> 0x10ffff \<Longrightarrow> leaf n"
  by (cases cps; auto simp: uStringTrieHead_def uChar_facts uEnum_facts codePointRanges_ordered split: if_splits)+

lemma leaf_trie_branch: "leaf h \<Longrightarrow> leaf t \<Longrightarrow> leaf (trie_branch h t)"
  by (cases t) (auto simp: trie_branch_def)

lemma leaf_trie_node: "list_all leaf ns \<Longrightarrow> leaf (trie_node t ns)"
  unfolding trie_node_def by (rule leaf_alt_of) auto

lemma uStringTrieBranches_facts:
  "refuses (uStringTrieBranches P i t)"
  "uStringTrieBranches P i t = Inr ns \<Longrightarrow> trie_scalar t \<Longrightarrow> list_all leaf ns"
proof (induction P i t arbitrary: ns rule: uStringTrieBranches.induct)
  case (1 P i t cs)
  {
    case 1
    show ?case using "1.IH"(1) by (auto intro!: refuses_mapE refuses_bindE uStringTrieHead_facts)
  next
    case 2
    show ?case
    proof -
      have "leaf n" if g: "g \<in> set (trie_groups cs)" and n: "bindE (uStringTrieHead P i (fst g)) (\<lambda>head.
          bindE (uStringTrieBranches P i (snd g)) (\<lambda>options.
            Inr (trie_branch head (trie_node (terminal (snd g)) options)))) = Inr n" for g n
      proof -
        from n obtain head options where h: "uStringTrieHead P i (fst g) = Inr head"
          and o: "uStringTrieBranches P i (snd g) = Inr options"
          and n: "n = trie_branch head (trie_node (terminal (snd g)) options)" by (auto simp: bindE_eq_Inr)
        have "\<forall>cp \<in> set (fst g). cp \<le> 0x10ffff" "trie_scalar (snd g)"
          using 2(2) trie_groups_codes [OF g] trie_groups_children [OF g]
          by (fastforce simp: trie_scalar_iff [of "UTrie t cs"])+
        then show ?thesis unfolding n using "1.IH"(2) [OF g h o] uStringTrieHead_facts(2) [OF h]
          by (intro leaf_trie_branch leaf_trie_node)
      qed
      then show ?thesis using mapE_all [OF 2(1) [unfolded uStringTrieBranches.simps]] by blast
    qed
  }
qed

definition us_scalar :: "unicode_string_set \<Rightarrow> bool" where
  "us_scalar A \<longleftrightarrow> ordered (us_ranges A) \<and> (\<forall>w \<in> set (us_strings A). \<forall>cp \<in> set w. cp \<le> 0x10ffff)"

lemma uStringSet_facts: "refuses (uStringSet P i A)" "uStringSet P i A = Inr n \<Longrightarrow> us_scalar A \<Longrightarrow> leaf n"
proof -
  show "refuses (uStringSet P i A)"
    by (auto simp: uStringSet_def Let_def intro!: refuses_bindE uStringTrieBranches_facts)
  assume n: "uStringSet P i A = Inr n" and A: "us_scalar A"
  have "trie_scalar (fold insertUnicodeString (us_strings A) new_trie)"
    by (rule trie_scalar_fold) (use A in \<open>simp_all add: us_scalar_def trie_scalar_new\<close>)
  then show "leaf n" using n A
    by (auto simp: uStringSet_def Let_def bindE_eq_Inr us_scalar_def intro!: leaf_alt_of
      dest!: uStringTrieBranches_facts(2))
qed

section \<open>String sets of code points\<close>

lemma scalarI: "us_ok A \<Longrightarrow> (\<And>w cp. w \<in> set (us_strings A) \<Longrightarrow> cp \<in> set w \<Longrightarrow> cp \<le> 0x10ffff) \<Longrightarrow> us_scalar A"
  by (auto simp: us_scalar_def us_ok_def disjoint_sorted_ordered)

lemma code_points_scalar: "valid_units s \<Longrightarrow> cp \<in> set (code_points s) \<Longrightarrow> cp \<le> 0x10ffff"
  by (induction s rule: code_points.induct)
     (auto simp: valid_units_def split: if_splits dest: pair_code_point_le)

lemma hex4_bound: "all_hex 4 s \<Longrightarrow> parse_radix 16 s < 0x10000"
  using parse_radix_bound [of 16 s] by (simp add: all_hex_def)

lemma hex2_bound: "all_hex 2 s \<Longrightarrow> parse_radix 16 s < 0x100"
  using parse_radix_bound [of 16 s] by (simp add: all_hex_def)

lemma q_unicode_escape_scalar:
  assumes "q_unicode_escape r = Inr (cp, r')"
  shows "cp \<le> 0x10ffff" "set r' \<subseteq> set r"
proof -
  have "parse_radix 16 (take 4 r) \<le> 0x10ffff" if "all_hex 4 (take 4 r)" using hex4_bound [OF that] by simp
  then have "cp \<le> 0x10ffff \<and> set r' \<subseteq> set r"
    using assms pair_code_point_le [of "parse_radix 16 (take 4 r)" "parse_radix 16 (take 4 (drop 2 (drop 4 r)))"]
    by (auto simp: q_unicode_escape_def Let_def split: if_splits dest: in_set_dropD)
  then show "cp \<le> 0x10ffff" "set r' \<subseteq> set r" by simp_all
qed

lemma q_escape_scalar:
  assumes "q_escape r = Inr (cp, r')" "\<forall>c \<in> set r. c \<le> 0x10ffff"
  shows "cp \<le> 0x10ffff" "\<forall>c \<in> set r'. c \<le> 0x10ffff"
proof -
  have "parse_radix 16 (take 2 (tl r)) \<le> 0x10ffff" if "all_hex 2 (take 2 (tl r))" using hex2_bound [OF that] by simp
  moreover have "l mod 32 \<le> 0x10ffff" for l :: nat
  proof -
    have "l mod 32 < 32" by simp
    then show ?thesis by linarith
  qed
  ultimately have "cp \<le> 0x10ffff \<and> (\<forall>c \<in> set r'. c \<le> 0x10ffff)"
    using assms q_unicode_escape_scalar [of "tl r" cp r']
    by (cases r) (auto split: if_splits list.splits dest: in_set_dropD)
  then show "cp \<le> 0x10ffff" "\<forall>c \<in> set r'. c \<le> 0x10ffff" by simp_all
qed

lemma disjunction_loop_scalar:
  assumes "parseStringDisjunction_loop r cur ops = Inr ws" "\<forall>c \<in> set r. c \<le> 0x10ffff" "\<forall>c \<in> set cur. c \<le> 0x10ffff"
    "\<forall>w \<in> set ops. \<forall>c \<in> set w. c \<le> 0x10ffff"
  shows "\<forall>w \<in> set ws. \<forall>c \<in> set w. c \<le> 0x10ffff"
  using assms
proof (induction r cur ops rule: parseStringDisjunction_loop.induct)
  case (2 ch r cur ops)
  show ?case
  proof (cases "ch = backslash")
    case True
    then obtain cp r' where q: "q_escape r = Inr (cp, r')"
      and rest: "parseStringDisjunction_loop r' (cur @ [cp]) ops = Inr ws"
      using "2.prems"(1) by (auto simp: bindE_eq_Inr)
    have "\<forall>c \<in> set r. c \<le> 0x10ffff" using "2.prems"(2) by simp
    note ok = q_escape_scalar [OF q this]
    show ?thesis
      by (rule "2.IH"(2) [OF _ True q]) (use True rest ok "2.prems" in auto)
  next
    case False
    then show ?thesis using 2 by (auto split: if_splits)
  qed
qed auto

lemma parseStringDisjunction_scalar:
  "parseStringDisjunction s = Inr ws \<Longrightarrow> valid_units s \<Longrightarrow> w \<in> set ws \<Longrightarrow> cp \<in> set w \<Longrightarrow> cp \<le> 0x10ffff"
  unfolding parseStringDisjunction_def by (drule disjunction_loop_scalar) (auto simp: code_points_scalar)

text \<open>Sets whose strings are sequences of code points.\<close>

definition scalar_strings :: "unicode_string_set \<Rightarrow> bool" where
  "scalar_strings A \<longleftrightarrow> (\<forall>w \<in> set (us_strings A). \<forall>cp \<in> set w. cp \<le> 0x10ffff)"

lemma scalar_strings_ops:
  "scalar_strings A \<Longrightarrow> scalar_strings B \<Longrightarrow> scalar_strings (union A B)"
  "scalar_strings A \<Longrightarrow> scalar_strings (intersect A B)" "scalar_strings A \<Longrightarrow> scalar_strings (subtract A B)"
  "scalar_strings \<lparr>us_ranges = rs, us_strings = []\<rparr>" "scalar_strings empty_set"
  by (auto simp: scalar_strings_def union_def intersect_def subtract_def foldl_add_string empty_set_def)

lemma scalar_strings_foldl:
  "scalar_strings A \<Longrightarrow> scalar_strings (foldl intersect A Bs)" "scalar_strings A \<Longrightarrow> scalar_strings (foldl subtract A Bs)"
  "scalar_strings A \<Longrightarrow> list_all scalar_strings Bs \<Longrightarrow> scalar_strings (foldl union A Bs)"
  by (induction Bs arbitrary: A) (auto simp: scalar_strings_ops)

lemma scalar_strings_reduce:
  assumes "xs \<noteq> []" "list_all scalar_strings xs"
  shows "scalar_strings (reduce intersect xs)" "scalar_strings (reduce subtract xs)" "scalar_strings (reduce union xs)"
  using assms by (cases xs; auto simp: reduce_def scalar_strings_foldl)+

definition tables_ok :: "host_env \<Rightarrow> bool" where
  "tables_ok h \<longleftrightarrow> (\<forall>name \<in> set PROPERTY_NAMES. scalar_strings (decodeProperty h name))"

lemma unicodeStringPropertyEscape_scalar:
  assumes "unicodeStringPropertyEscape h s = Some A" "tables_ok h"
  shows "scalar_strings A"
proof -
  from assms(1) obtain name where name: "name \<in> set PROPERTY_NAMES" "A = unicodeStringProperty h name"
    by (auto simp: unicodeStringPropertyEscape_def isUnicodeStringPropertyName_def split: option.splits if_splits)
  have "filter (\<lambda>part. part \<noteq> str ''RGI_Emoji'') PROPERTY_NAMES \<noteq> []"
    by (simp add: PROPERTY_NAMES_def str_def)
  then have "scalar_strings (reduce union (map (decodeProperty h) (filter (\<lambda>part. part \<noteq> str ''RGI_Emoji'') PROPERTY_NAMES)))"
    using assms(2) by (intro scalar_strings_reduce(3)) (auto simp: list_all_iff tables_ok_def)
  then show ?thesis using name assms(2) by (simp add: unicodeStringProperty_def tables_ok_def)
qed

lemma flushOrdinary_scalar: "flushOrdinary h fl ordinary A = Inr B \<Longrightarrow> scalar_strings A \<Longrightarrow> scalar_strings B"
  by (auto simp: flushOrdinary_def bindE_eq_Inr scalar_strings_ops split: if_splits)

lemma fromSequences_scalar:
  "parseStringDisjunction s = Inr ws \<Longrightarrow> valid_units s \<Longrightarrow> scalar_strings (fromSequences ws)"
  by (auto simp: scalar_strings_def fromSequences_def foldl_add_string dest: parseStringDisjunction_scalar)

lemma union_body_scalar:
  assumes nested: "\<And>x A. nested x = Inr A \<Longrightarrow> valid_units x \<Longrightarrow> scalar_strings A"
    and s: "valid_units s" and h: "tables_ok h"
  shows "union_body nested h s fl A ordinary i = Inr B \<Longrightarrow> scalar_strings A \<Longrightarrow> scalar_strings B"
proof (induction "length s - i" arbitrary: A ordinary i rule: less_induct)
  case less
  note ih = less.hyps [rotated]
  have slice: "valid_units (js_slice s a b)" for a b by (rule sublist_units [OF sublist_slice(1) s])
  show ?case using less.prems
    by (subst (asm) union_body.simps)
       (auto simp: bindE_eq_Inr Let_def cp_width_def split: if_splits option.splits
         dest: flushOrdinary_scalar nested [OF _ slice] unicodeStringPropertyEscape_scalar [OF _ h]
         intro: scalar_strings_ops(1) fromSequences_scalar [OF _ slice]
         dest!: ih findClosingClass_bounds findClosingBrace_bounds indexOf_bounds)
qed

lemma evaluate_scalar:
  "\<lbrakk> evaluateUnicodeStringClass depth h fl source = Inr A; valid_units source; tables_ok h \<rbrakk> \<Longrightarrow> scalar_strings A"
proof (induction depth arbitrary: source A)
  case (Suc depth)
  have body: "valid_units (butlast (tl source))" by (rule sublist_units [OF sublist_slice(3) Suc.prems(2)])
  have part: "scalar_strings B" if "evalUnionBody (evaluateUnicodeStringClass depth h fl) h fl s = Inr B"
    "valid_units s" for s B
    by (rule union_body_scalar [OF Suc.IH [OF _ _ Suc.prems(3)] that(2) Suc.prems(3)
          that(1) [unfolded evalUnionBody_def] scalar_strings_ops(5)])
  from Suc.prems(1) show ?case
  proof (cases rule: evaluate_cases)
    case (chain parts sets)
    have "sets \<noteq> []" using chain(1) mapE_length [OF chain(3)] by auto
    moreover have "list_all scalar_strings sets"
      by (rule mapE_all [OF chain(3)]) (use chain(2) part body sublist_units in blast)
    ultimately show ?thesis using scalar_strings_reduce chain(4) by auto
  next
    case body
    then show ?thesis by (rule part) (rule \<open>valid_units (butlast (tl source))\<close>)
  qed
qed simp

lemma evaluate_us_scalar:
  "\<lbrakk> evaluateUnicodeStringClass depth h fl source = Inr A; valid_units source; tables_ok h \<rbrakk> \<Longrightarrow> us_scalar A"
  using evaluate_scalar evaluateUnicodeStringClass_ok
  by (intro scalarI) (auto simp: scalar_strings_def)

text \<open>A parser that is set up from a pattern of UTF-16 units and the scan of its groups.\<close>

definition parser_ok :: "parser \<Rightarrow> bool" where
  "parser_ok P \<longleftrightarrow> valid_units (src P) \<and> (\<forall>(_, i) \<in> set (ps_groupNames P). 1 \<le> i \<and> i \<le> totalCaptures P) \<and>
     tables_ok (ps_host P)"

end
