(* ===== verification/Re_Grammar.thy ===== *)
theory Re_Grammar
  imports Re_Parse_Correct
begin

text \<open>
  The parser as a whole: each level of the grammar moves the cursor forward, numbers its groups from
  the counter it was given, and produces a well-shaped tree; every refusal is a
  \<^verbatim>\<open>RegexUnsupportedError\<close> given one stack level per remaining unit.
\<close>

section \<open>Refusals of the lexical parsers\<close>

lemma refuses_next_unit: "refuses (next_unit P s)"
  by (simp add: next_unit_def split: option.splits)

lemma refuses_decodeGroupName: "refuses (decodeGroupName raw)"
  by (induction raw rule: decodeGroupName.induct) (auto simp: Let_def intro!: refuses_bindE)

lemma refuses_scanGroups: "refuses (scanGroups s)"
proof -
  have "refuses (scanGroups_loop s inClass count nms)" for inClass count nms
    by (induction s inClass count nms rule: scanGroups_loop.induct)
       (auto intro!: refuses_bindE refuses_decodeGroupName)
  then show ?thesis by (simp add: scanGroups_def)
qed

lemma refuses_escaped: "refuses (parseEscapedCodeUnit P inClass s)"
  by (auto simp: parseEscapedCodeUnit_def control_escape_def hex_escape_def Let_def
      intro!: refuses_bindE refuses_next_unit split: option.splits)

lemma refuses_member: "refuses (parseClassMember P s)"
  by (auto simp: parseClassMember_def Let_def intro!: refuses_bindE refuses_next_unit refuses_escaped
      split: option.splits)

lemma at_dash_less: "at_dash P s \<Longrightarrow> pos s < length (src P)"
  by (auto simp: at_dash_def peek_Some)

lemma refuses_class_loop: "refuses (parseClass_loop P rs s)"
proof (induction "length (src P) - pos s" arbitrary: rs s rule: less_induct)
  case less
  show ?case
    by (subst parseClass_loop.simps)
       (auto intro!: refuses_bindE refuses_member less.hyps split: class_member.splits
         dest!: parseClassMember_moves at_dash_less simp: moves_def eof_def, linarith+)
qed

lemma refuses_brace: "refuses (tryParseBraceQuantifier P s)"
  by (auto simp: tryParseBraceQuantifier_def split: prod.splits)

lemma refuses_modifier_side: "refuses (modifier_side w other acc)"
  by (induction w other acc rule: modifier_side.induct) (auto split: option.splits)

lemma refuses_modifiers: "refuses (parseModifiers P s)"
  by (auto simp: parseModifiers_def intro!: refuses_bindE refuses_modifier_side split: prod.splits)

lemma refuses_q_spans: "refuses (q_spans s i depth spans)"
proof (induction "length s - i" arbitrary: i depth spans rule: less_induct)
  case less
  show ?case
    by (subst q_spans.simps)
       (auto intro!: refuses_bindE refuses_findClosingBrace less.hyps dest: findClosingBrace_bounds)
qed

lemma refuses_residual: "refuses (residual_arms P i residual)"
  by (auto simp: residual_arms_def intro!: refuses_bindE refuses_enumerate)

lemma refuses_span_arms: "refuses (span_arms P i s sp)"
  by (auto simp: span_arms_def operand_arm_def intro!: refuses_bindE refuses_mapE refuses_disjunction uChar_facts)

lemma refuses_with_strings: "refuses (uEnumClassWithStrings P i source)"
  by (auto simp: uEnumClassWithStrings_def Let_def
      intro!: refuses_bindE refuses_mapE refuses_q_spans refuses_span_arms refuses_residual uEnum_facts)

section \<open>Values of the lexical parsers\<close>

lemma unit_bound: "parser_ok P \<Longrightarrow> peek P s = Some c \<Longrightarrow> c < 0x10000"
  by (auto simp: parser_ok_def valid_units_def list_all_length peek_Some)

lemma octal_bound: "v \<le> 0xff \<Longrightarrow> octal_digits n v r = (w, k) \<Longrightarrow> w \<le> 0xff"
  by (induction n v r arbitrary: w k rule: octal_digits.induct) (auto split: if_splits prod.splits)

lemma escaped_bound:
  assumes P: "parser_ok P" and r: "parseEscapedCodeUnit P inClass s = Inr (c, s')"
  shows "c < 0x10000"
proof -
  from r obtain e where e: "peek P s = Some e" by (auto simp: parseEscapedCodeUnit_def bindE_eq_Inr next_unit_Inr)
  have "fst (parseLegacyOctal P s) < 0x10000"
    using octal_bound [of 0 3 "rest_of P s"] by (auto simp: parseLegacyOctal_def split: prod.splits)
  moreover have "c < 0x10000" if "hex_escape P n l s1 = Inr (c, s')" "n \<le> 4" "l < 0x10000" for n l s1
  proof -
    have "parse_radix 16 (take n (rest_of P s1)) < 0x10000" if "all_hex n (take n (rest_of P s1))"
    proof -
      have "parse_radix 16 (take n (rest_of P s1)) < 16 ^ n" using parse_radix_bound that by (fastforce simp: all_hex_def)
      also have "(16 :: nat) ^ n \<le> 16 ^ 4" using \<open>n \<le> 4\<close> by (rule power_increasing) simp
      finally show ?thesis by simp
    qed
    then show ?thesis using that by (auto simp: hex_escape_def Let_def split: if_splits)
  qed
  moreover have "c < 0x10000" if "control_escape P inClass s1 = Inr (c, s')" for s1
  proof -
    have "l mod 32 < 0x10000" for l :: nat
    proof -
      have "l mod 32 < 32" by simp
      then show ?thesis by linarith
    qed
    then show ?thesis using that by (auto simp: control_escape_def split: option.splits if_splits)
  qed
  ultimately show ?thesis using r e unit_bound [OF P e]
    by (auto simp: parseEscapedCodeUnit_def bindE_eq_Inr next_unit_Inr split: if_splits)
qed

lemma complement_ordered: "ordered (complement_sweep n rs)"
  by (induction n rs rule: complement_sweep.induct) (auto simp: ordered_def)

lemma shorthand_ordered: "class_shorthand e = Some rs \<Longrightarrow> ordered rs"
proof -
  have "ordered DIGIT" "ordered WORD" "ordered SPACE"
    by (simp_all add: ordered_def DIGIT_def WORD_def SPACE_def)
  then show "class_shorthand e = Some rs \<Longrightarrow> ordered rs"
    by (auto simp: class_shorthand_def NOT_DIGIT_def NOT_WORD_def NOT_SPACE_def complementRanges_def
        complement_ordered split: if_splits)
qed

lemma member_ordered: "parseClassMember P s = Inr (MShorthand rs, s') \<Longrightarrow> ordered rs"
  by (auto simp: parseClassMember_def Let_def bindE_eq_Inr shorthand_ordered split: if_splits option.splits
      Option.bind_splits)

lemma parseClassMember_ok:
  "parseClassMember P s = Inr (m, s') \<Longrightarrow> moves P 1 s s' \<and> (\<forall>rs. m = MShorthand rs \<longrightarrow> ordered rs)"
  using parseClassMember_moves member_ordered by blast

text \<open>One round of the class loop adds ordered ranges and moves on.\<close>

lemma class_loop_round:
  assumes "parseClass_loop P rs s = Inr r"
  obtains (stop) "r = (rs, s)"
    | (round) more u where "ordered more" "moves P 1 s u" "\<not> eof P s" "parseClass_loop P (rs @ more) u = Inr r"
proof (cases "eof P s \<or> peek P s = Some (cu CHR '']'')")
  case True
  then show thesis using assms stop by (subst (asm) parseClass_loop.simps) auto
next
  case False
  then obtain m t where m: "parseClassMember P s = Inr (m, t)"
    using assms by (subst (asm) parseClass_loop.simps) (auto simp: bindE_eq_Inr)
  note mok = parseClassMember_ok [OF m] and run = assms [unfolded parseClass_loop.simps [of P rs s], simplified False m]
  have dash: "moves P 1 s (advance 1 t)" if "at_dash P t"
    using mok at_dash_less [OF that] by (auto simp: moves_def)
  show thesis
  proof (cases m)
    case (MShorthand ss)
    then show thesis using run mok dash False
      round [of "ss @ [(0x2d, 0x2d)]" "advance 1 t"] round [of ss t]
      by (auto simp: ordered_def split: if_splits)
  next
    case (MChar lo)
    show thesis
    proof (cases "at_dash P t")
      case True
      then obtain m2 u where m2: "parseClassMember P (advance 1 t) = Inr (m2, u)"
        using run MChar by (auto simp: bindE_eq_Inr)
      have "moves P 1 s u" using parseClassMember_ok [OF m2] dash [OF True] by (auto simp: moves_def)
      then show thesis using run MChar True m2 parseClassMember_ok [OF m2] False
        round [of "[(lo, hi)]" u for hi] round [of "[(lo, lo), (0x2d, 0x2d)] @ ss" u for ss]
        by (cases m2) (auto simp: ordered_def not_less split: if_splits)
    next
      case no: False
      then show thesis using run MChar mok False round [of "[(lo, lo)]" t] by (auto simp: ordered_def)
    qed
  qed
qed

lemma class_loop_ok:
  "\<lbrakk> parseClass_loop P rs s = Inr (rs', s'); ordered rs; pos s \<le> length (src P) \<rbrakk> \<Longrightarrow> ordered rs' \<and> moves P 0 s s'"
proof (induction "length (src P) - pos s" arbitrary: rs s rule: less_induct)
  case less
  from less.prems(1) show ?case
  proof (cases rule: class_loop_round)
    case stop
    then show ?thesis using less.prems by (auto simp: moves_def)
  next
    case (round more u)
    have "ordered rs' \<and> moves P 0 u s'"
      by (rule less.hyps [OF _ round(4)]) (use round less.prems in \<open>auto simp: moves_def eof_def\<close>)
    then show ?thesis using round(2) by (auto simp: moves_def)
  qed
qed

section \<open>Parsing a node\<close>

text \<open>
  \<open>parses_at P d k s r\<close>: from \<open>s\<close>, the result \<open>r\<close> is a refusal (if \<open>d\<close> exceeds the units left), or a node
  at least \<open>k\<close> units further on, whose groups are numbered between the two counters.
\<close>

definition parses_at :: "parser \<Rightarrow> nat \<Rightarrow> nat \<Rightarrow> pstate \<Rightarrow> regex_error + re_node \<times> pstate \<Rightarrow> bool" where
  "parses_at P d k s r \<longleftrightarrow>
     (case r of
        Inl e \<Rightarrow> length (src P) - pos s < d \<longrightarrow> (\<exists>m. e = Unsupported m)
      | Inr (n, s') \<Rightarrow> pos s + k \<le> pos s' \<and> pos s' \<le> length (src P) \<and> captures s \<le> captures s' \<and>
          node_ok P (captures s) (captures s') n)"

definition parses :: "parser \<Rightarrow> nat \<Rightarrow> nat \<Rightarrow> re_node parse \<Rightarrow> bool" where
  "parses P d k p \<longleftrightarrow> (\<forall>s. pos s \<le> length (src P) \<longrightarrow> parses_at P d k s (p s))"

lemma parsesD: "parses P d k p \<Longrightarrow> pos s \<le> length (src P) \<Longrightarrow> parses_at P d k s (p s)"
  by (simp add: parses_def)

lemma parses_refuse [simp]: "parses_at P d k s (Inl (Unsupported m))"
  by (simp add: parses_at_def)

lemma node_ok_leaf: "leaf n \<Longrightarrow> node_ok P lo hi n"
  by (simp add: node_ok_def leaf_def)

lemma parses_leaf: "leaf n \<Longrightarrow> moves P k s s' \<Longrightarrow> parses_at P d k s (Inr (n, s'))"
  by (simp add: parses_at_def moves_def node_ok_leaf)

lemma parses_cursor:
  "leafy (length (src P) - pos s < d) r \<Longrightarrow> moves P k s s' \<Longrightarrow> parses_at P d k s (at_cursor s' r)"
  by (cases r) (auto simp: at_cursor_def leafy_def parses_at_def moves_def node_ok_leaf)

lemma parses_bind:
  "refuses q \<Longrightarrow> (\<And>x. q = Inr x \<Longrightarrow> parses_at P d k s (f x)) \<Longrightarrow> parses_at P d k s (bindE q f)"
  by (cases q) (auto simp: parses_at_def)

lemma parses_if:
  "(b \<Longrightarrow> parses_at P d k s x) \<Longrightarrow> (\<not> b \<Longrightarrow> parses_at P d k s y) \<Longrightarrow> parses_at P d k s (if b then x else y)"
  by simp

lemma leafy_uEnum: "leafy e (uEnum P i source)"
  by (rule leafyI) (simp_all add: uEnum_facts)

lemma leafy_uChar: "cp \<le> 0x10ffff \<Longrightarrow> leafy e (uChar P i cp)"
  by (rule leafyI) (simp_all add: uChar_facts)

lemma leafy_uStringSet: "us_scalar A \<Longrightarrow> leafy e (uStringSet P i A)"
  by (rule leafyI) (simp_all add: uStringSet_facts)

lemma operand_arm_leaf: "operand_arm P i cps = Inr a \<Longrightarrow> \<forall>cp \<in> set cps. cp \<le> 0x10ffff \<Longrightarrow> leaf (snd a)"
proof -
  assume a: "operand_arm P i cps = Inr a" and cps: "\<forall>cp \<in> set cps. cp \<le> 0x10ffff"
  then obtain parts where parts: "mapE (uChar P i) cps = Inr parts"
    and a: "a = (length cps, if length parts = 1 then hd parts else RConcat parts)"
    by (auto simp: operand_arm_def bindE_eq_Inr)
  have "list_all leaf parts" by (rule mapE_all [OF parts]) (use cps uChar_facts(2) in blast)
  then show "leaf (snd a)" by (cases parts) (auto simp: a)
qed

lemma span_arms_leaf:
  assumes "span_arms P i s sp = Inr arms" "valid_units s"
  shows "list_all (\<lambda>a. leaf (snd a)) arms"
proof -
  obtain ws where ws: "parseStringDisjunction (js_slice s (fst sp + 3) (snd sp)) = Inr ws"
    and arms: "mapE (operand_arm P i) ws = Inr arms"
    using assms(1) by (auto simp: span_arms_def bindE_eq_Inr)
  show ?thesis
    by (rule mapE_all [OF arms])
       (use parseStringDisjunction_scalar [OF ws sublist_units [OF sublist_slice(1) assms(2)]] operand_arm_leaf in blast)
qed

lemma with_strings_leaf:
  assumes "uEnumClassWithStrings P i source = Inr n" "valid_units source"
  shows "leaf n"
proof -
  let ?body = "butlast (tl source)"
  from assms(1) obtain spans where spans: "q_spans ?body 0 0 [] = Inr spans"
    by (auto simp: uEnumClassWithStrings_def Let_def bindE_eq_Inr split: if_splits)
  show ?thesis
  proof (cases "spans = []")
    case True
    then show ?thesis using assms(1) spans uEnum_facts(2)
      by (auto simp: uEnumClassWithStrings_def Let_def split: if_splits)
  next
    case False
    then obtain arms more where arms: "mapE (span_arms P i ?body) spans = Inr arms"
      and more: "residual_arms P i (residual_of ?body 0 spans) = Inr more"
      and n: "n = alt_of (map snd (sort_key (\<lambda>a. - int (fst a)) (concat arms @ more)))"
      using assms(1) spans by (auto simp: uEnumClassWithStrings_def Let_def bindE_eq_Inr split: if_splits)
    have "list_all (list_all (\<lambda>a. leaf (snd a))) arms"
      by (rule mapE_all [OF arms]) (use span_arms_leaf sublist_units [OF sublist_slice(3) assms(2)] in blast)
    moreover have "list_all (\<lambda>a. leaf (snd a)) more"
      using more enumerateClassRanges_ordered
      by (auto simp: residual_arms_def bindE_eq_Inr split: if_splits)
    ultimately show ?thesis unfolding n by (intro leaf_alt_of) (auto simp: list_all_iff)
  qed
qed

lemma leafy_class_node:
  assumes "parser_ok P" "valid_units source"
  shows "leafy (length source < d) (class_node P d i source)"
proof -
  have "leafy (length source < d) (uEnumClassWithStrings P i source)"
    by (rule leafyI [OF refuses_with_strings]) (rule with_strings_leaf [OF _ assms(2)])
  moreover have "leafy (length source < d)
      (bindE (evaluateUnicodeStringClass d (ps_host P) (enumFlags P i) source) (uStringSet P i))"
  proof (cases "evaluateUnicodeStringClass d (ps_host P) (enumFlags P i) source")
    case (Inl e)
    then show ?thesis using evaluate_enough_depth [of source d "ps_host P" "enumFlags P i"] by (auto simp: leafy_def)
  next
    case (Inr A)
    then have "us_scalar A" using evaluate_us_scalar assms by (auto simp: parser_ok_def)
    then show ?thesis using Inr leafy_uStringSet by simp
  qed
  ultimately show ?thesis by (simp add: class_node_def leafy_uEnum)
qed

section \<open>Atoms\<close>

lemma class_end_bounds: "class_end s v i depth = Some e \<Longrightarrow> i < e \<and> e \<le> length s"
proof (induction "length s - i" arbitrary: i depth v rule: less_induct)
  case less
  note ih = less.hyps [rotated]
  from less.prems show ?case
    by (subst (asm) class_end.simps) (auto split: if_splits dest!: ih)
qed

lemma take_units_moves:
  assumes "take_units P p s = (taken, s')" "pos s \<le> length (src P)"
  shows "moves P 0 s s'"
proof -
  have "length (takeWhile p (rest_of P s)) \<le> length (rest_of P s)" by (rule length_takeWhile_le)
  then show ?thesis using assms by (auto simp: take_units_def Let_def moves_def length_rest_of)
qed

lemma moves_advance: "peek P s = Some c \<Longrightarrow> moves P 1 s (advance 1 s)"
  by (auto simp: moves_def peek_Some)

lemma moves_trans: "moves P k s t \<Longrightarrow> moves P j t u \<Longrightarrow> moves P (k + j) s u"
  by (auto simp: moves_def)

lemma moves_weaken: "moves P k s t \<Longrightarrow> j \<le> k \<Longrightarrow> moves P j s t"
  by (auto simp: moves_def)

lemma parses_weaken: "parses_at P d k t r \<Longrightarrow> moves P j s t \<Longrightarrow> m \<le> j + k \<Longrightarrow> parses_at P d m s r"
  by (auto simp: parses_at_def moves_def split: sum.splits)

lemma parses_class:
  assumes c: "peek P s = Some (cu CHR ''['')"
  shows "parses_at P d 1 s (parseClass P s)"
proof -
  define s1 where "s1 = advance 1 s"
  define s2 where "s2 = (if peek P s1 = Some (cu CHR ''^'') then advance 1 s1 else s1)"
  have m1: "moves P 1 s s2"
    using c by (auto simp: s1_def s2_def moves_def peek_Some)
  show ?thesis
    unfolding parseClass_def Let_def s1_def [symmetric] s2_def [symmetric]
  proof (rule parses_bind [OF refuses_class_loop])
    fix x assume x: "parseClass_loop P [] s2 = Inr x"
    obtain rs s3 where x': "x = (rs, s3)" by (cases x)
    have ok: "ordered rs" "moves P 0 s2 s3" using class_loop_ok [of P "[]" s2 rs s3] x x' m1 by (auto simp: moves_def)
    then have "moves P 1 s (advance 1 s3)" if "peek P s3 = Some (cu CHR '']'')"
      using m1 that by (auto simp: moves_def peek_Some)
    then show "parses_at P d 1 s (case x of (rs, s3) \<Rightarrow>
        if peek P s3 \<noteq> Some (cu CHR '']'') then Inl (Unsupported ''unterminated character class'')
        else Inr (RClass rs (peek P s1 = Some (cu CHR ''^'')), advance 1 s3))"
      using ok(1) by (auto simp: x' intro!: parses_leaf)
  qed
qed

lemma parses_u_class:
  assumes P: "parser_ok P" and c: "peek P s = Some (cu CHR ''['')"
  shows "parses_at P d 1 s
    (bindE (extractClassSource P s) (\<lambda>(source, s1). at_cursor s1 (class_node P d i source)))"
proof (rule parses_bind)
  show "refuses (extractClassSource P s)" by (simp add: extractClassSource_def split: option.splits)
  fix x assume "extractClassSource P s = Inr x"
  then obtain e where e: "class_end (src P) (ps_vMode P) (pos s + 1) 1 = Some e"
    and x: "x = (js_slice (src P) (pos s) e, s\<lparr>pos := e\<rparr>)"
    by (auto simp: extractClassSource_def split: option.splits)
  have bounds: "pos s + 1 < e" "e \<le> length (src P)" using class_end_bounds [OF e] by simp_all
  then have "length (js_slice (src P) (pos s) e) \<le> length (src P) - pos s" by (simp add: js_slice_def)
  moreover have "valid_units (js_slice (src P) (pos s) e)"
    using P sublist_units [OF sublist_slice(1)] by (simp add: parser_ok_def)
  note leafy_class_node [OF P this, of d i]
  ultimately have "leafy (length (src P) - pos s < d) (class_node P d i (js_slice (src P) (pos s) e))"
    by (auto simp: leafy_def split: sum.splits)
  then show "parses_at P d 1 s (case x of (source, s1) \<Rightarrow> at_cursor s1 (class_node P d i source))"
    unfolding x prod.case by (rule parses_cursor) (use bounds in \<open>simp add: moves_def\<close>)
qed

lemma readHex4_facts:
  "refuses (readHex4 P s)"
  "readHex4 P s = Inr (c, s') \<Longrightarrow> c < 0x10000 \<and> moves P 4 s s'"
proof -
  show "refuses (readHex4 P s)" by (simp add: readHex4_def Let_def)
  assume r: "readHex4 P s = Inr (c, s')"
  define hex where "hex = take 4 (rest_of P s)"
  from r have hex: "length hex = 4" "list_all is_hex hex" and c: "c = parse_radix 16 hex" "s' = advance 4 s"
    unfolding readHex4_def hex_def [symmetric] Let_def by (auto simp: hex_def split: if_splits)
  have "4 \<le> length (src P) - pos s" using hex(1) by (simp add: hex_def length_rest_of)
  then show "c < 0x10000 \<and> moves P 4 s s'"
    using hex hex4_bound [of hex] by (auto simp: c moves_def all_hex_def)
qed

lemma parses_unicode_tail:
  assumes P: "parser_ok P" and e: "peek P s = Some e"
  shows "parses_at P d 0 s (parseUnicodeEscapeTail P i s)"
proof (cases "e = cu CHR ''u''")
  case False
  have "parses_at P d 0 s (bindE (parseEscapedCodeUnit P False s) (\<lambda>(cp, s1). at_cursor s1 (uChar P i cp)))"
    by (rule parses_bind [OF refuses_escaped])
       (auto intro!: parses_cursor leafy_uChar dest: escaped_bound [OF P] parseEscapedCodeUnit_moves)
  then show ?thesis using False e by (simp add: parseUnicodeEscapeTail_def)
next
  case u: True
  define s1 where "s1 = advance 1 s"
  have m1: "moves P 1 s s1" using moves_advance [OF e] by (simp add: s1_def)
  show ?thesis
  proof (cases "peek P s1 = Some (cu CHR ''{'')")
    case True
    obtain hex s2 where t: "take_units P (\<lambda>c. c \<noteq> cu CHR ''}'') (advance 1 s1) = (hex, s2)" by fastforce
    have "moves P 0 (advance 1 s1) s2" by (rule take_units_moves [OF t]) (use True in \<open>auto simp: peek_Some\<close>)
    then have "moves P 0 s (advance 1 s2)" if "peek P s2 = Some (cu CHR ''}'')"
      using m1 that by (auto simp: moves_def peek_Some)
    then show ?thesis using e u True t unfolding s1_def
      by (auto simp: parseUnicodeEscapeTail_def Let_def intro!: parses_cursor leafy_uChar)
  next
    case False
    have "parses_at P d 0 s (bindE (readHex4 P s1) (\<lambda>(lead, s2).
           case (if is_lead lead \<and> startsWith_at (src P) [backslash, cu CHR ''u''] (pos s2)
                 then readHex4 P (advance 2 s2) else Inl Diverges) of
             Inr (trail, s3) \<Rightarrow>
               if is_trail trail then
                 (case at_cursor s3 (uChar P i (pair_code_point lead trail)) of
                    Inl _ \<Rightarrow> at_cursor s2 (uChar P i lead)
                  | Inr r \<Rightarrow> Inr r)
               else at_cursor s2 (uChar P i lead)
           | Inl _ \<Rightarrow> at_cursor s2 (uChar P i lead)))"
    proof (rule parses_bind [OF readHex4_facts(1)])
      fix x assume x: "readHex4 P s1 = Inr x"
      obtain lead s2 where x': "x = (lead, s2)" by (cases x)
      then have lead: "lead < 0x10000" "moves P 4 s1 s2" using readHex4_facts(2) x by auto
      have lone: "parses_at P d 0 s (at_cursor s2 (uChar P i lead))"
        by (rule parses_cursor [OF leafy_uChar]) (use lead m1 in \<open>auto simp: moves_def\<close>)
      have pair: "parses_at P d 0 s (at_cursor s3 (uChar P i (pair_code_point lead trail)))"
        if "readHex4 P (advance 2 s2) = Inr (trail, s3)" "is_lead lead" "is_trail trail" for trail s3
        by (rule parses_cursor [OF leafy_uChar])
           (use pair_code_point_le [OF that(2,3)] readHex4_facts(2) [OF that(1)] lead m1 in \<open>auto simp: moves_def\<close>)
      show "parses_at P d 0 s (case x of (lead, s2) \<Rightarrow>
           case (if is_lead lead \<and> startsWith_at (src P) [backslash, cu CHR ''u''] (pos s2)
                 then readHex4 P (advance 2 s2) else Inl Diverges) of
             Inr (trail, s3) \<Rightarrow>
               if is_trail trail then
                 (case at_cursor s3 (uChar P i (pair_code_point lead trail)) of
                    Inl _ \<Rightarrow> at_cursor s2 (uChar P i lead)
                  | Inr r \<Rightarrow> Inr r)
               else at_cursor s2 (uChar P i lead)
           | Inl _ \<Rightarrow> at_cursor s2 (uChar P i lead))"
        unfolding x' prod.case using lone pair by (auto split: sum.splits)
    qed
    then show ?thesis using e u False
      by (simp add: parseUnicodeEscapeTail_def s1_def Let_def)
  qed
qed

lemma node_ok_backref: "1 \<le> k \<Longrightarrow> k \<le> totalCaptures P \<Longrightarrow> node_ok P lo hi (RBackref k)"
  by (simp add: node_ok_def)

lemma parses_backref:
  "\<lbrakk> 1 \<le> k; k \<le> totalCaptures P; moves P j s s' \<rbrakk> \<Longrightarrow> parses_at P d j s (at_cursor s' (backrefNode P i k))"
  by (auto simp: backrefNode_def at_cursor_def parses_at_def moves_def node_ok_backref)

lemma octal_moves:
  assumes "peek P s = Some e" "parseLegacyOctal P s = (code, s')"
  shows "moves P 0 s s'" "code < 0x10000"
  using assms octal_digits_count [of 3 0 "rest_of P s"] octal_bound [of 0 3 "rest_of P s"]
  by (fastforce simp: parseLegacyOctal_def moves_def peek_Some length_rest_of split: prod.splits)+

lemma parses_decimal:
  assumes P: "parser_ok P" and e: "peek P s = Some e"
  shows "parses_at P d 0 s (decimal_escape P i e s)"
proof -
  obtain digits s1 where t: "take_units P is_decimal s = (digits, s1)" by fastforce
  have m: "moves P 0 s s1" by (rule take_units_moves [OF t]) (use e in \<open>auto simp: peek_Some\<close>)
  have "moves P 0 s (advance 1 s)" using moves_weaken [OF moves_advance [OF e]] by simp
  then show ?thesis using t m unit_bound [OF P e] octal_moves [OF e]
    by (auto simp: decimal_escape_def Let_def intro!: parses_backref parses_leaf split: prod.splits)
qed

lemma parses_named_backref:
  assumes P: "parser_ok P" and e: "peek P s = Some e"
  shows "parses_at P d 0 s (named_backref P i s)"
proof (cases "ps_groupNames P = []")
  case True
  then show ?thesis using moves_weaken [OF moves_advance [OF e]]
    by (auto simp: named_backref_def intro!: parses_leaf)
next
  case False
  define s1 where "s1 = advance 1 s"
  obtain rawName s2 where t: "take_units P (\<lambda>c. c \<noteq> cu CHR ''>'') (advance 1 s1) = (rawName, s2)" by fastforce
  show ?thesis
  proof (cases "peek P s1 = Some (cu CHR ''<'') \<and> peek P s2 = Some (cu CHR ''>'')")
    case False
    then show ?thesis using \<open>ps_groupNames P \<noteq> []\<close> t by (auto simp: named_backref_def Let_def s1_def)
  next
    case True
    have "moves P 0 (advance 1 s1) s2" by (rule take_units_moves [OF t]) (use True in \<open>auto simp: peek_Some\<close>)
    then have mv: "moves P 0 s (advance 1 s2)" using True by (auto simp: moves_def peek_Some s1_def)
    have idx: "1 \<le> k \<and> k \<le> totalCaptures P" if "map_of (ps_groupNames P) name = Some k" for name k
      using P map_of_SomeD [OF that] by (auto simp: parser_ok_def)
    have "parses_at P d 0 s (bindE (decodeGroupName rawName) (\<lambda>name.
        case map_of (ps_groupNames P) name of
          None \<Rightarrow> Inl (Unsupported ''reference to an undeclared group'')
        | Some idx \<Rightarrow> at_cursor (advance 1 s2) (backrefNode P i idx)))"
      by (rule parses_bind [OF refuses_decodeGroupName])
         (use mv in \<open>auto split: option.splits dest!: idx intro!: parses_backref\<close>)
    then show ?thesis using True False t \<open>ps_groupNames P \<noteq> []\<close>
      by (simp add: named_backref_def Let_def s1_def)
  qed
qed

lemma parses_property:
  assumes P: "parser_ok P" and e: "peek P s = Some e"
  shows "parses_at P d 0 s (bindE (extractPropertyEscapeSource P s) (\<lambda>(source, s1).
    at_cursor s1 (case (if ps_vMode P then unicodeStringPropertyEscape (ps_host P) source else None) of
        None \<Rightarrow> uEnum P i source
      | Some A \<Rightarrow> uStringSet P i A)))"
proof (rule parses_bind)
  show "refuses (extractPropertyEscapeSource P s)"
    by (auto simp: extractPropertyEscapeSource_def intro!: refuses_bindE refuses_next_unit split: prod.splits)
  fix x assume x: "extractPropertyEscapeSource P s = Inr x"
  have mv: "moves P 0 s (snd x)"
  proof -
    obtain body s2 where t: "take_units P (\<lambda>c. c \<noteq> cu CHR ''}'') (advance 1 (advance 1 s)) = (body, s2)" by fastforce
    have "peek P (advance 1 s) = Some (cu CHR ''{'')" "peek P s2 = Some (cu CHR ''}'')" "snd x = advance 1 s2"
      using x t e by (auto simp: extractPropertyEscapeSource_def bindE_eq_Inr next_unit_Inr split: if_splits)
    moreover from this(1) have "moves P 0 (advance 1 (advance 1 s)) s2"
      by (intro take_units_moves [OF t]) (auto simp: peek_Some)
    ultimately show ?thesis by (auto simp: moves_def peek_Some)
  qed
  have "leafy z (case (if ps_vMode P then unicodeStringPropertyEscape (ps_host P) source else None) of
        None \<Rightarrow> uEnum P i source | Some A \<Rightarrow> uStringSet P i A)" for z source
  proof -
    have "us_scalar A" if "unicodeStringPropertyEscape (ps_host P) source = Some A" for A
      using unicodeStringPropertyEscape_scalar [OF that] unicodeStringPropertyEscape_ok [OF that] P
      by (intro scalarI) (auto simp: parser_ok_def scalar_strings_def)
    then show ?thesis by (auto split: option.splits intro: leafy_uEnum leafy_uStringSet)
  qed
  then show "parses_at P d 0 s (case x of (source, s1) \<Rightarrow>
    at_cursor s1 (case (if ps_vMode P then unicodeStringPropertyEscape (ps_host P) source else None) of
        None \<Rightarrow> uEnum P i source | Some A \<Rightarrow> uStringSet P i A))"
    using mv by (cases x) (auto intro!: parses_cursor simp del: if_split)
qed

lemma shorthand_leaf: "shorthand_node e = Some n \<Longrightarrow> leaf n"
  by (auto simp: shorthand_node_def DIGIT_def WORD_def SPACE_def ordered_def split: if_splits)

lemma parses_escape_atom:
  assumes P: "parser_ok P" and c: "peek P s0 = Some c"
  shows "parses_at P d 1 s0 (parseEscapeAtom P i s0)"
proof (cases "peek P (advance 1 s0)")
  case None
  then show ?thesis by (simp add: parseEscapeAtom_def Let_def)
next
  case (Some e)
  define s where "s = advance 1 s0"
  have e: "peek P s = Some e" using Some by (simp add: s_def)
  have m0: "moves P 1 s0 s" using moves_advance [OF c] by (simp add: s_def)
  have m1: "moves P 0 s (advance 1 s)" using moves_weaken [OF moves_advance [OF e]] by simp
  have plain: "parses_at P d 0 s (bindE (parseEscapedCodeUnit P False s) (\<lambda>(code, s1). Inr (RChar code, s1)))"
    by (rule parses_bind [OF refuses_escaped])
       (auto intro!: parses_leaf dest: escaped_bound [OF P] parseEscapedCodeUnit_moves)
  have word: "parses_at P d 0 s (Inr (RWordBoundary b, advance 1 s))" for b
    using m1 by (auto intro!: parses_leaf simp: leaf_def)
  have short: "parses_at P d 0 s (at_cursor (advance 1 s) (if ps_unicode P then uEnum P i [backslash, e] else Inr n))"
    if "shorthand_node e = Some n" for n
    using shorthand_leaf [OF that] m1 by (intro parses_cursor) (auto intro: leafy_uEnum)
  have "parses_at P d 0 s (parseEscapeAtom P i s0)"
  proof (cases "shorthand_node e")
    case None
    show ?thesis unfolding parseEscapeAtom_def Let_def s_def [symmetric] e option.case None
      by (intro parses_if parses_refuse plain word parses_decimal [OF P e] parses_named_backref [OF P e]
          parses_property [OF P e] parses_unicode_tail [OF P e])
  next
    case (Some n)
    show ?thesis unfolding parseEscapeAtom_def Let_def s_def [symmetric] e option.case Some by (rule short [OF Some])
  qed
  then show ?thesis by (rule parses_weaken [OF _ m0]) simp
qed

text \<open>A group parser is called on an opening parenthesis only.\<close>

definition parses_open :: "parser \<Rightarrow> nat \<Rightarrow> re_node parse \<Rightarrow> bool" where
  "parses_open P d p \<longleftrightarrow> (\<forall>s. peek P s = Some (cu CHR ''('') \<longrightarrow> parses_at P d 1 s (p s))"

lemma parses_atom:
  assumes P: "parser_ok P" and grp: "parses_open P d (grp i)"
  shows "parses P d 1 (parseAtom d grp P i)"
  unfolding parses_def
proof (intro allI impI)
  fix s :: pstate assume s: "pos s \<le> length (src P)"
  show "parses_at P d 1 s (parseAtom d grp P i s)"
  proof (cases "peek P s")
    case None
    then show ?thesis by (simp add: parseAtom_def)
  next
    case (Some c)
    have single: "parses_at P d 1 s (Inr (n, advance 1 s))" if "leaf n" for n
      using parses_leaf [OF that moves_advance [OF Some]] .
    have cp: "parses_at P d 1 s (let cp = the (codePointAt (src P) (pos s)) in at_cursor (advance (cp_width cp) s) (uChar P i cp))"
    proof -
      have "codePointAt (src P) (pos s) \<noteq> None"
        using Some by (simp add: codePointAt_def peek_def split: option.splits)
      then obtain cp where cp: "codePointAt (src P) (pos s) = Some cp" by blast
      have "valid_units (src P)" using P by (simp add: parser_ok_def)
      note codePointAt_bound [OF this cp]
      then show ?thesis unfolding cp option.sel Let_def
        by (intro parses_cursor leafy_uChar) (auto simp: moves_def cp_width_def)
    qed
    have leaves: "leaf (if ps_unicode P then RUdot else RAny)" "leaf RBol" "leaf REol" "leaf (RChar c)"
      using unit_bound [OF P Some] by (simp_all add: leaf_def)
    show ?thesis unfolding parseAtom_def Some option.case
      using leaves single cp Some parses_escape_atom [OF P Some] grp [unfolded parses_open_def] parses_class
        parses_u_class [OF P]
      by (intro parses_if parses_refuse) simp_all
  qed
qed

section \<open>Quantifiers, sequences, alternatives\<close>

lemma node_ok_quantified: "node_ok P lo hi n \<Longrightarrow> node_ok P lo hi (quantified c n g)"
  by (auto simp: node_ok_def quantified_def)

lemma node_ok_repeated: "node_ok P lo hi n \<Longrightarrow> bounds_in_order (fst b) (snd b) \<Longrightarrow> node_ok P lo hi (repeated b n g)"
  by (auto simp: node_ok_def repeated_def)

lemma brace_bounds: "tryParseBraceQuantifier P s = Inr (Some b, s') \<Longrightarrow> bounds_in_order (fst b) (snd b)"
  by (auto simp: tryParseBraceQuantifier_def bounds_in_order_def not_less split: if_splits option.splits prod.splits)

lemma lazy_moves: "consumeLazy P s = (g, s') \<Longrightarrow> pos s \<le> length (src P) \<Longrightarrow> moves P 0 s s'"
  by (auto simp: consumeLazy_def moves_def peek_Some split: if_splits)

lemma brace_moves:
  assumes "tryParseBraceQuantifier P s = Inr (Some b, s')"
  shows "moves P 0 s s'"
proof -
  obtain minStr s1 where t: "take_units P is_decimal (advance 1 s) = (minStr, s1)" by fastforce
  obtain maxStr s2 where t2: "take_units P is_decimal (advance 1 s1) = (maxStr, s2)" by fastforce
  have c: "peek P s = Some (cu CHR ''{'')"
    using assms by (auto simp: tryParseBraceQuantifier_def split: if_splits)
  then have m1: "moves P 0 (advance 1 s) s1" by (intro take_units_moves [OF t]) (auto simp: peek_Some)
  define s3 where "s3 = (if peek P s1 = Some (cu CHR '','') then s2 else s1)"
  have "peek P s3 = Some (cu CHR ''}'')" "s' = advance 1 s3"
    using assms t t2 c by (auto simp: tryParseBraceQuantifier_def s3_def split: if_splits option.splits)
  moreover have "moves P 0 (advance 1 s1) s2" if "peek P s1 = Some (cu CHR '','')"
    using that by (intro take_units_moves [OF t2]) (auto simp: peek_Some)
  ultimately show ?thesis using m1 by (auto simp: moves_def peek_Some s3_def split: if_splits)
qed

lemma parses_then:
  assumes "parses_at P d k s q" "\<And>n t. q = Inr (n, t) \<Longrightarrow> pos t \<le> length (src P) \<Longrightarrow> pos s + k \<le> pos t \<Longrightarrow>
      captures s \<le> captures t \<Longrightarrow> node_ok P (captures s) (captures t) n \<Longrightarrow> parses_at P d k s (f n t)"
  shows "parses_at P d k s (bindE q (\<lambda>(n, t). f n t))"
proof (cases q)
  case (Inr x)
  then show ?thesis using assms by (cases x) (auto simp: parses_at_def)
qed (use assms(1) in \<open>simp add: parses_at_def\<close>)

lemma parses_node:
  "\<lbrakk> node_ok P (captures s) (captures t) n; pos s + k \<le> pos t; captures s \<le> captures t; moves P 0 t t' \<rbrakk> \<Longrightarrow>
   parses_at P d k s (Inr (n, t'))"
  by (auto simp: parses_at_def moves_def)

lemma parses_quantified:
  assumes P: "parser_ok P" and grp: "parses_open P d (grp i)"
  shows "parses P d 1 (parseQuantified d grp P i)"
  unfolding parses_def parseQuantified_def
proof (intro allI impI parses_then [OF parsesD [OF parses_atom [where grp = grp and i = i, OF assms]]])
  fix s t :: pstate and n assume t: "pos t \<le> length (src P)" "pos s + 1 \<le> pos t" "captures s \<le> captures t"
    and n: "node_ok P (captures s) (captures t) n"
  note node = parses_node [OF _ t(2,3)]
  have stay: "parses_at P d 1 s (Inr (n, t))" by (rule node [OF n]) (use t in \<open>simp add: moves_def\<close>)
  show "parses_at P d 1 s (case peek P t of
         None \<Rightarrow> Inr (n, t)
       | Some c \<Rightarrow>
           if c = cu CHR ''*'' \<or> c = cu CHR ''+'' \<or> c = cu CHR ''?'' then
             (if is_assertion n then Inl (Unsupported ''nothing to repeat'')
              else case consumeLazy P (advance 1 t) of (greedy, s2) \<Rightarrow> Inr (quantified c n greedy, s2))
           else if c = cu CHR ''{'' then
             bindE (tryParseBraceQuantifier P t) (\<lambda>(bounds, s2).
               case bounds of
                 None \<Rightarrow> Inr (n, t)
               | Some b \<Rightarrow>
                   if is_assertion n then Inl (Unsupported ''nothing to repeat'')
                   else case consumeLazy P s2 of (greedy, s3) \<Rightarrow> Inr (repeated b n greedy, s3))
           else Inr (n, t))"
  proof (cases "peek P t")
    case None
    then show ?thesis using stay by simp
  next
    case (Some c)
    obtain g u where lazy: "consumeLazy P (advance 1 t) = (g, u)" by fastforce
    have "moves P 0 t u" using lazy_moves [OF lazy] moves_advance [OF Some] by (auto simp: moves_def)
    then have q: "parses_at P d 1 s (Inr (quantified c n g, u))"
      using node_ok_quantified [OF n] by (intro node) auto
    have b: "parses_at P d 1 s (bindE (tryParseBraceQuantifier P t) (\<lambda>(bounds, s2).
               case bounds of
                 None \<Rightarrow> Inr (n, t)
               | Some b \<Rightarrow>
                   if is_assertion n then Inl (Unsupported ''nothing to repeat'')
                   else case consumeLazy P s2 of (greedy, s3) \<Rightarrow> Inr (repeated b n greedy, s3)))"
    proof (rule parses_bind [OF refuses_brace])
      fix x assume x: "tryParseBraceQuantifier P t = Inr x"
      show "parses_at P d 1 s (case x of (bounds, s2) \<Rightarrow>
               case bounds of
                 None \<Rightarrow> Inr (n, t)
               | Some b \<Rightarrow>
                   if is_assertion n then Inl (Unsupported ''nothing to repeat'')
                   else case consumeLazy P s2 of (greedy, s3) \<Rightarrow> Inr (repeated b n greedy, s3))"
      proof (cases x)
        case (Pair bounds s2)
        show ?thesis
        proof (cases bounds)
          case None
          then show ?thesis using stay Pair by simp
        next
          case (Some b)
          obtain g3 s3 where lazy3: "consumeLazy P s2 = (g3, s3)" by fastforce
          have "moves P 0 t s2" using brace_moves x Pair Some by simp
          then have "moves P 0 t s3" using lazy_moves [OF lazy3] by (auto simp: moves_def)
          then have "parses_at P d 1 s (Inr (repeated b n g3, s3))"
            using node_ok_repeated [OF n brace_bounds] x Pair Some by (intro node) auto
          then show ?thesis using Pair Some lazy3 by simp
        qed
      qed
    qed
    show ?thesis unfolding Some option.case lazy prod.case by (intro parses_if parses_refuse q b stay)
  qed
qed simp_all

text \<open>
  The loops collect nodes: \<open>collects\<close> is \<open>parses_at\<close> for a list whose first \<open>lo\<close> groups were counted before.
\<close>

definition nodes_ok :: "parser \<Rightarrow> nat \<Rightarrow> nat \<Rightarrow> re_node list \<Rightarrow> bool" where
  "nodes_ok P lo hi ns \<longleftrightarrow> list_all (node_ok P lo hi) ns"

definition collects :: "parser \<Rightarrow> nat \<Rightarrow> nat \<Rightarrow> pstate \<Rightarrow> regex_error + re_node list \<times> pstate \<Rightarrow> bool" where
  "collects P d lo s r \<longleftrightarrow>
     (case r of
        Inl e \<Rightarrow> length (src P) - pos s < d \<longrightarrow> (\<exists>m. e = Unsupported m)
      | Inr (ns, s') \<Rightarrow> pos s \<le> pos s' \<and> pos s' \<le> length (src P) \<and> captures s \<le> captures s' \<and>
          nodes_ok P lo (captures s') ns)"

lemma node_ok_widen: "node_ok P lo hi n \<Longrightarrow> lo' \<le> lo \<Longrightarrow> hi \<le> hi' \<Longrightarrow> node_ok P lo' hi' n"
  unfolding node_ok_def by fastforce

lemma nodes_ok_snoc:
  "\<lbrakk> nodes_ok P lo hi ns; node_ok P hi' hi'' n; lo \<le> hi'; hi \<le> hi'' \<rbrakk> \<Longrightarrow> nodes_ok P lo hi'' (ns @ [n])"
  by (auto simp: nodes_ok_def list_all_iff elim!: node_ok_widen)

text \<open>One round of a loop: a node further on, then the rest.\<close>

lemma collects_step:
  assumes q: "parses_at P d k s q" and ns: "nodes_ok P lo (captures s) ns" "lo \<le> captures s"
    and rest: "\<And>n t. q = Inr (n, t) \<Longrightarrow> pos s + k \<le> pos t \<Longrightarrow> pos t \<le> length (src P) \<Longrightarrow> lo \<le> captures t \<Longrightarrow>
      nodes_ok P lo (captures t) (ns @ [n]) \<Longrightarrow> collects P d lo t (f n t)"
  shows "collects P d lo s (bindE q (\<lambda>(n, t). f n t))"
proof (cases q)
  case (Inl e)
  then show ?thesis using q by (simp add: parses_at_def collects_def)
next
  case (Inr x)
  obtain n t where x: "x = (n, t)" by (cases x)
  have t: "pos s + k \<le> pos t" "pos t \<le> length (src P)" "captures s \<le> captures t" "node_ok P (captures s) (captures t) n"
    using q Inr x by (simp_all add: parses_at_def)
  have "nodes_ok P lo (captures t) (ns @ [n])" using nodes_ok_snoc [OF ns(1) t(4)] ns(2) t(3) by simp
  then have "collects P d lo t (f n t)" using rest Inr x t ns(2) by simp
  then show ?thesis using Inr x t by (auto simp: collects_def split: sum.splits)
qed

lemma parses_concat_loop:
  assumes quant: "parses P d 1 (quant i)"
  shows "\<lbrakk> length (src P) - pos s < n; pos s \<le> length (src P); nodes_ok P lo (captures s) parts; lo \<le> captures s \<rbrakk> \<Longrightarrow>
    collects P d lo s (parseConcat_loop n quant P i parts s)"
proof (induction n arbitrary: parts s)
  case (Suc n)
  show ?case
  proof (cases "eof P s \<or> peek P s = Some (cu CHR ''|'') \<or> peek P s = Some (cu CHR '')'')")
    case True
    then show ?thesis using Suc.prems by (auto simp: collects_def)
  next
    case False
    have "collects P d lo s (bindE (quant i s) (\<lambda>(part, s1). parseConcat_loop n quant P i (parts @ [part]) s1))"
      by (rule collects_step [OF parsesD [OF quant Suc.prems(2)] Suc.prems(3,4)], rule Suc.IH)
         (use False Suc.prems in \<open>auto simp: eof_def\<close>)
    then show ?thesis using False by simp
  qed
qed simp

lemma collects_one:
  assumes "collects P d (captures s) s q" "\<And>ns t. q = Inr (ns, t) \<Longrightarrow> nodes_ok P (captures s) (captures t) ns \<Longrightarrow> node_ok P (captures s) (captures t) (f ns)"
  shows "parses_at P d 0 s (bindE q (\<lambda>(ns, t). Inr (f ns, t)))"
  using assms by (cases q) (auto simp: collects_def parses_at_def)

lemma nodes_ok_single:
  "nodes_ok P lo hi ns \<Longrightarrow> node_ok P lo hi (if length ns = 1 then hd ns else RConcat ns)"
  "nodes_ok P lo hi ns \<Longrightarrow> ns \<noteq> [] \<Longrightarrow> node_ok P lo hi (if length ns = 1 then hd ns else RAlt ns)"
  by (cases ns; auto simp: nodes_ok_def node_ok_def list_all_iff)+

lemma parses_concat:
  assumes "parses P d 1 (quant i)"
  shows "parses P d 0 (parseConcat quant P i)"
  unfolding parses_def parseConcat_def
proof (intro allI impI collects_one)
  fix s :: pstate assume s: "pos s \<le> length (src P)"
  show "collects P d (captures s) s (parseConcat_loop (length (src P) + 1) quant P i [] s)"
    by (rule parses_concat_loop [where quant = quant and i = i, OF assms]) (use s in \<open>auto simp: nodes_ok_def\<close>)
qed (rule nodes_ok_single)

lemma parses_alternation_loop:
  assumes quant: "parses P d 1 (quant i)"
  shows "\<lbrakk> length (src P) - pos s < n; pos s \<le> length (src P); nodes_ok P lo (captures s) options; lo \<le> captures s \<rbrakk> \<Longrightarrow>
    collects P d lo s (parseAlternation_loop n quant P i options s)"
proof (induction n arbitrary: options s)
  case (Suc n)
  show ?case
  proof (cases "peek P s = Some (cu CHR ''|'')")
    case False
    then show ?thesis using Suc.prems by (auto simp: collects_def)
  next
    case True
    then have lt: "pos s < length (src P)" by (simp add: peek_Some)
    then have "parses_at P d 0 (advance 1 s) (parseConcat quant P i (advance 1 s))"
      by (intro parsesD [OF parses_concat [where quant = quant and i = i, OF quant]]) simp
    then have "parses_at P d 1 s (parseConcat quant P i (advance 1 s))"
      by (rule parses_weaken [OF _ moves_advance [OF True]]) simp
    then have "collects P d lo s (bindE (parseConcat quant P i (advance 1 s)) (\<lambda>(opt, s1).
        parseAlternation_loop n quant P i (options @ [opt]) s1))"
      by (rule collects_step [OF _ Suc.prems(3,4)], intro Suc.IH) (use lt Suc.prems in auto)
    then show ?thesis using True by simp
  qed
qed simp

lemma alternation_loop_keeps:
  "parseAlternation_loop n quant P i options s = Inr (options', s') \<Longrightarrow> options \<noteq> [] \<Longrightarrow> options' \<noteq> []"
  by (induction n arbitrary: options s) (auto simp: bindE_eq_Inr split: if_splits)

lemma parses_alternation:
  assumes quant: "parses P d 1 (quant i)"
  shows "parses P d 0 (parseAlternation quant P i)"
  unfolding parses_def
proof (intro allI impI)
  fix s :: pstate assume s: "pos s \<le> length (src P)"
  let ?rest = "\<lambda>first s1. parseAlternation_loop (length (src P) + 1) quant P i [first] s1"
  define q where "q = bindE (parseConcat quant P i s) (\<lambda>(first, s1). ?rest first s1)"
  have col: "collects P d (captures s) s q" unfolding q_def
  proof (rule collects_step [where ns = "[]" and f = ?rest,
        OF parsesD [OF parses_concat [where quant = quant and i = i, OF quant] s]])
    fix n :: re_node and t :: pstate
    assume "pos t \<le> length (src P)" "captures s \<le> captures t" "nodes_ok P (captures s) (captures t) ([] @ [n])"
    then show "collects P d (captures s) t (?rest n t)"
      by (intro parses_alternation_loop [where quant = quant and i = i, OF quant]) simp_all
  qed (simp_all add: nodes_ok_def)
  have ne: "ns \<noteq> []" if "q = Inr (ns, t)" for ns t
  proof -
    from that [unfolded q_def] obtain x where "(case x of (first, s1) \<Rightarrow> ?rest first s1) = Inr (ns, t)"
      by (rule bindE_InrE)
    then obtain first s1 where "?rest first s1 = Inr (ns, t)" by (cases x) simp
    then show ?thesis by (rule alternation_loop_keeps) simp
  qed
  have "parses_at P d 0 s (bindE q (\<lambda>(ns, t). Inr (if length ns = 1 then hd ns else RAlt ns, t)))"
    by (rule collects_one [OF col]) (rule nodes_ok_single(2) [OF _ ne])
  then show "parses_at P d 0 s (parseAlternation quant P i s)"
    by (simp only: parseAlternation_def q_def bindE_assoc case_prod_unfold)
qed

section \<open>Groups and patterns\<close>

lemma modifiers_moves:
  assumes "parseModifiers P s = Inr (x, s')" "pos s \<le> length (src P)"
  shows "moves P 0 s s'"
proof -
  obtain addStr s1 where t: "take_units P (\<lambda>c. c \<noteq> cu CHR ''-'' \<and> c \<noteq> cu CHR '':'') s = (addStr, s1)" by fastforce
  obtain remStr s2 where t2: "take_units P (\<lambda>c. c \<noteq> cu CHR '':'') (advance 1 s1) = (remStr, s2)" by fastforce
  define s3 where "s3 = (if peek P s1 = Some (cu CHR ''-'') then s2 else s1)"
  have "peek P s3 = Some (cu CHR '':'')" "s' = advance 1 s3"
    using assms(1) t t2 by (auto simp: parseModifiers_def s3_def bindE_eq_Inr split: if_splits)
  moreover have "moves P 0 s s1" by (rule take_units_moves [OF t assms(2)])
  moreover have "moves P 0 (advance 1 s1) s2" if "peek P s1 = Some (cu CHR ''-'')"
    using that by (intro take_units_moves [OF t2]) (auto simp: peek_Some)
  ultimately show ?thesis by (auto simp: moves_def peek_Some s3_def split: if_splits)
qed

text \<open>What a group's opening does: it moves on, and counts the group exactly when it captures.\<close>

definition opens :: "parser \<Rightarrow> pstate \<Rightarrow> group_form \<Rightarrow> pstate \<Rightarrow> bool" where
  "opens P s form t \<longleftrightarrow> pos s + 1 \<le> pos t \<and> pos t \<le> length (src P) \<and>
     (case form of Capturing j _ \<Rightarrow> j = captures s + 1 \<and> captures t = j | _ \<Rightarrow> captures t = captures s)"

lemma named_group_facts:
  "refuses (named_group P s)"
  "named_group P s = Inr (form, t) \<Longrightarrow> pos s \<le> length (src P) \<Longrightarrow> opens P s form t"
proof -
  obtain rawName s1 where u: "take_units P (\<lambda>c. c \<noteq> cu CHR ''>'') s = (rawName, s1)" by fastforce
  show "refuses (named_group P s)"
    unfolding named_group_def u prod.case Let_def by (auto intro!: refuses_bindE refuses_decodeGroupName)
  assume "named_group P s = Inr (form, t)" "pos s \<le> length (src P)"
  then show "opens P s form t"
    using take_units_moves [OF u] unfolding named_group_def u prod.case Let_def
    by (auto simp: bindE_eq_Inr opens_def moves_def count_group_def peek_Some split: if_splits)
qed

lemma group_head_facts:
  assumes c: "peek P s = Some c"
  shows "refuses (group_head P s)" "group_head P s = Inr (form, t) \<Longrightarrow> opens P s form t"
proof -
  show "refuses (group_head P s)"
    by (auto simp: group_head_def Let_def named_group_facts intro!: refuses_bindE refuses_modifiers split: option.splits)
  assume head: "group_head P s = Inr (form, t)"
  define s1 where "s1 = advance 1 (advance 1 s)"
  have named: "opens P s form t" if "named_group P (advance 1 s1) = Inr (form, t)" "peek P s1 = Some x" for x
    using named_group_facts(2) [OF that(1)] that(2) by (auto simp: opens_def peek_Some s1_def split: group_form.splits)
  have mods: "opens P s (Modified add remove) t" if "parseModifiers P s1 = Inr ((add, remove), t)" "peek P s1 = Some x" for add remove x
    using modifiers_moves [OF that(1)] that(2) by (auto simp: opens_def moves_def peek_Some s1_def)
  show "opens P s form t"
    using head c named mods unfolding group_head_def Let_def s1_def [symmetric]
    by (auto simp: opens_def count_group_def peek_Some s1_def bindE_eq_Inr split: if_splits option.splits)
qed

lemma group_node_ok:
  assumes "opens P s form t" "node_ok P (captures t) hi n" "captures t \<le> hi"
  shows "node_ok P (captures s) hi (group_node form n)" "captures s \<le> hi"
  using assms by (cases form; force simp: opens_def node_ok_def)+

lemma parses_group: "parser_ok P \<Longrightarrow> parses_open P d (parseGroup d P i)"
proof (induction d arbitrary: i)
  case 0
  then show ?case by (simp add: parses_open_def parses_at_def)
next
  case (Suc d)
  have alt: "parses P d 0 (parseAlternation (parseQuantified d (parseGroup d P) P) P j)" for j
    by (rule parses_alternation [where i = j],
        rule parses_quantified [where grp = "parseGroup d P" and i = j, OF Suc.prems Suc.IH [OF Suc.prems]])
  show ?case unfolding parses_open_def parseGroup.simps
  proof (intro allI impI parses_bind)
    fix s x assume c: "peek P s = Some (cu CHR ''('')" and x: "group_head P s = Inr x"
    obtain form t where x': "x = (form, t)" by (cases x)
    have o: "opens P s form t" using group_head_facts(2) [OF c] x x' by simp
    let ?inner = "parseAlternation (parseQuantified d (parseGroup d P) P) P (scoped_i form i) t"
    have inner: "parses_at P d 0 t ?inner" by (rule parsesD [OF alt]) (use o in \<open>simp add: opens_def\<close>)
    show "parses_at P (Suc d) 1 s (case x of (form, s1) \<Rightarrow>
        bindE (parseAlternation (parseQuantified d (parseGroup d P) P) P (scoped_i form i) s1) (\<lambda>(inner, s2).
          if peek P s2 \<noteq> Some (cu CHR '')'') then Inl (Unsupported ''unterminated group'')
          else Inr (group_node form inner, advance 1 s2)))"
    proof (cases ?inner)
      case (Inl e)
      have "length (src P) - pos t < d" if "length (src P) - pos s < Suc d"
        using that o c by (auto simp: opens_def peek_Some)
      then show ?thesis using Inl inner by (simp add: x' parses_at_def)
    next
      case (Inr y)
      obtain n u where y: "y = (n, u)" by (cases y)
      have n: "pos t \<le> pos u" "captures t \<le> captures u" "node_ok P (captures t) (captures u) n"
        using inner Inr y by (auto simp: parses_at_def)
      show ?thesis using Inr y n o group_node_ok [OF o n(3,2)]
        by (auto simp: x' parses_at_def opens_def peek_Some)
    qed
  qed (rule group_head_facts(1))
qed

lemma parses_root:
  assumes P: "parser_ok P"
  shows "parses P d 0 (parse_root d P i)"
proof -
  have alt: "parses P d 0 (parseAlternation (parseQuantified d (parseGroup d P) P) P i)"
    by (rule parses_alternation [where i = i],
        rule parses_quantified [where grp = "parseGroup d P" and i = i, OF P parses_group [OF P]])
  show ?thesis unfolding parses_def parse_root_def
    by (intro allI impI parses_then [OF parsesD [OF alt]]) (auto simp: parses_at_def)
qed

lemma scanGroups_names:
  assumes "scanGroups_loop s inClass count nms = Inr (tot, nms')" "\<forall>(_, i) \<in> set nms. 1 \<le> i \<and> i \<le> count"
  shows "count \<le> tot \<and> (\<forall>(_, i) \<in> set nms'. 1 \<le> i \<and> i \<le> tot)"
  using assms
proof (induction s inClass count nms rule: scanGroups_loop.induct)
  case (2 c r inClass count nms)
  have more: "\<forall>(_, i) \<in> set nms. 1 \<le> i \<and> i \<le> count + 1" using "2.prems"(2) by fastforce
  then have more': "\<forall>(_, i) \<in> set (if map_of nms name = None then nms @ [(name, count + 1)] else nms). 1 \<le> i \<and> i \<le> count + 1"
    for name by auto
  note ih = "2.IH" and run = "2.prems"(1)
  show ?case
  proof (cases "c = cu CHR ''('' \<and> c \<noteq> backslash \<and> \<not> inClass")
    case False
    then show ?thesis using ih(1-3,7) "2.prems" by (auto split: if_splits)
  next
    case True
    let ?named = "nth_opt r 1 = Some (cu CHR ''<'') \<and> nth_opt r 2 \<noteq> Some (cu CHR ''='') \<and> nth_opt r 2 \<noteq> Some (cu CHR ''!'')"
    consider "take 1 r \<noteq> str ''?''" | "take 1 r = str ''?''" "\<not> ?named" | "take 1 r = str ''?''" ?named by blast
    then show ?thesis
    proof cases
      case 1
      then show ?thesis using ih(6) True run more by auto
    next
      case 2
      then show ?thesis using ih(5) True run "2.prems"(2) by auto
    next
      case 3
      then obtain name where name: "decodeGroupName (takeWhile (\<lambda>u. u \<noteq> cu CHR ''>'') (drop 2 r)) = Inr name"
        and rest: "scanGroups_loop r False (count + 1)
          (if map_of nms name = None then nms @ [(name, count + 1)] else nms) = Inr (tot, nms')"
        using True run by (auto simp: bindE_eq_Inr simp del: map_of_eq_None_iff)
      have "count + 1 \<le> tot \<and> (\<forall>(_, i) \<in> set nms'. 1 \<le> i \<and> i \<le> tot)"
        by (rule ih(4) [OF _ _ _ _ _ _ name rest more']) (use True 3 in auto)
      then show ?thesis by simp
    qed
  qed
qed simp

lemma new_parser_ok:
  assumes "new_parser h pattern flags = Inr P" "valid_units pattern" "tables_ok h"
  shows "parser_ok P" "src P = pattern"
  using assms scanGroups_names [of pattern False 0 "[]"]
  by (auto simp: new_parser_def scanGroups_def bindE_eq_Inr parser_ok_def)

lemma parsePattern_refuses:
  assumes "valid_units pattern" "tables_ok h" "length pattern < depth"
  shows "refuses (parsePattern depth h pattern flags)"
  unfolding parsePattern_def
proof (intro refuses_bindE)
  show "refuses (new_parser h pattern flags)"
    by (auto simp: new_parser_def intro!: refuses_bindE refuses_scanGroups)
  fix P assume "new_parser h pattern flags = Inr P"
  note P = new_parser_ok [OF this assms(1,2)]
  show "refuses (parse_root depth P (has_flag flags RE_FLAG_I) \<lparr>pos = 0, captures = 0\<rparr>)"
    using parsesD [OF parses_root [OF P(1)], of "\<lparr>pos = 0, captures = 0\<rparr>" depth "has_flag flags RE_FLAG_I"] assms(3)
    by (auto simp: parses_at_def P(2) refuses_def split: sum.splits)
qed auto

lemma parsePattern_shape:
  assumes run: "parsePattern depth h pattern flags = Inr p" and val: "valid_units pattern" "tables_ok h"
  obtains total where "fst (projr (scanGroups pattern)) = total" "shape (root p)"
    "all_caps (root p) \<subseteq> {1..numCaptures p}" "backrefs (root p) \<subseteq> {1..total}"
proof -
  from run obtain P s where P: "new_parser h pattern flags = Inr P"
    and s: "parse_root depth P (has_flag flags RE_FLAG_I) \<lparr>pos = 0, captures = 0\<rparr> = Inr (root p, s)"
    and n: "numCaptures p = captures s"
    by (auto simp: parsePattern_def bindE_eq_Inr)
  have "node_ok P 0 (captures s) (root p)"
    using parsesD [OF parses_root [OF new_parser_ok(1) [OF P val]], of "\<lparr>pos = 0, captures = 0\<rparr>" depth
        "has_flag flags RE_FLAG_I"] s
    by (simp add: parses_at_def)
  moreover have "totalCaptures P = fst (projr (scanGroups pattern))"
    using P by (auto simp: new_parser_def bindE_eq_Inr)
  moreover have "{0<..captures s} = {1..numCaptures p}" by (auto simp: n)
  ultimately show thesis using that by (simp add: node_ok_def)
qed

end
