(* ===== verification/Re_Pattern.thy ===== *)
theory Re_Pattern
  imports Re_Search Re_Grammar
begin

text \<open>
  \<^verbatim>\<open>compilePattern\<close> of \<^verbatim>\<open>src/src/codegen/regex/compile.ts\<close>: the parser feeding the compiler. The
  lemmas compose the parser's results with the compiler's: which errors come out, and when the
  program that comes out may be handed to the search theorems.
\<close>

definition compilePattern ::
  "nat \<Rightarrow> (nat \<Rightarrow> nat list) \<Rightarrow> host_env \<Rightarrow> nat list \<Rightarrow> nat \<Rightarrow> regex_error + compiled_regex" where
  "compilePattern depth upper h pattern flags =
     bindE (parsePattern depth h pattern flags) (\<lambda>parsed. compileParsed upper parsed flags)"

text \<open>The condition the parser does not enforce: references point to groups of the tree.\<close>

definition refs_resolved :: "parsed_regex \<Rightarrow> bool" where
  "refs_resolved p \<longleftrightarrow> backrefs (root p) \<subseteq> {1..numCaptures p}"

lemma parsed_well_formed:
  assumes "parsePattern depth h pattern flags = Inr p" "valid_units pattern" "tables_ok h" "refs_resolved p"
  shows "well_formed_regex p"
proof -
  obtain total where "shape (root p)" and caps: "all_caps (root p) \<subseteq> {1..numCaptures p}"
    by (rule parsePattern_shape [OF assms(1-3)])
  with assms(4) have "proper_node (numCaptures p + 1) (root p)"
    by (intro proper_node_shape) (auto simp: refs_resolved_def less_Suc_eq_le)
  moreover have "0 \<notin> backrefs (root p)" "\<forall>j \<in> all_caps (root p). 0 < j"
    using caps assms(4) by (auto simp: refs_resolved_def)
  ultimately show ?thesis by (simp add: well_formed_regex_def)
qed

lemma compilePatternE:
  assumes "compilePattern depth upper h pattern flags = Inr cr"
  obtains p where "parsePattern depth h pattern flags = Inr p" "compileParsed upper p flags = Inr cr"
  using assms by (auto simp: compilePattern_def bindE_eq_Inr)

lemma compilePattern_errors:
  assumes "compilePattern depth upper h pattern flags = Inl e" "valid_units pattern" "tables_ok h"
    and "length pattern < depth"
  shows "(\<exists>m. e = Unsupported m) \<or> too_large e"
  using assms(1) parsePattern_refuses [OF assms(2-4), of flags]
  by (auto simp: compilePattern_def bindE_eq_Inl refuses_def dest: compileParsed_throws)

end
