(* ===== verification/Regex_Properties.thy ===== *)
theory Regex_Properties
  imports Re_Pattern
begin

text \<open>
  The properties of the regex front end and of the parts the engine is built from, each stated over the
  definitions and shown from the component's lemmas, with a witness at a concrete input where it has
  hypotheses.
\<close>

section \<open>A concrete host and pattern\<close>

text \<open>A host that rejects every pattern and has empty emoji tables: enough for patterns without the
  \<^verbatim>\<open>u\<close> and \<^verbatim>\<open>v\<close> flags.\<close>

definition bare_host :: host_env where
  "bare_host = \<lparr>hostRegExp = (\<lambda>_ _. None), stringPropertyData = (\<lambda>_. [])\<rparr>"

definition group_source :: js_string where
  "group_source = str ''a(b*)''"

definition group_pattern :: parsed_regex where
  "group_pattern =
     \<lparr>root = RConcat [RChar 97, RGroup (RStar (RChar 98) True) (Some 1) None], numCaptures = 1, pr_groupNames = []\<rparr>"

definition group_program :: compiled_regex where
  "group_program = projr (compileParsed (\<lambda>c. [c]) group_pattern 0)"

lemma bare_host_tables: "tables_ok bare_host"
proof -
  have "us_strings (decodeProperty bare_host name) = []" for name
    by (simp add: decodeProperty_def bare_host_def fromSequences_def parse_radix_def)
  then show ?thesis by (simp add: tables_ok_def scalar_strings_def)
qed

lemma group_source_parses: "parsePattern 6 bare_host group_source 0 = Inr group_pattern"
  by code_simp

lemma group_source_compiles: "compilePattern 6 (\<lambda>c. [c]) bare_host group_source 0 = Inr group_program"
  by code_simp

lemma group_facts: "valid_units group_source" "refs_resolved group_pattern" "isLinearSafe (cr_prog group_program)"
  "cr_nGroups group_program = 2" "length group_source < 6" "no_self_reference (root group_pattern)"
  by (simp_all add: group_source_def str_def valid_units_def refs_resolved_def group_pattern_def) code_simp+

lemma group_reference: "ref_search (\<lambda>c. [c]) [99, 97, 98, 98] (flags_ctx 0) group_pattern 0 False = Some [1, 4, 2, 4]"
  by code_simp

section \<open>From pattern text to match\<close>

text \<open>C3: a pattern text that parses and compiles, in which back references point to groups of the pattern and no
  group refers back to itself from inside, is searched as the reference semantics of its parse tree demands: the
  result is the reference result or the step-limit error, and never the error when the program is
  linear-safe.\<close>

theorem pattern_search:
  assumes "parsePattern depth h pattern flags = Inr p" "compilePattern depth upper h pattern flags = Inr cr"
    and "valid_units pattern" "tables_ok h" "refs_resolved p" "no_self_reference (root p)" "valid_units input"
  shows "let r = project_result (2 * cr_nGroups cr)
        (search d (cr_prog cr) (cr_classTable cr) (cr_nGroups cr) input startIdx sticky (cr_nScratch cr));
      expected = result_of (ref_search upper input (flags_ctx flags) p (nat (max 0 startIdx)) sticky)
    in r = expected \<or> r = RangeErr \<and> \<not> isLinearSafe (cr_prog cr)"
proof -
  have "compileParsed upper p flags = Inr cr" using assms(1,2) by (simp add: compilePattern_def)
  from compiled_search [OF this wf_parsedI [OF parsed_well_formed [OF assms(1,3,4,5)] assms(6)] assms(7), of d startIdx sticky]
  show ?thesis by (auto simp: Let_def)
qed

theorem pattern_search_witness:
  "project_result 4 (search 0 (cr_prog group_program) (cr_classTable group_program) 2 [99, 97, 98, 98] 0 False
      (cr_nScratch group_program)) = Matched [1, 4, 2, 4]"
proof -
  have "valid_units [99, 97, 98, 98]" by (simp add: valid_units_def)
  from pattern_search [OF group_source_parses group_source_compiles group_facts(1) bare_host_tables group_facts(2,6) this,
      of 0 0 False]
  show ?thesis by (simp add: Let_def group_facts group_reference)
qed

text \<open>C12: the parser is total: with a call stack deeper than the pattern is long it returns a tree or refuses
  the pattern with an \<^verbatim>\<open>Unsupported\<close> error; it never overflows the stack and no loop runs forever.\<close>

theorem parser_total:
  assumes "valid_units pattern" "tables_ok h" "length pattern < depth"
  shows "(\<exists>p. parsePattern depth h pattern flags = Inr p) \<or> (\<exists>m. parsePattern depth h pattern flags = Inl (Unsupported m))"
  using parsePattern_refuses [OF assms, of flags] by (auto simp: refuses_def split: sum.splits)

theorem parser_total_witness:
  "(\<exists>p. parsePattern 6 bare_host group_source 0 = Inr p) \<or> (\<exists>m. parsePattern 6 bare_host group_source 0 = Inl (Unsupported m))"
  by (rule parser_total [OF group_facts(1) bare_host_tables group_facts(5)])

text \<open>C13: a parsed tree numbers its capture groups from 1 to \<^verbatim>\<open>numCaptures\<close>, the bounds of its quantifiers are in order, it has
  ordered class ranges and code units in range, and its back references stay within the groups counted
  by the pre-scan.\<close>

theorem parser_numbers_groups:
  assumes "parsePattern depth h pattern flags = Inr p" "valid_units pattern" "tables_ok h"
  shows "shape (root p) \<and> all_caps (root p) \<subseteq> {1..numCaptures p} \<and>
    backrefs (root p) \<subseteq> {1..fst (projr (scanGroups pattern))}"
  using parsePattern_shape [OF assms] by metis

theorem parser_numbers_groups_witness:
  "all_caps (root group_pattern) \<subseteq> {1..1}"
  using parser_numbers_groups [OF group_source_parses group_facts(1) bare_host_tables]
  by (simp add: group_pattern_def)

text \<open>C36: compiling a pattern text fails only by refusing the pattern or because a bounded quantifier passes
  the expansion limit.\<close>

theorem pattern_errors:
  assumes "compilePattern depth upper h pattern flags = Inl e" "valid_units pattern" "tables_ok h" "length pattern < depth"
  shows "(\<exists>m. e = Unsupported m) \<or> too_large e"
  by (rule compilePattern_errors [OF assms])

theorem pattern_errors_witness:
  "(\<exists>m. projl (compilePattern 3 (\<lambda>c. [c]) bare_host (str ''('') 0) = Unsupported m) \<or>
   too_large (projl (compilePattern 3 (\<lambda>c. [c]) bare_host (str ''('') 0))"
proof (rule pattern_errors [OF _ _ bare_host_tables])
  have "isl (compilePattern 3 (\<lambda>c. [c]) bare_host (str ''('') 0)" by code_simp
  then show "compilePattern 3 (\<lambda>c. [c]) bare_host (str ''('') 0 =
      Inl (projl (compilePattern 3 (\<lambda>c. [c]) bare_host (str ''('') 0))" by simp
qed (simp_all add: valid_units_def str_def)

section \<open>Captures in quantified groups\<close>

text \<open>\<^verbatim>\<open>/(?:(a)|b){2}/\<close> and \<^verbatim>\<open>/(a*)?/\<close>.\<close>

definition twice_pattern :: parsed_regex where
  "twice_pattern = projr (parsePattern 20 bare_host (str ''(?:(a)|b){2}'') 0)"

definition maybe_pattern :: parsed_regex where
  "maybe_pattern = projr (parsePattern 20 bare_host (str ''(a*)?'') 0)"

lemma quantified_patterns:
  "twice_pattern = \<lparr>root = RRepeat (RGroup (RAlt [RGroup (RChar 97) (Some 1) None, RChar 98]) None None) 2 (Some 2) True,
     numCaptures = 1, pr_groupNames = []\<rparr>"
  "maybe_pattern = \<lparr>root = ROpt (RGroup (RStar (RChar 97) True) (Some 1) None) True, numCaptures = 1, pr_groupNames = []\<rparr>"
  by code_simp+

definition compiled_pattern :: "parsed_regex \<Rightarrow> compiled_regex" where
  "compiled_pattern p = projr (compileParsed (\<lambda>c. [c]) p 0)"

lemma quantified_programs:
  "compileParsed (\<lambda>c. [c]) twice_pattern 0 = Inr (compiled_pattern twice_pattern)"
  "compileParsed (\<lambda>c. [c]) maybe_pattern 0 = Inr (compiled_pattern maybe_pattern)"
  unfolding quantified_patterns by code_simp+

lemma quantified_facts:
  "isLinearSafe (cr_prog (compiled_pattern twice_pattern))" "isLinearSafe (cr_prog (compiled_pattern maybe_pattern))"
  "cr_nGroups (compiled_pattern twice_pattern) = 2" "cr_nGroups (compiled_pattern maybe_pattern) = 2"
  "ref_search (\<lambda>c. [c]) [97, 98] (flags_ctx 0) twice_pattern 0 False = Some [0, 2, 0, 1]"
  "ref_search (\<lambda>c. [c]) [98] (flags_ctx 0) maybe_pattern 0 False = Some [0, 0, 0, 0]"
  unfolding quantified_patterns by code_simp+

lemma quantified_wf: "wf_parsed twice_pattern" "wf_parsed maybe_pattern"
  by (simp_all add: wf_parsed_def quantified_patterns)

text \<open>The copies of a counted quantifier do not clear the captures of earlier iterations: \<^verbatim>\<open>/(?:(a)|b){2}/\<close> on
  \<^verbatim>\<open>ab\<close> still reports group 1 as \<^verbatim>\<open>a\<close>, and the body of an optional group runs even when it matches nothing:
  \<^verbatim>\<open>/(a*)?/\<close> on \<^verbatim>\<open>b\<close> reports group 1 as empty rather than unmatched.\<close>

theorem quantifier_captures:
  "project_result 4 (search d (cr_prog (compiled_pattern twice_pattern)) (cr_classTable (compiled_pattern twice_pattern)) 2
      [97, 98] 0 False (cr_nScratch (compiled_pattern twice_pattern))) = Matched [0, 2, 0, 1] \<and>
   project_result 4 (search d (cr_prog (compiled_pattern maybe_pattern)) (cr_classTable (compiled_pattern maybe_pattern)) 2
      [98] 0 False (cr_nScratch (compiled_pattern maybe_pattern))) = Matched [0, 0, 0, 0]"
proof -
  have "valid_units [97, 98]" "valid_units [98]" by (simp_all add: valid_units_def)
  with compiled_search [OF quantified_programs(1) quantified_wf(1), of "[97, 98]" d 0 False]
    compiled_search [OF quantified_programs(2) quantified_wf(2), of "[98]" d 0 False]
  show ?thesis by (simp add: quantified_facts)
qed

section \<open>References to a group from inside it\<close>

text \<open>\<^verbatim>\<open>/(?:(a\1)b){2}/\<close> and \<^verbatim>\<open>/(?:(a\1)(?:bb)?){2}/\<close>. In the second copy of the body the reference reads the new start of
  its group with the end of the earlier copy, a negative length: the cursor moves backwards.\<close>

definition self_pattern :: parsed_regex where
  "self_pattern = projr (parsePattern 20 bare_host (str ''(?:(a'' @ [backslash] @ str ''1)b){2}'') 0)"

definition back_pattern :: parsed_regex where
  "back_pattern = projr (parsePattern 30 bare_host (str ''(?:(a'' @ [backslash] @ str ''1)(?:bb)?){2}'') 0)"

lemma self_patterns:
  "self_pattern = \<lparr>root = RRepeat (RGroup (RConcat [RGroup (RConcat [RChar 97, RBackref 1]) (Some 1) None, RChar 98])
     None None) 2 (Some 2) True, numCaptures = 1, pr_groupNames = []\<rparr>"
  "back_pattern = \<lparr>root = RRepeat (RGroup (RConcat [RGroup (RConcat [RChar 97, RBackref 1]) (Some 1) None,
     ROpt (RGroup (RConcat [RChar 98, RChar 98]) None None) True]) None None) 2 (Some 2) True,
     numCaptures = 1, pr_groupNames = []\<rparr>"
  by code_simp+

lemma self_programs:
  "compileParsed (\<lambda>c. [c]) self_pattern 0 = Inr (compiled_pattern self_pattern)"
  "compileParsed (\<lambda>c. [c]) back_pattern 0 = Inr (compiled_pattern back_pattern)"
  unfolding self_patterns by code_simp+

lemma self_facts:
  "well_formed_regex self_pattern" "\<not> no_self_reference (root self_pattern)"
  "well_formed_regex back_pattern" "\<not> no_self_reference (root back_pattern)"
  by (simp_all add: well_formed_regex_def self_patterns)

lemma self_compiled:
  "compiled_pattern self_pattern =
    \<lparr>cr_prog = [5, 0, 0, 5, 2, 0, 0, 97, 0, 11, 1, 0, 5, 3, 0, 0, 98, 0, 5, 2, 0, 0, 97, 0, 11, 1, 0, 5, 3, 0, 0, 98, 0,
       5, 1, 0, 6, 0, 0],
     cr_classTable = [], cr_nGroups = 2, cr_nScratch = 0, cr_flags = 0, cr_groupNames = []\<rparr>"
  "compiled_pattern back_pattern =
    \<lparr>cr_prog = [5, 0, 0, 5, 2, 0, 0, 97, 0, 11, 1, 0, 5, 3, 0, 3, 6, 8, 0, 98, 0, 0, 98, 0, 5, 2, 0, 0, 97, 0, 11, 1, 0,
       5, 3, 0, 3, 13, 15, 0, 98, 0, 0, 98, 0, 5, 1, 0, 6, 0, 0],
     cr_classTable = [], cr_nGroups = 2, cr_nScratch = 0, cr_flags = 0, cr_groupNames = []\<rparr>"
  unfolding self_patterns by code_simp+

text \<open>Thirty steps are enough for every attempt, and more do not change its result.\<close>

lemma attempt_of_30:
  assumes "vm_loop prog tbl input 30 0 30 True 0 i [- 1, - 1, - 1, - 1] [] = x" "x \<noteq> RangeErr"
  shows "runAt depth prog tbl 2 input i 0 True None 0 = x"
proof -
  have "30 \<le> regexStepBudget (length input)" by (simp add: regexStepBudget_def REGEX_STEP_CAP_def)
  then show ?thesis using vm_loop_mono [OF assms, of "regexStepBudget (length input)" depth "regexStepBudget (length input)"]
    by (simp add: runAt_def Let_def numeral_eq_Suc)
qed

lemma self_attempts:
  "vm_loop (cr_prog (compiled_pattern self_pattern)) [] [97, 98, 97, 98] 30 0 30 True 0 0 [- 1, - 1, - 1, - 1] [] = NoMatch"
  "vm_loop (cr_prog (compiled_pattern self_pattern)) [] [97, 98, 97, 98] 30 0 30 True 0 1 [- 1, - 1, - 1, - 1] [] = NoMatch"
  "vm_loop (cr_prog (compiled_pattern self_pattern)) [] [97, 98, 97, 98] 30 0 30 True 0 2 [- 1, - 1, - 1, - 1] [] = NoMatch"
  "vm_loop (cr_prog (compiled_pattern self_pattern)) [] [97, 98, 97, 98] 30 0 30 True 0 3 [- 1, - 1, - 1, - 1] [] = NoMatch"
  "vm_loop (cr_prog (compiled_pattern self_pattern)) [] [97, 98, 97, 98] 30 0 30 True 0 4 [- 1, - 1, - 1, - 1] [] = NoMatch"
  "vm_loop (cr_prog (compiled_pattern back_pattern)) [] [97, 98, 98, 97] 30 0 30 True 0 0 [- 1, - 1, - 1, - 1] [] =
     Matched [0, 2, 3, 2]"
  unfolding self_compiled compiled_regex.simps by code_simp+

lemma search_none:
  "(\<And>j. j < i + k \<Longrightarrow> runAt depth prog tbl nGroups input j 0 True None nScratch = NoMatch) \<Longrightarrow>
   search_loop depth prog tbl nGroups input False nScratch k i = NoMatch"
  by (induction k arbitrary: i) simp_all

theorem self_reference_missed:
  "search depth (cr_prog (compiled_pattern self_pattern)) (cr_classTable (compiled_pattern self_pattern)) 2
      [97, 98, 97, 98] 0 False (cr_nScratch (compiled_pattern self_pattern)) = NoMatch"
  "ref_search (\<lambda>c. [c]) [97, 98, 97, 98] (flags_ctx 0) self_pattern 0 False = Some [0, 4, 2, 3]"
proof -
  have tables: "cr_classTable (compiled_pattern self_pattern) = []" "cr_nScratch (compiled_pattern self_pattern) = 0"
    by (simp_all add: self_compiled)
  have start: "nat (max 0 0) = 0" and starts: "length [97, 98, 97, 98 :: nat] + 1 - 0 = 5" by simp_all
  have "runAt depth (cr_prog (compiled_pattern self_pattern)) [] 2 [97, 98, 97, 98] i 0 True None 0 = NoMatch" if "i < 0 + 5" for i
  proof -
    from that have "i = 0 \<or> i = 1 \<or> i = 2 \<or> i = 3 \<or> i = 4" by arith
    then show ?thesis by (elim disjE) (simp_all only: self_attempts [THEN attempt_of_30] vm_result.simps not_False_eq_True)
  qed
  from search_none [OF this] have "search_loop depth (cr_prog (compiled_pattern self_pattern)) [] 2 [97, 98, 97, 98] False 0 5 0 = NoMatch"
    by blast
  then show "search depth (cr_prog (compiled_pattern self_pattern)) (cr_classTable (compiled_pattern self_pattern)) 2
      [97, 98, 97, 98] 0 False (cr_nScratch (compiled_pattern self_pattern)) = NoMatch"
    unfolding tables by (simp only: search_def Let_def start starts)
  show "ref_search (\<lambda>c. [c]) [97, 98, 97, 98] (flags_ctx 0) self_pattern 0 False = Some [0, 4, 2, 3]"
    unfolding self_patterns by code_simp
qed

text \<open>And on \<^verbatim>\<open>abba\<close> the second pattern reports a group that ends before it starts.\<close>

theorem self_reference_backwards:
  "search depth (cr_prog (compiled_pattern back_pattern)) (cr_classTable (compiled_pattern back_pattern)) 2
      [97, 98, 98, 97] 0 False (cr_nScratch (compiled_pattern back_pattern)) = Matched [0, 2, 3, 2]"
proof -
  have tables: "cr_classTable (compiled_pattern back_pattern) = []" "cr_nScratch (compiled_pattern back_pattern) = 0"
    by (simp_all add: self_compiled)
  have start: "nat (max 0 0) = 0" and starts: "length [97, 98, 98, 97 :: nat] + 1 - 0 = Suc 4" by simp_all
  have "runAt depth (cr_prog (compiled_pattern back_pattern)) [] 2 [97, 98, 98, 97] 0 0 True None 0 = Matched [0, 2, 3, 2]"
    by (rule attempt_of_30 [OF self_attempts(6)]) simp
  then have "search_loop depth (cr_prog (compiled_pattern back_pattern)) [] 2 [97, 98, 98, 97] False 0 (Suc 4) 0 = Matched [0, 2, 3, 2]"
    by (simp only: search_loop.simps vm_result.simps)
  then show ?thesis unfolding tables by (simp only: search_def Let_def start starts)
qed

end
