(* ===== verification/Regex_Parts.thy ===== *)
theory Regex_Parts
  imports Re_Pattern "HOL-Library.Word"
begin

text \<open>
  The properties of the parts the regex engine is built from: flags, class tables and their binary search,
  case folding, string sets of the \<^verbatim>\<open>v\<close> flag, host-enumerated classes, literal alternations, and the step
  budget.
\<close>

section \<open>Flags and budget\<close>

lemma flag_bits:
  "RE_FLAG_G = 1" "RE_FLAG_I = 2" "RE_FLAG_M = 4" "RE_FLAG_S = 8" "RE_FLAG_U = 16" "RE_FLAG_Y = 32"
  "RE_FLAG_D = 64" "RE_FLAG_V = 128"
  by (simp_all add: RE_FLAG_G_def RE_FLAG_I_def RE_FLAG_M_def RE_FLAG_S_def RE_FLAG_U_def RE_FLAG_Y_def
    RE_FLAG_D_def RE_FLAG_V_def)

lemma flag_bit_power:
  assumes "flag_bit ch = Some b"
  shows "\<exists>k. b = 2 ^ k"
proof -
  have "b \<in> {2 ^ 0, 2 ^ 1, 2 ^ 2, 2 ^ 3, 2 ^ 4, 2 ^ 5, 2 ^ 6, 2 ^ 7}"
    using assms by (simp add: flag_bits split: if_splits)
  then show ?thesis by blast
qed

lemma flag_bit_inj: "flag_bit ch = Some b \<Longrightarrow> flag_bit ch' = Some b \<Longrightarrow> ch = ch'"
  by (simp add: flag_bits split: if_splits)

lemma has_flag_bit: "has_flag bits (2 ^ k) \<longleftrightarrow> bit bits k"
  by (simp only: has_flag_def and_exp_eq_0_iff_not_bit not_not)

lemma has_flag_or:
  assumes "flag_bit ch = Some b" "flag_bit ch' = Some b'"
  shows "has_flag (bits OR b) b' \<longleftrightarrow> has_flag bits b' \<or> ch = ch'"
proof -
  obtain k k' where k: "b = 2 ^ k" "b' = 2 ^ k'" using assms flag_bit_power by blast
  have "k = k' \<longleftrightarrow> ch = ch'" using assms flag_bit_inj unfolding k by (metis option.inject power_inject_exp one_less_numeral_iff semiring_norm(76))
  then show ?thesis unfolding k has_flag_bit by (auto simp: bit_or_iff bit_exp_iff)
qed

definition flags_in :: "nat \<Rightarrow> char set \<Rightarrow> bool" where
  "flags_in bits chs \<longleftrightarrow> (\<forall>ch b. flag_bit ch = Some b \<longrightarrow> (has_flag bits b \<longleftrightarrow> ch \<in> chs))"

lemma parseFlags_loop_accepts:
  "flags_in bits chs \<Longrightarrow>
     (case parseFlags_loop bits flags of
        Inr bits' \<Rightarrow> distinct flags \<and> set flags \<inter> chs = {} \<and> list_all (\<lambda>ch. flag_bit ch \<noteq> None) flags \<and>
          flags_in bits' (chs \<union> set flags)
      | Inl e \<Rightarrow> \<not> (distinct flags \<and> set flags \<inter> chs = {} \<and> list_all (\<lambda>ch. flag_bit ch \<noteq> None) flags))"
proof (induction flags arbitrary: bits chs)
  case (Cons ch flags)
  show ?case
  proof (cases "flag_bit ch")
    case (Some b)
    have "flags_in (bits OR b) (insert ch chs)"
      using Cons.prems Some has_flag_or [OF Some] by (auto simp: flags_in_def)
    note IH = Cons.IH [OF this]
    have "has_flag bits b \<longleftrightarrow> ch \<in> chs" using Cons.prems Some by (auto simp: flags_in_def)
    then show ?thesis using IH Some by (auto simp del: flag_bit.simps split: sum.splits)
  qed (simp del: flag_bit.simps)
qed simp

text \<open>\<^verbatim>\<open>parseFlags\<close> accepts exactly the texts of distinct known flags, and the bits it returns are those of the
  letters in the text.\<close>

theorem parseFlags_accepts:
  "(\<exists>bits. parseFlags flags = Inr bits) = (distinct flags \<and> list_all (\<lambda>ch. flag_bit ch \<noteq> None) flags) \<and>
   (\<forall>bits ch b. parseFlags flags = Inr bits \<and> flag_bit ch = Some b \<longrightarrow> has_flag bits b = (ch \<in> set flags))"
proof -
  have "flags_in 0 {}" by (simp add: flags_in_def has_flag_def)
  from parseFlags_loop_accepts [OF this, of flags] show ?thesis
    by (cases "parseFlags_loop 0 flags") (auto simp: parseFlags_def flags_in_def simp del: flag_bit.simps)
qed

theorem parseFlags_accepts_witness: "\<exists>bits. parseFlags ''gi'' = Inr bits"
  using parseFlags_accepts [of "''gi''"] by simp

text \<open>The step budget grows with the input but saturates below \<^verbatim>\<open>2^31\<close>, so that the 32-bit counter of the Wasm
  VM cannot overflow.\<close>

theorem step_budget_bounds:
  "REGEX_STEP_CAP \<le> regexStepBudget n \<and> regexStepBudget n \<le> regexStepBudget (n + k) \<and>
   regexStepBudget n < 2 ^ 31 - 1 \<and> sint (word_of_nat (regexStepBudget n) :: 32 word) = int (regexStepBudget n)"
proof -
  have b: "regexStepBudget n \<le> 1001000000" for n
    by (simp add: regexStepBudget_def REGEX_STEP_CAP_def REGEX_STEP_CAP_PER_UNIT_def REGEX_STEP_CAP_LEN_SATURATION_def)
  have "sint (word_of_nat (regexStepBudget n) :: 32 word) = signed_take_bit 31 (int (regexStepBudget n))"
    by (simp add: signed_of_nat)
  also have "\<dots> = int (regexStepBudget n)" using b [of n] by (intro signed_take_bit_int_eq_self) auto
  finally show ?thesis using b [of n] by (auto simp: regexStepBudget_def)
qed

section \<open>Classes\<close>

text \<open>C25: a class written into the class table by \<^verbatim>\<open>addClass\<close> (sorted, merged, flattened) is looked up correctly by the
  binary search: a unit matches exactly when it lies in one of the ranges, inverted for a negated class,
  whatever is appended to the table later.\<close>

theorem class_table_lookup:
  assumes "ordered rs" "addClass rs em = (off, em')"
  shows "classMatch (em_classTable em' @ later) off c negated = (in_ranges rs c \<noteq> negated)"
proof -
  have "class_at (em_classTable em' @ later) off (normalizeRanges rs)"
    using assms(2) by (auto simp: addClass_def class_at_def)
  then show ?thesis by (rule add_class.lookup [OF _ assms(1)])
qed

theorem class_table_lookup_witness:
  "classMatch (em_classTable (snd (addClass [(97, 122), (48, 57), (50, 99)] (new_emitter False False False False))) @ [])
     (fst (addClass [(97, 122), (48, 57), (50, 99)] (new_emitter False False False False))) 60 False = (in_ranges [(97, 122), (48, 57), (50, 99)] 60 \<noteq> False)"
  by (rule class_table_lookup) (simp_all add: ordered_def)

text \<open>C32: case-insensitive class ranges contain exactly the units whose canonical form is that of a unit of the class
  (or the unit itself), and each of the ranges has its ends in order, which is all that the class table asks of the ranges
  it normalises.\<close>

theorem class_folding:
  assumes "ordered rs" "c < 0x10000"
  shows "(in_ranges (foldClassRangesLegacy upper rs) c \<longleftrightarrow>
      in_ranges rs c \<or> (\<exists>u < 0x10000. in_ranges rs u \<and> canonicalizeLegacy upper u = canonicalizeLegacy upper c)) \<and>
    ordered (foldClassRangesLegacy upper rs)"
  using legacy.fold_ranges_mem [OF assms, of upper] legacy.fold_ranges_ordered [OF assms(1), of upper] by blast

theorem class_folding_witness: "ordered (foldClassRangesLegacy (\<lambda>c. if 97 \<le> c \<and> c \<le> 122 then [c - 32] else [c]) [(97, 98)])"
  using class_folding [of "[(97, 98)]" 65 "\<lambda>c. if 97 \<le> c \<and> c \<le> 122 then [c - 32] else [c]"] by (simp add: ordered_def)

text \<open>A class enumerated by asking the host's own regular expressions denotes exactly the code points the host
  accepts, surrogates included.\<close>

theorem host_enumeration:
  assumes "host_decides h source fl P"
  shows "\<exists>rs. enumerateClassRanges h source fl = Inr rs \<and> disjoint_sorted rs \<and> (\<forall>c. in_ranges rs c \<longleftrightarrow> c \<le> 0x10ffff \<and> P c)"
  using enumerateClassRanges_host [OF assms] by metis

definition digit_host :: host_env where
  "digit_host =
     \<lparr>hostRegExp = (\<lambda>_ _. Some
        \<lparr>hr_matchAll = (\<lambda>_. map fromCodePoint (filter (\<lambda>c. 48 \<le> c \<and> c \<le> 57) scalar_values)),
         hr_test = (\<lambda>s. 48 \<le> hd s \<and> hd s \<le> 57)\<rparr>), stringPropertyData = (\<lambda>_. [])\<rparr>"

theorem host_enumeration_witness:
  "\<exists>rs. enumerateClassRanges digit_host (str ''[0-9]'') (str ''u'') = Inr rs \<and> disjoint_sorted rs \<and>
     (\<forall>c. in_ranges rs c \<longleftrightarrow> c \<le> 0x10ffff \<and> 48 \<le> c \<and> c \<le> 57)"
proof (rule host_enumeration)
  have "\<not> includes_str (str ''[0-9]'') (str [CHR 0x5C, CHR ''q'', CHR ''{''])" by code_simp
  then show "host_decides digit_host (str ''[0-9]'') (str ''u'') (\<lambda>c. 48 \<le> c \<and> c \<le> 57)"
    by (simp add: host_decides_def digit_host_def)
qed

section \<open>String sets\<close>

text \<open>C27: the operations on sets of code points and strings implement union, intersection and difference of the sets
  of strings they stand for, and keep the representation canonical: ranges sorted and disjoint, strings
  distinct and never a single code point.\<close>

theorem string_set_operators:
  assumes "us_ok A" "us_ok B"
  shows "us_ok (union A B) \<and> us_members (union A B) = us_members A \<union> us_members B \<and>
    us_ok (intersect A B) \<and> us_members (intersect A B) = us_members A \<inter> us_members B \<and>
    us_ok (subtract A B) \<and> us_members (subtract A B) = us_members A - us_members B"
  using strings.join [OF assms] strings.meet [OF assms] strings.minus [OF assms] by simp

theorem string_set_operators_witness:
  "us_members (subtract \<lparr>us_ranges = [(97, 122)], us_strings = [[97, 98], []]\<rparr> \<lparr>us_ranges = [(100, 110)], us_strings = [[]]\<rparr>) =
   us_members \<lparr>us_ranges = [(97, 122)], us_strings = [[97, 98], []]\<rparr> - us_members \<lparr>us_ranges = [(100, 110)], us_strings = [[]]\<rparr>"
  using string_set_operators [of "\<lparr>us_ranges = [(97, 122)], us_strings = [[97, 98], []]\<rparr>"
      "\<lparr>us_ranges = [(100, 110)], us_strings = [[]]\<rparr>"] by (simp add: us_ok_def)

text \<open>C38: evaluating a \<^verbatim>\<open>v\<close>-flag class text ends for every text, given a call stack deeper than the text is long: the
  result is a canonical set or the class is refused.\<close>

theorem class_evaluation_total:
  assumes "length source < depth"
  shows "(\<exists>A. evaluateUnicodeStringClass depth h fl source = Inr A \<and> us_ok A) \<or>
    (\<exists>m. evaluateUnicodeStringClass depth h fl source = Inl (Unsupported m))"
  using evaluate_enough_depth [OF assms, of h fl] evaluateUnicodeStringClass_ok [of depth h fl source]
  by (auto simp: refuses_def split: sum.splits)

theorem class_evaluation_total_witness:
  "(\<exists>A. evaluateUnicodeStringClass 4 digit_host (str ''v'') (str ''[0]'') = Inr A \<and> us_ok A) \<or>
   (\<exists>m. evaluateUnicodeStringClass 4 digit_host (str ''v'') (str ''[0]'') = Inl (Unsupported m))"
  by (rule class_evaluation_total) (simp add: str_def)

section \<open>Trees\<close>

text \<open>Factoring the common prefixes of a literal alternation changes neither the set nor the order of its matches,
  in either direction.\<close>

theorem literal_factoring:
  "branches_matcher input fwd (group_lits lits) = lits_matcher input fwd lits"
  by (rule group_lits_matcher)

text \<open>C33: the analysis that decides which loop bodies need a progress check is sound: a well-formed node, in which no group refers back to itself
  from inside, that it calls non-empty consumes at least one unit in every match, and every match stays in the input and moves in its
  direction.\<close>

theorem canMatchEmpty_sound:
  assumes "valid_units input" "wf_node k n" "good k input Z s" "s' \<in> set (mres upper input cx fwd n s)"
  shows "good k input Z s' \<and> ahead fwd s s' \<and> (fst s' = fst s \<longrightarrow> canMatchEmpty n)"
  using safeD [OF safe_mres [OF assms(1,2)] assms(3,4)] by blast

theorem canMatchEmpty_sound_witness:
  "good 1 [98, 97] {} (1, [- 1, - 1]) \<and> ahead True (0, [- 1, - 1]) (1, [- 1, - 1])"
proof -
  have "(1, [- 1, - 1]) \<in> set (mres (\<lambda>c. [c]) [98, 97] (flags_ctx 0) True (RChar 98) (0, [- 1, - 1]))" by code_simp
  moreover have "good 1 [98, 97] {} (0, [- 1, - 1])" by (simp add: good_def pair_ok_def)
  ultimately show ?thesis
    using canMatchEmpty_sound [of "[98, 97]" 1 "RChar 98" "{}" "(0, [- 1, - 1])" "(1, [- 1, - 1])" "\<lambda>c. [c]" "flags_ctx 0" True]
    by (simp add: valid_units_def)
qed

end
