(* ===== verification/Js_Utf8.thy ===== *)
theory Js_Utf8
  imports Js_Strings "HOL-Library.Word"
begin

text \<open>
  \<^verbatim>\<open>TextEncoder.encode\<close> and \<^verbatim>\<open>TextDecoder.decode\<close> as the binary format code uses them: UTF-8 with
  lone surrogates and malformed sequences replaced by U+FFFD, and a leading byte order mark dropped by
  the decoder. A well-formed string that does not start with U+FEFF survives the round trip.
\<close>

type_synonym byte = "8 word"

definition to_scalar :: "nat \<Rightarrow> nat" where
  "to_scalar cp = (if 0xd800 \<le> cp \<and> cp \<le> 0xdfff then 0xfffd else cp)"

definition utf8_cp :: "nat \<Rightarrow> nat list" where
  "utf8_cp cp =
     (if cp < 0x80 then [cp]
      else if cp < 0x800 then [0xc0 + cp div 64, 0x80 + cp mod 64]
      else if cp < 0x10000 then [0xe0 + cp div 4096, 0x80 + cp div 64 mod 64, 0x80 + cp mod 64]
      else [0xf0 + cp div 262144, 0x80 + cp div 4096 mod 64, 0x80 + cp div 64 mod 64, 0x80 + cp mod 64])"

definition utf8_encode :: "js_string \<Rightarrow> byte list" where
  "utf8_encode s = map word_of_nat (concat (map (\<lambda>cp. utf8_cp (to_scalar cp)) (code_points s)))"

text \<open>The decoder's state: bytes still needed, the code point so far, the bounds of the next byte.\<close>

record utf8_state =
  u8_needed :: nat
  u8_point :: nat
  u8_lower :: nat
  u8_upper :: nat

definition utf8_start :: utf8_state where
  "utf8_start = \<lparr>u8_needed = 0, u8_point = 0, u8_lower = 0x80, u8_upper = 0xbf\<rparr>"

definition utf8_lead :: "nat \<Rightarrow> utf8_state option" where
  "utf8_lead b =
     (if 0xc2 \<le> b \<and> b \<le> 0xdf then Some \<lparr>u8_needed = 1, u8_point = b - 0xc0, u8_lower = 0x80, u8_upper = 0xbf\<rparr>
      else if 0xe0 \<le> b \<and> b \<le> 0xef then
        Some \<lparr>u8_needed = 2, u8_point = b - 0xe0, u8_lower = (if b = 0xe0 then 0xa0 else 0x80),
              u8_upper = (if b = 0xed then 0x9f else 0xbf)\<rparr>
      else if 0xf0 \<le> b \<and> b \<le> 0xf4 then
        Some \<lparr>u8_needed = 3, u8_point = b - 0xf0, u8_lower = (if b = 0xf0 then 0x90 else 0x80),
              u8_upper = (if b = 0xf4 then 0x8f else 0xbf)\<rparr>
      else None)"

function utf8_loop :: "utf8_state \<Rightarrow> nat list \<Rightarrow> nat list" where
  "utf8_loop st [] = (if u8_needed st = 0 then [] else [0xfffd])"
| "utf8_loop st (b # bs) =
     (if u8_needed st = 0 then
        if b < 0x80 then b # utf8_loop st bs
        else (case utf8_lead b of Some st' \<Rightarrow> utf8_loop st' bs | None \<Rightarrow> 0xfffd # utf8_loop st bs)
      else if u8_lower st \<le> b \<and> b \<le> u8_upper st then
        let cp = u8_point st * 64 + (b - 0x80) in
        if u8_needed st = 1 then cp # utf8_loop utf8_start bs
        else utf8_loop \<lparr>u8_needed = u8_needed st - 1, u8_point = cp, u8_lower = 0x80, u8_upper = 0xbf\<rparr> bs
      else 0xfffd # utf8_loop utf8_start (b # bs))"
  by pat_completeness auto
termination
  by (relation "measures [\<lambda>(_, bs). length bs, \<lambda>(st, _). u8_needed st]") (auto simp: utf8_start_def)

definition utf8_decode :: "byte list \<Rightarrow> js_string" where
  "utf8_decode bytes =
     (let bs = map unat bytes in
      concat (map fromCodePoint (utf8_loop utf8_start (if take 3 bs = [0xef, 0xbb, 0xbf] then drop 3 bs else bs))))"

section \<open>Round trip\<close>

definition scalar :: "nat \<Rightarrow> bool" where
  "scalar cp \<longleftrightarrow> cp \<le> 0x10ffff \<and> \<not> (0xd800 \<le> cp \<and> cp \<le> 0xdfff)"

lemma to_scalar_scalar [simp]: "cp \<le> 0x10ffff \<Longrightarrow> scalar (to_scalar cp)" "scalar cp \<Longrightarrow> to_scalar cp = cp"
  by (auto simp: to_scalar_def scalar_def)

text \<open>The base-64 digits of a code point, and how they bound it.\<close>

lemma utf8_cp_bytes: "scalar cp \<Longrightarrow> b \<in> set (utf8_cp cp) \<Longrightarrow> b < 256"
  unfolding utf8_cp_def scalar_def by (auto split: if_splits)

lemma div_digits: "cp div 4096 = cp div 64 div 64" "cp div 262144 = cp div 64 div 64 div 64" for cp :: nat
  by (simp_all add: div_mult2_eq [symmetric])

lemma utf8_loop_cp:
  assumes "scalar cp"
  shows "utf8_loop utf8_start (utf8_cp cp @ bs) = cp # utf8_loop utf8_start bs"
proof -
  consider "cp < 0x80" | "0x80 \<le> cp" "cp < 0x800" | "0x800 \<le> cp" "cp < 0x10000" | "0x10000 \<le> cp"
    by linarith
  then show ?thesis
  proof cases
    case 1
    then show ?thesis by (simp add: utf8_cp_def utf8_start_def)
  next
    case 2
    define q where "q = cp div 64"
    have "2 \<le> q" "q < 32" using 2 by (simp_all add: q_def div_less_iff_less_mult)
    moreover have "q * 64 + cp mod 64 = cp" by (simp add: q_def)
    ultimately show ?thesis using 2
      by (simp add: utf8_cp_def utf8_start_def utf8_lead_def flip: q_def)
  next
    case 3
    define q p m r where "q = cp div 64" and "p = q div 64" and "m = q mod 64" and "r = cp mod 64"
    have cp: "p * 64 + m = q" "q * 64 + r = cp" "m < 64" "r < 64" by (simp_all add: q_def p_def m_def r_def)
    have "p < 16" "p = 0 \<longrightarrow> 32 \<le> m" "p = 13 \<longrightarrow> m < 32" using cp 3 assms by (auto simp: scalar_def)
    moreover have "utf8_cp cp = [0xe0 + p, 0x80 + m, 0x80 + r]"
      using 3 by (simp add: utf8_cp_def div_digits q_def p_def m_def r_def)
    ultimately show ?thesis using cp by (auto simp: utf8_start_def utf8_lead_def)
  next
    case 4
    define q p h where "q = cp div 64" and "p = q div 64" and "h = p div 64"
    define n m r where "n = p mod 64" and "m = q mod 64" and "r = cp mod 64"
    have cp: "h * 64 + n = p" "p * 64 + m = q" "q * 64 + r = cp" "n < 64" "m < 64" "r < 64"
      by (simp_all add: q_def p_def h_def n_def m_def r_def)
    have "h \<le> 4" "h = 0 \<longrightarrow> 16 \<le> n" "h = 4 \<longrightarrow> n < 16" using cp 4 assms by (auto simp: scalar_def)
    moreover have "utf8_cp cp = [0xf0 + h, 0x80 + n, 0x80 + m, 0x80 + r]"
      using 4 by (simp add: utf8_cp_def div_digits q_def p_def h_def n_def m_def r_def)
    ultimately show ?thesis using cp by (auto simp: utf8_start_def utf8_lead_def)
  qed
qed

lemma utf8_loop_cps:
  "(\<forall>cp \<in> set cps. scalar cp) \<Longrightarrow> utf8_loop utf8_start (concat (map utf8_cp cps)) = cps"
  by (induction cps) (simp_all add: utf8_loop_cp, simp add: utf8_start_def)

lemma code_points_units: "concat (map fromCodePoint (code_points s)) = s" if "valid_units s"
  using that
proof (induction s rule: code_points.induct)
  case (3 u v s)
  have "fromCodePoint (pair_code_point u v) = [u, v]" if lt: "is_lead u" "is_trail v"
  proof -
    define a b where "a = u - 0xd800" and "b = v - 0xdc00"
    have "u = 0xd800 + a" "v = 0xdc00 + b" "a < 1024" "b < 1024"
      using lt unfolding a_def b_def is_lead_def is_trail_def by linarith+
    then show ?thesis by (simp add: fromCodePoint_def pair_code_point_def add.assoc [symmetric])
  qed
  with 3 show ?case by (auto simp: valid_units_def fromCodePoint_def)
qed (auto simp: valid_units_def fromCodePoint_def)

text \<open>A string without lone surrogates.\<close>

definition well_formed :: "js_string \<Rightarrow> bool" where
  "well_formed s \<longleftrightarrow> valid_units s \<and> list_all scalar (code_points s)"

lemma utf8_bom: "take 3 (concat (map utf8_cp cps)) = [0xef, 0xbb, 0xbf] \<Longrightarrow> (\<forall>cp \<in> set cps. scalar cp) \<Longrightarrow> hd cps = 0xfeff"
proof (induction cps)
  case (Cons cp cps)
  have "utf8_loop utf8_start (take 3 (concat (map utf8_cp (cp # cps))) @ drop 3 (concat (map utf8_cp (cp # cps)))) = cp # cps"
    unfolding append_take_drop_id using Cons.prems by (intro utf8_loop_cps)
  then show ?case unfolding Cons.prems(1) by (simp add: utf8_start_def utf8_lead_def)
qed simp

lemma utf8_round_trip:
  assumes "well_formed s" "s = [] \<or> hd s \<noteq> 0xfeff"
  shows "utf8_decode (utf8_encode s) = s"
proof -
  let ?cps = "code_points s"
  have sc: "\<forall>cp \<in> set ?cps. scalar cp" using assms(1) by (simp add: well_formed_def list_all_iff)
  then have "map (\<lambda>cp. utf8_cp (to_scalar cp)) ?cps = map utf8_cp ?cps" by simp
  then have enc: "utf8_encode s = map word_of_nat (concat (map utf8_cp ?cps))"
    unfolding utf8_encode_def by (rule arg_cong)
  have small: "\<forall>b \<in> set (concat (map utf8_cp ?cps)). b < 256" using sc utf8_cp_bytes by auto
  have "map unat (utf8_encode s) = concat (map utf8_cp ?cps)"
    unfolding enc map_map by (rule map_idI) (use small in \<open>auto simp: unat_of_nat take_bit_nat_eq_self\<close>)
  moreover have "take 3 (concat (map utf8_cp ?cps)) \<noteq> [0xef, 0xbb, 0xbf]"
  proof
    assume bom: "take 3 (concat (map utf8_cp ?cps)) = [0xef, 0xbb, 0xbf]"
    then have "hd ?cps = 0xfeff" "?cps \<noteq> []" using utf8_bom [OF bom sc] by auto
    then have "s \<noteq> [] \<and> hd s = 0xfeff"
      by (cases s rule: code_points.cases)
        (auto simp: pair_code_point_def is_lead_def is_trail_def split: if_splits)
    with assms(2) show False by simp
  qed
  ultimately show ?thesis
    using utf8_loop_cps [OF sc] code_points_units assms(1) by (simp add: utf8_decode_def well_formed_def)
qed

end
