(* ===== verification/Wasm_Encoder.thy ===== *)
theory Wasm_Encoder
  imports Js_Utf8
begin

unbundle bit_operations_syntax

text \<open>
  \<^verbatim>\<open>src/src/emit/encoder.ts\<close>: the growable byte buffer every binary of the compiler and the linker is
  written through. A \<^verbatim>\<open>Uint8Array\<close> is a list of 8-bit words, a JavaScript number that has been
  through a bitwise operator is a 32-bit word, and each operation is a state transformer that may
  throw. The lemmas show that the buffer behaves as an append-only list: the relation \<open>appends\<close> says
  which bytes an operation adds to a well-formed encoder, and that it does not throw.
\<close>

datatype js_number =
    Integral int
  | NonIntegral js_string          \<comment> \<open>fractions, infinities and \<^verbatim>\<open>NaN\<close>, with their printed form\<close>

datatype wasm_error =
    U32Range js_number
  | SetRange                          \<comment> \<open>\<^verbatim>\<open>TypedArray.prototype.set\<close> past the end\<close>
  | V128Length nat
  | UnexpectedEnd nat
  | UnexpectedEndNeed nat nat
  | InvalidMagic js_string
  | UnsupportedVersion js_string
  | UnsupportedTypeForm nat
  | UnknownImportKind nat
  | UnsupportedLinkingVersion nat
  | UnknownSymbolKind nat
  | Thrown js_string                  \<comment> \<open>any other \<^verbatim>\<open>throw new Error(message)\<close>\<close>

record encoder =
  buf :: "byte list"
  enc_len :: nat

definition new_encoder :: encoder where
  "new_encoder = \<lparr>buf = replicate 1024 0, enc_len = 0\<rparr>"

text \<open>The written prefix, and what every operation keeps: it fits, and the buffer is not empty.\<close>

definition written :: "encoder \<Rightarrow> byte list" where
  "written e = take (enc_len e) (buf e)"

definition enc_ok :: "encoder \<Rightarrow> bool" where
  "enc_ok e \<longleftrightarrow> enc_len e \<le> length (buf e) \<and> 1024 \<le> length (buf e)"

section \<open>Operations\<close>

text \<open>\<^verbatim>\<open>while (cap < need) cap *= 2\<close>; the loop would not end on capacity 0, which \<open>enc_ok\<close> excludes.\<close>

function grow :: "nat \<Rightarrow> nat \<Rightarrow> nat" where
  "grow cap need = (if cap < need \<and> 0 < cap then grow (cap * 2) need else cap)"
  by pat_completeness auto
termination by (relation "measure (\<lambda>(cap, need). need - cap)") auto

declare grow.simps [simp del]

definition typed_set :: "byte list \<Rightarrow> byte list \<Rightarrow> nat \<Rightarrow> wasm_error + byte list" where
  "typed_set target source offset =
     (if length target < offset + length source then Inl SetRange
      else Inr (take offset target @ source @ drop (offset + length source) target))"

definition ensure :: "nat \<Rightarrow> encoder \<Rightarrow> wasm_error + encoder" where
  "ensure extra e =
     (let need = enc_len e + extra in
      if need \<le> length (buf e) then Inr e
      else
        let cap = grow (length (buf e) * 2) need in
        bindE (typed_set (replicate cap 0) (take (enc_len e) (buf e)) 0) (\<lambda>nxt.
          Inr (e\<lparr>buf := nxt\<rparr>)))"

definition push :: "int \<Rightarrow> encoder \<Rightarrow> encoder" where
  "push b e = e\<lparr>buf := (buf e)[enc_len e := word_of_int b], enc_len := enc_len e + 1\<rparr>"

definition put_byte :: "int \<Rightarrow> encoder \<Rightarrow> wasm_error + encoder" where
  "put_byte b e =
     bindE (if enc_len e = length (buf e) then ensure 1 e else Inr e) (\<lambda>e. Inr (push b e))"

datatype byte_source = Uint8Array "byte list" | Numbers "int list"

fun source_length :: "byte_source \<Rightarrow> nat" where
  "source_length (Uint8Array bs) = length bs"
| "source_length (Numbers ns) = length ns"

fun source_bytes :: "byte_source \<Rightarrow> byte list" where
  "source_bytes (Uint8Array bs) = bs"
| "source_bytes (Numbers ns) = map word_of_int ns"

definition put_bytes :: "byte_source \<Rightarrow> encoder \<Rightarrow> wasm_error + encoder" where
  "put_bytes bs e =
     bindE (ensure (source_length bs) e) (\<lambda>e.
       case bs of
         Uint8Array xs \<Rightarrow>
           bindE (typed_set (buf e) xs (enc_len e)) (\<lambda>b. Inr (e\<lparr>buf := b, enc_len := enc_len e + length xs\<rparr>))
       | Numbers ns \<Rightarrow> Inr (fold push ns e))"

lemma drop_bit_7_less: "drop_bit 7 v \<noteq> 0 \<Longrightarrow> unat (drop_bit 7 v) < unat v" for v :: "'a::len word"
proof -
  assume "drop_bit 7 v \<noteq> 0"
  then have "v \<noteq> 0" by auto
  then have "0 < unat v" using unat_gt_0 by blast
  moreover have "unat (drop_bit 7 v) = unat v div 128"
    by (simp add: unat_drop_bit_eq) (simp add: drop_bit_eq_div)
  ultimately show ?thesis by (simp add: div_less_dividend)
qed

text \<open>The \<^verbatim>\<open>do \<dots> while\<close> of the unsigned encoder; the value is below \<^verbatim>\<open>2^32\<close>, where \<^verbatim>\<open>&\<close> and \<^verbatim>\<open>>>>\<close> act on
  its 32 bits.\<close>

function u32_loop :: "32 word \<Rightarrow> encoder \<Rightarrow> wasm_error + encoder" where
  "u32_loop v e =
     (let b = v AND 0x7f; v' = drop_bit 7 v; b' = (if v' \<noteq> 0 then b OR 0x80 else b) in
      bindE (put_byte (uint b') e) (\<lambda>e. if v' \<noteq> 0 then u32_loop v' e else Inr e))"
  by pat_completeness auto

termination by (relation "measure (\<lambda>(v, _). unat v)") (auto intro: drop_bit_7_less)

declare u32_loop.simps [simp del]

definition u32 :: "js_number \<Rightarrow> encoder \<Rightarrow> wasm_error + encoder" where
  "u32 value e =
     (case value of
        NonIntegral _ \<Rightarrow> Inl (U32Range value)
      | Integral v \<Rightarrow> if v < 0 \<or> 0xffffffff < v then Inl (U32Range value) else u32_loop (word_of_int v) e)"

text \<open>
  The signed encoders. \<^verbatim>\<open>&\<close> and \<^verbatim>\<open>>>\<close> of \<^verbatim>\<open>i32\<close> convert their operand to int32, the first time with an
  effect, and \<^verbatim>\<open>i64\<close> starts with \<^verbatim>\<open>BigInt.asIntN(64, value)\<close>; from there both loops work on an
  integer in range.
\<close>

definition sleb_last :: "int \<Rightarrow> int \<Rightarrow> bool" where
  "sleb_last v' b \<longleftrightarrow> v' = 0 \<and> b AND 0x40 = 0 \<or> v' = - 1 \<and> b AND 0x40 \<noteq> 0"

lemma sleb_shrinks:
  assumes "\<not> sleb_last (drop_bit 7 v) (v AND 0x7f)"
  shows "nat (if 0 \<le> drop_bit 7 v then drop_bit 7 v else - drop_bit 7 v - 1) < nat (if 0 \<le> v then v else - v - 1)"
proof -
  have "v \<noteq> 0" "v \<noteq> - 1" using assms by (auto simp: sleb_last_def drop_bit_eq_div)
  moreover have "drop_bit 7 v = v div 128" by (simp add: drop_bit_eq_div)
  ultimately show ?thesis by auto
qed

function sleb_loop :: "int \<Rightarrow> encoder \<Rightarrow> wasm_error + encoder" where
  "sleb_loop v e =
     (let b = v AND 0x7f; v' = drop_bit 7 v in
      if sleb_last v' b then put_byte b e
      else bindE (put_byte (b OR 0x80) e) (sleb_loop v'))"
  by pat_completeness auto

termination
  by (relation "measure (\<lambda>(v, _). nat (if 0 \<le> v then v else - v - 1))") (auto dest: sleb_shrinks simp del: drop_bit_nonnegative_int_iff)

declare sleb_loop.simps [simp del]

definition toInt32 :: "int \<Rightarrow> int" where
  "toInt32 v = sint (word_of_int v :: 32 word)"

definition i32 :: "int \<Rightarrow> encoder \<Rightarrow> wasm_error + encoder" where
  "i32 value = sleb_loop (toInt32 value)"

definition i64 :: "int \<Rightarrow> encoder \<Rightarrow> wasm_error + encoder" where
  "i64 value = sleb_loop (sint (word_of_int value :: 64 word))"

text \<open>The platform's little-endian float layouts are parameters.\<close>

definition f64 :: "('f \<Rightarrow> byte list) \<Rightarrow> 'f \<Rightarrow> encoder \<Rightarrow> wasm_error + encoder" where
  "f64 float64_bytes value = put_bytes (Uint8Array (float64_bytes value))"

definition f32 :: "('f \<Rightarrow> byte list) \<Rightarrow> 'f \<Rightarrow> encoder \<Rightarrow> wasm_error + encoder" where
  "f32 float32_bytes value = put_bytes (Uint8Array (float32_bytes value))"

definition v128 :: "byte list \<Rightarrow> encoder \<Rightarrow> wasm_error + encoder" where
  "v128 bs e = (if length bs \<noteq> 16 then Inl (V128Length (length bs)) else put_bytes (Uint8Array bs) e)"

definition put_name :: "js_string \<Rightarrow> encoder \<Rightarrow> wasm_error + encoder" where
  "put_name s e =
     (let encoded = utf8_encode s in
      bindE (u32 (Integral (int (length encoded))) e) (put_bytes (Uint8Array encoded)))"

definition enc_finish :: "encoder \<Rightarrow> byte list" where
  "enc_finish e = take (enc_len e) (buf e)"

definition put_section :: "int \<Rightarrow> (encoder \<Rightarrow> wasm_error + encoder) \<Rightarrow> encoder \<Rightarrow> wasm_error + encoder" where
  "put_section ident content e =
     bindE (content new_encoder) (\<lambda>sub.
       let data = enc_finish sub in
       bindE (put_byte ident e) (\<lambda>e.
       bindE (u32 (Integral (int (length data))) e) (put_bytes (Uint8Array data))))"

text \<open>A sequence of writes, and \<^verbatim>\<open>for (const x of xs) op(x)\<close>.\<close>

primrec steps :: "('s \<Rightarrow> 'e + 's) list \<Rightarrow> 's \<Rightarrow> 'e + 's" where
  "steps [] s = Inr s"
| "steps (op # ops) s = bindE (op s) (steps ops)"

definition for_each :: "'a list \<Rightarrow> ('a \<Rightarrow> 's \<Rightarrow> 'e + 's) \<Rightarrow> 's \<Rightarrow> 'e + 's" where
  "for_each xs op = steps (map op xs)"

definition put_vector :: "'a list \<Rightarrow> ('a \<Rightarrow> encoder \<Rightarrow> wasm_error + encoder) \<Rightarrow> encoder \<Rightarrow> wasm_error + encoder" where
  "put_vector items encode e =
     bindE (u32 (Integral (int (length items))) e) (for_each items encode)"

definition position :: "encoder \<Rightarrow> nat" where
  "position e = enc_len e"

section \<open>The buffer is an append-only list\<close>

definition appends :: "(encoder \<Rightarrow> wasm_error + encoder) \<Rightarrow> byte list \<Rightarrow> bool" where
  "appends op bs \<longleftrightarrow>
     (\<forall>e. enc_ok e \<longrightarrow> (\<exists>e'. op e = Inr e' \<and> enc_ok e' \<and> written e' = written e @ bs))"

lemma appendsD:
  assumes "appends op bs" "enc_ok e"
  obtains e' where "op e = Inr e'" "enc_ok e'" "written e' = written e @ bs"
  using assms by (auto simp: appends_def)

lemma appends_Nil: "appends Inr []"
  by (simp add: appends_def)

lemma appends_bind:
  assumes "appends f as" "appends g bs"
  shows "appends (\<lambda>e. bindE (f e) g) (as @ bs)"
  unfolding appends_def
proof (intro allI impI)
  fix e assume "enc_ok e"
  with assms(1) obtain e1 where 1: "f e = Inr e1" "enc_ok e1" "written e1 = written e @ as" by (rule appendsD)
  with assms(2) obtain e2 where "g e1 = Inr e2" "enc_ok e2" "written e2 = written e1 @ bs"
    by (blast elim: appendsD)
  with 1 show "\<exists>e'. bindE (f e) g = Inr e' \<and> enc_ok e' \<and> written e' = written e @ as @ bs" by simp
qed

lemma appends_steps: "list_all2 appends ops bss \<Longrightarrow> appends (steps ops) (concat bss)"
proof (induction rule: list_all2_induct)
  case (Cons op ops bs bss)
  then show ?case using appends_bind [of op bs "steps ops" "concat bss"] by simp
qed (simp add: appends_Nil)

lemma appends_for_each:
  assumes "\<And>x. x \<in> set xs \<Longrightarrow> appends (op x) (f x)"
  shows "appends (for_each xs op) (concat (map f xs))"
  unfolding for_each_def by (rule appends_steps) (simp add: list_all2_map1 list_all2_map2 list.rel_refl_strong assms)

lemma new_encoder_ok [simp]: "enc_ok new_encoder" "written new_encoder = []"
  by (simp_all add: new_encoder_def enc_ok_def written_def)

lemma enc_finish_written [simp]: "enc_finish e = written e"
  by (simp add: enc_finish_def written_def)

lemma length_written [simp]: "enc_ok e \<Longrightarrow> length (written e) = enc_len e"
  by (simp add: enc_ok_def written_def)

lemma grow_ge: "0 < cap \<Longrightarrow> need \<le> grow cap need \<and> cap \<le> grow cap need"
  by (induction cap need rule: grow.induct) (subst (1 2) grow.simps, force)

lemma ensure_ok:
  assumes "enc_ok e"
  obtains e' where "ensure extra e = Inr e'" "enc_ok e'" "written e' = written e" "enc_len e' = enc_len e"
    "enc_len e + extra \<le> length (buf e')"
proof (cases "enc_len e + extra \<le> length (buf e)")
  case True
  with assms that show ?thesis by (simp add: ensure_def)
next
  case False
  let ?cap = "grow (length (buf e) * 2) (enc_len e + extra)"
  have cap: "enc_len e + extra \<le> ?cap" "length (buf e) * 2 \<le> ?cap"
    using assms grow_ge [of "length (buf e) * 2" "enc_len e + extra"]
    by (cases "buf e"; simp add: enc_ok_def)+
  let ?e = "e\<lparr>buf := take (enc_len e) (buf e) @ replicate (?cap - enc_len e) 0\<rparr>"
  have "ensure extra e = Inr ?e"
    using False assms cap by (simp add: ensure_def typed_set_def enc_ok_def min_absorb2)
  moreover have "enc_ok ?e" "written ?e = written e" "enc_len ?e = enc_len e" "enc_len e + extra \<le> length (buf ?e)"
    using assms cap by (auto simp: enc_ok_def written_def)
  ultimately show ?thesis by (rule that)
qed

lemma push_ok:
  assumes "enc_ok e" "enc_len e < length (buf e)"
  shows "enc_ok (push b e)" "written (push b e) = written e @ [word_of_int b]"
  using assms by (simp_all add: push_def enc_ok_def written_def take_Suc_conv_app_nth list_update_append take_update_swap)

lemma appends_byte: "appends (put_byte b) [word_of_int b]"
  unfolding appends_def
proof (intro allI impI)
  fix e assume e: "enc_ok e"
  then obtain e1 where "ensure 1 e = Inr e1" "enc_ok e1" "written e1 = written e" "enc_len e1 < length (buf e1)"
    by (rule ensure_ok [where extra = 1]) auto
  with e push_ok [of e1 b] push_ok [of e b]
  show "\<exists>e'. put_byte b e = Inr e' \<and> enc_ok e' \<and> written e' = written e @ [word_of_int b]"
    by (cases "enc_len e = length (buf e)") (auto simp: put_byte_def enc_ok_def)
qed

lemma appends_Cons: "appends g bs \<Longrightarrow> appends (\<lambda>e. bindE (put_byte b e) g) (word_of_int b # bs)"
  using appends_bind [OF appends_byte, of g bs b] by simp

lemma fold_push_ok:
  assumes "enc_ok e" "enc_len e + length ns \<le> length (buf e)"
  shows "enc_ok (fold push ns e) \<and> written (fold push ns e) = written e @ map word_of_int ns"
  using assms
proof (induction ns arbitrary: e)
  case (Cons n ns)
  have "enc_len (push n e) + length ns \<le> length (buf (push n e))" using Cons.prems by (simp add: push_def)
  with Cons.IH [of "push n e"] push_ok [of e n] Cons.prems show ?case by simp
qed simp

lemma appends_bytes: "appends (put_bytes bs) (source_bytes bs)"
  unfolding appends_def
proof (intro allI impI)
  fix e assume e: "enc_ok e"
  then obtain e1 where 1: "ensure (source_length bs) e = Inr e1" "enc_ok e1" "written e1 = written e"
    and room: "enc_len e1 + source_length bs \<le> length (buf e1)"
    by (rule ensure_ok [where extra = "source_length bs"]) auto
  show "\<exists>e'. put_bytes bs e = Inr e' \<and> enc_ok e' \<and> written e' = written e @ source_bytes bs"
  proof (cases bs)
    case (Uint8Array xs)
    let ?e = "e1\<lparr>buf := take (enc_len e1) (buf e1) @ xs @ drop (enc_len e1 + length xs) (buf e1),
      enc_len := enc_len e1 + length xs\<rparr>"
    have "put_bytes bs e = Inr ?e" using 1 room Uint8Array by (simp add: put_bytes_def typed_set_def)
    moreover have "enc_ok ?e" "written ?e = written e1 @ xs"
      using 1(2) room Uint8Array by (auto simp: enc_ok_def written_def)
    ultimately show ?thesis using 1(3) Uint8Array by simp
  next
    case (Numbers ns)
    with 1 room fold_push_ok [of e1 ns] show ?thesis by (simp add: put_bytes_def)
  qed
qed

section \<open>LEB128\<close>

text \<open>The reference encodings: base-128 digits, least significant first.\<close>

fun uleb :: "nat \<Rightarrow> byte list" where
  "uleb n = (if n < 128 then [word_of_nat n] else word_of_nat (128 + n mod 128) # uleb (n div 128))"

declare uleb.simps [simp del]

function sleb :: "int \<Rightarrow> byte list" where
  "sleb v = (if - 64 \<le> v \<and> v < 64 then [word_of_int (v mod 128)]
             else word_of_int (128 + v mod 128) # sleb (v div 128))"
  by pat_completeness auto
termination by (relation "measure (\<lambda>v. nat \<bar>v\<bar>)") auto

declare sleb.simps [simp del]

lemma low_bits: "v AND 0x7f = v mod 128" for v :: int
  using take_bit_eq_mask [of 7 v] by (simp add: mask_eq_exp_minus_1 take_bit_eq_mod)

lemma OR_0x80: "0 \<le> b \<Longrightarrow> b < 128 \<Longrightarrow> b OR 0x80 = 128 + b" for b :: int
proof -
  assume "0 \<le> b" "b < 128"
  then have "b AND 0x80 = take_bit 7 b AND push_bit 7 1" by (simp add: take_bit_int_eq_self)
  also have "\<dots> = 0" by (rule bit_eqI) (simp only: bit_take_bit_iff bit_push_bit_iff bit_and_iff bit_0_eq, simp)
  finally have "b AND 0x80 = 0" .
  then show ?thesis using plus_and_or [of b "0x80"] by simp
qed

text \<open>One turn of the unsigned loop, as both the encoder and the linker run it.\<close>

lemma uleb_word:
  "uleb (unat v) =
     (if drop_bit 7 v \<noteq> 0 then word_of_int (uint (v AND 0x7f OR 0x80)) # uleb (unat (drop_bit 7 v))
      else [word_of_int (uint (v AND 0x7f))])" for v :: "32 word"
proof -
  have low: "uint (v AND 0x7f) = int (unat v mod 128)" by (simp add: unsigned_and_eq low_bits of_nat_mod)
  have quot: "unat (drop_bit 7 v) = unat v div 128" by (simp add: unat_drop_bit_eq) (simp add: drop_bit_eq_div)
  show ?thesis
  proof (cases "drop_bit 7 v = 0")
    case True
    then have "unat v < 128" using quot by simp
    with True show ?thesis by (simp add: uleb.simps low)
  next
    case False
    then have "\<not> unat v < 128" using quot by (metis div_less unat_0_iff)
    moreover have "uint (v AND 0x7f OR 0x80) = 128 + int (unat v mod 128)"
      by (simp add: unsigned_or_eq low OR_0x80)
    ultimately show ?thesis using False by (simp add: uleb.simps [of "unat v"] quot)
  qed
qed

lemma appends_u32_loop: "appends (u32_loop v) (uleb (unat v))"
proof (induction v rule: measure_induct_rule [where f = unat])
  case (less v)
  show ?case
  proof (cases "drop_bit 7 v = 0")
    case True
    then have "u32_loop v = put_byte (uint (v AND 0x7f))"
      by (intro ext) (simp add: u32_loop.simps [of v] bindE_def split: sum.split)
    with True show ?thesis by (subst uleb_word) (simp add: appends_byte del: of_int_uint)
  next
    case False
    then have "u32_loop v = (\<lambda>e. bindE (put_byte (uint (v AND 0x7f OR 0x80)) e) (u32_loop (drop_bit 7 v)))"
      by (intro ext) (simp add: u32_loop.simps [of v])
    with False show ?thesis
      by (subst uleb_word) (simp only: if_True not_False_eq_True, intro appends_Cons less drop_bit_7_less False)
  qed
qed

lemma appends_u32: "n < 2 ^ 32 \<Longrightarrow> appends (u32 (Integral (int n))) (uleb n)"
proof -
  assume n: "n < 2 ^ 32"
  then have "u32 (Integral (int n)) = u32_loop (word_of_nat n)" by (intro ext) (simp add: u32_def)
  moreover have "unat (word_of_nat n :: 32 word) = n" using n by (simp add: unat_of_nat take_bit_nat_eq_self)
  ultimately show ?thesis using appends_u32_loop [of "word_of_nat n"] by simp
qed

lemma u32_throws:
  assumes "u32 value e = Inl err" "enc_ok e"
  shows "err = U32Range value \<and> (\<forall>n < 2 ^ 32. value \<noteq> Integral (int n))"
proof -
  have "u32_loop v e \<noteq> Inl err" for v
    using appendsD [OF appends_u32_loop assms(2)] by (metis Inl_Inr_False)
  then show ?thesis using assms(1) by (auto simp: u32_def split: js_number.splits if_splits)
qed

lemma sleb_last_iff: "sleb_last (drop_bit 7 v) (v AND 0x7f) \<longleftrightarrow> - 64 \<le> v \<and> v < 64"
proof -
  have "(v mod 128) AND 0x40 = 0 \<longleftrightarrow> even (v mod 128 div 64)"
    using and_exp_eq_0_iff_not_bit [of "v mod 128" 6] by (simp add: bit_iff_odd)
  also have "\<dots> \<longleftrightarrow> v mod 128 < 64"
  proof -
    have "v mod 128 div 64 = (if v mod 128 < 64 then 0 else 1)" by auto
    then show ?thesis by simp
  qed
  finally have "sleb_last (drop_bit 7 v) (v AND 0x7f) \<longleftrightarrow>
      v div 128 = 0 \<and> v mod 128 < 64 \<or> v div 128 = - 1 \<and> \<not> v mod 128 < 64"
    by (simp add: sleb_last_def low_bits drop_bit_eq_div)
  also have "\<dots> \<longleftrightarrow> - 64 \<le> v \<and> v < 64"
  proof -
    define q r where "q = v div 128" and "r = v mod 128"
    have "v = 128 * q + r" "0 \<le> r" "r < 128" by (simp_all add: q_def r_def)
    then show ?thesis unfolding q_def [symmetric] r_def [symmetric] by presburger
  qed
  finally show ?thesis .
qed

lemma appends_sleb_loop: "appends (sleb_loop v) (sleb v)"
proof (induction v rule: sleb.induct)
  case (1 v)
  show ?case
  proof (cases "- 64 \<le> v \<and> v < 64")
    case True
    then have "sleb_loop v = put_byte (v AND 0x7f)"
      by (intro ext) (simp add: sleb_loop.simps [of v] sleb_last_iff)
    moreover have "sleb v = [word_of_int (v AND 0x7f)]"
      using True by (simp add: sleb.simps [of v] low_bits)
    ultimately show ?thesis by (simp add: appends_byte)
  next
    case False
    have "v mod 128 OR 0x80 = 128 + v mod 128" by (rule OR_0x80) simp_all
    then have "sleb_loop v = (\<lambda>e. bindE (put_byte (128 + v mod 128) e) (sleb_loop (v div 128)))"
      using False sleb_last_iff [of v]
      by (intro ext) (auto simp: sleb_loop.simps [of v] low_bits drop_bit_eq_div Let_def)
    moreover have "sleb v = word_of_int (128 + v mod 128) # sleb (v div 128)"
      using False by (subst sleb.simps) auto
    ultimately show ?thesis using appends_Cons [OF "1.IH" [OF False], of "128 + v mod 128"] by simp
  qed
qed

lemma toInt32_id: "- (2 ^ 31) \<le> v \<Longrightarrow> v < 2 ^ 31 \<Longrightarrow> toInt32 v = v"
  by (simp add: toInt32_def signed_of_int signed_take_bit_int_eq_self)

lemma appends_i32: "appends (i32 v) (sleb (toInt32 v))"
  by (simp add: i32_def appends_sleb_loop)

lemma appends_i64: "appends (i64 v) (sleb (sint (word_of_int v :: 64 word)))"
  by (simp add: i64_def appends_sleb_loop)

section \<open>Length-prefixed data\<close>

lemma appends_name:
  assumes "length (utf8_encode s) < 2 ^ 32"
  shows "appends (put_name s) (uleb (length (utf8_encode s)) @ utf8_encode s)"
  unfolding put_name_def Let_def
  using appends_bind [OF appends_u32 [OF assms] appends_bytes [of "Uint8Array (utf8_encode s)"]] by simp

lemma appends_vector:
  assumes "\<And>x. x \<in> set xs \<Longrightarrow> appends (op x) (f x)" "length xs < 2 ^ 32"
  shows "appends (put_vector xs op) (uleb (length xs) @ concat (map f xs))"
  unfolding put_vector_def by (intro appends_bind appends_u32 appends_for_each assms)

lemma appends_section:
  assumes "appends content bs" "length bs < 2 ^ 32"
  shows "appends (put_section ident content) (word_of_int ident # uleb (length bs) @ bs)"
proof -
  obtain sub where sub: "content new_encoder = Inr sub" "written sub = bs"
    using appendsD [OF assms(1) new_encoder_ok(1)] by auto
  then have "put_section ident content =
      (\<lambda>e. bindE (put_byte ident e) (\<lambda>e. bindE (u32 (Integral (int (length bs))) e) (put_bytes (Uint8Array bs))))"
    by (intro ext) (simp add: put_section_def)
  then show ?thesis
    using appends_Cons [OF appends_bind [OF appends_u32 [OF assms(2)] appends_bytes [of "Uint8Array bs"]]] by simp
qed

end
