(* ===== verification/Wasm_Reader.thy ===== *)
theory Wasm_Reader
  imports Wasm_Encoder "HOL-Library.AList"
begin

text \<open>
  \<^verbatim>\<open>src/src/link/reader.ts\<close>: the byte cursor and the parser of relocatable object files. A parser is a
  function from the cursor to an error or a value and the moved cursor; \<open>moves_on\<close> says that the cursor
  never goes back, which is what ends the section loops, and \<open>reads\<close> says which bytes a parser accepts
  for a value, wherever they stand in the file.
\<close>

record reader =
  rd_data :: "byte list"
  rd_pos :: nat

type_synonym 'a rd = "reader \<Rightarrow> wasm_error + 'a \<times> reader"

section \<open>The cursor\<close>

definition new_reader :: "byte list \<Rightarrow> reader" where
  "new_reader bytes = \<lparr>rd_data = bytes, rd_pos = 0\<rparr>"

definition remaining :: "reader \<Rightarrow> int" where
  "remaining r = int (length (rd_data r)) - int (rd_pos r)"

definition rd_byte :: "nat rd" where
  "rd_byte r =
     (case nth_opt (rd_data r) (rd_pos r) of
        None \<Rightarrow> Inl (UnexpectedEnd (rd_pos r))
      | Some b \<Rightarrow> Inr (unat b, r\<lparr>rd_pos := rd_pos r + 1\<rparr>))"

text \<open>\<^verbatim>\<open>data.slice(from, to)\<close>, and \<^verbatim>\<open>r.pos = p\<close>.\<close>

definition rd_slice :: "reader \<Rightarrow> nat \<Rightarrow> nat \<Rightarrow> byte list" where
  "rd_slice r from to = take (to - from) (drop from (rd_data r))"

definition seek :: "nat \<Rightarrow> reader \<Rightarrow> reader" where
  "seek p r = r\<lparr>rd_pos := p\<rparr>"

definition rd_bytes :: "nat \<Rightarrow> byte list rd" where
  "rd_bytes n r =
     (if length (rd_data r) < rd_pos r + n then Inl (UnexpectedEndNeed n (rd_pos r))
      else Inr (rd_slice r (rd_pos r) (rd_pos r + n), seek (rd_pos r + n) r))"

lemma rd_byteD:
  "rd_byte r = Inr (b, r') \<Longrightarrow> r' = seek (rd_pos r + 1) r \<and> rd_pos r < length (rd_data r) \<and> b = unat (rd_data r ! rd_pos r)"
  by (auto simp: rd_byte_def seek_def nth_opt_def split: if_splits)

text \<open>The loop shared by \<^verbatim>\<open>u32\<close> and \<^verbatim>\<open>i32\<close>: the 32-bit result, the final shift and the last byte. The
  shift count of \<^verbatim>\<open><<\<close> is taken modulo 32.\<close>

function leb_loop :: "32 word \<Rightarrow> nat \<Rightarrow> (32 word \<times> nat \<times> nat) rd" where
  "leb_loop result shift r =
     bindE (rd_byte r) (\<lambda>(b, r).
       let result = result OR push_bit (shift mod 32) (word_of_nat b AND 0x7f); shift = shift + 7 in
       if b AND 0x80 \<noteq> 0 then leb_loop result shift r else Inr ((result, shift, b), r))"
  by pat_completeness auto
termination
  by (relation "measure (\<lambda>(_, _, r). length (rd_data r) - rd_pos r)") (auto dest!: rd_byteD simp: seek_def)

declare leb_loop.simps [simp del]

definition rd_u32 :: "nat rd" where
  "rd_u32 r = bindE (leb_loop 0 0 r) (\<lambda>((result, _, _), r). Inr (unat result, r))"

definition rd_i32 :: "int rd" where
  "rd_i32 r =
     bindE (leb_loop 0 0 r) (\<lambda>((result, shift, b), r).
       Inr (sint (if shift < 32 \<and> b AND 0x40 \<noteq> 0 then result OR - push_bit shift 1 else result), r))"

definition rd_name :: "js_string rd" where
  "rd_name r = bindE (rd_u32 r) (\<lambda>(len, r). bindE (rd_bytes len r) (\<lambda>(bytes, r). Inr (utf8_decode bytes, r)))"

text \<open>\<^verbatim>\<open>for (let i = 0; i < count; i++) list.push(item())\<close>, and \<^verbatim>\<open>while (r.byte() !== 0x0b) {}\<close> with the
  slice it delimits.\<close>

primrec rd_times :: "nat \<Rightarrow> 'a rd \<Rightarrow> 'a list rd" where
  "rd_times 0 item r = Inr ([], r)"
| "rd_times (Suc n) item r =
     bindE (item r) (\<lambda>(x, r). bindE (rd_times n item r) (\<lambda>(xs, r). Inr (x # xs, r)))"

function rd_until_end :: "unit rd" where
  "rd_until_end r = bindE (rd_byte r) (\<lambda>(b, r). if b \<noteq> 0x0b then rd_until_end r else Inr ((), r))"
  by pat_completeness auto
termination
  by (relation "measure (\<lambda>r. length (rd_data r) - rd_pos r)") (auto dest!: rd_byteD simp: seek_def)

declare rd_until_end.simps [simp del]

definition rd_expr :: "byte list rd" where
  "rd_expr r = bindE (rd_until_end r) (\<lambda>(_, r'). Inr (rd_slice r (rd_pos r) (rd_pos r'), r'))"

section \<open>Parsed objects\<close>

record type_section =
  ts_params :: "nat list"
  ts_results :: "nat list"

record import_entry =
  im_module :: js_string
  im_name :: js_string
  im_kind :: nat
  im_typeIdx :: "nat option"
  im_globalType :: "nat option"
  im_globalMutable :: "bool option"
  im_tableElementType :: "nat option"
  im_tableMin :: "nat option"
  im_tableMax :: "nat option"
  im_memoryMin :: "nat option"
  im_memoryMax :: "nat option"

record table_entry =
  tb_elementType :: nat
  tb_min :: nat
  tb_max :: "nat option"

record memory_entry =
  mem_min :: nat
  mem_max :: "nat option"

record global_entry =
  gl_type :: nat
  gl_mutable :: bool
  gl_init :: "byte list"

record export_entry =
  ex_name :: js_string
  ex_kind :: nat
  ex_index :: nat

record element_entry =
  el_flags :: nat
  el_tableIdx :: nat
  el_offsetExpr :: "byte list option"
  el_funcIndices :: "nat list"
  el_elemCount :: nat
  el_kindByte :: "nat option"
  el_elemExprs :: "byte list option"

record tag_entry =
  tg_attribute :: nat
  tg_typeIdx :: nat

record code_entry =
  cd_locals :: "(nat \<times> nat) list"
  cd_body :: "byte list"

record symbol_info =
  sy_kind :: nat
  sy_name :: js_string
  sy_index :: nat
  sy_flags :: nat

record reloc_entry =
  rl_type :: nat
  rl_offset :: nat
  rl_symbolIndex :: nat
  rl_addend :: "int option"

record parsed_object =
  ob_name :: js_string
  ob_types :: "type_section list"
  ob_imports :: "import_entry list"
  ob_functions :: "nat list"
  ob_tables :: "table_entry list"
  ob_memories :: "memory_entry list"
  ob_globals :: "global_entry list"
  ob_exports :: "export_entry list"
  ob_elements :: "element_entry list"
  ob_tags :: "tag_entry list"
  ob_code :: "code_entry list"
  ob_symbols :: "symbol_info list"
  ob_relocations :: "(js_string \<times> reloc_entry list) list"

definition SYMBOL_BINDING_WEAK :: nat where "SYMBOL_BINDING_WEAK = 0x01"
definition SYMBOL_BINDING_LOCAL :: nat where "SYMBOL_BINDING_LOCAL = 0x02"
definition SYMBOL_UNDEFINED :: nat where "SYMBOL_UNDEFINED = 0x10"
definition SYMBOL_EXPORTED :: nat where "SYMBOL_EXPORTED = 0x20"
definition SYMBOL_EXPLICIT_NAME :: nat where "SYMBOL_EXPLICIT_NAME = 0x40"

definition SYMTAB_FUNCTION :: nat where "SYMTAB_FUNCTION = 0"
definition SYMTAB_DATA :: nat where "SYMTAB_DATA = 1"
definition SYMTAB_GLOBAL :: nat where "SYMTAB_GLOBAL = 2"
definition SYMTAB_SECTION :: nat where "SYMTAB_SECTION = 3"
definition SYMTAB_EVENT :: nat where "SYMTAB_EVENT = 4"
definition SYMTAB_TABLE :: nat where "SYMTAB_TABLE = 5"

definition R_WASM_TABLE_INDEX_SLEB :: nat where "R_WASM_TABLE_INDEX_SLEB = 1"
definition R_WASM_TABLE_INDEX_I32 :: nat where "R_WASM_TABLE_INDEX_I32 = 2"
definition R_WASM_TABLE_INDEX_LEB :: nat where "R_WASM_TABLE_INDEX_LEB = 15"
definition R_WASM_TABLE_NUMBER_LEB :: nat where "R_WASM_TABLE_NUMBER_LEB = 20"

definition RELOC_HAS_ADDEND :: "nat list" where
  "RELOC_HAS_ADDEND = [3, 4, 5, 8, 9]"

definition WASM_SYMBOL_TABLE :: nat where "WASM_SYMBOL_TABLE = 8"

text \<open>\<^verbatim>\<open>sym.flags & MASK\<close> as a condition.\<close>

definition flagged :: "nat \<Rightarrow> nat \<Rightarrow> bool" where
  "flagged flags m \<longleftrightarrow> flags AND m \<noteq> 0"

section \<open>Section parsers\<close>

definition read_type :: "type_section rd" where
  "read_type r =
     bindE (rd_byte r) (\<lambda>(form, r).
     if form \<noteq> 0x60 then Inl (UnsupportedTypeForm form)
     else
       bindE (rd_u32 r) (\<lambda>(paramCount, r).
       bindE (rd_times paramCount rd_byte r) (\<lambda>(params, r).
       bindE (rd_u32 r) (\<lambda>(resultCount, r).
       bindE (rd_times resultCount rd_byte r) (\<lambda>(results, r).
         Inr (\<lparr>ts_params = params, ts_results = results\<rparr>, r))))))"

text \<open>\<^verbatim>\<open>hasMax\<close>, minimum and optional maximum of a table or memory.\<close>

definition read_limits :: "(nat \<times> nat option) rd" where
  "read_limits r =
     bindE (rd_byte r) (\<lambda>(hasMax, r).
     bindE (rd_u32 r) (\<lambda>(mn, r).
       if hasMax \<noteq> 0 then bindE (rd_u32 r) (\<lambda>(mx, r). Inr ((mn, Some mx), r))
       else Inr ((mn, None), r)))"

definition read_import :: "import_entry rd" where
  "read_import r =
     bindE (rd_name r) (\<lambda>(modl, r).
     bindE (rd_name r) (\<lambda>(name, r).
     bindE (rd_byte r) (\<lambda>(kind, r).
       let entry = \<lparr>im_module = modl, im_name = name, im_kind = kind, im_typeIdx = None, im_globalType = None,
         im_globalMutable = None, im_tableElementType = None, im_tableMin = None, im_tableMax = None,
         im_memoryMin = None, im_memoryMax = None\<rparr> in
       if kind = 0 then bindE (rd_u32 r) (\<lambda>(typeIdx, r). Inr (entry\<lparr>im_typeIdx := Some typeIdx\<rparr>, r))
       else if kind = 1 then
         bindE (rd_byte r) (\<lambda>(elementType, r).
         bindE (read_limits r) (\<lambda>((mn, mx), r).
           Inr (entry\<lparr>im_tableElementType := Some elementType, im_tableMin := Some mn, im_tableMax := mx\<rparr>, r)))
       else if kind = 2 then
         bindE (read_limits r) (\<lambda>((mn, mx), r). Inr (entry\<lparr>im_memoryMin := Some mn, im_memoryMax := mx\<rparr>, r))
       else if kind = 3 then
         bindE (rd_byte r) (\<lambda>(globalType, r).
         bindE (rd_byte r) (\<lambda>(mut, r).
           Inr (entry\<lparr>im_globalType := Some globalType, im_globalMutable := Some (mut \<noteq> 0)\<rparr>, r)))
       else if kind = 4 then
         bindE (rd_byte r) (\<lambda>(_, r).
         bindE (rd_u32 r) (\<lambda>(typeIdx, r). Inr (entry\<lparr>im_typeIdx := Some typeIdx\<rparr>, r)))
       else Inl (UnknownImportKind kind))))"

definition read_table :: "table_entry rd" where
  "read_table r =
     bindE (rd_byte r) (\<lambda>(elementType, r).
     bindE (read_limits r) (\<lambda>((mn, mx), r).
       Inr (\<lparr>tb_elementType = elementType, tb_min = mn, tb_max = mx\<rparr>, r)))"

definition read_memory :: "memory_entry rd" where
  "read_memory r = bindE (read_limits r) (\<lambda>((mn, mx), r). Inr (\<lparr>mem_min = mn, mem_max = mx\<rparr>, r))"

definition read_global :: "global_entry rd" where
  "read_global r =
     bindE (rd_byte r) (\<lambda>(typ, r).
     bindE (rd_byte r) (\<lambda>(mut, r).
     bindE (rd_expr r) (\<lambda>(init, r).
       Inr (\<lparr>gl_type = typ, gl_mutable = (mut \<noteq> 0), gl_init = init\<rparr>, r))))"

definition read_export :: "export_entry rd" where
  "read_export r =
     bindE (rd_name r) (\<lambda>(name, r).
     bindE (rd_byte r) (\<lambda>(kind, r).
     bindE (rd_u32 r) (\<lambda>(index, r).
       Inr (\<lparr>ex_name = name, ex_kind = kind, ex_index = index\<rparr>, r))))"

text \<open>The four conditions an element segment's flags decide.\<close>

definition hasExplicitTable :: "nat \<Rightarrow> bool" where
  "hasExplicitTable flags \<longleftrightarrow> flags AND 0x02 \<noteq> 0 \<and> flags AND 0x01 = 0"

definition isActive :: "nat \<Rightarrow> bool" where
  "isActive flags \<longleftrightarrow> flags AND 0x01 = 0"

definition usesExprs :: "nat \<Rightarrow> bool" where
  "usesExprs flags \<longleftrightarrow> flags AND 0x04 \<noteq> 0"

definition hasKindByte :: "nat \<Rightarrow> bool" where
  "hasKindByte flags \<longleftrightarrow> flags \<noteq> 0 \<and> flags \<noteq> 4"

definition rd_when :: "bool \<Rightarrow> 'a rd \<Rightarrow> 'a option rd" where
  "rd_when c item r = (if c then bindE (item r) (\<lambda>(x, r). Inr (Some x, r)) else Inr (None, r))"

definition read_payload :: "nat \<Rightarrow> nat \<Rightarrow> (nat list \<times> byte list option) rd" where
  "read_payload flags elemCount r =
     (if usesExprs flags then
        bindE (rd_times elemCount rd_until_end r) (\<lambda>(_, r').
          Inr (([], Some (rd_slice r (rd_pos r) (rd_pos r'))), r'))
      else bindE (rd_times elemCount rd_u32 r) (\<lambda>(funcIndices, r). Inr ((funcIndices, None), r)))"

definition read_element :: "element_entry rd" where
  "read_element r =
     bindE (rd_u32 r) (\<lambda>(flags, r).
     bindE (rd_when (hasExplicitTable flags) rd_u32 r) (\<lambda>(tableIdx, r).
     bindE (rd_when (isActive flags) rd_expr r) (\<lambda>(offsetExpr, r).
     bindE (rd_when (hasKindByte flags) rd_byte r) (\<lambda>(kindByte, r).
     bindE (rd_u32 r) (\<lambda>(elemCount, r).
     bindE (read_payload flags elemCount r) (\<lambda>((funcIndices, elemExprs), r).
       Inr (\<lparr>el_flags = flags, el_tableIdx = (case tableIdx of None \<Rightarrow> 0 | Some i \<Rightarrow> i), el_offsetExpr = offsetExpr,
             el_funcIndices = funcIndices, el_elemCount = elemCount, el_kindByte = kindByte,
             el_elemExprs = elemExprs\<rparr>, r)))))))"

definition read_local :: "(nat \<times> nat) rd" where
  "read_local r = bindE (rd_u32 r) (\<lambda>(lcount, r). bindE (rd_byte r) (\<lambda>(ltype, r). Inr ((lcount, ltype), r)))"

definition read_code :: "code_entry rd" where
  "read_code r =
     bindE (rd_u32 r) (\<lambda>(bodySize, r).
       let bodyEnd = rd_pos r + bodySize in
       bindE (rd_u32 r) (\<lambda>(localDeclCount, r).
       bindE (rd_times localDeclCount read_local r) (\<lambda>(locals, r).
         Inr (\<lparr>cd_locals = locals, cd_body = rd_slice r (rd_pos r) bodyEnd\<rparr>, seek bodyEnd r))))"

definition read_tag :: "tag_entry rd" where
  "read_tag r =
     bindE (rd_byte r) (\<lambda>(attribute, r).
     bindE (rd_u32 r) (\<lambda>(typeIdx, r). Inr (\<lparr>tg_attribute = attribute, tg_typeIdx = typeIdx\<rparr>, r)))"

definition read_symbol :: "symbol_info rd" where
  "read_symbol r =
     bindE (rd_byte r) (\<lambda>(kind, r).
     bindE (rd_u32 r) (\<lambda>(flags, r).
       if kind \<in> {SYMTAB_FUNCTION, SYMTAB_GLOBAL, SYMTAB_EVENT, SYMTAB_TABLE} then
         bindE (rd_u32 r) (\<lambda>(index, r).
         bindE (rd_when (\<not> flagged flags SYMBOL_UNDEFINED \<or> flagged flags SYMBOL_EXPLICIT_NAME) rd_name r) (\<lambda>(name, r).
           Inr (\<lparr>sy_kind = kind, sy_name = (case name of None \<Rightarrow> [] | Some n \<Rightarrow> n), sy_index = index,
                 sy_flags = flags\<rparr>, r)))
       else if kind = SYMTAB_DATA then
         bindE (rd_name r) (\<lambda>(name, r).
           if \<not> flagged flags SYMBOL_UNDEFINED then
             bindE (rd_u32 r) (\<lambda>(index, r).
             bindE (rd_u32 r) (\<lambda>(_, r).
             bindE (rd_u32 r) (\<lambda>(_, r).
               Inr (\<lparr>sy_kind = kind, sy_name = name, sy_index = index, sy_flags = flags\<rparr>, r))))
           else Inr (\<lparr>sy_kind = kind, sy_name = name, sy_index = 0, sy_flags = flags\<rparr>, r))
       else if kind = SYMTAB_SECTION then
         bindE (rd_u32 r) (\<lambda>(index, r).
           Inr (\<lparr>sy_kind = kind, sy_name = [], sy_index = index, sy_flags = flags\<rparr>, r))
       else Inl (UnknownSymbolKind kind)))"

definition read_reloc :: "reloc_entry rd" where
  "read_reloc r =
     bindE (rd_byte r) (\<lambda>(typ, r).
     bindE (rd_u32 r) (\<lambda>(offset, r).
     bindE (rd_u32 r) (\<lambda>(symbolIndex, r).
     bindE (rd_when (typ \<in> set RELOC_HAS_ADDEND) rd_i32 r) (\<lambda>(addend, r).
       Inr (\<lparr>rl_type = typ, rl_offset = offset, rl_symbolIndex = symbolIndex, rl_addend = addend\<rparr>, r)))))"

text \<open>A section that is a counted vector of items appended to one field of the object.\<close>

definition rd_vector :: "'a rd \<Rightarrow> 'a list rd" where
  "rd_vector item r = bindE (rd_u32 r) (\<lambda>(count, r). rd_times count item r)"

definition parseTypeSection :: "parsed_object \<Rightarrow> parsed_object rd" where
  "parseTypeSection obj r = bindE (rd_vector read_type r) (\<lambda>(xs, r). Inr (obj\<lparr>ob_types := ob_types obj @ xs\<rparr>, r))"

definition parseImportSection :: "parsed_object \<Rightarrow> parsed_object rd" where
  "parseImportSection obj r = bindE (rd_vector read_import r) (\<lambda>(xs, r). Inr (obj\<lparr>ob_imports := ob_imports obj @ xs\<rparr>, r))"

definition parseFunctionSection :: "parsed_object \<Rightarrow> parsed_object rd" where
  "parseFunctionSection obj r = bindE (rd_vector rd_u32 r) (\<lambda>(xs, r). Inr (obj\<lparr>ob_functions := ob_functions obj @ xs\<rparr>, r))"

definition parseTableSection :: "parsed_object \<Rightarrow> parsed_object rd" where
  "parseTableSection obj r = bindE (rd_vector read_table r) (\<lambda>(xs, r). Inr (obj\<lparr>ob_tables := ob_tables obj @ xs\<rparr>, r))"

definition parseMemorySection :: "parsed_object \<Rightarrow> parsed_object rd" where
  "parseMemorySection obj r = bindE (rd_vector read_memory r) (\<lambda>(xs, r). Inr (obj\<lparr>ob_memories := ob_memories obj @ xs\<rparr>, r))"

definition parseGlobalSection :: "parsed_object \<Rightarrow> parsed_object rd" where
  "parseGlobalSection obj r = bindE (rd_vector read_global r) (\<lambda>(xs, r). Inr (obj\<lparr>ob_globals := ob_globals obj @ xs\<rparr>, r))"

definition parseExportSection :: "parsed_object \<Rightarrow> parsed_object rd" where
  "parseExportSection obj r = bindE (rd_vector read_export r) (\<lambda>(xs, r). Inr (obj\<lparr>ob_exports := ob_exports obj @ xs\<rparr>, r))"

definition parseElementSection :: "parsed_object \<Rightarrow> parsed_object rd" where
  "parseElementSection obj r = bindE (rd_vector read_element r) (\<lambda>(xs, r). Inr (obj\<lparr>ob_elements := ob_elements obj @ xs\<rparr>, r))"

definition parseCodeSection :: "parsed_object \<Rightarrow> parsed_object rd" where
  "parseCodeSection obj r = bindE (rd_vector read_code r) (\<lambda>(xs, r). Inr (obj\<lparr>ob_code := ob_code obj @ xs\<rparr>, r))"

definition parseTagSection :: "parsed_object \<Rightarrow> parsed_object rd" where
  "parseTagSection obj r = bindE (rd_vector read_tag r) (\<lambda>(xs, r). Inr (obj\<lparr>ob_tags := ob_tags obj @ xs\<rparr>, r))"

definition parseSymbolTable :: "parsed_object \<Rightarrow> parsed_object rd" where
  "parseSymbolTable obj r = bindE (rd_vector read_symbol r) (\<lambda>(xs, r). Inr (obj\<lparr>ob_symbols := ob_symbols obj @ xs\<rparr>, r))"

definition parseRelocSection :: "js_string \<Rightarrow> parsed_object \<Rightarrow> parsed_object rd" where
  "parseRelocSection sectionName obj r =
     bindE (rd_u32 r) (\<lambda>(_, r).
     bindE (rd_vector read_reloc r) (\<lambda>(entries, r).
       Inr (obj\<lparr>ob_relocations := AList.update sectionName entries (ob_relocations obj)\<rparr>, r)))"

section \<open>The cursor never goes back\<close>

definition moves_on :: "'a rd \<Rightarrow> bool" where
  "moves_on f \<longleftrightarrow> (\<forall>r x r'. f r = Inr (x, r') \<longrightarrow> rd_data r' = rd_data r \<and> rd_pos r \<le> rd_pos r')"

named_theorems moves \<open>parsers that only move forward\<close>

lemma moves_onD: "moves_on f \<Longrightarrow> f r = Inr (x, r') \<Longrightarrow> rd_data r' = rd_data r \<and> rd_pos r \<le> rd_pos r'"
  by (simp add: moves_on_def)

lemma moves_Inr [moves]: "moves_on (\<lambda>r. Inr (x, r))"
  by (simp add: moves_on_def)

lemma moves_Inl [moves]: "moves_on (\<lambda>r. Inl e)"
  by (simp add: moves_on_def)

lemma moves_bind [moves]: "moves_on f \<Longrightarrow> (\<And>x. moves_on (g x)) \<Longrightarrow> moves_on (\<lambda>r. bindE (f r) (\<lambda>(x, r). g x r))"
  unfolding moves_on_def by (fastforce simp: bindE_eq_Inr)

lemma moves_if [moves]: "moves_on f \<Longrightarrow> moves_on g \<Longrightarrow> moves_on (\<lambda>r. if c then f r else g r)"
  by (cases c) simp_all

lemma moves_byte [moves]: "moves_on rd_byte"
  by (auto simp: moves_on_def seek_def dest: rd_byteD)

lemma moves_bytes [moves]: "moves_on (rd_bytes n)"
  by (auto simp: moves_on_def rd_bytes_def seek_def split: if_splits)

lemma moves_prod [moves]: "(\<And>a b. moves_on (g a b)) \<Longrightarrow> moves_on (case_prod g p)"
  by (cases p) simp

lemma leb_loop_moves:
  "leb_loop result shift r = Inr (x, r') \<Longrightarrow> rd_data r' = rd_data r \<and> rd_pos r < rd_pos r'"
proof (induction result shift r rule: leb_loop.induct)
  case (1 result shift r)
  from "1.prems" obtain b r1 where b: "rd_byte r = Inr (b, r1)"
    by (subst (asm) leb_loop.simps) (auto simp: bindE_eq_Inr)
  then have r1: "rd_data r1 = rd_data r" "rd_pos r < rd_pos r1" using rd_byteD [OF b] by (auto simp: seek_def)
  show ?case
  proof (cases "b AND 0x80 = 0")
    case True
    with "1.prems" b r1 show ?thesis by (subst (asm) leb_loop.simps) (auto simp: Let_def)
  next
    case False
    with "1.prems" b have "leb_loop (result OR push_bit (shift mod 32) (word_of_nat b AND 0x7f)) (shift + 7) r1 = Inr (x, r')"
      by (subst (asm) leb_loop.simps) (auto simp: Let_def)
    with "1.IH" [OF b refl refl refl False] r1 show ?thesis by auto
  qed
qed

lemma rd_u32_moves: "rd_u32 r = Inr (x, r') \<Longrightarrow> rd_data r' = rd_data r \<and> rd_pos r < rd_pos r'"
  by (auto simp: rd_u32_def bindE_eq_Inr dest: leb_loop_moves)

lemma moves_u32 [moves]: "moves_on rd_u32"
  by (auto simp: moves_on_def dest!: rd_u32_moves)

lemma moves_i32 [moves]: "moves_on rd_i32"
  by (auto simp: moves_on_def rd_i32_def bindE_eq_Inr dest!: leb_loop_moves)

lemma moves_name [moves]: "moves_on rd_name"
  unfolding rd_name_def [abs_def] by (intro moves)

lemma moves_times [moves]: "moves_on item \<Longrightarrow> moves_on (rd_times n item)"
proof (induction n)
  case (Suc n)
  then show ?case unfolding rd_times.simps [abs_def] by (intro moves)
qed (simp add: moves_on_def)

lemma rd_until_end_moves: "rd_until_end r = Inr (x, r') \<Longrightarrow> rd_data r' = rd_data r \<and> rd_pos r < rd_pos r'"
proof (induction r rule: rd_until_end.induct)
  case (1 r)
  then obtain b r1 where b: "rd_byte r = Inr (b, r1)"
    by (subst (asm) (2) rd_until_end.simps) (auto simp: bindE_eq_Inr)
  then have r1: "rd_data r1 = rd_data r" "rd_pos r < rd_pos r1" using rd_byteD [OF b] by (auto simp: seek_def)
  show ?case
  proof (cases "b = 0x0b")
    case True
    with "1.prems" b r1 show ?thesis by (subst (asm) rd_until_end.simps) auto
  next
    case False
    with "1.prems" b have "rd_until_end r1 = Inr (x, r')" by (subst (asm) rd_until_end.simps) auto
    with "1.IH" [OF b refl False] r1 show ?thesis by auto
  qed
qed

lemma moves_until_end [moves]: "moves_on rd_until_end"
  by (auto simp: moves_on_def dest!: rd_until_end_moves)

lemma moves_slice: "moves_on f \<Longrightarrow> moves_on (\<lambda>r. bindE (f r) (\<lambda>(_, r'). Inr (g r r', r')))"
  by (fastforce simp: moves_on_def bindE_eq_Inr)

lemma moves_expr [moves]: "moves_on rd_expr"
  unfolding rd_expr_def [abs_def] by (intro moves_slice moves)

lemma moves_when [moves]: "moves_on f \<Longrightarrow> moves_on (rd_when c f)"
  unfolding rd_when_def [abs_def] by (intro moves)

lemma moves_vector [moves]: "moves_on f \<Longrightarrow> moves_on (rd_vector f)"
  unfolding rd_vector_def [abs_def] by (intro moves)

lemma moves_symbol [moves]: "moves_on read_symbol"
  unfolding read_symbol_def [abs_def] by (intro moves)

lemma moves_symbols [moves]: "moves_on (parseSymbolTable obj)"
  unfolding parseSymbolTable_def [abs_def] by (intro moves)

section \<open>The linking section and the whole object\<close>

function linking_loop :: "nat \<Rightarrow> parsed_object \<Rightarrow> parsed_object rd" where
  "linking_loop end obj r =
     (if rd_pos r < end then
        bindE (rd_byte r) (\<lambda>(subsectionType, r1).
        bindE (rd_u32 r1) (\<lambda>(subsectionSize, r2).
          if subsectionType = WASM_SYMBOL_TABLE then
            bindE (parseSymbolTable obj r2) (\<lambda>(obj, r3). linking_loop end obj r3)
          else linking_loop end obj (seek (rd_pos r2 + subsectionSize) r2)))
      else Inr (obj, r))"
  by pat_completeness auto
termination
proof (relation "measure (\<lambda>(end, _, r). end - rd_pos r)", goal_cases)
  case (2 "end" obj r p st r1 q sz r2 u obj' r3)
  then show ?case using moves_onD [OF moves_symbols, of obj r2 obj' r3] rd_u32_moves [of r1 sz r2]
    by (auto dest!: rd_byteD simp: seek_def)
next
  case (3 "end" obj r p st r1 q sz r2)
  then show ?case using rd_u32_moves [of r1 sz r2] by (auto dest!: rd_byteD simp: seek_def)
qed simp

declare linking_loop.simps [simp del]

definition parseLinkingSection :: "nat \<Rightarrow> parsed_object \<Rightarrow> parsed_object rd" where
  "parseLinkingSection end obj r =
     bindE (rd_u32 r) (\<lambda>(version, r).
       if version \<noteq> 2 then Inl (UnsupportedLinkingVersion version) else linking_loop end obj r)"

definition parseCustomSection :: "nat \<Rightarrow> parsed_object \<Rightarrow> parsed_object rd" where
  "parseCustomSection end obj r =
     bindE (rd_name r) (\<lambda>(sectionName, r).
       if sectionName = str ''linking'' then parseLinkingSection end obj r
       else if startsWith_at sectionName (str ''reloc.'') 0 then parseRelocSection sectionName obj r
       else Inr (obj, seek end r))"

definition parse_section :: "nat \<Rightarrow> nat \<Rightarrow> parsed_object \<Rightarrow> parsed_object rd" where
  "parse_section sectionId sectionEnd obj r =
     (if sectionId = 0 then parseCustomSection sectionEnd obj r
      else if sectionId = 1 then parseTypeSection obj r
      else if sectionId = 2 then parseImportSection obj r
      else if sectionId = 3 then parseFunctionSection obj r
      else if sectionId = 4 then parseTableSection obj r
      else if sectionId = 5 then parseMemorySection obj r
      else if sectionId = 6 then parseGlobalSection obj r
      else if sectionId = 7 then parseExportSection obj r
      else if sectionId = 8 then Inr (obj, seek sectionEnd r)
      else if sectionId = 9 then parseElementSection obj r
      else if sectionId = 10 then parseCodeSection obj r
      else if sectionId = 11 then Inr (obj, seek sectionEnd r)
      else if sectionId = 13 then parseTagSection obj r
      else Inr (obj, seek sectionEnd r))"

text \<open>One turn of the section loop; the section parsers leave the data alone, so only the new position
  matters.\<close>

function sections_loop :: "parsed_object \<Rightarrow> reader \<Rightarrow> wasm_error + parsed_object" where
  "sections_loop obj r =
     (if remaining r > 0 then
        bindE (rd_byte r) (\<lambda>(sectionId, r1).
        bindE (rd_u32 r1) (\<lambda>(sectionSize, r2).
          let sectionEnd = rd_pos r2 + sectionSize in
          bindE (parse_section sectionId sectionEnd obj r2) (\<lambda>(obj, _).
            sections_loop obj (seek sectionEnd r2))))
      else Inr obj)"
  by pat_completeness auto
termination
proof (relation "measure (\<lambda>(_, r). length (rd_data r) - rd_pos r)", goal_cases)
  case (2 obj r p sid r1 q sz r2 x y obj' r3)
  then show ?case using rd_u32_moves [of r1 sz r2] by (auto dest!: rd_byteD simp: seek_def)
qed simp

declare sections_loop.simps [simp del]

definition empty_object :: "js_string \<Rightarrow> parsed_object" where
  "empty_object name =
     \<lparr>ob_name = name, ob_types = [], ob_imports = [], ob_functions = [], ob_tables = [], ob_memories = [],
      ob_globals = [], ob_exports = [], ob_elements = [], ob_tags = [], ob_code = [], ob_symbols = [],
      ob_relocations = []\<rparr>"

definition parseObject :: "js_string \<Rightarrow> byte list \<Rightarrow> wasm_error + parsed_object" where
  "parseObject name bytes =
     bindE (rd_bytes 4 (new_reader bytes)) (\<lambda>(magic, r).
     if magic \<noteq> [0x00, 0x61, 0x73, 0x6d] then Inl (InvalidMagic name)
     else
       bindE (rd_bytes 4 r) (\<lambda>(version, r).
       if version \<noteq> [0x01, 0x00, 0x00, 0x00] then Inl (UnsupportedVersion name)
       else sections_loop (empty_object name) r))"

end
