(* ===== verification/Wasm_Codec.thy ===== *)
theory Wasm_Codec
  imports Wasm_Reader
begin

text \<open>
  What the encoder writes the reader reads back. \<open>reads\<close> relates a parser to the bytes it accepts for a
  value; the locale \<open>codec\<close> pairs a writer with its reader, and vectors and length-prefixed sections of a
  codec's items are derived from it once.
\<close>

section \<open>Bytes a parser accepts\<close>

definition reads :: "'a rd \<Rightarrow> byte list \<Rightarrow> 'a \<Rightarrow> bool" where
  "reads get bs x \<longleftrightarrow>
     (\<forall>pre rest. get \<lparr>rd_data = pre @ bs @ rest, rd_pos = length pre\<rparr> =
        Inr (x, \<lparr>rd_data = pre @ bs @ rest, rd_pos = length pre + length bs\<rparr>))"

named_theorems reads_intro \<open>introduction rules for \<^term>\<open>reads\<close>\<close>

lemma readsD: "reads get bs x \<Longrightarrow> get \<lparr>rd_data = pre @ bs @ rest, rd_pos = length pre\<rparr> =
    Inr (x, \<lparr>rd_data = pre @ bs @ rest, rd_pos = length pre + length bs\<rparr>)"
  by (simp add: reads_def)

lemma reads_Inr [reads_intro]: "reads (\<lambda>r. Inr (x, r)) [] x"
  by (simp add: reads_def)

lemma reads_bind [reads_intro]:
  assumes "reads f as x" "reads (g x) bs y"
  shows "reads (\<lambda>r. bindE (f r) (\<lambda>(x, r). g x r)) (as @ bs) y"
  unfolding reads_def
proof (intro allI)
  fix pre rest
  show "bindE (f \<lparr>rd_data = pre @ (as @ bs) @ rest, rd_pos = length pre\<rparr>) (\<lambda>(x, r). g x r) =
      Inr (y, \<lparr>rd_data = pre @ (as @ bs) @ rest, rd_pos = length pre + length (as @ bs)\<rparr>)"
    using readsD [OF assms(1), of pre "bs @ rest"] readsD [OF assms(2), of "pre @ as" rest] by (simp add: add.assoc)
qed

lemma reads_byte [reads_intro]: "reads rd_byte [w] (unat w)"
  by (simp add: reads_def rd_byte_def nth_opt_def)

lemma reads_bytes [reads_intro]: "reads (rd_bytes (length bs)) bs bs"
  by (simp add: reads_def rd_bytes_def rd_slice_def seek_def)

lemma reads_bind_Nil: "reads f as x \<Longrightarrow> reads (g x) [] y \<Longrightarrow> reads (\<lambda>r. bindE (f r) (\<lambda>(x, r). g x r)) as y"
  using reads_bind [of f as x g "[]" y] by simp

lemma reads_bind_byte: "reads (g (unat w)) bs y \<Longrightarrow> reads (\<lambda>r. bindE (rd_byte r) (\<lambda>(x, r). g x r)) (w # bs) y"
  using reads_bind [OF reads_byte, of g w bs y] by simp

lemma reads_times:
  "list_all2 (reads item) bss xs \<Longrightarrow> reads (rd_times (length xs) item) (concat bss) xs"
proof (induction rule: list_all2_induct)
  case Nil
  show ?case by (simp add: reads_def)
next
  case (Cons bs bss x xs)
  note rest = reads_bind_Nil [OF Cons.IH, where g = "\<lambda>xs r. Inr (x # xs, r)", OF reads_Inr]
  then show ?case
    using reads_bind [where g = "\<lambda>x r. bindE (rd_times (length xs) item r) (\<lambda>(xs, r). Inr (x # xs, r))", OF Cons.hyps(1) rest]
    by (simp add: rd_times.simps(2) [abs_def])
qed

section \<open>LEB128\<close>

text \<open>Reading seven more bits of a value whose low \<open>sh\<close> bits have been read.\<close>

lemma leb_chunk:
  "word_of_int (take_bit sh v) OR push_bit sh (word_of_int (drop_bit sh v mod 128)) = (word_of_int (take_bit (sh + 7) v) :: 32 word)"
proof -
  have "drop_bit sh v mod 128 = take_bit 7 (drop_bit sh v)" by (simp add: take_bit_eq_mod)
  then show ?thesis by (intro bit_word_eqI) (auto simp: bit_simps)
qed

lemma byte_of: "0 \<le> b \<Longrightarrow> b < 256 \<Longrightarrow> unat (word_of_int b :: byte) = nat b"
  by (simp add: unsigned_of_int take_bit_int_eq_self)

lemma more_bit: "b AND 0x80 \<noteq> 0 \<longleftrightarrow> 128 \<le> b" if "b < 256" for b :: nat
proof -
  have "b AND 0x80 \<noteq> 0 \<longleftrightarrow> odd (b div 128)"
    using and_exp_eq_0_iff_not_bit [of b 7] by (simp add: bit_iff_odd)
  also have "b div 128 = (if 128 \<le> b then 1 else 0)" using that by auto
  finally show ?thesis by (simp split: if_splits)
qed

lemma sign_bit: "b AND 0x40 \<noteq> 0 \<longleftrightarrow> 64 \<le> b" if "b < 128" for b :: nat
proof -
  have "b AND 0x40 \<noteq> 0 \<longleftrightarrow> odd (b div 64)"
    using and_exp_eq_0_iff_not_bit [of b 6] by (simp add: bit_iff_odd)
  also have "b div 64 = (if 64 \<le> b then 1 else 0)" using that by auto
  finally show ?thesis by (simp split: if_splits)
qed

lemma low_seven: "word_of_nat b AND 0x7f = (word_of_int (int b mod 128) :: 32 word)"
proof -
  have "word_of_nat b AND 0x7f = take_bit 7 (word_of_nat b :: 32 word)"
    unfolding take_bit_eq_mask by (simp add: mask_eq_exp_minus_1)
  moreover have "int b mod 128 = take_bit 7 (int b)" by (simp add: take_bit_eq_mod)
  ultimately show ?thesis by (simp only:, intro bit_word_eqI) (auto simp: bit_simps)
qed

lemma leb_loop_last:
  assumes "sh < 32" "c = drop_bit sh v mod 128"
  shows "reads (leb_loop (word_of_int (take_bit sh v)) sh) [word_of_int c]
    (word_of_int (take_bit (sh + 7) v), sh + 7, nat c)"
proof -
  have c: "0 \<le> c" "c < 128" using assms(2) by simp_all
  then have b: "unat (word_of_int c :: byte) = nat c" by (simp add: byte_of)
  have last: "\<not> nat c AND 0x80 \<noteq> 0" using more_bit [of "nat c"] c by simp
  have chunk: "word_of_int (take_bit sh v) OR push_bit (sh mod 32) (word_of_nat (nat c) AND 0x7f) =
      (word_of_int (take_bit (sh + 7) v) :: 32 word)"
    unfolding low_seven using leb_chunk [of sh v] assms c by simp
  show ?thesis
    by (subst leb_loop.simps [abs_def]) (rule reads_bind_byte, simp only: b Let_def last chunk if_False reads_Inr)
qed

lemma leb_loop_more:
  assumes "sh < 32" "c = drop_bit sh v mod 128"
    and "reads (leb_loop (word_of_int (take_bit (sh + 7) v)) (sh + 7)) bs y"
  shows "reads (leb_loop (word_of_int (take_bit sh v)) sh) (word_of_int (128 + c) # bs) y"
proof -
  have c: "0 \<le> c" "c < 128" using assms(2) by simp_all
  then have b: "unat (word_of_int (128 + c) :: byte) = nat (128 + c)" by (intro byte_of) simp_all
  have more: "nat (128 + c) AND 0x80 \<noteq> 0" using more_bit [of "nat (128 + c)"] c by simp
  have "int (nat (128 + c)) mod 128 = c" using c by simp
  then have chunk: "word_of_int (take_bit sh v) OR push_bit (sh mod 32) (word_of_nat (nat (128 + c)) AND 0x7f) =
      (word_of_int (take_bit (sh + 7) v) :: 32 word)"
    unfolding low_seven using leb_chunk [of sh v] assms by simp
  show ?thesis
    by (subst leb_loop.simps [abs_def]) (rule reads_bind_byte, simp only: b Let_def more chunk if_True assms(3) not_False_eq_True)
qed

lemma drop_bit_bound: "drop_bit sh v < 128 \<longleftrightarrow> v < 2 ^ (sh + 7)" for v :: int
proof -
  define p q r :: int where "p = 2 ^ sh" and "q = v div p" and "r = v mod p"
  have p: "0 < p" by (simp add: p_def)
  have v: "v = q * p + r" "0 \<le> r" "r < p" using p by (simp_all add: q_def r_def)
  have "q < 128 \<Longrightarrow> q * p \<le> 127 * p" "128 \<le> q \<Longrightarrow> 128 * p \<le> q * p" using p by (intro mult_right_mono; simp)+
  with v have "q < 128 \<longleftrightarrow> v < p * 128" by linarith
  then show ?thesis by (simp add: drop_bit_eq_div power_add q_def p_def)
qed

lemma leb_loop_uleb:
  assumes "n = nat (drop_bit sh v)" "sh < 32" "0 \<le> v" "v < 2 ^ 32"
  shows "\<exists>s b. reads (leb_loop (word_of_int (take_bit sh v)) sh) (uleb n) (word_of_int v, s, b)"
  using assms(1,2)
proof (induction n arbitrary: sh rule: uleb.induct)
  case (1 n)
  let ?q = "drop_bit sh v"
  have q: "0 \<le> ?q" using assms(3) by simp
  show ?case
  proof (cases "n < 128")
    case True
    then have "uleb n = [word_of_int (?q mod 128)]" using q "1.prems" by (simp add: uleb.simps)
    moreover have "take_bit (sh + 7) v = v"
      using True "1.prems" q assms(3) drop_bit_bound [of sh v] by (simp add: take_bit_int_eq_self nat_less_iff)
    ultimately show ?thesis using leb_loop_last [OF "1.prems"(2) refl, of v] by auto
  next
    case False
    then have "2 ^ (sh + 7) \<le> v" using "1.prems" drop_bit_bound [of sh v] by auto
    then have sh: "sh + 7 < 32"
      using assms(4) by (meson le_less_trans not_le one_less_numeral_iff power_increasing_iff power_strict_increasing_iff semiring_norm(76))
    have "nat (drop_bit (sh + 7) v) = n div 128"
      using "1.prems" q by (simp add: drop_bit_eq_div power_add zdiv_zmult2_eq nat_div_distrib)
    from "1.IH" [OF False this [symmetric] sh] obtain s b
      where "reads (leb_loop (word_of_int (take_bit (sh + 7) v)) (sh + 7)) (uleb (n div 128)) (word_of_int v, s, b)" by blast
    moreover have "uleb n = word_of_int (128 + ?q mod 128) # uleb (n div 128)"
    proof -
      have "int (n mod 128) = ?q mod 128" using "1.prems" q by (simp add: of_nat_mod)
      then have "word_of_nat (128 + n mod 128) = (word_of_int (128 + ?q mod 128) :: byte)"
        by (metis of_int_of_nat_eq of_nat_add of_nat_numeral)
      then show ?thesis using False by (subst uleb.simps) simp
    qed
    ultimately show ?thesis using leb_loop_more [OF "1.prems"(2) refl] by metis
  qed
qed

lemma reads_u32 [reads_intro]:
  assumes "n < 2 ^ 32"
  shows "reads rd_u32 (uleb n) n"
proof -
  obtain s b where r: "reads (leb_loop 0 0) (uleb n) (word_of_int (int n), s, b)"
    using leb_loop_uleb [of n 0 "int n"] assms by auto
  have "unat (word_of_nat n :: 32 word) = n" using assms by (simp add: unat_of_nat take_bit_nat_eq_self)
  then show ?thesis
    unfolding rd_u32_def [abs_def] by (intro reads_bind_Nil [OF r]) (simp add: reads_Inr)
qed

text \<open>The signed reader: the bits above the last byte read are copies of its sign bit.\<close>

definition sign_extend :: "32 word \<times> nat \<times> nat \<Rightarrow> 32 word" where
  "sign_extend = (\<lambda>(result, shift, b).
     if shift < 32 \<and> b AND 0x40 \<noteq> 0 then result OR - push_bit shift 1 else result)"

lemma sign_extend_last:
  assumes "- 64 \<le> drop_bit sh v" "drop_bit sh v < 64"
  shows "sign_extend (word_of_int (take_bit (sh + 7) v), sh + 7, nat (drop_bit sh v mod 128)) = word_of_int v"
proof -
  let ?q = "drop_bit sh v"
  have mod: "?q mod 128 = (if 0 \<le> ?q then ?q else ?q + 128)"
    using assms int_mod_pos_eq [of ?q 128 "- 1" "?q + 128"] by auto
  have "nat (?q mod 128) < 128" by simp
  then have sign: "nat (?q mod 128) AND 0x40 \<noteq> 0 \<longleftrightarrow> ?q < 0"
    using sign_bit [of "nat (?q mod 128)"] mod assms by (auto split: if_splits)
  have high: "bit v i \<longleftrightarrow> ?q < 0" if "sh + 7 \<le> i" for i
  proof -
    have "(2::int) ^ 6 \<le> 2 ^ (i - sh)" using that by (intro power_increasing) simp_all
    then have "?q div 2 ^ (i - sh) = (if ?q < 0 then - 1 else 0)"
      using assms int_div_pos_eq [of ?q "2 ^ (i - sh)" "- 1" "?q + 2 ^ (i - sh)"] by auto
    moreover have "bit v i = bit ?q (i - sh)" using that by (simp add: bit_drop_bit_eq)
    ultimately show ?thesis by (simp add: bit_iff_odd)
  qed
  show ?thesis
  proof (rule bit_word_eqI)
    fix i assume i: "i < LENGTH(32)"
    have "- push_bit (sh + 7) (1 :: 32 word) = NOT (mask (sh + 7))"
      by (simp add: push_bit_eq_mult minus_exp_eq_not_mask)
    then have "bit (- push_bit (sh + 7) (1 :: 32 word)) i \<longleftrightarrow> sh + 7 \<le> i"
      using i by (simp only: bit_not_iff bit_mask_iff) (auto simp: bit_simps)
    moreover have "bit (word_of_int (take_bit (sh + 7) v) :: 32 word) i \<longleftrightarrow> i < sh + 7 \<and> bit v i"
      "bit (word_of_int v :: 32 word) i \<longleftrightarrow> bit v i"
      using i by (auto simp: bit_word_of_int_iff bit_take_bit_iff)
    ultimately show "bit (sign_extend (word_of_int (take_bit (sh + 7) v), sh + 7, nat (?q mod 128))) i =
        bit (word_of_int v :: 32 word) i"
      using high [of i] sign i unfolding sign_extend_def
      by (cases "sh + 7 \<le> i") (auto simp: bit_or_iff)
  qed
qed

lemma div_bounds:
  fixes p k v :: int
  assumes "0 < p" "- (k * p) \<le> v" "v < k * p"
  shows "- k \<le> v div p" "v div p < k"
proof -
  define q r where "q = v div p" and "r = v mod p"
  have v: "v = q * p + r" "0 \<le> r" "r < p" using assms(1) by (simp_all add: q_def r_def)
  have "q < - k \<Longrightarrow> q * p \<le> (- k - 1) * p" "k \<le> q \<Longrightarrow> k * p \<le> q * p"
    using assms(1) by (intro mult_right_mono; simp)+
  moreover have "(- k - 1) * p = - (k * p) - p" by (simp add: algebra_simps)
  ultimately show "- k \<le> v div p" "v div p < k" unfolding q_def [symmetric] using v assms by linarith+
qed

lemma leb_loop_sleb:
  assumes "q = drop_bit sh v" "sh < 32" "- (2 ^ 31) \<le> v" "v < 2 ^ 31"
  shows "\<exists>y. reads (leb_loop (word_of_int (take_bit sh v)) sh) (sleb q) y \<and> sign_extend y = word_of_int v"
  using assms(1,2)
proof (induction q arbitrary: sh rule: sleb.induct)
  case (1 q)
  show ?case
  proof (cases "- 64 \<le> q \<and> q < 64")
    case True
    then have "sleb q = [word_of_int (drop_bit sh v mod 128)]" using "1.prems" by (simp add: sleb.simps)
    then show ?thesis
      using leb_loop_last [OF "1.prems"(2) refl, of v] sign_extend_last [of sh v] True "1.prems" by auto
  next
    case False
    have sh: "sh + 7 < 32"
    proof (rule ccontr)
      assume "\<not> sh + 7 < 32"
      then have "(2::int) ^ 31 \<le> 2 ^ sh * 64" using power_increasing [of 25 sh "2::int"] by simp
      then have "v div 2 ^ sh < 64" "- 64 \<le> v div 2 ^ sh" 
        using div_bounds [of "2 ^ sh" 64 v] assms(3,4) by simp_all
      with False "1.prems" show False by (simp add: drop_bit_eq_div)
    qed
    have q: "q div 128 = drop_bit (sh + 7) v"
      using "1.prems" by (simp add: drop_bit_eq_div power_add zdiv_zmult2_eq)
    from "1.IH" [OF False this sh] obtain y
      where "reads (leb_loop (word_of_int (take_bit (sh + 7) v)) (sh + 7)) (sleb (q div 128)) y" "sign_extend y = word_of_int v"
      by blast
    moreover have "sleb q = word_of_int (128 + drop_bit sh v mod 128) # sleb (q div 128)"
      using False "1.prems" by (subst sleb.simps) auto
    ultimately show ?thesis using leb_loop_more [OF "1.prems"(2) refl] by metis
  qed
qed

lemma reads_i32 [reads_intro]:
  assumes "- (2 ^ 31) \<le> v" "v < 2 ^ 31"
  shows "reads rd_i32 (sleb v) v"
proof -
  obtain y where y: "reads (leb_loop 0 0) (sleb v) y" "sign_extend y = word_of_int v"
    using leb_loop_sleb [of v 0 v] assms by auto
  obtain result shift b where "y = (result, shift, b)" by (cases y)
  moreover have "sint (word_of_int v :: 32 word) = v"
    using assms by (simp add: signed_of_int signed_take_bit_int_eq_self)
  ultimately show ?thesis
    unfolding rd_i32_def [abs_def] using y(2)
    by (intro reads_bind_Nil [OF y(1)]) (simp add: reads_Inr sign_extend_def)
qed

lemma reads_name [reads_intro]:
  assumes "well_formed s" "s = [] \<or> hd s \<noteq> 0xfeff" "length (utf8_encode s) < 2 ^ 32"
  shows "reads rd_name (uleb (length (utf8_encode s)) @ utf8_encode s) s"
  unfolding rd_name_def [abs_def]
  by (intro reads_bind [OF reads_u32 [OF assms(3)]] reads_bind_Nil [OF reads_bytes])
    (simp add: utf8_round_trip [OF assms(1,2)] reads_Inr)

section \<open>Codecs\<close>

text \<open>A writer and a reader of the same encoding, on the values \<open>ok\<close> admits.\<close>

locale codec =
  fixes put :: "'a \<Rightarrow> encoder \<Rightarrow> wasm_error + encoder"
    and get :: "'a rd"
    and bytes_of :: "'a \<Rightarrow> byte list"
    and ok :: "'a \<Rightarrow> bool"
  assumes put_appends: "ok x \<Longrightarrow> appends (put x) (bytes_of x)"
    and get_reads: "ok x \<Longrightarrow> reads get (bytes_of x) x"
begin

text \<open>Whatever an encoder already holds and whatever follows, the reader recovers the value.\<close>

lemma round_trip:
  assumes "ok x" "enc_ok e"
  obtains e' where "put x e = Inr e'" "enc_ok e'"
    "\<And>rest. get \<lparr>rd_data = enc_finish e' @ rest, rd_pos = position e\<rparr> =
       Inr (x, \<lparr>rd_data = enc_finish e' @ rest, rd_pos = position e'\<rparr>)"
proof -
  from appendsD [OF put_appends [OF assms(1)] assms(2)] obtain e'
    where e': "put x e = Inr e'" "enc_ok e'" "written e' = written e @ bytes_of x" .
  have pos: "position e = length (written e)" "position e' = length (written e')"
    using assms(2) e'(2) by (simp_all add: position_def)
  have "get \<lparr>rd_data = enc_finish e' @ rest, rd_pos = position e\<rparr> =
      Inr (x, \<lparr>rd_data = enc_finish e' @ rest, rd_pos = position e'\<rparr>)" for rest
    using readsD [OF get_reads [OF assms(1)], of "written e" rest] e'(3) by (simp add: pos)
  with e'(1,2) that show thesis by blast
qed

lemma vector_appends:
  "list_all ok xs \<Longrightarrow> length xs < 2 ^ 32 \<Longrightarrow> appends (put_vector xs put) (uleb (length xs) @ concat (map bytes_of xs))"
  by (intro appends_vector put_appends) (auto simp: list_all_iff)

lemma vector_reads:
  assumes "list_all ok xs" "length xs < 2 ^ 32"
  shows "reads (rd_vector get) (uleb (length xs) @ concat (map bytes_of xs)) xs"
proof -
  have "list_all2 (reads get) (map bytes_of xs) xs"
    using assms(1) by (simp add: list_all2_map1 list.rel_refl_strong list_all_iff get_reads)
  then show ?thesis
    unfolding rd_vector_def [abs_def] by (intro reads_bind [OF reads_u32 [OF assms(2)]] reads_times)
qed

text \<open>A counted vector of a codec's items is a codec.\<close>

lemma vector_codec:
  "codec (\<lambda>xs. put_vector xs put) (rd_vector get) (\<lambda>xs. uleb (length xs) @ concat (map bytes_of xs))
     (\<lambda>xs. list_all ok xs \<and> length xs < 2 ^ 32)"
  by unfold_locales (simp_all add: vector_appends vector_reads)

end

text \<open>The encoder's operations and the reader's are codecs.\<close>

interpretation u32: codec "\<lambda>n. u32 (Integral (int n))" rd_u32 uleb "\<lambda>n. n < 2 ^ 32"
  by unfold_locales (auto intro: appends_u32 reads_u32)

interpretation i32: codec i32 rd_i32 sleb "\<lambda>v. - (2 ^ 31) \<le> v \<and> v < 2 ^ 31"
proof unfold_locales
  fix v :: int assume "- (2 ^ 31) \<le> v \<and> v < 2 ^ 31"
  then show "appends (i32 v) (sleb v)" "reads rd_i32 (sleb v) v"
    using appends_i32 [of v] toInt32_id [of v] reads_i32 [of v] by simp_all
qed

interpretation nm: codec put_name rd_name "\<lambda>s. uleb (length (utf8_encode s)) @ utf8_encode s"
  "\<lambda>s. well_formed s \<and> (s = [] \<or> hd s \<noteq> 0xfeff) \<and> length (utf8_encode s) < 2 ^ 32"
  by unfold_locales (auto intro: appends_name reads_name)

interpretation bt: codec "\<lambda>b. put_byte (int b)" rd_byte "\<lambda>b. [word_of_nat b]" "\<lambda>b. b < 256"
proof unfold_locales
  fix b :: nat assume "b < 256"
  then have "unat (word_of_nat b :: byte) = b" by (simp add: unat_of_nat take_bit_nat_eq_self)
  then show "reads rd_byte [word_of_nat b] b" using reads_byte [of "word_of_nat b"] by simp
qed (use appends_byte in \<open>metis of_int_of_nat_eq\<close>)

end
