(* ===== verification/Source_Map.thy ===== *)
theory Source_Map
  imports Js_Strings "HOL-Library.Word"
begin

unbundle bit_operations_syntax

text \<open>
  \<^verbatim>\<open>src/src/emit/sourcemap.ts\<close>: Base64 VLQ numbers and the delta-encoded mappings of a Source Map v3.
  The bitwise operators of JavaScript work on 32 bits, so the numbers are exact below \<^verbatim>\<open>2^31\<close>; within
  that bound decoding inverts encoding and the decoded mappings add up to the sorted entries.
\<close>

datatype vlq_error = InvalidVLQ nat

definition BASE64_CHARS :: js_string where
  "BASE64_CHARS = str ''ABCDEFGHIJKLMNOPQRSTUVWXYZabcdefghijklmnopqrstuvwxyz0123456789+/''"

section \<open>Variable-length quantities\<close>

definition vlq_of :: "int \<Rightarrow> 32 word" where
  "vlq_of value = (if value < 0 then push_bit 1 (word_of_int (- value)) OR 1 else push_bit 1 (word_of_int value))"

lemma drop_bit_5_less: "drop_bit 5 v \<noteq> 0 \<Longrightarrow> unat (drop_bit 5 v) < unat v" for v :: "'a::len word"
proof -
  assume "drop_bit 5 v \<noteq> 0"
  then have "v \<noteq> 0" by auto
  then have "0 < unat v" using unat_gt_0 by blast
  moreover have "unat (drop_bit 5 v) = unat v div 32" by (simp add: unat_drop_bit_eq) (simp add: drop_bit_eq_div)
  ultimately show ?thesis by (simp add: div_less_dividend)
qed

function encode_loop :: "32 word \<Rightarrow> js_string" where
  "encode_loop vlq =
     (let digit = vlq AND 0x1f; vlq' = drop_bit 5 vlq; digit = (if vlq' > 0 then digit OR 0x20 else digit) in
      BASE64_CHARS ! unat digit # (if vlq' > 0 then encode_loop vlq' else []))"
  by pat_completeness auto
termination by (relation "measure unat") (auto intro: drop_bit_5_less simp: word_gt_0)

declare encode_loop.simps [simp del]

definition encodeVLQ :: "int \<Rightarrow> js_string" where
  "encodeVLQ value = encode_loop (vlq_of value)"

text \<open>The loop of \<^verbatim>\<open>decodeVLQ\<close> returns the bits read and the unread rest.\<close>

fun decode_loop :: "32 word \<Rightarrow> nat \<Rightarrow> js_string \<Rightarrow> vlq_error + 32 word \<times> js_string" where
  "decode_loop vlq shift [] = Inr (vlq, [])"
| "decode_loop vlq shift (char # s) =
     (case indexOf BASE64_CHARS char 0 of
        None \<Rightarrow> Inl (InvalidVLQ char)
      | Some digit \<Rightarrow>
          let vlq = vlq OR push_bit (shift mod 32) (word_of_nat digit AND 0x1f) in
          if digit AND 0x20 \<noteq> 0 then decode_loop vlq (shift + 5) s else Inr (vlq, s))"

definition vlq_value :: "32 word \<Rightarrow> int" where
  "vlq_value vlq = (if vlq AND 1 = 1 then - uint (drop_bit 1 vlq) else uint (drop_bit 1 vlq))"

definition decodeVLQ :: "js_string \<Rightarrow> vlq_error + int \<times> js_string" where
  "decodeVLQ encoded = bindE (decode_loop 0 0 encoded) (\<lambda>(vlq, rest). Inr (vlq_value vlq, rest))"

lemma decode_loop_rest: "decode_loop vlq shift s = Inr (v, rest) \<Longrightarrow> length rest \<le> length s - 1"
proof (induction s arbitrary: vlq shift)
  case (Cons c s)
  show ?case
    using Cons.prems by (auto split: option.splits if_splits simp: Let_def dest!: Cons.IH)
qed simp

lemma decodeVLQ_rest: "decodeVLQ s = Inr (v, rest) \<Longrightarrow> s \<noteq> [] \<Longrightarrow> length rest < length s"
  by (cases s) (auto simp: decodeVLQ_def bindE_eq_Inr dest!: decode_loop_rest simp del: decode_loop.simps)

section \<open>Mappings\<close>

function decode_values :: "js_string \<Rightarrow> vlq_error + int list" where
  "decode_values remaining =
     (if remaining = [] then Inr []
      else bindE (decodeVLQ remaining) (\<lambda>(value, rest). bindE (decode_values rest) (\<lambda>vs. Inr (value # vs))))"
  by pat_completeness auto
termination by (relation "measure length") (auto dest: decodeVLQ_rest)

declare decode_values.simps [simp del]

definition decode_line :: "js_string \<Rightarrow> vlq_error + int list list" where
  "decode_line line =
     (if line = [] then Inr []
      else bindE (mapE decode_values (split_on (cu CHR '','') line)) (\<lambda>segs. Inr (filter (\<lambda>vs. vs \<noteq> []) segs)))"

definition decodeMappings :: "js_string \<Rightarrow> vlq_error + int list list list" where
  "decodeMappings mappings = mapE decode_line (split_on (cu CHR '';'') mappings)"

record source_map_entry =
  wasmOffset :: int
  sp_file :: js_string
  sp_line :: int
  sp_column :: int

record source_map_v3 =
  sm_version :: nat
  sm_sources :: "js_string list"
  sm_sourcesContent :: "js_string option list"
  sm_names :: "js_string list"
  sm_mappings :: js_string

text \<open>The sources in the order of first use; \<^verbatim>\<open>sourceIndex\<close> maps a file to its position there.\<close>

definition add_source :: "source_map_entry \<Rightarrow> js_string list \<Rightarrow> js_string list" where
  "add_source entry sources = (if sp_file entry \<in> set sources then sources else sources @ [sp_file entry])"

definition collect_sources :: "source_map_entry list \<Rightarrow> js_string list" where
  "collect_sources entries = fold add_source entries []"

fun index_of :: "js_string list \<Rightarrow> js_string \<Rightarrow> nat" where
  "index_of [] f = 0"
| "index_of (x # xs) f = (if x = f then 0 else Suc (index_of xs f))"

record prev_position =
  prevWasmOffset :: int
  prevSourceIdx :: int
  prevSourceLine :: int
  prevSourceCol :: int

definition segment_deltas :: "js_string list \<Rightarrow> prev_position \<Rightarrow> source_map_entry \<Rightarrow> int list" where
  "segment_deltas sources prev entry =
     [wasmOffset entry - prevWasmOffset prev, int (index_of sources (sp_file entry)) - prevSourceIdx prev,
      sp_line entry - prevSourceLine prev, sp_column entry - prevSourceCol prev]"

definition advance_to :: "js_string list \<Rightarrow> source_map_entry \<Rightarrow> prev_position" where
  "advance_to sources entry =
     \<lparr>prevWasmOffset = wasmOffset entry, prevSourceIdx = int (index_of sources (sp_file entry)),
      prevSourceLine = sp_line entry, prevSourceCol = sp_column entry\<rparr>"

fun segments :: "js_string list \<Rightarrow> prev_position \<Rightarrow> source_map_entry list \<Rightarrow> js_string list" where
  "segments sources prev [] = []"
| "segments sources prev (entry # entries) =
     concat (map encodeVLQ (segment_deltas sources prev entry)) #
     segments sources (advance_to sources entry) entries"

definition start_position :: prev_position where
  "start_position = \<lparr>prevWasmOffset = 0, prevSourceIdx = 0, prevSourceLine = 0, prevSourceCol = 0\<rparr>"

definition generateSourceMap ::
  "source_map_entry list \<Rightarrow> (js_string \<Rightarrow> js_string option) option \<Rightarrow> source_map_v3" where
  "generateSourceMap entries sourcesContent =
     (if entries = [] then
        \<lparr>sm_version = 3, sm_sources = [], sm_sourcesContent = [], sm_names = [], sm_mappings = []\<rparr>
      else
        let sorted = sort_key wasmOffset entries;
            sources = collect_sources sorted;
            contentArray = map (\<lambda>s. case sourcesContent of None \<Rightarrow> None | Some content \<Rightarrow> content s) sources in
        \<lparr>sm_version = 3, sm_sources = sources, sm_sourcesContent = contentArray, sm_names = [],
         sm_mappings = join_with (cu CHR '','') (segments sources start_position sorted)\<rparr>)"

section \<open>Decoding inverts encoding\<close>

lemma base64_index: "d < 64 \<Longrightarrow> indexOf BASE64_CHARS (BASE64_CHARS ! d) 0 = Some d"
proof -
  have "list_all (\<lambda>d. indexOf BASE64_CHARS (BASE64_CHARS ! d) 0 = Some d) [0..<64]" by code_simp
  then show "d < 64 \<Longrightarrow> indexOf BASE64_CHARS (BASE64_CHARS ! d) 0 = Some d" by (simp add: list_all_iff)
qed

lemma base64_separators: "d < 64 \<Longrightarrow> BASE64_CHARS ! d \<noteq> cu CHR '','' \<and> BASE64_CHARS ! d \<noteq> cu CHR '';''"
proof -
  have "list_all (\<lambda>d. BASE64_CHARS ! d \<noteq> cu CHR '','' \<and> BASE64_CHARS ! d \<noteq> cu CHR '';'') [0..<64]" by code_simp
  then show "d < 64 \<Longrightarrow> BASE64_CHARS ! d \<noteq> cu CHR '','' \<and> BASE64_CHARS ! d \<noteq> cu CHR '';''"
    by (simp add: list_all_iff)
qed

text \<open>One digit: five bits of the word and the continuation bit.\<close>

lemma vlq_digit:
  fixes w :: "32 word"
  shows "unat (w AND 0x1f) < 32" "unat (w AND 0x1f OR 0x20) = 32 + unat (w AND 0x1f)"
proof -
  have low: "w AND 0x1f = take_bit 5 w" by (simp add: take_bit_eq_mask mask_eq_exp_minus_1)
  then have "unat (w AND 0x1f) = take_bit 5 (unat w)" by (simp only: unsigned_take_bit_eq)
  then have "unat (w AND 0x1f) = unat w mod 32" by (simp add: take_bit_eq_mod)
  then show "unat (w AND 0x1f) < 32" by simp
  have "(w AND 0x1f) AND 0x20 = 0" by (simp add: and.assoc)
  then have "w AND 0x1f OR 0x20 = (w AND 0x1f) + 0x20" by (simp add: disjunctive_add_eq_or)
  then show "unat (w AND 0x1f OR 0x20) = 32 + unat (w AND 0x1f)"
    using \<open>unat (w AND 0x1f) < 32\<close> by (simp add: unat_word_ariths)
qed

lemma digit_word: "d < 32 \<Longrightarrow> word_of_nat d AND 0x1f = (word_of_nat d :: 32 word)"
  "d < 32 \<Longrightarrow> word_of_nat (32 + d) AND 0x1f = (word_of_nat d :: 32 word)"
proof -
  have low: "w AND 0x1f = take_bit 5 w" for w :: "32 word"
    by (simp add: take_bit_eq_mask mask_eq_exp_minus_1)
  have mod: "take_bit 5 (word_of_nat n :: 32 word) = word_of_nat (n mod 32)" for n
    by (rule bit_word_eqI) (auto simp: bit_simps simp flip: take_bit_eq_mod [of 5, simplified])
  show "d < 32 \<Longrightarrow> word_of_nat d AND 0x1f = (word_of_nat d :: 32 word)"
    "d < 32 \<Longrightarrow> word_of_nat (32 + d) AND 0x1f = (word_of_nat d :: 32 word)"
    unfolding low mod by simp_all
qed

lemma continuation: "d < 32 \<Longrightarrow> d AND 0x20 = 0" "d < 32 \<Longrightarrow> (32 + d) AND 0x20 \<noteq> 0" for d :: nat
proof -
  assume "d < 32"
  then have "d div 32 = 0" "(32 + d) div 32 = 1" by (simp_all add: div_add_self1)
  then show "d AND 0x20 = 0" "(32 + d) AND 0x20 \<noteq> 0"
    using and_exp_eq_0_iff_not_bit [of d 5] and_exp_eq_0_iff_not_bit [of "32 + d" 5]
    by (simp_all add: bit_iff_odd)
qed

lemma vlq_chunk: "sh < 32 \<Longrightarrow> take_bit sh w OR push_bit (sh mod 32) (drop_bit sh w AND 0x1f) = take_bit (sh + 5) w" for w :: "32 word"
proof -
  assume sh: "sh < 32"
  have low: "drop_bit sh w AND 0x1f = take_bit 5 (drop_bit sh w)" by (simp add: take_bit_eq_mask mask_eq_exp_minus_1)
  show ?thesis unfolding low using sh by (intro bit_word_eqI) (auto simp: bit_simps)
qed

lemma decode_encode_loop:
  fixes w :: "32 word"
  assumes "v = drop_bit sh w" "sh < 32"
  shows "decode_loop (take_bit sh w) sh (encode_loop v @ rest) = Inr (w, rest)"
  using assms
proof (induction v arbitrary: sh rule: encode_loop.induct)
  case (1 v)
  let ?d = "unat (v AND 0x1f)"
  have d: "?d < 32" "word_of_nat ?d = v AND 0x1f" by (simp_all add: vlq_digit)
  note chunk = vlq_chunk [OF "1.prems"(2), of w, folded "1.prems"(1)]
  show ?case
  proof (cases "drop_bit 5 v = 0")
    case True
    have "take_bit (sh + 5) w = w"
    proof (rule bit_word_eqI)
      fix i assume "i < LENGTH(32)"
      have "\<not> bit w i" if "sh + 5 \<le> i"
      proof
        assume "bit w i"
        then have "bit (drop_bit 5 v) (i - (sh + 5))" using that "1.prems" by (simp add: bit_drop_bit_eq)
        with True show False by simp
      qed
      then show "bit (take_bit (sh + 5) w) i = bit w i" by (cases "sh + 5 \<le> i") (simp_all add: bit_take_bit_iff)
    qed
    moreover have "encode_loop v = [BASE64_CHARS ! ?d]" using True by (subst encode_loop.simps) simp
    ultimately show ?thesis
      using d base64_index [of ?d] digit_word(1) [of ?d] continuation(1) [of ?d] chunk by (simp del: push_bit_and)
  next
    case False
    then have pos: "drop_bit 5 v > 0" by (simp add: word_gt_0)
    have next_v: "drop_bit 5 v = drop_bit (sh + 5) w" using "1.prems" by (simp add: add.commute)
    have "sh + 5 < 32"
    proof (rule ccontr)
      assume "\<not> sh + 5 < 32"
      then have "drop_bit (sh + 5) w = 0" by (intro bit_word_eqI) (simp add: bit_drop_bit_eq)
      with False next_v show False by simp
    qed
    from "1.IH" [OF refl refl refl pos next_v this]
    have IH: "decode_loop (take_bit (sh + 5) w) (sh + 5) (encode_loop (drop_bit 5 v) @ rest) = Inr (w, rest)" .
    have "encode_loop v = BASE64_CHARS ! (32 + ?d) # encode_loop (drop_bit 5 v)"
      using pos by (subst encode_loop.simps) (simp add: vlq_digit)
    then show ?thesis
      using d base64_index [of "32 + ?d"] digit_word(2) [of ?d] continuation(2) [of ?d] chunk IH
      by (simp del: push_bit_and of_nat_add)
  qed
qed

lemma vlq_value_of:
  assumes "\<bar>v\<bar> < 2 ^ 31"
  shows "vlq_value (vlq_of v) = v"
proof -
  define n where "n = \<bar>v\<bar>"
  let ?w = "push_bit 1 (word_of_int n) :: 32 word"
  have n: "0 \<le> n" "n < 2 ^ 31" using assms by (simp_all add: n_def)
  have "?w = word_of_int (2 * n)" by (simp add: push_bit_eq_mult mult.commute)
  then have w: "uint ?w = 2 * n" using n by (simp only: unsigned_of_int) (simp add: take_bit_int_eq_self)
  have "uint (?w OR 1) = uint ?w OR 1" by (simp only: unsigned_or_eq unsigned_1)
  also have "\<dots> = 2 * n + 1" unfolding w by (simp add: or_one_eq)
  finally have w1: "uint (?w OR 1) = 2 * n + 1" .
  have odd: "x AND 1 = 1 \<longleftrightarrow> odd (uint x)" for x :: "32 word"
  proof -
    have "bit (uint x) 0 \<longleftrightarrow> bit x 0" by (simp only: bit_unsigned_iff) (auto simp: bit_simps)
    then have "odd x \<longleftrightarrow> odd (uint x)" by (simp only: bit_0)
    then show ?thesis by (simp add: and_one_eq mod_2_eq_odd)
  qed
  have half: "uint (drop_bit 1 x) = uint x div 2" for x :: "32 word"
  proof -
    have "take_bit LENGTH(32) (uint x) = uint x" by (simp only: bintr_uint)
    then show ?thesis by (simp only: unsigned_drop_bit_eq) (simp add: drop_bit_Suc)
  qed
  have "vlq_of v = (if v < 0 then ?w OR 1 else ?w)" by (simp add: vlq_of_def n_def)
  then show ?thesis unfolding vlq_value_def odd half using w w1 by (auto simp: n_def)
qed

lemma decode_encodeVLQ: "\<bar>v\<bar> < 2 ^ 31 \<Longrightarrow> decodeVLQ (encodeVLQ v @ rest) = Inr (v, rest)"
  using decode_encode_loop [of "vlq_of v" 0 "vlq_of v" rest]
  by (simp add: decodeVLQ_def encodeVLQ_def vlq_value_of)

lemma encodeVLQ_chars: "c \<in> set (encodeVLQ v) \<Longrightarrow> c \<noteq> cu CHR '','' \<and> c \<noteq> cu CHR '';''"
proof -
  have "\<forall>c \<in> set (encode_loop w). c \<noteq> cu CHR '','' \<and> c \<noteq> cu CHR '';''" for w
  proof (induction w rule: encode_loop.induct)
    case (1 w)
    have "unat (w AND 0x1f) < 64" "32 + unat (w AND 0x1f) < 64" using vlq_digit(1) [of w] by simp_all
    from this [THEN base64_separators] "1.IH" show ?case
      by (subst encode_loop.simps) (auto simp: Let_def vlq_digit)
  qed
  then show "c \<in> set (encodeVLQ v) \<Longrightarrow> c \<noteq> cu CHR '','' \<and> c \<noteq> cu CHR '';''" by (simp add: encodeVLQ_def)
qed

lemma encodeVLQ_clean [simp]: "44 \<notin> set (encodeVLQ v)" "59 \<notin> set (encodeVLQ v)"
  using encodeVLQ_chars [of 44 v] encodeVLQ_chars [of 59 v] by auto

lemma encodeVLQ_nonempty: "encodeVLQ v \<noteq> []"
  by (simp add: encodeVLQ_def encode_loop.simps Let_def)

section \<open>Decoding a generated map\<close>

lemma decode_values_encoded:
  "list_all (\<lambda>v. \<bar>v\<bar> < 2 ^ 31) vs \<Longrightarrow> decode_values (concat (map encodeVLQ vs)) = Inr vs"
proof (induction vs)
  case (Cons v vs)
  then show ?case
    by (subst decode_values.simps) (simp add: encodeVLQ_nonempty decode_encodeVLQ del: power_numeral)
qed (simp add: decode_values.simps)

text \<open>What the segments decode to, and what a consumer adds them up to.\<close>

fun deltas_from :: "js_string list \<Rightarrow> prev_position \<Rightarrow> source_map_entry list \<Rightarrow> int list list" where
  "deltas_from sources prev [] = []"
| "deltas_from sources prev (entry # entries) =
     segment_deltas sources prev entry # deltas_from sources (advance_to sources entry) entries"

fun running_sums :: "int list \<Rightarrow> int list list \<Rightarrow> int list list" where
  "running_sums acc [] = []"
| "running_sums acc (ds # dss) = map2 (+) acc ds # running_sums (map2 (+) acc ds) dss"

definition resolved_entry :: "js_string list \<Rightarrow> int list \<Rightarrow> source_map_entry" where
  "resolved_entry sources p = \<lparr>wasmOffset = p ! 0, sp_file = sources ! nat (p ! 1), sp_line = p ! 2, sp_column = p ! 3\<rparr>"

lemma collect_sources_set: "set (fold add_source es acc) = set acc \<union> sp_file ` set es"
  by (induction es arbitrary: acc) (auto simp: add_source_def)

lemma index_of_nth: "f \<in> set xs \<Longrightarrow> index_of xs f < length xs \<and> xs ! index_of xs f = f"
  by (induction xs) auto

lemma positions_deltas:
  assumes "sp_file ` set es \<subseteq> set sources"
  shows "map (resolved_entry sources)
    (running_sums [prevWasmOffset prev, prevSourceIdx prev, prevSourceLine prev, prevSourceCol prev] (deltas_from sources prev es)) = es"
  using assms
proof (induction es arbitrary: prev)
  case (Cons e es)
  from Cons.IH [of "advance_to sources e"] Cons.prems index_of_nth [of "sp_file e" sources]
  show ?case by (simp add: segment_deltas_def advance_to_def resolved_entry_def)
qed simp

definition entry_small :: "source_map_entry \<Rightarrow> bool" where
  "entry_small e \<longleftrightarrow> 0 \<le> wasmOffset e \<and> wasmOffset e < 2 ^ 31 \<and> 0 \<le> sp_line e \<and> sp_line e < 2 ^ 31 \<and>
     0 \<le> sp_column e \<and> sp_column e < 2 ^ 31"

definition prev_small :: "prev_position \<Rightarrow> bool" where
  "prev_small p \<longleftrightarrow> 0 \<le> prevWasmOffset p \<and> prevWasmOffset p < 2 ^ 31 \<and> 0 \<le> prevSourceIdx p \<and> prevSourceIdx p < 2 ^ 31 \<and>
     0 \<le> prevSourceLine p \<and> prevSourceLine p < 2 ^ 31 \<and> 0 \<le> prevSourceCol p \<and> prevSourceCol p < 2 ^ 31"

lemma segments_decode:
  assumes "list_all entry_small es" "prev_small prev" "sp_file ` set es \<subseteq> set sources" "length sources < 2 ^ 31"
  shows "list_all2 (\<lambda>seg ds. decode_values seg = Inr ds \<and> ds \<noteq> []) (segments sources prev es) (deltas_from sources prev es)"
  using assms
proof (induction es arbitrary: prev)
  case (Cons e es)
  have idx: "int (index_of sources (sp_file e)) < 2 ^ 31"
    using index_of_nth [of "sp_file e" sources] Cons.prems(3,4) by simp
  have "prev_small (advance_to sources e)" using Cons.prems(1) idx by (simp add: prev_small_def advance_to_def entry_small_def)
  moreover have "list_all (\<lambda>v. \<bar>v\<bar> < 2 ^ 31) (segment_deltas sources prev e)"
    using Cons.prems(1,2) idx by (auto simp: segment_deltas_def entry_small_def prev_small_def)
  ultimately show ?case using Cons by (simp add: decode_values_encoded) (simp add: segment_deltas_def)
qed simp

lemma segments_clean:
  "seg \<in> set (segments sources prev es) \<Longrightarrow> cu CHR '','' \<notin> set seg \<and> cu CHR '';'' \<notin> set seg \<and> seg \<noteq> []"
  by (induction es arbitrary: prev) (auto simp: segment_deltas_def encodeVLQ_nonempty)

lemma collect_sources_distinct: "distinct acc \<Longrightarrow> distinct (fold add_source es acc)"
  by (induction es arbitrary: acc) (auto simp: add_source_def)

lemma collect_sources_length: "length (fold add_source es acc) \<le> length acc + length es"
proof (induction es arbitrary: acc)
  case (Cons e es)
  have "length (add_source e acc) \<le> length acc + 1" by (simp add: add_source_def)
  with Cons [of "add_source e acc"] show ?case by simp
qed simp

lemma decode_line_segments:
  assumes "segs \<noteq> []" "\<forall>seg \<in> set segs. cu CHR '','' \<notin> set seg \<and> seg \<noteq> []"
    and "list_all2 (\<lambda>seg ds. decode_values seg = Inr ds \<and> ds \<noteq> []) segs dss"
  shows "decode_line (join_with (cu CHR '','') segs) = Inr dss"
proof -
  have "split_on (cu CHR '','') (join_with (cu CHR '','') segs) = segs"
    by (rule split_on_join) (use assms(1,2) in auto)
  moreover have "join_with (cu CHR '','') segs \<noteq> []" using assms(1,2) join_with_nonempty by blast
  moreover have "mapE decode_values segs = Inr dss" "filter (\<lambda>vs. vs \<noteq> []) dss = dss"
    using assms(3) by (auto simp: mapE_Inr list_all2_conv_all_nth filter_id_conv in_set_conv_nth)
  ultimately show ?thesis by (simp add: decode_line_def)
qed

lemma generated_map_decodes:
  assumes "es \<noteq> []" "list_all entry_small es" "length es < 2 ^ 31"
  obtains segs where "decodeMappings (sm_mappings (generateSourceMap es content)) = Inr [segs]"
    "map (resolved_entry (sm_sources (generateSourceMap es content))) (running_sums [0, 0, 0, 0] segs) = sort_key wasmOffset es"
proof -
  let ?es = "sort_key wasmOffset es" and ?c = "cu CHR '',''" and ?semi = "cu CHR '';''"
  define sources where "sources = collect_sources ?es"
  define segs where "segs = segments sources start_position ?es"
  define dss where "dss = deltas_from sources start_position ?es"
  have sm: "sm_mappings (generateSourceMap es content) = join_with ?c segs" "sm_sources (generateSourceMap es content) = sources"
    using assms(1) by (simp_all add: generateSourceMap_def Let_def sources_def segs_def)
  have files: "sp_file ` set ?es \<subseteq> set sources" by (simp add: sources_def collect_sources_def collect_sources_set)
  have "length sources < 2 ^ 31"
    using collect_sources_length [of ?es "[]"] assms(3) by (simp add: sources_def collect_sources_def)
  moreover have "list_all entry_small ?es" using assms(2) by (simp add: list_all_iff)
  ultimately have dec: "list_all2 (\<lambda>seg ds. decode_values seg = Inr ds \<and> ds \<noteq> []) segs dss"
    unfolding segs_def dss_def by (intro segments_decode files) (simp_all add: prev_small_def start_position_def)
  have clean: "\<forall>seg \<in> set segs. ?c \<notin> set seg \<and> ?semi \<notin> set seg \<and> seg \<noteq> []"
    unfolding segs_def using segments_clean by blast
  have "segs \<noteq> []" unfolding segs_def using assms(1) by (cases ?es) (simp_all, metis length_sort length_0_conv)
  then have "decode_line (join_with ?c segs) = Inr dss" using clean dec by (intro decode_line_segments) auto
  moreover have "?semi \<notin> set (join_with ?c segs)" using clean by (auto dest: join_with_set)
  ultimately have "decodeMappings (join_with ?c segs) = Inr [dss]" by (simp add: decodeMappings_def split_on_clean)
  moreover have "map (resolved_entry sources) (running_sums [0, 0, 0, 0] dss) = ?es"
    using positions_deltas [OF files, of start_position] by (simp add: dss_def start_position_def)
  ultimately show thesis using that sm by simp
qed

end
