(* ===== verification/Binary_Properties.thy ===== *)
theory Binary_Properties
  imports Wasm_Codec Source_Map
begin

text \<open>
  The properties of the binary layer: the encoder's growing buffer as an append-only byte string, the
  round trips between \<^verbatim>\<open>WasmEncoder\<close> and the object reader's \<^verbatim>\<open>ByteReader\<close>, and the source map writer with
  its decoder.
\<close>

section \<open>The encoder\<close>

text \<open>C19: the growing buffer implements an append-only byte string: from every reachable encoder state,
  writing bytes succeeds, keeps the state well formed (the length stays within the buffer) and what
  \<^verbatim>\<open>finish\<close> returns grows by exactly those bytes, whether or not the buffer had to be reallocated.\<close>

theorem encoder_bytes_append:
  assumes "enc_ok e"
  shows "\<exists>e'. put_bytes bs e = Inr e' \<and> enc_ok e' \<and> enc_finish e' = enc_finish e @ source_bytes bs \<and>
    position e' = position e + source_length bs"
proof -
  obtain e' where e': "put_bytes bs e = Inr e'" "enc_ok e'" "written e' = written e @ source_bytes bs"
    using appendsD [OF appends_bytes assms] .
  then have "length (written e') = length (written e) + length (source_bytes bs)" by simp
  moreover have "length (source_bytes bs) = source_length bs" by (cases bs) auto
  ultimately show ?thesis using e' assms
    by (auto simp: position_def enc_finish_def written_def enc_ok_def min_def split: if_splits)
qed

theorem encoder_bytes_append_witness:
  "\<exists>e'. put_bytes (Numbers [0, 97, 115, 109]) new_encoder = Inr e' \<and> enc_ok e' \<and>
     enc_finish e' = enc_finish new_encoder @ source_bytes (Numbers [0, 97, 115, 109]) \<and>
     position e' = position new_encoder + source_length (Numbers [0, 97, 115, 109])"
  by (rule encoder_bytes_append [OF new_encoder_ok(1)])

text \<open>\<^verbatim>\<open>u32\<close> throws exactly on the numbers that are not unsigned 32-bit integers, and the error names the
  number.\<close>

theorem encoder_u32_errors:
  assumes "enc_ok e"
  shows "u32 value e = Inl err \<longleftrightarrow> err = U32Range value \<and> \<not> (\<exists>n < 2 ^ 32. value = Integral (int n))"
proof
  assume h: "err = U32Range value \<and> \<not> (\<exists>n < 2 ^ 32. value = Integral (int n))"
  have "v < 0 \<or> 0xffffffff < v" if "value = Integral v" for v
  proof (rule ccontr)
    assume "\<not> (v < 0 \<or> 0xffffffff < v)"
    then have "value = Integral (int (nat v)) \<and> nat v < 2 ^ 32" using that by auto
    with h show False by blast
  qed
  with h show "u32 value e = Inl err" by (cases "value") (auto simp: u32_def)
qed (use u32_throws [OF _ assms] in auto)

theorem encoder_u32_errors_witness: "u32 (Integral (- 1)) new_encoder = Inl (U32Range (Integral (- 1)))"
  by (subst encoder_u32_errors) auto

section \<open>Round trips\<close>

text \<open>An unsigned 32-bit integer written at any point of a module is read back by the object reader, which
  stops where the encoder stopped.\<close>

theorem u32_round_trip:
  assumes "n < 2 ^ 32" "enc_ok e"
  shows "\<exists>e'. u32 (Integral (int n)) e = Inr e' \<and> enc_ok e' \<and>
    (\<forall>rest. rd_u32 \<lparr>rd_data = enc_finish e' @ rest, rd_pos = position e\<rparr> =
       Inr (n, \<lparr>rd_data = enc_finish e' @ rest, rd_pos = position e'\<rparr>))"
  using u32.round_trip [OF assms] by metis

theorem u32_round_trip_witness:
  "\<exists>e'. u32 (Integral (int 624485)) new_encoder = Inr e' \<and> enc_ok e' \<and>
    (\<forall>rest. rd_u32 \<lparr>rd_data = enc_finish e' @ rest, rd_pos = position new_encoder\<rparr> =
       Inr (624485, \<lparr>rd_data = enc_finish e' @ rest, rd_pos = position e'\<rparr>))"
  by (rule u32_round_trip) simp_all

text \<open>A signed 32-bit integer survives the signed LEB128 encoding, sign extension included.\<close>

theorem i32_round_trip:
  assumes "- (2 ^ 31) \<le> v" "v < 2 ^ 31" "enc_ok e"
  shows "\<exists>e'. i32 v e = Inr e' \<and> enc_ok e' \<and>
    (\<forall>rest. rd_i32 \<lparr>rd_data = enc_finish e' @ rest, rd_pos = position e\<rparr> =
       Inr (v, \<lparr>rd_data = enc_finish e' @ rest, rd_pos = position e'\<rparr>))"
  using i32.round_trip [OF _ assms(3), of v] assms(1,2) by metis

theorem i32_round_trip_witness:
  "\<exists>e'. i32 (- 2147483648) new_encoder = Inr e' \<and> enc_ok e' \<and>
    (\<forall>rest. rd_i32 \<lparr>rd_data = enc_finish e' @ rest, rd_pos = position new_encoder\<rparr> =
       Inr (- 2147483648, \<lparr>rd_data = enc_finish e' @ rest, rd_pos = position e'\<rparr>))"
  by (rule i32_round_trip) simp_all

text \<open>C39: a name of well-formed UTF-16 that does not start with a byte order mark survives UTF-8 encoding,
  the length prefix and the reader's decoding.\<close>

theorem name_round_trip:
  assumes "well_formed s" "s = [] \<or> hd s \<noteq> 0xfeff" "length (utf8_encode s) < 2 ^ 32" "enc_ok e"
  shows "\<exists>e'. put_name s e = Inr e' \<and> enc_ok e' \<and>
    (\<forall>rest. rd_name \<lparr>rd_data = enc_finish e' @ rest, rd_pos = position e\<rparr> =
       Inr (s, \<lparr>rd_data = enc_finish e' @ rest, rd_pos = position e'\<rparr>))"
  using nm.round_trip [OF _ assms(4), of s] assms(1-3) by metis

theorem name_round_trip_witness:
  "\<exists>e'. put_name [0xe9, 0xd83d, 0xde00] new_encoder = Inr e' \<and> enc_ok e' \<and>
    (\<forall>rest. rd_name \<lparr>rd_data = enc_finish e' @ rest, rd_pos = position new_encoder\<rparr> =
       Inr ([0xe9, 0xd83d, 0xde00], \<lparr>rd_data = enc_finish e' @ rest, rd_pos = position e'\<rparr>))"
proof (rule name_round_trip)
  have cps: "code_points [0xe9, 0xd83d, 0xde00] = [0xe9, 0x1f600]"
    by (simp add: is_lead_def is_trail_def pair_code_point_def)
  then show "well_formed [0xe9, 0xd83d, 0xde00]" by (simp add: well_formed_def valid_units_def scalar_def)
  show "length (utf8_encode [0xe9, 0xd83d, 0xde00]) < 2 ^ 32"
    unfolding utf8_encode_def cps by (simp add: to_scalar_def utf8_cp_def)
qed simp_all

section \<open>Source maps\<close>

text \<open>C40: the decoder recovers every integer below \<^verbatim>\<open>2^31\<close> in magnitude from its Base64 VLQ text and stops
  right after it.\<close>

theorem vlq_round_trip: "\<bar>v\<bar> < 2 ^ 31 \<Longrightarrow> decodeVLQ (encodeVLQ v @ rest) = Inr (v, rest)"
  by (rule decode_encodeVLQ)

theorem vlq_round_trip_witness: "decodeVLQ (encodeVLQ (- 12345) @ str '',A'') = Inr (- 12345, str '',A'')"
  by (rule vlq_round_trip) simp




end
