(* ===== verification/Link_Resolver.thy ===== *)
theory Link_Resolver
  imports Wasm_Reader
begin

text \<open>
  \<^verbatim>\<open>src/src/link/resolver.ts\<close>: matching undefined symbols of an object file with definitions of other
  object files. Maps that the source iterates over are association lists in insertion order. The
  lemmas say which definition a reference gets and when the two kinds of errors are reported.
\<close>

definition decimal :: "nat \<Rightarrow> js_string" where
  "decimal n = to_radix 10 n"

fun join_str :: "js_string \<Rightarrow> js_string list \<Rightarrow> js_string" where
  "join_str sep [] = []"
| "join_str sep [p] = p"
| "join_str sep (p # ps) = p @ sep @ join_str sep ps"

text \<open>A double-quoted name in a message.\<close>

definition quoted :: "js_string \<Rightarrow> js_string" where
  "quoted s = [34] @ s @ [34]"

record resolved_symbol =
  targetModule :: nat
  targetIndex :: nat
  rs_name :: js_string

text \<open>The source keys \<^verbatim>\<open>resolved\<close> by the text \<^verbatim>\<open>modIdx:symIdx\<close>, here the pair of the two numbers.\<close>

record resolution =
  resolved :: "((nat \<times> nat) \<times> resolved_symbol) list"
  res_errors :: "js_string list"

record definition_site =
  ds_moduleIdx :: nat
  ds_symbolIdx :: nat
  ds_symbol :: symbol_info

section \<open>Operations\<close>

text \<open>The nested loops over modules and their symbols, flattened.\<close>

definition symbol_sites :: "parsed_object list \<Rightarrow> definition_site list" where
  "symbol_sites objects =
     concat (map (\<lambda>(modIdx, obj). map (\<lambda>(symIdx, sy). \<lparr>ds_moduleIdx = modIdx, ds_symbolIdx = symIdx, ds_symbol = sy\<rparr>)
       (enumerate 0 (ob_symbols obj))) (enumerate 0 objects))"

definition undefined_symbol :: "symbol_info \<Rightarrow> bool" where
  "undefined_symbol sy \<longleftrightarrow> flagged (sy_flags sy) SYMBOL_UNDEFINED"

definition local_symbol :: "symbol_info \<Rightarrow> bool" where
  "local_symbol sy \<longleftrightarrow> flagged (sy_flags sy) SYMBOL_BINDING_LOCAL"

definition weak_symbol :: "symbol_info \<Rightarrow> bool" where
  "weak_symbol sy \<longleftrightarrow> flagged (sy_flags sy) SYMBOL_BINDING_WEAK"

definition visible_definition :: "symbol_info \<Rightarrow> bool" where
  "visible_definition sy \<longleftrightarrow> \<not> undefined_symbol sy \<and> \<not> local_symbol sy \<and> sy_name sy \<noteq> []"

definition symbol_key :: "symbol_info \<Rightarrow> js_string" where
  "symbol_key sy = decimal (sy_kind sy) @ [cu CHR '':''] @ sy_name sy"

type_synonym definitions = "(js_string \<times> definition_site list) list"

definition add_definition :: "definition_site \<Rightarrow> definitions \<Rightarrow> definitions" where
  "add_definition site defs =
     (if visible_definition (ds_symbol site) then
        let key = symbol_key (ds_symbol site);
            lst = (case map_of defs key of None \<Rightarrow> [] | Some lst \<Rightarrow> lst) in
        AList.update key (lst @ [site]) defs
      else defs)"

definition definedSymbols :: "parsed_object list \<Rightarrow> definitions" where
  "definedSymbols objects = fold add_definition (symbol_sites objects) []"

definition strong_sites :: "definition_site list \<Rightarrow> definition_site list" where
  "strong_sites defs = filter (\<lambda>d. \<not> weak_symbol (ds_symbol d)) defs"

definition duplicate_errors :: "parsed_object list \<Rightarrow> js_string \<times> definition_site list \<Rightarrow> js_string list" where
  "duplicate_errors objects = (\<lambda>(key, defs).
     let strongDefs = strong_sites defs in
     if length strongDefs > 1 then
       let parts = split_on (cu CHR '':'') key;
           symbolName = join_with (cu CHR '':'') (tl parts);
           moduleNames = map (\<lambda>d. ob_name (objects ! ds_moduleIdx d)) strongDefs in
       [str ''Duplicate symbol '' @ quoted symbolName @ str '' (kind '' @ hd parts @ str '') defined in: '' @
        join_str (str '', '') moduleNames]
     else [])"

definition choose_definition :: "definition_site list \<Rightarrow> definition_site" where
  "choose_definition defs = (let strongDefs = strong_sites defs in if length strongDefs > 0 then hd strongDefs else hd defs)"

definition resolve_site :: "parsed_object list \<Rightarrow> definitions \<Rightarrow> definition_site \<Rightarrow> resolution \<Rightarrow> resolution" where
  "resolve_site objects table site res =
     (let sy = ds_symbol site in
      if \<not> undefined_symbol sy \<or> sy_name sy = [] then res
      else
        case map_of table (symbol_key sy) of
          None \<Rightarrow> res\<lparr>res_errors := res_errors res @
            [str ''Unresolved symbol '' @ quoted (sy_name sy) @ str '' (kind '' @ decimal (sy_kind sy) @
             str '') in module '' @ quoted (ob_name (objects ! ds_moduleIdx site))]\<rparr>
        | Some defs \<Rightarrow>
            let chosen = choose_definition defs in
            res\<lparr>resolved := AList.update (ds_moduleIdx site, ds_symbolIdx site)
              \<lparr>targetModule = ds_moduleIdx chosen, targetIndex = sy_index (ds_symbol chosen), rs_name = sy_name sy\<rparr>
              (resolved res)\<rparr>)"

definition resolveSymbols :: "parsed_object list \<Rightarrow> resolution" where
  "resolveSymbols objects =
     (let table = definedSymbols objects;
          duplicates = concat (map (duplicate_errors objects) table) in
      fold (resolve_site objects table) (symbol_sites objects) \<lparr>resolved = [], res_errors = duplicates\<rparr>)"

section \<open>Keys\<close>

lemma digit_not_colon: "list_all (is_digit_of 10) s \<Longrightarrow> cu CHR '':'' \<notin> set s"
proof -
  have "\<not> is_digit_of 10 (cu CHR '':'')" by code_simp
  then show "list_all (is_digit_of 10) s \<Longrightarrow> cu CHR '':'' \<notin> set s" by (auto simp: list_all_iff)
qed

lemma decimal_no_colon: "cu CHR '':'' \<notin> set (decimal n)"
  unfolding decimal_def by (intro digit_not_colon digits_to_radix) simp_all

lemma decimal_inject: "decimal m = decimal n \<longleftrightarrow> m = n"
proof -
  have "parse_radix 10 (to_radix 10 k) = k" for k by (rule parse_to_radix) simp_all
  then show ?thesis unfolding decimal_def by metis
qed

lemma first_split_inject:
  assumes "c \<notin> set a" "c \<notin> set b" "a @ c # s = b @ c # t"
  shows "a = b \<and> s = t"
  using assms
proof (induction a arbitrary: b)
  case Nil
  then show ?case by (cases b) auto
next
  case (Cons x a)
  then show ?case by (cases b) auto
qed

lemma symbol_key_inject: "symbol_key a = symbol_key b \<longleftrightarrow> sy_kind a = sy_kind b \<and> sy_name a = sy_name b"
  using first_split_inject [OF decimal_no_colon decimal_no_colon, of "sy_kind a" "sy_name a" "sy_kind b" "sy_name b"]
  by (auto simp: symbol_key_def decimal_inject)

section \<open>The table of definitions\<close>

definition definitions_of :: "parsed_object list \<Rightarrow> js_string \<Rightarrow> definition_site list" where
  "definitions_of objects key =
     filter (\<lambda>d. visible_definition (ds_symbol d) \<and> symbol_key (ds_symbol d) = key) (symbol_sites objects)"

lemma fold_add_definition:
  "map_of (fold add_definition sites []) key =
     (let ds = filter (\<lambda>d. visible_definition (ds_symbol d) \<and> symbol_key (ds_symbol d) = key) sites in
      if ds = [] then None else Some ds)"
proof (induction sites rule: rev_induct)
  case (snoc d sites)
  then show ?case by (auto simp: add_definition_def Let_def update_conv' split: option.splits if_splits)
qed simp

lemma map_of_definedSymbols:
  "map_of (definedSymbols objects) key =
     (if definitions_of objects key = [] then None else Some (definitions_of objects key))"
  by (simp add: definedSymbols_def fold_add_definition definitions_of_def Let_def)

lemma distinct_definedSymbols: "distinct (map fst (definedSymbols objects))"
proof -
  have "distinct (map fst (fold add_definition sites acc))" if "distinct (map fst acc)" for sites acc
    using that by (induction sites arbitrary: acc) (auto simp: add_definition_def Let_def distinct_update)
  then show ?thesis by (simp add: definedSymbols_def)
qed

lemma mem_definedSymbols:
  "(key, ds) \<in> set (definedSymbols objects) \<longleftrightarrow> ds = definitions_of objects key \<and> ds \<noteq> []"
  unfolding map_of_eq_Some_iff [OF distinct_definedSymbols, symmetric] map_of_definedSymbols by auto

lemma mem_symbol_sites:
  "d \<in> set (symbol_sites objects) \<longleftrightarrow>
     ds_moduleIdx d < length objects \<and> ds_symbolIdx d < length (ob_symbols (objects ! ds_moduleIdx d)) \<and>
     ds_symbol d = ob_symbols (objects ! ds_moduleIdx d) ! ds_symbolIdx d"
proof -
  have "d \<in> set (symbol_sites objects) \<longleftrightarrow>
      (\<exists>m obj i sy. (m, obj) \<in> set (enumerate 0 objects) \<and> (i, sy) \<in> set (enumerate 0 (ob_symbols obj)) \<and>
        d = \<lparr>ds_moduleIdx = m, ds_symbolIdx = i, ds_symbol = sy\<rparr>)"
    unfolding symbol_sites_def by force
  also have "\<dots> \<longleftrightarrow> (\<exists>m i. m < length objects \<and> i < length (ob_symbols (objects ! m)) \<and>
        d = \<lparr>ds_moduleIdx = m, ds_symbolIdx = i, ds_symbol = ob_symbols (objects ! m) ! i\<rparr>)"
    unfolding in_set_enumerate_eq by auto
  finally show ?thesis by (cases d) auto
qed

lemma distinct_symbol_sites: "distinct (symbol_sites objects)"
proof -
  have "distinct (concat (map (\<lambda>(m, obj). map (\<lambda>(i, sy). \<lparr>ds_moduleIdx = m, ds_symbolIdx = i, ds_symbol = sy\<rparr>)
      (enumerate 0 (ob_symbols obj))) (enumerate n objs)))" for n and objs :: "parsed_object list"
  proof (induction objs arbitrary: n)
    case (Cons obj objs)
    have "distinct (map (\<lambda>(i, sy). \<lparr>ds_moduleIdx = n, ds_symbolIdx = i, ds_symbol = sy\<rparr>) (enumerate 0 (ob_symbols obj)))"
      by (auto simp: distinct_map inj_on_def)
    with Cons.IH [of "Suc n"] show ?case by (auto simp: in_set_enumerate_eq)
  qed simp
  then show ?thesis by (simp add: symbol_sites_def)
qed

section \<open>What is resolved\<close>

definition reference :: "symbol_info \<Rightarrow> bool" where
  "reference sy \<longleftrightarrow> undefined_symbol sy \<and> sy_name sy \<noteq> []"

definition answer :: "parsed_object list \<Rightarrow> symbol_info \<Rightarrow> resolved_symbol option" where
  "answer objects sy =
     (let defs = definitions_of objects (symbol_key sy) in
      if reference sy \<and> defs \<noteq> [] then
        Some \<lparr>targetModule = ds_moduleIdx (choose_definition defs),
              targetIndex = sy_index (ds_symbol (choose_definition defs)), rs_name = sy_name sy\<rparr>
      else None)"

definition site_key :: "definition_site \<Rightarrow> nat \<times> nat" where
  "site_key d = (ds_moduleIdx d, ds_symbolIdx d)"

lemma resolve_site_resolved:
  "map_of (resolved (resolve_site objects (definedSymbols objects) d res)) k =
     (if site_key d = k \<and> answer objects (ds_symbol d) \<noteq> None then answer objects (ds_symbol d)
      else map_of (resolved res) k)"
  by (auto simp: resolve_site_def map_of_definedSymbols answer_def reference_def site_key_def Let_def update_conv'
      split: if_splits)

lemma fold_resolved_other:
  "\<forall>d \<in> set sites. site_key d \<noteq> k \<Longrightarrow>
     map_of (resolved (fold (resolve_site objects (definedSymbols objects)) sites res)) k = map_of (resolved res) k"
  by (induction sites arbitrary: res) (simp_all add: resolve_site_resolved)

lemma resolve_site_errors:
  "res_errors (resolve_site objects (definedSymbols objects) d res) = res_errors res \<longleftrightarrow>
     \<not> (reference (ds_symbol d) \<and> definitions_of objects (symbol_key (ds_symbol d)) = [])"
  by (auto simp: resolve_site_def map_of_definedSymbols reference_def Let_def)

lemma fold_errors_Nil:
  "res_errors (fold (resolve_site objects (definedSymbols objects)) sites res) = [] \<longleftrightarrow>
     res_errors res = [] \<and>
     (\<forall>d \<in> set sites. reference (ds_symbol d) \<longrightarrow> definitions_of objects (symbol_key (ds_symbol d)) \<noteq> [])"
proof (induction sites arbitrary: res)
  case (Cons d sites)
  have "res_errors (resolve_site objects (definedSymbols objects) d res) = [] \<longleftrightarrow> res_errors res = [] \<and>
      (reference (ds_symbol d) \<longrightarrow> definitions_of objects (symbol_key (ds_symbol d)) \<noteq> [])"
    by (auto simp: resolve_site_def map_of_definedSymbols reference_def Let_def)
  then show ?case by (auto simp: Cons.IH)
qed simp

lemma site_key_inj: "d \<in> set (symbol_sites objects) \<Longrightarrow> d' \<in> set (symbol_sites objects) \<Longrightarrow> site_key d = site_key d' \<Longrightarrow> d = d'"
  by (cases d; cases d') (auto simp: mem_symbol_sites site_key_def)

lemma resolved_at:
  assumes "m < length objects" "i < length (ob_symbols (objects ! m))"
  shows "map_of (resolved (resolveSymbols objects)) (m, i) = answer objects (ob_symbols (objects ! m) ! i)"
proof -
  let ?d = "\<lparr>ds_moduleIdx = m, ds_symbolIdx = i, ds_symbol = ob_symbols (objects ! m) ! i\<rparr>"
  let ?step = "resolve_site objects (definedSymbols objects)"
  have "?d \<in> set (symbol_sites objects)" using assms by (simp add: mem_symbol_sites)
  then obtain before after where sites: "symbol_sites objects = before @ ?d # after" by (meson split_list)
  then have "?d \<notin> set before" "?d \<notin> set after" using distinct_symbol_sites [of objects] by simp_all
  then have other: "\<forall>d \<in> set before. site_key d \<noteq> (m, i)" "\<forall>d \<in> set after. site_key d \<noteq> (m, i)"
    using site_key_inj [of _ objects ?d] sites by (metis UnI1 UnI2 definition_site.select_convs(1,2) in_set_conv_decomp
        list.set_intros(1,2) set_append site_key_def)+
  show ?thesis
    unfolding resolveSymbols_def Let_def sites
    by (simp add: fold_resolved_other [OF other(2)] resolve_site_resolved fold_resolved_other [OF other(1)] site_key_def)
qed

lemma resolved_out_of_range:
  assumes "\<not> (m < length objects \<and> i < length (ob_symbols (objects ! m)))"
  shows "map_of (resolved (resolveSymbols objects)) (m, i) = None"
proof -
  have "\<forall>d \<in> set (symbol_sites objects). site_key d \<noteq> (m, i)"
    using assms by (auto simp: mem_symbol_sites site_key_def)
  from fold_resolved_other [OF this] show ?thesis by (simp add: resolveSymbols_def Let_def)
qed

text \<open>The chosen definition is one of the candidates, and a strong one if there is any.\<close>

lemma choose_definition_mem:
  assumes "defs \<noteq> []"
  shows "choose_definition defs \<in> set defs"
    and "weak_symbol (ds_symbol (choose_definition defs)) \<Longrightarrow> d \<in> set defs \<Longrightarrow> weak_symbol (ds_symbol d)"
proof -
  have "strong_sites defs \<noteq> [] \<Longrightarrow> hd (strong_sites defs) \<in> set (strong_sites defs)" by (rule hd_in_set)
  then show "choose_definition defs \<in> set defs"
    using assms by (auto simp: choose_definition_def Let_def strong_sites_def)
  assume "weak_symbol (ds_symbol (choose_definition defs))" "d \<in> set defs"
  then show "weak_symbol (ds_symbol d)"
    using hd_in_set [of "strong_sites defs"]
    by (auto simp: choose_definition_def Let_def strong_sites_def filter_empty_conv split: if_splits)
qed

lemma mem_definitions_of:
  "d \<in> set (definitions_of objects (symbol_key sy)) \<longleftrightarrow>
     d \<in> set (symbol_sites objects) \<and> visible_definition (ds_symbol d) \<and>
     sy_kind (ds_symbol d) = sy_kind sy \<and> sy_name (ds_symbol d) = sy_name sy"
  by (auto simp: definitions_of_def symbol_key_inject)

lemma resolved_target:
  assumes "map_of (resolved (resolveSymbols objects)) (m, i) = Some t"
  obtains sy d where "m < length objects" "i < length (ob_symbols (objects ! m))" "sy = ob_symbols (objects ! m) ! i"
    "reference sy" "d \<in> set (definitions_of objects (symbol_key sy))"
    "targetModule t = ds_moduleIdx d" "targetIndex t = sy_index (ds_symbol d)" "rs_name t = sy_name sy"
    "\<And>d'. weak_symbol (ds_symbol d) \<Longrightarrow> d' \<in> set (definitions_of objects (symbol_key sy)) \<Longrightarrow> weak_symbol (ds_symbol d')"
proof -
  let ?sy = "ob_symbols (objects ! m) ! i"
  let ?defs = "definitions_of objects (symbol_key ?sy)"
  have "m < length objects \<and> i < length (ob_symbols (objects ! m))"
    by (rule ccontr) (use assms resolved_out_of_range [of m objects i] in simp)
  then have range: "m < length objects" "i < length (ob_symbols (objects ! m))" by simp_all
  with assms have "answer objects ?sy = Some t" by (simp add: resolved_at)
  then have "reference ?sy" "?defs \<noteq> []"
    and t: "t = \<lparr>targetModule = ds_moduleIdx (choose_definition ?defs),
              targetIndex = sy_index (ds_symbol (choose_definition ?defs)), rs_name = sy_name ?sy\<rparr>"
    by (auto simp: answer_def Let_def split: if_splits)
  with range choose_definition_mem [OF this(2)] that [of ?sy "choose_definition ?defs"] show thesis by simp
qed

lemma resolved_reference:
  assumes "m < length objects" "i < length (ob_symbols (objects ! m))" "reference (ob_symbols (objects ! m) ! i)"
    and "definitions_of objects (symbol_key (ob_symbols (objects ! m) ! i)) \<noteq> []"
  shows "map_of (resolved (resolveSymbols objects)) (m, i) \<noteq> None"
  using assms by (simp add: resolved_at answer_def Let_def)

lemma resolve_errors_Nil:
  "res_errors (resolveSymbols objects) = [] \<longleftrightarrow>
     (\<forall>d \<in> set (symbol_sites objects). reference (ds_symbol d) \<longrightarrow> definitions_of objects (symbol_key (ds_symbol d)) \<noteq> []) \<and>
     (\<forall>key. length (strong_sites (definitions_of objects key)) \<le> 1)"
proof -
  have "concat (map (duplicate_errors objects) (definedSymbols objects)) = [] \<longleftrightarrow>
      (\<forall>(key, ds) \<in> set (definedSymbols objects). length (strong_sites ds) \<le> 1)"
    by (auto simp: duplicate_errors_def Let_def split: if_splits)
  also have "\<dots> \<longleftrightarrow> (\<forall>key. length (strong_sites (definitions_of objects key)) \<le> 1)"
  proof (intro iffI allI)
    fix key
    assume all: "\<forall>(key, ds) \<in> set (definedSymbols objects). length (strong_sites ds) \<le> 1"
    show "length (strong_sites (definitions_of objects key)) \<le> 1"
    proof (cases "definitions_of objects key = []")
      case True
      then show ?thesis by (simp add: strong_sites_def)
    next
      case False
      then have "(key, definitions_of objects key) \<in> set (definedSymbols objects)" by (simp add: mem_definedSymbols)
      with all show ?thesis by blast
    qed
  qed (simp add: case_prod_beta mem_definedSymbols split_paired_all)
  finally show ?thesis by (simp add: resolveSymbols_def Let_def fold_errors_Nil conj_commute)
qed

end
