(* ===== verification/Link_Isolation.thy ===== *)
theory Link_Isolation
  imports Link_Resolver
begin

text \<open>
  \<^verbatim>\<open>src/src/link/isolation.ts\<close>: the five isolation checks over parsed objects and their resolution. Each
  check appends violations; the report's five booleans are characterised by what the checks look for.
\<close>

datatype isolation_property =
    importExportOnly | noSharedGlobals | memoryIsolation | noPrivateFunctionAccess | tableIsolation

record isolation_violation =
  vi_property :: isolation_property
  vi_module :: js_string
  vi_targetModule :: js_string
  vi_symbol :: js_string
  vi_message :: js_string

record isolation_report =
  ir_modules :: "js_string list"
  ir_properties :: "isolation_property \<Rightarrow> bool"
  ir_violations :: "isolation_violation list"

section \<open>The checks\<close>

definition findDefinedSymbol :: "parsed_object \<Rightarrow> js_string \<Rightarrow> nat \<Rightarrow> symbol_info option" where
  "findDefinedSymbol obj name kind =
     List.find (\<lambda>s. sy_name s = name \<and> sy_kind s = kind \<and> \<not> undefined_symbol s) (ob_symbols obj)"

text \<open>A resolved reference to another module, with the module and the symbol found there.\<close>

definition cross_reference :: "parsed_object list \<Rightarrow> resolution \<Rightarrow> definition_site \<Rightarrow> (parsed_object \<times> symbol_info) option" where
  "cross_reference objects resolution site =
     (let sy = ds_symbol site in
      if \<not> undefined_symbol sy then None
      else
        case map_of (resolved resolution) (ds_moduleIdx site, ds_symbolIdx site) of
          None \<Rightarrow> None
        | Some target \<Rightarrow>
            if targetModule target = ds_moduleIdx site then None
            else
              let targetObj = objects ! targetModule target in
              map_option (\<lambda>targetSym. (targetObj, targetSym)) (findDefinedSymbol targetObj (sy_name sy) (sy_kind sy)))"

lemma cross_reference_Some:
  "cross_reference objects res \<lparr>ds_moduleIdx = m, ds_symbolIdx = i, ds_symbol = sy\<rparr> = Some (tobj, tsym) \<longleftrightarrow>
     undefined_symbol sy \<and>
     (\<exists>t. map_of (resolved res) (m, i) = Some t \<and> targetModule t \<noteq> m \<and> tobj = objects ! targetModule t \<and>
        List.find (\<lambda>s. sy_name s = sy_name sy \<and> sy_kind s = sy_kind sy \<and> \<not> undefined_symbol s) (ob_symbols tobj) = Some tsym)"
  by (auto simp: cross_reference_def findDefinedSymbol_def Let_def split: option.splits)

definition checkImportExportOnly :: "parsed_object list \<Rightarrow> resolution \<Rightarrow> isolation_violation list" where
  "checkImportExportOnly objects resolution =
     concat (map (\<lambda>site.
       case cross_reference objects resolution site of
         None \<Rightarrow> []
       | Some (targetObj, targetSym) \<Rightarrow>
           let obj = objects ! ds_moduleIdx site; name = sy_name (ds_symbol site) in
           if \<not> flagged (sy_flags targetSym) SYMBOL_EXPORTED then
             [\<lparr>vi_property = importExportOnly, vi_module = ob_name obj, vi_targetModule = ob_name targetObj,
               vi_symbol = name,
               vi_message = str ''Module '' @ quoted (ob_name obj) @ str '' references symbol '' @ quoted name @
                 str '' in '' @ quoted (ob_name targetObj) @ str '' which is not marked as exported''\<rparr>]
           else []) (symbol_sites objects))"

text \<open>The mutable globals a module defines under a visible name.\<close>

definition mutable_global :: "parsed_object \<Rightarrow> symbol_info \<Rightarrow> bool" where
  "mutable_global obj sy \<longleftrightarrow>
     sy_kind sy = SYMTAB_GLOBAL \<and> visible_definition sy \<and>
     (let numImportGlobals = length (filter (\<lambda>imp. im_kind imp = 3) (ob_imports obj)) in
      numImportGlobals \<le> sy_index sy \<and> sy_index sy - numImportGlobals < length (ob_globals obj) \<and>
      gl_mutable (ob_globals obj ! (sy_index sy - numImportGlobals)))"

type_synonym global_defs = "(js_string \<times> js_string list) list"

definition add_global :: "parsed_object list \<Rightarrow> definition_site \<Rightarrow> global_defs \<Rightarrow> global_defs" where
  "add_global objects site defs =
     (let obj = objects ! ds_moduleIdx site; name = sy_name (ds_symbol site) in
      if mutable_global obj (ds_symbol site) then
        AList.update name ((case map_of defs name of None \<Rightarrow> [] | Some lst \<Rightarrow> lst) @ [ob_name obj]) defs
      else defs)"

fun pairs_of :: "'a list \<Rightarrow> ('a \<times> 'a) list" where
  "pairs_of [] = []"
| "pairs_of (x # xs) = map (\<lambda>y. (x, y)) xs @ pairs_of xs"

definition checkNoSharedGlobals :: "parsed_object list \<Rightarrow> isolation_violation list" where
  "checkNoSharedGlobals objects =
     concat (map (\<lambda>(name, defs).
       map (\<lambda>(a, b).
         \<lparr>vi_property = noSharedGlobals, vi_module = a, vi_targetModule = b, vi_symbol = name,
          vi_message = str ''Mutable global '' @ quoted name @ str '' defined in both '' @ quoted a @ str '' and '' @ quoted b\<rparr>)
         (pairs_of defs)) (fold (add_global objects) (symbol_sites objects) []))"

definition checkMemoryIsolation :: "parsed_object list \<Rightarrow> isolation_violation list" where
  "checkMemoryIsolation objects =
     concat (map (\<lambda>obj.
       if length (ob_memories obj) > 1 then
         [\<lparr>vi_property = memoryIsolation, vi_module = ob_name obj, vi_targetModule = ob_name obj,
           vi_symbol = str ''<memory>'',
           vi_message = str ''Module '' @ quoted (ob_name obj) @ str '' defines '' @ decimal (length (ob_memories obj)) @
             str '' memories; expected at most 1''\<rparr>]
       else []) objects)"

definition checkNoPrivateFunctionAccess :: "parsed_object list \<Rightarrow> resolution \<Rightarrow> isolation_violation list" where
  "checkNoPrivateFunctionAccess objects resolution =
     concat (map (\<lambda>site.
       case cross_reference objects resolution site of
         None \<Rightarrow> []
       | Some (targetObj, targetSym) \<Rightarrow>
           let obj = objects ! ds_moduleIdx site; name = sy_name (ds_symbol site) in
           if local_symbol targetSym then
             [\<lparr>vi_property = noPrivateFunctionAccess, vi_module = ob_name obj, vi_targetModule = ob_name targetObj,
               vi_symbol = name,
               vi_message = str ''Module '' @ quoted (ob_name obj) @ str '' accesses private (local-binding) symbol '' @
                 quoted name @ str '' in '' @ quoted (ob_name targetObj)\<rparr>]
           else []) (symbol_sites objects))"

definition table_reloc :: "reloc_entry \<Rightarrow> bool" where
  "table_reloc reloc \<longleftrightarrow> rl_type reloc \<in>
     {R_WASM_TABLE_NUMBER_LEB, R_WASM_TABLE_INDEX_SLEB, R_WASM_TABLE_INDEX_I32, R_WASM_TABLE_INDEX_LEB}"

definition table_violations :: "parsed_object list \<Rightarrow> resolution \<Rightarrow> nat \<Rightarrow> parsed_object \<Rightarrow> reloc_entry \<Rightarrow> isolation_violation list" where
  "table_violations objects resolution modIdx obj reloc =
     (if table_reloc reloc \<and> rl_symbolIndex reloc < length (ob_symbols obj) then
        let sy = ob_symbols obj ! rl_symbolIndex reloc in
        if undefined_symbol sy then
          case map_of (resolved resolution) (modIdx, rl_symbolIndex reloc) of
            None \<Rightarrow> []
          | Some target \<Rightarrow>
              if targetModule target \<noteq> modIdx then
                let targetObj = objects ! targetModule target in
                [\<lparr>vi_property = tableIsolation, vi_module = ob_name obj, vi_targetModule = ob_name targetObj,
                  vi_symbol = (if sy_name sy \<noteq> [] then sy_name sy
                               else str ''<table:'' @ decimal (sy_index sy) @ str ''>''),
                  vi_message = str ''Module '' @ quoted (ob_name obj) @ str '' references table in '' @ quoted (ob_name targetObj)\<rparr>]
              else []
        else []
      else [])"

definition checkTableIsolation :: "parsed_object list \<Rightarrow> resolution \<Rightarrow> isolation_violation list" where
  "checkTableIsolation objects resolution =
     concat (map (\<lambda>(modIdx, obj).
       concat (map (\<lambda>(secName, relocs). concat (map (table_violations objects resolution modIdx obj) relocs))
         (ob_relocations obj))) (enumerate 0 objects))"

definition validateIsolation :: "parsed_object list \<Rightarrow> resolution \<Rightarrow> isolation_report" where
  "validateIsolation objects resolution =
     (let violations = checkImportExportOnly objects resolution @ checkNoSharedGlobals objects @
            checkMemoryIsolation objects @ checkNoPrivateFunctionAccess objects resolution @
            checkTableIsolation objects resolution in
      \<lparr>ir_modules = map ob_name objects,
       ir_properties = (\<lambda>p. \<not> list_ex (\<lambda>v. vi_property v = p) violations),
       ir_violations = violations\<rparr>)"

section \<open>What the report says\<close>

lemma check_properties:
  "v \<in> set (checkImportExportOnly objects res) \<Longrightarrow> vi_property v = importExportOnly"
  "v \<in> set (checkNoSharedGlobals objects) \<Longrightarrow> vi_property v = noSharedGlobals"
  "v \<in> set (checkMemoryIsolation objects) \<Longrightarrow> vi_property v = memoryIsolation"
  "v \<in> set (checkNoPrivateFunctionAccess objects res) \<Longrightarrow> vi_property v = noPrivateFunctionAccess"
  "v \<in> set (checkTableIsolation objects res) \<Longrightarrow> vi_property v = tableIsolation"
  by (auto simp: checkImportExportOnly_def checkNoSharedGlobals_def checkMemoryIsolation_def
      checkNoPrivateFunctionAccess_def checkTableIsolation_def table_violations_def Let_def
      split: option.splits if_splits prod.splits)

lemma violation_of: "(\<And>v. v \<in> set vs \<Longrightarrow> vi_property v = q) \<Longrightarrow> list_ex (\<lambda>v. vi_property v = p) vs \<longleftrightarrow> vs \<noteq> [] \<and> q = p"
  by (cases vs) (auto simp: list_ex_iff)

lemmas violations_of = check_properties [THEN violation_of]

lemma report_flags:
  "ir_properties (validateIsolation objects res) importExportOnly \<longleftrightarrow> checkImportExportOnly objects res = []"
  "ir_properties (validateIsolation objects res) noSharedGlobals \<longleftrightarrow> checkNoSharedGlobals objects = []"
  "ir_properties (validateIsolation objects res) memoryIsolation \<longleftrightarrow> checkMemoryIsolation objects = []"
  "ir_properties (validateIsolation objects res) noPrivateFunctionAccess \<longleftrightarrow> checkNoPrivateFunctionAccess objects res = []"
  "ir_properties (validateIsolation objects res) tableIsolation \<longleftrightarrow> checkTableIsolation objects res = []"
  by (simp_all add: validateIsolation_def Let_def violations_of)

lemma concat_map_Nil: "concat (map f xs) = [] \<longleftrightarrow> (\<forall>x \<in> set xs. f x = [])"
  by (induction xs) auto

lemma import_export_only:
  "checkImportExportOnly objects res = [] \<longleftrightarrow>
     (\<forall>site \<in> set (symbol_sites objects). \<forall>tobj tsym. cross_reference objects res site = Some (tobj, tsym) \<longrightarrow>
        flagged (sy_flags tsym) SYMBOL_EXPORTED)"
  unfolding checkImportExportOnly_def concat_map_Nil
  by (intro ball_cong refl) (auto simp: Let_def split: option.splits if_splits)

lemma no_private_access:
  "checkNoPrivateFunctionAccess objects res = [] \<longleftrightarrow>
     (\<forall>site \<in> set (symbol_sites objects). \<forall>tobj tsym. cross_reference objects res site = Some (tobj, tsym) \<longrightarrow>
        \<not> local_symbol tsym)"
  unfolding checkNoPrivateFunctionAccess_def concat_map_Nil
  by (intro ball_cong refl) (auto simp: Let_def split: option.splits if_splits)

text \<open>What a check of the cross references finds, by module and symbol index.\<close>

lemma cross_references:
  "(\<forall>site \<in> set (symbol_sites objects). \<forall>tobj tsym. cross_reference objects res site = Some (tobj, tsym) \<longrightarrow> Q tsym) \<longleftrightarrow>
     (\<forall>m i t tsym. m < length objects \<longrightarrow> i < length (ob_symbols (objects ! m)) \<longrightarrow>
        undefined_symbol (ob_symbols (objects ! m) ! i) \<longrightarrow> map_of (resolved res) (m, i) = Some t \<longrightarrow> targetModule t \<noteq> m \<longrightarrow>
        List.find (\<lambda>s. sy_name s = sy_name (ob_symbols (objects ! m) ! i) \<and> sy_kind s = sy_kind (ob_symbols (objects ! m) ! i) \<and>
          \<not> undefined_symbol s) (ob_symbols (objects ! targetModule t)) = Some tsym \<longrightarrow> Q tsym)"
  (is "?lhs \<longleftrightarrow> ?rhs")
proof
  assume all: ?lhs
  show ?rhs
  proof (intro allI impI)
    fix m i t tsym
    let ?sy = "ob_symbols (objects ! m) ! i"
    assume "m < length objects" "i < length (ob_symbols (objects ! m))" and c: "undefined_symbol ?sy"
      "map_of (resolved res) (m, i) = Some t" "targetModule t \<noteq> m"
      "List.find (\<lambda>s. sy_name s = sy_name ?sy \<and> sy_kind s = sy_kind ?sy \<and> \<not> undefined_symbol s)
         (ob_symbols (objects ! targetModule t)) = Some tsym"
    then have "\<lparr>ds_moduleIdx = m, ds_symbolIdx = i, ds_symbol = ?sy\<rparr> \<in> set (symbol_sites objects)"
      by (simp add: mem_symbol_sites)
    with all c show "Q tsym" by (blast intro: cross_reference_Some [THEN iffD2])
  qed
next
  assume all: ?rhs
  show ?lhs
  proof (intro ballI allI impI)
    fix site tobj tsym
    assume site: "site \<in> set (symbol_sites objects)" and c: "cross_reference objects res site = Some (tobj, tsym)"
    obtain m i sy where s: "site = \<lparr>ds_moduleIdx = m, ds_symbolIdx = i, ds_symbol = sy\<rparr>" by (cases site) auto
    with site have "m < length objects" "i < length (ob_symbols (objects ! m))" "sy = ob_symbols (objects ! m) ! i"
      by (simp_all add: mem_symbol_sites)
    with all c show "Q tsym" unfolding s cross_reference_Some by blast
  qed
qed

lemma memory_isolation: "checkMemoryIsolation objects = [] \<longleftrightarrow> (\<forall>obj \<in> set objects. length (ob_memories obj) \<le> 1)"
  unfolding checkMemoryIsolation_def concat_map_Nil by (intro ball_cong refl) auto

definition global_sites :: "parsed_object list \<Rightarrow> js_string \<Rightarrow> definition_site list" where
  "global_sites objects name =
     filter (\<lambda>d. mutable_global (objects ! ds_moduleIdx d) (ds_symbol d) \<and> sy_name (ds_symbol d) = name) (symbol_sites objects)"

lemma fold_add_global:
  "map_of (fold (add_global objects) sites []) name =
     (let ds = filter (\<lambda>d. mutable_global (objects ! ds_moduleIdx d) (ds_symbol d) \<and> sy_name (ds_symbol d) = name) sites in
      if ds = [] then None else Some (map (\<lambda>d. ob_name (objects ! ds_moduleIdx d)) ds))"
proof (induction sites rule: rev_induct)
  case (snoc d sites)
  then show ?case by (auto simp: add_global_def Let_def update_conv' split: option.splits if_splits)
qed simp

lemma distinct_globals: "distinct (map fst acc) \<Longrightarrow> distinct (map fst (fold (add_global objects) sites acc))"
  by (induction sites arbitrary: acc) (auto simp: add_global_def Let_def distinct_update)

lemma pairs_of_Nil: "pairs_of xs = [] \<longleftrightarrow> length xs \<le> 1"
  by (cases xs rule: pairs_of.cases) (auto simp: Suc_le_eq)

lemma no_shared_globals: "checkNoSharedGlobals objects = [] \<longleftrightarrow> (\<forall>name. length (global_sites objects name) \<le> 1)"
proof -
  let ?table = "fold (add_global objects) (symbol_sites objects) []"
  have entry: "(name, ds) \<in> set ?table \<longleftrightarrow>
      ds = map (\<lambda>d. ob_name (objects ! ds_moduleIdx d)) (global_sites objects name) \<and> ds \<noteq> []" for name ds
  proof -
    have "map_of ?table name = (if global_sites objects name = [] then None
        else Some (map (\<lambda>d. ob_name (objects ! ds_moduleIdx d)) (global_sites objects name)))"
      by (simp add: fold_add_global global_sites_def Let_def)
    moreover have "distinct (map fst ?table)" by (rule distinct_globals) simp
    ultimately show ?thesis by (subst map_of_eq_Some_iff [symmetric]) auto
  qed
  have "checkNoSharedGlobals objects = [] \<longleftrightarrow> (\<forall>(name, ds) \<in> set ?table. length ds \<le> 1)"
    unfolding checkNoSharedGlobals_def concat_map_Nil
    by (intro ball_cong refl) (auto simp: pairs_of_Nil)
  also have "\<dots> \<longleftrightarrow> (\<forall>name. length (global_sites objects name) \<le> 1)"
  proof (intro iffI allI)
    fix name
    assume all: "\<forall>(name, ds) \<in> set ?table. length ds \<le> 1"
    show "length (global_sites objects name) \<le> 1"
    proof (cases "global_sites objects name = []")
      case False
      then have "(name, map (\<lambda>d. ob_name (objects ! ds_moduleIdx d)) (global_sites objects name)) \<in> set ?table"
        by (simp add: entry)
      with all show ?thesis by fastforce
    qed simp
  qed (auto simp: entry)
  finally show ?thesis .
qed

lemma table_isolation:
  "checkTableIsolation objects res = [] \<longleftrightarrow>
     (\<forall>m < length objects. \<forall>(sec, relocs) \<in> set (ob_relocations (objects ! m)). \<forall>reloc \<in> set relocs.
        table_reloc reloc \<longrightarrow> rl_symbolIndex reloc < length (ob_symbols (objects ! m)) \<longrightarrow>
        undefined_symbol (ob_symbols (objects ! m) ! rl_symbolIndex reloc) \<longrightarrow>
        (\<forall>t. map_of (resolved res) (m, rl_symbolIndex reloc) = Some t \<longrightarrow> targetModule t = m))"
proof -
  have v: "table_violations objects res m obj reloc = [] \<longleftrightarrow>
      (table_reloc reloc \<longrightarrow> rl_symbolIndex reloc < length (ob_symbols obj) \<longrightarrow>
        undefined_symbol (ob_symbols obj ! rl_symbolIndex reloc) \<longrightarrow>
        (\<forall>t. map_of (resolved res) (m, rl_symbolIndex reloc) = Some t \<longrightarrow> targetModule t = m))" for m obj reloc
    by (auto simp: table_violations_def Let_def split: option.splits)
  have "checkTableIsolation objects res = [] \<longleftrightarrow>
      (\<forall>(m, obj) \<in> set (enumerate 0 objects). \<forall>(sec, relocs) \<in> set (ob_relocations obj). \<forall>reloc \<in> set relocs.
        table_violations objects res m obj reloc = [])"
    unfolding checkTableIsolation_def concat_map_Nil by (simp add: case_prod_beta concat_map_Nil)
  also have "\<dots> \<longleftrightarrow> (\<forall>m < length objects. \<forall>(sec, relocs) \<in> set (ob_relocations (objects ! m)). \<forall>reloc \<in> set relocs.
        table_violations objects res m (objects ! m) reloc = [])"
    by (auto simp: in_set_enumerate_eq Ball_def)
  finally show ?thesis unfolding v .
qed

text \<open>Private access cannot be reported for what \<^verbatim>\<open>resolveSymbols\<close> resolved, unless a local symbol of the
  target module shadows the visible definition under the same name and kind.\<close>

definition no_local_twin :: "parsed_object \<Rightarrow> bool" where
  "no_local_twin obj \<longleftrightarrow>
     (\<forall>a \<in> set (ob_symbols obj). \<forall>b \<in> set (ob_symbols obj).
        visible_definition a \<and> \<not> undefined_symbol b \<and> sy_name a = sy_name b \<and> sy_kind a = sy_kind b \<longrightarrow> \<not> local_symbol b)"

lemma resolved_not_private:
  assumes "\<forall>obj \<in> set objects. no_local_twin obj"
  shows "checkNoPrivateFunctionAccess objects (resolveSymbols objects) = []"
  unfolding no_private_access
proof (intro ballI allI impI)
  fix site tobj tsym
  assume "cross_reference objects (resolveSymbols objects) site = Some (tobj, tsym)"
  then obtain t where t: "map_of (resolved (resolveSymbols objects)) (ds_moduleIdx site, ds_symbolIdx site) = Some t"
    and tobj: "tobj = objects ! targetModule t"
    and f: "findDefinedSymbol tobj (sy_name (ds_symbol site)) (sy_kind (ds_symbol site)) = Some tsym"
    by (auto simp: cross_reference_def Let_def split: if_splits option.splits)
  assume "site \<in> set (symbol_sites objects)"
  then have sy: "ds_symbol site = ob_symbols (objects ! ds_moduleIdx site) ! ds_symbolIdx site"
    by (simp add: mem_symbol_sites)
  obtain d where d: "d \<in> set (definitions_of objects (symbol_key (ds_symbol site)))" "targetModule t = ds_moduleIdx d"
    by (rule resolved_target [OF t]) (auto simp: sy)
  then have m: "ds_moduleIdx d < length objects" "ds_symbol d \<in> set (ob_symbols (objects ! ds_moduleIdx d))"
    and vis: "visible_definition (ds_symbol d)" "sy_name (ds_symbol d) = sy_name (ds_symbol site)"
      "sy_kind (ds_symbol d) = sy_kind (ds_symbol site)"
    by (auto simp: mem_definitions_of mem_symbol_sites)
  from f have "tsym \<in> set (ob_symbols tobj)" "sy_name tsym = sy_name (ds_symbol site)"
    "sy_kind tsym = sy_kind (ds_symbol site)" "\<not> undefined_symbol tsym"
    by (auto simp: findDefinedSymbol_def find_Some_iff)
  moreover have "no_local_twin tobj" using assms m(1) d(2) by (simp add: tobj)
  ultimately show "\<not> local_symbol tsym"
    using m(2) vis d(2) unfolding no_local_twin_def tobj by metis
qed

end
