(* ===== verification/Link_Linker.thy ===== *)
theory Link_Linker
  imports Link_Isolation
begin

text \<open>
  \<^verbatim>\<open>src/src/link/linker.ts\<close>: offsets of the merged index spaces, rewriting of function bodies, emission of
  the merged module and the \<^verbatim>\<open>link\<close> entry point with its error reporting.
\<close>

section \<open>Messages\<close>

definition number_text :: "js_number \<Rightarrow> js_string" where
  "number_text v =
     (case v of
        Integral i \<Rightarrow> (if i < 0 then str ''-'' @ decimal (nat (- i)) else decimal (nat i))
      | NonIntegral s \<Rightarrow> s)"

fun error_message :: "wasm_error \<Rightarrow> js_string" where
  "error_message (U32Range v) = str ''u32 out of range: '' @ number_text v"
| "error_message SetRange = str ''offset is out of bounds''"
| "error_message (V128Length n) = str ''v128 must be exactly 16 bytes''"
| "error_message (UnexpectedEnd p) = str ''Unexpected end of data at offset '' @ decimal p"
| "error_message (UnexpectedEndNeed n p) =
     str ''Unexpected end of data: need '' @ decimal n @ str '' bytes at offset '' @ decimal p"
| "error_message (InvalidMagic name) = str ''Invalid wasm magic in '' @ quoted name"
| "error_message (UnsupportedVersion name) = str ''Unsupported wasm version in '' @ quoted name"
| "error_message (UnsupportedTypeForm form) = str ''Unsupported type form 0x'' @ to_radix 16 form"
| "error_message (UnknownImportKind kind) = str ''Unknown import kind: '' @ decimal kind"
| "error_message (UnsupportedLinkingVersion v) = str ''Unsupported linking section version: '' @ decimal v"
| "error_message (UnknownSymbolKind kind) = str ''Unknown symbol kind: '' @ decimal kind"
| "error_message (Thrown msg) = msg"

datatype severity = Error | Warning

record link_error =
  le_message :: js_string
  le_module :: "js_string option"
  le_severity :: severity

record link_result =
  lr_binary :: "byte list"
  lr_wat :: js_string
  lr_success :: bool
  lr_errors :: "link_error list"
  lr_isolationReport :: isolation_report

record link_options =
  lo_entry :: "js_string option"
  lo_validateIsolation :: "bool option"

section \<open>Offsets\<close>

record module_offsets =
  typeOffset :: nat
  funcOffset :: nat
  globalOffset :: nat
  memoryOffset :: nat
  tableOffset :: nat
  tagOffset :: nat

definition import_count :: "nat \<Rightarrow> parsed_object \<Rightarrow> nat" where
  "import_count kind obj = length (filter (\<lambda>i. im_kind i = kind) (ob_imports obj))"

definition advance_offsets :: "parsed_object \<Rightarrow> module_offsets \<Rightarrow> module_offsets" where
  "advance_offsets obj off =
     \<lparr>typeOffset = typeOffset off + length (ob_types obj),
      funcOffset = funcOffset off + (import_count 0 obj + length (ob_functions obj)),
      globalOffset = globalOffset off + (import_count 3 obj + length (ob_globals obj)),
      memoryOffset = memoryOffset off + (import_count 2 obj + length (ob_memories obj)),
      tableOffset = tableOffset off + (import_count 1 obj + length (ob_tables obj)),
      tagOffset = tagOffset off + (import_count 4 obj + length (ob_tags obj))\<rparr>"

fun offsets_from :: "module_offsets \<Rightarrow> parsed_object list \<Rightarrow> module_offsets list" where
  "offsets_from off [] = []"
| "offsets_from off (obj # objs) = off # offsets_from (advance_offsets obj off) objs"

definition no_offsets :: module_offsets where
  "no_offsets = \<lparr>typeOffset = 0, funcOffset = 0, globalOffset = 0, memoryOffset = 0, tableOffset = 0, tagOffset = 0\<rparr>"

definition computeOffsets :: "parsed_object list \<Rightarrow> module_offsets list" where
  "computeOffsets parsed = offsets_from no_offsets parsed"

section \<open>Code rewriting\<close>

text \<open>Reading past the end of a \<^verbatim>\<open>Uint8Array\<close> gives \<^verbatim>\<open>undefined\<close>, which the bitwise operators take as 0.\<close>

fun read_leb :: "32 word \<Rightarrow> nat \<Rightarrow> nat \<Rightarrow> byte list \<Rightarrow> nat \<times> nat" where
  "read_leb result shift sz [] = (unat result, sz + 1)"
| "read_leb result shift sz (w # data) =
     (let b = unat w; result = result OR push_bit (shift mod 32) (word_of_nat b AND 0x7f) in
      if b AND 0x80 \<noteq> 0 then read_leb result (shift + 7) (sz + 1) data else (unat result, sz + 1))"

definition readLEB128 :: "byte list \<Rightarrow> nat \<times> nat" where
  "readLEB128 data = read_leb 0 0 0 data"

lemma shrinking_word: "drop_bit 7 v \<noteq> 0 \<Longrightarrow> unat (drop_bit 7 v) < unat v" for v :: "32 word"
  by (rule drop_bit_7_less)

function append_loop :: "32 word \<Rightarrow> byte list" where
  "append_loop v =
     (let b = v AND 0x7f; v' = drop_bit 7 v; b = (if v' \<noteq> 0 then b OR 0x80 else b) in
      word_of_int (uint b) # (if v' \<noteq> 0 then append_loop v' else []))"
  by pat_completeness auto
termination by (relation "measure unat") (auto intro: shrinking_word)

declare append_loop.simps [simp del]

definition appendLEB128 :: "nat \<Rightarrow> byte list" where
  "appendLEB128 value = append_loop (word_of_nat value)"

definition target_offset :: "nat \<Rightarrow> module_offsets \<Rightarrow> nat option" where
  "target_offset kind off =
     (if kind = SYMTAB_FUNCTION then Some (funcOffset off)
      else if kind = SYMTAB_GLOBAL then Some (globalOffset off)
      else if kind = SYMTAB_TABLE then Some (tableOffset off)
      else None)"

definition resolved_index :: "nat \<Rightarrow> nat \<Rightarrow> nat \<Rightarrow> module_offsets list \<Rightarrow> resolution \<Rightarrow> symbol_info \<Rightarrow> nat option" where
  "resolved_index kind modIdx symIdx allOffsets res sy =
     (if undefined_symbol sy then
        case map_of (resolved res) (modIdx, symIdx) of
          None \<Rightarrow> None
        | Some t \<Rightarrow> map_option (\<lambda>o'. targetIndex t + o') (target_offset kind (allOffsets ! targetModule t))
      else None)"

fun resolve_scan :: "nat \<Rightarrow> nat \<Rightarrow> nat \<Rightarrow> nat \<Rightarrow> module_offsets list \<Rightarrow> resolution \<Rightarrow> nat \<Rightarrow> symbol_info list \<Rightarrow> nat" where
  "resolve_scan origIdx kind modIdx baseOffset allOffsets res symIdx [] = origIdx + baseOffset"
| "resolve_scan origIdx kind modIdx baseOffset allOffsets res symIdx (sy # syms) =
     (if sy_kind sy \<noteq> kind \<or> sy_index sy \<noteq> origIdx then
        resolve_scan origIdx kind modIdx baseOffset allOffsets res (symIdx + 1) syms
      else
        case resolved_index kind modIdx symIdx allOffsets res sy of
          Some i \<Rightarrow> i
        | None \<Rightarrow> origIdx + baseOffset)"

definition resolveIndex :: "nat \<Rightarrow> nat \<Rightarrow> parsed_object \<Rightarrow> nat \<Rightarrow> nat \<Rightarrow> module_offsets list \<Rightarrow> resolution \<Rightarrow> nat" where
  "resolveIndex origIdx kind obj modIdx baseOffset allOffsets res =
     resolve_scan origIdx kind modIdx baseOffset allOffsets res 0 (ob_symbols obj)"

text \<open>The index translations of one module, as the rewriting loop uses them.\<close>

record relocator =
  rc_func :: "nat \<Rightarrow> nat"
  rc_global :: "nat \<Rightarrow> nat"
  rc_table :: "nat \<Rightarrow> nat"
  rc_type :: "nat \<Rightarrow> nat"
  rc_memory :: "nat \<Rightarrow> nat"

definition module_relocator :: "parsed_object \<Rightarrow> nat \<Rightarrow> module_offsets \<Rightarrow> module_offsets list \<Rightarrow> resolution \<Rightarrow> relocator" where
  "module_relocator obj modIdx off allOffsets res =
     \<lparr>rc_func = (\<lambda>i. resolveIndex i SYMTAB_FUNCTION obj modIdx (funcOffset off) allOffsets res),
      rc_global = (\<lambda>i. resolveIndex i SYMTAB_GLOBAL obj modIdx (globalOffset off) allOffsets res),
      rc_table = (\<lambda>i. resolveIndex i SYMTAB_TABLE obj modIdx (tableOffset off) allOffsets res),
      rc_type = (\<lambda>i. i + typeOffset off),
      rc_memory = (\<lambda>i. i + memoryOffset off)\<rparr>"

text \<open>One immediate: its translation re-encoded, and what follows it.\<close>

definition rewrite_immediate :: "(nat \<Rightarrow> nat) \<Rightarrow> byte list \<Rightarrow> byte list \<times> byte list" where
  "rewrite_immediate f data = (let (v, sz) = readLEB128 data in (appendLEB128 (f v), drop sz data))"

function rewrite_loop :: "relocator \<Rightarrow> byte list \<Rightarrow> byte list" where
  "rewrite_loop rc [] = []"
| "rewrite_loop rc (opcode # rest) =
     (if opcode = 0x10 then
        (let (imm, rest') = rewrite_immediate (rc_func rc) rest in opcode # imm @ rewrite_loop rc rest')
      else if opcode = 0x23 \<or> opcode = 0x24 then
        (let (imm, rest') = rewrite_immediate (rc_global rc) rest in opcode # imm @ rewrite_loop rc rest')
      else if opcode = 0x3f \<or> opcode = 0x40 then
        (let (imm, rest') = rewrite_immediate (rc_memory rc) rest in opcode # imm @ rewrite_loop rc rest')
      else if opcode = 0x11 then
        (let (imm, rest') = rewrite_immediate (rc_type rc) rest;
             (imm2, rest'') = rewrite_immediate (rc_table rc) rest' in
         opcode # imm @ imm2 @ rewrite_loop rc rest'')
      else opcode # rewrite_loop rc rest)"
  by pat_completeness auto
termination
proof (relation "measure (\<lambda>(_, body). length body)", goal_cases)
  case 1 show ?case by simp
qed (auto simp: rewrite_immediate_def case_prod_beta Let_def)

definition rewriteCode :: "byte list \<Rightarrow> parsed_object \<Rightarrow> nat \<Rightarrow> module_offsets \<Rightarrow> module_offsets list \<Rightarrow> resolution \<Rightarrow> byte list" where
  "rewriteCode body obj modIdx off allOffsets res = rewrite_loop (module_relocator obj modIdx off allOffsets res) body"

section \<open>Emission\<close>

abbreviation put_nat :: "nat \<Rightarrow> encoder \<Rightarrow> wasm_error + encoder" where
  "put_nat n \<equiv> u32 (Integral (int n))"

abbreviation put_byte_nat :: "nat \<Rightarrow> encoder \<Rightarrow> wasm_error + encoder" where
  "put_byte_nat b \<equiv> put_byte (int b)"

definition emit_type :: "type_section \<Rightarrow> encoder \<Rightarrow> wasm_error + encoder" where
  "emit_type t =
     steps [put_byte_nat 0x60, put_nat (length (ts_params t)), for_each (ts_params t) put_byte_nat,
            put_nat (length (ts_results t)), for_each (ts_results t) put_byte_nat]"

definition emit_limits :: "nat \<Rightarrow> nat option \<Rightarrow> encoder \<Rightarrow> wasm_error + encoder" where
  "emit_limits mn mx =
     (case mx of
        Some m \<Rightarrow> steps [put_byte_nat 0x01, put_nat mn, put_nat m]
      | None \<Rightarrow> steps [put_byte_nat 0x00, put_nat mn])"

definition emit_table :: "table_entry \<Rightarrow> encoder \<Rightarrow> wasm_error + encoder" where
  "emit_table t = steps [put_byte_nat (tb_elementType t), emit_limits (tb_min t) (tb_max t)]"

definition emit_memory :: "memory_entry \<Rightarrow> encoder \<Rightarrow> wasm_error + encoder" where
  "emit_memory m = emit_limits (mem_min m) (mem_max m)"

definition emit_tag :: "tag_entry \<Rightarrow> encoder \<Rightarrow> wasm_error + encoder" where
  "emit_tag t = steps [put_byte_nat (tg_attribute t), put_nat (tg_typeIdx t)]"

definition emit_global :: "global_entry \<Rightarrow> encoder \<Rightarrow> wasm_error + encoder" where
  "emit_global g =
     steps [put_byte_nat (gl_type g), put_byte_nat (if gl_mutable g then 0x01 else 0x00), put_bytes (Uint8Array (gl_init g))]"

definition emit_export :: "export_entry \<Rightarrow> encoder \<Rightarrow> wasm_error + encoder" where
  "emit_export x = steps [put_name (ex_name x), put_byte_nat (ex_kind x), put_nat (ex_index x)]"

definition emit_payload :: "element_entry \<Rightarrow> encoder \<Rightarrow> wasm_error + encoder" where
  "emit_payload el =
     (case (usesExprs (el_flags el), el_elemExprs el) of
        (True, Some exprs) \<Rightarrow> steps [put_nat (el_elemCount el), put_bytes (Uint8Array exprs)]
      | _ \<Rightarrow> steps [put_nat (length (el_funcIndices el)), for_each (el_funcIndices el) put_nat])"

definition emit_when :: "bool \<Rightarrow> (encoder \<Rightarrow> wasm_error + encoder) \<Rightarrow> encoder \<Rightarrow> wasm_error + encoder" where
  "emit_when c op e = (if c then op e else Inr e)"

definition emit_element :: "element_entry \<Rightarrow> encoder \<Rightarrow> wasm_error + encoder" where
  "emit_element el =
     steps [put_nat (el_flags el),
            emit_when (hasExplicitTable (el_flags el)) (put_nat (el_tableIdx el)),
            (case el_offsetExpr el of None \<Rightarrow> Inr | Some ex \<Rightarrow> emit_when (isActive (el_flags el)) (put_bytes (Uint8Array ex))),
            (case el_kindByte el of None \<Rightarrow> Inr | Some b \<Rightarrow> emit_when (hasKindByte (el_flags el)) (put_byte_nat b)),
            emit_payload el]"

definition emit_body :: "code_entry \<Rightarrow> byte list \<Rightarrow> encoder \<Rightarrow> wasm_error + encoder" where
  "emit_body code rewrittenBody e =
     bindE (steps [put_nat (length (cd_locals code)),
                   for_each (cd_locals code) (\<lambda>(cnt, typ). steps [put_nat cnt, put_byte_nat typ]),
                   put_bytes (Uint8Array rewrittenBody)] new_encoder) (\<lambda>bodyEnc.
       let bodyBytes = enc_finish bodyEnc in
       steps [put_nat (length bodyBytes), put_bytes (Uint8Array bodyBytes)] e)"

text \<open>A section that is left out when it has no entries.\<close>

definition emit_section :: "nat \<Rightarrow> 'a list \<Rightarrow> ('a \<Rightarrow> encoder \<Rightarrow> wasm_error + encoder) \<Rightarrow> encoder \<Rightarrow> wasm_error + encoder" where
  "emit_section ident items op =
     emit_when (items \<noteq> []) (put_section (int ident) (steps [put_nat (length items), for_each items op]))"

definition shift_tag :: "module_offsets \<Rightarrow> tag_entry \<Rightarrow> tag_entry" where
  "shift_tag off t = t\<lparr>tg_typeIdx := tg_typeIdx t + typeOffset off\<rparr>"

definition shift_export :: "module_offsets \<Rightarrow> export_entry \<Rightarrow> export_entry" where
  "shift_export off x =
     x\<lparr>ex_index := ex_index x +
        (if ex_kind x = 0 then funcOffset off else if ex_kind x = 1 then tableOffset off
         else if ex_kind x = 2 then memoryOffset off else if ex_kind x = 3 then globalOffset off else 0)\<rparr>"

definition trace_export :: "parsed_object \<Rightarrow> module_offsets \<Rightarrow> export_entry \<Rightarrow> export_entry list" where
  "trace_export obj off x =
     (if ex_kind x = 3 \<and> startsWith_at (ex_name x) (str ''__trace_last_stmt_'') 0 then
        [\<lparr>ex_name = ex_name x @ [cu CHR ''@''] @ ob_name obj, ex_kind = 3, ex_index = ex_index x + globalOffset off\<rparr>]
      else [])"

text \<open>\<^verbatim>\<open>entryModuleName && \<dots>\<close>: an absent or empty entry name exports every module. The environment variable
  \<^verbatim>\<open>JS2WASM_TRACE_LAST_STMT\<close> is the parameter \<open>trace\<close>.\<close>

definition module_exports :: "bool \<Rightarrow> js_string option \<Rightarrow> parsed_object \<times> module_offsets \<Rightarrow> export_entry list" where
  "module_exports trace entry = (\<lambda>(obj, off).
     if entry \<noteq> None \<and> entry \<noteq> Some [] \<and> entry \<noteq> Some (ob_name obj) then
       (if trace then concat (map (trace_export obj off) (ob_exports obj)) else [])
     else map (shift_export off) (ob_exports obj))"

definition shift_element :: "module_offsets \<Rightarrow> element_entry \<Rightarrow> element_entry" where
  "shift_element off el =
     el\<lparr>el_tableIdx := el_tableIdx el + tableOffset off,
        el_funcIndices := map (\<lambda>i. i + funcOffset off) (el_funcIndices el)\<rparr>"

definition allFunctions :: "(parsed_object \<times> module_offsets) list \<Rightarrow> nat list" where
  "allFunctions modules = concat (map (\<lambda>(obj, off). map (\<lambda>t. t + typeOffset off) (ob_functions obj)) modules)"

definition allBodies :: "(parsed_object \<times> module_offsets) list \<Rightarrow> resolution \<Rightarrow> (code_entry \<times> byte list) list" where
  "allBodies modules res =
     concat (map (\<lambda>(modIdx, obj, off). map (\<lambda>code. (code, rewriteCode (cd_body code) obj modIdx off (map snd modules) res)) (ob_code obj))
       (enumerate 0 modules))"

definition emitLinked :: "bool \<Rightarrow> js_string option \<Rightarrow> parsed_object list \<Rightarrow> resolution \<Rightarrow> module_offsets list \<Rightarrow> wasm_error + byte list" where
  "emitLinked trace entry parsed res offsets =
     (let modules = zip parsed offsets in
      bindE (steps
        [put_bytes (Numbers [0x00, 0x61, 0x73, 0x6d]),
         put_bytes (Numbers [0x01, 0x00, 0x00, 0x00]),
         emit_section 1 (concat (map ob_types parsed)) emit_type,
         emit_section 3 (allFunctions modules) put_nat,
         emit_section 4 (concat (map ob_tables parsed)) emit_table,
         emit_section 5 (concat (map ob_memories parsed)) emit_memory,
         emit_section 13 (concat (map (\<lambda>(obj, off). map (shift_tag off) (ob_tags obj)) modules)) emit_tag,
         emit_section 6 (concat (map ob_globals parsed)) emit_global,
         emit_section 7 (concat (map (module_exports trace entry) modules)) emit_export,
         emit_section 9 (concat (map (\<lambda>(obj, off). map (shift_element off) (ob_elements obj)) modules)) emit_element,
         emit_when (allFunctions modules \<noteq> [])
           (put_section 10 (steps [put_nat (length (allFunctions modules)),
              for_each (allBodies modules res) (\<lambda>(code, body). emit_body code body)]))] new_encoder) (\<lambda>enc.
        Inr (enc_finish enc)))"

section \<open>The WAT stub and the entry point\<close>

definition wat_func :: "parsed_object \<Rightarrow> module_offsets \<Rightarrow> nat \<times> nat \<Rightarrow> js_string" where
  "wat_func obj off = (\<lambda>(i, typeIdx).
     let exportClause =
           (case List.find (\<lambda>x. ex_kind x = 0 \<and> ex_index x = i) (ob_exports obj) of
              None \<Rightarrow> []
            | Some x \<Rightarrow> str '' (export '' @ quoted (ex_name x) @ str '')'') in
     str ''  (func $f'' @ decimal (i + funcOffset off) @ exportClause @ str '' (type '' @ decimal (typeIdx + typeOffset off) @ str ''))'')"

definition wat_memory :: "module_offsets \<Rightarrow> nat \<times> memory_entry \<Rightarrow> js_string" where
  "wat_memory off = (\<lambda>(i, m).
     str ''  (memory $mem'' @ decimal (i + memoryOffset off) @ str '' '' @ decimal (mem_min m) @
     (case mem_max m of None \<Rightarrow> [] | Some mx \<Rightarrow> str '' '' @ decimal mx) @ str '')'')"

definition generateWatStub :: "parsed_object list \<Rightarrow> module_offsets list \<Rightarrow> js_string" where
  "generateWatStub parsed offsets =
     join_with 10
       ([str ''(module''] @
        concat (map (\<lambda>(obj, off).
          [str ''  ;; from '' @ ob_name obj] @
          map (wat_func obj off) (enumerate 0 (ob_functions obj)) @
          map (wat_memory off) (enumerate 0 (ob_memories obj))) (zip parsed offsets)) @
        [str '')''])"

definition emptyIsolationReport :: "parsed_object list \<Rightarrow> isolation_report" where
  "emptyIsolationReport parsed =
     \<lparr>ir_modules = map ob_name parsed, ir_properties = (\<lambda>_. True), ir_violations = []\<rparr>"

definition parse_inputs :: "(js_string \<times> byte list) list \<Rightarrow> parsed_object list \<times> link_error list" where
  "parse_inputs objects =
     fold (\<lambda>(name, bytes) (parsed, errors).
       case parseObject name bytes of
         Inr obj \<Rightarrow> (parsed @ [obj], errors)
       | Inl e \<Rightarrow> (parsed, errors @ [\<lparr>le_message = str ''Failed to parse '' @ quoted name @ str '': '' @ error_message e,
                                      le_module = Some name, le_severity = Error\<rparr>])) objects ([], [])"

definition has_error :: "link_error list \<Rightarrow> bool" where
  "has_error errors = list_ex (\<lambda>e. le_severity e = Error) errors"

definition failed_link :: "link_error list \<Rightarrow> isolation_report \<Rightarrow> link_result" where
  "failed_link errors report =
     \<lparr>lr_binary = [], lr_wat = [], lr_success = False, lr_errors = errors, lr_isolationReport = report\<rparr>"

definition link :: "bool \<Rightarrow> (js_string \<times> byte list) list \<Rightarrow> link_options option \<Rightarrow> link_result" where
  "link trace objects options =
     (let doIsolation = (case options of None \<Rightarrow> True | Some o' \<Rightarrow> lo_validateIsolation o' \<noteq> Some False);
          entry = (case options of None \<Rightarrow> None | Some o' \<Rightarrow> lo_entry o');
          (parsed, errors) = parse_inputs objects in
      if has_error errors then failed_link errors (emptyIsolationReport parsed)
      else
        let res = resolveSymbols parsed;
            errors = errors @ map (\<lambda>msg. \<lparr>le_message = msg, le_module = None, le_severity = Error\<rparr>) (res_errors res);
            isolationReport = (if doIsolation then validateIsolation parsed res else emptyIsolationReport parsed);
            errors = errors @ (if doIsolation then
                map (\<lambda>v. \<lparr>le_message = vi_message v, le_module = Some (vi_module v), le_severity = Warning\<rparr>)
                  (ir_violations isolationReport)
              else []) in
        if has_error errors then failed_link errors isolationReport
        else
          let offsets = computeOffsets parsed in
          case emitLinked trace entry parsed res offsets of
            Inr binary \<Rightarrow>
              \<lparr>lr_binary = binary, lr_wat = generateWatStub parsed offsets, lr_success = True, lr_errors = errors,
               lr_isolationReport = isolationReport\<rparr>
          | Inl e \<Rightarrow>
              failed_link (errors @ [\<lparr>le_message = str ''Link error: '' @ error_message e, le_module = None, le_severity = Error\<rparr>])
                isolationReport)"

end
