(* ===== verification/Link_Codecs.thy ===== *)
theory Link_Codecs
  imports Link_Linker Wasm_Codec
begin

text \<open>
  The entries of a module's sections as codecs: what the linker emits for an entry, the object reader
  reads back. Each entry has its bytes and a condition under which they are exact.
\<close>

section \<open>Sequences of reads\<close>

lemma reads_done: "x = y \<Longrightarrow> reads (\<lambda>r. Inr (x, r)) [] y"
  by (simp add: reads_Inr)

lemma reads_then_u32: "n < 2 ^ 32 \<Longrightarrow> reads (g n) bs y \<Longrightarrow> reads (\<lambda>r. bindE (rd_u32 r) (\<lambda>(x, r). g x r)) (uleb n @ bs) y"
  by (rule reads_bind [OF reads_u32])

lemma reads_then_byte:
  "b < 256 \<Longrightarrow> reads (g b) bs y \<Longrightarrow> reads (\<lambda>r. bindE (rd_byte r) (\<lambda>(x, r). g x r)) (word_of_nat b # bs) y"
  using reads_bind [OF bt.get_reads, of b g bs y] by simp

lemma reads_items:
  "(\<And>x. x \<in> set xs \<Longrightarrow> reads item (f x) x) \<Longrightarrow> reads (rd_times (length xs) item) (concat (map f xs)) xs"
  by (rule reads_times) (simp add: list_all2_map1 list.rel_refl_strong)

lemma reads_then_items:
  assumes "\<And>x. x \<in> set xs \<Longrightarrow> reads item (f x) x" "reads (g xs) bs y"
  shows "reads (\<lambda>r. bindE (rd_times (length xs) item r) (\<lambda>(x, r). g x r)) (concat (map f xs) @ bs) y"
  by (rule reads_bind [OF reads_items]) (use assms in auto)

lemma reads_end: "reads get (bs @ []) x \<Longrightarrow> reads get bs x"
  by simp

lemma appends_byte_nat: "appends (put_byte_nat b) [word_of_nat b]"
  using appends_byte [of "int b"] by simp

lemma appends_steps_Nil: "appends (steps []) []"
  by (simp add: appends_def)

lemma appends_steps_Cons: "appends op bs \<Longrightarrow> appends (steps ops) cs \<Longrightarrow> appends (steps (op # ops)) (bs @ cs)"
  using appends_bind [of op bs "steps ops" cs] by (simp add: appends_def)

lemma appends_items: "(\<And>x. x \<in> set xs \<Longrightarrow> appends (op x) (f x)) \<Longrightarrow> appends (for_each xs op) (concat (map f xs))"
  by (rule appends_for_each)

lemma appends_raw: "appends (put_bytes (Uint8Array bs)) bs"
  using appends_bytes [of "Uint8Array bs"] by simp

lemmas appends_seq = appends_steps_Nil appends_steps_Cons appends_byte_nat appends_u32 appends_items appends_raw

abbreviation byte_list :: "nat list \<Rightarrow> byte list" where
  "byte_list bs \<equiv> concat (map (\<lambda>b. [word_of_nat b]) bs)"

section \<open>Types, limits, tags\<close>

definition type_bytes :: "type_section \<Rightarrow> byte list" where
  "type_bytes t =
     word_of_nat 0x60 # uleb (length (ts_params t)) @ byte_list (ts_params t) @
     uleb (length (ts_results t)) @ byte_list (ts_results t)"

definition type_ok :: "type_section \<Rightarrow> bool" where
  "type_ok t \<longleftrightarrow> length (ts_params t) < 2 ^ 32 \<and> length (ts_results t) < 2 ^ 32 \<and>
     list_all (\<lambda>b. b < 256) (ts_params t) \<and> list_all (\<lambda>b. b < 256) (ts_results t)"

interpretation ty: codec emit_type read_type type_bytes type_ok
proof unfold_locales
  fix t assume ok: "type_ok t"
  have "appends (emit_type t) ([word_of_nat 0x60] @ uleb (length (ts_params t)) @ byte_list (ts_params t) @
      uleb (length (ts_results t)) @ byte_list (ts_results t) @ [])"
    unfolding emit_type_def using ok by (intro appends_seq) (auto simp: type_ok_def)
  then show "appends (emit_type t) (type_bytes t)" by (simp add: type_bytes_def)
  have b: "reads rd_byte [word_of_nat b] b" if "b < 256" for b using that by (rule bt.get_reads)
  have "reads read_type (type_bytes t @ []) t"
    unfolding read_type_def [abs_def] type_bytes_def append_assoc append_Cons
    apply (rule reads_then_byte, simp)
    apply (simp only: refl not_True_eq_False if_False)
    using ok by (intro reads_then_u32 reads_then_items reads_done b) (auto simp: type_ok_def list_all_iff)
  then show "reads read_type (type_bytes t) t" by (rule reads_end)
qed

fun limit_bytes :: "nat \<times> nat option \<Rightarrow> byte list" where
  "limit_bytes (mn, Some mx) = word_of_nat 1 # uleb mn @ uleb mx"
| "limit_bytes (mn, None) = word_of_nat 0 # uleb mn"

fun limits_ok :: "nat \<times> nat option \<Rightarrow> bool" where
  "limits_ok (mn, mx) = (mn < 2 ^ 32 \<and> (case mx of None \<Rightarrow> True | Some m \<Rightarrow> m < 2 ^ 32))"

interpretation lim: codec "\<lambda>(mn, mx). emit_limits mn mx" read_limits limit_bytes limits_ok
proof unfold_locales
  fix p assume ok: "limits_ok p"
  obtain mn mx where p: "p = (mn, mx)" by (cases p)
  show "appends (case p of (mn, mx) \<Rightarrow> emit_limits mn mx) (limit_bytes p)"
  proof (cases mx)
    case None
    have "appends (emit_limits mn None) ([word_of_nat 0] @ uleb mn @ [])"
      unfolding emit_limits_def option.case using ok p by (intro appends_seq) auto
    with None p show ?thesis by simp
  next
    case (Some m)
    have "appends (emit_limits mn (Some m)) ([word_of_nat 1] @ uleb mn @ uleb m @ [])"
      unfolding emit_limits_def option.case using ok p Some by (intro appends_seq) auto
    with Some p show ?thesis by simp
  qed
  have "reads read_limits (limit_bytes p @ []) p"
  proof (cases mx)
    case None
    show ?thesis
      unfolding p None limit_bytes.simps read_limits_def [abs_def] append_assoc append_Cons
      using ok by (intro reads_then_byte reads_then_u32) (simp_all add: p None reads_done)
  next
    case (Some m)
    have last: "reads (\<lambda>r. bindE (rd_u32 r) (\<lambda>(mx, r). Inr ((mn, Some mx), r))) (uleb m @ []) (mn, Some m)"
      using ok by (intro reads_then_u32 reads_done) (simp_all add: p Some)
    show ?thesis
      unfolding p Some limit_bytes.simps read_limits_def [abs_def] append_assoc append_Cons
      using ok last by (intro reads_then_byte reads_then_u32) (simp_all add: p Some)
  qed
  then show "reads read_limits (limit_bytes p) p" by (rule reads_end)
qed

definition tag_bytes :: "tag_entry \<Rightarrow> byte list" where
  "tag_bytes t = word_of_nat (tg_attribute t) # uleb (tg_typeIdx t)"

definition tag_ok :: "tag_entry \<Rightarrow> bool" where
  "tag_ok t \<longleftrightarrow> tg_attribute t < 256 \<and> tg_typeIdx t < 2 ^ 32"

interpretation tg: codec emit_tag read_tag tag_bytes tag_ok
proof unfold_locales
  fix t assume ok: "tag_ok t"
  have "appends (emit_tag t) ([word_of_nat (tg_attribute t)] @ uleb (tg_typeIdx t) @ [])"
    unfolding emit_tag_def using ok by (intro appends_seq) (auto simp: tag_ok_def)
  then show "appends (emit_tag t) (tag_bytes t)" by (simp add: tag_bytes_def)
  have "reads read_tag (tag_bytes t @ []) t"
    unfolding read_tag_def [abs_def] tag_bytes_def append_assoc append_Cons
    using ok by (intro reads_then_byte reads_then_u32 reads_done) (auto simp: tag_ok_def)
  then show "reads read_tag (tag_bytes t) t" by (rule reads_end)
qed

definition table_bytes :: "table_entry \<Rightarrow> byte list" where
  "table_bytes t = word_of_nat (tb_elementType t) # limit_bytes (tb_min t, tb_max t)"

definition table_ok :: "table_entry \<Rightarrow> bool" where
  "table_ok t \<longleftrightarrow> tb_elementType t < 256 \<and> limits_ok (tb_min t, tb_max t)"

interpretation tb: codec emit_table read_table table_bytes table_ok
proof unfold_locales
  fix t assume ok: "table_ok t"
  have lim: "appends (emit_limits (tb_min t) (tb_max t)) (limit_bytes (tb_min t, tb_max t))"
    using lim.put_appends [of "(tb_min t, tb_max t)"] ok by (simp add: table_ok_def)
  have "appends (emit_table t) ([word_of_nat (tb_elementType t)] @ limit_bytes (tb_min t, tb_max t) @ [])"
    unfolding emit_table_def by (intro appends_seq lim)
  then show "appends (emit_table t) (table_bytes t)" by (simp add: table_bytes_def)
  show "reads read_table (table_bytes t) t"
    unfolding read_table_def [abs_def] table_bytes_def
    using ok by (intro reads_then_byte reads_bind_Nil [OF lim.get_reads]) (auto simp: table_ok_def reads_done)
qed

definition memory_bytes :: "memory_entry \<Rightarrow> byte list" where
  "memory_bytes m = limit_bytes (mem_min m, mem_max m)"

definition memory_ok :: "memory_entry \<Rightarrow> bool" where
  "memory_ok m \<longleftrightarrow> limits_ok (mem_min m, mem_max m)"

interpretation mm: codec emit_memory read_memory memory_bytes memory_ok
proof unfold_locales
  fix m assume ok: "memory_ok m"
  show "appends (emit_memory m) (memory_bytes m)"
    using lim.put_appends [of "(mem_min m, mem_max m)"] ok by (simp add: emit_memory_def memory_bytes_def memory_ok_def)
  show "reads read_memory (memory_bytes m) m"
    unfolding read_memory_def [abs_def] memory_bytes_def
    using ok by (intro reads_bind_Nil [OF lim.get_reads]) (auto simp: memory_ok_def reads_done)
qed

section \<open>Constant expressions\<close>

text \<open>The reader finds the end of an expression by its first \<^verbatim>\<open>0x0b\<close> byte, so an exact expression has no
  other.\<close>

definition expr_ok :: "byte list \<Rightarrow> bool" where
  "expr_ok ex \<longleftrightarrow> ex \<noteq> [] \<and> last ex = 0x0b \<and> 0x0b \<notin> set (butlast ex)"

lemma reads_until_end: "expr_ok ex \<Longrightarrow> reads rd_until_end ex ()"
proof (induction ex)
  case (Cons b ex)
  show ?case
  proof (cases "b = 0x0b")
    case True
    with Cons.prems have "ex = []" by (cases ex) (auto simp: expr_ok_def)
    with True show ?thesis
      by (subst rd_until_end.simps [abs_def]) (simp, rule reads_bind_byte, simp add: reads_Inr)
  next
    case False
    then have "expr_ok ex" using Cons.prems by (auto simp: expr_ok_def split: if_splits)
    moreover have "unat b \<noteq> 0x0b" using False by (simp add: word_unat_eq_iff)
    ultimately show ?thesis
      by (subst rd_until_end.simps [abs_def]) (rule reads_bind_byte, simp add: Cons.IH)
  qed
qed (simp add: expr_ok_def)

text \<open>A parser that keeps the bytes it skipped.\<close>

lemma reads_slice:
  assumes "reads f bs u"
  shows "reads (\<lambda>r. bindE (f r) (\<lambda>(_, r'). Inr (h (rd_slice r (rd_pos r) (rd_pos r')), r'))) bs (h bs)"
  using assms by (simp add: reads_def rd_slice_def)

lemma reads_expr: "expr_ok ex \<Longrightarrow> reads rd_expr ex ex"
  unfolding rd_expr_def [abs_def] using reads_slice [OF reads_until_end, of ex "\<lambda>x. x"] by simp

definition global_bytes :: "global_entry \<Rightarrow> byte list" where
  "global_bytes g = word_of_nat (gl_type g) # word_of_nat (if gl_mutable g then 1 else 0) # gl_init g"

definition global_ok :: "global_entry \<Rightarrow> bool" where
  "global_ok g \<longleftrightarrow> gl_type g < 256 \<and> expr_ok (gl_init g)"

interpretation gl: codec emit_global read_global global_bytes global_ok
proof unfold_locales
  fix g assume ok: "global_ok g"
  have "appends (emit_global g) ([word_of_nat (gl_type g)] @ [word_of_nat (if gl_mutable g then 1 else 0)] @ gl_init g @ [])"
    unfolding emit_global_def by (intro appends_seq)
  then show "appends (emit_global g) (global_bytes g)" by (simp add: global_bytes_def)
  show "reads read_global (global_bytes g) g"
    unfolding read_global_def [abs_def] global_bytes_def
    using ok by (intro reads_then_byte reads_bind_Nil [OF reads_expr]) (auto simp: global_ok_def reads_done)
qed

section \<open>Exports\<close>

definition name_ok :: "js_string \<Rightarrow> bool" where
  "name_ok s \<longleftrightarrow> well_formed s \<and> (s = [] \<or> hd s \<noteq> 0xfeff) \<and> length (utf8_encode s) < 2 ^ 32"

definition name_bytes :: "js_string \<Rightarrow> byte list" where
  "name_bytes s = uleb (length (utf8_encode s)) @ utf8_encode s"

definition export_bytes :: "export_entry \<Rightarrow> byte list" where
  "export_bytes x = name_bytes (ex_name x) @ word_of_nat (ex_kind x) # uleb (ex_index x)"

definition export_ok :: "export_entry \<Rightarrow> bool" where
  "export_ok x \<longleftrightarrow> name_ok (ex_name x) \<and> ex_kind x < 256 \<and> ex_index x < 2 ^ 32"

interpretation ex: codec emit_export read_export export_bytes export_ok
proof unfold_locales
  fix x assume ok: "export_ok x"
  have n: "appends (put_name (ex_name x)) (name_bytes (ex_name x))" "reads rd_name (name_bytes (ex_name x)) (ex_name x)"
    using nm.put_appends [of "ex_name x"] nm.get_reads [of "ex_name x"] ok
    by (simp_all add: export_ok_def name_ok_def name_bytes_def)
  have "appends (emit_export x) (name_bytes (ex_name x) @ [word_of_nat (ex_kind x)] @ uleb (ex_index x) @ [])"
    unfolding emit_export_def using ok by (intro appends_seq n) (simp add: export_ok_def)
  then show "appends (emit_export x) (export_bytes x)" by (simp add: export_bytes_def)
  have "reads read_export (export_bytes x @ []) x"
    unfolding read_export_def [abs_def] export_bytes_def append_assoc append_Cons
    using ok by (intro reads_bind [OF n(2)] reads_then_byte reads_then_u32 reads_done) (auto simp: export_ok_def)
  then show "reads read_export (export_bytes x) x" by (rule reads_end)
qed

section \<open>Element segments\<close>

fun exprs_ok :: "nat \<Rightarrow> byte list \<Rightarrow> bool" where
  "exprs_ok 0 bs = (bs = [])"
| "exprs_ok (Suc n) bs =
     (let k = length (takeWhile (\<lambda>b. b \<noteq> 0x0b) bs) in k < length bs \<and> exprs_ok n (drop (k + 1) bs))"

lemma takeWhile_expr_ok:
  assumes "k = length (takeWhile (\<lambda>b. b \<noteq> 0x0b) bs)" "k < length bs"
  shows "expr_ok (take (k + 1) bs)"
proof -
  have "bs ! k = 0x0b" using nth_length_takeWhile [of "\<lambda>b. b \<noteq> 0x0b" bs] assms by simp
  then have "take (k + 1) bs = take k bs @ [0x0b]" using assms(2) by (simp add: take_Suc_conv_app_nth)
  moreover have "take k bs = takeWhile (\<lambda>b. b \<noteq> 0x0b) bs" using assms(1) by (metis takeWhile_eq_take)
  then have "0x0b \<notin> set (take k bs)" by (metis (mono_tags) set_takeWhileD)
  ultimately show ?thesis by (simp add: expr_ok_def)
qed

lemma reads_exprs: "exprs_ok n bs \<Longrightarrow> reads (rd_times n rd_until_end) bs (replicate n ())"
proof (induction n arbitrary: bs)
  case (Suc n)
  let ?k = "length (takeWhile (\<lambda>b. b \<noteq> 0x0b) bs)"
  have k: "?k < length bs" "exprs_ok n (drop (?k + 1) bs)" using Suc.prems by (simp_all add: Let_def)
  note first = reads_until_end [OF takeWhile_expr_ok [OF refl k(1)]]
  have rest: "reads (\<lambda>r. bindE (rd_times n rd_until_end r) (\<lambda>(xs, r). Inr (() # xs, r))) (drop (?k + 1) bs) (replicate (Suc n) ())"
    by (rule reads_bind_Nil [OF Suc.IH [OF k(2)]]) (simp add: reads_Inr)
  have "reads (rd_times (Suc n) rd_until_end) (take (?k + 1) bs @ drop (?k + 1) bs) (replicate (Suc n) ())"
    unfolding rd_times.simps [abs_def] by (rule reads_bind [OF first]) (use rest in simp)
  then show ?case by (simp only: append_take_drop_id)
qed (simp add: reads_def)

definition payload_bytes :: "element_entry \<Rightarrow> byte list" where
  "payload_bytes el =
     (case el_elemExprs el of
        Some exprs \<Rightarrow> uleb (el_elemCount el) @ exprs
      | None \<Rightarrow> uleb (length (el_funcIndices el)) @ concat (map uleb (el_funcIndices el)))"

definition payload_ok :: "element_entry \<Rightarrow> bool" where
  "payload_ok el \<longleftrightarrow>
     el_elemCount el < 2 ^ 32 \<and>
     (if usesExprs (el_flags el) then
        el_funcIndices el = [] \<and>
        (case el_elemExprs el of Some exprs \<Rightarrow> exprs_ok (el_elemCount el) exprs | None \<Rightarrow> False)
      else
        el_elemExprs el = None \<and> length (el_funcIndices el) = el_elemCount el \<and>
        list_all (\<lambda>i. i < 2 ^ 32) (el_funcIndices el))"

lemma appends_payload: "payload_ok el \<Longrightarrow> appends (emit_payload el) (payload_bytes el)"
proof (cases "usesExprs (el_flags el)")
  case True
  assume ok: "payload_ok el"
  with True obtain exprs where ex: "el_elemExprs el = Some exprs" by (auto simp: payload_ok_def split: option.splits)
  with True have "(usesExprs (el_flags el), el_elemExprs el) = (True, Some exprs)" by simp
  then have "emit_payload el = steps [put_nat (el_elemCount el), put_bytes (Uint8Array exprs)]"
    by (simp add: emit_payload_def)
  moreover have "appends (steps [put_nat (el_elemCount el), put_bytes (Uint8Array exprs)]) (uleb (el_elemCount el) @ exprs @ [])"
    using ok by (intro appends_seq) (simp add: payload_ok_def)
  ultimately show ?thesis using ex by (simp add: payload_bytes_def)
next
  case False
  assume ok: "payload_ok el"
  with False have ex: "el_elemExprs el = None" "length (el_funcIndices el) < 2 ^ 32" by (auto simp: payload_ok_def)
  have "emit_payload el = steps [put_nat (length (el_funcIndices el)), for_each (el_funcIndices el) put_nat]"
    using False by (simp add: emit_payload_def)
  moreover have "appends (steps [put_nat (length (el_funcIndices el)), for_each (el_funcIndices el) put_nat])
      (uleb (length (el_funcIndices el)) @ concat (map uleb (el_funcIndices el)) @ [])"
    using ok False ex(2) by (intro appends_seq) (auto simp: payload_ok_def list_all_iff)
  ultimately show ?thesis using ex by (simp add: payload_bytes_def)
qed

lemma reads_payload:
  assumes "payload_ok el" "reads (g (el_elemCount el) (el_funcIndices el, el_elemExprs el)) [] y"
  shows "reads (\<lambda>r. bindE (rd_u32 r) (\<lambda>(elemCount, r). bindE (read_payload (el_flags el) elemCount r) (\<lambda>(x, r). g elemCount x r)))
    (payload_bytes el) y"
proof (cases "usesExprs (el_flags el)")
  case True
  with assms(1) obtain exprs where ex: "el_elemExprs el = Some exprs" "exprs_ok (el_elemCount el) exprs" "el_funcIndices el = []"
    by (auto simp: payload_ok_def split: option.splits)
  have "reads (read_payload (el_flags el) (el_elemCount el)) exprs ([], Some exprs)"
    unfolding read_payload_def [abs_def] using reads_slice [OF reads_exprs [OF ex(2)], of "\<lambda>x. ([], Some x)"] True by simp
  from reads_bind_Nil [OF this, of "g (el_elemCount el)" y] assms ex show ?thesis
    unfolding payload_bytes_def ex(1) option.case
    by (intro reads_then_u32) (simp_all add: payload_ok_def)
next
  case False
  with assms(1) have ex: "el_elemExprs el = None" "length (el_funcIndices el) = el_elemCount el" "\<forall>i \<in> set (el_funcIndices el). i < 2 ^ 32"
    by (auto simp: payload_ok_def list_all_iff)
  have "reads (rd_times (length (el_funcIndices el)) rd_u32) (concat (map uleb (el_funcIndices el))) (el_funcIndices el)"
    by (rule reads_items) (use ex in \<open>auto intro: reads_u32\<close>)
  then have "reads (read_payload (el_flags el) (el_elemCount el)) (concat (map uleb (el_funcIndices el))) (el_funcIndices el, None)"
    unfolding read_payload_def [abs_def] using False ex(2) by (simp, intro reads_bind_Nil) (auto simp: reads_Inr)
  from reads_bind_Nil [OF this, of "g (el_elemCount el)" y] assms ex show ?thesis
    unfolding payload_bytes_def ex(1) option.case
    by (simp only: ex(2)) (intro reads_then_u32; simp add: payload_ok_def)
qed

definition optional_bytes :: "('a \<Rightarrow> byte list) \<Rightarrow> 'a option \<Rightarrow> byte list" where
  "optional_bytes f x = (case x of None \<Rightarrow> [] | Some y \<Rightarrow> f y)"

definition element_bytes :: "element_entry \<Rightarrow> byte list" where
  "element_bytes el =
     uleb (el_flags el) @ (if hasExplicitTable (el_flags el) then uleb (el_tableIdx el) else []) @
     optional_bytes (\<lambda>ex. ex) (el_offsetExpr el) @ optional_bytes (\<lambda>b. [word_of_nat b]) (el_kindByte el) @ payload_bytes el"

text \<open>An explicit table index is read back; an implicit one is table 0.\<close>

definition element_ok :: "element_entry \<Rightarrow> bool" where
  "element_ok el \<longleftrightarrow>
     el_flags el < 2 ^ 32 \<and>
     (if hasExplicitTable (el_flags el) then el_tableIdx el < 2 ^ 32 else el_tableIdx el = 0) \<and>
     (case el_offsetExpr el of Some ex \<Rightarrow> isActive (el_flags el) \<and> expr_ok ex | None \<Rightarrow> \<not> isActive (el_flags el)) \<and>
     (case el_kindByte el of Some b \<Rightarrow> hasKindByte (el_flags el) \<and> b < 256 | None \<Rightarrow> \<not> hasKindByte (el_flags el)) \<and>
     payload_ok el"

lemma appends_when: "(c \<Longrightarrow> appends op bs) \<Longrightarrow> appends (emit_when c op) (if c then bs else [])"
  by (auto simp: appends_def emit_when_def)

lemma reads_when: "(c \<Longrightarrow> reads f bs x) \<Longrightarrow> reads (rd_when c f) (if c then bs else []) (if c then Some x else None)"
  unfolding rd_when_def [abs_def] by (auto simp: reads_Inr intro!: reads_bind_Nil)

lemma reads_optional:
  assumes "\<And>y. x = Some y \<Longrightarrow> c \<and> reads f (h y) y" "x = None \<Longrightarrow> \<not> c"
  shows "reads (rd_when c f) (optional_bytes h x) x"
  using assms reads_when [of c f] by (cases x) (force simp: optional_bytes_def)+

interpretation el: codec emit_element read_element element_bytes element_ok
proof unfold_locales
  fix x assume ok: "element_ok x"
  have tab: "appends (emit_when (hasExplicitTable (el_flags x)) (put_nat (el_tableIdx x)))
      (if hasExplicitTable (el_flags x) then uleb (el_tableIdx x) else [])"
    using ok by (intro appends_when appends_u32) (auto simp: element_ok_def)
  have off: "appends (case el_offsetExpr x of None \<Rightarrow> Inr | Some ex \<Rightarrow> emit_when (isActive (el_flags x)) (put_bytes (Uint8Array ex)))
      (optional_bytes (\<lambda>ex. ex) (el_offsetExpr x))"
    using ok appends_raw by (auto simp: element_ok_def optional_bytes_def emit_when_def [abs_def] appends_Nil split: option.splits)
  have kind: "appends (case el_kindByte x of None \<Rightarrow> Inr | Some b \<Rightarrow> emit_when (hasKindByte (el_flags x)) (put_byte_nat b))
      (optional_bytes (\<lambda>b. [word_of_nat b]) (el_kindByte x))"
    using ok appends_byte_nat by (auto simp: element_ok_def optional_bytes_def emit_when_def [abs_def] appends_Nil split: option.splits)
  have pay: "payload_ok x" "el_flags x < 2 ^ 32" using ok by (simp_all add: element_ok_def)
  have "appends (emit_element x) (uleb (el_flags x) @ (if hasExplicitTable (el_flags x) then uleb (el_tableIdx x) else []) @
      optional_bytes (\<lambda>ex. ex) (el_offsetExpr x) @ optional_bytes (\<lambda>b. [word_of_nat b]) (el_kindByte x) @ payload_bytes x @ [])"
    unfolding emit_element_def by (intro appends_seq tab off kind appends_payload pay)
  then show "appends (emit_element x) (element_bytes x)" by (simp add: element_bytes_def)
  have rtab: "reads (rd_when (hasExplicitTable (el_flags x)) rd_u32)
      (if hasExplicitTable (el_flags x) then uleb (el_tableIdx x) else []) (if hasExplicitTable (el_flags x) then Some (el_tableIdx x) else None)"
    using ok by (intro reads_when reads_u32) (auto simp: element_ok_def)
  have roff: "reads (rd_when (isActive (el_flags x)) rd_expr) (optional_bytes (\<lambda>ex. ex) (el_offsetExpr x)) (el_offsetExpr x)"
    using ok by (intro reads_optional) (auto simp: element_ok_def intro: reads_expr)
  have rkind: "reads (rd_when (hasKindByte (el_flags x)) rd_byte) (optional_bytes (\<lambda>b. [word_of_nat b]) (el_kindByte x)) (el_kindByte x)"
    using ok by (intro reads_optional) (auto simp: element_ok_def intro: bt.get_reads)
  show "reads read_element (element_bytes x) x"
    unfolding read_element_def [abs_def] element_bytes_def
  proof (intro reads_then_u32 reads_bind [OF rtab] reads_bind [OF roff] reads_bind [OF rkind] reads_payload pay)
    show "reads ((\<lambda>(funcIndices, elemExprs) r. Inr (\<lparr>el_flags = el_flags x,
        el_tableIdx = (case if hasExplicitTable (el_flags x) then Some (el_tableIdx x) else None of None \<Rightarrow> 0 | Some i \<Rightarrow> i),
        el_offsetExpr = el_offsetExpr x, el_funcIndices = funcIndices, el_elemCount = el_elemCount x,
        el_kindByte = el_kindByte x, el_elemExprs = elemExprs\<rparr>, r)) (el_funcIndices x, el_elemExprs x)) [] x"
      using ok by (auto simp: element_ok_def reads_done)
  qed
qed

section \<open>Function bodies\<close>

fun local_bytes :: "nat \<times> nat \<Rightarrow> byte list" where
  "local_bytes (cnt, typ) = uleb cnt @ [word_of_nat typ]"

fun local_ok :: "nat \<times> nat \<Rightarrow> bool" where
  "local_ok (cnt, typ) = (cnt < 2 ^ 32 \<and> typ < 256)"

interpretation lc: codec "\<lambda>(cnt, typ). steps [put_nat cnt, put_byte_nat typ]" read_local local_bytes local_ok
proof unfold_locales
  fix p assume ok: "local_ok p"
  obtain cnt ty where p: "p = (cnt, ty)" by (cases p)
  have "appends (steps [put_nat cnt, put_byte_nat ty]) (uleb cnt @ [word_of_nat ty] @ [])"
    using ok by (intro appends_seq) (simp add: p)
  then show "appends (case p of (cnt, typ) \<Rightarrow> steps [put_nat cnt, put_byte_nat typ]) (local_bytes p)" by (simp add: p)
  show "reads read_local (local_bytes p) p"
    unfolding read_local_def [abs_def] p local_bytes.simps
    using ok by (intro reads_then_u32 reads_then_byte reads_done) (simp_all add: p)
qed

definition body_bytes :: "code_entry \<Rightarrow> byte list" where
  "body_bytes c = uleb (length (cd_locals c)) @ concat (map local_bytes (cd_locals c)) @ cd_body c"

definition code_bytes :: "code_entry \<Rightarrow> byte list" where
  "code_bytes c = uleb (length (body_bytes c)) @ body_bytes c"

definition code_ok :: "code_entry \<Rightarrow> bool" where
  "code_ok c \<longleftrightarrow> length (cd_locals c) < 2 ^ 32 \<and> list_all local_ok (cd_locals c) \<and> length (body_bytes c) < 2 ^ 32"

lemma appends_body:
  assumes "code_ok c"
  shows "appends (emit_body c (cd_body c)) (code_bytes c)"
proof -
  have "appends (steps [put_nat (length (cd_locals c)), for_each (cd_locals c) (\<lambda>(cnt, typ). steps [put_nat cnt, put_byte_nat typ]),
      put_bytes (Uint8Array (cd_body c))]) (uleb (length (cd_locals c)) @ concat (map local_bytes (cd_locals c)) @ cd_body c @ [])"
    using assms by (intro appends_seq lc.put_appends) (auto simp: code_ok_def list_all_iff)
  then obtain sub where "steps [put_nat (length (cd_locals c)), for_each (cd_locals c) (\<lambda>(cnt, typ). steps [put_nat cnt, put_byte_nat typ]),
      put_bytes (Uint8Array (cd_body c))] new_encoder = Inr sub" "written sub = body_bytes c"
    by (auto simp: body_bytes_def elim: appendsD [OF _ new_encoder_ok(1)])
  then have "emit_body c (cd_body c) = steps [put_nat (length (body_bytes c)), put_bytes (Uint8Array (body_bytes c))]"
    by (intro ext) (simp only: emit_body_def bindE_Inr enc_finish_written Let_def)
  moreover have "appends (steps [put_nat (length (body_bytes c)), put_bytes (Uint8Array (body_bytes c))])
      (uleb (length (body_bytes c)) @ body_bytes c @ [])"
    using assms by (intro appends_seq) (simp add: code_ok_def)
  ultimately show ?thesis by (simp add: code_bytes_def)
qed

lemma reads_code:
  assumes "code_ok c"
  shows "reads read_code (code_bytes c) c"
  unfolding reads_def
proof (intro allI)
  fix pre rest
  let ?n = "uleb (length (body_bytes c))" and ?k = "uleb (length (cd_locals c))" and ?ls = "concat (map local_bytes (cd_locals c))"
  have lens: "length (body_bytes c) < 2 ^ 32" "length (cd_locals c) < 2 ^ 32" using assms by (simp_all add: code_ok_def)
  have locals: "reads (rd_times (length (cd_locals c)) read_local) ?ls (cd_locals c)"
    using assms by (intro reads_items lc.get_reads) (auto simp: code_ok_def list_all_iff)
  show "read_code \<lparr>rd_data = pre @ code_bytes c @ rest, rd_pos = length pre\<rparr> =
      Inr (c, \<lparr>rd_data = pre @ code_bytes c @ rest, rd_pos = length pre + length (code_bytes c)\<rparr>)"
    unfolding read_code_def
    using readsD [OF reads_u32 [OF lens(1)], of pre "body_bytes c @ rest"]
      readsD [OF reads_u32 [OF lens(2)], of "pre @ ?n" "?ls @ cd_body c @ rest"]
      readsD [OF locals, of "pre @ ?n @ ?k" "cd_body c @ rest"]
    by (simp add: code_bytes_def body_bytes_def add.assoc rd_slice_def seek_def)
qed

interpretation cd: codec "\<lambda>c. emit_body c (cd_body c)" read_code code_bytes code_ok
  by unfold_locales (auto intro: appends_body reads_code)

end
