(* ===== verification/Link_Merge.thy ===== *)
theory Link_Merge
  imports Link_Codecs
begin

text \<open>
  The linked binary as a whole: the linker emits the sections of the merged object, and the object
  reader reads that object back from the bytes.
\<close>

section \<open>Sections\<close>

definition section_bytes :: "nat \<Rightarrow> byte list \<Rightarrow> byte list" where
  "section_bytes ident content = word_of_nat ident # uleb (length content) @ content"

definition vector_bytes :: "('a \<Rightarrow> byte list) \<Rightarrow> 'a list \<Rightarrow> byte list" where
  "vector_bytes f items = uleb (length items) @ concat (map f items)"

definition items_bytes :: "nat \<Rightarrow> ('a \<Rightarrow> byte list) \<Rightarrow> 'a list \<Rightarrow> byte list" where
  "items_bytes ident f items = (if items = [] then [] else section_bytes ident (vector_bytes f items))"

definition items_ok :: "('a \<Rightarrow> bool) \<Rightarrow> ('a \<Rightarrow> byte list) \<Rightarrow> 'a list \<Rightarrow> bool" where
  "items_ok ok f items \<longleftrightarrow> list_all ok items \<and> length items < 2 ^ 32 \<and> length (vector_bytes f items) < 2 ^ 32"

text \<open>Reading a stretch of sections turns one object into another.\<close>

definition loads :: "parsed_object \<Rightarrow> byte list \<Rightarrow> parsed_object \<Rightarrow> bool" where
  "loads obj bs obj' \<longleftrightarrow>
     (\<forall>pre rest. sections_loop obj \<lparr>rd_data = pre @ bs @ rest, rd_pos = length pre\<rparr> =
        sections_loop obj' \<lparr>rd_data = pre @ bs @ rest, rd_pos = length pre + length bs\<rparr>)"

lemma loads_Nil: "loads obj [] obj"
  by (simp add: loads_def)

lemma loads_append: "loads a bs b \<Longrightarrow> loads b cs c \<Longrightarrow> loads a (bs @ cs) c"
  unfolding loads_def
proof (intro allI)
  fix pre rest
  assume ab: "\<forall>pre rest. sections_loop a \<lparr>rd_data = pre @ bs @ rest, rd_pos = length pre\<rparr> =
      sections_loop b \<lparr>rd_data = pre @ bs @ rest, rd_pos = length pre + length bs\<rparr>"
  assume bc: "\<forall>pre rest. sections_loop b \<lparr>rd_data = pre @ cs @ rest, rd_pos = length pre\<rparr> =
      sections_loop c \<lparr>rd_data = pre @ cs @ rest, rd_pos = length pre + length cs\<rparr>"
  show "sections_loop a \<lparr>rd_data = pre @ (bs @ cs) @ rest, rd_pos = length pre\<rparr> =
      sections_loop c \<lparr>rd_data = pre @ (bs @ cs) @ rest, rd_pos = length pre + length (bs @ cs)\<rparr>"
    using ab [rule_format, of pre "cs @ rest"] bc [rule_format, of "pre @ bs" rest] by (simp add: add.assoc)
qed

lemma loads_section:
  assumes "ident < 256" "length content < 2 ^ 32"
    and "\<And>stop. reads (parse_section ident stop obj) content obj'"
  shows "loads obj (section_bytes ident content) obj'"
  unfolding loads_def
proof (intro allI)
  fix pre rest
  let ?bs = "section_bytes ident content" and ?n = "uleb (length content)"
  let ?data = "pre @ ?bs @ rest"
  let ?stop = "length pre + length ?bs"
  have b: "rd_byte \<lparr>rd_data = ?data, rd_pos = length pre\<rparr> = Inr (ident, \<lparr>rd_data = ?data, rd_pos = length pre + 1\<rparr>)"
    using readsD [OF bt.get_reads [OF assms(1)], of pre "?n @ content @ rest"] by (simp add: section_bytes_def)
  have u: "rd_u32 \<lparr>rd_data = ?data, rd_pos = length pre + 1\<rparr> =
      Inr (length content, \<lparr>rd_data = ?data, rd_pos = length pre + 1 + length ?n\<rparr>)"
    using readsD [OF reads_u32 [OF assms(2)], of "pre @ [word_of_nat ident]" "content @ rest"] by (simp add: section_bytes_def)
  have p: "parse_section ident ?stop obj \<lparr>rd_data = ?data, rd_pos = length pre + 1 + length ?n\<rparr> =
      Inr (obj', \<lparr>rd_data = ?data, rd_pos = ?stop\<rparr>)"
    using readsD [OF assms(3), of ?stop "pre @ word_of_nat ident # ?n" rest] by (simp add: section_bytes_def add.assoc)
  have stop: "length pre + 1 + length ?n + length content = ?stop" by (simp add: section_bytes_def)
  have more: "remaining \<lparr>rd_data = ?data, rd_pos = length pre\<rparr> > 0" by (simp add: remaining_def section_bytes_def)
  show "sections_loop obj \<lparr>rd_data = ?data, rd_pos = length pre\<rparr> =
      sections_loop obj' \<lparr>rd_data = ?data, rd_pos = ?stop\<rparr>"
    by (subst sections_loop.simps)
      (simp only: more if_True b u p bindE_Inr prod.case Let_def reader.select_convs reader.update_convs stop seek_def)
qed

context codec
begin

lemma items_appends:
  assumes "items_ok ok bytes_of items"
  shows "appends (emit_section ident items put) (items_bytes ident bytes_of items)"
proof (cases "items = []")
  case False
  have "appends (steps [put_nat (length items), for_each items put])
      (uleb (length items) @ concat (map bytes_of items) @ [])"
    using assms by (intro appends_seq put_appends) (auto simp: items_ok_def list_all_iff)
  then have "appends (put_section (int ident) (steps [put_nat (length items), for_each items put]))
      (word_of_int (int ident) # uleb (length (vector_bytes bytes_of items)) @ vector_bytes bytes_of items)"
    using assms by (intro appends_section) (simp_all add: vector_bytes_def items_ok_def)
  with False show ?thesis
    by (simp add: emit_section_def emit_when_def [abs_def] items_bytes_def section_bytes_def)
qed (simp add: emit_section_def emit_when_def [abs_def] items_bytes_def appends_Nil)

text \<open>A section parser that appends a vector of this codec's items to a field of the object.\<close>

lemma items_load:
  assumes "items_ok ok bytes_of items" "ident < 256"
    and "\<And>stop r. parse_section ident stop obj r = bindE (rd_vector get r) (\<lambda>(xs, r). Inr (add xs, r))"
    and "add [] = obj"
  shows "loads obj (items_bytes ident bytes_of items) (add items)"
proof (cases "items = []")
  case False
  have "reads (rd_vector get) (vector_bytes bytes_of items) items"
    unfolding vector_bytes_def using assms(1) by (intro vector_reads) (simp_all add: items_ok_def)
  then have "reads (parse_section ident stop obj) (vector_bytes bytes_of items) (add items)" for stop
    unfolding assms(3) [abs_def] by (rule reads_bind_Nil) (rule reads_Inr)
  then show ?thesis using False assms(1,2) by (simp add: items_bytes_def loads_section items_ok_def)
qed (simp add: items_bytes_def assms(4) loads_Nil)

end

section \<open>A module's bytes\<close>

definition sections_bytes :: "parsed_object \<Rightarrow> byte list" where
  "sections_bytes obj =
     items_bytes 1 type_bytes (ob_types obj) @ items_bytes 3 uleb (ob_functions obj) @
     items_bytes 4 table_bytes (ob_tables obj) @ items_bytes 5 memory_bytes (ob_memories obj) @
     items_bytes 13 tag_bytes (ob_tags obj) @ items_bytes 6 global_bytes (ob_globals obj) @
     items_bytes 7 export_bytes (ob_exports obj) @ items_bytes 9 element_bytes (ob_elements obj) @
     items_bytes 10 code_bytes (ob_code obj)"

definition object_bytes :: "parsed_object \<Rightarrow> byte list" where
  "object_bytes obj = [0x00, 0x61, 0x73, 0x6d, 0x01, 0x00, 0x00, 0x00] @ sections_bytes obj"

definition object_ok :: "parsed_object \<Rightarrow> bool" where
  "object_ok obj \<longleftrightarrow>
     items_ok type_ok type_bytes (ob_types obj) \<and> items_ok (\<lambda>n. n < 2 ^ 32) uleb (ob_functions obj) \<and>
     items_ok table_ok table_bytes (ob_tables obj) \<and> items_ok memory_ok memory_bytes (ob_memories obj) \<and>
     items_ok tag_ok tag_bytes (ob_tags obj) \<and> items_ok global_ok global_bytes (ob_globals obj) \<and>
     items_ok export_ok export_bytes (ob_exports obj) \<and> items_ok element_ok element_bytes (ob_elements obj) \<and>
     items_ok code_ok code_bytes (ob_code obj) \<and>
     ob_imports obj = [] \<and> ob_symbols obj = [] \<and> ob_relocations obj = []"

lemma parse_object_bytes:
  assumes ok: "object_ok obj"
  shows "parseObject (ob_name obj) (object_bytes obj) = Inr obj"
proof -
  let ?hd = "[0x00, 0x61, 0x73, 0x6d, 0x01, 0x00, 0x00, 0x00] :: byte list"
  define o0 where "o0 = empty_object (ob_name obj)"
  define o1 where "o1 = o0\<lparr>ob_types := ob_types obj\<rparr>"
  define o2 where "o2 = o1\<lparr>ob_functions := ob_functions obj\<rparr>"
  define o3 where "o3 = o2\<lparr>ob_tables := ob_tables obj\<rparr>"
  define o4 where "o4 = o3\<lparr>ob_memories := ob_memories obj\<rparr>"
  define o5 where "o5 = o4\<lparr>ob_tags := ob_tags obj\<rparr>"
  define o6 where "o6 = o5\<lparr>ob_globals := ob_globals obj\<rparr>"
  define o7 where "o7 = o6\<lparr>ob_exports := ob_exports obj\<rparr>"
  define o8 where "o8 = o7\<lparr>ob_elements := ob_elements obj\<rparr>"
  define o9 where "o9 = o8\<lparr>ob_code := ob_code obj\<rparr>"
  note os = o9_def o8_def o7_def o6_def o5_def o4_def o3_def o2_def o1_def o0_def empty_object_def
  have "loads o0 (items_bytes 1 type_bytes (ob_types obj)) o1"
    using ty.items_load [where add = "\<lambda>xs. o0\<lparr>ob_types := ob_types o0 @ xs\<rparr>" and obj = o0 and ident = 1] ok
    by (simp add: os object_ok_def parse_section_def parseTypeSection_def)
  moreover have "loads o1 (items_bytes 3 uleb (ob_functions obj)) o2"
    using u32.items_load [where add = "\<lambda>xs. o1\<lparr>ob_functions := ob_functions o1 @ xs\<rparr>" and obj = o1 and ident = 3] ok
    by (simp add: os object_ok_def parse_section_def parseFunctionSection_def)
  moreover have "loads o2 (items_bytes 4 table_bytes (ob_tables obj)) o3"
    using tb.items_load [where add = "\<lambda>xs. o2\<lparr>ob_tables := ob_tables o2 @ xs\<rparr>" and obj = o2 and ident = 4] ok
    by (simp add: os object_ok_def parse_section_def parseTableSection_def)
  moreover have "loads o3 (items_bytes 5 memory_bytes (ob_memories obj)) o4"
    using mm.items_load [where add = "\<lambda>xs. o3\<lparr>ob_memories := ob_memories o3 @ xs\<rparr>" and obj = o3 and ident = 5] ok
    by (simp add: os object_ok_def parse_section_def parseMemorySection_def)
  moreover have "loads o4 (items_bytes 13 tag_bytes (ob_tags obj)) o5"
    using tg.items_load [where add = "\<lambda>xs. o4\<lparr>ob_tags := ob_tags o4 @ xs\<rparr>" and obj = o4 and ident = 13] ok
    by (simp add: os object_ok_def parse_section_def parseTagSection_def)
  moreover have "loads o5 (items_bytes 6 global_bytes (ob_globals obj)) o6"
    using gl.items_load [where add = "\<lambda>xs. o5\<lparr>ob_globals := ob_globals o5 @ xs\<rparr>" and obj = o5 and ident = 6] ok
    by (simp add: os object_ok_def parse_section_def parseGlobalSection_def)
  moreover have "loads o6 (items_bytes 7 export_bytes (ob_exports obj)) o7"
    using ex.items_load [where add = "\<lambda>xs. o6\<lparr>ob_exports := ob_exports o6 @ xs\<rparr>" and obj = o6 and ident = 7] ok
    by (simp add: os object_ok_def parse_section_def parseExportSection_def)
  moreover have "loads o7 (items_bytes 9 element_bytes (ob_elements obj)) o8"
    using el.items_load [where add = "\<lambda>xs. o7\<lparr>ob_elements := ob_elements o7 @ xs\<rparr>" and obj = o7 and ident = 9] ok
    by (simp add: os object_ok_def parse_section_def parseElementSection_def)
  moreover have "loads o8 (items_bytes 10 code_bytes (ob_code obj)) o9"
    using cd.items_load [where add = "\<lambda>xs. o8\<lparr>ob_code := ob_code o8 @ xs\<rparr>" and obj = o8 and ident = 10] ok
    by (simp add: os object_ok_def parse_section_def parseCodeSection_def)
  ultimately have all: "loads o0 (sections_bytes obj) o9"
    unfolding sections_bytes_def by (blast intro: loads_append)
  have "sections_loop o0 \<lparr>rd_data = object_bytes obj, rd_pos = 8\<rparr> =
      sections_loop o9 \<lparr>rd_data = object_bytes obj, rd_pos = length (object_bytes obj)\<rparr>"
    using all [unfolded loads_def, rule_format, of ?hd "[]"] by (simp add: object_bytes_def eval_nat_numeral)
  also have "\<dots> = Inr o9" by (subst sections_loop.simps) (simp add: remaining_def)
  finally have "sections_loop o0 \<lparr>rd_data = object_bytes obj, rd_pos = 8\<rparr> = Inr o9" .
  moreover have "o9 = obj" using ok by (simp add: os object_ok_def)
  ultimately show ?thesis
    by (simp add: parseObject_def rd_bytes_def new_reader_def rd_slice_def seek_def o0_def object_bytes_def)
qed

section \<open>The merged object\<close>

text \<open>What linking the modules should give: their entries one after the other, indices moved to the merged
  index spaces, bodies rewritten.\<close>

definition merged_object ::
  "js_string \<Rightarrow> bool \<Rightarrow> js_string option \<Rightarrow> parsed_object list \<Rightarrow> resolution \<Rightarrow> module_offsets list \<Rightarrow> parsed_object" where
  "merged_object name trace entry parsed res offsets =
     (let modules = zip parsed offsets in
      \<lparr>ob_name = name, ob_types = concat (map ob_types parsed), ob_imports = [], ob_functions = allFunctions modules,
       ob_tables = concat (map ob_tables parsed), ob_memories = concat (map ob_memories parsed),
       ob_globals = concat (map ob_globals parsed), ob_exports = concat (map (module_exports trace entry) modules),
       ob_elements = concat (map (\<lambda>(obj, off). map (shift_element off) (ob_elements obj)) modules),
       ob_tags = concat (map (\<lambda>(obj, off). map (shift_tag off) (ob_tags obj)) modules),
       ob_code = map (\<lambda>(code, body). code\<lparr>cd_body := body\<rparr>) (allBodies modules res), ob_symbols = [], ob_relocations = []\<rparr>)"

lemma for_each_map: "for_each (map g xs) op = for_each xs (\<lambda>x. op (g x))"
  by (simp add: for_each_def comp_def)

lemma emit_body_update: "emit_body (code\<lparr>cd_body := body\<rparr>) body = emit_body code body"
  by (simp add: emit_body_def [abs_def])

lemma emit_code_section:
  assumes "length fs = length bodies"
  shows "emit_when (fs \<noteq> []) (put_section 10 (steps [put_nat (length fs), for_each bodies (\<lambda>(code, body). emit_body code body)])) =
    emit_section 10 (map (\<lambda>(code, body). code\<lparr>cd_body := body\<rparr>) bodies) (\<lambda>c. emit_body c (cd_body c))"
proof -
  have "(\<lambda>x. emit_body (case x of (code, body) \<Rightarrow> code\<lparr>cd_body := body\<rparr>) (cd_body (case x of (code, body) \<Rightarrow> code\<lparr>cd_body := body\<rparr>))) =
      (\<lambda>(code, body). emit_body code body)"
    by (intro ext) (simp add: case_prod_beta emit_body_update)
  moreover have "fs \<noteq> [] \<longleftrightarrow> bodies \<noteq> []" using assms by auto
  ultimately show ?thesis by (simp add: emit_section_def for_each_map assms)
qed

lemma emitLinked_bytes:
  assumes ok: "object_ok (merged_object name trace entry parsed res offsets)"
    and count: "length (allFunctions (zip parsed offsets)) = length (allBodies (zip parsed offsets) res)"
  shows "emitLinked trace entry parsed res offsets = Inr (object_bytes (merged_object name trace entry parsed res offsets))"
proof -
  let ?m = "merged_object name trace entry parsed res offsets"
  let ?mods = "zip parsed offsets"
  have head: "appends (put_bytes (Numbers [0x00, 0x61, 0x73, 0x6d])) [0x00, 0x61, 0x73, 0x6d]"
    "appends (put_bytes (Numbers [0x01, 0x00, 0x00, 0x00])) [0x01, 0x00, 0x00, 0x00]"
    using appends_bytes [of "Numbers [0x00, 0x61, 0x73, 0x6d]"] appends_bytes [of "Numbers [0x01, 0x00, 0x00, 0x00]"] by simp_all
  have parts: "items_ok type_ok type_bytes (ob_types ?m)" "items_ok (\<lambda>n. n < 2 ^ 32) uleb (ob_functions ?m)"
    "items_ok table_ok table_bytes (ob_tables ?m)" "items_ok memory_ok memory_bytes (ob_memories ?m)"
    "items_ok tag_ok tag_bytes (ob_tags ?m)" "items_ok global_ok global_bytes (ob_globals ?m)"
    "items_ok export_ok export_bytes (ob_exports ?m)" "items_ok element_ok element_bytes (ob_elements ?m)"
    "items_ok code_ok code_bytes (ob_code ?m)"
    using ok unfolding object_ok_def by blast+
  have fields: "concat (map ob_types parsed) = ob_types ?m" "allFunctions ?mods = ob_functions ?m"
    "concat (map ob_tables parsed) = ob_tables ?m" "concat (map ob_memories parsed) = ob_memories ?m"
    "concat (map (\<lambda>(obj, off). map (shift_tag off) (ob_tags obj)) ?mods) = ob_tags ?m"
    "concat (map ob_globals parsed) = ob_globals ?m" "concat (map (module_exports trace entry) ?mods) = ob_exports ?m"
    "concat (map (\<lambda>(obj, off). map (shift_element off) (ob_elements obj)) ?mods) = ob_elements ?m"
    "map (\<lambda>(code, body). code\<lparr>cd_body := body\<rparr>) (allBodies ?mods res) = ob_code ?m"
    by (simp_all add: merged_object_def Let_def)
  let ?ops = "[put_bytes (Numbers [0x00, 0x61, 0x73, 0x6d]), put_bytes (Numbers [0x01, 0x00, 0x00, 0x00]),
      emit_section 1 (ob_types ?m) emit_type, emit_section 3 (ob_functions ?m) put_nat,
      emit_section 4 (ob_tables ?m) emit_table, emit_section 5 (ob_memories ?m) emit_memory,
      emit_section 13 (ob_tags ?m) emit_tag, emit_section 6 (ob_globals ?m) emit_global,
      emit_section 7 (ob_exports ?m) emit_export, emit_section 9 (ob_elements ?m) emit_element,
      emit_section 10 (ob_code ?m) (\<lambda>c. emit_body c (cd_body c))]"
  have "appends (steps ?ops) ([0x00, 0x61, 0x73, 0x6d] @ [0x01, 0x00, 0x00, 0x00] @
      items_bytes 1 type_bytes (ob_types ?m) @ items_bytes 3 uleb (ob_functions ?m) @
      items_bytes 4 table_bytes (ob_tables ?m) @ items_bytes 5 memory_bytes (ob_memories ?m) @
      items_bytes 13 tag_bytes (ob_tags ?m) @ items_bytes 6 global_bytes (ob_globals ?m) @
      items_bytes 7 export_bytes (ob_exports ?m) @ items_bytes 9 element_bytes (ob_elements ?m) @
      items_bytes 10 code_bytes (ob_code ?m) @ [])"
    by (intro appends_steps_Nil appends_steps_Cons head ty.items_appends u32.items_appends tb.items_appends mm.items_appends
        tg.items_appends gl.items_appends ex.items_appends el.items_appends cd.items_appends parts)
  then have "appends (steps ?ops) (object_bytes ?m)" by (simp add: object_bytes_def sections_bytes_def)
  then obtain e where "steps ?ops new_encoder = Inr e" "written e = object_bytes ?m"
    by (elim appendsD [OF _ new_encoder_ok(1)]) simp
  then show ?thesis
    unfolding emitLinked_def Let_def emit_code_section [OF count] unfolding fields by (simp only: bindE_Inr enc_finish_written)
qed

end
