(* ===== verification/Link_Driver.thy ===== *)
theory Link_Driver
  imports Link_Merge
begin

text \<open>
  The outcome of \<^verbatim>\<open>link\<close>: parsing of all inputs, and the conditions under which the result is a binary.
\<close>

section \<open>Parsing the inputs\<close>

definition parses :: "js_string \<times> byte list \<Rightarrow> parsed_object \<Rightarrow> bool" where
  "parses = (\<lambda>(name, bytes) obj. parseObject name bytes = Inr obj)"

lemma parses_pair [simp]: "parses (name, bytes) obj \<longleftrightarrow> parseObject name bytes = Inr obj"
  by (simp add: parses_def)

lemma parse_inputs_snoc:
  "parse_inputs (objects @ [(name, bytes)]) =
     (case parse_inputs objects of (parsed, errors) \<Rightarrow>
        (case parseObject name bytes of
           Inr obj \<Rightarrow> (parsed @ [obj], errors)
         | Inl e \<Rightarrow> (parsed, errors @ [\<lparr>le_message = str ''Failed to parse '' @ quoted name @ str '': '' @ error_message e,
                                       le_module = Some name, le_severity = Error\<rparr>])))"
  by (simp add: parse_inputs_def split: prod.splits)

lemma has_error_append [simp]: "has_error (xs @ ys) \<longleftrightarrow> has_error xs \<or> has_error ys"
  by (simp add: has_error_def)

lemma has_error_simps [simp]:
  "\<not> has_error []" "has_error (e # es) \<longleftrightarrow> le_severity e = Error \<or> has_error es"
  by (simp_all add: has_error_def)

lemma parse_inputs_error: "has_error (snd (parse_inputs objects)) \<longleftrightarrow> snd (parse_inputs objects) \<noteq> []"
proof (induction objects rule: rev_induct)
  case (snoc x objects)
  obtain name bytes where "x = (name, bytes)" by (cases x)
  with snoc show ?case by (auto simp: parse_inputs_snoc split: prod.splits sum.splits)
qed (simp add: parse_inputs_def)

lemma list_all2_snoc: "list_all2 P (xs @ [x]) ys \<longleftrightarrow> (\<exists>zs z. ys = zs @ [z] \<and> list_all2 P xs zs \<and> P x z)"
proof (cases ys rule: rev_cases)
  case (snoc zs z)
  have "list_all2 P (xs @ [x]) (zs @ [z]) \<longleftrightarrow> list_all2 P (rev (xs @ [x])) (rev (zs @ [z]))" by (simp only: list_all2_rev)
  also have "\<dots> \<longleftrightarrow> P x z \<and> list_all2 P xs zs" by simp
  finally show ?thesis by (auto simp: snoc)
qed simp

lemma parse_inputs_parses:
  "snd (parse_inputs objects) = [] \<and> fst (parse_inputs objects) = objs \<longleftrightarrow> list_all2 parses objects objs"
proof (induction objects arbitrary: objs rule: rev_induct)
  case (snoc x objects)
  obtain name bytes where x: "x = (name, bytes)" by (cases x)
  show ?case
    by (cases "parseObject name bytes")
      (auto simp: x parse_inputs_snoc list_all2_snoc snoc.IH [symmetric] split: prod.splits)
qed (auto simp: parse_inputs_def)

section \<open>The outcome\<close>

definition isolation_wanted :: "link_options option \<Rightarrow> bool" where
  "isolation_wanted options = (case options of None \<Rightarrow> True | Some o' \<Rightarrow> lo_validateIsolation o' \<noteq> Some False)"

definition entry_of :: "link_options option \<Rightarrow> js_string option" where
  "entry_of options = (case options of None \<Rightarrow> None | Some o' \<Rightarrow> lo_entry o')"

lemma no_errors_map:
  "has_error (map (\<lambda>msg. \<lparr>le_message = msg, le_module = None, le_severity = Error\<rparr>) msgs) \<longleftrightarrow> msgs \<noteq> []"
  "\<not> has_error (map (\<lambda>v. \<lparr>le_message = f v, le_module = g v, le_severity = Warning\<rparr>) vs)"
  by (cases msgs) (auto simp: has_error_def list_ex_iff)

lemma failed_link_simps [simp]:
  "lr_success (failed_link es r) = False" "lr_binary (failed_link es r) = []" "lr_wat (failed_link es r) = []"
  "lr_errors (failed_link es r) = es"
  by (simp_all add: failed_link_def)

lemma link_parse_failure:
  assumes "snd (parse_inputs objects) \<noteq> []"
  shows "link trace objects options = failed_link (snd (parse_inputs objects)) (emptyIsolationReport (fst (parse_inputs objects)))"
proof -
  have "has_error (snd (parse_inputs objects))" using assms by (simp add: parse_inputs_error)
  then show ?thesis unfolding link_def Let_def by (subst (1) case_prod_beta) simp
qed

lemma link_parsed:
  assumes "list_all2 parses objects objs"
  shows "link trace objects options =
    (let res = resolveSymbols objs;
         report = (if isolation_wanted options then validateIsolation objs res else emptyIsolationReport objs);
         errors = map (\<lambda>msg. \<lparr>le_message = msg, le_module = None, le_severity = Error\<rparr>) (res_errors res) @
           (if isolation_wanted options then
              map (\<lambda>v. \<lparr>le_message = vi_message v, le_module = Some (vi_module v), le_severity = Warning\<rparr>) (ir_violations report)
            else []) in
     if res_errors res \<noteq> [] then failed_link errors report
     else case emitLinked trace (entry_of options) objs res (computeOffsets objs) of
       Inr binary \<Rightarrow> \<lparr>lr_binary = binary, lr_wat = generateWatStub objs (computeOffsets objs), lr_success = True,
         lr_errors = errors, lr_isolationReport = report\<rparr>
     | Inl e \<Rightarrow> failed_link (errors @ [\<lparr>le_message = str ''Link error: '' @ error_message e, le_module = None, le_severity = Error\<rparr>]) report)"
proof -
  have "parse_inputs objects = (objs, [])" using assms parse_inputs_parses [of objects objs] by (metis prod.collapse)
  then show ?thesis
    by (simp add: link_def Let_def isolation_wanted_def [symmetric] entry_of_def [symmetric] no_errors_map del: map_eq_conv)
qed

lemma link_cases:
  obtains (parse) "snd (parse_inputs objects) \<noteq> []" | (parsed) objs where "list_all2 parses objects objs"
  using parse_inputs_parses [of objects "fst (parse_inputs objects)"] by blast

end
