(* ===== verification/Link_Rewrite.thy ===== *)
theory Link_Rewrite
  imports Link_Linker Wasm_Codec
begin

text \<open>
  What the body rewriter does to a sequence of instructions: every index immediate is translated and
  re-encoded at its own width, everything else is copied. The rewriter works on bytes and knows six opcodes;
  the instructions are the specification, related to it by their encoding. An instruction of any other opcode
  is a string of bytes, and has to be free of the six: the rewriter has no operand lengths and takes such a
  byte of an operand for an opcode.
\<close>

section \<open>The linker's LEB128 helpers\<close>

lemma read_leb_reader:
  "leb_loop result shift r = Inr ((w, s, b), r') \<Longrightarrow>
     read_leb result shift sz (drop (rd_pos r) (rd_data r)) = (unat w, sz + (rd_pos r' - rd_pos r))"
proof (induction result shift r arbitrary: sz rule: leb_loop.induct)
  case (1 result shift r)
  from "1.prems" obtain c r1 where c: "rd_byte r = Inr (c, r1)"
    by (subst (asm) leb_loop.simps) (auto simp: bindE_eq_Inr)
  then have r1: "r1 = seek (rd_pos r + 1) r" "rd_pos r < length (rd_data r)" "c = unat (rd_data r ! rd_pos r)"
    using rd_byteD [OF c] by simp_all
  have data: "drop (rd_pos r) (rd_data r) = rd_data r ! rd_pos r # drop (rd_pos r1) (rd_data r1)"
    using r1 by (simp add: seek_def Cons_nth_drop_Suc)
  define next_w where "next_w = result OR push_bit (shift mod 32) (word_of_nat c AND 0x7f)"
  have step: "read_leb result shift sz (drop (rd_pos r) (rd_data r)) =
      (if c AND 0x80 \<noteq> 0 then read_leb next_w (shift + 7) (sz + 1) (drop (rd_pos r1) (rd_data r1))
       else (unat next_w, sz + 1))"
    unfolding data read_leb.simps(2) Let_def next_w_def r1(3) ..
  have loop: "leb_loop result shift r = (if c AND 0x80 \<noteq> 0 then leb_loop next_w (shift + 7) r1 else Inr ((next_w, shift + 7, c), r1))"
    by (subst leb_loop.simps) (simp add: c Let_def next_w_def del: push_bit_and)
  show ?case
  proof (cases "c AND 0x80 = 0")
    case True
    with "1.prems" loop have "w = next_w" "r' = r1" by simp_all
    with True step r1(1) show ?thesis by (simp add: seek_def)
  next
    case False
    with "1.prems" loop have rec: "leb_loop next_w (shift + 7) r1 = Inr ((w, s, b), r')" by simp
    have "rd_pos r1 < rd_pos r'" using leb_loop_moves [OF rec] by simp
    with "1.IH" [OF c refl next_w_def refl False, of "sz + 1"] rec step False r1(1) show ?thesis
      by (simp add: seek_def)
  qed
qed

lemma readLEB128_uleb:
  assumes "n < 2 ^ 32"
  shows "readLEB128 (uleb n @ rest) = (n, length (uleb n))"
proof -
  have "rd_u32 \<lparr>rd_data = uleb n @ rest, rd_pos = 0\<rparr> = Inr (n, \<lparr>rd_data = uleb n @ rest, rd_pos = length (uleb n)\<rparr>)"
    using readsD [OF reads_u32 [OF assms], of "[]" rest] by simp
  then obtain w s b where w: "leb_loop 0 0 \<lparr>rd_data = uleb n @ rest, rd_pos = 0\<rparr> =
      Inr ((w, s, b), \<lparr>rd_data = uleb n @ rest, rd_pos = length (uleb n)\<rparr>)" "unat w = n"
    by (auto simp: rd_u32_def bindE_eq_Inr)
  from read_leb_reader [OF w(1), of 0] w(2) show ?thesis by (simp add: readLEB128_def)
qed

lemma append_loop_uleb: "append_loop v = uleb (unat v)"
proof (induction v rule: append_loop.induct)
  case (1 v)
  then show ?case by (subst append_loop.simps, subst uleb_word) (simp add: Let_def)
qed

lemma appendLEB128_uleb: "n < 2 ^ 32 \<Longrightarrow> appendLEB128 n = uleb n"
  by (simp add: appendLEB128_def append_loop_uleb unat_of_nat take_bit_nat_eq_self)

section \<open>Instructions\<close>

datatype instr =
    Call nat
  | GlobalGet nat
  | GlobalSet nat
  | MemorySize nat
  | MemoryGrow nat
  | CallIndirect nat nat
  | Other "byte list"

fun instr_bytes :: "instr \<Rightarrow> byte list" where
  "instr_bytes (Call f) = 0x10 # uleb f"
| "instr_bytes (GlobalGet g) = 0x23 # uleb g"
| "instr_bytes (GlobalSet g) = 0x24 # uleb g"
| "instr_bytes (MemorySize m) = 0x3f # uleb m"
| "instr_bytes (MemoryGrow m) = 0x40 # uleb m"
| "instr_bytes (CallIndirect t tb) = 0x11 # uleb t @ uleb tb"
| "instr_bytes (Other bs) = bs"

fun relocate :: "relocator \<Rightarrow> instr \<Rightarrow> instr" where
  "relocate rc (Call f) = Call (rc_func rc f)"
| "relocate rc (GlobalGet g) = GlobalGet (rc_global rc g)"
| "relocate rc (GlobalSet g) = GlobalSet (rc_global rc g)"
| "relocate rc (MemorySize m) = MemorySize (rc_memory rc m)"
| "relocate rc (MemoryGrow m) = MemoryGrow (rc_memory rc m)"
| "relocate rc (CallIndirect t tb) = CallIndirect (rc_type rc t) (rc_table rc tb)"
| "relocate rc (Other bs) = Other bs"

text \<open>The opcodes the rewriter looks for.\<close>

definition scanned :: "byte \<Rightarrow> bool" where
  "scanned b \<longleftrightarrow> b \<in> {0x10, 0x11, 0x23, 0x24, 0x3f, 0x40}"

text \<open>Indices are 32-bit, and no byte of another instruction is one of those opcodes.\<close>

fun instr_ok :: "instr \<Rightarrow> bool" where
  "instr_ok (Call f) = (f < 2 ^ 32)"
| "instr_ok (GlobalGet g) = (g < 2 ^ 32)"
| "instr_ok (GlobalSet g) = (g < 2 ^ 32)"
| "instr_ok (MemorySize m) = (m < 2 ^ 32)"
| "instr_ok (MemoryGrow m) = (m < 2 ^ 32)"
| "instr_ok (CallIndirect t tb) = (t < 2 ^ 32 \<and> tb < 2 ^ 32)"
| "instr_ok (Other bs) = list_all (\<lambda>b. \<not> scanned b) bs"

lemma rewrite_immediate_uleb:
  "n < 2 ^ 32 \<Longrightarrow> f n < 2 ^ 32 \<Longrightarrow> rewrite_immediate f (uleb n @ rest) = (uleb (f n), rest)"
  by (simp only: rewrite_immediate_def readLEB128_uleb appendLEB128_uleb Let_def prod.case) simp

lemma rewrite_copies: "list_all (\<lambda>b. \<not> scanned b) bs \<Longrightarrow> rewrite_loop rc (bs @ rest) = bs @ rewrite_loop rc rest"
  by (induction bs) (simp_all add: scanned_def)

lemma rewrite_instr:
  assumes "instr_ok i" "instr_ok (relocate rc i)"
  shows "rewrite_loop rc (instr_bytes i @ rest) = instr_bytes (relocate rc i) @ rewrite_loop rc rest"
  using assms by (cases i) (simp_all add: rewrite_immediate_uleb rewrite_copies)

lemma rewrite_instrs:
  "list_all instr_ok is \<Longrightarrow> list_all (\<lambda>i. instr_ok (relocate rc i)) is \<Longrightarrow>
     rewrite_loop rc (concat (map instr_bytes is)) = concat (map (\<lambda>i. instr_bytes (relocate rc i)) is)"
  by (induction "is") (simp_all add: rewrite_instr)

section \<open>Which index a reference gets\<close>

lemma resolve_scan_first:
  "resolve_scan origIdx kind modIdx base offs res n syms =
     (case List.find (\<lambda>(_, sy). sy_kind sy = kind \<and> sy_index sy = origIdx) (enumerate n syms) of
        None \<Rightarrow> origIdx + base
      | Some (symIdx, sy) \<Rightarrow>
          (case resolved_index kind modIdx symIdx offs res sy of Some i \<Rightarrow> i | None \<Rightarrow> origIdx + base))"
  by (induction syms arbitrary: n) auto

text \<open>A reference whose first matching symbol was resolved goes to the target's index in the merged
  space; everything else is shifted by the module's own offset.\<close>

lemma resolveIndex_import:
  assumes "List.find (\<lambda>(_, sy). sy_kind sy = kind \<and> sy_index sy = origIdx) (enumerate 0 (ob_symbols obj)) = Some (symIdx, sy)"
    and "undefined_symbol sy" "map_of (resolved res) (modIdx, symIdx) = Some t"
    and "target_offset kind (offs ! targetModule t) = Some off"
  shows "resolveIndex origIdx kind obj modIdx base offs res = targetIndex t + off"
  using assms by (simp add: resolveIndex_def resolve_scan_first resolved_index_def)

lemma resolveIndex_local:
  assumes "\<And>sy. sy \<in> set (ob_symbols obj) \<Longrightarrow> sy_kind sy = kind \<Longrightarrow> sy_index sy = origIdx \<Longrightarrow> \<not> undefined_symbol sy"
  shows "resolveIndex origIdx kind obj modIdx base offs res = origIdx + base"
proof -
  have "\<not> undefined_symbol sy" if "List.find (\<lambda>(_, sy). sy_kind sy = kind \<and> sy_index sy = origIdx) (enumerate 0 (ob_symbols obj)) = Some (i, sy)" for i sy
    using that assms by (auto simp: find_Some_iff nth_enumerate_eq)
  then show ?thesis
    by (auto simp: resolveIndex_def resolve_scan_first resolved_index_def split: option.splits)
qed

end
