(* ===== verification/Link_Offsets.thy ===== *)
theory Link_Offsets
  imports Link_Linker Wasm_Codec
begin

text \<open>
  Correctness of the linker's index arithmetic: the six index spaces of the merged module, each an
  instance of one locale, and the rewriting of function bodies.
\<close>

section \<open>Index spaces\<close>

text \<open>An index space gives every module a number of entries and a running offset.\<close>

locale index_space =
  fixes entries :: "parsed_object \<Rightarrow> nat"
    and offset :: "module_offsets \<Rightarrow> nat"
  assumes offset_start: "offset no_offsets = 0"
    and offset_advance: "offset (advance_offsets obj off) = offset off + entries obj"
begin

lemma offset_from:
  "m < length objs \<Longrightarrow> offset (offsets_from off objs ! m) = offset off + sum_list (map entries (take m objs))"
proof (induction objs arbitrary: off m)
  case (Cons obj objs)
  then show ?case by (cases m) (simp_all add: offset_advance)
qed simp

lemma offset_at: "m < length objs \<Longrightarrow> offset (computeOffsets objs ! m) = sum_list (map entries (take m objs))"
  by (simp add: computeOffsets_def offset_from offset_start)

lemma offset_step:
  assumes "m < length objs"
  shows "sum_list (map entries (take (Suc m) objs)) = offset (computeOffsets objs ! m) + entries (objs ! m)"
  using assms by (simp add: offset_at take_Suc_conv_app_nth)

lemma offset_mono:
  assumes "a < b" "b < length objs"
  shows "offset (computeOffsets objs ! a) + entries (objs ! a) \<le> offset (computeOffsets objs ! b)"
proof -
  have "take b objs = take (Suc a) objs @ take (b - Suc a) (drop (Suc a) objs)"
    using assms by (metis Suc_leI le_add_diff_inverse take_add)
  then have "sum_list (map entries (take (Suc a) objs)) \<le> sum_list (map entries (take b objs))" by simp
  then show ?thesis using assms offset_step [of a objs] offset_at [of b objs] by simp
qed

text \<open>Entries of two modules never share an index of the merged module.\<close>

lemma disjoint:
  assumes "a < length objs" "b < length objs" "i < entries (objs ! a)" "j < entries (objs ! b)"
    and "offset (computeOffsets objs ! a) + i = offset (computeOffsets objs ! b) + j"
  shows "a = b \<and> i = j"
proof -
  have "a = b"
  proof (rule ccontr)
    assume "a \<noteq> b"
    then consider "a < b" | "b < a" by linarith
    then show False using offset_mono [of a b objs] offset_mono [of b a objs] assms by cases auto
  qed
  with assms(5) show ?thesis by simp
qed

lemma bounded:
  assumes "m < length objs" "i < entries (objs ! m)"
  shows "offset (computeOffsets objs ! m) + i < sum_list (map entries objs)"
proof -
  have "sum_list (map entries (take (Suc m) objs)) \<le> sum_list (map entries objs)"
    by (metis append_take_drop_id le_add1 map_append sum_list_append)
  with offset_step [OF assms(1)] assms(2) show ?thesis by simp
qed

text \<open>When the entries are exactly the items of a list, the offset locates them in the concatenation.\<close>

lemma merged_nth:
  assumes "m < length objs" "\<And>obj. obj \<in> set objs \<Longrightarrow> length (items obj) = entries obj" "i < length (items (objs ! m))"
  shows "concat (map items objs) ! (offset (computeOffsets objs ! m) + i) = items (objs ! m) ! i"
proof -
  have objs: "objs = take m objs @ objs ! m # drop (Suc m) objs" using assms(1) by (rule id_take_nth_drop)
  have sizes: "map (length \<circ> items) (take m objs) = map entries (take m objs)"
    using assms(2) by (auto dest: in_set_takeD)
  have "length (concat (map items (take m objs))) = offset (computeOffsets objs ! m)"
    unfolding length_concat map_map sizes offset_at [OF assms(1)] ..
  then have "concat (map items (take m objs @ objs ! m # drop (Suc m) objs)) ! (offset (computeOffsets objs ! m) + i) =
      items (objs ! m) ! i"
    using assms(3) by (simp add: nth_append)
  then show ?thesis using objs by simp
qed

end

interpretation types: index_space "\<lambda>obj. length (ob_types obj)" typeOffset
  by unfold_locales (simp_all add: no_offsets_def advance_offsets_def)

interpretation funcs: index_space "\<lambda>obj. import_count 0 obj + length (ob_functions obj)" funcOffset
  by unfold_locales (simp_all add: no_offsets_def advance_offsets_def)

interpretation globals: index_space "\<lambda>obj. import_count 3 obj + length (ob_globals obj)" globalOffset
  by unfold_locales (simp_all add: no_offsets_def advance_offsets_def)

interpretation memories: index_space "\<lambda>obj. import_count 2 obj + length (ob_memories obj)" memoryOffset
  by unfold_locales (simp_all add: no_offsets_def advance_offsets_def)

interpretation tables: index_space "\<lambda>obj. import_count 1 obj + length (ob_tables obj)" tableOffset
  by unfold_locales (simp_all add: no_offsets_def advance_offsets_def)

interpretation tags: index_space "\<lambda>obj. import_count 4 obj + length (ob_tags obj)" tagOffset
  by unfold_locales (simp_all add: no_offsets_def advance_offsets_def)

lemma length_offsets [simp]: "length (computeOffsets objs) = length objs"
proof -
  have "length (offsets_from off objs) = length objs" for off by (induction objs arbitrary: off) simp_all
  then show ?thesis by (simp add: computeOffsets_def)
qed

text \<open>A list of lists, located by the lengths before it.\<close>

lemma concat_at:
  "\<lbrakk> m < length xss; i < length (xss ! m) \<rbrakk> \<Longrightarrow> concat xss ! (sum_list (map length (take m xss)) + i) = xss ! m ! i"
proof (induction xss arbitrary: m)
  case (Cons xs xss)
  then show ?case by (cases m) (simp_all add: nth_append add.assoc)
qed simp

text \<open>The function and code sections of the merged module: where function \<open>i\<close> of module \<open>m\<close> really stands.\<close>

lemma merged_function_at:
  assumes "m < length objs" "i < length (ob_functions (objs ! m))"
  shows "allFunctions (zip objs (computeOffsets objs)) ! (sum_list (map (\<lambda>obj. length (ob_functions obj)) (take m objs)) + i) =
    ob_functions (objs ! m) ! i + typeOffset (computeOffsets objs ! m)"
proof -
  define xss where "xss = map (\<lambda>(obj :: parsed_object, off). map (\<lambda>t. t + typeOffset off) (ob_functions obj)) (zip objs (computeOffsets objs))"
  have "map length (take m xss) = map (\<lambda>obj. length (ob_functions obj)) (take m objs)"
    by (rule nth_equalityI) (use assms(1) in \<open>simp_all add: xss_def\<close>)
  then show ?thesis using concat_at [of m xss i] assms by (simp add: allFunctions_def xss_def [symmetric]) (simp add: xss_def)
qed

lemma merged_body_at:
  assumes "m < length objs" "i < length (ob_code (objs ! m))"
  shows "allBodies (zip objs (computeOffsets objs)) res ! (sum_list (map (\<lambda>obj. length (ob_code obj)) (take m objs)) + i) =
    (ob_code (objs ! m) ! i,
     rewriteCode (cd_body (ob_code (objs ! m) ! i)) (objs ! m) m (computeOffsets objs ! m) (computeOffsets objs) res)"
proof -
  define xss where "xss = map (\<lambda>(modIdx, obj :: parsed_object, off). map (\<lambda>code. (code, rewriteCode (cd_body code) obj modIdx off
    (map snd (zip objs (computeOffsets objs))) res)) (ob_code obj)) (enumerate 0 (zip objs (computeOffsets objs)))"
  have "map length (take m xss) = map (\<lambda>obj. length (ob_code obj)) (take m objs)"
    by (rule nth_equalityI) (use assms(1) in \<open>simp_all add: xss_def nth_enumerate_eq\<close>)
  moreover have "map snd (zip objs (computeOffsets objs)) = computeOffsets objs" by simp
  ultimately show ?thesis using concat_at [of m xss i] assms
    by (simp add: allBodies_def xss_def [symmetric] del: map_snd_zip) (simp add: xss_def nth_enumerate_eq)
qed

text \<open>The function offset exceeds it by the imported functions of the earlier modules; without imports it is exact.\<close>

lemma function_offset_at:
  "m < length objs \<Longrightarrow> funcOffset (computeOffsets objs ! m) =
     sum_list (map (\<lambda>obj. length (ob_functions obj)) (take m objs)) + sum_list (map (import_count 0) (take m objs))"
  by (simp add: funcs.offset_at sum_list_addf)

lemma merged_functions:
  assumes "m < length objs" "\<forall>obj \<in> set objs. import_count 0 obj = 0" "i < length (ob_functions (objs ! m))"
  shows "allFunctions (zip objs (computeOffsets objs)) ! (funcOffset (computeOffsets objs ! m) + i) =
    ob_functions (objs ! m) ! i + typeOffset (computeOffsets objs ! m)"
proof -
  have "sum_list (map (import_count 0) (take m objs)) = 0"
    using assms(2) by (auto dest: in_set_takeD simp: sum_list_eq_0_iff)
  then show ?thesis using merged_function_at [OF assms(1,3)] by (simp only: function_offset_at [OF assms(1)] add_0_right)
qed

end
