(* ===== verification/Link_Properties.thy ===== *)
theory Link_Properties
  imports Link_Driver Link_Rewrite Link_Offsets
begin

text \<open>
  The properties of the linker: symbol resolution, isolation reports, merged index spaces, rewriting of
  function bodies, and the linked binary as a whole.
\<close>

section \<open>Concrete modules\<close>

definition blank_object :: "string \<Rightarrow> parsed_object" where
  "blank_object name =
     \<lparr>ob_name = str name, ob_types = [], ob_imports = [], ob_functions = [], ob_tables = [], ob_memories = [],
      ob_globals = [], ob_exports = [], ob_elements = [], ob_tags = [], ob_code = [], ob_symbols = [], ob_relocations = []\<rparr>"

text \<open>\<open>caller\<close> imports \<^verbatim>\<open>f\<close> and calls it from its own function; \<open>callee\<close> defines and exports \<^verbatim>\<open>f\<close>.\<close>

definition caller :: parsed_object where
  "caller = (blank_object ''a'')
     \<lparr>ob_types := [\<lparr>ts_params = [], ts_results = []\<rparr>],
      ob_imports := [\<lparr>im_module = str ''env'', im_name = str ''f'', im_kind = 0, im_typeIdx = Some 0, im_globalType = None,
        im_globalMutable = None, im_tableElementType = None, im_tableMin = None, im_tableMax = None, im_memoryMin = None,
        im_memoryMax = None\<rparr>],
      ob_functions := [0],
      ob_code := [\<lparr>cd_locals = [], cd_body = [0x10, 0x00, 0x0b]\<rparr>],
      ob_symbols := [\<lparr>sy_kind = 0, sy_name = str ''f'', sy_index = 0, sy_flags = 0x10\<rparr>]\<rparr>"

definition callee :: parsed_object where
  "callee = (blank_object ''b'')
     \<lparr>ob_types := [\<lparr>ts_params = [], ts_results = []\<rparr>], ob_functions := [0],
      ob_code := [\<lparr>cd_locals = [], cd_body = [0x0b]\<rparr>],
      ob_symbols := [\<lparr>sy_kind = 0, sy_name = str ''f'', sy_index = 0, sy_flags = 0x20\<rparr>]\<rparr>"

definition closed_module :: "string \<Rightarrow> nat \<Rightarrow> parsed_object" where
  "closed_module name pages = (blank_object name)
     \<lparr>ob_types := [\<lparr>ts_params = [0x7f], ts_results = [0x7f]\<rparr>], ob_functions := [0],
      ob_memories := [\<lparr>mem_min = pages, mem_max = None\<rparr>],
      ob_exports := [\<lparr>ex_name = str ''run'', ex_kind = 0, ex_index = 0\<rparr>],
      ob_code := [\<lparr>cd_locals = [(1, 0x7f)], cd_body = [0x3f, 0x00, 0x0b]\<rparr>]\<rparr>"

lemma caller_simps:
  "ob_symbols caller = [\<lparr>sy_kind = 0, sy_name = [102], sy_index = 0, sy_flags = 0x10\<rparr>]"
  "ob_symbols callee = [\<lparr>sy_kind = 0, sy_name = [102], sy_index = 0, sy_flags = 0x20\<rparr>]"
  "import_count 0 caller = 1" "import_count 0 callee = 0" "ob_functions caller = [0]" "ob_functions callee = [0]"
  "length (ob_types caller) = 1" "length (ob_types callee) = 1"
  by (simp_all add: caller_def callee_def blank_object_def import_count_def str_def)

lemma caller_flags:
  "undefined_symbol (ob_symbols caller ! 0)" "\<not> undefined_symbol (ob_symbols callee ! 0)"
  "\<not> local_symbol (ob_symbols callee ! 0)" "\<not> weak_symbol (ob_symbols callee ! 0)"
  unfolding caller_simps by code_simp+

lemma caller_sites:
  "symbol_sites [caller, callee] =
     [\<lparr>ds_moduleIdx = 0, ds_symbolIdx = 0, ds_symbol = ob_symbols caller ! 0\<rparr>,
      \<lparr>ds_moduleIdx = 1, ds_symbolIdx = 0, ds_symbol = ob_symbols callee ! 0\<rparr>]"
  by (simp add: symbol_sites_def caller_simps)

lemma caller_resolution:
  "resolveSymbols [caller, callee] =
     \<lparr>resolved = [((0, 0), \<lparr>targetModule = 1, targetIndex = 0, rs_name = str ''f''\<rparr>)], res_errors = []\<rparr>"
  by code_simp

section \<open>Symbol resolution\<close>

text \<open>C28: a resolved reference names a visible definition of the same kind and name in one of the modules, and
  a weak definition is taken only when every definition is weak.\<close>

theorem resolution_sound:
  assumes "map_of (resolved (resolveSymbols objects)) (m, i) = Some t"
  shows "m < length objects \<and> i < length (ob_symbols (objects ! m)) \<and>
    (let sy = ob_symbols (objects ! m) ! i in
     undefined_symbol sy \<and> rs_name t = sy_name sy \<and>
     (\<exists>d \<in> set (symbol_sites objects).
        ds_moduleIdx d = targetModule t \<and> sy_index (ds_symbol d) = targetIndex t \<and> visible_definition (ds_symbol d) \<and>
        sy_kind (ds_symbol d) = sy_kind sy \<and> sy_name (ds_symbol d) = sy_name sy \<and>
        (weak_symbol (ds_symbol d) \<longrightarrow> (\<forall>d' \<in> set (definitions_of objects (symbol_key sy)). weak_symbol (ds_symbol d')))))"
proof -
  obtain sy d where *: "m < length objects" "i < length (ob_symbols (objects ! m))" "sy = ob_symbols (objects ! m) ! i"
    "reference sy" "d \<in> set (definitions_of objects (symbol_key sy))"
    "targetModule t = ds_moduleIdx d" "targetIndex t = sy_index (ds_symbol d)" "rs_name t = sy_name sy"
    "\<And>d'. weak_symbol (ds_symbol d) \<Longrightarrow> d' \<in> set (definitions_of objects (symbol_key sy)) \<Longrightarrow> weak_symbol (ds_symbol d')"
    using resolved_target [OF assms] by blast
  then show ?thesis unfolding Let_def mem_definitions_of [of d] reference_def by (metis (no_types, lifting))
qed

theorem resolution_sound_witness:
  "\<exists>d \<in> set (symbol_sites [caller, callee]). ds_moduleIdx d = 1 \<and> sy_index (ds_symbol d) = 0 \<and> visible_definition (ds_symbol d)"
  using resolution_sound [of "[caller, callee]" 0 0 "\<lparr>targetModule = 1, targetIndex = 0, rs_name = str ''f''\<rparr>"]
  by (auto simp: caller_resolution Let_def)

text \<open>C29: resolution reports no error exactly when every named reference has a definition it can see and no
  kind and name has two strong definitions.\<close>

theorem resolution_errors:
  "res_errors (resolveSymbols objects) = [] \<longleftrightarrow>
     list_all (\<lambda>d. undefined_symbol (ds_symbol d) \<and> sy_name (ds_symbol d) \<noteq> [] \<longrightarrow>
       list_ex (\<lambda>d'. visible_definition (ds_symbol d') \<and> sy_kind (ds_symbol d') = sy_kind (ds_symbol d) \<and>
         sy_name (ds_symbol d') = sy_name (ds_symbol d)) (symbol_sites objects)) (symbol_sites objects) \<and>
     (\<forall>key. length (filter (\<lambda>d. visible_definition (ds_symbol d) \<and> symbol_key (ds_symbol d) = key \<and>
        \<not> weak_symbol (ds_symbol d)) (symbol_sites objects)) \<le> 1)"
proof -
  have "definitions_of objects (symbol_key sy) \<noteq> [] \<longleftrightarrow>
      list_ex (\<lambda>d'. visible_definition (ds_symbol d') \<and> sy_kind (ds_symbol d') = sy_kind sy \<and>
        sy_name (ds_symbol d') = sy_name sy) (symbol_sites objects)" for sy
    unfolding list_ex_iff by (metis (no_types, lifting) mem_definitions_of list.set_intros(1) neq_Nil_conv set_empty2 empty_iff)
  moreover have "strong_sites (definitions_of objects key) =
      filter (\<lambda>d. visible_definition (ds_symbol d) \<and> symbol_key (ds_symbol d) = key \<and> \<not> weak_symbol (ds_symbol d)) (symbol_sites objects)"
    for key by (simp add: strong_sites_def definitions_of_def conj_ac)
  ultimately show ?thesis unfolding resolve_errors_Nil list_all_iff reference_def by simp
qed

theorem resolution_errors_witness:
  "\<forall>key. length (filter (\<lambda>d. visible_definition (ds_symbol d) \<and> symbol_key (ds_symbol d) = key \<and>
     \<not> weak_symbol (ds_symbol d)) (symbol_sites [caller, callee])) \<le> 1"
  using resolution_errors [of "[caller, callee]"] by (simp add: caller_resolution)

section \<open>Isolation\<close>



text \<open>C35: when no module gives a visible definition and a local symbol the same kind and name, the linker's own
  resolution never reaches a private symbol of another module.\<close>

theorem resolution_keeps_private:
  assumes "\<forall>obj \<in> set objects. no_local_twin obj"
  shows "ir_properties (validateIsolation objects (resolveSymbols objects)) noPrivateFunctionAccess"
  using resolved_not_private [OF assms] by (simp add: report_flags)

theorem resolution_keeps_private_witness:
  "ir_properties (validateIsolation [caller, callee] (resolveSymbols [caller, callee])) noPrivateFunctionAccess"
proof (rule resolution_keeps_private)
  have "\<not> local_symbol (ob_symbols caller ! 0)" unfolding caller_simps by code_simp
  with caller_flags show "\<forall>obj \<in> set [caller, callee]. no_local_twin obj"
    by (simp add: no_local_twin_def caller_simps)
qed

section \<open>Merged index spaces\<close>

text \<open>C20: memory isolation of the merged module: two memories (imported or defined) of the linked modules get the
  same merged index only if they are the same memory of the same module, and every merged index is below
  the total.\<close>

theorem memories_isolated:
  assumes "a < length objs" "b < length objs"
    and "i < import_count 2 (objs ! a) + length (ob_memories (objs ! a))"
    and "j < import_count 2 (objs ! b) + length (ob_memories (objs ! b))"
  shows "(memoryOffset (computeOffsets objs ! a) + i = memoryOffset (computeOffsets objs ! b) + j \<longleftrightarrow> a = b \<and> i = j) \<and>
    memoryOffset (computeOffsets objs ! a) + i < sum_list (map (\<lambda>obj. import_count 2 obj + length (ob_memories obj)) objs)"
  using memories.disjoint [OF assms] memories.bounded [OF assms(1,3)] by metis

theorem memories_isolated_witness:
  "memoryOffset (computeOffsets [closed_module ''a'' 1, closed_module ''b'' 2] ! 0) + 0 \<noteq>
   memoryOffset (computeOffsets [closed_module ''a'' 1, closed_module ''b'' 2] ! 1) + 0"
  using memories_isolated [of 0 "[closed_module ''a'' 1, closed_module ''b'' 2]" 1 0 0]
  by (simp add: closed_module_def blank_object_def)

text \<open>C24: without function imports, function \<open>i\<close> of module \<open>m\<close> is found in the merged function section at the
  index the linker computes for it, with its type index moved to the module's types in the merged type
  section.\<close>

theorem merged_function_index:
  assumes "m < length objs" "\<forall>obj \<in> set objs. import_count 0 obj = 0" "i < length (ob_functions (objs ! m))"
    and "ob_functions (objs ! m) ! i < length (ob_types (objs ! m))"
  shows "let off = computeOffsets objs ! m; f = allFunctions (zip objs (computeOffsets objs)) ! (funcOffset off + i) in
    concat (map ob_types objs) ! f = ob_types (objs ! m) ! (ob_functions (objs ! m) ! i)"
  using merged_functions [OF assms(1-3)] types.merged_nth [OF assms(1) refl assms(4)]
  by (simp add: Let_def ac_simps)

theorem merged_function_index_witness:
  "concat (map ob_types [callee, callee]) ! (allFunctions (zip [callee, callee] (computeOffsets [callee, callee])) !
      (funcOffset (computeOffsets [callee, callee] ! 1) + 0)) = ob_types callee ! 0"
  using merged_function_index [of 1 "[callee, callee]" 0] by (simp add: caller_simps Let_def)

text \<open>C37: with function imports, calls of a module's own functions go astray. A call of the \<open>i\<close>-th function that module
  \<open>m\<close> defines is rewritten to an index that exceeds the place of that function by the number of functions imported by this
  and the earlier modules: it is that much further down in the merged function and code sections that the function's type
  and rewritten body stand. The linked module has no import section that would make up for the difference.\<close>

theorem function_index_gap:
  assumes "m < length objs" "i < length (ob_functions (objs ! m))"
    and "\<forall>obj \<in> set objs. length (ob_code obj) = length (ob_functions obj)"
    and "\<forall>sy \<in> set (ob_symbols (objs ! m)). sy_kind sy = SYMTAB_FUNCTION \<longrightarrow> sy_index sy = import_count 0 (objs ! m) + i \<longrightarrow>
      \<not> undefined_symbol sy"
  shows "let offs = computeOffsets objs;
      gap = sum_list (map (import_count 0) (take (Suc m) objs));
      called = rc_func (module_relocator (objs ! m) m (offs ! m) offs res) (import_count 0 (objs ! m) + i)
    in gap \<le> called \<and>
      allFunctions (zip objs offs) ! (called - gap) = ob_functions (objs ! m) ! i + typeOffset (offs ! m) \<and>
      allBodies (zip objs offs) res ! (called - gap) =
        (ob_code (objs ! m) ! i, rewriteCode (cd_body (ob_code (objs ! m) ! i)) (objs ! m) m (offs ! m) offs res)"
proof -
  let ?place = "sum_list (map (\<lambda>obj. length (ob_functions obj)) (take m objs)) + i"
    and ?gap = "sum_list (map (import_count 0) (take (Suc m) objs))"
  have "rc_func (module_relocator (objs ! m) m (computeOffsets objs ! m) (computeOffsets objs) res) (import_count 0 (objs ! m) + i) =
      import_count 0 (objs ! m) + i + funcOffset (computeOffsets objs ! m)"
    using assms(4) by (simp add: module_relocator_def resolveIndex_local)
  also have "\<dots> = ?place + ?gap"
    using assms(1) by (simp add: function_offset_at take_Suc_conv_app_nth)
  finally have called: "rc_func (module_relocator (objs ! m) m (computeOffsets objs ! m) (computeOffsets objs) res)
      (import_count 0 (objs ! m) + i) = ?place + ?gap" .
  have sizes: "map (\<lambda>obj. length (ob_code obj)) (take m objs) = map (\<lambda>obj. length (ob_functions obj)) (take m objs)"
    using assms(3) by (auto dest: in_set_takeD)
  have "i < length (ob_code (objs ! m))" using assms(1-3) by simp
  then have "allBodies (zip objs (computeOffsets objs)) res ! ?place = (ob_code (objs ! m) ! i,
      rewriteCode (cd_body (ob_code (objs ! m) ! i)) (objs ! m) m (computeOffsets objs ! m) (computeOffsets objs) res)"
    using merged_body_at [OF assms(1)] unfolding sizes by blast
  then show ?thesis using merged_function_at [OF assms(1,2)] by (simp add: Let_def called)
qed

text \<open>The caller's own function stands first in the merged sections, which have two functions; a call of it goes to
  the second, the callee's.\<close>

theorem function_index_gap_witness:
  "rc_func (module_relocator caller 0 (computeOffsets [caller, callee] ! 0) (computeOffsets [caller, callee])
     (resolveSymbols [caller, callee])) 1 = 1 \<and>
   fst (allBodies (zip [caller, callee] (computeOffsets [caller, callee])) (resolveSymbols [caller, callee]) ! 0) = ob_code caller ! 0"
proof -
  have "length (ob_code caller) = 1" "length (ob_code callee) = 1" "funcOffset no_offsets = 0"
    by (simp_all add: caller_def callee_def blank_object_def no_offsets_def)
  then show ?thesis using function_index_gap [of 0 "[caller, callee]" 0 "resolveSymbols [caller, callee]"]
    by (simp add: caller_simps SYMTAB_FUNCTION_def Let_def module_relocator_def resolveIndex_def computeOffsets_def)
qed

section \<open>Function bodies\<close>



text \<open>C15: an index that a module uses for an undefined symbol is translated, after a resolution without errors, to
  the index of a visible definition of the same kind and name, moved to the place of the defining module's
  index space.\<close>

theorem reference_reaches_definition:
  assumes "m < length objs" "res_errors (resolveSymbols objs) = []"
    and "List.find (\<lambda>(_, sy). sy_kind sy = kind \<and> sy_index sy = origIdx) (enumerate 0 (ob_symbols (objs ! m))) = Some (i, sy)"
    and "undefined_symbol sy" "sy_name sy \<noteq> []" "target_offset kind no_offsets \<noteq> None"
  shows "\<exists>d \<in> set (symbol_sites objs). visible_definition (ds_symbol d) \<and> sy_kind (ds_symbol d) = kind \<and>
    sy_name (ds_symbol d) = sy_name sy \<and>
    Some (resolveIndex origIdx kind (objs ! m) m base (computeOffsets objs) (resolveSymbols objs)) =
      map_option (\<lambda>o'. sy_index (ds_symbol d) + o') (target_offset kind (computeOffsets objs ! ds_moduleIdx d))"
proof -
  from assms(3) have sy: "(i, sy) \<in> set (enumerate 0 (ob_symbols (objs ! m)))" "sy_kind sy = kind"
    by (auto simp: find_Some_iff in_set_conv_nth)
  then have i: "i < length (ob_symbols (objs ! m))" "ob_symbols (objs ! m) ! i = sy"
    by (auto simp: in_set_enumerate_eq)
  have ref: "reference sy" using assms(4,5) by (simp add: reference_def)
  let ?d0 = "\<lparr>ds_moduleIdx = m, ds_symbolIdx = i, ds_symbol = sy\<rparr>"
  have "?d0 \<in> set (symbol_sites objs)" using assms(1) i by (simp add: mem_symbol_sites)
  then have "definitions_of objs (symbol_key sy) \<noteq> []"
    using assms(2) ref unfolding resolve_errors_Nil by force
  then obtain t where t: "map_of (resolved (resolveSymbols objs)) (m, i) = Some t"
    using resolved_reference [OF assms(1) i(1)] i(2) ref by auto
  obtain d where d: "d \<in> set (definitions_of objs (symbol_key sy))" "targetModule t = ds_moduleIdx d"
    "targetIndex t = sy_index (ds_symbol d)" using resolved_target [OF t] i(2) by metis
  obtain off where off: "target_offset kind (computeOffsets objs ! targetModule t) = Some off"
    using assms(6) by (auto simp: target_offset_def split: if_splits)
  have "resolveIndex origIdx kind (objs ! m) m base (computeOffsets objs) (resolveSymbols objs) = targetIndex t + off"
    by (rule resolveIndex_import [OF assms(3,4) t off])
  then show ?thesis using d off sy(2) unfolding mem_definitions_of by (intro bexI [of _ d]) auto
qed

theorem reference_reaches_definition_witness:
  "\<exists>d \<in> set (symbol_sites [caller, callee]). visible_definition (ds_symbol d) \<and> sy_kind (ds_symbol d) = 0 \<and>
    sy_name (ds_symbol d) = str ''f'' \<and>
    Some (resolveIndex 0 0 caller 0 0 (computeOffsets [caller, callee]) (resolveSymbols [caller, callee])) =
      map_option (\<lambda>o'. sy_index (ds_symbol d) + o') (target_offset 0 (computeOffsets [caller, callee] ! ds_moduleIdx d))"
  using reference_reaches_definition [of 0 "[caller, callee]" 0 0 0 "ob_symbols caller ! 0" 0] caller_flags(1)
  by (simp add: caller_resolution caller_simps target_offset_def SYMTAB_FUNCTION_def str_def)

text \<open>A byte of an immediate that equals an opcode with an index is rewritten as if it were one: in
  \<^verbatim>\<open>i32.const 16; drop; end\<close> the constant's byte \<^verbatim>\<open>0x10\<close> is taken for a call and the \<^verbatim>\<open>drop\<close> for its function index.\<close>

lemma rewrite_misreads_constant:
  "rewriteCode [0x41, 0x10, 0x1a, 0x0b] (blank_object ''a'') 0
     \<lparr>typeOffset = 0, funcOffset = 3, globalOffset = 0, memoryOffset = 0, tableOffset = 0, tagOffset = 0\<rparr> []
     \<lparr>resolved = [], res_errors = []\<rparr> = [0x41, 0x10, 0x1d, 0x0b]"
proof -
  have "uleb 26 = [0x1a]" "uleb 29 = [0x1d]" by code_simp+
  then show ?thesis using rewrite_instrs [of "[Other [0x41], Call 26, Other [0x0b]]" "module_relocator (blank_object ''a'') 0
      \<lparr>typeOffset = 0, funcOffset = 3, globalOffset = 0, memoryOffset = 0, tableOffset = 0, tagOffset = 0\<rparr> []
      \<lparr>resolved = [], res_errors = []\<rparr>"]
    by (simp add: rewriteCode_def module_relocator_def resolveIndex_def blank_object_def scanned_def)
qed

text \<open>The empty block type is the byte \<^verbatim>\<open>0x40\<close> too: in a module whose memories are moved, of \<^verbatim>\<open>block; nop; end; end\<close> the
  \<^verbatim>\<open>nop\<close> is taken for a memory index and becomes another \<^verbatim>\<open>block\<close> opcode.\<close>

lemma rewrite_misreads_block:
  "rewriteCode [0x02, 0x40, 0x01, 0x0b, 0x0b] (blank_object ''a'') 0
     \<lparr>typeOffset = 0, funcOffset = 0, globalOffset = 0, memoryOffset = 1, tableOffset = 0, tagOffset = 0\<rparr> []
     \<lparr>resolved = [], res_errors = []\<rparr> = [0x02, 0x40, 0x02, 0x0b, 0x0b]"
proof -
  have "uleb (Suc 0) = [1]" "uleb (Suc (Suc 0)) = [2]" by code_simp+
  then show ?thesis using rewrite_instrs [of "[Other [0x02], MemoryGrow 1, Other [0x0b, 0x0b]]" "module_relocator (blank_object ''a'') 0
      \<lparr>typeOffset = 0, funcOffset = 0, globalOffset = 0, memoryOffset = 1, tableOffset = 0, tagOffset = 0\<rparr> []
      \<lparr>resolved = [], res_errors = []\<rparr>"]
    by (simp add: rewriteCode_def module_relocator_def resolveIndex_def blank_object_def scanned_def)
qed

section \<open>The link\<close>

text \<open>The function \<^verbatim>\<open>link\<close> succeeds exactly when every input parses, every reference resolves without error and the merged
  module can be emitted; the binary is then the emitted module.\<close>

theorem link_succeeds:
  "lr_success (link trace objects options) \<and> lr_binary (link trace objects options) = binary \<longleftrightarrow>
     (\<exists>objs. list_all2 (\<lambda>(name, bytes) obj. parseObject name bytes = Inr obj) objects objs \<and>
        res_errors (resolveSymbols objs) = [] \<and>
        emitLinked trace (entry_of options) objs (resolveSymbols objs) (computeOffsets objs) = Inr binary)"
proof (cases rule: link_cases [of objects])
  case parse
  then have "\<not> list_all2 parses objects objs" for objs using parse_inputs_parses [of objects objs] by simp
  then show ?thesis using parse by (simp add: link_parse_failure parses_def [symmetric])
next
  case (parsed objs)
  then have "list_all2 parses objects objs' \<longleftrightarrow> objs' = objs" for objs'
    using parse_inputs_parses [of objects objs] parse_inputs_parses [of objects objs'] by auto
  then show ?thesis using link_parsed [OF parsed, of trace options] by (auto simp: parses_def [symmetric] Let_def split: sum.splits)
qed

text \<open>A failed link returns an empty binary and at least one diagnostic of severity error; a successful one has
  only warnings.\<close>

theorem link_reports:
  "lr_success (link trace objects options) \<noteq> has_error (lr_errors (link trace objects options)) \<and>
   (lr_success (link trace objects options) \<or> lr_binary (link trace objects options) = [] \<and> lr_wat (link trace objects options) = [])"
proof (cases rule: link_cases [of objects])
  case parse
  then show ?thesis by (simp add: link_parse_failure parse_inputs_error)
next
  case (parsed objs)
  then show ?thesis using link_parsed [OF parsed, of trace options]
    by (auto simp: Let_def no_errors_map split: sum.splits)
qed

text \<open>C4: the bytes of a successful link are a module the object reader accepts, and it reads back the merged
  module: all types, tables, memories and globals in order, the functions, tags, exports and elements with
  their indices moved, and the rewritten bodies.\<close>

theorem link_round_trip:
  assumes "list_all2 (\<lambda>(name, bytes) obj. parseObject name bytes = Inr obj) objects objs"
    and "res_errors (resolveSymbols objs) = []"
    and "object_ok (merged_object name trace (entry_of options) objs (resolveSymbols objs) (computeOffsets objs))"
    and "length (allFunctions (zip objs (computeOffsets objs))) = length (allBodies (zip objs (computeOffsets objs)) (resolveSymbols objs))"
  shows "lr_success (link trace objects options) \<and>
    parseObject name (lr_binary (link trace objects options)) =
      Inr (merged_object name trace (entry_of options) objs (resolveSymbols objs) (computeOffsets objs))"
proof -
  let ?obj = "merged_object name trace (entry_of options) objs (resolveSymbols objs) (computeOffsets objs)"
  have "ob_name ?obj = name" by (simp add: merged_object_def Let_def)
  moreover have "emitLinked trace (entry_of options) objs (resolveSymbols objs) (computeOffsets objs) = Inr (object_bytes ?obj)"
    by (rule emitLinked_bytes [OF assms(3,4)])
  ultimately show ?thesis
    using link_parsed [of objects objs trace options] assms(1,2) parse_object_bytes [OF assms(3)]
    by (simp add: parses_def [symmetric] Let_def)
qed

definition closed_modules :: "parsed_object list" where
  "closed_modules = [closed_module ''a'' 1, closed_module ''b'' 2]"

lemma small_uleb: "n < 128 \<Longrightarrow> uleb n = [word_of_nat n]"
  by (subst uleb.simps) simp

lemma run_name: "length (utf8_encode (str ''run'')) = 3" "name_ok (str ''run'')"
proof -
  have cps: "code_points (str ''run'') = str ''run''" by (simp add: str_def is_lead_def)
  then show len: "length (utf8_encode (str ''run'')) = 3" by (simp add: utf8_encode_def str_def to_scalar_def utf8_cp_def)
  with cps show "name_ok (str ''run'')"
    by (simp add: name_ok_def well_formed_def) (simp add: str_def valid_units_def scalar_def)
qed

lemmas closed_module_simps =
  closed_modules_def closed_module_def blank_object_def object_ok_def items_ok_def vector_bytes_def small_uleb run_name
  type_ok_def type_bytes_def memory_ok_def memory_bytes_def export_ok_def export_bytes_def name_bytes_def code_ok_def
  code_bytes_def body_bytes_def

lemma closed_module_ok: "pages < 128 \<Longrightarrow> object_ok (closed_module name pages)"
  by (simp add: closed_module_simps)

lemma closed_modules_resolved: "resolveSymbols closed_modules = \<lparr>resolved = [], res_errors = []\<rparr>"
  by (simp add: closed_modules_def closed_module_def blank_object_def resolveSymbols_def symbol_sites_def definedSymbols_def)

lemma closed_modules_offsets:
  "computeOffsets closed_modules =
     [no_offsets, \<lparr>typeOffset = 1, funcOffset = 1, globalOffset = 0, memoryOffset = 1, tableOffset = 0, tagOffset = 0\<rparr>]"
  by (simp add: computeOffsets_def closed_modules_def closed_module_def blank_object_def advance_offsets_def no_offsets_def
    import_count_def)

lemma closed_modules_bodies:
  "allBodies (zip closed_modules (computeOffsets closed_modules)) (resolveSymbols closed_modules) =
     [(\<lparr>cd_locals = [(1, 0x7f)], cd_body = [0x3f, 0x00, 0x0b]\<rparr>, [0x3f, 0x00, 0x0b]),
      (\<lparr>cd_locals = [(1, 0x7f)], cd_body = [0x3f, 0x00, 0x0b]\<rparr>, [0x3f, 0x01, 0x0b])]"
proof -
  have imm: "rewrite_immediate f (0 # rest) = (uleb (f 0), rest)" if "f 0 < 2 ^ 32" for f rest
    using rewrite_immediate_uleb [of 0 f rest] that by (simp add: small_uleb)
  show ?thesis
    unfolding closed_modules_resolved closed_modules_offsets
    by (simp add: allBodies_def closed_modules_def closed_module_def blank_object_def rewriteCode_def imm
      module_relocator_def no_offsets_def small_uleb)
qed

lemma closed_modules_merged:
  "object_ok (merged_object name False None closed_modules (resolveSymbols closed_modules) (computeOffsets closed_modules))"
  unfolding merged_object_def Let_def closed_modules_bodies unfolding closed_modules_offsets
  by (simp add: closed_module_simps allFunctions_def module_exports_def shift_export_def no_offsets_def)

theorem link_round_trip_witness:
  "lr_success (link False (map (\<lambda>obj. (ob_name obj, object_bytes obj)) closed_modules) None) \<and>
    parseObject (str ''linked'') (lr_binary (link False (map (\<lambda>obj. (ob_name obj, object_bytes obj)) closed_modules) None)) =
      Inr (merged_object (str ''linked'') False (entry_of None) closed_modules (resolveSymbols closed_modules)
        (computeOffsets closed_modules))"
proof (rule link_round_trip)
  show "list_all2 (\<lambda>(name, bytes) obj. parseObject name bytes = Inr obj)
      (map (\<lambda>obj. (ob_name obj, object_bytes obj)) closed_modules) closed_modules"
    by (simp add: closed_modules_def parse_object_bytes closed_module_ok)
  show "object_ok (merged_object (str ''linked'') False (entry_of None) closed_modules (resolveSymbols closed_modules)
      (computeOffsets closed_modules))"
    by (simp add: entry_of_def closed_modules_merged)
  show "length (allFunctions (zip closed_modules (computeOffsets closed_modules))) =
      length (allBodies (zip closed_modules (computeOffsets closed_modules)) (resolveSymbols closed_modules))"
    unfolding closed_modules_bodies unfolding closed_modules_offsets
    by (simp add: allFunctions_def closed_modules_def closed_module_def blank_object_def)
qed (simp add: closed_modules_resolved)

section \<open>The object reader\<close>

text \<open>The reader ends an initialiser at its first \<^verbatim>\<open>0x0b\<close> byte: of \<^verbatim>\<open>i32.const 11; end\<close> it takes the constant for
  the end and leaves the cursor on the real \<^verbatim>\<open>end\<close>, from where the next global would be read.\<close>

lemma reader_cuts_initialiser:
  "rd_expr \<lparr>rd_data = [0x41, 0x0b, 0x0b], rd_pos = 0\<rparr> = Inr ([0x41, 0x0b], \<lparr>rd_data = [0x41, 0x0b, 0x0b], rd_pos = 2\<rparr>)"
  using readsD [OF reads_expr [of "[0x41, 0x0b]"], of "[]" "[0x0b]"] by (simp add: expr_ok_def)

end
