(* ===== verification/Wasm_Opcodes.thy ===== *)
theory Wasm_Opcodes
  imports Wasm_Encoder
begin

text \<open>
  The opcode tables of \<^verbatim>\<open>src/src/emit/binary.ts\<close> and \<^verbatim>\<open>opcodes.ts\<close>: for each \<^verbatim>\<open>op\<close> name, what its case writes
  before the fields. \<open>B\<close> is a byte, \<open>U\<close> an unsigned LEB128 number.
\<close>

datatype op_write = B int | U int

type_synonym op_table = "(string \<times> op_write list) list"

definition control_ops :: op_table where
  "control_ops =
    [(''unreachable'', [B 0x00]), (''nop'', [B 0x01]), (''return'', [B 0x0f]), (''drop'', [B 0x1a]),
     (''select'', [B 0x1b])]"

definition i64_ops :: op_table where
  "i64_ops =
    [(''i64.add'', [B 0x7c]), (''i64.sub'', [B 0x7d]), (''i64.mul'', [B 0x7e]), (''i64.div_s'', [B 0x7f]),
     (''i64.div_u'', [B 0x80]), (''i64.rem_s'', [B 0x81]), (''i64.rem_u'', [B 0x82]), (''i64.eq'', [B 0x51]),
     (''i64.ne'', [B 0x52]), (''i64.lt_s'', [B 0x53]), (''i64.lt_u'', [B 0x54]), (''i64.le_s'', [B 0x57]),
     (''i64.le_u'', [B 0x58]), (''i64.gt_s'', [B 0x55]), (''i64.gt_u'', [B 0x56]), (''i64.ge_s'', [B 0x59]),
     (''i64.ge_u'', [B 0x5a]), (''i64.eqz'', [B 0x50]), (''i64.and'', [B 0x83]), (''i64.or'', [B 0x84]),
     (''i64.xor'', [B 0x85]), (''i64.shl'', [B 0x86]), (''i64.shr_s'', [B 0x87]), (''i64.shr_u'', [B 0x88]),
     (''i64.extend_i32_s'', [B 0xac]), (''i64.extend_i32_u'', [B 0xad]), (''i64.trunc_f64_s'', [B 0xb0]),
     (''f64.convert_i64_s'', [B 0xb9]), (''f64.convert_i64_u'', [B 0xba]), (''i64.reinterpret_f64'', [B 0xbd]),
     (''f64.reinterpret_i64'', [B 0xbf]), (''i32.reinterpret_f32'', [B 0xbc]),
     (''f32.reinterpret_i32'', [B 0xbe])]"

definition number_ops :: op_table where
  "number_ops =
    [(''i32.eqz'', [B 0x45]), (''i32.eq'', [B 0x46]), (''i32.ne'', [B 0x47]), (''i32.lt_s'', [B 0x48]),
     (''i32.le_s'', [B 0x4c]), (''i32.gt_s'', [B 0x4a]), (''i32.ge_s'', [B 0x4e]), (''i32.ge_u'', [B 0x4f]),
     (''i32.add'', [B 0x6a]), (''i32.sub'', [B 0x6b]), (''i32.mul'', [B 0x6c]), (''i32.and'', [B 0x71]),
     (''i32.or'', [B 0x72]), (''i32.xor'', [B 0x73]), (''i32.shl'', [B 0x74]), (''i32.shr_s'', [B 0x75]),
     (''i32.shr_u'', [B 0x76]), (''i32.clz'', [B 0x67]), (''i32.trunc_sat_f64_s'', [B 0xfc, B 0x02]),
     (''i32.trunc_sat_f64_u'', [B 0xfc, B 0x03]), (''i64.trunc_sat_f64_s'', [B 0xfc, B 0x06]),
     (''f64.eq'', [B 0x61]), (''f64.ne'', [B 0x62]), (''f64.lt'', [B 0x63]), (''f64.le'', [B 0x65]),
     (''f64.gt'', [B 0x64]), (''f64.ge'', [B 0x66]), (''f64.abs'', [B 0x99]), (''f64.neg'', [B 0x9a]),
     (''f64.ceil'', [B 0x9b]), (''f64.floor'', [B 0x9c]), (''f64.trunc'', [B 0x9d]), (''f64.nearest'', [B 0x9e]),
     (''f64.sqrt'', [B 0x9f]), (''f64.add'', [B 0xa0]), (''f64.sub'', [B 0xa1]), (''f64.mul'', [B 0xa2]),
     (''f64.div'', [B 0xa3]), (''f64.min'', [B 0xa4]), (''f64.max'', [B 0xa5]), (''f64.copysign'', [B 0xa6]),
     (''i32.wrap_i64'', [B 0xa7]), (''i32.trunc_f64_s'', [B 0xaa]), (''i32.trunc_f64_u'', [B 0xab]),
     (''f64.convert_i32_s'', [B 0xb7]), (''f64.convert_i32_u'', [B 0xb8])]"

definition ref_ops :: op_table where
  "ref_ops =
    [(''ref.null.extern'', [B 0xd0, B 0x6f]), (''ref.null.eq'', [B 0xd0, B 0x6d]),
     (''ref.null.func'', [B 0xd0, B 0x70]), (''ref.is_null'', [B 0xd1]), (''ref.as_non_null'', [B 0xd4]),
     (''ref.eq'', [B 0xd3]), (''any.convert_extern'', [B 0xfb, B 0x1a]), (''ref.i31'', [B 0xfb, B 0x1c]),
     (''i31.get_s'', [B 0xfb, B 0x1d]), (''extern.convert_any'', [B 0xfb, B 0x1b]),
     (''array.len'', [B 0xfb, B 0x0f])]"

definition memory_ops :: op_table where
  "memory_ops =
    [(''memory.size'', [B 0x3f, B 0x00]), (''memory.grow'', [B 0x40, B 0x00]),
     (''memory.copy'', [B 0xfc, U 0x0a, B 0x00, B 0x00]), (''memory.fill'', [B 0xfc, U 0x0b, B 0x00])]"

definition division_ops :: op_table where
  "division_ops =
    [(''i32.div_s'', [B 0x6d]), (''i32.div_u'', [B 0x6e]), (''i32.rem_s'', [B 0x6f]), (''i32.rem_u'', [B 0x70]),
     (''i32.lt_u'', [B 0x49]), (''i32.le_u'', [B 0x4d]), (''i32.gt_u'', [B 0x4b]),
     (''f32.demote_f64'', [B 0xb6]), (''f64.promote_f32'', [B 0xbb])]"

definition v128_ops :: op_table where
  "v128_ops =
    [(''v128.not'', [B 0xfd, U 0x4d]), (''v128.and'', [B 0xfd, U 0x4e]), (''v128.andnot'', [B 0xfd, U 0x4f]),
     (''v128.or'', [B 0xfd, U 0x50]), (''v128.xor'', [B 0xfd, U 0x51]), (''v128.bitselect'', [B 0xfd, U 0x52]),
     (''v128.any_true'', [B 0xfd, U 0x53])]"

definition i8x16_ops :: op_table where
  "i8x16_ops =
    [(''i8x16.splat'', [B 0xfd, U 0x0f]), (''i8x16.eq'', [B 0xfd, U 0x23]), (''i8x16.ne'', [B 0xfd, U 0x24]),
     (''i8x16.all_true'', [B 0xfd, U 0x63]), (''i8x16.bitmask'', [B 0xfd, U 0x64]),
     (''i8x16.swizzle'', [B 0xfd, U 0x0e]), (''i8x16.add'', [B 0xfd, U 0x6e]), (''i8x16.sub'', [B 0xfd, U 0x71]),
     (''i8x16.min_u'', [B 0xfd, U 0x77]), (''i8x16.max_u'', [B 0xfd, U 0x79]),
     (''i16x8.splat'', [B 0xfd, U 0x10])]"

definition i16x8_ops :: op_table where
  "i16x8_ops =
    [(''i16x8.eq'', [B 0xfd, U 0x2d]), (''i16x8.ne'', [B 0xfd, U 0x2e]), (''i16x8.lt_s'', [B 0xfd, U 0x2f]),
     (''i16x8.gt_s'', [B 0xfd, U 0x31]), (''i16x8.all_true'', [B 0xfd, U 0x83]),
     (''i16x8.bitmask'', [B 0xfd, U 0x84]), (''i16x8.add'', [B 0xfd, U 0x8e]), (''i16x8.sub'', [B 0xfd, U 0x91]),
     (''i16x8.mul'', [B 0xfd, U 0x95]), (''i16x8.shl'', [B 0xfd, U 0x8b]), (''i16x8.shr_u'', [B 0xfd, U 0x8d]),
     (''i32x4.splat'', [B 0xfd, U 0x11])]"

definition i32x4_ops :: op_table where
  "i32x4_ops =
    [(''i32x4.eq'', [B 0xfd, U 0x37]), (''i32x4.ne'', [B 0xfd, U 0x38]), (''i32x4.all_true'', [B 0xfd, U 0xa3]),
     (''i32x4.bitmask'', [B 0xfd, U 0xa4]), (''i32x4.add'', [B 0xfd, U 0xae]), (''i32x4.sub'', [B 0xfd, U 0xb1]),
     (''i32x4.mul'', [B 0xfd, U 0xb5]), (''i32x4.shl'', [B 0xfd, U 0xab]), (''i32x4.shr_s'', [B 0xfd, U 0xac]),
     (''i32x4.shr_u'', [B 0xfd, U 0xad]), (''i64x2.splat'', [B 0xfd, U 0x12])]"

definition i64x2_ops :: op_table where
  "i64x2_ops =
    [(''i64x2.add'', [B 0xfd, U 0xce]), (''i64x2.sub'', [B 0xfd, U 0xd1]), (''i64x2.mul'', [B 0xfd, U 0xd5]),
     (''i64x2.eq'', [B 0xfd, U 0xd6]), (''i64x2.ne'', [B 0xfd, U 0xd7]), (''f32x4.splat'', [B 0xfd, U 0x13])]"

definition f32x4_ops :: op_table where
  "f32x4_ops =
    [(''f32x4.eq'', [B 0xfd, U 0x41]), (''f32x4.add'', [B 0xfd, U 0xe4]), (''f32x4.sub'', [B 0xfd, U 0xe5]),
     (''f32x4.mul'', [B 0xfd, U 0xe6]), (''f32x4.div'', [B 0xfd, U 0xe7]), (''f64x2.splat'', [B 0xfd, U 0x14])]"

definition f64x2_ops :: op_table where
  "f64x2_ops =
    [(''f64x2.eq'', [B 0xfd, U 0x47]), (''f64x2.ne'', [B 0xfd, U 0x48]), (''f64x2.add'', [B 0xfd, U 0xf0]),
     (''f64x2.sub'', [B 0xfd, U 0xf1]), (''f64x2.mul'', [B 0xfd, U 0xf2]), (''f64x2.div'', [B 0xfd, U 0xf3])]"

definition end_op :: op_table where
  "end_op =
    [(''end'', [B 0x0b])]"

definition depth_ops :: op_table where
  "depth_ops =
    [(''br'', [B 0x0c]), (''br_if'', [B 0x0d]), (''rethrow'', [B 0x09])]"

definition func_ops :: op_table where
  "func_ops =
    [(''call'', [B 0x10]), (''return_call'', [B 0x12]), (''ref.func'', [B 0xd2])]"

definition local_ops :: op_table where
  "local_ops =
    [(''local.get'', [B 0x20]), (''local.set'', [B 0x21]), (''local.tee'', [B 0x22])]"

definition global_ops :: op_table where
  "global_ops =
    [(''global.get'', [B 0x23]), (''global.set'', [B 0x24])]"

definition heap_ops :: op_table where
  "heap_ops =
    [(''ref.null'', [B 0xd0]), (''ref.cast'', [B 0xfb, B 0x16]), (''ref.cast_null'', [B 0xfb, B 0x17]),
     (''ref.test'', [B 0xfb, B 0x14])]"

definition typed_ops :: op_table where
  "typed_ops =
    [(''struct.new'', [B 0xfb, B 0x00]), (''array.new'', [B 0xfb, B 0x06]),
     (''array.new_default'', [B 0xfb, B 0x07]), (''array.get'', [B 0xfb, B 0x0b]),
     (''array.get_s'', [B 0xfb, B 0x0c]), (''array.get_u'', [B 0xfb, B 0x0d]), (''array.set'', [B 0xfb, B 0x0e]),
     (''array.fill'', [B 0xfb, B 0x10]), (''call_ref'', [B 0x14]), (''return_call_ref'', [B 0x15])]"

definition field_ops :: op_table where
  "field_ops =
    [(''struct.get'', [B 0xfb, B 0x02]), (''struct.set'', [B 0xfb, B 0x05])]"

definition load_store_ops :: op_table where
  "load_store_ops =
    [(''i32.load'', [B 0x28]), (''i32.load8_u'', [B 0x2d]), (''i32.load8_s'', [B 0x2c]),
     (''i32.load16_u'', [B 0x2f]), (''i32.store'', [B 0x36]), (''i64.store'', [B 0x37]),
     (''i32.store8'', [B 0x3a]), (''i32.store16'', [B 0x3b]), (''f64.load'', [B 0x2b]),
     (''f64.store'', [B 0x39]), (''f32.load'', [B 0x2a]), (''f32.store'', [B 0x38])]"

definition simd_load_ops :: op_table where
  "simd_load_ops =
    [(''v128.load'', [B 0xfd, U 0x00]), (''v128.store'', [B 0xfd, U 0x0b]),
     (''v128.load8_splat'', [B 0xfd, U 0x07]), (''v128.load16_splat'', [B 0xfd, U 0x08]),
     (''v128.load32_splat'', [B 0xfd, U 0x09]), (''v128.load64_splat'', [B 0xfd, U 0x0a]),
     (''v128.load32_zero'', [B 0xfd, U 0x5c]), (''v128.load64_zero'', [B 0xfd, U 0x5d])]"

definition lane_ops :: op_table where
  "lane_ops =
    [(''i8x16.extract_lane_s'', [B 0xfd, U 0x15]), (''i8x16.extract_lane_u'', [B 0xfd, U 0x16]),
     (''i8x16.replace_lane'', [B 0xfd, U 0x17]), (''i16x8.extract_lane_s'', [B 0xfd, U 0x18]),
     (''i16x8.extract_lane_u'', [B 0xfd, U 0x19]), (''i16x8.replace_lane'', [B 0xfd, U 0x1a]),
     (''i32x4.extract_lane'', [B 0xfd, U 0x1b]), (''i32x4.replace_lane'', [B 0xfd, U 0x1c]),
     (''i64x2.extract_lane'', [B 0xfd, U 0x1d]), (''i64x2.replace_lane'', [B 0xfd, U 0x1e]),
     (''f32x4.extract_lane'', [B 0xfd, U 0x1f]), (''f32x4.replace_lane'', [B 0xfd, U 0x20]),
     (''f64x2.extract_lane'', [B 0xfd, U 0x21]), (''f64x2.replace_lane'', [B 0xfd, U 0x22])]"

definition plain_ops :: op_table where
  "plain_ops =
     control_ops @ i64_ops @ number_ops @ ref_ops @ memory_ops @ division_ops @ v128_ops @ i8x16_ops @ i16x8_ops @
     i32x4_ops @ i64x2_ops @ f32x4_ops @ f64x2_ops @ end_op"

definition mem_ops :: op_table where
  "mem_ops = load_store_ops @ simd_load_ops"

end
