(* ===== verification/Wasm_Module.thy ===== *)
theory Wasm_Module
  imports Js_Utf8
begin

text \<open>
  \<^verbatim>\<open>src/src/wasm/model/\<close>: the module type that the code generators fill and the emitters write, and the walker
  over instruction trees. An instruction is \<^verbatim>\<open>{op, \<dots>fields}\<close>; the constructors of \<open>instr\<close> group the \<^verbatim>\<open>op\<close> names by
  their fields and keep the name as a string. Indices, depths and integer constants are integers, since
  handles and abstract heap types are negative or beyond any index; the numbers of float constants are
  the type parameter \<open>'f\<close>. Of the brands of \<^verbatim>\<open>ValType\<close> only the two that \<^verbatim>\<open>canonical-recgroup.ts\<close> reads are kept; the flags of \<^verbatim>\<open>FieldDef\<close> other than \<^verbatim>\<open>mutable\<close> and source
  positions play no part here and are left out.
\<close>

section \<open>Instructions\<close>

datatype val_type =
    VI32 bool   \<comment> \<open>\<^verbatim>\<open>boolean\<close>\<close>
  | VI64 bool   \<comment> \<open>\<^verbatim>\<open>bigint\<close>\<close>
  | VF32 | VF64 | VV128 | VI8 | VI16
  | VRef int
  | VRefNull int
  | VFuncref | VExternref | VRefExtern | VEqref | VAnyref

datatype block_type = BtEmpty | BtVal val_type | BtType int

datatype catch_kind = CkCatch | CkCatchRef | CkCatchAll | CkCatchAllRef

record try_table_catch =
  tt_kind :: catch_kind
  tt_tagIdx :: "int option"
  tt_depth :: int

datatype 'f instr =
    Plain string                                   \<comment> \<open>no fields\<close>
  | Block block_type "'f instr list"
  | Loop block_type "'f instr list"
  | If block_type "'f instr list" "'f instr list option"
  | Depth string int                               \<comment> \<open>\<^verbatim>\<open>depth\<close>: br, br_if, rethrow\<close>
  | BrTable "int list" int
  | Func string int                                \<comment> \<open>\<^verbatim>\<open>funcIdx\<close>: call, return_call, ref.func\<close>
  | CallIndirect int int                           \<comment> \<open>\<^verbatim>\<open>typeIdx\<close>, \<^verbatim>\<open>tableIdx\<close>\<close>
  | Local string int                               \<comment> \<open>\<^verbatim>\<open>index\<close>: local.get, local.set, local.tee\<close>
  | Global string int                              \<comment> \<open>\<^verbatim>\<open>index\<close>: global.get, global.set\<close>
  | I32Const int
  | I64Const int
  | F64Const 'f
  | F32Const 'f
  | Heap string int                                \<comment> \<open>\<^verbatim>\<open>typeIdx\<close> as heap type: ref.null, ref.cast, ref.cast_null, ref.test\<close>
  | Typed string int                               \<comment> \<open>\<^verbatim>\<open>typeIdx\<close>: struct.new, array.*, call_ref, return_call_ref\<close>
  | Field string int int                           \<comment> \<open>\<^verbatim>\<open>typeIdx\<close>, \<^verbatim>\<open>fieldIdx\<close>: struct.get, struct.set\<close>
  | ArrayNewFixed int int                          \<comment> \<open>\<^verbatim>\<open>typeIdx\<close>, \<^verbatim>\<open>length\<close>\<close>
  | ArrayCopy int int                              \<comment> \<open>\<^verbatim>\<open>dstTypeIdx\<close>, \<^verbatim>\<open>srcTypeIdx\<close>\<close>
  | MemoryInit int                                 \<comment> \<open>\<^verbatim>\<open>dataIdx\<close>\<close>
  | DataDrop int
  | Throw int                                      \<comment> \<open>\<^verbatim>\<open>tagIdx\<close>\<close>
  | TryTable block_type "'f instr list" "try_table_catch list"
  | Try block_type "'f instr list" "(int \<times> 'f instr list) list" "'f instr list option"
  | Mem string int int                             \<comment> \<open>\<^verbatim>\<open>align\<close>, \<^verbatim>\<open>offset\<close>: loads and stores\<close>
  | V128Const "nat list"
  | Lane string int                                \<comment> \<open>\<^verbatim>\<open>lane\<close>\<close>
  | Shuffle "int list"

section \<open>Modules\<close>

record field_def =
  fd_name :: js_string
  fd_type :: val_type
  fd_mutable :: bool

datatype type_def =
    FuncTypeDef "js_string option" "val_type list" "val_type list"
  | StructTypeDef js_string "field_def list" "int option" bool   \<comment> \<open>\<^verbatim>\<open>superTypeIdx\<close>, \<^verbatim>\<open>final\<close>\<close>
  | ArrayTypeDef js_string val_type bool
  | RecGroupDef "type_def list"
  | SubTypeDef js_string "int option" bool type_def               \<comment> \<open>\<^verbatim>\<open>superType\<close>, \<^verbatim>\<open>final\<close>\<close>

record 'f wasm_function =
  fn_name :: js_string
  fn_typeIdx :: int
  fn_locals :: "(js_string \<times> val_type) list"
  fn_body :: "'f instr list"
  fn_exported :: bool

record tag_def =
  td_name :: js_string
  td_typeIdx :: int

datatype import_desc =
    ImportFunc int
  | ImportTable js_string int "int option"
  | ImportGlobal val_type bool
  | ImportMemory int "int option"
  | ImportTag int

record wasm_import =
  wi_module :: js_string
  wi_name :: js_string
  wi_desc :: import_desc

datatype export_kind = EkFunc | EkTable | EkMemory | EkGlobal | EkTag

record wasm_export =
  we_name :: js_string
  we_kind :: export_kind
  we_index :: int

record wasm_table =
  wt_elementType :: js_string
  wt_min :: int
  wt_max :: "int option"

record 'f wasm_element =
  wl_tableIdx :: int
  wl_offset :: "'f instr list"
  wl_funcIndices :: "int list"

record 'f global_def =
  gd_name :: js_string
  gd_type :: val_type
  gd_mutable :: bool
  gd_init :: "'f instr list"

record data_segment =
  ds_offset :: int
  ds_bytes :: "byte list"
  ds_passive :: bool

text \<open>\<^verbatim>\<open>WasmModule\<close>, restricted to what the emitters and the handle table use; \<open>None\<close> in
  \<open>md_funcOrdinalToPosition\<close> is the reservation mark \<^verbatim>\<open>NaN\<close>, and of \<^verbatim>\<open>canonicalRuntimeRecGroup\<close> the interval is
  kept.\<close>

record 'f wasm_module =
  md_types :: "type_def list"
  md_imports :: "wasm_import list"
  md_functions :: "'f wasm_function list"
  md_tables :: "wasm_table list"
  md_tags :: "tag_def list"
  md_globals :: "'f global_def list"
  md_exports :: "wasm_export list"
  md_elements :: "'f wasm_element list"
  md_funcOrdinalToPosition :: "nat option list"
  md_memories :: "(int \<times> int option) list"
  md_startFuncIdx :: "int option"
  md_declaredFuncRefs :: "int list"
  md_dataSegments :: "data_segment list"
  md_canonicalRuntimeRecGroup :: "(int \<times> int) option"

section \<open>Walking instruction trees\<close>

text \<open>\<^verbatim>\<open>walkChildren\<close>: the nested arrays of one instruction, in the order the callback sees them. The clauses of
  \<^verbatim>\<open>try_table\<close> have no bodies.\<close>

fun walkChildren :: "'f instr \<Rightarrow> 'f instr list list" where
  "walkChildren (Block _ body) = [body]"
| "walkChildren (Loop _ body) = [body]"
| "walkChildren (If _ thn els) = thn # (case els of None \<Rightarrow> [] | Some e \<Rightarrow> [e])"
| "walkChildren (TryTable _ body _) = [body]"
| "walkChildren (Try _ body catches catchAll) =
     body # map snd catches @ (case catchAll of None \<Rightarrow> [] | Some b \<Rightarrow> [b])"
| "walkChildren _ = []"

definition frame_weight :: "'f instr list \<Rightarrow> nat" where
  "frame_weight arr = size_list size arr + 1"

lemma clauses_weight:
  "sum_list (map frame_weight (map snd catches)) \<le> size_list (size_prod (\<lambda>_. 0) (size_list size)) catches"
  by (induction catches) (auto simp: frame_weight_def size_prod_simp)

lemma children_weight: "sum_list (map frame_weight (walkChildren i)) \<le> size i"
proof (cases i)
  case (Try bt body catches catchAll)
  then show ?thesis using clauses_weight [of catches] by (auto simp: frame_weight_def split: option.splits)
qed (auto simp: frame_weight_def split: option.splits)

text \<open>The loop over an explicit stack of frames; a frame is what is left of its array.\<close>

function walk_loop :: "'f instr list list \<Rightarrow> 'f instr list" where
  "walk_loop [] = []"
| "walk_loop ([] # stack) = walk_loop stack"
| "walk_loop ((i # arr) # stack) = i # walk_loop (walkChildren i @ arr # stack)"
  by pat_completeness auto
termination
proof (relation "measure (\<lambda>stack. sum_list (map frame_weight stack))", goal_cases)
  case (3 i arr stack)
  show ?case using children_weight [of i] by (simp add: frame_weight_def)
qed (simp_all add: frame_weight_def)

definition walkInstructions :: "'f instr list \<Rightarrow> 'f instr list" where
  "walkInstructions instrs = walk_loop [instrs]"

text \<open>The reference: each instruction before its nested arrays, siblings in source order.\<close>

function preorder :: "'f instr list \<Rightarrow> 'f instr list" where
  "preorder [] = []"
| "preorder (i # arr) = i # concat (map preorder (walkChildren i)) @ preorder arr"
  by pat_completeness auto
termination
proof (relation "measure frame_weight", goal_cases)
  case (2 i arr x)
  then have "frame_weight x \<le> sum_list (map frame_weight (walkChildren i))" by (intro member_le_sum_list) auto
  then show ?case using children_weight [of i] by (simp add: frame_weight_def)
qed (simp_all add: frame_weight_def)

lemma walk_loop_preorder: "walk_loop stack = concat (map preorder stack)"
  by (induction stack rule: walk_loop.induct) simp_all

lemma walkInstructions_preorder: "walkInstructions instrs = preorder instrs"
  by (simp add: walkInstructions_def walk_loop_preorder)

text \<open>A property of every instruction of a body, by its trees and by the children of each.\<close>

lemma walk_body: "list_all P (walkInstructions body) = list_all (\<lambda>i. list_all P (walkInstructions [i])) body"
proof (induction body)
  case (Cons i body)
  then show ?case by (simp add: walkInstructions_preorder)
qed (simp add: walkInstructions_preorder)

lemma walk_tree:
  "list_all P (walkInstructions [i]) = (P i \<and> list_all (\<lambda>b. list_all P (walkInstructions b)) (walkChildren i))"
  by (auto simp: walkInstructions_preorder list_all_iff)

end
