(* ===== verification/Func_Handles.thy ===== *)
theory Func_Handles
  imports Wasm_Module
begin

text \<open>
  \<^verbatim>\<open>src/src/wasm/physical/function-handles.ts\<close>, \<^verbatim>\<open>src/src/emit/resolve-layout.ts\<close> and the accessors of
  \<^verbatim>\<open>src/src/codegen/func-space.ts\<close>: the two-regime function handles. A live handle is a function index; a stable
  handle is minted before its function exists, committed to a position when the function is pushed, and
  resolved to an index only when the module is written, whatever was pushed or imported in between. The
  lemmas treat the operations as a step relation and show by rule induction that positions are never lost,
  shared or moved.
\<close>

section \<open>Operations\<close>

definition STABLE_FUNC_BASE :: int where "STABLE_FUNC_BASE = 2 ^ 21"

definition inLiveShiftRange :: "int \<Rightarrow> int \<Rightarrow> bool" where
  "inLiveShiftRange idx importsBefore \<longleftrightarrow> importsBefore \<le> idx \<and> idx < STABLE_FUNC_BASE"

datatype handle_error =
    NotStable int
  | NeverMinted int
  | AlreadyPushed int nat
  | NoPosition int
  | UnresolvedTarget
  | NotDefined int

text \<open>The ordinal of a stable handle, and the two ways its slot may be empty: \<^verbatim>\<open>undefined\<close> (no slot) and \<^verbatim>\<open>NaN\<close>.\<close>

definition ordinal_slot :: "'f wasm_module \<Rightarrow> int \<Rightarrow> nat option option" where
  "ordinal_slot md h = nth_opt (md_funcOrdinalToPosition md) (nat (h - STABLE_FUNC_BASE))"

definition mintDefinedFunc :: "'f wasm_module \<Rightarrow> int \<times> 'f wasm_module" where
  "mintDefinedFunc md =
     (STABLE_FUNC_BASE + int (length (md_funcOrdinalToPosition md)),
      md\<lparr>md_funcOrdinalToPosition := md_funcOrdinalToPosition md @ [None]\<rparr>)"

definition commitDefinedFuncOrdinal :: "'f wasm_module \<Rightarrow> int \<Rightarrow> handle_error + 'f wasm_module" where
  "commitDefinedFuncOrdinal md funcIdx =
     (if funcIdx < STABLE_FUNC_BASE then Inl (NotStable funcIdx)
      else
        case ordinal_slot md funcIdx of
          None \<Rightarrow> Inl (NeverMinted funcIdx)
        | Some (Some pos) \<Rightarrow> Inl (AlreadyPushed funcIdx pos)
        | Some None \<Rightarrow>
            Inr (md\<lparr>md_funcOrdinalToPosition :=
              (md_funcOrdinalToPosition md)[nat (funcIdx - STABLE_FUNC_BASE) := Some (length (md_functions md))]\<rparr>))"

definition appendDefinedFunc :: "'f wasm_module \<Rightarrow> 'f wasm_function \<Rightarrow> 'f wasm_module" where
  "appendDefinedFunc md fn = md\<lparr>md_functions := md_functions md @ [fn]\<rparr>"

text \<open>Tracing, which only writes to standard error, is left out.\<close>

definition pushDefinedFunc :: "'f wasm_module \<Rightarrow> int \<Rightarrow> 'f wasm_function \<Rightarrow> handle_error + 'f wasm_module" where
  "pushDefinedFunc md funcIdx fn =
     bindE (commitDefinedFuncOrdinal md funcIdx) (\<lambda>md. Inr (appendDefinedFunc md fn))"

definition is_func_import :: "wasm_import \<Rightarrow> bool" where
  "is_func_import imp = (case wi_desc imp of ImportFunc _ \<Rightarrow> True | _ \<Rightarrow> False)"

definition numImportFuncs :: "'f wasm_module \<Rightarrow> nat" where
  "numImportFuncs md = length (filter is_func_import (md_imports md))"

text \<open>A handle of \<^verbatim>\<open>undefined\<close>, \<^verbatim>\<open>null\<close> or \<^verbatim>\<open>NaN\<close> is \<open>None\<close>.\<close>

definition absoluteFuncIndexCached :: "'f wasm_module \<Rightarrow> nat \<Rightarrow> int option \<Rightarrow> handle_error + int" where
  "absoluteFuncIndexCached md imports handle =
     (case handle of
        None \<Rightarrow> Inl UnresolvedTarget
      | Some h \<Rightarrow>
          if h < STABLE_FUNC_BASE then Inr h
          else
            case ordinal_slot md h of
              Some (Some pos) \<Rightarrow> Inr (int imports + int pos)
            | _ \<Rightarrow> Inl (NoPosition h))"

definition absoluteFuncIndex :: "'f wasm_module \<Rightarrow> int option \<Rightarrow> handle_error + int" where
  "absoluteFuncIndex md handle =
     (case handle of
        Some h \<Rightarrow> if h < STABLE_FUNC_BASE then Inr h else absoluteFuncIndexCached md (numImportFuncs md) handle
      | None \<Rightarrow> absoluteFuncIndexCached md (numImportFuncs md) handle)"

record module_layout =
  ly_func :: "int option \<Rightarrow> handle_error + int"
  ly_global :: "int \<Rightarrow> int"
  ly_type :: "int \<Rightarrow> int"

definition resolveLayout :: "'f wasm_module \<Rightarrow> module_layout" where
  "resolveLayout md =
     \<lparr>ly_func = absoluteFuncIndexCached md (numImportFuncs md), ly_global = (\<lambda>h. h), ly_type = (\<lambda>h. h)\<rparr>"

text \<open>The accessors take the context's own count of function imports, which the passes that add imports keep up
  to date.\<close>

definition definedPositionOf :: "'f wasm_module \<Rightarrow> nat \<Rightarrow> int \<Rightarrow> int" where
  "definedPositionOf md imports funcIdx =
     (if STABLE_FUNC_BASE \<le> funcIdx then
        case ordinal_slot md funcIdx of Some (Some pos) \<Rightarrow> int pos | _ \<Rightarrow> - 1
      else funcIdx - int imports)"

definition isImportFuncIdx :: "nat \<Rightarrow> int \<Rightarrow> bool" where
  "isImportFuncIdx imports funcIdx \<longleftrightarrow> funcIdx < int imports"

definition definedFuncAt :: "'f wasm_module \<Rightarrow> nat \<Rightarrow> int \<Rightarrow> 'f wasm_function option" where
  "definedFuncAt md imports funcIdx =
     (let pos = definedPositionOf md imports funcIdx in
      if 0 \<le> pos then nth_opt (md_functions md) (nat pos) else None)"

definition replaceDefinedFuncAt :: "'f wasm_module \<Rightarrow> nat \<Rightarrow> int \<Rightarrow> 'f wasm_function \<Rightarrow> handle_error + 'f wasm_module" where
  "replaceDefinedFuncAt md imports funcIdx fn =
     (let pos = definedPositionOf md imports funcIdx in
      if pos < 0 \<or> int (length (md_functions md)) \<le> pos then Inl (NotDefined funcIdx)
      else Inr (md\<lparr>md_functions := (md_functions md)[nat pos := fn]\<rparr>))"

section \<open>The handle protocol\<close>

text \<open>Every recorded position is that of a function, and no two ordinals share one.\<close>

definition handles_ok :: "'f wasm_module \<Rightarrow> bool" where
  "handles_ok md \<longleftrightarrow>
     (\<forall>i p. nth_opt (md_funcOrdinalToPosition md) i = Some (Some p) \<longrightarrow> p < length (md_functions md)) \<and>
     (\<forall>i j p. nth_opt (md_funcOrdinalToPosition md) i = Some (Some p) \<longrightarrow>
        nth_opt (md_funcOrdinalToPosition md) j = Some (Some p) \<longrightarrow> i = j)"

text \<open>The steps of a compilation: minting, pushing, replacing a function in its slot, and a late import, which
  moves every live function index.\<close>

inductive handle_step :: "'f wasm_module \<Rightarrow> 'f wasm_module \<Rightarrow> bool" where
  mint: "mintDefinedFunc md = (h, md') \<Longrightarrow> handle_step md md'"
| push: "pushDefinedFunc md h fn = Inr md' \<Longrightarrow> handle_step md md'"
| replace: "replaceDefinedFuncAt md (numImportFuncs md) h fn = Inr md' \<Longrightarrow> handle_step md md'"
| late_import: "handle_step md (md\<lparr>md_imports := md_imports md @ [imp]\<rparr>)"

inductive handle_steps :: "'f wasm_module \<Rightarrow> 'f wasm_module \<Rightarrow> bool" where
  none: "handle_steps md md"
| more: "handle_steps md md' \<Longrightarrow> handle_step md' md'' \<Longrightarrow> handle_steps md md''"

lemma pushed:
  assumes "pushDefinedFunc md h fn = Inr md'"
  shows "STABLE_FUNC_BASE \<le> h" "ordinal_slot md h = Some None"
    "md' = md\<lparr>md_funcOrdinalToPosition :=
        (md_funcOrdinalToPosition md)[nat (h - STABLE_FUNC_BASE) := Some (length (md_functions md))],
      md_functions := md_functions md @ [fn]\<rparr>"
  using assms by (auto simp: pushDefinedFunc_def commitDefinedFuncOrdinal_def appendDefinedFunc_def bindE_eq_Inr
    split: if_splits option.splits)

lemma replaced:
  assumes "replaceDefinedFuncAt md n h fn = Inr md'"
  obtains k where "md' = md\<lparr>md_functions := (md_functions md)[k := fn]\<rparr>"
  using assms by (auto simp: replaceDefinedFuncAt_def Let_def split: if_splits)

lemma nth_opt_update: "nth_opt (xs[i := v]) j = (if i = j \<and> i < length xs then Some v else nth_opt xs j)"
  by (auto simp: nth_opt_def)

lemma nth_opt_snoc: "nth_opt (xs @ [v]) j = (if j = length xs then Some v else nth_opt xs j)"
  by (auto simp: nth_opt_def nth_append)

lemma handle_step_ok:
  assumes "handle_step md md'" "handles_ok md"
  shows "handles_ok md'"
  using assms
proof (cases rule: handle_step.cases)
  case (mint h')
  with assms(2) show ?thesis by (auto simp: mintDefinedFunc_def handles_ok_def nth_opt_snoc split: if_splits)
next
  case (push h' fn)
  have "p < length (md_functions md)" if "nth_opt (md_funcOrdinalToPosition md) i = Some (Some p)" for i p
    using assms(2) that by (simp add: handles_ok_def)
  then show ?thesis using assms(2)
    by (auto simp: pushed(3) [OF push] handles_ok_def nth_opt_update less_Suc_eq split: if_splits)
next
  case (replace h' fn)
  then show ?thesis using assms(2) by (elim replaced) (simp add: handles_ok_def)
next
  case (late_import imp)
  then show ?thesis using assms(2) by (simp add: handles_ok_def)
qed

lemma handle_step_keeps:
  assumes "handle_step md md'" "ordinal_slot md h = Some (Some p)"
  shows "ordinal_slot md' h = Some (Some p)"
  using assms(1)
proof (cases rule: handle_step.cases)
  case (mint h')
  then show ?thesis using assms(2)
    by (auto simp: mintDefinedFunc_def ordinal_slot_def nth_opt_snoc) (auto simp: nth_opt_def split: if_splits)
next
  case (push h' fn)
  then show ?thesis using assms(2) pushed(2) [OF push]
    by (auto simp: pushed(3) [OF push] ordinal_slot_def nth_opt_update split: if_splits)
next
  case (replace h' fn)
  then show ?thesis using assms(2) by (elim replaced) (simp add: ordinal_slot_def)
next
  case (late_import imp)
  then show ?thesis using assms(2) by (simp add: ordinal_slot_def)
qed

lemma handle_steps_invariants:
  assumes "handle_steps md md'"
  shows "handles_ok md \<Longrightarrow> handles_ok md'"
    and "ordinal_slot md h = Some (Some p) \<Longrightarrow> ordinal_slot md' h = Some (Some p)"
  using assms by (induction rule: handle_steps.induct) (auto intro: handle_step_ok handle_step_keeps)

lemma minted_fresh:
  assumes "mintDefinedFunc md = (h, md')"
  shows "ordinal_slot md h = None" "ordinal_slot md' h = Some None"
  using assms by (auto simp: mintDefinedFunc_def ordinal_slot_def nth_opt_snoc nth_opt_def)

lemma pushed_slot:
  assumes "pushDefinedFunc md h fn = Inr md'"
  shows "ordinal_slot md' h = Some (Some (length (md_functions md)))"
  using pushed [OF assms] by (auto simp: ordinal_slot_def nth_opt_update nth_opt_def split: if_splits)

lemma stable_resolution:
  assumes "STABLE_FUNC_BASE \<le> h" "ordinal_slot md h = Some (Some p)"
  shows "ly_func (resolveLayout md) (Some h) = Inr (int (numImportFuncs md) + int p)"
    and "definedPositionOf md n h = int p"
  using assms by (simp_all add: resolveLayout_def absoluteFuncIndexCached_def definedPositionOf_def)

end
