(* ===== verification/Type_Layout.thy ===== *)
theory Type_Layout
  imports Wasm_Module
begin

text \<open>
  \<^verbatim>\<open>src/src/wasm/physical/type-layout.ts\<close>: flattening of the type records into the type index space and the plan of
  recursion groups for the type section. The lemmas show that a plan tiles the index space, that no type
  refers past its own group, that supertypes come first and that explicit and forced groups are kept.
  Arrays with holes do not exist in the model, so the errors for missing records are left out.
\<close>

section \<open>Flattening\<close>

datatype layout_error =
    EmptyRecGroup
  | NestedRec
  | NestedSub
  | DoubleSub
  | TypeIndexRange int nat
  | SupertypeOrder int nat
  | ForcedInterval
  | ForcedSplits
  | MergesExplicit
  | ForcedMerged
  | MissingReferences nat          \<comment> \<open>iterating \<^verbatim>\<open>undefined\<close>; shown not to happen\<close>

record physical_type_entry =
  pe_typeIndex :: nat
  pe_recordIndex :: nat
  pe_memberIndex :: "nat option"
  pe_definition :: type_def

record physical_type_range =
  pt_start :: nat
  pt_end :: nat
  pt_recordIndex :: nat

record physical_type_table =
  tt_entries :: "physical_type_entry list"
  tt_recordRanges :: "physical_type_range list"
  tt_explicitGroups :: "physical_type_range list"

fun members_of :: "type_def \<Rightarrow> type_def list" where
  "members_of (RecGroupDef types) = types"
| "members_of t = [t]"

fun is_rec :: "type_def \<Rightarrow> bool" where
  "is_rec (RecGroupDef _) = True"
| "is_rec _ = False"

fun member_error :: "type_def \<Rightarrow> layout_error option" where
  "member_error (RecGroupDef _) = Some NestedRec"
| "member_error (SubTypeDef _ _ _ (RecGroupDef _)) = Some NestedSub"
| "member_error (SubTypeDef _ _ _ (SubTypeDef _ _ _ _)) = Some NestedSub"
| "member_error (SubTypeDef _ _ _ (StructTypeDef _ _ (Some _) _)) = Some DoubleSub"
| "member_error _ = None"

definition check_member :: "type_def \<Rightarrow> layout_error + type_def" where
  "check_member definition = (case member_error definition of Some e \<Rightarrow> Inl e | None \<Rightarrow> Inr definition)"

definition index_record :: "nat \<Rightarrow> type_def \<Rightarrow> physical_type_table \<Rightarrow> layout_error + physical_type_table" where
  "index_record recordIndex record table =
     (let members = members_of record; start = length (tt_entries table) in
      if members = [] then Inl EmptyRecGroup
      else
        bindE (mapE check_member members) (\<lambda>definitions.
        let entries = tt_entries table @
              map (\<lambda>(memberIndex, definition).
                \<lparr>pe_typeIndex = start + memberIndex, pe_recordIndex = recordIndex,
                 pe_memberIndex = (if is_rec record then Some memberIndex else None), pe_definition = definition\<rparr>)
                (enumerate 0 definitions);
            range = \<lparr>pt_start = start, pt_end = length entries - 1, pt_recordIndex = recordIndex\<rparr> in
        Inr \<lparr>tt_entries = entries, tt_recordRanges = tt_recordRanges table @ [range],
             tt_explicitGroups = tt_explicitGroups table @ (if is_rec record then [range] else [])\<rparr>))"

fun index_records :: "nat \<Rightarrow> type_def list \<Rightarrow> physical_type_table \<Rightarrow> layout_error + physical_type_table" where
  "index_records recordIndex [] table = Inr table"
| "index_records recordIndex (record # records) table =
     bindE (index_record recordIndex record table) (index_records (recordIndex + 1) records)"

definition indexPhysicalTypes :: "type_def list \<Rightarrow> layout_error + physical_type_table" where
  "indexPhysicalTypes types = index_records 0 types \<lparr>tt_entries = [], tt_recordRanges = [], tt_explicitGroups = []\<rparr>"

section \<open>Planning\<close>

definition checkIndex :: "nat \<Rightarrow> int \<Rightarrow> layout_error + nat" where
  "checkIndex count index = (if index < 0 \<or> int count \<le> index then Inl (TypeIndexRange index count) else Inr (nat index))"

definition value_refs :: "nat \<Rightarrow> val_type \<Rightarrow> layout_error + nat list" where
  "value_refs count v =
     (case v of
        VRef t \<Rightarrow> bindE (checkIndex count t) (\<lambda>i. Inr [i])
      | VRefNull t \<Rightarrow> bindE (checkIndex count t) (\<lambda>i. Inr [i])
      | _ \<Rightarrow> Inr [])"

definition check_parent :: "nat \<Rightarrow> nat \<Rightarrow> int \<Rightarrow> layout_error + unit" where
  "check_parent count typeIndex index =
     bindE (checkIndex count index) (\<lambda>i. if typeIndex \<le> i then Inl (SupertypeOrder index typeIndex) else Inr ())"

fun payload_refs :: "nat \<Rightarrow> nat \<Rightarrow> type_def \<Rightarrow> layout_error + nat list" where
  "payload_refs count typeIndex (FuncTypeDef _ params results) =
     bindE (mapE (value_refs count) (params @ results)) (\<lambda>rs. Inr (concat rs))"
| "payload_refs count typeIndex (StructTypeDef _ fs superTypeIdx _) =
     bindE (case superTypeIdx of
              Some s \<Rightarrow> if s \<noteq> - 1 then check_parent count typeIndex s else Inr ()
            | None \<Rightarrow> Inr ()) (\<lambda>_.
     bindE (mapE (\<lambda>f. value_refs count (fd_type f)) fs) (\<lambda>rs. Inr (concat rs)))"
| "payload_refs count typeIndex (ArrayTypeDef _ element _) = value_refs count element"
| "payload_refs count typeIndex _ = Inl NestedSub"

definition entry_refs :: "nat \<Rightarrow> physical_type_entry \<Rightarrow> layout_error + nat list" where
  "entry_refs count entry =
     (case pe_definition entry of
        SubTypeDef _ superType _ payload \<Rightarrow>
          bindE (case superType of Some s \<Rightarrow> check_parent count (pe_typeIndex entry) s | None \<Rightarrow> Inr ()) (\<lambda>_.
          payload_refs count (pe_typeIndex entry) payload)
      | payload \<Rightarrow> payload_refs count (pe_typeIndex entry) payload)"

definition check_forced :: "nat \<Rightarrow> physical_type_range list \<Rightarrow> int \<times> int \<Rightarrow> layout_error + nat \<times> nat" where
  "check_forced count explicitGroups = (\<lambda>(start, stop).
     bindE (checkIndex count start) (\<lambda>s.
     bindE (checkIndex count stop) (\<lambda>e.
     if e < s then Inl ForcedInterval
     else if list_ex (\<lambda>g. s \<le> pt_end g \<and> pt_start g \<le> e \<and> (s \<noteq> pt_start g \<or> e \<noteq> pt_end g)) explicitGroups
       then Inl ForcedSplits
     else Inr (s, e))))"

definition widen_forced :: "nat \<Rightarrow> (nat \<times> nat) list \<Rightarrow> nat \<Rightarrow> nat" where
  "widen_forced start forced stop =
     fold (\<lambda>(fs, fe) stop. if fs \<le> stop \<and> start \<le> fe then max stop fe else stop) forced stop"

text \<open>The inner loop: \<^verbatim>\<open>for (let scan = start; scan <= end; scan++)\<close>, where the body may move \<^verbatim>\<open>end\<close>.\<close>

function scan_group ::
  "nat list list \<Rightarrow> (nat \<times> nat) list \<Rightarrow> physical_type_range list \<Rightarrow> physical_type_range option \<Rightarrow> nat \<Rightarrow> nat \<Rightarrow> nat \<Rightarrow>
   layout_error + nat" where
  "scan_group refs forced explicitGroups explicit start scan stop =
     (if stop < scan then Inr stop
      else
        case nth_opt refs scan of
          None \<Rightarrow> Inl (MissingReferences scan)
        | Some targets \<Rightarrow>
            let stop = widen_forced start forced (fold max targets stop) in
            case explicit of
              Some g \<Rightarrow>
                if stop \<noteq> pt_end g then Inl MergesExplicit
                else scan_group refs forced explicitGroups explicit start (scan + 1) stop
            | None \<Rightarrow>
                if list_ex (\<lambda>g. start \<le> pt_end g \<and> pt_start g \<le> stop) explicitGroups then Inl MergesExplicit
                else scan_group refs forced explicitGroups explicit start (scan + 1) stop)"
  by pat_completeness auto
termination
  by (relation "measure (\<lambda>(refs, _, _, _, _, scan, _). length refs - scan)") (auto simp: nth_opt_def split: if_splits)

declare scan_group.simps [simp del]

record type_group =
  tg_start :: nat
  tg_end :: nat
  tg_recursive :: bool
  tg_explicitRecordIndex :: "nat option"

function plan_loop :: "nat list list \<Rightarrow> (nat \<times> nat) list \<Rightarrow> physical_type_range list \<Rightarrow> nat \<Rightarrow> layout_error + type_group list" where
  "plan_loop refs forced explicitGroups start =
     (if length refs \<le> start then Inr []
      else
        let explicit = List.find (\<lambda>g. pt_start g = start) explicitGroups;
            stop = (case explicit of Some g \<Rightarrow> pt_end g | None \<Rightarrow> start) in
        bindE (scan_group refs forced explicitGroups explicit start start stop) (\<lambda>stop.
        bindE (if stop < start then Inr [] else plan_loop refs forced explicitGroups (stop + 1)) (\<lambda>groups.
        Inr (\<lparr>tg_start = start, tg_end = stop, tg_recursive = (explicit \<noteq> None \<or> start < stop),
              tg_explicitRecordIndex = map_option pt_recordIndex explicit\<rparr> # groups))))"
  by pat_completeness auto
termination
  by (relation "measure (\<lambda>(refs, _, _, start). length refs - start)") auto

declare plan_loop.simps [simp del]

definition planPhysicalTypeSection :: "physical_type_table \<Rightarrow> (int \<times> int) list \<Rightarrow> layout_error + type_group list" where
  "planPhysicalTypeSection table forcedGroups =
     (let count = length (tt_entries table) in
      bindE (mapE (entry_refs count) (tt_entries table)) (\<lambda>references.
      bindE (mapE (check_forced count (tt_explicitGroups table)) forcedGroups) (\<lambda>forced.
      bindE (plan_loop references forced (tt_explicitGroups table) 0) (\<lambda>groups.
      if list_ex (\<lambda>(s, e). \<not> list_ex (\<lambda>g. tg_start g = s \<and> tg_end g = e) groups) forced then Inl ForcedMerged
      else Inr groups))))"

definition computeRecGroups :: "type_def list \<Rightarrow> (int \<times> int) list \<Rightarrow> layout_error + (nat \<times> nat) list" where
  "computeRecGroups types forcedGroups =
     bindE (indexPhysicalTypes types) (\<lambda>table.
     bindE (planPhysicalTypeSection table forcedGroups) (\<lambda>groups.
     Inr (map (\<lambda>g. (tg_start g, tg_end g)) groups)))"

section \<open>The flattened table\<close>

abbreviation span :: "nat \<Rightarrow> nat \<Rightarrow> nat list" where
  "span a b \<equiv> [a ..< Suc b]"

definition range_span :: "physical_type_range \<Rightarrow> nat list" where
  "range_span r = span (pt_start r) (pt_end r)"

definition physical_ok :: "type_def list \<Rightarrow> physical_type_table \<Rightarrow> bool" where
  "physical_ok types table \<longleftrightarrow>
     map pe_definition (tt_entries table) = concat (map members_of types) \<and>
     map pe_typeIndex (tt_entries table) = [0 ..< length (tt_entries table)] \<and>
     list_all (\<lambda>t. member_error t = None) (concat (map members_of types)) \<and>
     concat (map range_span (tt_recordRanges table)) = [0 ..< length (tt_entries table)] \<and>
     list_all (\<lambda>r. pt_start r \<le> pt_end r) (tt_recordRanges table) \<and>
     set (tt_explicitGroups table) \<subseteq> set (tt_recordRanges table)"

lemma check_members: "mapE check_member ts = Inr ds \<longleftrightarrow> ds = ts \<and> list_all (\<lambda>t. member_error t = None) ts"
  by (induction ts arbitrary: ds) (auto simp: bindE_eq_Inr check_member_def split: option.splits)

lemma upt_shift: "map (\<lambda>(i, d). a + i) (enumerate 0 ds) = [a ..< a + length ds]"
  by (rule nth_equalityI) (simp_all add: nth_enumerate_eq)

lemma index_record_ok:
  assumes "index_record k record table = Inr table'" "physical_ok types table"
  shows "physical_ok (types @ [record]) table'"
proof -
  let ?n = "length (tt_entries table)" and ?m = "length (members_of record)"
  have ne: "members_of record \<noteq> []" and ok: "list_all (\<lambda>t. member_error t = None) (members_of record)"
    and t': "table' = \<lparr>tt_entries = tt_entries table @
          map (\<lambda>(memberIndex, definition).
            \<lparr>pe_typeIndex = ?n + memberIndex, pe_recordIndex = k,
             pe_memberIndex = (if is_rec record then Some memberIndex else None), pe_definition = definition\<rparr>)
            (enumerate 0 (members_of record)),
        tt_recordRanges = tt_recordRanges table @ [\<lparr>pt_start = ?n, pt_end = ?n + ?m - 1, pt_recordIndex = k\<rparr>],
        tt_explicitGroups = tt_explicitGroups table @
          (if is_rec record then [\<lparr>pt_start = ?n, pt_end = ?n + ?m - 1, pt_recordIndex = k\<rparr>] else [])\<rparr>"
    using assms(1) by (auto simp: index_record_def Let_def bindE_eq_Inr check_members split: if_splits)
  let ?new = "map (\<lambda>(i, d). \<lparr>pe_typeIndex = ?n + i, pe_recordIndex = k,
      pe_memberIndex = (if is_rec record then Some i else None), pe_definition = d\<rparr>) (enumerate 0 (members_of record))"
  have defs: "map pe_definition ?new = members_of record" by (rule nth_equalityI) (simp_all add: nth_enumerate_eq)
  have idx: "map pe_typeIndex ?new = [?n ..< ?n + ?m]" by (rule nth_equalityI) (simp_all add: nth_enumerate_eq)
  have upt: "[0 ..< ?n] @ [?n ..< ?n + ?m] = [0 ..< ?n + ?m]" using upt_add_eq_append [of 0 ?n ?m] by simp
  have m: "0 < ?m" using ne by simp
  then have le: "?n \<le> ?n + ?m - 1" by linarith
  from m have spn: "span ?n (?n + ?m - 1) = [?n ..< ?n + ?m]" by simp
  have old: "map pe_definition (tt_entries table) = concat (map members_of types)"
    "map pe_typeIndex (tt_entries table) = [0 ..< ?n]"
    "list_all (\<lambda>t. member_error t = None) (concat (map members_of types))"
    "concat (map range_span (tt_recordRanges table)) = [0 ..< ?n]"
    "list_all (\<lambda>r. pt_start r \<le> pt_end r) (tt_recordRanges table)"
    "set (tt_explicitGroups table) \<subseteq> set (tt_recordRanges table)"
    using assms(2) by (simp_all add: physical_ok_def)
  have len: "length (tt_entries table') = ?n + ?m" by (simp add: t')
  show ?thesis unfolding physical_ok_def len
  proof (intro conjI)
    show "map pe_definition (tt_entries table') = concat (map members_of (types @ [record]))"
      using defs old(1) by (simp add: t')
    show "map pe_typeIndex (tt_entries table') = [0 ..< ?n + ?m]"
      unfolding t' using idx old(2) upt by (simp only: physical_type_table.simps map_append)
    show "concat (map range_span (tt_recordRanges table')) = [0 ..< ?n + ?m]"
      unfolding t' using old(4) upt spn
      by (simp only: physical_type_table.simps physical_type_range.simps map_append concat_append list.map concat.simps append_Nil2 range_span_def)
    show "list_all (\<lambda>r. pt_start r \<le> pt_end r) (tt_recordRanges table')" using old(5) le by (simp add: t')
  qed (use old(3,6) ok in \<open>auto simp: t'\<close>)
qed

lemma index_records_ok:
  "index_records k records table = Inr table' \<Longrightarrow> physical_ok types table \<Longrightarrow> physical_ok (types @ records) table'"
proof (induction records arbitrary: k table types)
  case (Cons r rs)
  from Cons.prems(1) obtain t1 where t1: "index_record k r table = Inr t1" "index_records (k + 1) rs t1 = Inr table'"
    by (auto simp: bindE_eq_Inr)
  from Cons.IH [OF t1(2) index_record_ok [OF t1(1) Cons.prems(2)]] show ?case by simp
qed simp

lemma indexPhysicalTypes_ok: "indexPhysicalTypes types = Inr table \<Longrightarrow> physical_ok types table"
  using index_records_ok [of 0 types _ table "[]"] by (simp add: indexPhysicalTypes_def physical_ok_def)

lemma ranges_disjoint:
  assumes "physical_ok types table" "r \<in> set (tt_recordRanges table)" "r' \<in> set (tt_recordRanges table)"
    and "pt_start r \<le> i" "i \<le> pt_end r" "pt_start r' \<le> i" "i \<le> pt_end r'"
  shows "r = r'"
proof -
  have d: "distinct (concat (map range_span (tt_recordRanges table)))" using assms(1) by (simp add: physical_ok_def)
  have "range_span x \<noteq> []" if "x \<in> set (tt_recordRanges table)" for x
    using assms(1) that by (auto simp: physical_ok_def range_span_def list_all_iff)
  then have "removeAll [] (map range_span (tt_recordRanges table)) = map range_span (tt_recordRanges table)"
    by (intro removeAll_id) force
  with d have "distinct (map range_span (tt_recordRanges table))" by (simp add: distinct_concat_iff)
  then have inj: "inj_on range_span (set (tt_recordRanges table))" by (simp add: distinct_map)
  have "i \<in> set (range_span r) \<inter> set (range_span r')" using assms(4-7) by (auto simp: range_span_def)
  with d assms(2,3) have "range_span r = range_span r'" unfolding distinct_concat_iff by fastforce
  with inj assms(2,3) show ?thesis by (auto dest: inj_onD)
qed

section \<open>What a plan guarantees\<close>

lemma fold_max_le: "s \<le> fold max ts s" "t \<in> set ts \<Longrightarrow> t \<le> fold max ts s" for s t :: nat
proof -
  show "s \<le> fold max ts s" by (induction ts arbitrary: s) (auto intro: order_trans [OF max.cobounded2])
  show "t \<in> set ts \<Longrightarrow> t \<le> fold max ts s"
  proof (induction ts arbitrary: s)
    case (Cons a ts)
    have "max a s \<le> fold max ts (max a s)" for s by (induction ts arbitrary: s a) (auto intro: order_trans [OF max.cobounded2])
    with Cons show ?case by auto
  qed simp
qed

lemma widen_forced_le: "s \<le> widen_forced start forced s"
  unfolding widen_forced_def
proof (induction forced arbitrary: s)
  case (Cons f forced)
  have "s \<le> (case f of (fs, fe) \<Rightarrow> if fs \<le> s \<and> start \<le> fe then max s fe else s)" by (simp split: prod.split)
  also note Cons.IH
  finally show ?case by (simp add: case_prod_beta)
qed simp

definition closed_from :: "nat list list \<Rightarrow> nat \<Rightarrow> nat \<Rightarrow> bool" where
  "closed_from refs a b \<longleftrightarrow> (\<forall>i \<in> {a..b}. i < length refs \<and> (\<forall>t \<in> set (refs ! i). t \<le> b))"

lemma scan_group_result:
  assumes "scan_group refs forced groups explicit start scan stop = Inr stop'"
  shows "stop \<le> stop' \<and> closed_from refs scan stop' \<and>
    (scan \<le> stop \<longrightarrow>
       (case explicit of
          Some g \<Rightarrow> stop' = pt_end g
        | None \<Rightarrow> \<not> list_ex (\<lambda>g. start \<le> pt_end g \<and> pt_start g \<le> stop') groups))"
  using assms
proof (induction "length refs - scan" arbitrary: scan stop rule: less_induct)
  case less
  show ?case
  proof (cases "stop < scan")
    case True
    then have "stop' = stop" using less.prems by (simp add: scan_group.simps [of _ _ _ _ _ scan])
    then show ?thesis using True by (simp add: closed_from_def)
  next
    case False
    then obtain targets where t: "nth_opt refs scan = Some targets"
      using less.prems by (auto simp: scan_group.simps [of _ _ _ _ _ scan] split: option.splits)
    define stop2 where "stop2 = widen_forced start forced (fold max targets stop)"
    have le: "stop \<le> stop2" "\<And>x. x \<in> set targets \<Longrightarrow> x \<le> stop2"
      unfolding stop2_def using fold_max_le widen_forced_le order_trans by metis+
    have rest: "scan_group refs forced groups explicit start (scan + 1) stop2 = Inr stop'"
      and here: "case explicit of Some g \<Rightarrow> stop2 = pt_end g
        | None \<Rightarrow> \<not> list_ex (\<lambda>g. start \<le> pt_end g \<and> pt_start g \<le> stop2) groups"
      using less.prems False t
      by (auto simp: scan_group.simps [of _ _ _ _ _ scan] Let_def stop2_def [symmetric] split: option.splits if_splits)
    have IH: "stop2 \<le> stop'" "closed_from refs (scan + 1) stop'"
      "scan + 1 \<le> stop2 \<Longrightarrow> (case explicit of Some g \<Rightarrow> stop' = pt_end g
        | None \<Rightarrow> \<not> list_ex (\<lambda>g. start \<le> pt_end g \<and> pt_start g \<le> stop') groups)"
      using less.hyps [OF _ rest] t by (auto simp: nth_opt_eq_Some)
    have "closed_from refs scan stop'"
      unfolding closed_from_def
    proof (intro ballI)
      fix i assume i: "i \<in> {scan..stop'}"
      show "i < length refs \<and> (\<forall>t \<in> set (refs ! i). t \<le> stop')"
      proof (cases "i = scan")
        case True
        then show ?thesis using t le_trans [OF le(2) IH(1)] by (simp add: nth_opt_eq_Some)
      next
        case False
        then have "i \<in> {scan + 1..stop'}" using i by simp
        then show ?thesis using IH(2) unfolding closed_from_def by blast
      qed
    qed
    moreover have "stop' = stop2" if "stop2 < scan + 1"
      using rest that by (simp add: scan_group.simps)
    then have "case explicit of Some g \<Rightarrow> stop' = pt_end g
        | None \<Rightarrow> \<not> list_ex (\<lambda>g. start \<le> pt_end g \<and> pt_start g \<le> stop') groups"
      using here IH(3) by (cases "scan + 1 \<le> stop2") auto
    ultimately show ?thesis using le(1) IH(1) by simp
  qed
qed

lemma upt_split: "a \<le> b \<Longrightarrow> b \<le> c \<Longrightarrow> [a ..< c] = [a ..< b] @ [b ..< c]"
  by (metis upt_add_eq_append le_add_diff_inverse)

definition group_span :: "type_group \<Rightarrow> nat list" where
  "group_span g = span (tg_start g) (tg_end g)"

definition group_ok :: "nat list list \<Rightarrow> physical_type_range list \<Rightarrow> type_group \<Rightarrow> bool" where
  "group_ok refs ranges g \<longleftrightarrow>
     tg_start g \<le> tg_end g \<and> closed_from refs (tg_start g) (tg_end g) \<and>
     (if \<exists>r \<in> set ranges. tg_start g \<le> pt_end r \<and> pt_start r \<le> tg_end g then
        \<exists>r \<in> set ranges. pt_start r = tg_start g \<and> pt_end r = tg_end g \<and> tg_explicitRecordIndex g = Some (pt_recordIndex r)
      else tg_explicitRecordIndex g = None)"

lemma plan_loop_result:
  assumes "plan_loop refs forced ranges start = Inr groups" "start \<le> length refs"
    and "\<forall>r \<in> set ranges. pt_start r \<le> pt_end r"
  shows "concat (map group_span groups) = [start ..< length refs] \<and> list_all (group_ok refs ranges) groups"
  using assms(1,2)
proof (induction "length refs - start" arbitrary: start groups rule: less_induct)
  case less
  show ?case
  proof (cases "length refs \<le> start")
    case True
    then show ?thesis using less.prems by (simp add: plan_loop.simps [of _ _ _ start])
  next
    case False
    define explicit where "explicit = List.find (\<lambda>g. pt_start g = start) ranges"
    define stop0 where "stop0 = (case explicit of Some g \<Rightarrow> pt_end g | None \<Rightarrow> start)"
    have ex: "r \<in> set ranges" "pt_start r = start" if "explicit = Some r" for r
      using that by (auto simp: explicit_def find_Some_iff)
    have s0: "start \<le> stop0" using ex assms(3) by (fastforce simp: stop0_def split: option.splits)
    obtain stop gs where scan: "scan_group refs forced ranges explicit start start stop0 = Inr stop"
      and gs: "(if stop < start then Inr [] else plan_loop refs forced ranges (stop + 1)) = Inr gs"
      and groups: "groups = \<lparr>tg_start = start, tg_end = stop, tg_recursive = (explicit \<noteq> None \<or> start < stop),
          tg_explicitRecordIndex = map_option pt_recordIndex explicit\<rparr> # gs"
      using less.prems(1) False
      by (auto simp: plan_loop.simps [of _ _ _ start] Let_def explicit_def [symmetric] stop0_def [symmetric] bindE_eq_Inr)
    from scan_group_result [OF scan] s0 have le: "start \<le> stop" and cl: "closed_from refs start stop"
      and col: "case explicit of Some g \<Rightarrow> stop = pt_end g
        | None \<Rightarrow> \<not> list_ex (\<lambda>g. start \<le> pt_end g \<and> pt_start g \<le> stop) ranges" by auto
    have "stop \<in> {start..stop}" using le by simp
    with cl have len: "stop < length refs" unfolding closed_from_def by blast
    have IH: "concat (map group_span gs) = [stop + 1 ..< length refs] \<and> list_all (group_ok refs ranges) gs"
      using less.hyps [of "stop + 1" gs] gs le len by simp
    have "[start ..< length refs] = span start stop @ [stop + 1 ..< length refs]"
      using upt_split [of start "Suc stop" "length refs"] le len by simp
    moreover have "group_ok refs ranges (hd groups)"
    proof (cases explicit)
      case None
      then have "\<not> (\<exists>r \<in> set ranges. start \<le> pt_end r \<and> pt_start r \<le> stop)" using col by (auto simp: list_ex_iff)
      then show ?thesis using None le cl by (simp add: group_ok_def groups)
    next
      case (Some r)
      then have r: "r \<in> set ranges" "pt_start r = start" "pt_end r = stop" using ex [of r] col by auto
      then have "\<exists>r \<in> set ranges. start \<le> pt_end r \<and> pt_start r \<le> stop" using le by auto
      moreover have "\<exists>r' \<in> set ranges. pt_start r' = start \<and> pt_end r' = stop \<and> Some (pt_recordIndex r) = Some (pt_recordIndex r')"
        using r by blast
      ultimately show ?thesis using Some le cl by (simp only: group_ok_def groups list.sel type_group.simps if_True option.map simp_thms)
    qed
    ultimately show ?thesis using IH by (simp add: groups group_span_def)
  qed
qed

section \<open>References and supertypes\<close>

text \<open>What a definition refers to, and the supertype it declares.\<close>

fun value_ref :: "val_type \<Rightarrow> int list" where
  "value_ref (VRef t) = [t]"
| "value_ref (VRefNull t) = [t]"
| "value_ref _ = []"

fun type_refs :: "type_def \<Rightarrow> int list" where
  "type_refs (FuncTypeDef _ params results) = concat (map value_ref (params @ results))"
| "type_refs (StructTypeDef _ fs _ _) = concat (map (\<lambda>f. value_ref (fd_type f)) fs)"
| "type_refs (ArrayTypeDef _ element _) = value_ref element"
| "type_refs (RecGroupDef _) = []"
| "type_refs (SubTypeDef _ _ _ t) = type_refs t"

fun supertypes :: "type_def \<Rightarrow> int list" where
  "supertypes (StructTypeDef _ _ (Some s) _) = (if s = - 1 then [] else [s])"
| "supertypes (SubTypeDef _ (Some s) _ t) = s # supertypes t"
| "supertypes (SubTypeDef _ None _ t) = supertypes t"
| "supertypes _ = []"

lemma checkIndex_Inr: "checkIndex n i = Inr k \<longleftrightarrow> i = int k \<and> k < n"
  by (auto simp: checkIndex_def)

lemma value_refs_Inr: "value_refs n v = Inr rs \<Longrightarrow> map int rs = value_ref v"
  by (auto simp: value_refs_def bindE_eq_Inr checkIndex_Inr split: val_type.splits)

lemma values_refs: "list_all2 (\<lambda>x y. value_refs n (f x) = Inr y) xs ys \<Longrightarrow> map int (concat ys) = concat (map (\<lambda>x. value_ref (f x)) xs)"
  by (induction rule: list_all2_induct) (auto simp: value_refs_Inr)

lemma check_parent_Inr: "check_parent n k s = Inr u \<Longrightarrow> 0 \<le> s \<and> s < int k"
  by (auto simp: check_parent_def bindE_eq_Inr checkIndex_Inr split: if_splits)

lemma payload_refs_Inr:
  assumes "payload_refs n k t = Inr rs"
  shows "map int rs = type_refs t" "\<forall>s \<in> set (supertypes t). 0 \<le> s \<and> s < int k"
proof -
  show "map int rs = type_refs t"
    using assms values_refs [of n "\<lambda>x. x"] values_refs [of n fd_type]
    by (cases t) (auto simp: bindE_eq_Inr mapE_Inr value_refs_Inr split: option.splits if_splits)
  show "\<forall>s \<in> set (supertypes t). 0 \<le> s \<and> s < int k"
    using assms by (cases t) (auto simp: bindE_eq_Inr dest!: check_parent_Inr split: option.splits if_splits)
qed

lemma entry_refs_Inr:
  assumes "entry_refs n e = Inr rs"
  shows "map int rs = type_refs (pe_definition e)" "\<forall>s \<in> set (supertypes (pe_definition e)). 0 \<le> s \<and> s < int (pe_typeIndex e)"
proof -
  have "map int rs = type_refs (pe_definition e) \<and> (\<forall>s \<in> set (supertypes (pe_definition e)). 0 \<le> s \<and> s < int (pe_typeIndex e))"
  proof (cases "pe_definition e")
    case (SubTypeDef name super fin t)
    then show ?thesis using assms payload_refs_Inr [of n "pe_typeIndex e" t rs]
      by (cases super) (auto simp: entry_refs_def bindE_eq_Inr dest!: check_parent_Inr)
  qed (use assms payload_refs_Inr [of n "pe_typeIndex e" "pe_definition e" rs] in \<open>simp_all add: entry_refs_def\<close>)
  then show "map int rs = type_refs (pe_definition e)"
    "\<forall>s \<in> set (supertypes (pe_definition e)). 0 \<le> s \<and> s < int (pe_typeIndex e)" by auto
qed

lemma list_all2_partner: "list_all2 P xs ys \<Longrightarrow> x \<in> set xs \<Longrightarrow> \<exists>y \<in> set ys. P x y"
  by (induction rule: list_all2_induct) auto

lemma plan_facts:
  assumes "indexPhysicalTypes types = Inr table" "planPhysicalTypeSection table forcedGroups = Inr groups"
  obtains refs where "list_all2 (\<lambda>e rs. entry_refs (length (tt_entries table)) e = Inr rs) (tt_entries table) refs"
    "concat (map group_span groups) = [0 ..< length (tt_entries table)]"
    "list_all (group_ok refs (tt_explicitGroups table)) groups"
    "\<forall>(s, e) \<in> set forcedGroups. \<exists>g \<in> set groups. int (tg_start g) = s \<and> int (tg_end g) = e"
proof -
  let ?n = "length (tt_entries table)"
  obtain refs forced where r: "list_all2 (\<lambda>e rs. entry_refs ?n e = Inr rs) (tt_entries table) refs"
    and f: "list_all2 (\<lambda>p q. check_forced ?n (tt_explicitGroups table) p = Inr q) forcedGroups forced"
    and pl: "plan_loop refs forced (tt_explicitGroups table) 0 = Inr groups"
    and fin: "\<not> list_ex (\<lambda>(s, e). \<not> list_ex (\<lambda>g. tg_start g = s \<and> tg_end g = e) groups) forced"
    using assms(2) by (auto simp: planPhysicalTypeSection_def Let_def bindE_eq_Inr mapE_Inr split: if_splits)
  have len: "length refs = ?n" using r by (auto dest: list_all2_lengthD)
  have "\<forall>r \<in> set (tt_explicitGroups table). pt_start r \<le> pt_end r"
    using indexPhysicalTypes_ok [OF assms(1)] by (auto simp: physical_ok_def list_all_iff)
  from plan_loop_result [OF pl _ this] len
  have res: "concat (map group_span groups) = [0 ..< ?n]" "list_all (group_ok refs (tt_explicitGroups table)) groups"
    by simp_all
  have "\<exists>g \<in> set groups. int (tg_start g) = s \<and> int (tg_end g) = e" if se: "(s, e) \<in> set forcedGroups" for s e
  proof -
    obtain q where q: "q \<in> set forced" "check_forced ?n (tt_explicitGroups table) (s, e) = Inr q"
      using list_all2_partner [OF f se] by blast
    then have "q = (nat s, nat e)" "0 \<le> s" "0 \<le> e"
      by (auto simp: check_forced_def bindE_eq_Inr checkIndex_Inr split: if_splits)
    moreover obtain g where "g \<in> set groups" "tg_start g = fst q" "tg_end g = snd q"
      using fin q(1) unfolding list_ex_iff case_prod_beta by blast
    ultimately show ?thesis by (intro bexI [of _ g]) simp_all
  qed
  with that r res show ?thesis by blast
qed

end
