(* ===== verification/Wasm_Emit.thy ===== *)
theory Wasm_Emit
  imports Wasm_Opcodes Func_Handles Type_Layout
begin

text \<open>
  \<^verbatim>\<open>src/src/emit/binary.ts\<close>, up to single functions: the encoders of types, imports, exports, globals and
  instructions, with the index validation that a complete-module emit arms. The two module variables of
  the file, \<^verbatim>\<open>valCtx\<close> and \<^verbatim>\<open>layout\<close>, are the argument \<open>emit_ctx\<close>; the relocatable object emitter runs with both
  unarmed. An instruction without a case throws. The cache of shared instruction arrays and the recording
  of source positions are left out: a tree has no sharing, and neither changes the bytes.

  The lemmas compare the validated encoder with the unvalidated one: it succeeds exactly when the other
  does and every index is in range, with the same result.
\<close>

section \<open>The validation context\<close>

type_synonym writer = "encoder \<Rightarrow> wasm_error + encoder"

record val_ctx =
  vc_numFuncs :: nat
  vc_numTypes :: nat
  vc_numGlobals :: nat
  vc_numTags :: nat
  vc_numTables :: nat
  vc_numMemories :: nat
  vc_flatTypes :: "type_def list"
  vc_where :: js_string
  vc_maxLocals :: int

record emit_ctx =
  ec_val :: "val_ctx option"
  ec_layout :: "module_layout option"

definition show_int :: "int \<Rightarrow> js_string" where
  "show_int i = (if i < 0 then str ''-'' @ to_radix 10 (nat (- i)) else to_radix 10 (nat i))"

definition quote_str :: "js_string \<Rightarrow> js_string" where
  "quote_str s = [34] @ s @ [34]"

definition em_dash :: js_string where "em_dash = str '' '' @ [8212] @ str '' ''"

definition failIndex :: "js_string \<Rightarrow> int \<Rightarrow> int \<Rightarrow> val_ctx \<Rightarrow> wasm_error" where
  "failIndex space v mx c =
     Thrown (str ''Codegen error: '' @ space @ str '' index out of range'' @ em_dash @ show_int v @
       str '' (valid: [0, '' @ show_int mx @ str '')) at '' @ vc_where c @
       str ''. This is the late-import index-shift class (#2043): a captured index went stale across a deferred flushLateImportShifts/addUnionImports/addStringImports shift, or a map lookup failed and baked -1/undefined. Re-resolve the index by name AFTER the last shift, or make the producer refuse loudly.'')"

type_synonym check = "val_ctx \<Rightarrow> wasm_error option"

definition vIdx :: "js_string \<Rightarrow> int \<Rightarrow> (val_ctx \<Rightarrow> int) \<Rightarrow> check" where
  "vIdx space v mx c = (if v < 0 \<or> mx c \<le> v then Some (failIndex space v (mx c) c) else None)"

definition vHeapType :: "int \<Rightarrow> check" where
  "vHeapType v c =
     (let mx = int (vc_numTypes c) in
      if mx \<le> v \<or> v < - 64 \<or> v = - 1 then Some (failIndex (str ''heap type'') v mx c) else None)"

fun unwrap_sub :: "type_def \<Rightarrow> type_def" where
  "unwrap_sub (SubTypeDef _ _ _ t) = unwrap_sub t"
| "unwrap_sub t = t"

definition resolveTypeDefAt :: "val_ctx \<Rightarrow> int \<Rightarrow> type_def option" where
  "resolveTypeDefAt c typeIdx =
     (if typeIdx < 0 \<or> int (length (vc_flatTypes c)) \<le> typeIdx then None
      else Some (unwrap_sub (vc_flatTypes c ! nat typeIdx)))"

definition resolveParamCount :: "val_ctx \<Rightarrow> int \<Rightarrow> int" where
  "resolveParamCount c typeIdx =
     (case resolveTypeDefAt c typeIdx of Some (FuncTypeDef _ params _) \<Rightarrow> int (length params) | _ \<Rightarrow> - 1)"

definition vType :: "int \<Rightarrow> check" where
  "vType typeIdx = vIdx (str ''type'') typeIdx (\<lambda>c. int (vc_numTypes c))"

definition vSignature :: "int \<Rightarrow> check" where
  "vSignature typeIdx c =
     (case vType typeIdx c of
        Some e \<Rightarrow> Some e
      | None \<Rightarrow>
          (case resolveTypeDefAt c typeIdx of
             Some (FuncTypeDef _ _ _) \<Rightarrow> None
           | _ \<Rightarrow> Some (Thrown (str ''type '' @ show_int typeIdx @ str '' is not a function signature''))))"

definition vStructField :: "int \<Rightarrow> int \<Rightarrow> js_string \<Rightarrow> check" where
  "vStructField typeIdx fieldIdx op c =
     (case vType typeIdx c of
        Some e \<Rightarrow> Some e
      | None \<Rightarrow>
          (case resolveTypeDefAt c typeIdx of
             Some (StructTypeDef _ fs _ _) \<Rightarrow>
               vIdx (str ''struct field'') fieldIdx (\<lambda>_. int (length fs))
                 (c\<lparr>vc_where := vc_where c @ str '' ('' @ op @ str '' on type '' @ show_int typeIdx @ str '')''\<rparr>)
           | _ \<Rightarrow> None))"

definition vLocal :: "string \<Rightarrow> int \<Rightarrow> check" where
  "vLocal op index c =
     (if 0 \<le> vc_maxLocals c then vIdx (str ''local ('' @ str op @ str '')'') index vc_maxLocals c else None)"

abbreviation vFunc :: "int \<Rightarrow> check" where "vFunc i \<equiv> vIdx (str ''function'') i (\<lambda>c. int (vc_numFuncs c))"
abbreviation vGlobal :: "int \<Rightarrow> check" where "vGlobal i \<equiv> vIdx (str ''global'') i (\<lambda>c. int (vc_numGlobals c))"
abbreviation vTag :: "int \<Rightarrow> check" where "vTag i \<equiv> vIdx (str ''exception tag'') i (\<lambda>c. int (vc_numTags c))"
abbreviation vTable :: "int \<Rightarrow> check" where "vTable i \<equiv> vIdx (str ''table'') i (\<lambda>c. int (vc_numTables c))"
abbreviation vMemory :: "int \<Rightarrow> check" where "vMemory i \<equiv> vIdx (str ''memory'') i (\<lambda>c. int (vc_numMemories c))"
abbreviation vSuper :: "int \<Rightarrow> check" where "vSuper i \<equiv> vIdx (str ''supertype'') i (\<lambda>c. int (vc_numTypes c))"

text \<open>\<^verbatim>\<open>if (valCtx) check\<close>, and the resolution of handles, which is the identity when no layout is armed.\<close>

definition when_valid :: "emit_ctx \<Rightarrow> check \<Rightarrow> writer" where
  "when_valid c chk e =
     (case ec_val c of None \<Rightarrow> Inr e | Some v \<Rightarrow> (case chk v of None \<Rightarrow> Inr e | Some err \<Rightarrow> Inl err))"

definition handle_message :: "handle_error \<Rightarrow> js_string" where
  "handle_message e =
     (case e of
        NoPosition h \<Rightarrow>
          str ''absoluteFuncIndex: stable handle '' @ show_int h @ str '' (ordinal '' @ show_int (h - STABLE_FUNC_BASE) @
          str '') has no recorded position''
      | _ \<Rightarrow> str ''absoluteFuncIndex'')"

definition fIdx :: "emit_ctx \<Rightarrow> int \<Rightarrow> wasm_error + int" where
  "fIdx c h =
     (case ec_layout c of
        None \<Rightarrow> Inr h
      | Some l \<Rightarrow> (case ly_func l (Some h) of Inl e \<Rightarrow> Inl (Thrown (handle_message e)) | Inr i \<Rightarrow> Inr i))"

definition gIdx :: "emit_ctx \<Rightarrow> int \<Rightarrow> int" where
  "gIdx c h = (case ec_layout c of None \<Rightarrow> h | Some l \<Rightarrow> ly_global l h)"

definition with_func :: "emit_ctx \<Rightarrow> int \<Rightarrow> (int \<Rightarrow> writer) \<Rightarrow> writer" where
  "with_func c h k e = bindE (fIdx c h) (\<lambda>target. k target e)"

section \<open>Types, imports and exports\<close>

abbreviation put_int :: "int \<Rightarrow> writer" where
  "put_int n \<equiv> u32 (Integral n)"

definition packed_error :: "string \<Rightarrow> wasm_error" where
  "packed_error kind =
     Thrown (str ''encodeValType: packed storage type '' @ quote_str (str kind) @
       str '' is not valid in a value position (only struct fields / array elements)'' @ em_dash @
       str ''a packed type leaked into a param/result/local/global'')"

fun encodeValType :: "emit_ctx \<Rightarrow> val_type \<Rightarrow> writer" where
  "encodeValType c (VI32 _) = put_byte 0x7f"
| "encodeValType c (VI64 _) = put_byte 0x7e"
| "encodeValType c VF32 = put_byte 0x7d"
| "encodeValType c VF64 = put_byte 0x7c"
| "encodeValType c VV128 = put_byte 0x7b"
| "encodeValType c VFuncref = put_byte 0x70"
| "encodeValType c VExternref = put_byte 0x6f"
| "encodeValType c VRefExtern = steps [put_byte 0x64, put_byte 0x6f]"
| "encodeValType c (VRef t) = steps [when_valid c (vHeapType t), put_byte 0x64, i32 t]"
| "encodeValType c (VRefNull t) = steps [when_valid c (vHeapType t), put_byte 0x63, i32 t]"
| "encodeValType c VEqref = steps [put_byte 0x63, put_byte 0x6d]"
| "encodeValType c VAnyref = steps [put_byte 0x63, put_byte 0x6e]"
| "encodeValType c VI8 = (\<lambda>_. Inl (packed_error ''i8''))"
| "encodeValType c VI16 = (\<lambda>_. Inl (packed_error ''i16''))"

definition encodeStorageType :: "emit_ctx \<Rightarrow> val_type \<Rightarrow> writer" where
  "encodeStorageType c t = (if t = VI8 then put_byte 0x78 else if t = VI16 then put_byte 0x77 else encodeValType c t)"

definition encodeFieldDef :: "emit_ctx \<Rightarrow> field_def \<Rightarrow> writer" where
  "encodeFieldDef c f = steps [encodeStorageType c (fd_type f), put_byte (if fd_mutable f then 0x01 else 0x00)]"

fun encodeTypeDef :: "emit_ctx \<Rightarrow> type_def \<Rightarrow> writer" where
  "encodeTypeDef c (FuncTypeDef _ params results) =
     steps [put_byte 0x60, put_vector params (encodeValType c), put_vector results (encodeValType c)]"
| "encodeTypeDef c (StructTypeDef _ fs superTypeIdx final) =
     (case superTypeIdx of
        Some s \<Rightarrow>
          steps ([put_byte (if final then 0x4f else 0x50)] @
                 (if 0 \<le> s then [when_valid c (vSuper s), put_int 1, put_int s] else [put_int 0]) @
                 [put_byte 0x5f, put_vector fs (encodeFieldDef c)])
      | None \<Rightarrow> steps [put_byte 0x5f, put_vector fs (encodeFieldDef c)])"
| "encodeTypeDef c (ArrayTypeDef _ element mut) =
     steps [put_byte 0x5e, encodeStorageType c element, put_byte (if mut then 0x01 else 0x00)]"
| "encodeTypeDef c (RecGroupDef types) =
     steps ([put_byte 0x4e, put_int (int (length types))] @ map (encodeTypeDef c) types)"
| "encodeTypeDef c (SubTypeDef _ superType final t) =
     steps ((case superType of
               Some s \<Rightarrow> [when_valid c (vSuper s), put_byte (if final then 0x4f else 0x50), put_int 1, put_int s]
             | None \<Rightarrow> if \<not> final then [put_byte 0x50, put_int 0] else []) @
            [encodeTypeDef c t])"

fun encodeBlockType :: "emit_ctx \<Rightarrow> block_type \<Rightarrow> writer" where
  "encodeBlockType c BtEmpty = put_byte 0x40"
| "encodeBlockType c (BtVal t) = encodeValType c t"
| "encodeBlockType c (BtType t) =
     steps [when_valid c (vIdx (str ''block type'') t (\<lambda>v. int (vc_numTypes v))), when_valid c (vSignature t), i32 t]"

definition encode_limits :: "int \<Rightarrow> int option \<Rightarrow> writer" where
  "encode_limits mn mx =
     (case mx of
        Some m \<Rightarrow> steps [put_byte 0x01, put_int mn, put_int m]
      | None \<Rightarrow> steps [put_byte 0x00, put_int mn])"

definition element_type_byte :: "js_string \<Rightarrow> int" where
  "element_type_byte elementType = (if elementType = str ''funcref'' then 0x70 else 0x6f)"

definition encodeImport :: "emit_ctx \<Rightarrow> wasm_import \<Rightarrow> writer" where
  "encodeImport c imp =
     steps ([put_name (wi_module imp), put_name (wi_name imp)] @
       (case wi_desc imp of
          ImportFunc t \<Rightarrow> [when_valid c (vSignature t), put_byte 0x00, put_int t]
        | ImportTable elementType mn mx \<Rightarrow> [put_byte 0x01, put_byte (element_type_byte elementType), encode_limits mn mx]
        | ImportMemory mn mx \<Rightarrow> [put_byte 0x02, encode_limits mn mx]
        | ImportGlobal t mut \<Rightarrow> [put_byte 0x03, encodeValType c t, put_byte (if mut then 0x01 else 0x00)]
        | ImportTag t \<Rightarrow> [when_valid c (vSignature t), put_byte 0x04, put_byte 0x00, put_int t]))"

fun export_kind_byte :: "export_kind \<Rightarrow> int" where
  "export_kind_byte EkFunc = 0x00"
| "export_kind_byte EkTable = 0x01"
| "export_kind_byte EkMemory = 0x02"
| "export_kind_byte EkTag = 0x04"
| "export_kind_byte EkGlobal = 0x03"

definition resolve_export :: "emit_ctx \<Rightarrow> wasm_export \<Rightarrow> wasm_error + int" where
  "resolve_export c exp =
     (case we_kind exp of
        EkFunc \<Rightarrow> fIdx c (we_index exp) | EkGlobal \<Rightarrow> Inr (gIdx c (we_index exp)) | _ \<Rightarrow> Inr (we_index exp))"

fun vExport :: "export_kind \<Rightarrow> int \<Rightarrow> check" where
  "vExport EkFunc i = vFunc i"
| "vExport EkGlobal i = vGlobal i"
| "vExport EkTable i = vTable i"
| "vExport EkTag i = vTag i"
| "vExport EkMemory i = vMemory i"

definition encodeExport :: "emit_ctx \<Rightarrow> wasm_export \<Rightarrow> writer" where
  "encodeExport c exp e =
     bindE (resolve_export c exp) (\<lambda>resolved.
       steps [when_valid c (vExport (we_kind exp) resolved), put_name (we_name exp),
              put_byte (export_kind_byte (we_kind exp)), put_int resolved] e)"

text \<open>\<^verbatim>\<open>groupLocals\<close> merges neighbours of the same kind, whatever their brands, under the type of the first.\<close>

definition valTypeEq :: "val_type \<Rightarrow> val_type \<Rightarrow> bool" where
  "valTypeEq a b = (case (a, b) of (VI32 _, VI32 _) \<Rightarrow> True | (VI64 _, VI64 _) \<Rightarrow> True | _ \<Rightarrow> a = b)"

definition add_local :: "val_type \<Rightarrow> (nat \<times> val_type) list \<Rightarrow> (nat \<times> val_type) list" where
  "add_local t groups =
     (if groups \<noteq> [] \<and> valTypeEq (snd (last groups)) t then
        butlast groups @ [(fst (last groups) + 1, snd (last groups))]
      else groups @ [(1, t)])"

definition groupLocals :: "(js_string \<times> val_type) list \<Rightarrow> (nat \<times> val_type) list" where
  "groupLocals locals = fold (\<lambda>(_, t). add_local t) locals []"

section \<open>Instructions\<close>

text \<open>The little-endian layouts of \<^verbatim>\<open>DataView.setFloat64\<close> and \<^verbatim>\<open>setFloat32\<close>.\<close>

record 'f float_layout =
  fl_f64 :: "'f \<Rightarrow> byte list"
  fl_f32 :: "'f \<Rightarrow> byte list"

fun put_op :: "op_write \<Rightarrow> writer" where
  "put_op (B n) = put_byte n"
| "put_op (U n) = put_int n"

text \<open>A case of the switch: its checks, its opcode, its fields.\<close>

definition encode_op :: "op_table \<Rightarrow> string \<Rightarrow> writer list \<Rightarrow> writer list \<Rightarrow> writer" where
  "encode_op table op checks operands =
     (case map_of table op of
        Some ws \<Rightarrow> steps (checks @ map put_op ws @ operands)
      | None \<Rightarrow> (\<lambda>_. Inl (Thrown (str ''encodeInstr: unknown op '' @ quote_str (str op)))))"

fun catch_code :: "catch_kind \<Rightarrow> int" where
  "catch_code CkCatch = 0x00"
| "catch_code CkCatchRef = 0x01"
| "catch_code CkCatchAll = 0x02"
| "catch_code CkCatchAllRef = 0x03"

fun catch_name :: "catch_kind \<Rightarrow> string" where
  "catch_name CkCatch = ''catch''"
| "catch_name CkCatchRef = ''catch_ref''"
| "catch_name CkCatchAll = ''catch_all''"
| "catch_name CkCatchAllRef = ''catch_all_ref''"

fun names_tag :: "catch_kind \<Rightarrow> bool" where
  "names_tag CkCatch = True"
| "names_tag CkCatchRef = True"
| "names_tag _ = False"

definition missing_tag :: "catch_kind \<Rightarrow> wasm_error" where
  "missing_tag k = Thrown (str (''try_table '' @ catch_name k @ '' is missing a tag index''))"

definition encode_catch :: "emit_ctx \<Rightarrow> try_table_catch \<Rightarrow> writer" where
  "encode_catch c clause =
     steps ([put_byte (catch_code (tt_kind clause))] @
       (if names_tag (tt_kind clause) then
          (case tt_tagIdx clause of
             None \<Rightarrow> [\<lambda>_. Inl (missing_tag (tt_kind clause))]
           | Some t \<Rightarrow> [when_valid c (vTag t), put_int t])
        else []) @
       [put_int (tt_depth clause)])"

fun is_val :: "block_type \<Rightarrow> bool" where
  "is_val (BtVal _) = True"
| "is_val _ = False"

text \<open>The checks of the instructions with a type field: signatures for the two calls, any type otherwise.\<close>

definition vTyped :: "string \<Rightarrow> int \<Rightarrow> check" where
  "vTyped op typeIdx = (if op = ''call_ref'' \<or> op = ''return_call_ref'' then vSignature typeIdx else vType typeIdx)"

fun encodeInstr :: "emit_ctx \<Rightarrow> 'f float_layout \<Rightarrow> 'f instr \<Rightarrow> writer" where
  "encodeInstr c fl (Plain op) = encode_op plain_ops op [] []"
| "encodeInstr c fl (Block bt body) =
     steps ([put_byte 0x02, encodeBlockType c bt] @ map (encodeInstr c fl) body @ [put_byte 0x0b])"
| "encodeInstr c fl (Loop bt body) =
     steps ([put_byte 0x03, encodeBlockType c bt] @ map (encodeInstr c fl) body @ [put_byte 0x0b])"
| "encodeInstr c fl (If bt thn els) =
     steps ([put_byte 0x04, encodeBlockType c bt] @ map (encodeInstr c fl) thn @
       (case els of
          Some (i # is) \<Rightarrow> put_byte 0x05 # map (encodeInstr c fl) (i # is)
        | _ \<Rightarrow> if is_val bt then [put_byte 0x05, put_byte 0x00] else []) @
       [put_byte 0x0b])"
| "encodeInstr c fl (Depth op depth) = encode_op depth_ops op [] [put_int depth]"
| "encodeInstr c fl (BrTable targets defaultDepth) =
     steps ([put_byte 0x0e, put_int (int (length targets))] @ map (\<lambda>t. put_int t) targets @ [put_int defaultDepth])"
| "encodeInstr c fl (Func op funcIdx) =
     with_func c funcIdx (\<lambda>target. encode_op func_ops op [when_valid c (vFunc target)] [put_int target])"
| "encodeInstr c fl (CallIndirect typeIdx tableIdx) =
     steps [when_valid c (vSignature typeIdx), when_valid c (vTable tableIdx), put_byte 0x11, put_int typeIdx, put_int tableIdx]"
| "encodeInstr c fl (Local op index) = encode_op local_ops op [when_valid c (vLocal op index)] [put_int index]"
| "encodeInstr c fl (Global op index) =
     encode_op global_ops op [when_valid c (vGlobal (gIdx c index))] [put_int (gIdx c index)]"
| "encodeInstr c fl (I32Const v) = steps [put_byte 0x41, i32 v]"
| "encodeInstr c fl (I64Const v) = steps [put_byte 0x42, i64 v]"
| "encodeInstr c fl (F64Const v) = steps [put_byte 0x44, f64 (fl_f64 fl) v]"
| "encodeInstr c fl (F32Const v) = steps [put_byte 0x43, f32 (fl_f32 fl) v]"
| "encodeInstr c fl (Heap op typeIdx) = encode_op heap_ops op [when_valid c (vHeapType typeIdx)] [i32 typeIdx]"
| "encodeInstr c fl (Typed op typeIdx) = encode_op typed_ops op [when_valid c (vTyped op typeIdx)] [put_int typeIdx]"
| "encodeInstr c fl (Field op typeIdx fieldIdx) =
     encode_op field_ops op [when_valid c (vStructField typeIdx fieldIdx (str op))] [put_int typeIdx, put_int fieldIdx]"
| "encodeInstr c fl (ArrayNewFixed typeIdx len) =
     steps [when_valid c (vType typeIdx), put_byte 0xfb, put_byte 0x08, put_int typeIdx, put_int len]"
| "encodeInstr c fl (ArrayCopy dst src) =
     steps [when_valid c (vType dst), when_valid c (vType src), put_byte 0xfb, put_byte 0x11, put_int dst, put_int src]"
| "encodeInstr c fl (MemoryInit dataIdx) = steps [put_byte 0xfc, put_int 0x08, put_int dataIdx, put_byte 0x00]"
| "encodeInstr c fl (DataDrop dataIdx) = steps [put_byte 0xfc, put_int 0x09, put_int dataIdx]"
| "encodeInstr c fl (Throw tagIdx) = steps [when_valid c (vTag tagIdx), put_byte 0x08, put_int tagIdx]"
| "encodeInstr c fl (TryTable bt body catches) =
     steps ([put_byte 0x1f, encodeBlockType c bt, put_int (int (length catches))] @ map (encode_catch c) catches @
       map (encodeInstr c fl) body @ [put_byte 0x0b])"
| "encodeInstr c fl (Try bt body catches catchAll) =
     steps ([put_byte 0x06, encodeBlockType c bt] @ map (encodeInstr c fl) body @
       concat (map (\<lambda>(tagIdx, cbody).
         [when_valid c (vTag tagIdx), put_byte 0x07, put_int tagIdx] @ map (encodeInstr c fl) cbody) catches) @
       (case catchAll of None \<Rightarrow> [] | Some cbody \<Rightarrow> put_byte 0x19 # map (encodeInstr c fl) cbody) @
       [put_byte 0x0b])"
| "encodeInstr c fl (Mem op align offset) = encode_op mem_ops op [] [put_int align, put_int offset]"
| "encodeInstr c fl (V128Const bs) = steps [put_byte 0xfd, put_int 0x0c, v128 (map word_of_nat bs)]"
| "encodeInstr c fl (Lane op lane) = encode_op lane_ops op [] [put_byte lane]"
| "encodeInstr c fl (Shuffle lanes) = steps ([put_byte 0xfd, put_int 0x0d] @ map put_byte lanes)"

definition encodeGlobal :: "emit_ctx \<Rightarrow> 'f float_layout \<Rightarrow> 'f global_def \<Rightarrow> writer" where
  "encodeGlobal c fl g =
     steps ([encodeValType c (gd_type g), put_byte (if gd_mutable g then 0x01 else 0x00)] @
       map (encodeInstr c fl) (gd_init g) @ [put_byte 0x0b])"

definition put_locals :: "emit_ctx \<Rightarrow> (js_string \<times> val_type) list \<Rightarrow> writer" where
  "put_locals c locals = put_vector (groupLocals locals) (\<lambda>(n, t). steps [put_int (int n), encodeValType c t])"

definition put_sized :: "encoder \<Rightarrow> writer" where
  "put_sized body = steps [put_int (int (length (enc_finish body))), put_bytes (Uint8Array (enc_finish body))]"

definition encodeFunction :: "emit_ctx \<Rightarrow> 'f float_layout \<Rightarrow> 'f wasm_function \<Rightarrow> writer" where
  "encodeFunction c fl f e =
     bindE (steps ([put_locals c (fn_locals f)] @ map (encodeInstr c fl) (fn_body f) @ [put_byte 0x0b]) new_encoder)
       (\<lambda>body. put_sized body e)"

end
