(* ===== verification/Emit_Valid.thy ===== *)
theory Emit_Valid
  imports Wasm_Emit
begin

text \<open>
  Index validation of the binary emitter. \<open>instr_in_range\<close> and its companions say, without the encoder's control
  flow, which indices of an instruction or a record must lie in which index space; the lemmas show that
  an armed encoder succeeds exactly when the unarmed one does and these hold, with the same result. So
  validation never changes bytes, never rejects a module whose indices are in range, and lets no index of the
  spaces it covers out of range through. Data segment indices, branch depths and lane numbers are not among
  them, nor are locals outside function bodies (\<open>vc_maxLocals\<close> is negative there): those clauses are \<open>True\<close>.
\<close>

section \<open>Indices in range\<close>

definition below :: "nat \<Rightarrow> int \<Rightarrow> bool" where
  "below n i \<longleftrightarrow> 0 \<le> i \<and> i < int n"

definition heap_in_range :: "val_ctx \<Rightarrow> int \<Rightarrow> bool" where
  "heap_in_range v t \<longleftrightarrow> t < int (vc_numTypes v) \<and> - 64 \<le> t \<and> t \<noteq> - 1"

fun val_in_range :: "val_ctx \<Rightarrow> val_type \<Rightarrow> bool" where
  "val_in_range v (VRef t) = heap_in_range v t"
| "val_in_range v (VRefNull t) = heap_in_range v t"
| "val_in_range v _ = True"

definition signature_at :: "val_ctx \<Rightarrow> int \<Rightarrow> bool" where
  "signature_at v t \<longleftrightarrow>
     below (vc_numTypes v) t \<and> (case resolveTypeDefAt v t of Some (FuncTypeDef _ _ _) \<Rightarrow> True | _ \<Rightarrow> False)"

definition field_at :: "val_ctx \<Rightarrow> int \<Rightarrow> int \<Rightarrow> bool" where
  "field_at v t f \<longleftrightarrow>
     below (vc_numTypes v) t \<and> (case resolveTypeDefAt v t of Some (StructTypeDef _ fs _ _) \<Rightarrow> below (length fs) f | _ \<Rightarrow> True)"

fun block_in_range :: "val_ctx \<Rightarrow> block_type \<Rightarrow> bool" where
  "block_in_range v BtEmpty = True"
| "block_in_range v (BtVal t) = val_in_range v t"
| "block_in_range v (BtType t) = signature_at v t"

fun type_in_range :: "val_ctx \<Rightarrow> type_def \<Rightarrow> bool" where
  "type_in_range v (FuncTypeDef _ params results) = (list_all (val_in_range v) params \<and> list_all (val_in_range v) results)"
| "type_in_range v (StructTypeDef _ fs parent _) =
     ((case parent of None \<Rightarrow> True | Some s \<Rightarrow> 0 \<le> s \<longrightarrow> below (vc_numTypes v) s) \<and> list_all (\<lambda>f. val_in_range v (fd_type f)) fs)"
| "type_in_range v (ArrayTypeDef _ t _) = val_in_range v t"
| "type_in_range v (RecGroupDef types) = list_all (type_in_range v) types"
| "type_in_range v (SubTypeDef _ parent _ t) =
     ((case parent of None \<Rightarrow> True | Some s \<Rightarrow> below (vc_numTypes v) s) \<and> type_in_range v t)"

definition import_in_range :: "val_ctx \<Rightarrow> wasm_import \<Rightarrow> bool" where
  "import_in_range v imp =
     (case wi_desc imp of
        ImportFunc t \<Rightarrow> signature_at v t | ImportTag t \<Rightarrow> signature_at v t | ImportGlobal t _ \<Rightarrow> val_in_range v t | _ \<Rightarrow> True)"

text \<open>A function handle that does not resolve is not out of range: the encoder throws with or without validation.\<close>

definition func_in_range :: "emit_ctx \<Rightarrow> val_ctx \<Rightarrow> int \<Rightarrow> bool" where
  "func_in_range c v h = (case fIdx c h of Inl _ \<Rightarrow> True | Inr i \<Rightarrow> below (vc_numFuncs v) i)"

definition export_in_range :: "emit_ctx \<Rightarrow> val_ctx \<Rightarrow> wasm_export \<Rightarrow> bool" where
  "export_in_range c v exp =
     (case we_kind exp of
        EkFunc \<Rightarrow> func_in_range c v (we_index exp)
      | EkGlobal \<Rightarrow> below (vc_numGlobals v) (gIdx c (we_index exp))
      | EkTable \<Rightarrow> below (vc_numTables v) (we_index exp)
      | EkTag \<Rightarrow> below (vc_numTags v) (we_index exp)
      | EkMemory \<Rightarrow> below (vc_numMemories v) (we_index exp))"

definition catch_in_range :: "val_ctx \<Rightarrow> try_table_catch \<Rightarrow> bool" where
  "catch_in_range v clause =
     (if names_tag (tt_kind clause) then (case tt_tagIdx clause of None \<Rightarrow> True | Some t \<Rightarrow> below (vc_numTags v) t) else True)"

fun instr_in_range :: "emit_ctx \<Rightarrow> val_ctx \<Rightarrow> 'f instr \<Rightarrow> bool" where
  "instr_in_range c v (Block bt _) = block_in_range v bt"
| "instr_in_range c v (Loop bt _) = block_in_range v bt"
| "instr_in_range c v (If bt _ _) = block_in_range v bt"
| "instr_in_range c v (Func _ h) = func_in_range c v h"
| "instr_in_range c v (CallIndirect t tb) = (signature_at v t \<and> below (vc_numTables v) tb)"
| "instr_in_range c v (Local _ i) = (0 \<le> vc_maxLocals v \<longrightarrow> 0 \<le> i \<and> i < vc_maxLocals v)"
| "instr_in_range c v (Global _ g) = below (vc_numGlobals v) (gIdx c g)"
| "instr_in_range c v (Heap _ t) = heap_in_range v t"
| "instr_in_range c v (Typed op t) =
     (if op = ''call_ref'' \<or> op = ''return_call_ref'' then signature_at v t else below (vc_numTypes v) t)"
| "instr_in_range c v (Field _ t f) = field_at v t f"
| "instr_in_range c v (ArrayNewFixed t _) = below (vc_numTypes v) t"
| "instr_in_range c v (ArrayCopy d s) = (below (vc_numTypes v) d \<and> below (vc_numTypes v) s)"
| "instr_in_range c v (Throw t) = below (vc_numTags v) t"
| "instr_in_range c v (TryTable bt _ catches) = (block_in_range v bt \<and> list_all (catch_in_range v) catches)"
| "instr_in_range c v (Try bt _ catches _) = (block_in_range v bt \<and> list_all (\<lambda>(t, _). below (vc_numTags v) t) catches)"
| "instr_in_range c v (Plain _) = True"
| "instr_in_range c v (Depth _ _) = True"
| "instr_in_range c v (BrTable _ _) = True"
| "instr_in_range c v (I32Const _) = True"
| "instr_in_range c v (I64Const _) = True"
| "instr_in_range c v (F64Const _) = True"
| "instr_in_range c v (F32Const _) = True"
| "instr_in_range c v (MemoryInit _) = True"
| "instr_in_range c v (DataDrop _) = True"
| "instr_in_range c v (Mem _ _ _) = True"
| "instr_in_range c v (V128Const _) = True"
| "instr_in_range c v (Lane _ _) = True"
| "instr_in_range c v (Shuffle _) = True"

text \<open>Every instruction of a body, at any depth.\<close>

definition body_in_range :: "emit_ctx \<Rightarrow> val_ctx \<Rightarrow> 'f instr list \<Rightarrow> bool" where
  "body_in_range c v body = list_all (instr_in_range c v) (walkInstructions body)"

definition tree_in_range :: "emit_ctx \<Rightarrow> val_ctx \<Rightarrow> 'f instr \<Rightarrow> bool" where
  "tree_in_range c v i = body_in_range c v [i]"

section \<open>Guarded writers\<close>

definition guarded :: "bool \<Rightarrow> writer \<Rightarrow> writer \<Rightarrow> bool" where
  "guarded P w w0 \<longleftrightarrow> (\<forall>e e'. w e = Inr e' \<longleftrightarrow> P \<and> w0 e = Inr e')"

named_theorems guard \<open>guarded writers\<close>

lemma guarded_eq: "guarded P w w0 \<Longrightarrow> P = Q \<Longrightarrow> guarded Q w w0"
  by simp

lemma guarded_refl [guard]: "guarded True w w"
  by (simp add: guarded_def)

lemma guarded_bind: "guarded P f f0 \<Longrightarrow> guarded Q g g0 \<Longrightarrow> guarded (P \<and> Q) (\<lambda>e. bindE (f e) g) (\<lambda>e. bindE (f0 e) g0)"
  by (auto simp: guarded_def bindE_eq_Inr)

lemma guarded_Cons: "guarded P w w0 \<Longrightarrow> guarded Q (steps ws) (steps ws0) \<Longrightarrow> guarded (P \<and> Q) (steps (w # ws)) (steps (w0 # ws0))"
  using guarded_bind [of P w w0 Q "steps ws" "steps ws0"] by (simp add: guarded_def)

lemma steps_append: "steps (xs @ ys) = (\<lambda>e. bindE (steps xs e) (steps ys))"
proof (induction xs)
  case (Cons x xs)
  show ?case by (rule ext) (simp add: bindE_assoc Cons.IH)
qed (simp add: fun_eq_iff)

lemma steps_Cons: "steps (w # ws) = (\<lambda>e. bindE (w e) (steps ws))"
  by (rule ext) simp

lemma guarded_append:
  "guarded P (steps xs) (steps xs0) \<Longrightarrow> guarded Q (steps ys) (steps ys0) \<Longrightarrow> guarded (P \<and> Q) (steps (xs @ ys)) (steps (xs0 @ ys0))"
  using guarded_bind [of P "steps xs" "steps xs0" Q "steps ys" "steps ys0"] by (simp add: guarded_def steps_append)

lemma guarded_map:
  assumes "\<And>x. x \<in> set xs \<Longrightarrow> guarded (P x) (f x) (g x)"
  shows "guarded (list_all P xs) (steps (map f xs)) (steps (map g xs))"
  using assms
proof (induction xs)
  case Nil
  show ?case by (simp add: guarded_refl)
next
  case (Cons x xs)
  have "guarded (P x \<and> list_all P xs) (steps (f x # map f xs)) (steps (g x # map g xs))"
    by (rule guarded_Cons) (simp_all add: Cons)
  then show ?case by (simp only: list.pred_inject list.map)
qed

lemma guarded_concat:
  assumes "\<And>x. x \<in> set xs \<Longrightarrow> guarded (P x) (steps (f x)) (steps (g x))"
  shows "guarded (list_all P xs) (steps (concat (map f xs))) (steps (concat (map g xs)))"
  using assms
proof (induction xs)
  case Nil
  show ?case by (simp add: guarded_refl)
next
  case (Cons x xs)
  have "guarded (P x \<and> list_all P xs) (steps (f x @ concat (map f xs))) (steps (g x @ concat (map g xs)))"
    by (rule guarded_append) (simp_all add: Cons)
  then show ?case by (simp only: list.pred_inject list.map concat.simps)
qed

lemma guarded_vector [guard]:
  assumes "\<And>x. x \<in> set xs \<Longrightarrow> guarded (P x) (f x) (g x)"
  shows "guarded (list_all P xs) (put_vector xs f) (put_vector xs g)"
proof -
  have "guarded (True \<and> list_all P xs) (put_vector xs f) (put_vector xs g)"
    unfolding put_vector_def for_each_def by (intro guarded_bind guarded_refl guarded_map assms)
  then show ?thesis by simp
qed

lemma guarded_sub:
  assumes "guarded P f f0"
  shows "guarded P (\<lambda>e. bindE (f e0) (\<lambda>sub. k sub e)) (\<lambda>e. bindE (f0 e0) (\<lambda>sub. k sub e))"
  using assms by (auto simp: guarded_def bindE_eq_Inr)

lemma guarded_section [guard]: "guarded P f f0 \<Longrightarrow> guarded P (put_section n f) (put_section n f0)"
  unfolding put_section_def Let_def by (rule guarded_sub)

abbreviation unarmed :: "emit_ctx \<Rightarrow> emit_ctx" where
  "unarmed c \<equiv> c\<lparr>ec_val := None\<rparr>"

lemma unarmed_idx [simp]: "fIdx (unarmed c) = fIdx c" "gIdx (unarmed c) = gIdx c" "with_func (unarmed c) = with_func c"
  by (simp_all add: fun_eq_iff fIdx_def gIdx_def with_func_def)

lemma guarded_check: "ec_val c = Some v \<Longrightarrow> guarded (chk v = None) (when_valid c chk) (when_valid (unarmed c) chk)"
  by (auto simp: guarded_def when_valid_def split: option.splits)

section \<open>The checks\<close>

lemma vIdx_None: "vIdx space i mx v = None \<longleftrightarrow> 0 \<le> i \<and> i < mx v"
  by (auto simp: vIdx_def)

lemma vType_None: "vType t v = None \<longleftrightarrow> below (vc_numTypes v) t"
  by (simp add: vType_def vIdx_None below_def)

lemma vHeapType_None: "vHeapType t v = None \<longleftrightarrow> heap_in_range v t"
  by (auto simp: vHeapType_def heap_in_range_def Let_def)

lemma vSignature_None: "vSignature t v = None \<longleftrightarrow> signature_at v t"
  by (auto simp: vSignature_def signature_at_def simp flip: vType_None split: option.splits type_def.splits)

lemma vStructField_None: "vStructField t f op v = None \<longleftrightarrow> field_at v t f"
  by (auto simp: vStructField_def field_at_def vIdx_None below_def [of "length _"] simp flip: vType_None
    split: option.splits type_def.splits)

lemma vLocal_None: "vLocal op i v = None \<longleftrightarrow> (0 \<le> vc_maxLocals v \<longrightarrow> 0 \<le> i \<and> i < vc_maxLocals v)"
  by (simp add: vLocal_def vIdx_None)

lemmas checks_None = vIdx_None vType_None vHeapType_None vSignature_None vStructField_None vLocal_None

section \<open>The encoders\<close>

lemma guarded_Nil: "guarded True (steps []) (steps [])"
  by (rule guarded_refl)

lemmas guarded_seq = guarded_refl guarded_Nil guarded_Cons guarded_append

text \<open>The encoders under an armed context \<open>c\<close>.\<close>

locale armed_emit =
  fixes c :: emit_ctx and v :: val_ctx
  assumes armed: "ec_val c = Some v"
begin

lemmas guarded_step = guarded_seq guarded_check [OF armed]

lemma guarded_val: "guarded (val_in_range v t) (encodeValType c t) (encodeValType (unarmed c) t)"
proof (cases t)
  case (VRef x)
  show ?thesis unfolding VRef encodeValType.simps
    by (rule guarded_eq, (rule guarded_step)+) (simp add: checks_None)
next
  case (VRefNull x)
  show ?thesis unfolding VRefNull encodeValType.simps
    by (rule guarded_eq, (rule guarded_step)+) (simp add: checks_None)
qed (simp_all add: guarded_refl)

lemma guarded_storage: "guarded (val_in_range v t) (encodeStorageType c t) (encodeStorageType (unarmed c) t)"
  using guarded_val [of t] by (auto simp: encodeStorageType_def guarded_refl)

lemma guarded_field: "guarded (val_in_range v (fd_type f)) (encodeFieldDef c f) (encodeFieldDef (unarmed c) f)"
  unfolding encodeFieldDef_def by (rule guarded_eq, (rule guarded_step guarded_storage)+) simp

lemma guarded_type: "guarded (type_in_range v t) (encodeTypeDef c t) (encodeTypeDef (unarmed c) t)"
proof (induction t)
  case (FuncTypeDef name ps rs)
  show ?case unfolding encodeTypeDef.simps
    by (rule guarded_eq, (rule guarded_step guarded_vector guarded_val)+) simp
next
  case (StructTypeDef n fs parent fin)
  show ?case
  proof (cases parent)
    case None
    show ?thesis unfolding encodeTypeDef.simps None option.case
      by (rule guarded_eq, (rule guarded_step guarded_vector guarded_field)+) simp
  next
    case (Some s)
    have "guarded (0 \<le> s \<longrightarrow> below (vc_numTypes v) s)
      (steps (if 0 \<le> s then [when_valid c (vSuper s), put_int 1, put_int s] else [put_int 0]))
      (steps (if 0 \<le> s then [when_valid (unarmed c) (vSuper s), put_int 1, put_int s] else [put_int 0]))"
    proof (cases "0 \<le> s")
      case True
      then show ?thesis unfolding if_P [OF True]
        by - (rule guarded_eq, (rule guarded_step)+, simp add: checks_None below_def)
    qed (simp add: guarded_refl)
    then show ?thesis unfolding encodeTypeDef.simps Some option.case
      by - (rule guarded_eq, (assumption | rule guarded_step guarded_vector guarded_field)+, simp add: Some)
  qed
next
  case (ArrayTypeDef n t m)
  show ?case unfolding encodeTypeDef.simps
    by (rule guarded_eq, (rule guarded_step guarded_storage)+) simp
next
  case (RecGroupDef ts)
  show ?case unfolding encodeTypeDef.simps
    by (rule guarded_eq, (rule guarded_step guarded_map RecGroupDef | assumption)+) simp
next
  case (SubTypeDef n parent fin t)
  show ?case
  proof (cases parent)
    case None
    show ?thesis unfolding encodeTypeDef.simps None option.case
      by (rule guarded_eq, (rule guarded_step SubTypeDef)+) simp
  next
    case (Some s)
    show ?thesis unfolding encodeTypeDef.simps Some option.case
      by (rule guarded_eq, (rule guarded_step SubTypeDef)+) (simp add: checks_None below_def)
  qed
qed

lemma guarded_block: "guarded (block_in_range v bt) (encodeBlockType c bt) (encodeBlockType (unarmed c) bt)"
proof (cases bt)
  case (BtType t)
  show ?thesis unfolding BtType encodeBlockType.simps
    by (rule guarded_eq, (rule guarded_step)+) (auto simp: checks_None signature_at_def below_def)
qed (simp_all add: guarded_refl guarded_val)

lemma guarded_import: "guarded (import_in_range v imp) (encodeImport c imp) (encodeImport (unarmed c) imp)"
  unfolding encodeImport_def
proof (cases "wi_desc imp", goal_cases)
  case (1 t)
  show ?case unfolding 1 import_desc.case
    by (rule guarded_eq, (rule guarded_step)+) (simp add: checks_None import_in_range_def 1)
next
  case (3 t m)
  show ?case unfolding 3 import_desc.case
    by (rule guarded_eq, (rule guarded_step guarded_val)+) (simp add: checks_None import_in_range_def 3)
next
  case (5 t)
  show ?case unfolding 5 import_desc.case
    by (rule guarded_eq, (rule guarded_step)+) (simp add: checks_None import_in_range_def 5)
qed (simp_all add: import_in_range_def guarded_refl)

lemma guarded_export: "guarded (export_in_range c v exp) (encodeExport c exp) (encodeExport (unarmed c) exp)"
proof -
  have same: "resolve_export (unarmed c) exp = resolve_export c exp" by (cases "we_kind exp") (simp_all add: resolve_export_def)
  show ?thesis
  proof (cases "resolve_export c exp")
    case (Inl err)
    then show ?thesis by (simp add: guarded_def encodeExport_def same)
  next
    case (Inr i)
    have "(vExport (we_kind exp) i v = None) = export_in_range c v exp"
      using Inr by (cases "we_kind exp")
        (auto simp: resolve_export_def export_in_range_def func_in_range_def checks_None below_def split: sum.splits)
    then show ?thesis unfolding encodeExport_def [abs_def] same Inr bindE_Inr
      by - (rule guarded_eq, (rule guarded_step)+, simp)
  qed
qed

lemma guarded_catch: "guarded (catch_in_range v cl) (encode_catch c cl) (encode_catch (unarmed c) cl)"
proof (cases "names_tag (tt_kind cl)")
  case True
  show ?thesis
  proof (cases "tt_tagIdx cl")
    case None
    with True show ?thesis by (simp add: encode_catch_def guarded_def catch_in_range_def bindE_eq_Inr)
  next
    case (Some t)
    show ?thesis unfolding encode_catch_def Some option.case if_P [OF True]
      by (rule guarded_eq, (rule guarded_step)+) (simp add: checks_None catch_in_range_def True Some below_def)
  qed
next
  case False
  then show ?thesis by (simp add: encode_catch_def catch_in_range_def guarded_refl)
qed

lemma guarded_op:
  assumes "guarded P (steps cks) (steps cks0)"
  shows "guarded P (encode_op table op cks operands) (encode_op table op cks0 operands)"
proof (cases "map_of table op")
  case (Some ws)
  show ?thesis unfolding encode_op_def Some option.case
    by (rule guarded_eq, (rule guarded_step assms)+) simp
qed (simp add: encode_op_def guarded_def)

lemma guarded_op_check:
  assumes "(chk v = None) = P"
  shows "guarded P (encode_op table op [when_valid c chk] operands) (encode_op table op [when_valid (unarmed c) chk] operands)"
proof (rule guarded_op)
  show "guarded P (steps [when_valid c chk]) (steps [when_valid (unarmed c) chk])"
    by (rule guarded_eq, (rule guarded_step)+) (simp add: assms)
qed

lemma body_trees: "body_in_range c v body = list_all (tree_in_range c v) body"
  unfolding body_in_range_def tree_in_range_def by (rule walk_body)

lemma tree_children: "tree_in_range c v i = (instr_in_range c v i \<and> list_all (body_in_range c v) (walkChildren i))"
  unfolding body_in_range_def tree_in_range_def by (rule walk_tree)

lemmas tree_nodes =
  tree_children [where i = "Block bt body" for bt body]
  tree_children [where i = "Loop bt body" for bt body]
  tree_children [where i = "If bt thn els" for bt thn els]
  tree_children [where i = "TryTable bt body catches" for bt body catches]
  tree_children [where i = "Try bt body catches catchAll" for bt body catches catchAll]

lemma guarded_instr: "guarded (tree_in_range c v i) (encodeInstr c fl i) (encodeInstr (unarmed c) fl i)"
proof (induction i)
  case (Block bt body)
  show ?case unfolding encodeInstr.simps
    by (rule guarded_eq, (rule guarded_step guarded_block guarded_map Block | assumption)+) (simp add: tree_nodes body_trees)
next
  case (Loop bt body)
  show ?case unfolding encodeInstr.simps
    by (rule guarded_eq, (rule guarded_step guarded_block guarded_map Loop | assumption)+) (simp add: tree_nodes body_trees)
next
  case (Func op h)
  show ?case
  proof (cases "fIdx c h")
    case (Inl err)
    then show ?thesis by (simp add: guarded_def with_func_def)
  next
    case (Inr i)
    then show ?thesis
      by (simp add: with_func_def [abs_def] eta_contract_eq)
         (rule guarded_op_check, simp add: checks_None tree_children func_in_range_def below_def)
  qed
next
  case (CallIndirect t tb)
  show ?case unfolding encodeInstr.simps
    by (rule guarded_eq, (rule guarded_step)+) (simp add: checks_None tree_children below_def)
next
  case (Local op i)
  show ?case unfolding encodeInstr.simps by (rule guarded_op_check) (simp add: checks_None tree_children)
next
  case (Global op i)
  show ?case unfolding encodeInstr.simps unarmed_idx
    by (rule guarded_op_check) (simp add: checks_None tree_children below_def)
next
  case (Heap op i)
  show ?case unfolding encodeInstr.simps by (rule guarded_op_check) (simp add: checks_None tree_children)
next
  case (Typed op i)
  show ?case unfolding encodeInstr.simps by (rule guarded_op_check) (simp add: vTyped_def checks_None tree_children)
next
  case (Field op t f)
  show ?case unfolding encodeInstr.simps by (rule guarded_op_check) (simp add: checks_None tree_children)
next
  case (ArrayNewFixed t n)
  show ?case unfolding encodeInstr.simps
    by (rule guarded_eq, (rule guarded_step)+) (simp add: checks_None tree_children)
next
  case (ArrayCopy d s)
  show ?case unfolding encodeInstr.simps
    by (rule guarded_eq, (rule guarded_step)+) (simp add: checks_None tree_children)
next
  case (Throw t)
  show ?case unfolding encodeInstr.simps
    by (rule guarded_eq, (rule guarded_step)+) (simp add: checks_None tree_children below_def)
next
  case (TryTable bt body catches)
  show ?case unfolding encodeInstr.simps
    by (rule guarded_eq, (rule guarded_step guarded_block guarded_map guarded_catch TryTable | assumption)+)
       (auto simp add: tree_nodes body_trees)
next
  case (If bt thn els)
  have thn: "guarded (list_all (tree_in_range c v) thn) (steps (map (encodeInstr c fl) thn)) (steps (map (encodeInstr (unarmed c) fl) thn))"
    by (rule guarded_map) (rule If)
  show ?case
  proof (cases "\<exists>i is. els = Some (i # is)")
    case True
    then obtain i "is" where els: "els = Some (i # is)" by blast
    have "guarded (list_all (tree_in_range c v) (i # is)) (steps (map (encodeInstr c fl) (i # is)))
        (steps (map (encodeInstr (unarmed c) fl) (i # is)))"
      by (rule guarded_map, rule If(2) [of "i # is"]) (simp_all add: els)
    then show ?thesis unfolding encodeInstr.simps els option.case list.case
      by - (rule guarded_eq, (assumption | rule guarded_step guarded_block thn)+, simp add: tree_nodes body_trees)
  next
    case False
    then have els: "els = None \<or> els = Some []" by (cases els; cases "the els") auto
    then have skip: "(case els of Some (i # is) \<Rightarrow> f i is | _ \<Rightarrow> x) = x" for f :: "'a instr \<Rightarrow> 'a instr list \<Rightarrow> writer list" and x
      by auto
    show ?thesis unfolding encodeInstr.simps skip
      by (rule guarded_eq, (rule guarded_step guarded_block thn)+) (use els in \<open>auto simp: tree_nodes body_trees\<close>)
  qed
next
  case (Try bt body catches catchAll)
  have body: "guarded (list_all (tree_in_range c v) body) (steps (map (encodeInstr c fl) body)) (steps (map (encodeInstr (unarmed c) fl) body))"
    by (rule guarded_map) (rule Try)
  have clause: "guarded (below (vc_numTags v) (fst x) \<and> list_all (tree_in_range c v) (snd x))
      (steps ((\<lambda>(t, b). [when_valid c (vTag t), put_byte 0x07, put_int t] @ map (encodeInstr c fl) b) x))
      (steps ((\<lambda>(t, b). [when_valid (unarmed c) (vTag t), put_byte 0x07, put_int t] @ map (encodeInstr (unarmed c) fl) b) x))"
    if x: "x \<in> set catches" for x
  proof -
    have "guarded (list_all (tree_in_range c v) (snd x)) (steps (map (encodeInstr c fl) (snd x))) (steps (map (encodeInstr (unarmed c) fl) (snd x)))"
      by (rule guarded_map, rule Try(2) [OF x, of "snd x"]) (auto simp: snds.simps)
    then show ?thesis unfolding case_prod_beta
      by - (rule guarded_eq, (assumption | rule guarded_step)+, simp add: checks_None below_def)
  qed
  have all: "guarded (case catchAll of None \<Rightarrow> True | Some b \<Rightarrow> list_all (tree_in_range c v) b)
      (steps (case catchAll of None \<Rightarrow> [] | Some b \<Rightarrow> put_byte 0x19 # map (encodeInstr c fl) b))
      (steps (case catchAll of None \<Rightarrow> [] | Some b \<Rightarrow> put_byte 0x19 # map (encodeInstr (unarmed c) fl) b))"
  proof (cases catchAll)
    case (Some b)
    have "guarded (list_all (tree_in_range c v) b) (steps (map (encodeInstr c fl) b)) (steps (map (encodeInstr (unarmed c) fl) b))"
      by (rule guarded_map, rule Try(3) [of b]) (simp_all add: Some)
    then show ?thesis unfolding Some option.case
      by - (rule guarded_eq, (assumption | rule guarded_step)+, simp)
  qed (simp add: guarded_refl)
  show ?case unfolding encodeInstr.simps
    by (rule guarded_eq, (rule guarded_step guarded_block guarded_concat body all clause | assumption)+)
       (auto simp: tree_nodes body_trees list_all_iff split: option.splits)
qed (simp_all add: tree_children guarded_refl)

lemma guarded_body: "guarded (body_in_range c v body) (steps (map (encodeInstr c fl) body)) (steps (map (encodeInstr (unarmed c) fl) body))"
  unfolding body_trees by (intro guarded_map guarded_instr)

lemma guarded_global:
  "guarded (val_in_range v (gd_type g) \<and> body_in_range c v (gd_init g)) (encodeGlobal c fl g) (encodeGlobal (unarmed c) fl g)"
  unfolding encodeGlobal_def by (rule guarded_eq, (rule guarded_step guarded_val guarded_body)+) simp

text \<open>The grouped locals are checked once per group, which is as good as each.\<close>

lemma valTypeEq_range: "valTypeEq a b \<Longrightarrow> val_in_range v a = val_in_range v b"
  by (cases a; cases b) (simp_all add: valTypeEq_def)

lemma groupLocals_all:
  "list_all (\<lambda>g. val_in_range v (snd g)) (groupLocals locals) = list_all (\<lambda>l. val_in_range v (snd l)) locals"
proof -
  have "list_all (\<lambda>g. val_in_range v (snd g)) (add_local t gs) = (list_all (\<lambda>g. val_in_range v (snd g)) gs \<and> val_in_range v t)" for t gs
    by (cases gs rule: rev_cases) (auto simp: add_local_def dest: valTypeEq_range)
  then have "list_all (\<lambda>g. val_in_range v (snd g)) (fold (\<lambda>(_, t). add_local t) ls gs) =
      (list_all (\<lambda>g. val_in_range v (snd g)) gs \<and> list_all (\<lambda>l. val_in_range v (snd l)) ls)" for ls :: "(js_string \<times> val_type) list" and gs
    by (induction ls arbitrary: gs) (auto simp: case_prod_beta)
  then show ?thesis by (simp add: groupLocals_def)
qed

lemma guarded_locals:
  "guarded (list_all (\<lambda>l. val_in_range v (snd l)) locals) (put_locals c locals) (put_locals (unarmed c) locals)"
proof -
  have item: "guarded (val_in_range v (snd g)) ((\<lambda>(n, t). steps [put_int (int n), encodeValType c t]) g)
      ((\<lambda>(n, t). steps [put_int (int n), encodeValType (unarmed c) t]) g)" for g
    unfolding case_prod_beta by (rule guarded_eq, (rule guarded_step guarded_val)+) simp
  from groupLocals_all show ?thesis unfolding put_locals_def by - (rule guarded_eq, rule guarded_vector, rule item)
qed

lemma guarded_function:
  "guarded (list_all (\<lambda>l. val_in_range v (snd l)) (fn_locals f) \<and> body_in_range c v (fn_body f))
     (encodeFunction c fl f) (encodeFunction (unarmed c) fl f)"
  unfolding encodeFunction_def [abs_def]
  by (rule guarded_sub, rule guarded_eq, (rule guarded_step guarded_locals guarded_body)+) simp

end

interpretation emit: armed_emit "\<lparr>ec_val = Some v, ec_layout = l\<rparr>" v for v l
  by unfold_locales simp

end
