(* ===== verification/Emit_Binary.thy ===== *)
theory Emit_Binary
  imports Emit_Valid
begin

text \<open>
  \<^verbatim>\<open>src/src/emit/binary.ts\<close>, whole modules: \<^verbatim>\<open>emitBinary\<close> with every section, the arming of validation and layout,
  and the labels validation errors carry. The environment variable that skips validation is the argument
  \<open>skip\<close>; the dumps other variables ask for only print. The code section's own byte, size and payload
  writes are those of \<^verbatim>\<open>section\<close>. The lemmas carry exact validation up to modules, and show the
  shape of the output: the header and a list of sized sections in the order of the specification.
\<close>

section \<open>Arming\<close>

fun layout_message :: "layout_error \<Rightarrow> js_string" where
  "layout_message EmptyRecGroup = str ''empty recursive type reservation has no physical member''"
| "layout_message NestedRec = str ''nested rec wrappers are not Wasm subtype members''"
| "layout_message NestedSub = str ''nested rec/sub wrappers are not Wasm subtype members''"
| "layout_message DoubleSub = str ''double subtype wrappers are not Wasm subtype members''"
| "layout_message (TypeIndexRange i n) =
     str ''type index out of range: '' @ show_int i @ str '' (count '' @ show_int (int n) @ str '')''"
| "layout_message (SupertypeOrder s t) =
     str ''supertype '' @ show_int s @ str '' must precede subtype '' @ show_int (int t)"
| "layout_message ForcedInterval = str ''invalid forced type group interval''"
| "layout_message ForcedSplits = str ''forced group would split or merge an explicit rec group''"
| "layout_message MergesExplicit = str ''reference would merge an explicit rec group''"
| "layout_message ForcedMerged = str ''canonical runtime rec-group merged with an adjacent type''"
| "layout_message (MissingReferences _) = str ''references[scan] is not iterable''"

definition from_layout :: "layout_error + 'a \<Rightarrow> wasm_error + 'a" where
  "from_layout r = (case r of Inl e \<Rightarrow> Inl (Thrown (layout_message e)) | Inr x \<Rightarrow> Inr x)"

definition is_global_import :: "wasm_import \<Rightarrow> bool" where
  "is_global_import imp = (case wi_desc imp of ImportGlobal _ _ \<Rightarrow> True | _ \<Rightarrow> False)"

definition is_tag_import :: "wasm_import \<Rightarrow> bool" where
  "is_tag_import imp = (case wi_desc imp of ImportTag _ \<Rightarrow> True | _ \<Rightarrow> False)"

definition is_table_import :: "wasm_import \<Rightarrow> bool" where
  "is_table_import imp = (case wi_desc imp of ImportTable _ _ _ \<Rightarrow> True | _ \<Rightarrow> False)"

definition is_memory_import :: "wasm_import \<Rightarrow> bool" where
  "is_memory_import imp = (case wi_desc imp of ImportMemory _ _ \<Rightarrow> True | _ \<Rightarrow> False)"

definition makeValidationCtx :: "'f wasm_module \<Rightarrow> wasm_error + val_ctx" where
  "makeValidationCtx md =
     bindE (from_layout (indexPhysicalTypes (md_types md))) (\<lambda>table.
       let flatTypes = map pe_definition (tt_entries table) in
       Inr \<lparr>vc_numFuncs = length (filter is_func_import (md_imports md)) + length (md_functions md),
            vc_numTypes = length flatTypes,
            vc_numGlobals = length (filter is_global_import (md_imports md)) + length (md_globals md),
            vc_numTags = length (filter is_tag_import (md_imports md)) + length (md_tags md),
            vc_numTables = length (filter is_table_import (md_imports md)) + length (md_tables md),
            vc_numMemories = length (filter is_memory_import (md_imports md)) + length (md_memories md),
            vc_flatTypes = flatTypes, vc_where = str ''module'', vc_maxLocals = - 1\<rparr>)"

text \<open>Assignments to \<^verbatim>\<open>valCtx.where\<close> and \<^verbatim>\<open>valCtx.maxLocals\<close>.\<close>

definition at_where :: "js_string \<Rightarrow> emit_ctx \<Rightarrow> emit_ctx" where
  "at_where w c = c\<lparr>ec_val := map_option (\<lambda>v. v\<lparr>vc_where := w\<rparr>) (ec_val c)\<rparr>"

definition in_frame :: "(val_ctx \<Rightarrow> int) \<Rightarrow> emit_ctx \<Rightarrow> emit_ctx" where
  "in_frame n c = c\<lparr>ec_val := map_option (\<lambda>v. v\<lparr>vc_maxLocals := n v\<rparr>) (ec_val c)\<rparr>"

definition apostrophes :: "js_string \<Rightarrow> js_string" where
  "apostrophes s = [39] @ s @ [39]"

definition or_unnamed :: "js_string \<Rightarrow> js_string" where
  "or_unnamed s = (if s = [] then str ''?'' else s)"

section \<open>Sections\<close>

definition section_if :: "bool \<Rightarrow> int \<Rightarrow> writer \<Rightarrow> writer list" where
  "section_if b ident content = (if b then [put_section ident content] else [])"

definition forced_groups :: "'f wasm_module \<Rightarrow> (int \<times> int) list" where
  "forced_groups md = (case md_canonicalRuntimeRecGroup md of None \<Rightarrow> [] | Some g \<Rightarrow> [g])"

definition put_group :: "emit_ctx \<Rightarrow> physical_type_table \<Rightarrow> type_group \<Rightarrow> writer list" where
  "put_group c table g =
     (if tg_recursive g then [put_byte 0x4e, put_int (int (tg_end g) - int (tg_start g) + 1)] else []) @
     map (\<lambda>i. encodeTypeDef (at_where (str ''type definition #'' @ show_int (int i)) c) (pe_definition (tt_entries table ! i)))
       [tg_start g ..< tg_end g + 1]"

definition put_types :: "emit_ctx \<Rightarrow> 'f wasm_module \<Rightarrow> writer" where
  "put_types c md e =
     (if md_types md = [] then Inr e
      else
        bindE (from_layout (indexPhysicalTypes (md_types md))) (\<lambda>table.
        bindE (from_layout (planPhysicalTypeSection table (forced_groups md))) (\<lambda>groups.
          put_section 1 (steps ([put_int (int (length groups))] @ concat (map (put_group c table) groups))) e)))"

definition put_import :: "emit_ctx \<Rightarrow> wasm_import \<Rightarrow> writer" where
  "put_import c imp = encodeImport (at_where (str ''import '' @ apostrophes (wi_module imp @ str ''.'' @ wi_name imp)) c) imp"

definition put_signature :: "emit_ctx \<Rightarrow> 'f wasm_function \<Rightarrow> writer" where
  "put_signature c f =
     steps [when_valid (at_where (str ''function '' @ apostrophes (or_unnamed (fn_name f)) @ str '' signature'') c)
              (vSignature (fn_typeIdx f)), put_int (fn_typeIdx f)]"

definition put_table :: "wasm_table \<Rightarrow> writer" where
  "put_table t = steps [put_byte (element_type_byte (wt_elementType t)), encode_limits (wt_min t) (wt_max t)]"

definition put_tag :: "emit_ctx \<Rightarrow> tag_def \<Rightarrow> writer" where
  "put_tag c tag =
     steps [when_valid (at_where (str ''tag '' @ apostrophes (td_name tag)) c) (vSignature (td_typeIdx tag)),
            put_byte 0x00, put_int (td_typeIdx tag)]"

definition put_global :: "emit_ctx \<Rightarrow> 'f float_layout \<Rightarrow> 'f global_def \<Rightarrow> writer" where
  "put_global c fl g =
     encodeGlobal (in_frame (\<lambda>_. - 1) (at_where (str ''global '' @ apostrophes (or_unnamed (gd_name g)) @ str '' init'') c)) fl g"

definition put_export :: "emit_ctx \<Rightarrow> wasm_export \<Rightarrow> writer" where
  "put_export c exp = encodeExport (at_where (str ''export '' @ apostrophes (we_name exp)) c) exp"

definition put_func_ref :: "emit_ctx \<Rightarrow> int \<Rightarrow> writer" where
  "put_func_ref c h = with_func c h (\<lambda>i. steps [when_valid c (vFunc i), put_int i])"

definition put_element :: "emit_ctx \<Rightarrow> 'f float_layout \<Rightarrow> 'f wasm_element \<Rightarrow> writer list" where
  "put_element c fl el =
     (let explicitTable = wl_tableIdx el \<noteq> 0 in
      [put_byte (if explicitTable then 0x02 else 0x00)] @
      (if explicitTable then
         [when_valid (at_where (str ''element-segment table'') c) (vTable (wl_tableIdx el)), put_int (wl_tableIdx el)]
       else []) @
      map (encodeInstr (in_frame (\<lambda>_. - 1) (at_where (str ''element-segment offset'') c)) fl) (wl_offset el) @
      [put_byte 0x0b] @ (if explicitTable then [put_byte 0x00] else []) @
      [put_int (int (length (wl_funcIndices el)))] @
      map (put_func_ref (at_where (str ''element-segment function list'') c)) (wl_funcIndices el))"

text \<open>The declarative segment lists its targets by ascending final index.\<close>

definition put_declared :: "emit_ctx \<Rightarrow> int list \<Rightarrow> writer" where
  "put_declared c refs e =
     bindE (mapE (fIdx c) refs) (\<lambda>resolved.
       steps (concat (map (\<lambda>i. [when_valid c (vFunc i), put_int i]) (sort resolved))) e)"

definition put_elements :: "emit_ctx \<Rightarrow> 'f float_layout \<Rightarrow> 'f wasm_module \<Rightarrow> writer" where
  "put_elements c fl md =
     steps ([put_int (int (length (md_elements md) + (if md_declaredFuncRefs md = [] then 0 else 1)))] @
       concat (map (put_element c fl) (md_elements md)) @
       (if md_declaredFuncRefs md = [] then []
        else [put_byte 0x03, put_byte 0x00, put_int (int (length (md_declaredFuncRefs md))),
              put_declared (at_where (str ''declared func ref'') c) (md_declaredFuncRefs md)]))"

definition name_shared :: "'f wasm_module \<Rightarrow> js_string \<Rightarrow> nat" where
  "name_shared md name = length (filter (\<lambda>f. fn_name f = name) (md_functions md))"

definition function_label :: "'f wasm_module \<Rightarrow> nat \<Rightarrow> 'f wasm_function \<Rightarrow> js_string" where
  "function_label md functionPosition f =
     (let n = length (fn_locals f); sharing = name_shared md (fn_name f) in
      str ''function '' @ apostrophes (or_unnamed (fn_name f)) @ str '' (position '' @ show_int (int functionPosition) @
      str '', '' @ show_int (int n) @ str '' declared local'' @ (if n = 1 then [] else str ''s'') @
      (if 1 < sharing then str '', NAME SHARED BY '' @ show_int (int sharing) @ str '' DEFINED FUNCTIONS'' else []) @ str '')'')"

definition frame_size :: "'f wasm_function \<Rightarrow> val_ctx \<Rightarrow> int" where
  "frame_size f v =
     (let params = resolveParamCount v (fn_typeIdx f) in if 0 \<le> params then params + int (length (fn_locals f)) else - 1)"

definition put_code :: "emit_ctx \<Rightarrow> 'f float_layout \<Rightarrow> 'f wasm_module \<Rightarrow> writer" where
  "put_code c fl md =
     steps (put_int (int (length (md_functions md))) #
       map (\<lambda>(functionPosition, f). encodeFunction (in_frame (frame_size f) (at_where (function_label md functionPosition f) c)) fl f)
         (enumerate 0 (md_functions md)))"

definition put_start :: "emit_ctx \<Rightarrow> int \<Rightarrow> writer" where
  "put_start c h = put_func_ref (at_where (str ''start function'') c) h"

definition put_data :: "data_segment \<Rightarrow> writer list" where
  "put_data seg =
     (if ds_passive seg then [put_byte 0x01] else [put_byte 0x00, put_byte 0x41, i32 (ds_offset seg), put_byte 0x0b]) @
     [put_int (int (length (ds_bytes seg))), put_bytes (Uint8Array (ds_bytes seg))]"

definition strip_import :: "js_string \<Rightarrow> js_string" where
  "strip_import s = (if suffix (str ''_import'') s then take (length s - 7) s else s)"

definition name_entries :: "'f wasm_module \<Rightarrow> (nat \<times> js_string) list" where
  "name_entries md =
     map (\<lambda>(i, imp). (i, strip_import (wi_name imp))) (enumerate 0 (filter is_func_import (md_imports md))) @
     map (\<lambda>(i, f). (i, fn_name f)) (filter (\<lambda>(_, f). fn_name f \<noteq> []) (enumerate (numImportFuncs md) (md_functions md)))"

definition put_names :: "(nat \<times> js_string) list \<Rightarrow> writer" where
  "put_names entries e =
     bindE (steps (put_int (int (length entries)) # concat (map (\<lambda>(i, n). [put_int (int i), put_name n]) entries)) new_encoder)
       (\<lambda>sub. steps [put_name (str ''name''), put_byte 1, put_sized sub] e)"

definition emitSourceMappingURLSection :: "js_string \<Rightarrow> writer" where
  "emitSourceMappingURLSection url = put_section 0 (steps [put_name (str ''sourceMappingURL''), put_name url])"

definition module_sections :: "emit_ctx \<Rightarrow> 'f float_layout \<Rightarrow> 'f wasm_module \<Rightarrow> writer list" where
  "module_sections c fl md =
     [put_types c md] @
     section_if (md_imports md \<noteq> []) 2 (put_vector (md_imports md) (put_import c)) @
     section_if (md_functions md \<noteq> []) 3 (put_vector (md_functions md) (put_signature c)) @
     section_if (md_tables md \<noteq> []) 4 (put_vector (md_tables md) put_table) @
     section_if (md_memories md \<noteq> []) 5
       (steps (put_int (int (length (md_memories md))) # map (\<lambda>(mn, mx). encode_limits mn mx) (md_memories md))) @
     section_if (md_tags md \<noteq> []) 13 (put_vector (md_tags md) (put_tag c)) @
     section_if (md_globals md \<noteq> []) 6 (put_vector (md_globals md) (put_global c fl)) @
     section_if (md_exports md \<noteq> []) 7 (put_vector (md_exports md) (put_export c)) @
     (case md_startFuncIdx md of None \<Rightarrow> [] | Some h \<Rightarrow> [put_section 8 (put_start c h)]) @
     section_if (md_elements md \<noteq> [] \<or> md_declaredFuncRefs md \<noteq> []) 9 (put_elements c fl md) @
     section_if (list_ex ds_passive (md_dataSegments md)) 12 (put_int (int (length (md_dataSegments md)))) @
     section_if (md_functions md \<noteq> []) 10 (put_code c fl md) @
     section_if (md_dataSegments md \<noteq> []) 11
       (steps (put_int (int (length (md_dataSegments md))) # concat (map put_data (md_dataSegments md)))) @
     section_if (name_entries md \<noteq> []) 0 (put_names (name_entries md))"

definition emitBinary :: "bool \<Rightarrow> 'f float_layout \<Rightarrow> 'f wasm_module \<Rightarrow> wasm_error + byte list" where
  "emitBinary skip fl md =
     bindE (if skip then Inr None else bindE (makeValidationCtx md) (\<lambda>v. Inr (Some v))) (\<lambda>valCtx.
       let c = \<lparr>ec_val = valCtx, ec_layout = Some (resolveLayout md)\<rparr> in
       bindE (steps ([put_bytes (Numbers [0x00, 0x61, 0x73, 0x6d]), put_bytes (Numbers [0x01, 0x00, 0x00, 0x00])] @
                module_sections c fl md) new_encoder) (\<lambda>e.
         Inr (enc_finish e)))"

section \<open>Exact validation of modules\<close>

definition element_in_range :: "emit_ctx \<Rightarrow> val_ctx \<Rightarrow> 'f wasm_element \<Rightarrow> bool" where
  "element_in_range c v el \<longleftrightarrow>
     (wl_tableIdx el \<noteq> 0 \<longrightarrow> below (vc_numTables v) (wl_tableIdx el)) \<and> body_in_range c v (wl_offset el) \<and>
     list_all (func_in_range c v) (wl_funcIndices el)"

definition function_in_range :: "emit_ctx \<Rightarrow> val_ctx \<Rightarrow> 'f wasm_function \<Rightarrow> bool" where
  "function_in_range c v f \<longleftrightarrow>
     list_all (\<lambda>l. val_in_range v (snd l)) (fn_locals f) \<and>
     body_in_range c (v\<lparr>vc_maxLocals := frame_size f v\<rparr>) (fn_body f)"

definition module_in_range :: "emit_ctx \<Rightarrow> val_ctx \<Rightarrow> 'f wasm_module \<Rightarrow> bool" where
  "module_in_range c v md \<longleftrightarrow>
     list_all (type_in_range v) (vc_flatTypes v) \<and>
     list_all (import_in_range v) (md_imports md) \<and>
     list_all (\<lambda>f. signature_at v (fn_typeIdx f)) (md_functions md) \<and>
     list_all (\<lambda>t. signature_at v (td_typeIdx t)) (md_tags md) \<and>
     list_all (\<lambda>g. val_in_range v (gd_type g) \<and> body_in_range c v (gd_init g)) (md_globals md) \<and>
     list_all (export_in_range c v) (md_exports md) \<and>
     (case md_startFuncIdx md of None \<Rightarrow> True | Some h \<Rightarrow> func_in_range c v h) \<and>
     list_all (element_in_range c v) (md_elements md) \<and>
     list_all (func_in_range c v) (md_declaredFuncRefs md) \<and>
     list_all (function_in_range c v) (md_functions md)"

text \<open>Labels play no part in what is in range, and the frame only for locals.\<close>

lemma resolve_label [simp]:
  "resolveTypeDefAt (v\<lparr>vc_where := w\<rparr>) = resolveTypeDefAt v" "resolveTypeDefAt (v\<lparr>vc_maxLocals := n\<rparr>) = resolveTypeDefAt v"
  by (simp_all add: fun_eq_iff resolveTypeDefAt_def)

lemma heap_label [simp]:
  "heap_in_range (v\<lparr>vc_where := w\<rparr>) = heap_in_range v" "heap_in_range (v\<lparr>vc_maxLocals := n\<rparr>) = heap_in_range v"
  by (simp_all add: fun_eq_iff heap_in_range_def)

lemma val_label [simp]:
  "val_in_range (v\<lparr>vc_where := w\<rparr>) t = val_in_range v t" "val_in_range (v\<lparr>vc_maxLocals := n\<rparr>) t = val_in_range v t"
  by (cases t; simp)+

lemma signature_label [simp]:
  "signature_at (v\<lparr>vc_where := w\<rparr>) = signature_at v" "signature_at (v\<lparr>vc_maxLocals := n\<rparr>) = signature_at v"
  by (simp_all add: fun_eq_iff signature_at_def)

lemma type_label [simp]: "type_in_range (v\<lparr>vc_where := w\<rparr>) t = type_in_range v t"
proof (induction t)
  case (RecGroupDef ts)
  then show ?case by (simp add: list_all_iff)
qed (simp_all add: list_all_iff split: option.splits)

lemma import_label [simp]: "import_in_range (v\<lparr>vc_where := w\<rparr>) imp = import_in_range v imp"
  by (simp add: import_in_range_def split: import_desc.splits)

lemma idx_context [simp]:
  "fIdx (at_where w c) = fIdx c" "gIdx (at_where w c) = gIdx c" "fIdx (in_frame n c) = fIdx c" "gIdx (in_frame n c) = gIdx c"
  by (simp_all add: fun_eq_iff fIdx_def gIdx_def at_where_def in_frame_def)

lemma func_label [simp]:
  "func_in_range (at_where w c) v h = func_in_range c v h" "func_in_range (in_frame m c) v h = func_in_range c v h"
  "func_in_range c (v\<lparr>vc_where := w\<rparr>) h = func_in_range c v h" "func_in_range c (v\<lparr>vc_maxLocals := n\<rparr>) h = func_in_range c v h"
  by (simp_all add: func_in_range_def split: sum.splits)

lemma export_label [simp]: "export_in_range (at_where w c) (v\<lparr>vc_where := w\<rparr>) exp = export_in_range c v exp"
  by (simp add: export_in_range_def split: export_kind.splits)

lemma block_label [simp]:
  "block_in_range (v\<lparr>vc_where := w\<rparr>) bt = block_in_range v bt"
  by (cases bt) simp_all

lemma instr_label [simp]:
  "instr_in_range (at_where w c) v i = instr_in_range c v i" "instr_in_range (in_frame m c) v i = instr_in_range c v i"
  "instr_in_range c (v\<lparr>vc_where := w\<rparr>) i = instr_in_range c v i"
  by (cases i; auto simp: field_at_def catch_in_range_def list_all_iff split: if_splits option.splits type_def.splits)+

lemma body_label [simp]:
  "body_in_range (at_where w c) v is = body_in_range c v is" "body_in_range (in_frame m c) v is = body_in_range c v is"
  "body_in_range c (v\<lparr>vc_where := w\<rparr>) is = body_in_range c v is"
  by (simp_all add: body_in_range_def list_all_iff)

lemma unarmed_context [simp]:
  "unarmed (at_where w c) = unarmed c" "unarmed (in_frame n c) = unarmed c"
  "at_where w (unarmed c) = unarmed c" "in_frame n (unarmed c) = unarmed c"
  by (simp_all add: at_where_def in_frame_def)

context armed_emit
begin

lemma armed_at: "armed_emit (at_where w c) (v\<lparr>vc_where := w\<rparr>)"
  by unfold_locales (simp add: at_where_def armed)

lemma armed_frame: "armed_emit (in_frame n (at_where w c)) (v\<lparr>vc_maxLocals := n (v\<lparr>vc_where := w\<rparr>), vc_where := w\<rparr>)"
  by unfold_locales (simp add: at_where_def in_frame_def armed)

lemma no_frame: "vc_maxLocals v = - 1 \<Longrightarrow> v\<lparr>vc_maxLocals := - 1\<rparr> = v"
  by simp

lemma guarded_check_at:
  "guarded (chk (v\<lparr>vc_where := w\<rparr>) = None) (when_valid (at_where w c) chk) (when_valid (unarmed c) chk)"
  using armed_emit.armed [OF armed_at, THEN guarded_check, of chk w] by simp

lemma guarded_put_import: "guarded (import_in_range v imp) (put_import c imp) (put_import (unarmed c) imp)"
  using armed_emit.guarded_import [OF armed_at, of _ imp] by (simp add: put_import_def)

lemma guarded_put_signature: "guarded (signature_at v (fn_typeIdx f)) (put_signature c f) (put_signature (unarmed c) f)"
  unfolding put_signature_def unarmed_context
  by (rule guarded_eq, (rule guarded_seq guarded_check_at)+) (simp add: checks_None)

lemma guarded_put_tag: "guarded (signature_at v (td_typeIdx t)) (put_tag c t) (put_tag (unarmed c) t)"
  unfolding put_tag_def unarmed_context
  by (rule guarded_eq, (rule guarded_seq guarded_check_at)+) (simp add: checks_None)

lemma guarded_put_export: "guarded (export_in_range c v exp) (put_export c exp) (put_export (unarmed c) exp)"
  using armed_emit.guarded_export [OF armed_at, of _ exp] by (simp add: put_export_def)

lemma guarded_func_ref: "guarded (func_in_range c v h) (put_func_ref c h) (put_func_ref (unarmed c) h)"
proof (cases "fIdx c h")
  case (Inl err)
  then show ?thesis by (simp add: guarded_def put_func_ref_def with_func_def)
next
  case (Inr i)
  have "guarded (func_in_range c v h) (steps [when_valid c (vFunc i), put_int i]) (steps [when_valid (unarmed c) (vFunc i), put_int i])"
    by (rule guarded_eq, (rule guarded_step)+) (simp add: checks_None func_in_range_def below_def Inr)
  then show ?thesis using Inr by (simp add: put_func_ref_def [abs_def] with_func_def [abs_def] del: steps.simps)
qed

lemma guarded_func_refs:
  "guarded (list_all (func_in_range c v) hs) (steps (map (put_func_ref (at_where w c)) hs)) (steps (map (put_func_ref (unarmed c)) hs))"
proof (rule guarded_map)
  fix h show "guarded (func_in_range c v h) (put_func_ref (at_where w c) h) (put_func_ref (unarmed c) h)"
    using armed_emit.guarded_func_ref [OF armed_at, of w h] by simp
qed

lemma guarded_declared:
  "guarded (list_all (func_in_range c v) refs) (put_declared c refs) (put_declared (unarmed c) refs)"
proof (cases "mapE (fIdx c) refs")
  case (Inl err)
  then show ?thesis by (simp add: guarded_def put_declared_def)
next
  case (Inr rs)
  have item: "guarded (below (vc_numFuncs v) i) (steps [when_valid c (vFunc i), put_int i]) (steps [when_valid (unarmed c) (vFunc i), put_int i])"
    for i by (rule guarded_eq, (rule guarded_step)+) (simp add: checks_None below_def)
  from Inr have "list_all2 (\<lambda>h i. fIdx c h = Inr i) refs rs" by (simp add: mapE_Inr)
  then have "list_all (below (vc_numFuncs v)) rs = list_all (func_in_range c v) refs"
    by (induction rule: list_all2_induct) (simp_all add: func_in_range_def)
  then have sorted: "list_all (below (vc_numFuncs v)) (sort rs) = list_all (func_in_range c v) refs"
    by (simp add: list_all_iff)
  show ?thesis unfolding put_declared_def [abs_def] unarmed_idx Inr bindE_Inr
    by (rule guarded_eq [OF _ sorted]) (rule guarded_concat, rule item)
qed

lemma guarded_optional: "(b \<Longrightarrow> guarded P (steps ws) (steps ws0)) \<Longrightarrow> guarded (b \<longrightarrow> P) (steps (if b then ws else [])) (steps (if b then ws0 else []))"
  by (simp add: guarded_refl)

lemma guarded_section_if:
  "(b \<Longrightarrow> guarded P w w0) \<Longrightarrow> guarded (b \<longrightarrow> P) (steps (section_if b n w)) (steps (section_if b n w0))"
  unfolding section_if_def
  by (rule guarded_optional, rule guarded_eq, (rule guarded_seq guarded_section | assumption)+) simp

lemma guarded_element:
  assumes "vc_maxLocals v = - 1"
  shows "guarded (element_in_range c v el) (steps (put_element c fl el)) (steps (put_element (unarmed c) fl el))"
proof -
  have off: "guarded (body_in_range c v is)
      (steps (map (encodeInstr (in_frame (\<lambda>_. - 1) (at_where w c)) fl) is)) (steps (map (encodeInstr (unarmed c) fl) is))" for w "is"
    using armed_emit.guarded_body [OF armed_frame [where n = "\<lambda>_. - 1"], of w "is" fl] assms by (simp add: no_frame)
  have tbl: "guarded (x \<noteq> 0 \<longrightarrow> below (vc_numTables v) x)
      (steps (if x \<noteq> 0 then [when_valid (at_where w c) (vTable x), put_int x] else []))
      (steps (if x \<noteq> 0 then [when_valid (unarmed c) (vTable x), put_int x] else []))" for x w
    by (rule guarded_optional, rule guarded_eq, (rule guarded_seq guarded_check_at)+) (simp add: checks_None below_def)
  show ?thesis unfolding put_element_def Let_def unarmed_context
    by (rule guarded_eq, (rule guarded_seq tbl off guarded_func_refs)+) (simp add: element_in_range_def)
qed

lemma guarded_elements:
  assumes "vc_maxLocals v = - 1"
  shows "guarded (list_all (element_in_range c v) (md_elements md) \<and> list_all (func_in_range c v) (md_declaredFuncRefs md))
    (put_elements c fl md) (put_elements (unarmed c) fl md)"
proof -
  have decl: "guarded (list_all (func_in_range c v) hs) (put_declared (at_where w c) hs) (put_declared (unarmed c) hs)" for w hs
    using armed_emit.guarded_declared [OF armed_at, of w hs] by (simp add: list_all_iff)
  show ?thesis
  proof (cases "md_declaredFuncRefs md = []")
    case True
    show ?thesis unfolding put_elements_def if_P [OF True]
      by (rule guarded_eq, (rule guarded_seq guarded_concat guarded_element assms)+) (simp add: True)
  next
    case False
    show ?thesis unfolding put_elements_def if_not_P [OF False] unarmed_context
      by (rule guarded_eq, (rule guarded_seq guarded_concat guarded_element decl assms)+) simp
  qed
qed

lemma guarded_code: "guarded (list_all (function_in_range c v) (md_functions md)) (put_code c fl md) (put_code (unarmed c) fl md)"
proof -
  have item: "guarded (function_in_range c v (snd p))
      ((\<lambda>(k, f). encodeFunction (in_frame (frame_size f) (at_where (function_label md k f) c)) fl f) p)
      ((\<lambda>(k, f). encodeFunction (in_frame (frame_size f) (at_where (function_label md k f) (unarmed c))) fl f) p)" for p
  proof -
    have "frame_size f (v\<lparr>vc_where := w\<rparr>) = frame_size f v" for f :: "'a wasm_function" and w
      by (simp add: frame_size_def resolveParamCount_def)
    then show ?thesis
      using armed_emit.guarded_function [OF armed_frame [of "frame_size (snd p)"], of "function_label md (fst p) (snd p)" "snd p" fl]
      by (simp add: function_in_range_def case_prod_beta)
  qed
  have "list_all (\<lambda>p. function_in_range c v (snd p)) (enumerate 0 (md_functions md)) = list_all (function_in_range c v) (md_functions md)"
    by (simp add: list_all_length nth_enumerate_eq)
  then show ?thesis unfolding put_code_def
    by - (rule guarded_eq, (rule guarded_seq guarded_map item)+, simp)
qed

lemma guarded_put_global:
  assumes "vc_maxLocals v = - 1"
  shows "guarded (val_in_range v (gd_type g) \<and> body_in_range c v (gd_init g)) (put_global c fl g) (put_global (unarmed c) fl g)"
  using armed_emit.guarded_global [OF armed_frame [where n = "\<lambda>_. - 1"], of _ g fl] assms by (simp add: put_global_def no_frame)

lemma guarded_put_group:
  "guarded (list_all (\<lambda>i. type_in_range v (pe_definition (tt_entries table ! i))) (group_span g))
     (steps (put_group c table g)) (steps (put_group (unarmed c) table g))"
proof -
  have item: "guarded (type_in_range v t) (encodeTypeDef (at_where w c) t) (encodeTypeDef (unarmed c) t)" for w t
    using armed_emit.guarded_type [OF armed_at, of w t] by simp
  show ?thesis unfolding put_group_def group_span_def unarmed_context Suc_eq_plus1
    by (rule guarded_eq, (rule guarded_seq guarded_map item)+) simp
qed

lemma guarded_put_types:
  assumes "makeValidationCtx md = Inr v'" "vc_flatTypes v' = vc_flatTypes v"
  shows "guarded (list_all (type_in_range v) (vc_flatTypes v)) (put_types c md) (put_types (unarmed c) md)"
proof -
  obtain table where table: "from_layout (indexPhysicalTypes (md_types md)) = Inr table" "vc_flatTypes v = map pe_definition (tt_entries table)"
    using assms by (auto simp: makeValidationCtx_def bindE_eq_Inr Let_def)
  then have index: "indexPhysicalTypes (md_types md) = Inr table" by (simp add: from_layout_def split: sum.splits)
  show ?thesis
  proof (cases "md_types md = []")
    case True
    then have "vc_flatTypes v = []" using index table(2) by (auto simp: indexPhysicalTypes_def)
    then show ?thesis using True by (simp add: put_types_def guarded_def)
  next
    case types: False
    show ?thesis
    proof (cases "from_layout (planPhysicalTypeSection table (forced_groups md))")
      case (Inl err)
      with types table(1) show ?thesis by (simp add: put_types_def guarded_def)
    next
      case (Inr groups)
      then have "planPhysicalTypeSection table (forced_groups md) = Inr groups" by (simp add: from_layout_def split: sum.splits)
      from plan_facts [OF index this] have tile: "concat (map group_span groups) = [0 ..< length (tt_entries table)]" by blast
      have "list_all (\<lambda>g. list_all (\<lambda>i. type_in_range v (pe_definition (tt_entries table ! i))) (group_span g)) groups =
          list_all (\<lambda>i. type_in_range v (pe_definition (tt_entries table ! i))) (concat (map group_span groups))"
        by (auto simp: list_all_iff)
      also have "\<dots> = list_all (type_in_range v) (vc_flatTypes v)" unfolding tile table(2) by (simp add: list_all_length)
      finally show ?thesis unfolding put_types_def [abs_def] if_not_P [OF types] table(1) Inr bindE_Inr
        by - (rule guarded_section, rule guarded_eq, (rule guarded_seq guarded_concat guarded_put_group)+, simp)
    qed
  qed
qed

lemma guarded_module:
  assumes "makeValidationCtx md = Inr v"
  shows "guarded (module_in_range c v md) (steps (module_sections c fl md)) (steps (module_sections (unarmed c) fl md))"
proof -
  have frame: "vc_maxLocals v = - 1" using assms by (auto simp: makeValidationCtx_def bindE_eq_Inr Let_def)
  have start: "guarded (case h of None \<Rightarrow> True | Some h \<Rightarrow> func_in_range c v h)
      (steps (case h of None \<Rightarrow> [] | Some h \<Rightarrow> [put_section 8 (put_start c h)]))
      (steps (case h of None \<Rightarrow> [] | Some h \<Rightarrow> [put_section 8 (put_start (unarmed c) h)]))" for h
  proof (cases h)
    case (Some k)
    have k: "guarded (func_in_range c v k) (put_start c k) (put_start (unarmed c) k)"
      using armed_emit.guarded_func_ref [OF armed_at, of _ k] by (simp add: put_start_def)
    show ?thesis unfolding Some option.case by (rule guarded_eq, (rule guarded_seq guarded_section k)+) simp
  qed (simp add: guarded_refl)
  show ?thesis unfolding module_sections_def
    by (rule guarded_eq, (rule guarded_seq guarded_put_types [OF assms refl] guarded_section_if guarded_vector start
         guarded_put_import guarded_put_signature guarded_put_tag guarded_put_global [OF frame] guarded_put_export
         guarded_elements [OF frame] guarded_code)+)
       (auto simp: module_in_range_def)
qed

end

text \<open>Validation accepts exactly the modules whose indices are in range, and the bytes are the same.\<close>

definition armed_ctx :: "'f wasm_module \<Rightarrow> val_ctx \<Rightarrow> emit_ctx" where
  "armed_ctx md v = \<lparr>ec_val = Some v, ec_layout = Some (resolveLayout md)\<rparr>"

lemma emitBinary_sections:
  "emitBinary skip fl md = Inr bytes \<longleftrightarrow>
     (\<exists>v e. (if skip then v = None else \<exists>w. makeValidationCtx md = Inr w \<and> v = Some w) \<and>
        steps ([put_bytes (Numbers [0x00, 0x61, 0x73, 0x6d]), put_bytes (Numbers [0x01, 0x00, 0x00, 0x00])] @
          module_sections \<lparr>ec_val = v, ec_layout = Some (resolveLayout md)\<rparr> fl md) new_encoder = Inr e \<and>
        bytes = enc_finish e)"
  by (auto simp: emitBinary_def bindE_eq_Inr Let_def)

lemma emitBinary_exact:
  assumes "makeValidationCtx md = Inr v"
  shows "emitBinary False fl md = Inr bytes \<longleftrightarrow> module_in_range (armed_ctx md v) v md \<and> emitBinary True fl md = Inr bytes"
proof -
  have arm: "armed_emit (armed_ctx md v) v" by unfold_locales (simp add: armed_ctx_def)
  let ?head = "[put_bytes (Numbers [0x00, 0x61, 0x73, 0x6d]), put_bytes (Numbers [0x01, 0x00, 0x00, 0x00])]"
  have "guarded (True \<and> module_in_range (armed_ctx md v) v md) (steps (?head @ module_sections (armed_ctx md v) fl md))
      (steps (?head @ module_sections (unarmed (armed_ctx md v)) fl md))"
    by (rule guarded_append [OF guarded_refl armed_emit.guarded_module [OF arm assms]])
  then show ?thesis unfolding emitBinary_sections using assms
    by (simp add: guarded_def armed_ctx_def del: steps.simps append.simps)
qed

lemma validation_needs_layout:
  assumes "emitBinary True fl md = Inr bytes"
  obtains v where "makeValidationCtx md = Inr v"
proof (cases "md_types md = []")
  case True
  then show ?thesis using that by (simp add: makeValidationCtx_def indexPhysicalTypes_def from_layout_def Let_def)
next
  case False
  from assms obtain e e1 where "steps (module_sections \<lparr>ec_val = None, ec_layout = Some (resolveLayout md)\<rparr> fl md) e = Inr e1"
    by (auto simp: emitBinary_sections bindE_eq_Inr)
  then obtain e' where "put_types \<lparr>ec_val = None, ec_layout = Some (resolveLayout md)\<rparr> md e = Inr e'"
    by (cases "put_types \<lparr>ec_val = None, ec_layout = Some (resolveLayout md)\<rparr> md e") (auto simp: module_sections_def)
  with False obtain table where "from_layout (indexPhysicalTypes (md_types md)) = Inr table"
    by (auto simp: put_types_def bindE_eq_Inr)
  then show ?thesis using that by (simp add: makeValidationCtx_def Let_def)
qed

end
