(* ===== verification/Emit_Sections.thy ===== *)
theory Emit_Sections
  imports Emit_Binary
begin

text \<open>
  The shape of an emitted module: the eight bytes of the header, then sections, each an identifier, the
  LEB128 length of its payload and the payload. Which sections there are is a function of the module, and
  their order is the one WebAssembly prescribes.
\<close>

definition framed :: "int \<Rightarrow> byte list \<Rightarrow> byte list" where
  "framed ident payload = word_of_int ident # uleb (length payload) @ payload"

definition section_order :: "int list" where
  "section_order = [1, 2, 3, 4, 5, 13, 6, 7, 8, 9, 12, 10, 11, 0]"

definition present :: "bool \<Rightarrow> int \<Rightarrow> int list" where
  "present b ident = (if b then [ident] else [])"

text \<open>The sections after the type section.\<close>

definition later_ids :: "'f wasm_module \<Rightarrow> int list" where
  "later_ids md =
     present (md_imports md \<noteq> []) 2 @ present (md_functions md \<noteq> []) 3 @
     present (md_tables md \<noteq> []) 4 @ present (md_memories md \<noteq> []) 5 @ present (md_tags md \<noteq> []) 13 @
     present (md_globals md \<noteq> []) 6 @ present (md_exports md \<noteq> []) 7 @ present (md_startFuncIdx md \<noteq> None) 8 @
     present (md_elements md \<noteq> [] \<or> md_declaredFuncRefs md \<noteq> []) 9 @
     present (list_ex ds_passive (md_dataSegments md)) 12 @ present (md_functions md \<noteq> []) 10 @
     present (md_dataSegments md \<noteq> []) 11 @ present (name_entries md \<noteq> []) 0"

definition section_ids :: "'f wasm_module \<Rightarrow> int list" where
  "section_ids md = present (md_types md \<noteq> []) 1 @ later_ids md"

lemma section_ids_ordered: "subseq (section_ids md) section_order"
proof -
  have one: "subseq (present b n) [n]" for b n by (simp add: present_def)
  have "subseq (section_ids md) ([1] @ [2] @ [3] @ [4] @ [5] @ [13] @ [6] @ [7] @ [8] @ [9] @ [12] @ [10] @ [11] @ [0])"
    unfolding section_ids_def later_ids_def by (intro list_emb_append_mono one)
  then show ?thesis by (simp only: section_order_def append.simps)
qed

text \<open>A writer that adds exactly these sections when it succeeds.\<close>

definition writes_sections :: "writer \<Rightarrow> int list \<Rightarrow> bool" where
  "writes_sections w ids \<longleftrightarrow>
     (\<forall>e e'. enc_ok e \<longrightarrow> w e = Inr e' \<longrightarrow>
        enc_ok e' \<and> (\<exists>ps. length ps = length ids \<and> list_all (\<lambda>p. length p < 2 ^ 32) ps \<and>
          written e' = written e @ concat (map2 framed ids ps)))"

lemma put_section_written:
  assumes "put_section n f e = Inr e'" "enc_ok e"
  obtains sub where "f new_encoder = Inr sub" "enc_ok e'" "length (written sub) < 2 ^ 32"
    "written e' = written e @ framed n (written sub)"
proof -
  obtain sub e1 e2 where sub: "f new_encoder = Inr sub" and 1: "put_byte n e = Inr e1"
    and 2: "u32 (Integral (int (length (written sub)))) e1 = Inr e2"
    and 3: "put_bytes (Uint8Array (written sub)) e2 = Inr e'"
    using assms(1) by (auto simp: put_section_def Let_def bindE_eq_Inr)
  have len: "length (written sub) < 2 ^ 32" using 2 by (auto simp: u32_def split: if_splits)
  from appendsD [OF appends_byte assms(2), of n] 1 have e1: "enc_ok e1" "written e1 = written e @ [word_of_int n]" by auto
  from appendsD [OF appends_u32 [OF len] e1(1)] 2 have e2: "enc_ok e2" "written e2 = written e1 @ uleb (length (written sub))" by auto
  from appendsD [OF appends_bytes e2(1), of "Uint8Array (written sub)"] 3
  have "enc_ok e'" "written e' = written e2 @ written sub" by auto
  with that [OF sub] e1 e2 len show ?thesis by (simp add: framed_def)
qed

lemma writes_section: "writes_sections (put_section n f) [n]"
  unfolding writes_sections_def
proof (intro allI impI)
  fix e e' assume e: "enc_ok e" and w: "put_section n f e = Inr e'"
  obtain sub where "enc_ok e'" "length (written sub) < 2 ^ 32" "written e' = written e @ framed n (written sub)"
    by (rule put_section_written [OF w e])
  then show "enc_ok e' \<and> (\<exists>ps. length ps = length [n] \<and> list_all (\<lambda>p. length p < 2 ^ 32) ps \<and>
      written e' = written e @ concat (map2 framed [n] ps))"
    by (auto intro!: exI [of _ "[written sub]"])
qed

lemma writes_Nil: "writes_sections (steps []) []"
  by (simp add: writes_sections_def)

lemma writes_bind:
  assumes "writes_sections f is" "writes_sections g js"
  shows "writes_sections (\<lambda>e. bindE (f e) g) (is @ js)"
  unfolding writes_sections_def
proof (intro allI impI)
  fix e e' assume "enc_ok e" "bindE (f e) g = Inr e'"
  then obtain e1 where e1: "f e = Inr e1" "g e1 = Inr e'" by (auto simp: bindE_eq_Inr)
  then obtain ps where 1: "enc_ok e1" "length ps = length is" "list_all (\<lambda>p. length p < 2 ^ 32) ps"
      "written e1 = written e @ concat (map2 framed is ps)"
    using assms(1) \<open>enc_ok e\<close> unfolding writes_sections_def by blast
  then obtain qs where 2: "enc_ok e'" "length qs = length js" "list_all (\<lambda>p. length p < 2 ^ 32) qs"
      "written e' = written e1 @ concat (map2 framed js qs)"
    using assms(2) e1(2) unfolding writes_sections_def by blast
  from 1 2 show "enc_ok e' \<and> (\<exists>ps. length ps = length (is @ js) \<and> list_all (\<lambda>p. length p < 2 ^ 32) ps \<and>
      written e' = written e @ concat (map2 framed (is @ js) ps))"
    by (intro conjI exI [of _ "ps @ qs"]) simp_all
qed

lemma writes_append: "writes_sections (steps xs) is \<Longrightarrow> writes_sections (steps ys) js \<Longrightarrow> writes_sections (steps (xs @ ys)) (is @ js)"
  unfolding steps_append by (rule writes_bind)

lemma writes_Cons:
  assumes "writes_sections w is" "writes_sections (steps ws) js"
  shows "writes_sections (steps (w # ws)) (is @ js)"
  unfolding steps_Cons by (rule writes_bind [OF assms])

lemma writes_one: "writes_sections (steps [put_section n w]) [n]"
  using writes_Cons [OF writes_section writes_Nil, of n w] by (simp only: append.simps)

lemma writes_if: "writes_sections (steps (section_if b n w)) (present b n)"
  by (cases b) (simp_all only: section_if_def present_def if_True if_False writes_one writes_Nil)

lemma writes_types: "writes_sections (put_types c md) (present (md_types md \<noteq> []) 1)"
proof (cases "md_types md = []")
  case False
  then show ?thesis using writes_section unfolding writes_sections_def
    by (auto simp: put_types_def present_def bindE_eq_Inr dest!: spec)
qed (simp add: writes_sections_def put_types_def present_def)

lemma writes_start:
  "writes_sections (steps (case h of None \<Rightarrow> [] | Some h \<Rightarrow> [put_section 8 (f h)])) (present (h \<noteq> None) 8)"
  by (cases h) (simp_all only: present_def option.case option.distinct if_True if_False writes_one writes_Nil simp_thms)

lemma later_range: "list_all (\<lambda>i. 0 \<le> i \<and> i < 256 \<and> i \<noteq> 1) (later_ids md)"
proof -
  have one: "list_all P (present b n)" if "P n" for P b and n :: int using that by (simp add: present_def)
  show ?thesis unfolding later_ids_def list_all_append by (intro conjI one) simp_all
qed

lemma writes_later: "writes_sections (steps (tl (module_sections c fl md))) (later_ids md)"
  unfolding module_sections_def later_ids_def append.simps list.sel
  by (rule writes_append writes_if writes_start)+

lemma module_sections_split: "module_sections c fl md = put_types c md # tl (module_sections c fl md)"
  by (simp only: module_sections_def append.simps list.sel)

lemma writes_module: "writes_sections (steps (module_sections c fl md)) (section_ids md)"
  by (subst module_sections_split) (simp only: section_ids_def, rule writes_Cons [OF writes_types writes_later])

lemma emitBinary_steps:
  assumes "emitBinary skip fl md = Inr bytes"
  obtains c e0 e where "enc_ok e0" "written e0 = [0x00, 0x61, 0x73, 0x6d, 0x01, 0x00, 0x00, 0x00]"
    "steps (module_sections c fl md) e0 = Inr e" "bytes = written e"
proof -
  let ?head = "[put_bytes (Numbers [0x00, 0x61, 0x73, 0x6d]), put_bytes (Numbers [0x01, 0x00, 0x00, 0x00])]"
  obtain c e where e: "steps (?head @ module_sections c fl md) new_encoder = Inr e" and bytes: "bytes = written e"
    using assms unfolding emitBinary_sections by auto
  then obtain e0 where 0: "steps ?head new_encoder = Inr e0" and 1: "steps (module_sections c fl md) e0 = Inr e"
    by (auto simp: steps_append bindE_eq_Inr)
  have "appends (steps ?head) (concat [source_bytes (Numbers [0x00, 0x61, 0x73, 0x6d]), source_bytes (Numbers [0x01, 0x00, 0x00, 0x00])])"
    by (rule appends_steps) (simp only: list_all2_Cons list_all2_Nil appends_bytes simp_thms)
  from appendsD [OF this new_encoder_ok(1)] 0
  have "enc_ok e0" "written e0 = [0x00, 0x61, 0x73, 0x6d, 0x01, 0x00, 0x00, 0x00]" by auto
  with 1 bytes that show ?thesis by blast
qed

lemma emitBinary_shape:
  assumes "emitBinary skip fl md = Inr bytes"
  obtains ps where "length ps = length (section_ids md)" "list_all (\<lambda>p. length p < 2 ^ 32) ps"
    "bytes = [0x00, 0x61, 0x73, 0x6d, 0x01, 0x00, 0x00, 0x00] @ concat (map2 framed (section_ids md) ps)"
proof -
  obtain c e0 e where "enc_ok e0" "written e0 = [0x00, 0x61, 0x73, 0x6d, 0x01, 0x00, 0x00, 0x00]"
      "steps (module_sections c fl md) e0 = Inr e" "bytes = written e"
    by (rule emitBinary_steps [OF assms])
  with writes_module [of c fl md] that show ?thesis unfolding writes_sections_def by metis
qed

lemma emitBinary_types:
  assumes "emitBinary skip fl md = Inr bytes" "md_types md \<noteq> []"
  obtains c table groups sub ps where
    "indexPhysicalTypes (md_types md) = Inr table" "planPhysicalTypeSection table (forced_groups md) = Inr groups"
    "steps ([put_int (int (length groups))] @ concat (map (put_group c table) groups)) new_encoder = Inr sub"
    "length (written sub) < 2 ^ 32" "length ps = length (later_ids md)" "list_all (\<lambda>p. length p < 2 ^ 32) ps"
    "bytes = [0x00, 0x61, 0x73, 0x6d, 0x01, 0x00, 0x00, 0x00] @ concat (map2 framed (1 # later_ids md) (written sub # ps))"
proof -
  obtain c e0 e where e0: "enc_ok e0" "written e0 = [0x00, 0x61, 0x73, 0x6d, 0x01, 0x00, 0x00, 0x00]"
      and e: "steps (module_sections c fl md) e0 = Inr e" and bytes: "bytes = written e"
    by (rule emitBinary_steps [OF assms(1)])
  obtain e1 where e1: "put_types c md e0 = Inr e1" and rest: "steps (tl (module_sections c fl md)) e1 = Inr e"
    using e by (subst (asm) module_sections_split) (auto simp: steps_Cons bindE_eq_Inr)
  obtain table groups where table: "indexPhysicalTypes (md_types md) = Inr table" "planPhysicalTypeSection table (forced_groups md) = Inr groups"
    and put: "put_section 1 (steps ([put_int (int (length groups))] @ concat (map (put_group c table) groups))) e0 = Inr e1"
    using e1 assms(2) by (auto simp: put_types_def bindE_eq_Inr from_layout_def split: sum.splits)
  obtain sub where sub: "steps ([put_int (int (length groups))] @ concat (map (put_group c table) groups)) new_encoder = Inr sub"
      "enc_ok e1" "length (written sub) < 2 ^ 32" "written e1 = written e0 @ framed 1 (written sub)"
    by (rule put_section_written [OF put e0(1)])
  obtain ps where "length ps = length (later_ids md)" "list_all (\<lambda>p. length p < 2 ^ 32) ps"
      "written e = written e1 @ concat (map2 framed (later_ids md) ps)"
    using writes_later [of c fl md] rest sub(2) unfolding writes_sections_def by blast
  with that [OF table sub(1,3)] sub(4) e0(2) bytes show ?thesis by (simp add: append.assoc)
qed

end
