(* ===== verification/Object_Emitter.thy ===== *)
theory Object_Emitter
  imports Emit_Binary Wasm_Codec
begin

text \<open>
  \<^verbatim>\<open>src/src/emit/object.ts\<close>: the relocatable object emitter. It numbers symbols, encodes function bodies with
  its own instruction encoder, which records a relocation for every symbolic operand, and writes the
  sections, the relocations of the code section and the symbol table. The encoders it shares with
  \<^verbatim>\<open>binary.ts\<close> run unarmed. \<^verbatim>\<open>encodeInstrWithReloc\<close> has no default case: an instruction it does not know writes
  nothing.
\<close>

section \<open>Symbols\<close>

record obj_reloc =
  or_type :: int
  or_offset :: int
  or_symbolIndex :: int

definition R_WASM_FUNCTION_INDEX_LEB :: int where "R_WASM_FUNCTION_INDEX_LEB = 0"
definition R_WASM_TYPE_INDEX_LEB :: int where "R_WASM_TYPE_INDEX_LEB = 6"
definition R_WASM_GLOBAL_INDEX_LEB :: int where "R_WASM_GLOBAL_INDEX_LEB = 7"
definition R_WASM_TAG_INDEX_LEB :: int where "R_WASM_TAG_INDEX_LEB = 10"

text \<open>The symbols so far, the map from indices of one space to symbol indices, and the next index of that space.\<close>

record symbol_space =
  sp_symbols :: "symbol_info list"
  sp_map :: "int \<Rightarrow> nat option"
  sp_next :: nat

definition new_space :: "symbol_info list \<Rightarrow> symbol_space" where
  "new_space symbols = \<lparr>sp_symbols = symbols, sp_map = (\<lambda>_. None), sp_next = 0\<rparr>"

definition add_symbol :: "nat \<Rightarrow> js_string \<Rightarrow> nat \<Rightarrow> symbol_space \<Rightarrow> symbol_space" where
  "add_symbol kind name flags sp =
     \<lparr>sp_symbols = sp_symbols sp @ [\<lparr>sy_kind = kind, sy_name = name, sy_index = sp_next sp, sy_flags = flags\<rparr>],
      sp_map = (sp_map sp)(int (sp_next sp) := Some (length (sp_symbols sp))),
      sp_next = sp_next sp + 1\<rparr>"

definition name_or :: "js_string \<Rightarrow> string \<Rightarrow> nat \<Rightarrow> js_string" where
  "name_or name pre index = (if name = [] then str pre @ to_radix 10 index else name)"

definition exports_index :: "'f wasm_module \<Rightarrow> export_kind \<Rightarrow> nat \<Rightarrow> bool" where
  "exports_index md kind index = list_ex (\<lambda>x. we_kind x = kind \<and> we_index x = int index) (md_exports md)"

definition binding :: "bool \<Rightarrow> nat" where
  "binding exported = (if exported then SYMBOL_EXPORTED else SYMBOL_BINDING_LOCAL)"

definition import_symbols :: "nat \<Rightarrow> wasm_import list \<Rightarrow> symbol_space \<Rightarrow> symbol_space" where
  "import_symbols kind imps = fold (\<lambda>imp. add_symbol kind (wi_name imp) SYMBOL_UNDEFINED) imps"

definition defined_symbols :: "nat \<Rightarrow> string \<Rightarrow> (nat \<Rightarrow> bool) \<Rightarrow> js_string list \<Rightarrow> symbol_space \<Rightarrow> symbol_space" where
  "defined_symbols kind pre exported names =
     fold (\<lambda>name sp. add_symbol kind (name_or name pre (sp_next sp)) (binding (exported (sp_next sp))) sp) names"

definition func_space :: "'f wasm_module \<Rightarrow> symbol_space" where
  "func_space md =
     defined_symbols SYMTAB_FUNCTION ''__func_'' (exports_index md EkFunc) (map fn_name (md_functions md))
       (import_symbols SYMTAB_FUNCTION (filter is_func_import (md_imports md)) (new_space []))"

definition alias_step :: "nat \<Rightarrow> nat \<times> nat option \<Rightarrow> (int \<Rightarrow> nat option) \<Rightarrow> int \<Rightarrow> nat option" where
  "alias_step imports = (\<lambda>(ordinal, pos) m.
     case pos of
       None \<Rightarrow> m
     | Some p \<Rightarrow>
         (case m (int imports + int p) of None \<Rightarrow> m | Some symIdx \<Rightarrow> m(STABLE_FUNC_BASE + int ordinal := Some symIdx)))"

definition handle_aliases :: "'f wasm_module \<Rightarrow> (int \<Rightarrow> nat option) \<Rightarrow> int \<Rightarrow> nat option" where
  "handle_aliases md = fold (alias_step (numImportFuncs md)) (enumerate 0 (md_funcOrdinalToPosition md))"

definition global_space :: "'f wasm_module \<Rightarrow> symbol_space" where
  "global_space md =
     defined_symbols SYMTAB_GLOBAL ''__global_'' (exports_index md EkGlobal) (map gd_name (md_globals md))
       (import_symbols SYMTAB_GLOBAL (filter is_global_import (md_imports md)) (new_space (sp_symbols (func_space md))))"

definition tag_space :: "'f wasm_module \<Rightarrow> symbol_space" where
  "tag_space md =
     defined_symbols SYMTAB_EVENT ''__tag_'' (\<lambda>_. False) (map td_name (md_tags md))
       (import_symbols SYMTAB_EVENT (filter is_tag_import (md_imports md)) (new_space (sp_symbols (global_space md))))"

definition object_symbols :: "'f wasm_module \<Rightarrow> symbol_info list" where
  "object_symbols md = sp_symbols (tag_space md)"

record symbol_maps =
  funcIdxToSymIdx :: "int \<Rightarrow> nat option"
  globalIdxToSymIdx :: "int \<Rightarrow> nat option"
  tagIdxToSymIdx :: "int \<Rightarrow> nat option"

definition object_maps :: "'f wasm_module \<Rightarrow> symbol_maps" where
  "object_maps md =
     \<lparr>funcIdxToSymIdx = handle_aliases md (sp_map (func_space md)), globalIdxToSymIdx = sp_map (global_space md),
      tagIdxToSymIdx = sp_map (tag_space md)\<rparr>"

section \<open>Instructions\<close>

definition obj_control_ops :: op_table where
  "obj_control_ops =
    [(''unreachable'', [B 0x00]), (''nop'', [B 0x01]), (''return'', [B 0x0f]), (''drop'', [B 0x1a]),
     (''select'', [B 0x1b])]"

definition obj_number_ops :: op_table where
  "obj_number_ops =
    [(''i32.eqz'', [B 0x45]), (''i32.eq'', [B 0x46]), (''i32.ne'', [B 0x47]), (''i32.lt_s'', [B 0x48]),
     (''i32.le_s'', [B 0x4c]), (''i32.gt_s'', [B 0x4a]), (''i32.ge_s'', [B 0x4e]), (''i32.ge_u'', [B 0x4f]),
     (''i32.add'', [B 0x6a]), (''i32.sub'', [B 0x6b]), (''i32.mul'', [B 0x6c]), (''i32.and'', [B 0x71]),
     (''i32.or'', [B 0x72]), (''i32.xor'', [B 0x73]), (''i32.shl'', [B 0x74]), (''i32.shr_s'', [B 0x75]),
     (''i32.shr_u'', [B 0x76]), (''i32.clz'', [B 0x67]), (''i32.trunc_sat_f64_s'', [B 0xfc, B 0x02]),
     (''i32.trunc_sat_f64_u'', [B 0xfc, B 0x03]), (''i64.trunc_sat_f64_s'', [B 0xfc, B 0x06]),
     (''f64.eq'', [B 0x61]), (''f64.ne'', [B 0x62]), (''f64.lt'', [B 0x63]), (''f64.le'', [B 0x65]),
     (''f64.gt'', [B 0x64]), (''f64.ge'', [B 0x66]), (''f64.abs'', [B 0x99]), (''f64.neg'', [B 0x9a]),
     (''f64.ceil'', [B 0x9b]), (''f64.floor'', [B 0x9c]), (''f64.trunc'', [B 0x9d]), (''f64.nearest'', [B 0x9e]),
     (''f64.sqrt'', [B 0x9f]), (''f64.add'', [B 0xa0]), (''f64.sub'', [B 0xa1]), (''f64.mul'', [B 0xa2]),
     (''f64.div'', [B 0xa3]), (''f64.copysign'', [B 0xa6]), (''i32.wrap_i64'', [B 0xa7]),
     (''i32.trunc_f64_s'', [B 0xaa]), (''f64.convert_i32_s'', [B 0xb7]), (''f64.convert_i32_u'', [B 0xb8]),
     (''i64.reinterpret_f64'', [B 0xbd]), (''f64.reinterpret_i64'', [B 0xbf]),
     (''i32.reinterpret_f32'', [B 0xbc]), (''f32.reinterpret_i32'', [B 0xbe])]"

definition obj_ref_ops :: op_table where
  "obj_ref_ops =
    [(''ref.null.extern'', [B 0xd0, B 0x6f]), (''ref.is_null'', [B 0xd1]), (''ref.as_non_null'', [B 0xd4]),
     (''ref.eq'', [B 0xd3]), (''any.convert_extern'', [B 0xfb, B 0x1a]),
     (''extern.convert_any'', [B 0xfb, B 0x1b]), (''array.len'', [B 0xfb, B 0x0f]),
     (''memory.size'', [B 0x3f, B 0x00]), (''memory.grow'', [B 0x40, B 0x00])]"

definition obj_depth_ops :: op_table where
  "obj_depth_ops =
    [(''br'', [B 0x0c]), (''br_if'', [B 0x0d]), (''rethrow'', [B 0x09])]"

definition obj_func_ops :: op_table where
  "obj_func_ops =
    [(''call'', [B 0x10]), (''ref.func'', [B 0xd2])]"

definition obj_local_ops :: op_table where
  "obj_local_ops =
    [(''local.get'', [B 0x20]), (''local.set'', [B 0x21]), (''local.tee'', [B 0x22])]"

definition obj_global_ops :: op_table where
  "obj_global_ops =
    [(''global.get'', [B 0x23]), (''global.set'', [B 0x24])]"

definition obj_null_ops :: op_table where
  "obj_null_ops =
    [(''ref.null'', [B 0xd0])]"

definition obj_cast_ops :: op_table where
  "obj_cast_ops =
    [(''ref.cast'', [B 0xfb, B 0x16]), (''ref.cast_null'', [B 0xfb, B 0x17]), (''ref.test'', [B 0xfb, B 0x14])]"

definition obj_typed_ops :: op_table where
  "obj_typed_ops =
    [(''struct.new'', [B 0xfb, B 0x00]), (''array.new'', [B 0xfb, B 0x06]),
     (''array.new_default'', [B 0xfb, B 0x07]), (''array.get'', [B 0xfb, B 0x0b]),
     (''array.get_s'', [B 0xfb, B 0x0c]), (''array.set'', [B 0xfb, B 0x0e]), (''call_ref'', [B 0x14])]"

definition obj_field_ops :: op_table where
  "obj_field_ops =
    [(''struct.get'', [B 0xfb, B 0x02]), (''struct.set'', [B 0xfb, B 0x05])]"

definition obj_plain_ops :: op_table where
  "obj_plain_ops = obj_control_ops @ obj_number_ops @ obj_ref_ops"

text \<open>Writes to the encoder leave the relocations alone; \<open>mark\<close> records one at the current position.\<close>

type_synonym obj_writer = "encoder \<times> obj_reloc list \<Rightarrow> wasm_error + encoder \<times> obj_reloc list"

abbreviation no_ctx :: emit_ctx where
  "no_ctx \<equiv> \<lparr>ec_val = None, ec_layout = None\<rparr>"

definition bare :: "writer \<Rightarrow> obj_writer" where
  "bare w = (\<lambda>(enc, relocs). bindE (w enc) (\<lambda>enc. Inr (enc, relocs)))"

definition mark :: "int \<Rightarrow> int \<Rightarrow> obj_writer" where
  "mark ty symbolIndex =
     (\<lambda>(enc, relocs). Inr (enc, relocs @ [\<lparr>or_type = ty, or_offset = int (position enc), or_symbolIndex = symbolIndex\<rparr>]))"

definition mark_symbol :: "(int \<Rightarrow> nat option) \<Rightarrow> int \<Rightarrow> int \<Rightarrow> obj_writer" where
  "mark_symbol m ty index = (case m index of None \<Rightarrow> Inr | Some symIdx \<Rightarrow> mark ty (int symIdx))"

definition obj_op :: "op_table \<Rightarrow> string \<Rightarrow> obj_writer list \<Rightarrow> obj_writer" where
  "obj_op table op operands =
     (case map_of table op of None \<Rightarrow> Inr | Some ws \<Rightarrow> steps (map (\<lambda>w. bare (put_op w)) ws @ operands))"

definition encode_catch_reloc :: "symbol_maps \<Rightarrow> try_table_catch \<Rightarrow> obj_writer" where
  "encode_catch_reloc sm clause =
     steps ([bare (put_byte (catch_code (tt_kind clause)))] @
       (if names_tag (tt_kind clause) then
          (case tt_tagIdx clause of
             None \<Rightarrow> [\<lambda>_. Inl (missing_tag (tt_kind clause))]
           | Some t \<Rightarrow> [mark_symbol (tagIdxToSymIdx sm) R_WASM_TAG_INDEX_LEB t, bare (put_int t)])
        else []) @
       [bare (put_int (tt_depth clause))])"

fun encodeInstrWithReloc :: "'f float_layout \<Rightarrow> symbol_maps \<Rightarrow> 'f instr \<Rightarrow> obj_writer" where
  "encodeInstrWithReloc fl sm (Plain op) = obj_op obj_plain_ops op []"
| "encodeInstrWithReloc fl sm (Block bt body) =
     steps ([bare (put_byte 0x02), bare (encodeBlockType no_ctx bt)] @ map (encodeInstrWithReloc fl sm) body @ [bare (put_byte 0x0b)])"
| "encodeInstrWithReloc fl sm (Loop bt body) =
     steps ([bare (put_byte 0x03), bare (encodeBlockType no_ctx bt)] @ map (encodeInstrWithReloc fl sm) body @ [bare (put_byte 0x0b)])"
| "encodeInstrWithReloc fl sm (If bt thn els) =
     steps ([bare (put_byte 0x04), bare (encodeBlockType no_ctx bt)] @ map (encodeInstrWithReloc fl sm) thn @
       (case els of
          Some (i # is) \<Rightarrow> bare (put_byte 0x05) # map (encodeInstrWithReloc fl sm) (i # is)
        | _ \<Rightarrow> if is_val bt then [bare (put_byte 0x05), bare (put_byte 0x00)] else []) @
       [bare (put_byte 0x0b)])"
| "encodeInstrWithReloc fl sm (Depth op depth) = obj_op obj_depth_ops op [bare (put_int depth)]"
| "encodeInstrWithReloc fl sm (Func op funcIdx) =
     obj_op obj_func_ops op [mark_symbol (funcIdxToSymIdx sm) R_WASM_FUNCTION_INDEX_LEB funcIdx, bare (put_int funcIdx)]"
| "encodeInstrWithReloc fl sm (CallIndirect typeIdx tableIdx) =
     steps [bare (put_byte 0x11), mark R_WASM_TYPE_INDEX_LEB typeIdx, bare (put_int typeIdx), bare (put_int tableIdx)]"
| "encodeInstrWithReloc fl sm (Local op index) = obj_op obj_local_ops op [bare (put_int index)]"
| "encodeInstrWithReloc fl sm (Global op index) =
     obj_op obj_global_ops op [mark_symbol (globalIdxToSymIdx sm) R_WASM_GLOBAL_INDEX_LEB index, bare (put_int index)]"
| "encodeInstrWithReloc fl sm (I32Const v) = steps [bare (put_byte 0x41), bare (i32 v)]"
| "encodeInstrWithReloc fl sm (I64Const v) = steps [bare (put_byte 0x42), bare (i64 v)]"
| "encodeInstrWithReloc fl sm (F64Const v) = steps [bare (put_byte 0x44), bare (f64 (fl_f64 fl) v)]"
| "encodeInstrWithReloc fl sm (F32Const v) = steps [bare (put_byte 0x43), bare (f32 (fl_f32 fl) v)]"
| "encodeInstrWithReloc fl sm (Heap op typeIdx) =
     (if map_of obj_null_ops op \<noteq> None then obj_op obj_null_ops op [bare (i32 typeIdx)]
      else obj_op obj_cast_ops op [if 0 \<le> typeIdx then mark R_WASM_TYPE_INDEX_LEB typeIdx else Inr, bare (i32 typeIdx)])"
| "encodeInstrWithReloc fl sm (Typed op typeIdx) =
     obj_op obj_typed_ops op [mark R_WASM_TYPE_INDEX_LEB typeIdx, bare (put_int typeIdx)]"
| "encodeInstrWithReloc fl sm (Field op typeIdx fieldIdx) =
     obj_op obj_field_ops op [mark R_WASM_TYPE_INDEX_LEB typeIdx, bare (put_int typeIdx), bare (put_int fieldIdx)]"
| "encodeInstrWithReloc fl sm (ArrayNewFixed typeIdx len) =
     steps [bare (put_byte 0xfb), bare (put_byte 0x08), mark R_WASM_TYPE_INDEX_LEB typeIdx, bare (put_int typeIdx), bare (put_int len)]"
| "encodeInstrWithReloc fl sm (Throw tagIdx) =
     steps [bare (put_byte 0x08), mark_symbol (tagIdxToSymIdx sm) R_WASM_TAG_INDEX_LEB tagIdx, bare (put_int tagIdx)]"
| "encodeInstrWithReloc fl sm (TryTable bt body catches) =
     steps ([bare (put_byte 0x1f), bare (encodeBlockType no_ctx bt), bare (put_int (int (length catches)))] @
       map (encode_catch_reloc sm) catches @ map (encodeInstrWithReloc fl sm) body @ [bare (put_byte 0x0b)])"
| "encodeInstrWithReloc fl sm (Try bt body catches catchAll) =
     steps ([bare (put_byte 0x06), bare (encodeBlockType no_ctx bt)] @ map (encodeInstrWithReloc fl sm) body @
       concat (map (\<lambda>(tagIdx, cbody).
         [bare (put_byte 0x07), bare (put_int tagIdx)] @ map (encodeInstrWithReloc fl sm) cbody) catches) @
       (case catchAll of None \<Rightarrow> [] | Some cbody \<Rightarrow> bare (put_byte 0x19) # map (encodeInstrWithReloc fl sm) cbody) @
       [bare (put_byte 0x0b)])"
| "encodeInstrWithReloc fl sm _ = Inr"

section \<open>The object file\<close>

definition encodeFunctionWithReloc :: "'f float_layout \<Rightarrow> symbol_maps \<Rightarrow> 'f wasm_function \<Rightarrow> obj_writer" where
  "encodeFunctionWithReloc fl sm f = (\<lambda>(enc, relocs).
     bindE (steps ([bare (put_locals no_ctx (fn_locals f))] @ map (encodeInstrWithReloc fl sm) (fn_body f) @ [bare (put_byte 0x0b)])
         (new_encoder, [])) (\<lambda>(body, bodyRelocs).
     bindE (put_int (int (length (enc_finish body))) new_encoder) (\<lambda>sizePrefix.
       let base = int (position enc) + int (length (enc_finish sizePrefix)) in
       bindE (put_sized body enc) (\<lambda>enc.
         Inr (enc, relocs @ map (\<lambda>r. r\<lparr>or_offset := base + or_offset r\<rparr>) bodyRelocs)))))"

definition object_code :: "'f float_layout \<Rightarrow> symbol_maps \<Rightarrow> 'f wasm_module \<Rightarrow> wasm_error + encoder \<times> obj_reloc list" where
  "object_code fl sm md =
     steps (bare (put_int (int (length (md_functions md)))) # map (encodeFunctionWithReloc fl sm) (md_functions md)) (new_encoder, [])"

definition object_element :: "'f float_layout \<Rightarrow> symbol_maps \<Rightarrow> 'f wasm_element \<Rightarrow> writer" where
  "object_element fl sm el =
     (let explicitTable = wl_tableIdx el \<noteq> 0 in
      steps ([put_byte (if explicitTable then 0x02 else 0x00)] @ (if explicitTable then [put_int (wl_tableIdx el)] else []) @
        map (\<lambda>i e. bindE (encodeInstrWithReloc fl sm i (e, [])) (\<lambda>(e, _). Inr e)) (wl_offset el) @
        [put_byte 0x0b] @ (if explicitTable then [put_byte 0x00] else []) @
        [put_vector (wl_funcIndices el) (\<lambda>i. put_int i)]))"

definition object_tag :: "tag_def \<Rightarrow> writer" where
  "object_tag tag = steps [put_byte 0x00, put_int (td_typeIdx tag)]"

definition object_sections :: "'f float_layout \<Rightarrow> symbol_maps \<Rightarrow> 'f wasm_module \<Rightarrow> writer list" where
  "object_sections fl sm md =
     section_if (md_types md \<noteq> []) 1 (put_vector (md_types md) (encodeTypeDef no_ctx)) @
     section_if (md_imports md \<noteq> []) 2 (put_vector (md_imports md) (encodeImport no_ctx)) @
     section_if (md_functions md \<noteq> []) 3 (put_vector (md_functions md) (\<lambda>f. put_int (fn_typeIdx f))) @
     section_if (md_tables md \<noteq> []) 4 (put_vector (md_tables md) put_table) @
     section_if (md_tags md \<noteq> []) 13 (put_vector (md_tags md) object_tag) @
     section_if (md_globals md \<noteq> []) 6 (put_vector (md_globals md) (encodeGlobal no_ctx fl)) @
     section_if (md_exports md \<noteq> []) 7 (put_vector (md_exports md) (encodeExport no_ctx)) @
     section_if (md_elements md \<noteq> []) 9 (put_vector (md_elements md) (object_element fl sm))"

definition put_reloc :: "obj_reloc \<Rightarrow> writer" where
  "put_reloc r = steps [put_byte (or_type r), put_int (or_offset r), put_int (or_symbolIndex r)]"

definition put_relocs :: "nat \<Rightarrow> obj_reloc list \<Rightarrow> writer" where
  "put_relocs codeSectionIndex relocs =
     steps ([put_name (str ''reloc.CODE''), put_int (int codeSectionIndex), put_int (int (length relocs))] @ map put_reloc relocs)"

definition put_symbol :: "symbol_info \<Rightarrow> writer" where
  "put_symbol sy =
     steps ([put_byte (int (sy_kind sy)), put_int (int (sy_flags sy)), put_int (int (sy_index sy))] @
       (if flagged (sy_flags sy) SYMBOL_UNDEFINED then [] else [put_name (sy_name sy)]))"

definition put_symbols :: "symbol_info list \<Rightarrow> writer" where
  "put_symbols symbols = steps (put_int (int (length symbols)) # map put_symbol symbols)"

definition put_linking :: "symbol_info list \<Rightarrow> writer" where
  "put_linking symbols e =
     bindE (steps [put_name (str ''linking''), put_int 2] e) (\<lambda>e.
     bindE (put_symbols symbols new_encoder) (\<lambda>symSub.
       steps [put_byte (int WASM_SYMBOL_TABLE), put_sized symSub] e))"

definition emitObject :: "'f float_layout \<Rightarrow> 'f wasm_module \<Rightarrow> wasm_error + byte list" where
  "emitObject fl md =
     (let sm = object_maps md; before = object_sections fl sm md in
      bindE (steps ([put_bytes (Numbers [0x00, 0x61, 0x73, 0x6d]), put_bytes (Numbers [0x01, 0x00, 0x00, 0x00])] @ before)
          new_encoder) (\<lambda>e.
      bindE (if md_functions md = [] then Inr (new_encoder, []) else object_code fl sm md) (\<lambda>(codeSec, relocs).
      bindE (steps ((if md_functions md = [] then [] else [put_byte 10, put_sized codeSec]) @
          section_if (relocs \<noteq> []) 0 (put_relocs (length before) relocs) @
          [put_section 0 (put_linking (object_symbols md))]) e) (\<lambda>e.
        Inr (enc_finish e)))))"

end
