(* ===== verification/Object_Relocs.thy ===== *)
theory Object_Relocs
  imports Object_Emitter
begin

text \<open>
  Relocations and symbols of an object file. \<open>reloc_on\<close> says that a relocation stands at the start of a LEB128
  operand that holds the index its symbol is mapped from; every relocation of the code section does. The
  symbol maps are closed forms of the loops that build them, so the symbol of a function, global or tag is
  known from its index, and that of a stable handle from the position the layout resolves it to.
\<close>

section \<open>Relocations stand on their operands\<close>

definition reloc_operand :: "symbol_maps \<Rightarrow> int \<Rightarrow> int \<Rightarrow> byte list \<Rightarrow> bool" where
  "reloc_operand sm ty sym_index operand \<longleftrightarrow>
     (\<exists>n s. operand = uleb n \<and> sym_index = int s \<and>
        (ty = R_WASM_FUNCTION_INDEX_LEB \<and> funcIdxToSymIdx sm (int n) = Some s \<or>
         ty = R_WASM_GLOBAL_INDEX_LEB \<and> globalIdxToSymIdx sm (int n) = Some s \<or>
         ty = R_WASM_TAG_INDEX_LEB \<and> tagIdxToSymIdx sm (int n) = Some s)) \<or>
     ty = R_WASM_TYPE_INDEX_LEB \<and> (\<exists>t. sym_index = int t \<and> (operand = uleb t \<or> operand = sleb (toInt32 (int t))))"

definition reloc_on :: "symbol_maps \<Rightarrow> byte list \<Rightarrow> obj_reloc \<Rightarrow> bool" where
  "reloc_on sm bytes r \<longleftrightarrow>
     (\<exists>pre operand post. bytes = pre @ operand @ post \<and> int (length pre) = or_offset r \<and>
        reloc_operand sm (or_type r) (or_symbolIndex r) operand)"

lemma reloc_on_append: "reloc_on sm bytes r \<Longrightarrow> reloc_on sm (bytes @ rest) r"
  unfolding reloc_on_def by (metis append.assoc)

lemma reloc_on_shift:
  assumes "reloc_on sm bytes r" "int (length before) = base"
  shows "reloc_on sm (before @ bytes) (r\<lparr>or_offset := base + or_offset r\<rparr>)"
proof -
  obtain pre operand post where "bytes = pre @ operand @ post" "int (length pre) = or_offset r"
    "reloc_operand sm (or_type r) (or_symbolIndex r) operand"
    using assms(1) unfolding reloc_on_def by blast
  with assms(2) show ?thesis unfolding reloc_on_def by (intro exI [of _ "before @ pre"] exI [of _ operand] exI [of _ post]) simp
qed

text \<open>Plain writers add bytes of a known form.\<close>

definition grows :: "writer \<Rightarrow> (byte list \<Rightarrow> bool) \<Rightarrow> bool" where
  "grows w Q \<longleftrightarrow> (\<forall>e e'. enc_ok e \<longrightarrow> w e = Inr e' \<longrightarrow> enc_ok e' \<and> (\<exists>bs. written e' = written e @ bs \<and> Q bs))"

named_theorems grow_rules \<open>writers that only append\<close>

abbreviation any :: "byte list \<Rightarrow> bool" where "any \<equiv> \<lambda>_. True"

lemma grows_appends: "appends w bs \<Longrightarrow> grows w ((=) bs)"
  unfolding grows_def appends_def by (metis Inr_inject)

lemma grows_any: "grows w Q \<Longrightarrow> grows w any"
  by (auto simp: grows_def)

lemma grows_fail [grow_rules]: "grows (\<lambda>_. Inl e) Q"
  by (simp add: grows_def)

lemma grows_none [grow_rules]: "grows Inr any"
  by (simp add: grows_def)

lemma grows_bind: "grows f any \<Longrightarrow> grows g any \<Longrightarrow> grows (\<lambda>e. bindE (f e) g) any"
  unfolding grows_def bindE_eq_Inr by (metis append.assoc)

lemma grows_Nil [grow_rules]: "grows (steps []) any"
  by (simp add: grows_def)

lemma grows_Cons [grow_rules]: "grows w any \<Longrightarrow> grows (steps ws) any \<Longrightarrow> grows (steps (w # ws)) any"
  unfolding steps_Cons by (rule grows_bind)

lemma grows_byte [grow_rules]: "grows (put_byte b) any"
  by (rule grows_any, rule grows_appends, rule appends_byte)

lemma grows_int: "grows (put_int n) (\<lambda>bs. 0 \<le> n \<and> bs = uleb (nat n))"
proof (cases "0 \<le> n \<and> n < 2 ^ 32")
  case True
  then have "nat n < 2 ^ 32" by (simp add: nat_less_iff)
  from grows_appends [OF appends_u32 [OF this]] True show ?thesis by (auto simp: grows_def)
qed (auto simp: grows_def u32_def split: if_splits)

lemma grows_int_any [grow_rules]: "grows (put_int n) any"
  by (rule grows_any, rule grows_int)

lemma grows_i32: "grows (i32 v) ((=) (sleb (toInt32 v)))"
  by (rule grows_appends, rule appends_i32)

lemma grows_i32_any [grow_rules]: "grows (i32 v) any"
  by (rule grows_any, rule grows_i32)

lemma grows_i64 [grow_rules]: "grows (i64 v) any"
  by (rule grows_any, rule grows_appends, rule appends_i64)

lemma grows_bytes [grow_rules]: "grows (put_bytes bs) any"
  by (rule grows_any, rule grows_appends, rule appends_bytes)

lemma grows_floats [grow_rules]: "grows (f64 fb v) any" "grows (f32 fb v) any"
  by (simp_all add: f64_def [abs_def] f32_def [abs_def] grows_bytes)

lemma grows_op [grow_rules]: "grows (put_op w) any"
  by (cases w) (simp_all add: grows_byte grows_int_any)

lemma grows_val [grow_rules]: "grows (encodeValType no_ctx t) any"
  by (cases t) (simp_all only: encodeValType.simps, (intro grow_rules | simp add: when_valid_def [abs_def] grows_none)+)

lemma grows_block [grow_rules]: "grows (encodeBlockType no_ctx bt) any"
  by (cases bt) (simp_all only: encodeBlockType.simps, (intro grow_rules | simp add: when_valid_def [abs_def] grows_none)+)

lemma grows_steps: "list_all (\<lambda>w. grows w any) ws \<Longrightarrow> grows (steps ws) any"
proof (induction ws)
  case (Cons w ws)
  then show ?case by (intro grows_Cons) simp_all
qed (rule grows_Nil)

lemma grows_vector [grow_rules]: "(\<And>x. grows (f x) any) \<Longrightarrow> grows (put_vector xs f) any"
  unfolding put_vector_def for_each_def by (intro grows_bind grows_int_any grows_steps) (simp add: list_all_iff)

lemma grows_locals [grow_rules]: "grows (put_locals no_ctx locals) any"
  unfolding put_locals_def case_prod_beta by (intro grow_rules)

text \<open>Object writers keep the relocations before them and add ones that stand on operands.\<close>

definition relocates :: "symbol_maps \<Rightarrow> obj_writer \<Rightarrow> bool" where
  "relocates sm ow \<longleftrightarrow>
     (\<forall>enc relocs enc' relocs'. enc_ok enc \<longrightarrow> ow (enc, relocs) = Inr (enc', relocs') \<longrightarrow>
        enc_ok enc' \<and>
        (\<exists>bs new. written enc' = written enc @ bs \<and> relocs' = relocs @ new \<and> list_all (reloc_on sm (written enc')) new))"

named_theorems reloc_rules \<open>object writers whose relocations stand on operands\<close>

lemma relocatesI:
  assumes "\<And>enc relocs enc' relocs'. enc_ok enc \<Longrightarrow> ow (enc, relocs) = Inr (enc', relocs') \<Longrightarrow>
    enc_ok enc' \<and> (\<exists>bs new. written enc' = written enc @ bs \<and> relocs' = relocs @ new \<and> list_all (reloc_on sm (written enc')) new)"
  shows "relocates sm ow"
  using assms by (simp add: relocates_def)

lemma relocatesD:
  assumes "relocates sm ow" "enc_ok enc" "ow (enc, relocs) = Inr (enc', relocs')"
  obtains bs new where "enc_ok enc'" "written enc' = written enc @ bs" "relocs' = relocs @ new"
    "list_all (reloc_on sm (written enc')) new"
  using assms unfolding relocates_def by blast

lemma relocates_bare [reloc_rules]: "grows w any \<Longrightarrow> relocates sm (bare w)"
  by (rule relocatesI) (auto simp: bare_def bindE_eq_Inr grows_def)

lemma relocates_none [reloc_rules]: "relocates sm Inr"
  by (rule relocatesI) simp

lemma relocates_fail [reloc_rules]: "relocates sm (\<lambda>_. Inl e)"
  by (rule relocatesI) simp

lemma relocates_bind:
  assumes "relocates sm f" "relocates sm g"
  shows "relocates sm (\<lambda>s. bindE (f s) g)"
proof (rule relocatesI)
  fix enc relocs enc' relocs'
  assume enc: "enc_ok enc" and run: "bindE (f (enc, relocs)) g = Inr (enc', relocs')"
  then obtain enc1 relocs1 where 1: "f (enc, relocs) = Inr (enc1, relocs1)" and 2: "g (enc1, relocs1) = Inr (enc', relocs')"
    by (auto simp: bindE_eq_Inr)
  obtain bs new where r1: "enc_ok enc1" "written enc1 = written enc @ bs" "relocs1 = relocs @ new" "list_all (reloc_on sm (written enc1)) new"
    by (rule relocatesD [OF assms(1) enc 1])
  obtain bs' new' where r2: "enc_ok enc'" "written enc' = written enc1 @ bs'" "relocs' = relocs1 @ new'" "list_all (reloc_on sm (written enc')) new'"
    by (rule relocatesD [OF assms(2) r1(1) 2])
  have "list_all (reloc_on sm (written enc')) new" using r1(4) r2(2) by (auto simp: list_all_iff intro: reloc_on_append)
  with r1 r2 show "enc_ok enc' \<and> (\<exists>bs new. written enc' = written enc @ bs \<and> relocs' = relocs @ new \<and> list_all (reloc_on sm (written enc')) new)"
    by (intro conjI exI [of _ "bs @ bs'"] exI [of _ "new @ new'"]) simp_all
qed

lemma relocates_Nil [reloc_rules]: "relocates sm (steps [])"
  by (rule relocatesI) simp

lemma relocates_Cons: "relocates sm w \<Longrightarrow> relocates sm (steps ws) \<Longrightarrow> relocates sm (steps (w # ws))"
  unfolding steps_Cons by (rule relocates_bind)

lemma relocates_append [reloc_rules]: "relocates sm (steps xs) \<Longrightarrow> relocates sm (steps ys) \<Longrightarrow> relocates sm (steps (xs @ ys))"
  unfolding steps_append by (rule relocates_bind)

lemma relocates_map: "(\<And>x. x \<in> set xs \<Longrightarrow> relocates sm (f x)) \<Longrightarrow> relocates sm (steps (map f xs))"
  by (induction xs) (simp_all only: list.map relocates_Nil, intro relocates_Cons, simp_all)

lemma relocates_concat: "(\<And>x. x \<in> set xs \<Longrightarrow> relocates sm (steps (f x))) \<Longrightarrow> relocates sm (steps (concat (map f xs)))"
  by (induction xs) (simp_all only: list.map concat.simps relocates_Nil, intro relocates_append, simp_all)

text \<open>A mark is right when the operand is written next.\<close>

lemma relocates_marked:
  assumes "grows w (reloc_operand sm ty s)" "relocates sm (steps rest)"
  shows "relocates sm (steps (mark ty s # bare w # rest))"
proof -
  have "relocates sm (\<lambda>st. bindE (mark ty s st) (bare w))"
  proof (rule relocatesI)
    fix enc relocs enc' relocs'
    assume enc: "enc_ok enc" and run: "bindE (mark ty s (enc, relocs)) (bare w) = Inr (enc', relocs')"
    let ?r = "\<lparr>or_type = ty, or_offset = int (position enc), or_symbolIndex = s\<rparr>"
    from run have w: "w enc = Inr enc'" and relocs': "relocs' = relocs @ [?r]" by (auto simp: mark_def bare_def bindE_eq_Inr)
    then obtain bs where ok: "enc_ok enc'" and bs: "written enc' = written enc @ bs" "reloc_operand sm ty s bs"
      using assms(1) enc unfolding grows_def by blast
    have "reloc_on sm (written enc') ?r"
      unfolding reloc_on_def using bs enc by (intro exI [of _ "written enc"] exI [of _ bs] exI [of _ "[]"]) (simp add: position_def)
    with ok bs relocs' show "enc_ok enc' \<and> (\<exists>bs new. written enc' = written enc @ bs \<and> relocs' = relocs @ new \<and> list_all (reloc_on sm (written enc')) new)"
      by simp
  qed
  from relocates_bind [OF this assms(2)] show ?thesis by (simp only: steps_Cons bindE_assoc)
qed

lemma operand_type: "grows (put_int t) (reloc_operand sm R_WASM_TYPE_INDEX_LEB t)"
proof -
  have "reloc_operand sm R_WASM_TYPE_INDEX_LEB t (uleb (nat t))" if "0 \<le> t"
    using that unfolding reloc_operand_def by (metis nat_0_le)
  then show ?thesis using grows_int [of t] unfolding grows_def by blast
qed

lemma operand_heap: "0 \<le> t \<Longrightarrow> grows (i32 t) (reloc_operand sm R_WASM_TYPE_INDEX_LEB t)"
proof -
  assume "0 \<le> t"
  then have "reloc_operand sm R_WASM_TYPE_INDEX_LEB t (sleb (toInt32 t))"
    unfolding reloc_operand_def by (metis nat_0_le)
  then show ?thesis using grows_i32 [of t] unfolding grows_def by blast
qed

lemma relocates_symbol:
  assumes "\<And>s. m n = Some s \<Longrightarrow> 0 \<le> n \<Longrightarrow> reloc_operand sm ty (int s) (uleb (nat n))" "relocates sm (steps rest)"
  shows "relocates sm (steps (mark_symbol m ty n # bare (put_int n) # rest))"
proof (cases "m n")
  case None
  with assms(2) show ?thesis unfolding mark_symbol_def None option.case
    by (intro relocates_Cons relocates_none relocates_bare grow_rules)
next
  case (Some s)
  have "grows (put_int n) (reloc_operand sm ty (int s))" using grows_int [of n] assms(1) [OF Some] unfolding grows_def by blast
  from relocates_marked [OF this assms(2)] show ?thesis by (simp only: mark_symbol_def Some option.case)
qed

lemmas relocates_seq = relocates_append relocates_Cons relocates_Nil relocates_bare

lemma relocates_op: "relocates sm (steps operands) \<Longrightarrow> relocates sm (obj_op table op operands)"
proof (cases "map_of table op")
  case (Some ws)
  assume "relocates sm (steps operands)"
  then show ?thesis unfolding obj_op_def Some option.case
    by (intro relocates_append relocates_map relocates_bare grow_rules)
qed (simp add: obj_op_def relocates_none)

lemma operand_func: "funcIdxToSymIdx sm n = Some s \<Longrightarrow> 0 \<le> n \<Longrightarrow> reloc_operand sm R_WASM_FUNCTION_INDEX_LEB (int s) (uleb (nat n))"
  unfolding reloc_operand_def by (intro disjI1 exI [of _ "nat n"] exI [of _ s]) simp

lemma operand_global: "globalIdxToSymIdx sm n = Some s \<Longrightarrow> 0 \<le> n \<Longrightarrow> reloc_operand sm R_WASM_GLOBAL_INDEX_LEB (int s) (uleb (nat n))"
  unfolding reloc_operand_def by (intro disjI1 exI [of _ "nat n"] exI [of _ s]) simp

lemma operand_tag: "tagIdxToSymIdx sm n = Some s \<Longrightarrow> 0 \<le> n \<Longrightarrow> reloc_operand sm R_WASM_TAG_INDEX_LEB (int s) (uleb (nat n))"
  unfolding reloc_operand_def by (intro disjI1 exI [of _ "nat n"] exI [of _ s]) simp

lemmas operand_rules = operand_type operand_func operand_global operand_tag

lemma relocates_catch: "relocates sm (encode_catch_reloc sm cl)"
proof (cases "names_tag (tt_kind cl)")
  case True
  have "relocates sm (steps (case tt_tagIdx cl of None \<Rightarrow> [\<lambda>_. Inl (missing_tag (tt_kind cl))]
      | Some t \<Rightarrow> [mark_symbol (tagIdxToSymIdx sm) R_WASM_TAG_INDEX_LEB t, bare (put_int t)]))"
    by (cases "tt_tagIdx cl")
       (simp_all only: option.case, (intro relocates_Cons relocates_fail relocates_Nil relocates_symbol operand_tag; assumption)+)
  then show ?thesis unfolding encode_catch_reloc_def if_P [OF True]
    by (intro relocates_seq grow_rules)
next
  case False
  then show ?thesis unfolding encode_catch_reloc_def if_not_P [OF False]
    by (intro relocates_seq grow_rules)
qed

lemma relocates_instr: "relocates sm (encodeInstrWithReloc fl sm i)"
proof (induction i)
  case (Block bt body)
  then have "relocates sm (steps (map (encodeInstrWithReloc fl sm) body))" by (intro relocates_map)
  then show ?case unfolding encodeInstrWithReloc.simps by (intro relocates_seq grow_rules)
next
  case (Loop bt body)
  then have "relocates sm (steps (map (encodeInstrWithReloc fl sm) body))" by (intro relocates_map)
  then show ?case unfolding encodeInstrWithReloc.simps by (intro relocates_seq grow_rules)
next
  case (If bt thn els)
  have "relocates sm (steps (map (encodeInstrWithReloc fl sm) thn))" using If(1) by (intro relocates_map)
  moreover have "relocates sm (steps (case els of Some (i # is) \<Rightarrow> bare (put_byte 0x05) # map (encodeInstrWithReloc fl sm) (i # is)
      | _ \<Rightarrow> if is_val bt then [bare (put_byte 0x05), bare (put_byte 0x00)] else []))"
  proof (cases "\<exists>i is. els = Some (i # is)")
    case True
    then obtain i "is" where els: "els = Some (i # is)" by blast
    have "relocates sm (steps (map (encodeInstrWithReloc fl sm) (i # is)))"
      by (rule relocates_map, rule If(2) [of "i # is"]) (simp_all add: els)
    then show ?thesis unfolding els option.case list.case by (intro relocates_Cons relocates_bare grow_rules)
  next
    case False
    then have "els = None \<or> els = Some []" by (cases els; cases "the els") auto
    then show ?thesis
      by (cases "is_val bt"; elim disjE; simp only: option.case list.case if_True if_False; intro relocates_seq grow_rules)
  qed
  ultimately show ?case unfolding encodeInstrWithReloc.simps by (intro relocates_seq grow_rules)
next
  case (TryTable bt body catches)
  then have "relocates sm (steps (map (encodeInstrWithReloc fl sm) body))" by (intro relocates_map)
  moreover have "relocates sm (steps (map (encode_catch_reloc sm) catches))" by (intro relocates_map relocates_catch)
  ultimately show ?case unfolding encodeInstrWithReloc.simps by (intro relocates_seq grow_rules)
next
  case (Try bt body catches catchAll)
  have "relocates sm (steps (map (encodeInstrWithReloc fl sm) body))" using Try(1) by (intro relocates_map)
  moreover have "relocates sm (steps (map (encodeInstrWithReloc fl sm) (snd x)))" if "x \<in> set catches" for x
    using Try(2) [OF that, of "snd x"] by (intro relocates_map) (auto simp: snds.simps)
  then have "relocates sm (steps (concat (map (\<lambda>(t, b). [bare (put_byte 0x07), bare (put_int t)] @ map (encodeInstrWithReloc fl sm) b) catches)))"
    unfolding case_prod_beta by (intro relocates_concat relocates_seq grow_rules)
  moreover have "relocates sm (steps (case catchAll of None \<Rightarrow> [] | Some b \<Rightarrow> bare (put_byte 0x19) # map (encodeInstrWithReloc fl sm) b))"
  proof (cases catchAll)
    case (Some b)
    have "relocates sm (steps (map (encodeInstrWithReloc fl sm) b))" by (rule relocates_map, rule Try(3) [of b]) (simp_all add: Some)
    then show ?thesis unfolding Some option.case by (intro relocates_Cons relocates_bare grow_rules)
  qed (simp only: option.case relocates_Nil)
  ultimately show ?case unfolding encodeInstrWithReloc.simps by (intro relocates_seq grow_rules)
next
  case (Heap op t)
  have "relocates sm (steps [if 0 \<le> t then mark R_WASM_TYPE_INDEX_LEB t else Inr, bare (i32 t)])"
    by (cases "0 \<le> t") (simp_all only: if_True if_False,
      (intro relocates_marked operand_heap relocates_Cons relocates_none relocates_Nil relocates_bare grow_rules; simp)+)
  then have "relocates sm (obj_op obj_cast_ops op [if 0 \<le> t then mark R_WASM_TYPE_INDEX_LEB t else Inr, bare (i32 t)])"
    by (rule relocates_op)
  moreover have "relocates sm (obj_op obj_null_ops op [bare (i32 t)])" by (intro relocates_op relocates_seq grow_rules)
  ultimately show ?case unfolding encodeInstrWithReloc.simps by (cases "map_of obj_null_ops op = None") simp_all
qed (simp_all only: encodeInstrWithReloc.simps,
     (intro relocates_op relocates_marked relocates_symbol operand_rules relocates_none relocates_seq grow_rules; assumption?)+)

section \<open>The code section\<close>

lemma relocates_function: "relocates sm (encodeFunctionWithReloc fl sm f)"
proof (rule relocatesI)
  fix enc relocs enc' relocs'
  assume enc: "enc_ok enc" and run: "encodeFunctionWithReloc fl sm f (enc, relocs) = Inr (enc', relocs')"
  let ?ops = "steps ([bare (put_locals no_ctx (fn_locals f))] @ map (encodeInstrWithReloc fl sm) (fn_body f) @ [bare (put_byte 0x0b)])"
  obtain body bodyRelocs sizePrefix where body: "?ops (new_encoder, []) = Inr (body, bodyRelocs)"
    and prefix: "put_int (int (length (written body))) new_encoder = Inr sizePrefix"
    and sized: "put_sized body enc = Inr enc'"
    and relocs': "relocs' = relocs @ map (\<lambda>r. r\<lparr>or_offset := int (position enc) + int (length (written sizePrefix)) + or_offset r\<rparr>) bodyRelocs"
    using run unfolding encodeFunctionWithReloc_def by (auto simp: bindE_eq_Inr Let_def simp del: steps.simps append.simps)
  have "relocates sm (steps (map (encodeInstrWithReloc fl sm) (fn_body f)))" by (intro relocates_map relocates_instr)
  then have ops: "relocates sm ?ops" by (intro relocates_seq grow_rules)
  obtain bs new where "enc_ok body" "written body = written new_encoder @ bs" "bodyRelocs = [] @ new"
    "list_all (reloc_on sm (written body)) new"
    by (rule relocatesD [OF ops new_encoder_ok(1) body])
  then have on: "list_all (reloc_on sm (written body)) bodyRelocs" by simp
  have len: "length (written body) < 2 ^ 32" using prefix by (auto simp: u32_def split: if_splits)
  let ?size = "uleb (length (written body))"
  have size: "appends (put_int (int (length (written body)))) ?size" by (rule appends_u32 [OF len])
  from appendsD [OF size new_encoder_ok(1)] prefix have "written sizePrefix = ?size" by auto
  have "appends (put_sized body) (concat [?size, written body])"
    unfolding put_sized_def using size appends_bytes [of "Uint8Array (written body)"]
    by (intro appends_steps) simp
  from appendsD [OF this enc] sized have ok: "enc_ok enc'" and out: "written enc' = written enc @ ?size @ written body" by auto
  have "reloc_on sm (written enc') (r\<lparr>or_offset := int (position enc) + int (length (written sizePrefix)) + or_offset r\<rparr>)"
    if "r \<in> set bodyRelocs" for r
  proof -
    have "int (length (written enc @ ?size)) = int (position enc) + int (length (written sizePrefix))"
      using enc \<open>written sizePrefix = ?size\<close> by (simp add: position_def)
    with reloc_on_shift [of sm "written body" r "written enc @ ?size"] on that out show ?thesis
      by (simp add: list_all_iff)
  qed
  with ok out relocs' show "enc_ok enc' \<and> (\<exists>bs new. written enc' = written enc @ bs \<and> relocs' = relocs @ new \<and>
      list_all (reloc_on sm (written enc')) new)"
    by (auto simp: list_all_iff)
qed

lemma object_code_relocs:
  assumes "object_code fl sm md = Inr (codeSec, relocs)"
  shows "list_all (reloc_on sm (enc_finish codeSec)) relocs"
proof -
  have "relocates sm (steps (bare (put_int (int (length (md_functions md)))) # map (encodeFunctionWithReloc fl sm) (md_functions md)))"
    by (intro relocates_Cons relocates_bare relocates_map relocates_function grow_rules)
  from relocatesD [OF this new_encoder_ok(1)] assms show ?thesis unfolding object_code_def by force
qed

section \<open>Symbols\<close>

text \<open>A space whose symbols of one kind follow the first \<open>k\<close>, in index order, the first \<open>m\<close> of them undefined.\<close>

definition space_ok :: "nat \<Rightarrow> nat \<Rightarrow> nat \<Rightarrow> symbol_space \<Rightarrow> bool" where
  "space_ok kind k m sp \<longleftrightarrow>
     length (sp_symbols sp) = k + sp_next sp \<and>
     (\<forall>i. sp_map sp i = (if 0 \<le> i \<and> i < int (sp_next sp) then Some (k + nat i) else None)) \<and>
     (\<forall>n < sp_next sp. sy_kind (sp_symbols sp ! (k + n)) = kind \<and> sy_index (sp_symbols sp ! (k + n)) = n \<and>
        (sy_flags (sp_symbols sp ! (k + n)) = SYMBOL_UNDEFINED \<longleftrightarrow> n < m))"

lemma space_ok_new: "space_ok kind (length syms) m (new_space syms)"
  by (simp add: space_ok_def new_space_def)

lemma space_ok_add:
  assumes "space_ok kind k m sp" "(flags = SYMBOL_UNDEFINED) = (sp_next sp < m)"
  shows "space_ok kind k m (add_symbol kind name flags sp)"
  using assms by (auto simp: space_ok_def add_symbol_def nth_append less_Suc_eq)

lemma import_symbols_next: "sp_next (import_symbols kind imps sp) = sp_next sp + length imps"
  unfolding import_symbols_def by (induction imps arbitrary: sp) (simp_all add: add_symbol_def)

lemma import_symbols_ok:
  "space_ok kind k m sp \<Longrightarrow> sp_next sp + length imps \<le> m \<Longrightarrow> space_ok kind k m (import_symbols kind imps sp)"
  unfolding import_symbols_def
proof (induction imps arbitrary: sp)
  case (Cons imp imps)
  then have "space_ok kind k m (add_symbol kind (wi_name imp) SYMBOL_UNDEFINED sp)" by (intro space_ok_add) simp_all
  with Cons.IH [of "add_symbol kind (wi_name imp) SYMBOL_UNDEFINED sp"] Cons.prems show ?case by (simp add: add_symbol_def)
qed simp

lemma defined_symbols_ok:
  "space_ok kind k m sp \<Longrightarrow> m \<le> sp_next sp \<Longrightarrow>
     space_ok kind k m (defined_symbols kind pre ex names sp) \<and> sp_next (defined_symbols kind pre ex names sp) = sp_next sp + length names"
  unfolding defined_symbols_def
proof (induction names arbitrary: sp)
  case (Cons name names)
  let ?sp = "add_symbol kind (name_or name pre (sp_next sp)) (binding (ex (sp_next sp))) sp"
  have "space_ok kind k m ?sp" using Cons.prems
    by (intro space_ok_add) (simp_all add: binding_def SYMBOL_UNDEFINED_def SYMBOL_EXPORTED_def SYMBOL_BINDING_LOCAL_def)
  with Cons.IH [of ?sp] Cons.prems show ?case by (simp add: add_symbol_def)
qed simp

lemma space_built:
  assumes sp: "sp = defined_symbols kind pre ex names (import_symbols kind imps (new_space syms))"
  shows "space_ok kind (length syms) (length imps) sp" "sp_next sp = length imps + length names"
    "take (length syms) (sp_symbols sp) = syms"
proof -
  have 1: "space_ok kind (length syms) (length imps) (import_symbols kind imps (new_space syms))"
    by (intro import_symbols_ok space_ok_new) (simp add: new_space_def)
  have "sp_next (import_symbols kind imps (new_space syms)) = length imps"
    by (simp add: import_symbols_next) (simp add: new_space_def)
  with defined_symbols_ok [OF 1, of pre ex names] show "space_ok kind (length syms) (length imps) sp" "sp_next sp = length imps + length names"
    unfolding sp by simp_all
  have keep: "\<exists>more. sp_symbols (import_symbols kind imps sp) = sp_symbols sp @ more" for sp and imps :: "wasm_import list"
    unfolding import_symbols_def by (induction imps arbitrary: sp) (auto simp: add_symbol_def, metis append.assoc symbol_space.select_convs(1))
  have "\<exists>more. sp_symbols (defined_symbols kind pre ex names sp) = sp_symbols sp @ more" for sp
    unfolding defined_symbols_def by (induction names arbitrary: sp) (auto simp: add_symbol_def, metis append.assoc symbol_space.select_convs(1))
  from this [of "import_symbols kind imps (new_space syms)"] keep [of imps "new_space syms"]
  show "take (length syms) (sp_symbols sp) = syms" unfolding sp by (auto simp: new_space_def)
qed

text \<open>The three spaces of an object file, with the symbols of a module.\<close>

lemma func_space_ok:
  "space_ok SYMTAB_FUNCTION 0 (numImportFuncs md) (func_space md)"
  "sp_next (func_space md) = numImportFuncs md + length (md_functions md)"
  using space_built [OF func_space_def [of md]] by (simp_all add: numImportFuncs_def)

lemma global_space_ok:
  "space_ok SYMTAB_GLOBAL (length (sp_symbols (func_space md))) (length (filter is_global_import (md_imports md))) (global_space md)"
  "take (length (sp_symbols (func_space md))) (sp_symbols (global_space md)) = sp_symbols (func_space md)"
  "sp_next (global_space md) = length (filter is_global_import (md_imports md)) + length (md_globals md)"
  using space_built [OF global_space_def [of md]] by simp_all

lemma tag_space_ok:
  "space_ok SYMTAB_EVENT (length (sp_symbols (global_space md))) (length (filter is_tag_import (md_imports md))) (tag_space md)"
  "take (length (sp_symbols (global_space md))) (sp_symbols (tag_space md)) = sp_symbols (global_space md)"
  "sp_next (tag_space md) = length (filter is_tag_import (md_imports md)) + length (md_tags md)"
  using space_built [OF tag_space_def [of md]] by simp_all

lemma nth_take_eq: "take k xs = ys \<Longrightarrow> n < length ys \<Longrightarrow> xs ! n = ys ! n"
  by auto

lemma object_symbol_of_func:
  assumes "n < length (sp_symbols (func_space md))"
  shows "object_symbols md ! n = sp_symbols (func_space md) ! n" "n < length (object_symbols md)"
proof -
  have g: "length (sp_symbols (func_space md)) \<le> length (sp_symbols (global_space md))"
    using arg_cong [OF global_space_ok(2), of length md] by simp
  have t: "length (sp_symbols (global_space md)) \<le> length (sp_symbols (tag_space md))"
    using arg_cong [OF tag_space_ok(2), of length md] by simp
  show "n < length (object_symbols md)" using assms g t by (simp add: object_symbols_def)
  show "object_symbols md ! n = sp_symbols (func_space md) ! n"
    using nth_take_eq [OF tag_space_ok(2), of n md] nth_take_eq [OF global_space_ok(2), of n md] assms g
    by (simp add: object_symbols_def)
qed

lemma func_symbol:
  assumes "n < numImportFuncs md + length (md_functions md)"
  shows "n < length (object_symbols md)" "sy_kind (object_symbols md ! n) = SYMTAB_FUNCTION"
    "sy_index (object_symbols md ! n) = n" "sy_flags (object_symbols md ! n) = SYMBOL_UNDEFINED \<longleftrightarrow> n < numImportFuncs md"
proof -
  have "n < length (sp_symbols (func_space md))" using assms func_space_ok [of md] by (simp add: space_ok_def)
  from object_symbol_of_func [OF this]
  show "n < length (object_symbols md)" "sy_kind (object_symbols md ! n) = SYMTAB_FUNCTION"
    "sy_index (object_symbols md ! n) = n" "sy_flags (object_symbols md ! n) = SYMBOL_UNDEFINED \<longleftrightarrow> n < numImportFuncs md"
    using assms func_space_ok [of md] by (simp_all add: space_ok_def)
qed

lemma func_map: "sp_map (func_space md) i =
    (if 0 \<le> i \<and> i < int (numImportFuncs md + length (md_functions md)) then Some (nat i) else None)"
  using func_space_ok [of md] by (simp add: space_ok_def)

text \<open>The aliases of the committed handles, oldest first.\<close>

lemma alias_fold:
  assumes "\<And>i. i < STABLE_FUNC_BASE \<Longrightarrow> m i = m0 i"
    and "\<And>p. Some p \<in> set poss \<Longrightarrow> int imports + int p < STABLE_FUNC_BASE"
  shows "fold (alias_step imports) (enumerate k poss) m i =
     (case nth_opt poss (nat (i - STABLE_FUNC_BASE - int k)) of
        Some (Some p) \<Rightarrow>
          if STABLE_FUNC_BASE + int k \<le> i \<and> m0 (int imports + int p) \<noteq> None then m0 (int imports + int p) else m i
      | _ \<Rightarrow> m i)"
  using assms
proof (induction poss arbitrary: m k)
  case Nil
  show ?case by (simp add: nth_opt_def)
next
  case (Cons pos poss)
  define m1 where "m1 = alias_step imports (k, pos) m"
  have low: "m1 j = m0 j" if "j < STABLE_FUNC_BASE" for j
    using that Cons.prems(1) [OF that] by (auto simp: m1_def alias_step_def split: option.splits)
  have at: "m1 j = (case pos of Some p \<Rightarrow> if j = STABLE_FUNC_BASE + int k \<and> m0 (int imports + int p) \<noteq> None
      then m0 (int imports + int p) else m j | None \<Rightarrow> m j)" for j
    using Cons.prems(1) [of "int imports + int (the pos)"] Cons.prems(2) [of "the pos"]
    by (auto simp: m1_def alias_step_def split: option.splits)
  have IH: "fold (alias_step imports) (enumerate (Suc k) poss) m1 i =
     (case nth_opt poss (nat (i - STABLE_FUNC_BASE - int (Suc k))) of
        Some (Some p) \<Rightarrow>
          if STABLE_FUNC_BASE + int (Suc k) \<le> i \<and> m0 (int imports + int p) \<noteq> None then m0 (int imports + int p) else m1 i
      | _ \<Rightarrow> m1 i)"
    using low Cons.prems(2) by (intro Cons.IH) auto
  consider "i < STABLE_FUNC_BASE + int k" | "i = STABLE_FUNC_BASE + int k" | "STABLE_FUNC_BASE + int k < i" by linarith
  then show ?case
  proof cases
    case 1
    then have "m1 i = m i" by (simp add: at split: option.splits)
    moreover have "fold (alias_step imports) (enumerate (Suc k) poss) m1 i = m1 i" using 1 by (simp add: IH split: option.splits)
    ultimately show ?thesis using 1 by (simp add: m1_def [symmetric] split: option.splits)
  next
    case 2
    have "fold (alias_step imports) (enumerate (Suc k) poss) m1 i = m1 i" unfolding IH using 2 by (simp split: option.splits)
    with 2 show ?thesis by (simp add: m1_def [symmetric] at nth_opt_def split: option.splits)
  next
    case 3
    then have "nat (i - STABLE_FUNC_BASE - int k) = Suc (nat (i - STABLE_FUNC_BASE - int (Suc k)))" by simp
    moreover have "m1 i = m i" using 3 by (simp add: at split: option.splits)
    ultimately show ?thesis using 3 by (simp add: m1_def [symmetric] IH nth_opt_def split: option.splits)
  qed
qed

text \<open>The symbol of a function operand, live or stable, is that of the index the layout resolves it to.\<close>

lemma func_lookup:
  assumes "handles_ok md" "int (numImportFuncs md + length (md_functions md)) \<le> STABLE_FUNC_BASE"
  shows "funcIdxToSymIdx (object_maps md) h = Some s \<longleftrightarrow>
    ly_func (resolveLayout md) (Some h) = Inr (int s) \<and> s < numImportFuncs md + length (md_functions md)"
proof -
  let ?n = "numImportFuncs md" and ?f = "length (md_functions md)"
  have pos: "p < ?f" if "nth_opt (md_funcOrdinalToPosition md) k = Some (Some p)" for k p
    using assms(1) that unfolding handles_ok_def by blast
  have "p < ?f" if "Some p \<in> set (md_funcOrdinalToPosition md)" for p
  proof -
    from that obtain k where "k < length (md_funcOrdinalToPosition md)" "md_funcOrdinalToPosition md ! k = Some p"
      by (auto simp: in_set_conv_nth)
    then show ?thesis by (intro pos [of k]) (simp add: nth_opt_def)
  qed
  then have low: "int ?n + int p < STABLE_FUNC_BASE" if "Some p \<in> set (md_funcOrdinalToPosition md)" for p
    using that assms(2) by fastforce
  have fold: "funcIdxToSymIdx (object_maps md) h =
     (case nth_opt (md_funcOrdinalToPosition md) (nat (h - STABLE_FUNC_BASE)) of
        Some (Some p) \<Rightarrow>
          if STABLE_FUNC_BASE \<le> h \<and> sp_map (func_space md) (int ?n + int p) \<noteq> None then sp_map (func_space md) (int ?n + int p)
          else sp_map (func_space md) h
      | _ \<Rightarrow> sp_map (func_space md) h)"
    using alias_fold [of "sp_map (func_space md)" "sp_map (func_space md)" "md_funcOrdinalToPosition md" ?n 0 h, OF HOL.refl low]
    by (simp add: object_maps_def handle_aliases_def cong: option.case_cong)
  show ?thesis
  proof (cases "h < STABLE_FUNC_BASE")
    case True
    then have "funcIdxToSymIdx (object_maps md) h = sp_map (func_space md) h" unfolding fold by (simp split: option.splits)
    with True show ?thesis by (auto simp: func_map resolveLayout_def absoluteFuncIndexCached_def)
  next
    case False
    then have none: "sp_map (func_space md) h = None" using assms(2) by (simp add: func_map)
    show ?thesis
    proof (cases "\<exists>p. ordinal_slot md h = Some (Some p)")
      case True
      then obtain p where p: "ordinal_slot md h = Some (Some p)" by blast
      then have "p < ?f" by (intro pos) (simp add: ordinal_slot_def)
      then have at: "sp_map (func_space md) (int ?n + int p) = Some (?n + p)" by (simp add: func_map nat_int_add flip: of_nat_add)
      have "funcIdxToSymIdx (object_maps md) h = Some (?n + p)" unfolding fold using p False by (simp add: ordinal_slot_def at)
      moreover have "ly_func (resolveLayout md) (Some h) = Inr (int (?n + p))" using stable_resolution(1) [OF _ p] False by simp
      ultimately show ?thesis using \<open>p < ?f\<close> by auto
    next
      case no: False
      then have "funcIdxToSymIdx (object_maps md) h = None" unfolding fold none
        by (auto simp: ordinal_slot_def split: option.splits)
      moreover have "\<exists>e. ly_func (resolveLayout md) (Some h) = Inl e"
        using no False by (auto simp: resolveLayout_def absoluteFuncIndexCached_def split: option.splits)
      ultimately show ?thesis by auto
    qed
  qed
qed

end
