(* ===== verification/Emit_Runs.thy ===== *)
theory Emit_Runs
  imports Emit_Sections Object_Relocs
begin

text \<open>
  Emission does not throw on small modules: \<open>succeeds w n\<close> says that a writer succeeds from every encoder and adds at
  most \<open>n\<close> bytes, and \<open>obj_adds\<close> gives the bytes and the relocations that a writer of the object emitter adds.
  The rules follow the structure of the writers.
\<close>

definition succeeds :: "writer \<Rightarrow> nat \<Rightarrow> bool" where
  "succeeds w n \<longleftrightarrow> (\<forall>e. enc_ok e \<longrightarrow> (\<exists>e'. w e = Inr e' \<and> enc_ok e' \<and> enc_len e' \<le> enc_len e + n))"

lemma succeedsD:
  assumes "succeeds w n" "enc_ok e"
  obtains e' where "w e = Inr e'" "enc_ok e'" "enc_len e' \<le> enc_len e + n"
  using assms by (auto simp: succeeds_def)

lemma succeeds_appends: "appends w bs \<Longrightarrow> length bs \<le> n \<Longrightarrow> succeeds w n"
  unfolding succeeds_def
proof (intro allI impI)
  fix e assume "appends w bs" "length bs \<le> n" "enc_ok e"
  then obtain e' where e': "w e = Inr e'" "enc_ok e'" "written e' = written e @ bs" by (blast elim: appendsD)
  then have "enc_len e' = enc_len e + length bs" using \<open>enc_ok e\<close> by (metis length_append length_written)
  with e' \<open>length bs \<le> n\<close> show "\<exists>e'. w e = Inr e' \<and> enc_ok e' \<and> enc_len e' \<le> enc_len e + n" by simp
qed

lemma succeeds_byte: "succeeds (put_byte b) 1"
  by (rule succeeds_appends [OF appends_byte]) simp

lemma succeeds_int: "0 \<le> i \<Longrightarrow> i < 128 \<Longrightarrow> succeeds (put_int i) 1"
  using succeeds_appends [OF appends_u32 [of "nat i"], of 1] by (simp add: uleb.simps)

lemma succeeds_name: "length (utf8_encode s) < 128 \<Longrightarrow> succeeds (put_name s) (1 + length (utf8_encode s))"
  by (rule succeeds_appends [OF appends_name]) (simp_all add: uleb.simps)

lemma succeeds_bytes: "succeeds (put_bytes bs) (length (source_bytes bs))"
  by (rule succeeds_appends [OF appends_bytes]) simp

lemma succeeds_none: "succeeds Inr 0"
  by (auto simp: succeeds_def)

lemma succeeds_bind: "succeeds f m \<Longrightarrow> succeeds g n \<Longrightarrow> succeeds (\<lambda>e. bindE (f e) g) (m + n)"
  unfolding succeeds_def
proof (intro allI impI)
  fix e
  assume f: "\<forall>e. enc_ok e \<longrightarrow> (\<exists>e'. f e = Inr e' \<and> enc_ok e' \<and> enc_len e' \<le> enc_len e + m)"
    and g: "\<forall>e. enc_ok e \<longrightarrow> (\<exists>e'. g e = Inr e' \<and> enc_ok e' \<and> enc_len e' \<le> enc_len e + n)" and e: "enc_ok e"
  from f e obtain e1 where 1: "f e = Inr e1" "enc_ok e1" "enc_len e1 \<le> enc_len e + m" by blast
  from g 1(2) obtain e2 where "g e1 = Inr e2" "enc_ok e2" "enc_len e2 \<le> enc_len e1 + n" by blast
  with 1 show "\<exists>e'. bindE (f e) g = Inr e' \<and> enc_ok e' \<and> enc_len e' \<le> enc_len e + (m + n)" by simp
qed

lemma succeeds_Nil: "succeeds (steps []) 0"
  by (auto simp: succeeds_def)

lemma succeeds_Cons: "succeeds w m \<Longrightarrow> succeeds (steps ws) n \<Longrightarrow> succeeds (steps (w # ws)) (m + n)"
  unfolding steps_Cons by (rule succeeds_bind)

lemma succeeds_append: "succeeds (steps xs) m \<Longrightarrow> succeeds (steps ys) n \<Longrightarrow> succeeds (steps (xs @ ys)) (m + n)"
  unfolding steps_append by (rule succeeds_bind)

lemma succeeds_vector: "succeeds (steps (map f xs)) n \<Longrightarrow> length xs < 128 \<Longrightarrow> succeeds (put_vector xs f) (1 + n)"
  unfolding put_vector_def for_each_def by (intro succeeds_bind succeeds_int) simp_all

lemma succeeds_less: "succeeds w m \<Longrightarrow> m \<le> n \<Longrightarrow> succeeds w n"
  unfolding succeeds_def by (meson add_left_mono le_trans)

lemma succeeds_sized: "enc_ok body \<Longrightarrow> enc_len body < 128 \<Longrightarrow> succeeds (put_sized body) (1 + enc_len body)"
  unfolding put_sized_def
  using succeeds_Cons [OF succeeds_int [of "int (enc_len body)"] succeeds_Cons [OF succeeds_bytes [of "Uint8Array (written body)"] succeeds_Nil]]
  by simp

lemma new_len [simp]: "enc_len new_encoder = 0"
  by (simp add: new_encoder_def)

lemma succeeds_section:
  assumes "succeeds f n" "n < 128"
  shows "succeeds (put_section ident f) (2 + n)"
proof -
  obtain sub where sub: "f new_encoder = Inr sub" "enc_ok sub" "enc_len sub \<le> n"
    using succeedsD [OF assms(1) new_encoder_ok(1)] by auto
  have "succeeds (\<lambda>e. bindE (put_byte ident e) (\<lambda>e. bindE (put_int (int (length (written sub))) e) (put_bytes (Uint8Array (written sub)))))
      (1 + (1 + length (source_bytes (Uint8Array (written sub)))))"
    using sub assms(2) by (intro succeeds_bind succeeds_byte succeeds_int succeeds_bytes) simp_all
  from succeeds_less [OF this, of "2 + n"] sub show ?thesis by (simp add: put_section_def [abs_def] Let_def)
qed

lemma succeeds_function:
  assumes "succeeds (steps ([put_locals c (fn_locals f)] @ map (encodeInstr c fl) (fn_body f) @ [put_byte 0x0b])) n" "n < 128"
  shows "succeeds (encodeFunction c fl f) (1 + n)"
proof -
  obtain body where body: "steps ([put_locals c (fn_locals f)] @ map (encodeInstr c fl) (fn_body f) @ [put_byte 0x0b]) new_encoder = Inr body"
    "enc_ok body" "enc_len body \<le> n"
    using succeedsD [OF assms(1) new_encoder_ok(1)] by auto
  then show ?thesis using succeeds_less [OF succeeds_sized, of body "1 + n"] assms(2)
    by (simp add: encodeFunction_def [abs_def] del: steps.simps append.simps)
qed

lemma succeeds_names:
  assumes "succeeds (steps (put_int (int (length entries)) # concat (map (\<lambda>(i, n). [put_int (int i), put_name n]) entries))) n" "n < 128"
  shows "succeeds (put_names entries) (7 + n)"
proof -
  obtain sub where sub: "steps (put_int (int (length entries)) # concat (map (\<lambda>(i, n). [put_int (int i), put_name n]) entries)) new_encoder = Inr sub"
    "enc_ok sub" "enc_len sub \<le> n"
    using succeedsD [OF assms(1) new_encoder_ok(1)] by auto
  have name: "length (utf8_encode (str ''name'')) = 4"
    by (simp add: str_def utf8_encode_def scalar_def is_lead_def is_trail_def utf8_cp_def to_scalar_def)
  have "succeeds (steps [put_name (str ''name''), put_byte 1, put_sized sub])
      (1 + length (utf8_encode (str ''name'')) + (1 + (1 + enc_len sub + 0)))"
    using sub assms(2) name by (intro succeeds_Cons succeeds_name succeeds_byte succeeds_sized succeeds_Nil) simp_all
  from succeeds_less [OF this, of "7 + n"] sub name show ?thesis
    by (simp add: put_names_def [abs_def] del: steps.simps)
qed

section \<open>Object writers\<close>

definition shift_reloc :: "nat \<Rightarrow> obj_reloc \<Rightarrow> obj_reloc" where
  "shift_reloc n r = r\<lparr>or_offset := int n + or_offset r\<rparr>"

definition obj_adds :: "obj_writer \<Rightarrow> byte list \<Rightarrow> obj_reloc list \<Rightarrow> bool" where
  "obj_adds ow bs new \<longleftrightarrow>
     (\<forall>e rs. enc_ok e \<longrightarrow>
        (\<exists>e'. ow (e, rs) = Inr (e', rs @ map (shift_reloc (enc_len e)) new) \<and> enc_ok e' \<and> written e' = written e @ bs))"

lemma obj_addsD:
  assumes "obj_adds ow bs new" "enc_ok e"
  obtains e' where "ow (e, rs) = Inr (e', rs @ map (shift_reloc (enc_len e)) new)" "enc_ok e'" "written e' = written e @ bs"
  using assms unfolding obj_adds_def by blast

lemma shift_zero: "shift_reloc 0 r = r"
  by (simp add: shift_reloc_def)

lemma shift_twice: "shift_reloc m (shift_reloc n r) = shift_reloc (m + n) r"
  by (simp add: shift_reloc_def)

lemma obj_adds_bare: "appends w bs \<Longrightarrow> obj_adds (bare w) bs []"
  unfolding obj_adds_def
proof (intro allI impI)
  fix e rs assume "appends w bs" "enc_ok e"
  then obtain e' where "w e = Inr e'" "enc_ok e'" "written e' = written e @ bs" by (rule appendsD)
  then show "\<exists>e'. bare w (e, rs) = Inr (e', rs @ map (shift_reloc (enc_len e)) []) \<and> enc_ok e' \<and> written e' = written e @ bs"
    by (simp add: bare_def)
qed

lemma obj_adds_mark: "obj_adds (mark ty s) [] [\<lparr>or_type = ty, or_offset = 0, or_symbolIndex = s\<rparr>]"
  by (auto simp: obj_adds_def mark_def shift_reloc_def position_def)

lemma obj_adds_mark_symbol: "m i = Some s \<Longrightarrow> obj_adds (mark_symbol m ty i) [] [\<lparr>or_type = ty, or_offset = 0, or_symbolIndex = int s\<rparr>]"
  by (simp add: mark_symbol_def obj_adds_mark)

lemma obj_adds_Nil: "obj_adds (steps []) [] []"
  by (simp add: obj_adds_def)

lemma obj_adds_bind:
  assumes "obj_adds f bs new" "obj_adds g cs nxt"
  shows "obj_adds (\<lambda>s. bindE (f s) g) (bs @ cs) (new @ map (shift_reloc (length bs)) nxt)"
  unfolding obj_adds_def
proof (intro allI impI)
  fix e rs assume e: "enc_ok e"
  obtain e1 where 1: "f (e, rs) = Inr (e1, rs @ map (shift_reloc (enc_len e)) new)" "enc_ok e1" "written e1 = written e @ bs"
    by (rule obj_addsD [OF assms(1) e])
  obtain e2 where 2: "g (e1, rs @ map (shift_reloc (enc_len e)) new) =
      Inr (e2, (rs @ map (shift_reloc (enc_len e)) new) @ map (shift_reloc (enc_len e1)) nxt)" "enc_ok e2" "written e2 = written e1 @ cs"
    by (rule obj_addsD [OF assms(2) 1(2)])
  have "enc_len e1 = enc_len e + length bs" using 1 e by (metis length_append length_written)
  with 1 2 show "\<exists>e'. bindE (f (e, rs)) g = Inr (e', rs @ map (shift_reloc (enc_len e)) (new @ map (shift_reloc (length bs)) nxt)) \<and>
      enc_ok e' \<and> written e' = written e @ bs @ cs"
    by (simp add: shift_twice)
qed

lemma obj_adds_Cons:
  "obj_adds w bs new \<Longrightarrow> obj_adds (steps ws) cs nxt \<Longrightarrow> obj_adds (steps (w # ws)) (bs @ cs) (new @ map (shift_reloc (length bs)) nxt)"
  unfolding steps_Cons by (rule obj_adds_bind)

lemma obj_adds_append:
  "obj_adds (steps xs) bs new \<Longrightarrow> obj_adds (steps ys) cs nxt \<Longrightarrow>
     obj_adds (steps (xs @ ys)) (bs @ cs) (new @ map (shift_reloc (length bs)) nxt)"
  unfolding steps_append by (rule obj_adds_bind)

lemma obj_adds_function:
  assumes "obj_adds (steps ([bare (put_locals no_ctx (fn_locals f))] @ map (encodeInstrWithReloc fl sm) (fn_body f) @ [bare (put_byte 0x0b)])) bs new"
    and "length bs < 2 ^ 32"
  shows "obj_adds (encodeFunctionWithReloc fl sm f) (uleb (length bs) @ bs) (map (shift_reloc (length (uleb (length bs)))) new)"
  unfolding obj_adds_def
proof (intro allI impI)
  fix e rs assume e: "enc_ok e"
  obtain body where body: "steps ([bare (put_locals no_ctx (fn_locals f))] @ map (encodeInstrWithReloc fl sm) (fn_body f) @
      [bare (put_byte 0x0b)]) (new_encoder, []) = Inr (body, new)" "written body = bs"
    using obj_addsD [OF assms(1) new_encoder_ok(1), of "[]"] by (auto simp: shift_zero [abs_def] cong: map_cong)
  obtain pre where pre: "put_int (int (length bs)) new_encoder = Inr pre" "written pre = uleb (length bs)"
    using appendsD [OF appends_u32 [OF assms(2)] new_encoder_ok(1)] by auto
  have "appends (put_sized body) (concat [uleb (length bs), bs])"
    unfolding put_sized_def using appends_u32 [OF assms(2)] appends_bytes [of "Uint8Array bs"] body(2)
    by (intro appends_steps) simp
  from appendsD [OF this e] obtain e' where "put_sized body e = Inr e'" "enc_ok e'" "written e' = written e @ uleb (length bs) @ bs"
    by auto
  with body pre show "\<exists>e'. encodeFunctionWithReloc fl sm f (e, rs) =
      Inr (e', rs @ map (shift_reloc (enc_len e)) (map (shift_reloc (length (uleb (length bs)))) new)) \<and> enc_ok e' \<and>
      written e' = written e @ uleb (length bs) @ bs"
    by (simp add: encodeFunctionWithReloc_def Let_def position_def shift_reloc_def algebra_simps del: steps.simps append.simps)
qed

end

