(* ===== verification/Object_Correct.thy ===== *)
theory Object_Correct
  imports Object_Emitter
begin

text \<open>
  The object emitter against the module encoder and the linker's reader: on the instructions it knows its
  bytes are those of \<open>encodeInstr\<close>, every relocation stands on the LEB128 operand it is about, the symbol maps
  agree with the layout that resolves handles, and symbols and relocations read back.
\<close>

section \<open>Agreement with the module encoder\<close>

fun supported :: "'f instr \<Rightarrow> bool" where
  "supported (Plain op) = (map_of obj_plain_ops op \<noteq> None)"
| "supported (Depth op _) = (map_of obj_depth_ops op \<noteq> None)"
| "supported (Func op _) = (map_of obj_func_ops op \<noteq> None)"
| "supported (Local op _) = (map_of obj_local_ops op \<noteq> None)"
| "supported (Global op _) = (map_of obj_global_ops op \<noteq> None)"
| "supported (Heap op _) = (map_of obj_null_ops op \<noteq> None \<or> map_of obj_cast_ops op \<noteq> None)"
| "supported (Typed op _) = (map_of obj_typed_ops op \<noteq> None)"
| "supported (Field op _ _) = (map_of obj_field_ops op \<noteq> None)"
| "supported (BrTable _ _) = False"
| "supported (ArrayCopy _ _) = False"
| "supported (MemoryInit _) = False"
| "supported (DataDrop _) = False"
| "supported (Mem _ _ _) = False"
| "supported (V128Const _) = False"
| "supported (Lane _ _) = False"
| "supported (Shuffle _) = False"
| "supported _ = True"

definition supported_body :: "'f instr list \<Rightarrow> bool" where
  "supported_body body = list_all supported (walkInstructions body)"

definition subtable :: "op_table \<Rightarrow> op_table \<Rightarrow> bool" where
  "subtable s t = list_all (\<lambda>(op, ws). map_of t op = Some ws) s"

lemma subtable_lookup: "subtable s t \<Longrightarrow> map_of s op = Some ws \<Longrightarrow> map_of t op = Some ws"
  by (auto simp: subtable_def list_all_iff dest: map_of_SomeD)

text \<open>Lookups by comparison of the names, without the function updates of \<open>map_of\<close>.\<close>

lemma subtable_Cons: "subtable ((op, ws) # s) t \<longleftrightarrow> map_of t op = Some ws \<and> subtable s t"
  by (simp add: subtable_def)

lemma subtable_Nil: "subtable [] t"
  by (simp add: subtable_def)

lemma map_of_if: "map_of ((k, v) # t) op = (if op = k then Some v else map_of t op)"
  by auto

lemmas table_lookup = subtable_Cons subtable_Nil map_of_if append.simps list.inject list.distinct char.inject
  if_True if_False simp_thms

lemmas obj_tables = obj_depth_ops_def obj_func_ops_def obj_local_ops_def obj_global_ops_def obj_null_ops_def obj_cast_ops_def
  obj_typed_ops_def obj_field_ops_def obj_plain_ops_def obj_control_ops_def obj_number_ops_def obj_ref_ops_def

lemmas op_tables = depth_ops_def func_ops_def local_ops_def global_ops_def heap_ops_def typed_ops_def field_ops_def
  plain_ops_def control_ops_def i64_ops_def number_ops_def ref_ops_def memory_ops_def division_ops_def v128_ops_def
  i8x16_ops_def i16x8_ops_def i32x4_ops_def i64x2_ops_def f32x4_ops_def f64x2_ops_def end_op_def

lemma subtables:
  "subtable obj_depth_ops depth_ops" "subtable obj_func_ops func_ops" "subtable obj_local_ops local_ops"
  "subtable obj_global_ops global_ops" "subtable obj_null_ops heap_ops" "subtable obj_cast_ops heap_ops"
  "subtable obj_typed_ops typed_ops" "subtable obj_field_ops field_ops" "subtable obj_plain_ops plain_ops"
  by (simp_all only: obj_tables op_tables table_lookup)

text \<open>An object writer writes what a plain one does.\<close>

definition erases :: "obj_writer \<Rightarrow> writer \<Rightarrow> bool" where
  "erases ow w \<longleftrightarrow>
     (\<forall>enc relocs. (case ow (enc, relocs) of Inl e \<Rightarrow> Inl e | Inr (enc, _) \<Rightarrow> Inr enc) = w enc)"

lemma erases_bare: "erases (bare w) w"
  by (auto simp: erases_def bare_def bindE_def split: sum.splits)

lemma erases_none: "erases Inr Inr"
  by (simp add: erases_def)

lemma erases_fail: "erases (\<lambda>_. Inl e) (\<lambda>_. Inl e)"
  by (simp add: erases_def)

lemma erases_mark: "erases (mark ty s) Inr"
  by (simp add: erases_def mark_def)

lemma erases_mark_symbol: "erases (mark_symbol m ty i) Inr"
  by (simp add: mark_symbol_def erases_none erases_mark split: option.splits)

lemma erases_bind:
  assumes "erases f f0" "erases g g0"
  shows "erases (\<lambda>s. bindE (f s) g) (\<lambda>e. bindE (f0 e) g0)"
  unfolding erases_def
proof (intro allI)
  fix enc relocs
  show "(case bindE (f (enc, relocs)) g of Inl e \<Rightarrow> Inl e | Inr (enc, _) \<Rightarrow> Inr enc) = bindE (f0 enc) g0"
    unfolding assms(1) [unfolded erases_def, rule_format, of enc relocs, symmetric]
    using assms(2) by (cases "f (enc, relocs)") (auto simp: erases_def)
qed

lemma steps_skip: "steps (Inr # ws) = steps ws"
  by (rule ext) simp

lemma erases_Nil: "erases (steps []) (steps [])"
  by (simp add: erases_def)

lemma erases_Cons: "erases f f0 \<Longrightarrow> erases (steps fs) (steps gs) \<Longrightarrow> erases (steps (f # fs)) (steps (f0 # gs))"
  unfolding steps_Cons by (rule erases_bind)

lemma erases_skip: "erases f Inr \<Longrightarrow> erases (steps fs) (steps gs) \<Longrightarrow> erases (steps (f # fs)) (steps gs)"
  using erases_Cons [of f Inr fs gs] by (simp only: steps_skip)

lemma erases_append: "erases (steps fs) (steps gs) \<Longrightarrow> erases (steps fs') (steps gs') \<Longrightarrow> erases (steps (fs @ fs')) (steps (gs @ gs'))"
  unfolding steps_append by (rule erases_bind)

lemma erases_map:
  assumes "\<And>x. x \<in> set xs \<Longrightarrow> erases (f x) (g x)"
  shows "erases (steps (map f xs)) (steps (map g xs))"
  using assms by (induction xs) (simp_all only: list.map erases_Nil, intro erases_Cons, simp_all)

lemma erases_concat:
  assumes "\<And>x. x \<in> set xs \<Longrightarrow> erases (steps (f x)) (steps (g x))"
  shows "erases (steps (concat (map f xs))) (steps (concat (map g xs)))"
  using assms by (induction xs) (simp_all only: list.map concat.simps erases_Nil, intro erases_append, simp_all)

lemmas erases_seq = erases_Nil erases_append erases_Cons erases_bare erases_map

lemma unarmed_ctx [simp]: "when_valid no_ctx chk = Inr" "fIdx no_ctx h = Inr h" "gIdx no_ctx h = h"
  by (simp_all add: fun_eq_iff when_valid_def fIdx_def gIdx_def)

lemma erases_op:
  assumes "subtable s t" "map_of s op \<noteq> None" "erases (steps fs) (steps gs)"
  shows "erases (obj_op s op fs) (encode_op t op [] gs)"
proof -
  from assms(2) obtain ws where ws: "map_of s op = Some ws" by auto
  with subtable_lookup [OF assms(1)] have "map_of t op = Some ws" by blast
  with ws assms(3) show ?thesis
    by (simp add: obj_op_def encode_op_def del: steps.simps) (intro erases_append erases_map erases_bare)
qed

lemma encode_op_check: "encode_op t op (Inr # cks) = encode_op t op cks"
  by (simp add: encode_op_def steps_skip fun_eq_iff split: option.splits)

lemma supported_bodies: "supported_body body = list_all (\<lambda>i. supported_body [i]) body"
  unfolding supported_body_def by (rule walk_body)

lemma supported_tree: "supported_body [i] = (supported i \<and> list_all supported_body (walkChildren i))"
  unfolding supported_body_def by (rule walk_tree)

lemmas supported_nodes =
  supported_tree [where i = "Block bt body" for bt body]
  supported_tree [where i = "Loop bt body" for bt body]
  supported_tree [where i = "If bt thn els" for bt thn els]
  supported_tree [where i = "TryTable bt body catches" for bt body catches]
  supported_tree [where i = "Try bt body catches catchAll" for bt body catches catchAll]

lemma erases_catch: "erases (encode_catch_reloc sm cl) (encode_catch no_ctx cl)"
  unfolding encode_catch_reloc_def encode_catch_def
  by (intro erases_seq; cases "names_tag (tt_kind cl)"; cases "tt_tagIdx cl")
     (simp_all only: if_True if_False option.case unarmed_ctx append_Nil append_Cons steps_skip,
      (intro erases_seq erases_skip [OF erases_mark_symbol] erases_fail)+)

lemma agree_if:
  assumes "erases (steps (map f thn)) (steps (map g thn))"
    and "\<And>is. els = Some is \<Longrightarrow> erases (steps (map f is)) (steps (map g is))"
  shows "erases
    (steps ([bare (put_byte 0x04), bare w] @ map f thn @
       (case els of Some (i # is) \<Rightarrow> bare (put_byte 0x05) # map f (i # is)
        | _ \<Rightarrow> if b then [bare (put_byte 0x05), bare (put_byte 0x00)] else []) @ [bare (put_byte 0x0b)]))
    (steps ([put_byte 0x04, w] @ map g thn @
       (case els of Some (i # is) \<Rightarrow> put_byte 0x05 # map g (i # is)
        | _ \<Rightarrow> if b then [put_byte 0x05, put_byte 0x00] else []) @ [put_byte 0x0b]))"
proof -
  have "erases
    (steps (case els of Some (i # is) \<Rightarrow> bare (put_byte 0x05) # map f (i # is)
       | _ \<Rightarrow> if b then [bare (put_byte 0x05), bare (put_byte 0x00)] else []))
    (steps (case els of Some (i # is) \<Rightarrow> put_byte 0x05 # map g (i # is)
       | _ \<Rightarrow> if b then [put_byte 0x05, put_byte 0x00] else []))"
  proof (cases "\<exists>i is. els = Some (i # is)")
    case True
    then obtain i "is" where els: "els = Some (i # is)" by blast
    show ?thesis unfolding els option.case list.case by (intro erases_Cons erases_bare assms(2) els)
  next
    case False
    then have "els = None \<or> els = Some []" by (cases els; cases "the els") auto
    then show ?thesis
      by (cases b; elim disjE; simp only: option.case list.case if_True if_False; intro erases_seq)
  qed
  then show ?thesis by (intro erases_append erases_Cons erases_Nil erases_bare assms(1))
qed

lemma agree_trees: "(\<And>i. i \<in> set body \<Longrightarrow> supported_body [i] \<Longrightarrow> erases (f i) (g i)) \<Longrightarrow> supported_body body \<Longrightarrow>
    erases (steps (map f body)) (steps (map g body))"
  by (subst (asm) supported_bodies) (auto simp: list_all_iff intro: erases_map)

lemma instr_agrees: "supported_body [i] \<Longrightarrow> erases (encodeInstrWithReloc fl sm i) (encodeInstr no_ctx fl i)"
proof (induction i)
  case (Plain op)
  then show ?case unfolding encodeInstr.simps encodeInstrWithReloc.simps
    by (intro erases_op subtables erases_Nil) (simp add: supported_tree)
next
  case (Block bt body)
  then have "erases (steps (map (encodeInstrWithReloc fl sm) body)) (steps (map (encodeInstr no_ctx fl) body))"
    by (intro agree_trees) (simp_all add: supported_nodes)
  then show ?case unfolding encodeInstr.simps encodeInstrWithReloc.simps
    by (intro erases_append erases_Cons erases_Nil erases_bare)
next
  case (Loop bt body)
  then have "erases (steps (map (encodeInstrWithReloc fl sm) body)) (steps (map (encodeInstr no_ctx fl) body))"
    by (intro agree_trees) (simp_all add: supported_nodes)
  then show ?case unfolding encodeInstr.simps encodeInstrWithReloc.simps
    by (intro erases_append erases_Cons erases_Nil erases_bare)
next
  case (If bt thn els)
  have "erases (steps (map (encodeInstrWithReloc fl sm) thn)) (steps (map (encodeInstr no_ctx fl) thn))"
    using If(1, 3) by (intro agree_trees) (simp_all add: supported_nodes)
  moreover have "erases (steps (map (encodeInstrWithReloc fl sm) is)) (steps (map (encodeInstr no_ctx fl) is))"
    if "els = Some is" for "is"
    using If(2) [of "is"] If(3) that by (intro agree_trees) (simp_all add: supported_nodes)
  ultimately show ?case unfolding encodeInstr.simps encodeInstrWithReloc.simps by (rule agree_if)
next
  case (TryTable bt body catches)
  then have "erases (steps (map (encodeInstrWithReloc fl sm) body)) (steps (map (encodeInstr no_ctx fl) body))"
    by (intro agree_trees) (simp_all add: supported_nodes)
  moreover have "erases (steps (map (encode_catch_reloc sm) catches)) (steps (map (encode_catch no_ctx) catches))"
    by (intro erases_map erases_catch)
  ultimately show ?case unfolding encodeInstr.simps encodeInstrWithReloc.simps
    by (intro erases_append erases_Cons erases_Nil erases_bare)
next
  case (Try bt body catches catchAll)
  have "erases (steps (map (encodeInstrWithReloc fl sm) body)) (steps (map (encodeInstr no_ctx fl) body))"
    using Try(1, 4) by (intro agree_trees) (simp_all add: supported_nodes)
  moreover have "erases (steps (map (encodeInstrWithReloc fl sm) (snd x))) (steps (map (encodeInstr no_ctx fl) (snd x)))"
    if "x \<in> set catches" for x
    using Try(2) [OF that, of "snd x"] Try(4) that
    by (intro agree_trees) (auto simp: supported_nodes list_all_iff snds.simps)
  then have "erases
      (steps (concat (map (\<lambda>(t, b). [bare (put_byte 0x07), bare (put_int t)] @ map (encodeInstrWithReloc fl sm) b) catches)))
      (steps (concat (map (\<lambda>(t, b). [when_valid no_ctx (vTag t), put_byte 0x07, put_int t] @ map (encodeInstr no_ctx fl) b) catches)))"
    unfolding case_prod_beta unarmed_ctx append_Cons steps_skip
    by (intro erases_concat) (simp only: append_Cons append_Nil steps_skip, intro erases_Cons erases_bare, simp)
  moreover have "erases (steps (case catchAll of None \<Rightarrow> [] | Some b \<Rightarrow> bare (put_byte 0x19) # map (encodeInstrWithReloc fl sm) b))
      (steps (case catchAll of None \<Rightarrow> [] | Some b \<Rightarrow> put_byte 0x19 # map (encodeInstr no_ctx fl) b))"
  proof (cases catchAll)
    case None
    then show ?thesis by (simp only: option.case erases_Nil)
  next
    case (Some b)
    then have "erases (steps (map (encodeInstrWithReloc fl sm) b)) (steps (map (encodeInstr no_ctx fl) b))"
      using Try(3) [of b] Try(4) by (intro agree_trees) (simp_all add: supported_nodes)
    then show ?thesis unfolding Some option.case by (intro erases_Cons erases_bare)
  qed
  ultimately show ?case unfolding encodeInstr.simps encodeInstrWithReloc.simps
    by (intro erases_append erases_Cons erases_Nil erases_bare)
next
  case (Func op h)
  have "with_func no_ctx h k = k h" for k by (simp add: with_func_def fun_eq_iff)
  with Func show ?case unfolding encodeInstr.simps encodeInstrWithReloc.simps unarmed_ctx encode_op_check
    by (simp only:) (intro erases_op subtables erases_skip [OF erases_mark_symbol] erases_Cons erases_Nil erases_bare, simp add: supported_tree)
next
  case (Heap op t)
  show ?case
  proof (cases "map_of obj_null_ops op = None")
    case True
    have "erases (if 0 \<le> t then mark R_WASM_TYPE_INDEX_LEB t else Inr) Inr" by (simp add: erases_mark erases_none)
    with True Heap show ?thesis unfolding encodeInstr.simps encodeInstrWithReloc.simps unarmed_ctx encode_op_check
      by (simp only: simp_thms if_False) (intro erases_op subtables erases_skip erases_Cons erases_Nil erases_bare, simp_all add: supported_tree)
  next
    case False
    then show ?thesis unfolding encodeInstr.simps encodeInstrWithReloc.simps unarmed_ctx encode_op_check
      by (simp only: simp_thms if_True) (intro erases_op subtables erases_Cons erases_Nil erases_bare, simp)
  qed
next
  case (CallIndirect t tb)
  show ?case unfolding encodeInstr.simps encodeInstrWithReloc.simps unarmed_ctx steps_skip
    by (intro erases_Cons erases_Nil erases_bare erases_skip [OF erases_mark])
next
  case (ArrayNewFixed t n)
  show ?case unfolding encodeInstr.simps encodeInstrWithReloc.simps unarmed_ctx steps_skip
    by (intro erases_Cons erases_Nil erases_bare erases_skip [OF erases_mark])
next
  case (Throw t)
  show ?case unfolding encodeInstr.simps encodeInstrWithReloc.simps unarmed_ctx steps_skip
    by (intro erases_Cons erases_Nil erases_bare erases_skip [OF erases_mark_symbol])
qed (simp_all only: supported_tree supported.simps simp_thms encodeInstr.simps encodeInstrWithReloc.simps unarmed_ctx
       encode_op_check steps_skip,
     (intro erases_op subtables erases_skip [OF erases_mark] erases_skip [OF erases_mark_symbol] erases_Cons erases_Nil erases_bare; simp)+)

end
