(* ===== verification/Object_Reading.thy ===== *)
theory Object_Reading
  imports Object_Relocs Link_Codecs
begin

text \<open>
  What the linker's reader sees of an emitted object: relocation entries come back as they are, symbols too,
  except that the names of undefined symbols are gone, since the emitter writes none and sets no
  explicit-name flag.
\<close>

section \<open>Symbols\<close>

definition blank_undefined :: "symbol_info \<Rightarrow> symbol_info" where
  "blank_undefined sy = (if flagged (sy_flags sy) SYMBOL_UNDEFINED then sy\<lparr>sy_name := []\<rparr> else sy)"

definition symbol_bytes :: "symbol_info \<Rightarrow> byte list" where
  "symbol_bytes sy =
     word_of_nat (sy_kind sy) # uleb (sy_flags sy) @ uleb (sy_index sy) @
     (if flagged (sy_flags sy) SYMBOL_UNDEFINED then [] else name_bytes (sy_name sy))"

text \<open>The symbols the emitter makes: three kinds, three flag values, names that are valid strings.\<close>

definition symbol_ok :: "symbol_info \<Rightarrow> bool" where
  "symbol_ok sy \<longleftrightarrow>
     sy_kind sy \<in> {SYMTAB_FUNCTION, SYMTAB_GLOBAL, SYMTAB_EVENT} \<and>
     sy_flags sy \<in> {SYMBOL_UNDEFINED, SYMBOL_EXPORTED, SYMBOL_BINDING_LOCAL} \<and> sy_index sy < 2 ^ 32 \<and> name_ok (sy_name sy)"

lemma flag_cases:
  "flagged SYMBOL_UNDEFINED SYMBOL_UNDEFINED" "\<not> flagged SYMBOL_EXPORTED SYMBOL_UNDEFINED"
  "\<not> flagged SYMBOL_BINDING_LOCAL SYMBOL_UNDEFINED" "\<not> flagged SYMBOL_UNDEFINED SYMBOL_EXPLICIT_NAME"
  "SYMBOL_UNDEFINED < 2 ^ 32" "SYMBOL_EXPORTED < 2 ^ 32" "SYMBOL_BINDING_LOCAL < 2 ^ 32"
  by (simp_all add: flagged_def SYMBOL_UNDEFINED_def SYMBOL_EXPORTED_def SYMBOL_BINDING_LOCAL_def SYMBOL_EXPLICIT_NAME_def)

lemma put_symbol_blank: "put_symbol (blank_undefined sy) = put_symbol sy"
  by (simp add: put_symbol_def blank_undefined_def)

lemma name_codec: "name_ok s \<Longrightarrow> appends (put_name s) (name_bytes s)" "name_ok s \<Longrightarrow> reads rd_name (name_bytes s) s"
  using nm.put_appends [of s] nm.get_reads [of s] by (simp_all add: name_ok_def name_bytes_def)

interpretation os: codec put_symbol read_symbol symbol_bytes "\<lambda>sy. symbol_ok sy \<and> blank_undefined sy = sy"
proof unfold_locales
  fix sy assume ok: "symbol_ok sy \<and> blank_undefined sy = sy"
  have small: "sy_kind sy < 256" "sy_flags sy < 2 ^ 32" "sy_index sy < 2 ^ 32" "name_ok (sy_name sy)"
    using ok flag_cases by (auto simp: symbol_ok_def SYMTAB_FUNCTION_def SYMTAB_GLOBAL_def SYMTAB_EVENT_def)
  let ?undef = "flagged (sy_flags sy) SYMBOL_UNDEFINED"
  have name: "appends (steps (if ?undef then [] else [put_name (sy_name sy)])) (if ?undef then [] else name_bytes (sy_name sy))"
    using appends_steps_Cons [OF name_codec(1) [OF small(4)] appends_steps_Nil] appends_steps_Nil by (simp del: steps.simps)
  have "appends (\<lambda>e. bindE (steps [put_byte (int (sy_kind sy)), put_int (int (sy_flags sy)), put_int (int (sy_index sy))] e)
        (steps (if ?undef then [] else [put_name (sy_name sy)])))
      (([word_of_int (int (sy_kind sy))] @ uleb (sy_flags sy) @ uleb (sy_index sy) @ []) @ (if ?undef then [] else name_bytes (sy_name sy)))"
    by (intro appends_bind appends_steps_Cons appends_steps_Nil appends_byte appends_u32 small name)
  then show "appends (put_symbol sy) (symbol_bytes sy)"
    unfolding put_symbol_def steps_append symbol_bytes_def by simp
  have kind: "sy_kind sy \<in> {SYMTAB_FUNCTION, SYMTAB_GLOBAL, SYMTAB_EVENT, SYMTAB_TABLE}" using ok by (auto simp: symbol_ok_def)
  have want: "(\<not> ?undef \<or> flagged (sy_flags sy) SYMBOL_EXPLICIT_NAME) = (\<not> ?undef)"
    using ok flag_cases by (auto simp: symbol_ok_def)
  have item: "reads (rd_when (\<not> ?undef) rd_name) (if ?undef then [] else name_bytes (sy_name sy))
      (if ?undef then None else Some (sy_name sy))"
    using reads_when [of "\<not> ?undef" rd_name "name_bytes (sy_name sy)" "sy_name sy", OF name_codec(2) [OF small(4)]]
    by (cases ?undef) simp_all
  have blank: "?undef \<Longrightarrow> sy_name sy = []" using ok by (cases sy) (auto simp: blank_undefined_def)
  have "reads read_symbol (word_of_nat (sy_kind sy) # uleb (sy_flags sy) @ uleb (sy_index sy) @
      (if ?undef then [] else name_bytes (sy_name sy)) @ []) sy"
    unfolding read_symbol_def [abs_def]
    apply (rule reads_then_byte [OF small(1)], rule reads_then_u32 [OF small(2)])
    apply (simp only: kind if_True want, rule reads_then_u32 [OF small(3)], rule reads_bind [OF item])
    using blank by (intro reads_done) (cases sy; auto)
  then show "reads read_symbol (symbol_bytes sy) sy" by (simp add: symbol_bytes_def)
qed

lemma put_symbols_vector: "put_symbols symbols = put_vector (map blank_undefined symbols) put_symbol"
  unfolding put_symbols_def put_vector_def for_each_def steps_Cons by (simp add: comp_def put_symbol_blank)

lemma blank_ok: "symbol_ok sy \<Longrightarrow> symbol_ok (blank_undefined sy)"
  by (simp add: symbol_ok_def blank_undefined_def name_ok_def) (simp add: utf8_encode_def well_formed_def valid_units_def)

lemma blank_twice: "blank_undefined (blank_undefined sy) = blank_undefined sy"
  by (simp add: blank_undefined_def)

lemma symbols_read_back:
  assumes "list_all symbol_ok symbols" "length symbols < 2 ^ 32"
  shows "appends (put_symbols symbols) (uleb (length symbols) @ concat (map symbol_bytes (map blank_undefined symbols)))"
    "reads (rd_vector read_symbol) (uleb (length symbols) @ concat (map symbol_bytes (map blank_undefined symbols)))
       (map blank_undefined symbols)"
proof -
  have ok: "list_all (\<lambda>sy. symbol_ok sy \<and> blank_undefined sy = sy) (map blank_undefined symbols)"
    using assms(1) by (auto simp: list_all_iff blank_ok blank_twice)
  from os.vector_appends [OF ok] os.vector_reads [OF ok] assms(2)
  show "appends (put_symbols symbols) (uleb (length symbols) @ concat (map symbol_bytes (map blank_undefined symbols)))"
    "reads (rd_vector read_symbol) (uleb (length symbols) @ concat (map symbol_bytes (map blank_undefined symbols)))
       (map blank_undefined symbols)"
    unfolding put_symbols_vector by simp_all
qed

section \<open>Relocations\<close>

definition read_as :: "obj_reloc \<Rightarrow> reloc_entry" where
  "read_as r =
     \<lparr>rl_type = nat (or_type r), rl_offset = nat (or_offset r), rl_symbolIndex = nat (or_symbolIndex r), rl_addend = None\<rparr>"

definition written_as :: "reloc_entry \<Rightarrow> obj_reloc" where
  "written_as r =
     \<lparr>or_type = int (rl_type r), or_offset = int (rl_offset r), or_symbolIndex = int (rl_symbolIndex r)\<rparr>"

definition reloc_ok :: "reloc_entry \<Rightarrow> bool" where
  "reloc_ok r \<longleftrightarrow> rl_type r \<in> {0, 6, 7, 10} \<and> rl_offset r < 2 ^ 32 \<and> rl_symbolIndex r < 2 ^ 32 \<and> rl_addend r = None"

definition reloc_bytes :: "reloc_entry \<Rightarrow> byte list" where
  "reloc_bytes r = word_of_nat (rl_type r) # uleb (rl_offset r) @ uleb (rl_symbolIndex r)"

interpretation rl: codec "\<lambda>r. put_reloc (written_as r)" read_reloc reloc_bytes reloc_ok
proof unfold_locales
  fix r assume ok: "reloc_ok r"
  have "appends (put_reloc (written_as r)) ([word_of_int (int (rl_type r))] @ uleb (rl_offset r) @ uleb (rl_symbolIndex r) @ [])"
    unfolding put_reloc_def written_as_def obj_reloc.select_convs using ok
    by (intro appends_steps_Cons appends_steps_Nil appends_byte appends_u32) (auto simp: reloc_ok_def)
  then show "appends (put_reloc (written_as r)) (reloc_bytes r)" by (simp add: reloc_bytes_def)
  have plain: "(rl_type r \<in> set RELOC_HAS_ADDEND) = False" using ok by (auto simp: reloc_ok_def RELOC_HAS_ADDEND_def)
  have none: "reads (rd_when False rd_i32) [] None" using reads_when [of False rd_i32 "[]" 0] by simp
  have small: "rl_type r < 256" "rl_offset r < 2 ^ 32" "rl_symbolIndex r < 2 ^ 32" using ok by (auto simp: reloc_ok_def)
  have "reads read_reloc (word_of_nat (rl_type r) # uleb (rl_offset r) @ uleb (rl_symbolIndex r) @ [] @ []) r"
    unfolding read_reloc_def [abs_def]
    apply (rule reads_then_byte [OF small(1)], rule reads_then_u32 [OF small(2)], rule reads_then_u32 [OF small(3)])
    apply (simp only: plain, rule reads_bind [OF none])
    using ok by (intro reads_done) (cases r; simp add: reloc_ok_def)
  then show "reads read_reloc (reloc_bytes r) r" by (simp add: reloc_bytes_def)
qed

section \<open>The linking section\<close>

definition linking_bytes :: "symbol_info list \<Rightarrow> byte list" where
  "linking_bytes symbols =
     (let table = uleb (length symbols) @ concat (map symbol_bytes (map blank_undefined symbols)) in
      name_bytes (str ''linking'') @ uleb 2 @ [word_of_nat WASM_SYMBOL_TABLE] @ uleb (length table) @ table)"

lemma linking_name: "name_ok (str ''linking'')"
  unfolding name_ok_def well_formed_def valid_units_def str_def
  by (simp add: utf8_encode_def scalar_def is_lead_def is_trail_def utf8_cp_def to_scalar_def)

lemma put_linking_appends:
  assumes "list_all symbol_ok symbols" "length symbols < 2 ^ 32"
    and "length (uleb (length symbols) @ concat (map symbol_bytes (map blank_undefined symbols))) < 2 ^ 32"
  shows "appends (put_linking symbols) (linking_bytes symbols)"
proof -
  let ?table = "uleb (length symbols) @ concat (map symbol_bytes (map blank_undefined symbols))"
  obtain sub where sub: "put_symbols symbols new_encoder = Inr sub" "written sub = ?table"
    using appendsD [OF symbols_read_back(1) [OF assms(1,2)] new_encoder_ok(1)] by auto
  have sized: "appends (put_sized sub) (concat [uleb (length ?table), ?table])"
    unfolding put_sized_def enc_finish_written sub(2) using appends_u32 [OF assms(3)] appends_raw [of ?table]
    by (intro appends_steps) simp
  have "appends (\<lambda>e. bindE (steps [put_name (str ''linking''), put_int 2] e)
        (steps [put_byte (int WASM_SYMBOL_TABLE), put_sized sub]))
      ((name_bytes (str ''linking'') @ uleb 2 @ []) @
       ([word_of_int (int WASM_SYMBOL_TABLE)] @ concat [uleb (length ?table), ?table] @ []))"
    using appends_u32 [of 2]
    by (intro appends_bind appends_steps_Cons appends_steps_Nil name_codec(1) [OF linking_name] appends_byte sized) simp_all
  then show ?thesis unfolding put_linking_def [abs_def] sub(1) bindE_Inr
    by (simp add: linking_bytes_def Let_def del: steps.simps)
qed

lemma linking_loop_end: "end \<le> rd_pos r \<Longrightarrow> linking_loop end obj r = Inr (obj, r)"
  by (subst linking_loop.simps) simp

lemma linking_section_read:
  assumes "list_all symbol_ok symbols" "length symbols < 2 ^ 32"
    and "length (uleb (length symbols) @ concat (map symbol_bytes (map blank_undefined symbols))) < 2 ^ 32"
  shows "parseCustomSection (length pre + length (linking_bytes symbols)) obj
      \<lparr>rd_data = pre @ linking_bytes symbols @ rest, rd_pos = length pre\<rparr> =
    Inr (obj\<lparr>ob_symbols := ob_symbols obj @ map blank_undefined symbols\<rparr>,
      \<lparr>rd_data = pre @ linking_bytes symbols @ rest, rd_pos = length pre + length (linking_bytes symbols)\<rparr>)"
proof -
  define tab where "tab = uleb (length symbols) @ concat (map symbol_bytes (map blank_undefined symbols))"
  let ?stop = "length pre + length (linking_bytes symbols)"
  have bytes: "linking_bytes symbols = name_bytes (str ''linking'') @ uleb 2 @ [word_of_nat WASM_SYMBOL_TABLE] @ uleb (length tab) @ tab"
    by (simp add: linking_bytes_def tab_def Let_def)
  have tab: "reads (rd_vector read_symbol) tab (map blank_undefined symbols)"
    unfolding tab_def by (rule symbols_read_back(2) [OF assms(1,2)])
  have table: "reads (parseSymbolTable obj) tab (obj\<lparr>ob_symbols := ob_symbols obj @ map blank_undefined symbols\<rparr>)"
    unfolding parseSymbolTable_def [abs_def] by (rule reads_end, rule reads_bind [OF tab], rule reads_done) simp
  define data where "data = pre @ linking_bytes symbols @ rest"
  define p1 p2 p3 p4 where "p1 = length pre + length (name_bytes (str ''linking''))" and "p2 = p1 + length (uleb 2)"
    and "p3 = p2 + 1" and "p4 = p3 + length (uleb (length tab))"
  have stop: "?stop = p4 + length tab" by (simp add: bytes p1_def p2_def p3_def p4_def)
  have 1: "rd_name \<lparr>rd_data = data, rd_pos = length pre\<rparr> = Inr (str ''linking'', \<lparr>rd_data = data, rd_pos = p1\<rparr>)"
    using readsD [OF name_codec(2) [OF linking_name], of pre] by (simp add: data_def bytes p1_def)
  have 2: "rd_u32 \<lparr>rd_data = data, rd_pos = p1\<rparr> = Inr (2, \<lparr>rd_data = data, rd_pos = p2\<rparr>)"
    using readsD [OF reads_u32 [of 2], of "pre @ name_bytes (str ''linking'')"] by (simp add: data_def bytes p1_def p2_def)
  have 3: "rd_byte \<lparr>rd_data = data, rd_pos = p2\<rparr> = Inr (WASM_SYMBOL_TABLE, \<lparr>rd_data = data, rd_pos = p3\<rparr>)"
    using readsD [OF reads_byte, of "pre @ name_bytes (str ''linking'') @ uleb 2" "word_of_nat WASM_SYMBOL_TABLE"]
    by (simp add: data_def bytes p1_def p2_def p3_def WASM_SYMBOL_TABLE_def add.assoc)
  have 4: "rd_u32 \<lparr>rd_data = data, rd_pos = p3\<rparr> = Inr (length tab, \<lparr>rd_data = data, rd_pos = p4\<rparr>)"
    using readsD [OF reads_u32 [OF assms(3) [folded tab_def]], of "pre @ name_bytes (str ''linking'') @ uleb 2 @ [word_of_nat WASM_SYMBOL_TABLE]"]
    by (simp add: data_def bytes p1_def p2_def p3_def p4_def add.assoc)
  have 5: "parseSymbolTable obj \<lparr>rd_data = data, rd_pos = p4\<rparr> =
      Inr (obj\<lparr>ob_symbols := ob_symbols obj @ map blank_undefined symbols\<rparr>, \<lparr>rd_data = data, rd_pos = ?stop\<rparr>)"
    using readsD [OF table, of "pre @ name_bytes (str ''linking'') @ uleb 2 @ [word_of_nat WASM_SYMBOL_TABLE] @ uleb (length tab)"]
    unfolding stop by (simp add: data_def bytes p1_def p2_def p3_def p4_def add.assoc)
  have "p2 < ?stop" by (simp add: stop p4_def p3_def)
  then have "linking_loop ?stop obj \<lparr>rd_data = data, rd_pos = p2\<rparr> =
      Inr (obj\<lparr>ob_symbols := ob_symbols obj @ map blank_undefined symbols\<rparr>, \<lparr>rd_data = data, rd_pos = ?stop\<rparr>)"
    by (subst linking_loop.simps) (simp add: 3 4 5 linking_loop_end)
  with 1 2 show ?thesis unfolding data_def [symmetric] by (simp add: parseCustomSection_def parseLinkingSection_def)
qed

text \<open>Every symbol the emitter makes has one of the three kinds and flag values and an index below their number.\<close>

definition symbol_made :: "symbol_info \<Rightarrow> bool" where
  "symbol_made sy \<longleftrightarrow> sy_kind sy \<in> {SYMTAB_FUNCTION, SYMTAB_GLOBAL, SYMTAB_EVENT} \<and>
     sy_flags sy \<in> {SYMBOL_UNDEFINED, SYMBOL_EXPORTED, SYMBOL_BINDING_LOCAL}"

definition space_made :: "symbol_space \<Rightarrow> bool" where
  "space_made sp \<longleftrightarrow> sp_next sp \<le> length (sp_symbols sp) \<and>
     list_all (\<lambda>sy. symbol_made sy \<and> sy_index sy < length (sp_symbols sp)) (sp_symbols sp)"

lemma space_made_new: "space_made sp \<Longrightarrow> space_made (new_space (sp_symbols sp))"
  by (simp add: space_made_def new_space_def)

lemma space_made_add:
  "space_made sp \<Longrightarrow> kind \<in> {SYMTAB_FUNCTION, SYMTAB_GLOBAL, SYMTAB_EVENT} \<Longrightarrow>
     flags \<in> {SYMBOL_UNDEFINED, SYMBOL_EXPORTED, SYMBOL_BINDING_LOCAL} \<Longrightarrow> space_made (add_symbol kind name flags sp)"
  by (auto simp: space_made_def symbol_made_def add_symbol_def list_all_iff)

lemma space_made_built:
  assumes "space_made sp" "kind \<in> {SYMTAB_FUNCTION, SYMTAB_GLOBAL, SYMTAB_EVENT}"
  shows "space_made (import_symbols kind imps sp)" "space_made (defined_symbols kind pre ex names sp)"
proof -
  show "space_made (import_symbols kind imps sp)"
    using assms unfolding import_symbols_def by (induction imps arbitrary: sp) (simp_all add: space_made_add)
  have "binding b \<in> {SYMBOL_UNDEFINED, SYMBOL_EXPORTED, SYMBOL_BINDING_LOCAL}" for b by (simp add: binding_def)
  then show "space_made (defined_symbols kind pre ex names sp)"
    using assms unfolding defined_symbols_def
    by (induction names arbitrary: sp) (simp, simp only: list.simps fold.simps foldl.simps comp_apply space_made_add)
qed

lemma object_symbols_ok:
  assumes "list_all (\<lambda>sy. name_ok (sy_name sy)) (object_symbols md)" "length (object_symbols md) < 2 ^ 32"
  shows "list_all symbol_ok (object_symbols md)"
proof -
  have "space_made (new_space [])" by (simp add: space_made_def new_space_def)
  then have "space_made (tag_space md)"
    unfolding tag_space_def global_space_def func_space_def by (intro space_made_built space_made_new) simp_all
  then show ?thesis using assms
    by (auto simp: space_made_def symbol_made_def symbol_ok_def object_symbols_def list_all_iff intro: less_trans)
qed

lemma linking_bounds:
  assumes "length (linking_bytes symbols) < 2 ^ 32"
  shows "length symbols < 2 ^ 32" "length (uleb (length symbols) @ concat (map symbol_bytes (map blank_undefined symbols))) < 2 ^ 32"
proof -
  have "length symbols \<le> length (concat (map symbol_bytes (map blank_undefined symbols)))"
    by (induction symbols) (simp_all add: symbol_bytes_def)
  with assms show "length symbols < 2 ^ 32" by (simp add: linking_bytes_def Let_def)
  show "length (uleb (length symbols) @ concat (map symbol_bytes (map blank_undefined symbols))) < 2 ^ 32"
    using assms by (simp add: linking_bytes_def Let_def)
qed

end
