(* ===== verification/Module_Properties.thy ===== *)
theory Module_Properties
  imports Emit_Runs Object_Correct Object_Reading
begin

text \<open>
  The properties of module emission: function handles and the layout that resolves them, the type section,
  index validation and the shape of emitted binaries, and relocatable objects with what the linker's
  reader gets from them.
\<close>

section \<open>Samples\<close>

definition sample_floats :: "nat float_layout" where
  "sample_floats = \<lparr>fl_f64 = (\<lambda>_. replicate 8 0), fl_f32 = (\<lambda>_. replicate 4 0)\<rparr>"

definition empty_module :: "nat wasm_module" where
  "empty_module =
     \<lparr>md_types = [], md_imports = [], md_functions = [], md_tables = [], md_tags = [], md_globals = [], md_exports = [],
      md_elements = [], md_funcOrdinalToPosition = [], md_memories = [], md_startFuncIdx = None, md_declaredFuncRefs = [],
      md_dataSegments = [], md_canonicalRuntimeRecGroup = None\<rparr>"

definition sample_function :: "string \<Rightarrow> nat instr list \<Rightarrow> nat wasm_function" where
  "sample_function name body =
     \<lparr>fn_name = str name, fn_typeIdx = 0, fn_locals = [], fn_body = body, fn_exported = False\<rparr>"

text \<open>An imported function, two defined ones, the second of which a stable handle names.\<close>

definition linked_module :: "nat wasm_module" where
  "linked_module =
     empty_module\<lparr>md_types := [FuncTypeDef None [] []],
       md_imports := [\<lparr>wi_module = str ''env'', wi_name = str ''log'', wi_desc = ImportFunc 0\<rparr>],
       md_functions := [sample_function ''f'' [Func ''call'' 0, Func ''call'' 2], sample_function ''g'' []],
       md_funcOrdinalToPosition := [Some 1, None]\<rparr>"

section \<open>Function handles\<close>

text \<open>C9: whatever a compilation mints, pushes, replaces or imports late, the handle table stays consistent
  (positions are those of functions and no two handles share one), and a stable handle that had been
  pushed still resolves to its own position behind the imports there are now, both in the final layout and in the accessor that
  codegen uses.\<close>

theorem handles_survive:
  assumes "handles_ok md0" "handle_steps md0 md"
    and "STABLE_FUNC_BASE \<le> h" "ordinal_slot md0 h = Some (Some p)"
  shows "handles_ok md \<and> p < length (md_functions md) \<and>
    ly_func (resolveLayout md) (Some h) = Inr (int (numImportFuncs md) + int p) \<and>
    definedPositionOf md (numImportFuncs md) h = int p"
proof -
  have ok: "handles_ok md" and slot: "ordinal_slot md h = Some (Some p)"
    using handle_steps_invariants [OF assms(2)] assms(1,4) by blast+
  moreover from ok slot have "p < length (md_functions md)" unfolding handles_ok_def ordinal_slot_def by blast
  ultimately show ?thesis using stable_resolution [OF assms(3) slot] by simp
qed

lemma linked_handles: "handles_ok linked_module"
  by (auto simp: handles_ok_def linked_module_def nth_opt_def nth_Cons' split: if_splits)

theorem handles_survive_witness:
  "let md = linked_module\<lparr>md_imports := md_imports linked_module @ [\<lparr>wi_module = [], wi_name = [], wi_desc = ImportFunc 0\<rparr>]\<rparr> in
   handles_ok md \<and> 1 < length (md_functions md) \<and>
     ly_func (resolveLayout md) (Some STABLE_FUNC_BASE) = Inr (int (numImportFuncs md) + int 1) \<and>
     definedPositionOf md (numImportFuncs md) STABLE_FUNC_BASE = int 1"
  unfolding Let_def
  by (rule handles_survive [OF linked_handles handle_steps.more [OF handle_steps.none handle_step.late_import]])
     (simp_all add: ordinal_slot_def linked_module_def nth_opt_def)

text \<open>C30: a minted handle is never stuck: until its function is pushed, pushing one succeeds, makes the handle
  resolve to that function and to the position behind all functions there were, and a second push under the same handle is refused.\<close>

theorem minted_handle_pushes:
  assumes "STABLE_FUNC_BASE \<le> h" "ordinal_slot md h = Some None"
  shows "\<exists>md'. pushDefinedFunc md h fn = Inr md' \<and> definedFuncAt md' n h = Some fn \<and>
    ly_func (resolveLayout md') (Some h) = Inr (int (numImportFuncs md) + int (length (md_functions md))) \<and>
    pushDefinedFunc md' h fn' = Inl (AlreadyPushed h (length (md_functions md)))"
proof -
  obtain md' where md': "pushDefinedFunc md h fn = Inr md'"
    using assms by (simp add: pushDefinedFunc_def commitDefinedFuncOrdinal_def)
  note facts = pushed(3) [OF md'] and slot = pushed_slot [OF md']
  have "definedFuncAt md' n h = Some fn"
    using stable_resolution(2) [OF assms(1) slot, of n] by (simp add: definedFuncAt_def facts nth_opt_def)
  moreover have "ly_func (resolveLayout md') (Some h) = Inr (int (numImportFuncs md) + int (length (md_functions md)))"
    using stable_resolution(1) [OF assms(1) slot] by (simp add: facts numImportFuncs_def)
  moreover have "pushDefinedFunc md' h fn' = Inl (AlreadyPushed h (length (md_functions md)))"
    using assms(1) slot by (simp add: pushDefinedFunc_def commitDefinedFuncOrdinal_def)
  ultimately show ?thesis using md' by blast
qed

theorem minted_handle_pushes_witness:
  "\<exists>md'. pushDefinedFunc linked_module (STABLE_FUNC_BASE + 1) (sample_function ''h'' []) = Inr md' \<and>
    definedFuncAt md' 1 (STABLE_FUNC_BASE + 1) = Some (sample_function ''h'' []) \<and>
    ly_func (resolveLayout md') (Some (STABLE_FUNC_BASE + 1)) = Inr (int (numImportFuncs linked_module) + int (length (md_functions linked_module))) \<and>
    pushDefinedFunc md' (STABLE_FUNC_BASE + 1) (sample_function ''k'' []) = Inl (AlreadyPushed (STABLE_FUNC_BASE + 1) (length (md_functions linked_module)))"
  by (rule minted_handle_pushes) (simp_all add: ordinal_slot_def linked_module_def nth_opt_def)

section \<open>The type section\<close>

lemma rec_group_facts:
  assumes "computeRecGroups types forcedGroups = Inr groups"
  shows "concat (map (\<lambda>(s, e). [s ..< Suc e]) groups) = [0 ..< length (concat (map members_of types))]"
    and "\<forall>(s, e) \<in> set groups. \<forall>i \<in> {s..e}. \<forall>t \<in> set (type_refs (concat (map members_of types) ! i)). 0 \<le> t \<and> t \<le> int e"
    and "\<forall>i < length (concat (map members_of types)). \<forall>t \<in> set (supertypes (concat (map members_of types) ! i)). 0 \<le> t \<and> t < int i"
    and "\<forall>(s, e) \<in> set forcedGroups. \<exists>(s', e') \<in> set groups. int s' = s \<and> int e' = e"
proof -
  obtain table gs where table: "indexPhysicalTypes types = Inr table" and gs: "planPhysicalTypeSection table forcedGroups = Inr gs"
    and groups: "groups = map (\<lambda>g. (tg_start g, tg_end g)) gs"
    using assms by (auto simp: computeRecGroups_def bindE_eq_Inr)
  let ?defs = "concat (map members_of types)" and ?n = "length (tt_entries table)"
  have entries: "map pe_definition (tt_entries table) = ?defs" "map pe_typeIndex (tt_entries table) = [0 ..< ?n]"
    using indexPhysicalTypes_ok [OF table] by (simp_all add: physical_ok_def)
  then have n: "?n = length ?defs" by (metis length_map)
  obtain refs where refs: "list_all2 (\<lambda>e rs. entry_refs ?n e = Inr rs) (tt_entries table) refs"
    and tile: "concat (map group_span gs) = [0 ..< ?n]"
    and ok: "list_all (group_ok refs (tt_explicitGroups table)) gs"
    and forced: "\<forall>(s, e) \<in> set forcedGroups. \<exists>g \<in> set gs. int (tg_start g) = s \<and> int (tg_end g) = e"
    by (rule plan_facts [OF table gs])
  have at: "pe_definition (tt_entries table ! i) = ?defs ! i" "pe_typeIndex (tt_entries table ! i) = i" if "i < ?n" for i
    using that arg_cong [OF entries(1), of "\<lambda>xs. xs ! i"] arg_cong [OF entries(2), of "\<lambda>xs. xs ! i"] by simp_all
  have facts: "map int (refs ! i) = type_refs (?defs ! i)" "\<forall>s \<in> set (supertypes (?defs ! i)). 0 \<le> s \<and> s < int i" if "i < ?n" for i
    using entry_refs_Inr [of ?n "tt_entries table ! i" "refs ! i"] list_all2_nthD [OF refs that] at [OF that] by simp_all
  show "concat (map (\<lambda>(s, e). [s ..< Suc e]) groups) = [0 ..< length ?defs]"
    using tile by (simp add: groups group_span_def [abs_def] comp_def n)
  show "\<forall>i < length ?defs. \<forall>t \<in> set (supertypes (?defs ! i)). 0 \<le> t \<and> t < int i"
    using facts(2) n by auto
  show "\<forall>(s, e) \<in> set forcedGroups. \<exists>(s', e') \<in> set groups. int s' = s \<and> int e' = e"
    using forced by (force simp: groups)
  have "0 \<le> t \<and> t \<le> int (tg_end g)" if "g \<in> set gs" "i \<in> {tg_start g..tg_end g}" "t \<in> set (type_refs (?defs ! i))" for g i t
  proof -
    have "closed_from refs (tg_start g) (tg_end g)" using ok that(1) by (simp add: list_all_iff group_ok_def)
    with that(2) have i: "i < length refs" "\<forall>t \<in> set (refs ! i). t \<le> tg_end g" unfolding closed_from_def by blast+
    then have "i < ?n" using list_all2_lengthD [OF refs] by simp
    from facts(1) [OF this, symmetric] that(3) i(2) show ?thesis by auto
  qed
  then show "\<forall>(s, e) \<in> set groups. \<forall>i \<in> {s..e}. \<forall>t \<in> set (type_refs (?defs ! i)). 0 \<le> t \<and> t \<le> int e"
    by (auto simp: groups)
qed

text \<open>C16: the recursion groups the emitter plans are a well-formed type section: they tile the flattened type index space in
  order, no type of a group refers past its group, supertypes come before their subtypes, and a forced
  group is a group of its own.\<close>

theorem rec_groups_well_formed:
  assumes "computeRecGroups types forcedGroups = Inr groups" "defs = concat (map members_of types)"
  shows "concat (map (\<lambda>(s, e). [s ..< Suc e]) groups) = [0 ..< length defs] \<and>
    (\<forall>(s, e) \<in> set groups. \<forall>i \<in> {s..e}. \<forall>t \<in> set (type_refs (defs ! i)). 0 \<le> t \<and> t \<le> int e) \<and>
    (\<forall>i < length defs. \<forall>t \<in> set (supertypes (defs ! i)). 0 \<le> t \<and> t < int i) \<and>
    (\<forall>(s, e) \<in> set forcedGroups. \<exists>(s', e') \<in> set groups. int s' = s \<and> int e' = e)"
  unfolding assms(2) by (intro conjI rec_group_facts [OF assms(1)])

definition sample_types :: "type_def list" where
  "sample_types =
     [StructTypeDef [] [\<lparr>fd_name = [], fd_type = VRefNull 1, fd_mutable = True\<rparr>] (Some (- 1)) False,
      ArrayTypeDef [] (VRef 0) True, FuncTypeDef None [VRef 1] [VI32 False],
      StructTypeDef [] [\<lparr>fd_name = [], fd_type = VRefNull 1, fd_mutable = True\<rparr>] (Some 0) True]"

theorem rec_groups_well_formed_witness:
  "computeRecGroups sample_types [(2, 2)] = Inr [(0, 1), (2, 2), (3, 3)] \<and>
   concat (map (\<lambda>(s, e). [s ..< Suc e]) [(0, 1), (2, 2), (3, 3)]) = [0 ..< length sample_types] \<and>
   list_all (\<lambda>t. 0 \<le> t \<and> t \<le> int 1) (type_refs (sample_types ! 0)) \<and>
   list_all (\<lambda>t. 0 \<le> t \<and> t < int 3) (supertypes (sample_types ! 3))"
proof -
  have groups: "computeRecGroups sample_types [(2, 2)] = Inr [(0, 1), (2, 2), (3, 3)]" by code_simp
  have "sample_types = concat (map members_of sample_types)" by (simp add: sample_types_def)
  note facts = rec_groups_well_formed [OF groups this]
  then have "list_all (\<lambda>t. 0 \<le> t \<and> t \<le> int 1) (type_refs (sample_types ! 0))" by (force simp: list_all_iff)
  moreover have "list_all (\<lambda>t. 0 \<le> t \<and> t < int 3) (supertypes (sample_types ! 3))"
    using facts by (auto simp: list_all_iff sample_types_def)
  ultimately show ?thesis using groups facts by blast
qed

section \<open>Complete modules\<close>

text \<open>C5: index validation is exact, on the index spaces it covers, and byte-neutral. These are functions, types (signatures,
  immediates, block types, supertypes, value types and heap types), globals, locals inside function bodies, exception tags,
  tables, struct fields and exported memories. A module is emitted with validation exactly when it is emitted without and every
  index of these spaces, at any depth of its bodies, is in range, and then the bytes are the same. The data segments that
  \<^verbatim>\<open>memory.init\<close> and \<^verbatim>\<open>data.drop\<close> name, branch depths and locals outside function bodies are not checked by the emitter,
  and \<open>module_in_range\<close> asks nothing of them.\<close>

theorem validation_exact:
  "emitBinary False fl md = Inr bytes \<longleftrightarrow>
     emitBinary True fl md = Inr bytes \<and>
     (\<exists>v. makeValidationCtx md = Inr v \<and> module_in_range (armed_ctx md v) v md)"
proof (cases "makeValidationCtx md")
  case (Inl err)
  then have "emitBinary False fl md = Inl err" by (simp add: emitBinary_def)
  then show ?thesis using Inl by simp
next
  case (Inr v)
  then show ?thesis using emitBinary_exact [OF Inr, of fl bytes] by auto
qed

text \<open>C6: an emitted binary is the header and then one sized section for each kind of content the module has, in the order
  WebAssembly prescribes.\<close>

theorem emitted_sections:
  assumes "emitBinary skip fl md = Inr bytes"
  shows "subseq (section_ids md) section_order \<and>
    (\<exists>payloads. length payloads = length (section_ids md) \<and> list_all (\<lambda>p. length p < 2 ^ 32) payloads \<and>
       bytes = [0x00, 0x61, 0x73, 0x6d, 0x01, 0x00, 0x00, 0x00] @ concat (map2 framed (section_ids md) payloads))"
  using section_ids_ordered emitBinary_shape [OF assms] by metis

definition memory_module :: "nat wasm_module" where
  "memory_module =
     empty_module\<lparr>md_memories := [(1, None)], md_exports := [\<lparr>we_name = str ''m'', we_kind = EkMemory, we_index = 0\<rparr>],
       md_dataSegments := [\<lparr>ds_offset = 0, ds_bytes = [1, 2], ds_passive = True\<rparr>]\<rparr>"

lemma memory_module_emitted: "\<exists>bytes. emitBinary True sample_floats memory_module = Inr bytes"
proof -
  let ?c = "\<lparr>ec_val = None, ec_layout = Some (resolveLayout memory_module)\<rparr>"
  have name: "length (utf8_encode (str ''m'')) = 1"
    by (simp add: str_def utf8_encode_def scalar_def is_lead_def is_trail_def utf8_cp_def to_scalar_def)
  have secs: "module_sections ?c sample_floats memory_module =
      [Inr, put_section 5 (steps [put_int 1, encode_limits 1 None]),
       put_section 7 (put_vector (md_exports memory_module) (put_export ?c)), put_section 12 (put_int 1),
       put_section 11 (steps [put_int 1, put_byte 1, put_int 2, put_bytes (Uint8Array [1, 2])])]"
    by (simp add: module_sections_def section_if_def memory_module_def empty_module_def put_types_def [abs_def] name_entries_def
        put_data_def del: steps.simps)
  have ex: "md_exports memory_module = [\<lparr>we_name = str ''m'', we_kind = EkMemory, we_index = 0\<rparr>]"
    by (simp add: memory_module_def)
  have export: "succeeds (steps (map (put_export ?c) (md_exports memory_module))) (1 + length (utf8_encode (str ''m'')) + (1 + (1 + 0)) + 0)"
  proof -
    have "put_export ?c \<lparr>we_name = str ''m'', we_kind = EkMemory, we_index = 0\<rparr> =
        steps [put_name (str ''m''), put_byte 2, put_int 0]"
      by (simp add: put_export_def encodeExport_def [abs_def] resolve_export_def at_where_def when_valid_def fun_eq_iff)
    moreover have "succeeds (steps [put_name (str ''m''), put_byte 2, put_int 0]) (1 + length (utf8_encode (str ''m'')) + (1 + (1 + 0)))"
      by (intro succeeds_Cons succeeds_Nil succeeds_name succeeds_byte succeeds_int) (simp_all add: name)
    ultimately show ?thesis unfolding ex list.map by (simp only:) (rule succeeds_Cons [OF _ succeeds_Nil])
  qed
  have "succeeds (encode_limits 1 None) (1 + (1 + 0))"
    unfolding encode_limits_def option.case by (intro succeeds_Cons succeeds_Nil succeeds_byte succeeds_int) simp_all
  then have "succeeds (steps (module_sections ?c sample_floats memory_module))
      (0 + ((2 + (1 + (1 + (1 + 0) + 0))) + ((2 + (1 + (1 + length (utf8_encode (str ''m'')) + (1 + (1 + 0)) + 0))) + ((2 + 1) +
        ((2 + (1 + (1 + (1 + (length (source_bytes (Uint8Array [1, 2])) + 0))))) + 0)))))"
    unfolding secs by (intro succeeds_Cons succeeds_Nil succeeds_none succeeds_section succeeds_vector succeeds_byte succeeds_int succeeds_bytes export)
      (simp_all add: name memory_module_def)
  from succeeds_append [OF succeeds_Cons [OF succeeds_bytes succeeds_Cons [OF succeeds_bytes succeeds_Nil]] this]
  obtain e where "steps ([put_bytes (Numbers [0x00, 0x61, 0x73, 0x6d]), put_bytes (Numbers [0x01, 0x00, 0x00, 0x00])] @
      module_sections ?c sample_floats memory_module) new_encoder = Inr e"
    using new_encoder_ok(1) unfolding succeeds_def by blast
  then show ?thesis by (auto simp: emitBinary_def simp del: steps.simps append.simps)
qed

theorem emitted_sections_witness:
  "\<exists>bytes payloads. emitBinary True sample_floats memory_module = Inr bytes \<and> length payloads = 4 \<and>
     bytes = [0x00, 0x61, 0x73, 0x6d, 0x01, 0x00, 0x00, 0x00] @ concat (map2 framed [5, 7, 12, 11] payloads)"
proof -
  obtain bytes where bytes: "emitBinary True sample_floats memory_module = Inr bytes" using memory_module_emitted by blast
  have "section_ids memory_module = [5, 7, 12, 11]"
    by (simp add: section_ids_def later_ids_def present_def memory_module_def empty_module_def name_entries_def)
  moreover obtain payloads where "length payloads = length (section_ids memory_module)"
      "bytes = [0x00, 0x61, 0x73, 0x6d, 0x01, 0x00, 0x00, 0x00] @ concat (map2 framed (section_ids memory_module) payloads)"
    using emitted_sections [OF bytes] by blast
  ultimately show ?thesis using bytes by (intro exI [of _ bytes] exI [of _ payloads]) (simp only: list.size, simp)
qed

section \<open>Relocatable objects\<close>

text \<open>C23: the object emitter's own instruction encoder agrees with the module encoder: on a body of instructions it knows it
  writes the same bytes, or throws the same error, whatever the symbol maps. The module encoder is taken as it is without a
  complete module around it, so without layout and index checks: function operands are written as they stand.\<close>

theorem object_encoder_agrees:
  assumes "supported_body body"
  shows "(case steps (map (encodeInstrWithReloc fl sm) body) (enc, relocs) of Inl e \<Rightarrow> Inl e | Inr (enc, _) \<Rightarrow> Inr enc) =
    steps (map (encodeInstr no_ctx fl) body) enc"
proof -
  have "erases (steps (map (encodeInstrWithReloc fl sm) body)) (steps (map (encodeInstr no_ctx fl) body))"
    by (intro agree_trees instr_agrees assms)
  then show ?thesis unfolding erases_def by blast
qed

theorem object_encoder_agrees_witness:
  "(case steps (map (encodeInstrWithReloc sample_floats (object_maps linked_module))
       [Block BtEmpty [Local ''local.get'' 0, Func ''call'' 1], Try BtEmpty [Throw 0] [(0, [I32Const 7])] None]) (new_encoder, []) of
      Inl e \<Rightarrow> Inl e | Inr (enc, _) \<Rightarrow> Inr enc) =
    steps (map (encodeInstr no_ctx sample_floats)
      [Block BtEmpty [Local ''local.get'' 0, Func ''call'' 1], Try BtEmpty [Throw 0] [(0, [I32Const 7])] None]) new_encoder"
  by (rule object_encoder_agrees)
     (simp add: supported_body_def walkInstructions_preorder obj_local_ops_def obj_func_ops_def)

text \<open>An instruction the object emitter does not know, such as \<^verbatim>\<open>i64.add\<close> or \<^verbatim>\<open>br_table\<close>, is dropped without an
  error, where the module encoder writes it.\<close>

theorem object_drops_unknown:
  assumes "\<not> supported i"
  shows "encodeInstrWithReloc fl sm i (enc, relocs) = Inr (enc, relocs)"
  using assms by (cases i) (simp_all add: obj_op_def)

theorem object_drops_unknown_witness:
  "encodeInstrWithReloc sample_floats (object_maps linked_module) (Plain ''i64.add'') (new_encoder, []) = Inr (new_encoder, []) \<and>
   encodeInstr no_ctx sample_floats (Plain ''i64.add'') new_encoder \<noteq> Inr new_encoder"
proof
  have "map_of obj_plain_ops ''i64.add'' = None" by (simp only: obj_tables map_of_if append.simps list.inject list.distinct
      char.inject if_False simp_thms map_of.simps(1))
  then show "encodeInstrWithReloc sample_floats (object_maps linked_module) (Plain ''i64.add'') (new_encoder, []) = Inr (new_encoder, [])"
    by (intro object_drops_unknown) simp
  have "map_of plain_ops ''i64.add'' = Some [B 0x7c]"
    by (simp only: op_tables map_of_if append.simps list.inject list.distinct char.inject if_True if_False simp_thms)
  then have "encodeInstr no_ctx sample_floats (Plain ''i64.add'') = steps [put_byte 0x7c]" by (simp add: encode_op_def)
  moreover have "appends (steps [put_byte 0x7c]) (concat [[0x7c]])" by (rule appends_steps) (use appends_byte [of "0x7c"] in simp)
  then obtain e where "steps [put_byte 0x7c] new_encoder = Inr e" "written e = [0x7c]"
    by (rule appendsD [OF _ new_encoder_ok(1)]) (simp add: put_byte_def)
  ultimately show "encodeInstr no_ctx sample_floats (Plain ''i64.add'') new_encoder \<noteq> Inr new_encoder"
    by (auto simp del: steps.simps)
qed

text \<open>C18: every relocation of an emitted code section stands on the LEB128 operand of the instruction it was recorded for:
  the bytes at its offset encode the function, global or tag index that the symbol maps lead to its symbol, or its
  type index.\<close>

theorem object_relocations:
  assumes "object_code fl (object_maps md) md = Inr (codeSec, relocs)"
  shows "list_all (reloc_on (object_maps md) (enc_finish codeSec)) relocs"
  using assms by (rule object_code_relocs)

lemma linked_symbols: "n \<in> {0, 1, 2} \<Longrightarrow> funcIdxToSymIdx (object_maps linked_module) n = Some (nat n)"
  by (subst func_lookup [OF linked_handles])
     (auto simp: linked_module_def empty_module_def resolveLayout_def absoluteFuncIndexCached_def STABLE_FUNC_BASE_def numImportFuncs_def is_func_import_def)

lemma linked_call:
  assumes "n \<in> {0, 1, 2}"
  shows "obj_adds (encodeInstrWithReloc sample_floats (object_maps linked_module) (Func ''call'' n)) [0x10, word_of_int n]
    [\<lparr>or_type = R_WASM_FUNCTION_INDEX_LEB, or_offset = 1, or_symbolIndex = n\<rparr>]"
proof -
  have call: "encodeInstrWithReloc sample_floats (object_maps linked_module) (Func ''call'' n) =
      steps [bare (put_byte 0x10), mark_symbol (funcIdxToSymIdx (object_maps linked_module)) R_WASM_FUNCTION_INDEX_LEB n, bare (put_int n)]"
    by (simp add: obj_op_def obj_func_ops_def del: steps.simps)
  have int: "appends (put_int n) [word_of_int n]" using appends_u32 [of "nat n"] assms by (auto simp: uleb.simps)
  have byte: "appends (put_byte 0x10) [0x10]" using appends_byte [of "0x10"] by simp
  from obj_adds_Cons [OF obj_adds_bare [OF byte] obj_adds_Cons [OF obj_adds_mark_symbol [where m = "funcIdxToSymIdx (object_maps linked_module)" and
      ty = R_WASM_FUNCTION_INDEX_LEB, OF linked_symbols [OF assms]]
    obj_adds_Cons [OF obj_adds_bare [OF int] obj_adds_Nil]]] assms
  show ?thesis unfolding call by (auto simp: shift_reloc_def simp del: steps.simps)
qed

theorem object_relocations_witness:
  "\<exists>codeSec. object_code sample_floats (object_maps linked_module) linked_module =
      Inr (codeSec, [\<lparr>or_type = R_WASM_FUNCTION_INDEX_LEB, or_offset = 4, or_symbolIndex = 0\<rparr>,
                     \<lparr>or_type = R_WASM_FUNCTION_INDEX_LEB, or_offset = 6, or_symbolIndex = 2\<rparr>]) \<and>
    list_all (reloc_on (object_maps linked_module) (enc_finish codeSec))
      [\<lparr>or_type = R_WASM_FUNCTION_INDEX_LEB, or_offset = 4, or_symbolIndex = 0\<rparr>,
       \<lparr>or_type = R_WASM_FUNCTION_INDEX_LEB, or_offset = 6, or_symbolIndex = 2\<rparr>]"
proof -
  let ?sm = "object_maps linked_module"
  have "put_locals no_ctx [] = put_int 0"
    by (rule ext) (simp add: put_locals_def groupLocals_def put_vector_def for_each_def bindE_def split: sum.splits)
  then have locals: "obj_adds (bare (put_locals no_ctx [])) [0] []"
    using obj_adds_bare [OF appends_u32 [of 0]] by (simp add: uleb.simps)
  have ending: "obj_adds (bare (put_byte 0x0b)) [0x0b] []" using obj_adds_bare [OF appends_byte [of "0x0b"]] by simp
  have two: "obj_adds (bare (put_int 2)) [2] []" using obj_adds_bare [OF appends_u32 [of 2]] by (simp add: uleb.simps)
  have f: "obj_adds (encodeFunctionWithReloc sample_floats ?sm (sample_function ''f'' [Func ''call'' 0, Func ''call'' 2]))
      [6, 0, 0x10, 0, 0x10, 2, 0x0b]
      [\<lparr>or_type = R_WASM_FUNCTION_INDEX_LEB, or_offset = 3, or_symbolIndex = 0\<rparr>,
       \<lparr>or_type = R_WASM_FUNCTION_INDEX_LEB, or_offset = 5, or_symbolIndex = 2\<rparr>]"
    using obj_adds_function [where f = "sample_function ''f'' [Func ''call'' 0, Func ''call'' 2]" and fl = sample_floats and sm = ?sm,
      unfolded sample_function_def wasm_function.select_convs list.map append.simps,
      OF obj_adds_Cons [OF locals obj_adds_Cons [OF linked_call [of 0] obj_adds_Cons [OF linked_call [of 2] obj_adds_Cons [OF ending obj_adds_Nil]]]]]
    by (simp add: sample_function_def shift_reloc_def uleb.simps del: steps.simps)
  have g: "obj_adds (encodeFunctionWithReloc sample_floats ?sm (sample_function ''g'' [])) [2, 0, 0x0b] []"
    using obj_adds_function [where f = "sample_function ''g'' []" and fl = sample_floats and sm = ?sm,
      unfolded sample_function_def wasm_function.select_convs list.map append.simps,
      OF obj_adds_Cons [OF locals obj_adds_Cons [OF ending obj_adds_Nil]]]
    by (simp add: sample_function_def uleb.simps del: steps.simps)
  have "md_functions linked_module = [sample_function ''f'' [Func ''call'' 0, Func ''call'' 2], sample_function ''g'' []]"
    by (simp add: linked_module_def)
  then obtain codeSec where "object_code sample_floats ?sm linked_module =
      Inr (codeSec, [\<lparr>or_type = R_WASM_FUNCTION_INDEX_LEB, or_offset = 4, or_symbolIndex = 0\<rparr>,
                     \<lparr>or_type = R_WASM_FUNCTION_INDEX_LEB, or_offset = 6, or_symbolIndex = 2\<rparr>])"
    using obj_addsD [OF obj_adds_Cons [OF two obj_adds_Cons [OF f obj_adds_Cons [OF g obj_adds_Nil]]] new_encoder_ok(1), of "[]"]
    by (auto simp: object_code_def shift_reloc_def simp del: steps.simps)
  with object_relocations [OF this] show ?thesis by blast
qed

text \<open>C21: the symbols of an object file refine the layout: a function operand, plain or stable, has a symbol exactly when the
  layout resolves it to a function of the module, and that symbol is the function symbol of the resolved index, undefined
  exactly for imports.\<close>

theorem object_function_symbols:
  assumes "handles_ok md" "int (numImportFuncs md + length (md_functions md)) \<le> STABLE_FUNC_BASE"
  shows "(funcIdxToSymIdx (object_maps md) h = Some s) =
      (ly_func (resolveLayout md) (Some h) = Inr (int s) \<and> s < numImportFuncs md + length (md_functions md)) \<and>
    (funcIdxToSymIdx (object_maps md) h = Some s \<longrightarrow>
      s < length (object_symbols md) \<and> sy_kind (object_symbols md ! s) = SYMTAB_FUNCTION \<and> sy_index (object_symbols md ! s) = s \<and>
      (sy_flags (object_symbols md ! s) = SYMBOL_UNDEFINED) = (s < numImportFuncs md))"
proof (intro conjI impI)
  have *: "(funcIdxToSymIdx (object_maps md) h = Some s) =
      (ly_func (resolveLayout md) (Some h) = Inr (int s) \<and> s < numImportFuncs md + length (md_functions md))"
    by (rule func_lookup [OF assms])
  then show "(funcIdxToSymIdx (object_maps md) h = Some s) =
      (ly_func (resolveLayout md) (Some h) = Inr (int s) \<and> s < numImportFuncs md + length (md_functions md))" .
  assume "funcIdxToSymIdx (object_maps md) h = Some s"
  with * have "s < numImportFuncs md + length (md_functions md)" by blast
  then show "s < length (object_symbols md)" "sy_kind (object_symbols md ! s) = SYMTAB_FUNCTION" "sy_index (object_symbols md ! s) = s"
    "(sy_flags (object_symbols md ! s) = SYMBOL_UNDEFINED) = (s < numImportFuncs md)"
    by (simp_all add: func_symbol)
qed

theorem object_function_symbols_witness:
  "(funcIdxToSymIdx (object_maps linked_module) STABLE_FUNC_BASE = Some 2) =
      (ly_func (resolveLayout linked_module) (Some STABLE_FUNC_BASE) = Inr (int 2) \<and>
       2 < numImportFuncs linked_module + length (md_functions linked_module)) \<and>
   sy_kind (object_symbols linked_module ! 2) = SYMTAB_FUNCTION \<and>
   (sy_flags (object_symbols linked_module ! 2) = SYMBOL_UNDEFINED) = (2 < numImportFuncs linked_module)"
proof -
  have small: "int (numImportFuncs linked_module + length (md_functions linked_module)) \<le> STABLE_FUNC_BASE"
    by (simp add: linked_module_def empty_module_def STABLE_FUNC_BASE_def numImportFuncs_def)
  have "ly_func (resolveLayout linked_module) (Some STABLE_FUNC_BASE) = Inr (int 2)" "2 < numImportFuncs linked_module + length (md_functions linked_module)"
    by (simp_all add: linked_module_def empty_module_def resolveLayout_def absoluteFuncIndexCached_def ordinal_slot_def nth_opt_def
        numImportFuncs_def STABLE_FUNC_BASE_def is_func_import_def)
  with object_function_symbols [OF linked_handles small, of STABLE_FUNC_BASE 2] show ?thesis by simp
qed

text \<open>C22: the linking section of an emitted object reads back: the linker's reader gets the symbols in order, with their
  kinds, flags, indices and names, except that undefined symbols come back without a name.\<close>

theorem linking_read_back:
  assumes "list_all (\<lambda>sy. name_ok (sy_name sy)) (object_symbols md)" "length (linking_bytes (object_symbols md)) < 2 ^ 32"
  shows "\<exists>e. put_linking (object_symbols md) new_encoder = Inr e \<and>
    parseCustomSection (length pre + length (enc_finish e)) obj \<lparr>rd_data = pre @ enc_finish e @ rest, rd_pos = length pre\<rparr> =
      Inr (obj\<lparr>ob_symbols := ob_symbols obj @ map blank_undefined (object_symbols md)\<rparr>,
        \<lparr>rd_data = pre @ enc_finish e @ rest, rd_pos = length pre + length (enc_finish e)\<rparr>)"
proof -
  note small = linking_bounds [OF assms(2)]
  have ok: "list_all symbol_ok (object_symbols md)" by (rule object_symbols_ok [OF assms(1) small(1)])
  obtain e where "put_linking (object_symbols md) new_encoder = Inr e" "enc_finish e = linking_bytes (object_symbols md)"
    using appendsD [OF put_linking_appends [OF ok small] new_encoder_ok(1)] by auto
  then show ?thesis using linking_section_read [OF ok small, of pre obj rest] by auto
qed

theorem linking_read_back_witness:
  "\<exists>e. put_linking (object_symbols linked_module) new_encoder = Inr e \<and>
    parseCustomSection (length [0 :: byte] + length (enc_finish e)) (empty_object []) \<lparr>rd_data = [0] @ enc_finish e @ [], rd_pos = length [0 :: byte]\<rparr> =
      Inr ((empty_object [])\<lparr>ob_symbols := ob_symbols (empty_object []) @ map blank_undefined (object_symbols linked_module)\<rparr>,
        \<lparr>rd_data = [0] @ enc_finish e @ [], rd_pos = length [0 :: byte] + length (enc_finish e)\<rparr>)"
proof (rule linking_read_back)
  have symbols: "object_symbols linked_module =
      [\<lparr>sy_kind = SYMTAB_FUNCTION, sy_name = str ''log'', sy_index = 0, sy_flags = SYMBOL_UNDEFINED\<rparr>,
       \<lparr>sy_kind = SYMTAB_FUNCTION, sy_name = str ''f'', sy_index = 1, sy_flags = SYMBOL_BINDING_LOCAL\<rparr>,
       \<lparr>sy_kind = SYMTAB_FUNCTION, sy_name = str ''g'', sy_index = 2, sy_flags = SYMBOL_BINDING_LOCAL\<rparr>]"
    by (simp add: object_symbols_def tag_space_def global_space_def func_space_def import_symbols_def defined_symbols_def new_space_def
        add_symbol_def name_or_def binding_def exports_index_def is_func_import_def is_global_import_def is_tag_import_def
        linked_module_def empty_module_def sample_function_def str_def)
  have names: "name_ok (str ''log'')" "name_ok (str ''f'')" "name_ok (str ''g'')"
    by (simp_all add: name_ok_def well_formed_def valid_units_def str_def utf8_encode_def scalar_def is_lead_def is_trail_def
        utf8_cp_def to_scalar_def)
  then show "list_all (\<lambda>sy. name_ok (sy_name sy)) (object_symbols linked_module)" by (simp add: symbols)
  show "length (linking_bytes (object_symbols linked_module)) < 2 ^ 32"
    by (simp add: symbols linking_bytes_def symbol_bytes_def blank_undefined_def flag_cases name_bytes_def uleb.simps str_def
        utf8_encode_def scalar_def is_lead_def is_trail_def utf8_cp_def to_scalar_def SYMBOL_UNDEFINED_def SYMBOL_BINDING_LOCAL_def
        flagged_def)
qed

end
