(* ===== verification/Canonical_Group.thy ===== *)
theory Canonical_Group
  imports Emit_Binary Wasm_Reader
begin

text \<open>
  \<^verbatim>\<open>src/src/emit/canonical-recgroup.ts\<close>: the fingerprint of the runtime types that separately compiled modules
  share. The module side renders each type as a token in which members of the group are named by their
  position and everything outside it is anonymous; the binary side parses the type section of any Wasm
  binary back into types. The verifier compares the hashes of the two. \<^verbatim>\<open>BinaryCursor\<close> has the fields of
  the linker's \<open>reader\<close> and shares its type. 64-bit FNV-1a is done on words; a bigint masked after each
  multiplication is one. The parser's recursion into subtypes is not bounded by a host stack here: a
  subtype inside a subtype is an error either way.
\<close>

section \<open>Tokens\<close>

definition RUNTIME_RECGROUP_TYPE_NAMES :: "js_string list" where
  "RUNTIME_RECGROUP_TYPE_NAMES =
     map str [''__vec_base'', ''__arr_externref'', ''__vec_externref'', ''__arr_f64'', ''__vec_f64'', ''__str_data'',
       ''AnyString'', ''NativeString'', ''ConsString'', ''HashedString'']"

definition RUNTIME_RECGROUP_ABI_VERSION :: nat where "RUNTIME_RECGROUP_ABI_VERSION = 3"

fun typeDefName :: "type_def \<Rightarrow> js_string option" where
  "typeDefName (FuncTypeDef name _ _) = name"
| "typeDefName (StructTypeDef name _ _ _) = Some name"
| "typeDefName (ArrayTypeDef name _ _) = Some name"
| "typeDefName (SubTypeDef name _ _ _) = Some name"
| "typeDefName (RecGroupDef _) = None"

type_synonym local_of = "int \<Rightarrow> nat option"

definition ref_token :: "bool \<Rightarrow> local_of \<Rightarrow> int \<Rightarrow> js_string" where
  "ref_token nullable localOf typeIdx =
     (let nul = (if nullable then str ''n'' else []) in
      case localOf typeIdx of Some l \<Rightarrow> nul @ str ''r'' @ to_radix 10 l | None \<Rightarrow> nul @ str ''x'')"

fun valTypeToken :: "local_of \<Rightarrow> val_type \<Rightarrow> js_string" where
  "valTypeToken localOf (VRef t) = ref_token False localOf t"
| "valTypeToken localOf (VRefNull t) = ref_token True localOf t"
| "valTypeToken localOf (VI32 boolean) = (if boolean then str ''i32b'' else str ''i32'')"
| "valTypeToken localOf (VI64 bigint) = (if bigint then str ''i64big'' else str ''i64'')"
| "valTypeToken localOf VF32 = str ''f32''"
| "valTypeToken localOf VF64 = str ''f64''"
| "valTypeToken localOf VV128 = str ''v128''"
| "valTypeToken localOf VI8 = str ''i8''"
| "valTypeToken localOf VI16 = str ''i16''"
| "valTypeToken localOf VFuncref = str ''funcref''"
| "valTypeToken localOf VExternref = str ''externref''"
| "valTypeToken localOf VRefExtern = str ''ref_extern''"
| "valTypeToken localOf VEqref = str ''eqref''"
| "valTypeToken localOf VAnyref = str ''anyref''"

definition fieldToken :: "local_of \<Rightarrow> field_def \<Rightarrow> js_string" where
  "fieldToken localOf f = (if fd_mutable f then str ''m'' else []) @ valTypeToken localOf (fd_type f)"

definition super_token :: "local_of \<Rightarrow> int \<Rightarrow> bool \<Rightarrow> js_string" where
  "super_token localOf superIdx final =
     (let mark = (if final then str ''!'' else []) in
      case localOf superIdx of
        Some l \<Rightarrow> str ''sub r'' @ to_radix 10 l @ mark @ str '' ''
      | None \<Rightarrow> str ''sub x'' @ mark @ str '' '')"

fun structuralToken :: "local_of \<Rightarrow> type_def \<Rightarrow> js_string" where
  "structuralToken localOf (FuncTypeDef _ params results) =
     str ''func('' @ join_with 44 (map (valTypeToken localOf) params) @ str '')->('' @
     join_with 44 (map (valTypeToken localOf) results) @ str '')''"
| "structuralToken localOf (StructTypeDef _ fs superTypeIdx final) =
     (case superTypeIdx of
        Some s \<Rightarrow> if 0 \<le> s then super_token localOf s final else if \<not> final then str ''open '' else []
      | None \<Rightarrow> []) @
     str ''struct{'' @ join_with 59 (map (fieldToken localOf) fs) @ str ''}''"
| "structuralToken localOf (ArrayTypeDef _ element mut) =
     str ''array<'' @ (if mut then str ''m'' else []) @ valTypeToken localOf element @ str ''>''"
| "structuralToken localOf (SubTypeDef _ superType final t) =
     (case superType of Some s \<Rightarrow> super_token localOf s final | None \<Rightarrow> if final then [] else str ''open '') @
     structuralToken localOf t"
| "structuralToken localOf (RecGroupDef _) = str ''undefined''"

section \<open>Hash and fingerprint\<close>

definition fnv_prime :: "64 word" where "fnv_prime = 0x100000001b3"

definition fnv_step :: "nat \<Rightarrow> 64 word \<Rightarrow> 64 word" where
  "fnv_step unit h = (h XOR word_of_nat unit) * fnv_prime"

definition padStart :: "nat \<Rightarrow> nat \<Rightarrow> js_string \<Rightarrow> js_string" where
  "padStart n c s = replicate (n - length s) c @ s"

definition fnv1a64 :: "js_string \<Rightarrow> js_string" where
  "fnv1a64 s = padStart 16 48 (to_radix 16 (unat (fold fnv_step s 0xcbf29ce484222325)))"

definition index_to_local :: "int list \<Rightarrow> local_of" where
  "index_to_local absIndices = fold (\<lambda>(i, a) m. m(a \<mapsto> i)) (enumerate 0 absIndices) Map.empty"

text \<open>The text that is hashed.\<close>

definition group_text :: "type_def list \<Rightarrow> int list \<Rightarrow> js_string" where
  "group_text grp absIndices =
     join_with 124 ([str ''v'' @ to_radix 10 RUNTIME_RECGROUP_ABI_VERSION, str ''n'' @ to_radix 10 (length grp)] @
       map (\<lambda>(i, t). to_radix 10 i @ str '':'' @ structuralToken (index_to_local absIndices) t) (enumerate 0 grp))"

definition canonicalHashOfTypeGroup :: "type_def list \<Rightarrow> int list \<Rightarrow> js_string" where
  "canonicalHashOfTypeGroup grp absIndices = fnv1a64 (group_text grp absIndices)"

record runtime_member =
  rm_name :: js_string
  rm_absIndex :: nat
  rm_def :: type_def

definition runtime_member_of :: "physical_type_entry \<Rightarrow> runtime_member option" where
  "runtime_member_of entry =
     (case typeDefName (pe_definition entry) of
        Some name \<Rightarrow>
          if name \<in> set RUNTIME_RECGROUP_TYPE_NAMES then
            Some \<lparr>rm_name = name, rm_absIndex = pe_typeIndex entry, rm_def = pe_definition entry\<rparr>
          else None
      | None \<Rightarrow> None)"

definition extractRuntimeGroup :: "'f wasm_module \<Rightarrow> wasm_error + runtime_member list" where
  "extractRuntimeGroup md =
     bindE (from_layout (indexPhysicalTypes (md_types md))) (\<lambda>table.
       Inr (List.map_filter runtime_member_of (tt_entries table)))"

record fingerprint =
  fp_abiVersion :: nat
  fp_hash :: js_string
  fp_members :: "js_string list"
  fp_count :: nat

definition fingerprintRuntimeGroup :: "'f wasm_module \<Rightarrow> wasm_error + fingerprint" where
  "fingerprintRuntimeGroup md =
     bindE (extractRuntimeGroup md) (\<lambda>members.
       Inr \<lparr>fp_abiVersion = RUNTIME_RECGROUP_ABI_VERSION,
            fp_hash = canonicalHashOfTypeGroup (map rm_def members) (map (\<lambda>m. int (rm_absIndex m)) members),
            fp_members = map rm_name members, fp_count = length members\<rparr>)"

section \<open>Reading a type section\<close>

definition parse_error :: "string \<Rightarrow> wasm_error + 'a" where
  "parse_error message = Inl (Thrown (str message))"

definition readByte :: "nat rd" where
  "readByte c =
     (case nth_opt (rd_data c) (rd_pos c) of
        None \<Rightarrow> parse_error ''truncated Wasm type section''
      | Some b \<Rightarrow> Inr (unat b, c\<lparr>rd_pos := rd_pos c + 1\<rparr>))"

primrec unsigned_loop :: "nat \<Rightarrow> nat \<Rightarrow> nat \<Rightarrow> nat rd" where
  "unsigned_loop 0 shift v c = parse_error ''invalid u32 LEB in Wasm type section''"
| "unsigned_loop (Suc i) shift v c =
     bindE (readByte c) (\<lambda>(b, c).
       let v = v + (b AND 0x7f) * 2 ^ shift in
       if b AND 0x80 = 0 then Inr (v, c) else unsigned_loop i (shift + 7) v c)"

definition readUnsignedLeb :: "nat rd" where
  "readUnsignedLeb = unsigned_loop 5 0 0"

primrec signed_loop :: "nat \<Rightarrow> nat \<Rightarrow> int \<Rightarrow> int rd" where
  "signed_loop 0 shift v c = parse_error ''invalid s33 LEB in Wasm type section''"
| "signed_loop (Suc i) shift v c =
     bindE (readByte c) (\<lambda>(b, c).
       let v = v + int ((b AND 0x7f) * 2 ^ shift); shift = shift + 7 in
       if b AND 0x80 = 0 then Inr (if b AND 0x40 \<noteq> 0 \<and> shift < 33 then v - 2 ^ shift else v, c)
       else signed_loop i shift v c)"

definition readSignedLeb33 :: "int rd" where
  "readSignedLeb33 = signed_loop 5 0 0"

text \<open>The heap types of one byte; \<open>None\<close> is a type index.\<close>

definition abstract_heap :: "bool \<Rightarrow> nat \<Rightarrow> val_type option" where
  "abstract_heap nullable b =
     (if b = 0x6e then Some VAnyref
      else if b = 0x6d then Some VEqref
      else if b = 0x6c \<or> b = 0x6b \<or> b = 0x6a \<or> b = 0x71 then Some VAnyref
      else if b = 0x72 then Some VExternref
      else if b = 0x73 \<or> b = 0x70 then Some VFuncref
      else if b = 0x6f then Some (if nullable then VExternref else VRefExtern)
      else None)"

definition parseBinaryRefType :: "bool \<Rightarrow> val_type rd" where
  "parseBinaryRefType nullable c =
     (case Option.bind (nth_opt (rd_data c) (rd_pos c)) (\<lambda>b. abstract_heap nullable (unat b)) of
        Some t \<Rightarrow> Inr (t, c\<lparr>rd_pos := rd_pos c + 1\<rparr>)
      | None \<Rightarrow> bindE (readSignedLeb33 c) (\<lambda>(typeIdx, c). Inr (if nullable then VRefNull typeIdx else VRef typeIdx, c)))"

definition parse_value :: "bool \<Rightarrow> nat \<Rightarrow> val_type rd" where
  "parse_value storage tag c =
     (if tag = 0x7f then Inr (VI32 False, c)
      else if tag = 0x7e then Inr (VI64 False, c)
      else if tag = 0x7d then Inr (VF32, c)
      else if tag = 0x7c then Inr (VF64, c)
      else if tag = 0x7b then Inr (VV128, c)
      else if tag = 0x70 then Inr (VFuncref, c)
      else if tag = 0x6f then Inr (VExternref, c)
      else if tag = 0x78 then if storage then Inr (VI8, c) else parse_error ''packed i8 in a value position''
      else if tag = 0x77 then if storage then Inr (VI16, c) else parse_error ''packed i16 in a value position''
      else if tag = 0x64 then parseBinaryRefType False c
      else if tag = 0x63 then parseBinaryRefType True c
      else if tag = 0x6e then Inr (VAnyref, c)
      else if tag = 0x6d then Inr (VEqref, c)
      else if tag = 0x6c \<or> tag = 0x71 then Inr (VAnyref, c)
      else if tag = 0x72 then Inr (VExternref, c)
      else if tag = 0x73 then Inr (VFuncref, c)
      else if tag = 0x6b \<or> tag = 0x6a then Inr (VAnyref, c)
      else Inl (Thrown (str ''unsupported Wasm value type byte 0x'' @ to_radix 16 tag)))"

definition parseBinaryValType :: "bool \<Rightarrow> val_type rd" where
  "parseBinaryValType storage c = bindE (readByte c) (\<lambda>(tag, c). parse_value storage tag c)"

text \<open>\<^verbatim>\<open>Array.from({ length: n }, item)\<close>.\<close>

definition array_from :: "nat \<Rightarrow> 'a rd \<Rightarrow> 'a list rd" where
  "array_from n item c = (if 2 ^ 32 \<le> n then parse_error ''Invalid array length'' else rd_times n item c)"

primrec read_fields :: "nat \<Rightarrow> nat \<Rightarrow> field_def list rd" where
  "read_fields 0 i c = Inr ([], c)"
| "read_fields (Suc n) i c =
     bindE (parseBinaryValType True c) (\<lambda>(t, c).
     bindE (readByte c) (\<lambda>(b, c).
     bindE (read_fields n (i + 1) c) (\<lambda>(fs, c).
       Inr (\<lparr>fd_name = str ''field'' @ to_radix 10 i, fd_type = t, fd_mutable = (b = 1)\<rparr> # fs, c))))"

definition offset_name :: "reader \<Rightarrow> js_string" where
  "offset_name c = str ''#'' @ to_radix 10 (rd_pos c)"

fun is_sub :: "type_def \<Rightarrow> bool" where
  "is_sub (SubTypeDef _ _ _ _) = True"
| "is_sub _ = False"

definition read_super :: "nat \<Rightarrow> int option rd" where
  "read_super superCount c =
     (if superCount = 1 then bindE (readUnsignedLeb c) (\<lambda>(s, c). Inr (Some (int s), c)) else Inr (None, c))"

definition read_value_types :: "val_type list rd" where
  "read_value_types c = bindE (readUnsignedLeb c) (\<lambda>(n, c). array_from n (parseBinaryValType False) c)"

definition parse_composite :: "nat \<Rightarrow> type_def rd" where
  "parse_composite tag c =
     (if tag = 0x60 then
        bindE (read_value_types c) (\<lambda>(params, c).
        bindE (read_value_types c) (\<lambda>(results, c). Inr (FuncTypeDef None params results, c)))
      else if tag = 0x5f then
        bindE (readUnsignedLeb c) (\<lambda>(fieldCount, c).
        bindE (read_fields fieldCount 0 c) (\<lambda>(fs, c). Inr (StructTypeDef (offset_name c) fs None False, c)))
      else if tag = 0x5e then
        bindE (parseBinaryValType True c) (\<lambda>(element, c).
        bindE (readByte c) (\<lambda>(b, c').  Inr (ArrayTypeDef (offset_name c) element (b = 1), c')))
      else Inl (Thrown (str ''unsupported Wasm type definition byte 0x'' @ to_radix 16 tag)))"

text \<open>Reading only moves forward, which ends the recursion into subtypes and the walk over the sections.\<close>

lemma readByte_moves: "readByte c = Inr (b, c') \<Longrightarrow> c' = c\<lparr>rd_pos := rd_pos c + 1\<rparr> \<and> rd_pos c < length (rd_data c)"
  by (auto simp: readByte_def parse_error_def nth_opt_def split: if_splits)

lemma unsigned_loop_moves:
  "unsigned_loop i shift v c = Inr (x, c') \<Longrightarrow> rd_data c' = rd_data c \<and> rd_pos c < rd_pos c'"
proof (induction i arbitrary: shift v c)
  case (Suc i)
  obtain b c1 where b: "readByte c = Inr (b, c1)" using Suc.prems by (auto simp: bindE_eq_Inr)
  note c1 = readByte_moves [OF b]
  show ?case
  proof (cases "b AND 0x80 = 0")
    case True
    then have "c' = c1" using Suc.prems b by (simp add: Let_def)
    then show ?thesis using c1 by simp
  next
    case False
    then have "unsigned_loop i (shift + 7) (v + (b AND 0x7f) * 2 ^ shift) c1 = Inr (x, c')"
      using Suc.prems b by (simp add: Let_def)
    from Suc.IH [OF this] c1 show ?thesis by auto
  qed
qed (simp add: parse_error_def)

lemma readUnsignedLeb_moves: "readUnsignedLeb c = Inr (x, c') \<Longrightarrow> rd_data c' = rd_data c \<and> rd_pos c < rd_pos c'"
  unfolding readUnsignedLeb_def by (rule unsigned_loop_moves)

lemma read_super_moves: "read_super n c = Inr (x, c') \<Longrightarrow> rd_data c' = rd_data c \<and> rd_pos c \<le> rd_pos c'"
  by (auto simp: read_super_def bindE_eq_Inr split: if_splits dest!: readUnsignedLeb_moves)

function parseBinaryTypeDef :: "type_def rd" where
  "parseBinaryTypeDef c =
     bindE (readByte c) (\<lambda>(tag, c).
       if tag = 0x50 \<or> tag = 0x4f then
         bindE (readUnsignedLeb c) (\<lambda>(superCount, c).
         if 1 < superCount then parse_error ''multiple supertypes are not supported by the ABI verifier''
         else
           bindE (read_super superCount c) (\<lambda>(superType, c).
           bindE (parseBinaryTypeDef c) (\<lambda>(inner, c).
           if is_sub inner then parse_error ''nested subtype is not supported by the ABI verifier''
           else Inr (SubTypeDef (offset_name c) superType (tag = 0x4f) inner, c))))
       else parse_composite tag c)"
  by pat_completeness auto
termination
  by (relation "measure (\<lambda>c. length (rd_data c) - rd_pos c)")
     (auto dest!: readByte_moves readUnsignedLeb_moves read_super_moves intro!: diff_less_mono2)

declare parseBinaryTypeDef.simps [simp del]

record binary_group =
  bg_start :: nat
  bg_end :: int
  bg_recursive :: bool
  bg_defs :: "type_def list"

function find_types :: "byte list \<Rightarrow> nat \<Rightarrow> byte list option \<Rightarrow> wasm_error + byte list option" where
  "find_types binary offset typeSection =
     (case nth_opt binary offset of
        None \<Rightarrow> Inr typeSection
      | Some sectionId \<Rightarrow>
          bindE (readUnsignedLeb \<lparr>rd_data = binary, rd_pos = offset + 1\<rparr>) (\<lambda>(sectionLength, c).
            let stop = rd_pos c + sectionLength in
            if length binary < stop then parse_error ''truncated Wasm section''
            else find_types binary stop (if sectionId = 1 then Some (rd_slice c (rd_pos c) stop) else typeSection)))"
  by pat_completeness auto
termination
  by (relation "measure (\<lambda>(binary, offset, _). length binary - offset)")
     (auto simp: nth_opt_def split: if_splits dest!: readUnsignedLeb_moves)

declare find_types.simps [simp del]

definition read_group :: "nat \<Rightarrow> binary_group rd" where
  "read_group absolute c =
     (if nth_opt (rd_data c) (rd_pos c) = Some 0x4e then
        bindE (readByte c) (\<lambda>(_, c).
        bindE (readUnsignedLeb c) (\<lambda>(n, c).
        bindE (array_from n parseBinaryTypeDef c) (\<lambda>(defs, c).
          Inr (\<lparr>bg_start = absolute, bg_end = int absolute + int n - 1, bg_recursive = True, bg_defs = defs\<rparr>, c))))
      else
        bindE (parseBinaryTypeDef c) (\<lambda>(t, c).
          Inr (\<lparr>bg_start = absolute, bg_end = int absolute, bg_recursive = False, bg_defs = [t]\<rparr>, c)))"

primrec read_groups :: "nat \<Rightarrow> nat \<Rightarrow> binary_group list rd" where
  "read_groups 0 absolute c = Inr ([], c)"
| "read_groups (Suc n) absolute c =
     bindE (read_group absolute c) (\<lambda>(g, c).
     bindE (read_groups n (nat (bg_end g + 1)) c) (\<lambda>(gs, c). Inr (g # gs, c)))"

definition parseBinaryTypeGroups :: "byte list \<Rightarrow> wasm_error + binary_group list" where
  "parseBinaryTypeGroups binary =
     (if length binary < 8 \<or> take 4 binary \<noteq> [0, 0x61, 0x73, 0x6d] then parse_error ''not a Wasm binary''
      else
        bindE (find_types binary 8 None) (\<lambda>typeSection.
        case typeSection of
          None \<Rightarrow> Inr []
        | Some bytes \<Rightarrow>
            bindE (readUnsignedLeb \<lparr>rd_data = bytes, rd_pos = 0\<rparr>) (\<lambda>(typeCount, c).
            bindE (read_groups typeCount 0 c) (\<lambda>(groups, c).
            if rd_pos c \<noteq> length bytes then parse_error ''trailing bytes in Wasm type section'' else Inr groups))))"

section \<open>The verifier\<close>

record group_verification =
  gv_abiVersion :: nat
  gv_valid :: bool
  gv_hash :: "js_string option"
  gv_start :: "nat option"
  gv_end :: "int option"
  gv_count :: "nat option"
  gv_detail :: "js_string option"

definition refused :: "nat \<Rightarrow> js_string \<Rightarrow> group_verification" where
  "refused abiVersion detail =
     \<lparr>gv_abiVersion = abiVersion, gv_valid = False, gv_hash = None, gv_start = None, gv_end = None, gv_count = None,
      gv_detail = Some detail\<rparr>"

definition group_hash :: "binary_group \<Rightarrow> js_string" where
  "group_hash g = canonicalHashOfTypeGroup (bg_defs g) (map (\<lambda>i. int (bg_start g + i)) [0 ..< length (bg_defs g)])"

fun thrown_message :: "wasm_error \<Rightarrow> js_string" where
  "thrown_message (Thrown s) = s"
| "thrown_message _ = []"

fun comma_separated :: "js_string list \<Rightarrow> js_string" where
  "comma_separated [] = []"
| "comma_separated [s] = s"
| "comma_separated (s # t # ss) = s @ str '', '' @ comma_separated (t # ss)"

definition verifyRuntimeRecGroupBinary :: "byte list \<Rightarrow> fingerprint \<Rightarrow> group_verification" where
  "verifyRuntimeRecGroupBinary binary expected =
     (let v = fp_abiVersion expected in
      if v \<noteq> RUNTIME_RECGROUP_ABI_VERSION then
        refused v (str ''unsupported runtime rec-group ABI version '' @ to_radix 10 v @ str '' (expected '' @
          to_radix 10 RUNTIME_RECGROUP_ABI_VERSION @ str '')'')
      else
        case parseBinaryTypeGroups binary of
          Inl e \<Rightarrow> refused v (str ''could not parse Wasm type section: '' @ thrown_message e)
        | Inr groups \<Rightarrow>
            let candidates = filter (\<lambda>g. bg_recursive g \<and> length (bg_defs g) = fp_count expected) groups in
            if candidates = [] then
              refused v (str ''missing recursive runtime group (expected '' @ to_radix 10 (fp_count expected) @ str '' members)'')
            else
              case List.find (\<lambda>g. group_hash g = fp_hash expected) candidates of
                None \<Rightarrow>
                  refused v (str ''runtime rec-group fingerprint changed (expected '' @ fp_hash expected @ str '', observed '' @
                    comma_separated (map group_hash candidates) @ str '')'')
              | Some g \<Rightarrow>
                  \<lparr>gv_abiVersion = v, gv_valid = True, gv_hash = Some (group_hash g), gv_start = Some (bg_start g),
                   gv_end = Some (bg_end g), gv_count = Some (length (bg_defs g)), gv_detail = None\<rparr>)"

end
