(* ===== verification/Canonical_Correct.thy ===== *)
theory Canonical_Correct
  imports Canonical_Group Object_Reading Emit_Sections
begin

text \<open>
  The type section that \<^verbatim>\<open>emitBinary\<close> writes, read by the fingerprint verifier. The verifier names parsed types by
  their position, so what it reads back is a type with the same token, not the same type: \<open>admits\<close> is
  \<open>reads\<close> with a property in place of a value. Writers are described by \<open>grows\<close>: whatever checks are armed,
  the bytes a successful writer adds are ones the parser accepts.
\<close>

section \<open>Parsers with position-dependent results\<close>

definition admits :: "'a rd \<Rightarrow> byte list \<Rightarrow> ('a \<Rightarrow> bool) \<Rightarrow> bool" where
  "admits get bs P \<longleftrightarrow>
     (\<forall>pre rest. \<exists>x. get \<lparr>rd_data = pre @ bs @ rest, rd_pos = length pre\<rparr> =
        Inr (x, \<lparr>rd_data = pre @ bs @ rest, rd_pos = length pre + length bs\<rparr>) \<and> P x)"

lemma admitsD:
  assumes "admits get bs P"
  obtains x where "get \<lparr>rd_data = pre @ bs @ rest, rd_pos = length pre\<rparr> =
      Inr (x, \<lparr>rd_data = pre @ bs @ rest, rd_pos = length pre + length bs\<rparr>)" "P x"
  using assms unfolding admits_def by blast

lemma admits_reads: "reads get bs x \<Longrightarrow> P x \<Longrightarrow> admits get bs P"
  by (auto simp: reads_def admits_def)

lemma admits_weaken: "admits get bs P \<Longrightarrow> (\<And>x. P x \<Longrightarrow> R x) \<Longrightarrow> admits get bs R"
  unfolding admits_def by blast

lemma admits_bind:
  assumes "admits f as P" "\<And>x. P x \<Longrightarrow> admits (g x) bs R"
  shows "admits (\<lambda>r. bindE (f r) (\<lambda>(x, r). g x r)) (as @ bs) R"
  unfolding admits_def
proof (intro allI)
  fix pre rest
  obtain x where x: "f \<lparr>rd_data = pre @ as @ (bs @ rest), rd_pos = length pre\<rparr> =
      Inr (x, \<lparr>rd_data = pre @ as @ (bs @ rest), rd_pos = length pre + length as\<rparr>)" "P x"
    by (rule admitsD [OF assms(1)])
  obtain y where "g x \<lparr>rd_data = (pre @ as) @ bs @ rest, rd_pos = length (pre @ as)\<rparr> =
      Inr (y, \<lparr>rd_data = (pre @ as) @ bs @ rest, rd_pos = length (pre @ as) + length bs\<rparr>)" "R y"
    by (rule admitsD [OF assms(2) [OF x(2)]])
  with x show "\<exists>y. bindE (f \<lparr>rd_data = pre @ (as @ bs) @ rest, rd_pos = length pre\<rparr>) (\<lambda>(x, r). g x r) =
      Inr (y, \<lparr>rd_data = pre @ (as @ bs) @ rest, rd_pos = length pre + length (as @ bs)\<rparr>) \<and> R y"
    by (simp add: add.assoc)
qed

lemma admits_then: "reads f as x \<Longrightarrow> admits (g x) bs R \<Longrightarrow> admits (\<lambda>r. bindE (f r) (\<lambda>(x, r). g x r)) (as @ bs) R"
  by (rule admits_bind [where P = "(=) x"]) (auto intro: admits_reads)

lemma admits_done: "(\<And>r. P (h r)) \<Longrightarrow> admits (\<lambda>r. Inr (h r, r)) [] P"
  by (simp add: admits_def)

lemma admits_times:
  "list_all2 (\<lambda>x b. admits item b (P x)) xs bss \<Longrightarrow> admits (rd_times (length bss) item) (concat bss) (list_all2 P xs)"
proof (induction rule: list_all2_induct)
  case Nil
  show ?case by (auto simp: admits_def)
next
  case (Cons x xs b bss)
  have "admits (\<lambda>r. bindE (item r) (\<lambda>(x, r). bindE (rd_times (length bss) item r) (\<lambda>(ys, r). Inr (x # ys, r))))
      (b @ (concat bss @ [])) (list_all2 P (x # xs))"
    by (rule admits_bind [OF Cons.hyps(1)], rule admits_bind [OF Cons.IH], rule admits_done) simp
  then show ?case by (simp add: rd_times.simps(2) [abs_def])
qed

section \<open>Writers whose bytes have a property\<close>

lemma grows_weaken: "grows w Q \<Longrightarrow> (\<And>bs. Q bs \<Longrightarrow> R bs) \<Longrightarrow> grows w R"
  unfolding grows_def by blast

lemma grows_then:
  assumes "grows f Q" "grows g R" "\<And>a b. Q a \<Longrightarrow> R b \<Longrightarrow> S (a @ b)"
  shows "grows (\<lambda>e. bindE (f e) g) S"
  unfolding grows_def
proof (intro allI impI)
  fix e e' assume "enc_ok e" "bindE (f e) g = Inr e'"
  then obtain e1 where "f e = Inr e1" and g: "g e1 = Inr e'" by (auto simp: bindE_eq_Inr)
  then obtain a where 1: "enc_ok e1" "written e1 = written e @ a" "Q a" using assms(1) \<open>enc_ok e\<close> unfolding grows_def by blast
  then obtain b where "enc_ok e'" "written e' = written e1 @ b" "R b" using assms(2) g unfolding grows_def by blast
  with 1 assms(3) show "enc_ok e' \<and> (\<exists>bs. written e' = written e @ bs \<and> S bs)" by auto
qed

lemma grows_end: "S [] \<Longrightarrow> grows (steps []) S"
  by (simp add: grows_def)

lemma grows_cons: "grows w Q \<Longrightarrow> grows (steps ws) R \<Longrightarrow> (\<And>a b. Q a \<Longrightarrow> R b \<Longrightarrow> S (a @ b)) \<Longrightarrow> grows (steps (w # ws)) S"
  unfolding steps_Cons by (rule grows_then)

lemma grows_append: "grows (steps xs) Q \<Longrightarrow> grows (steps ys) R \<Longrightarrow> (\<And>a b. Q a \<Longrightarrow> R b \<Longrightarrow> S (a @ b)) \<Longrightarrow> grows (steps (xs @ ys)) S"
  unfolding steps_append by (rule grows_then)

lemma grows_list:
  "(\<And>x. x \<in> set xs \<Longrightarrow> grows (f x) (Q x)) \<Longrightarrow> grows (steps (map f xs)) (\<lambda>bs. \<exists>bss. bs = concat bss \<and> list_all2 Q xs bss)"
proof (induction xs)
  case (Cons x xs)
  have rest: "grows (steps (map f xs)) (\<lambda>bs. \<exists>bss. bs = concat bss \<and> list_all2 Q xs bss)" using Cons by simp
  have one: "grows (f x) (Q x)" by (rule Cons.prems) simp
  show ?case unfolding list.map
  proof (rule grows_cons [OF one rest])
    fix a b assume "Q x a" "\<exists>bss. b = concat bss \<and> list_all2 Q xs bss"
    then obtain bss where "a @ b = concat (a # bss)" "list_all2 Q (x # xs) (a # bss)" by auto
    then show "\<exists>bss. a @ b = concat bss \<and> list_all2 Q (x # xs) bss" by blast
  qed
qed (simp add: grows_end)

lemma grows_number: "grows (put_int n) (\<lambda>bs. 0 \<le> n \<and> n < 2 ^ 32 \<and> bs = uleb (nat n))"
proof (cases "0 \<le> n \<and> n < 2 ^ 32")
  case True
  then have "nat n < 2 ^ 32" by (simp add: nat_less_iff)
  from grows_appends [OF appends_u32 [OF this]] True show ?thesis by (auto simp: grows_def)
qed (auto simp: grows_def u32_def split: if_splits)

lemma grows_put_vector:
  assumes "\<And>x. x \<in> set xs \<Longrightarrow> grows (f x) (Q x)"
  shows "grows (put_vector xs f)
    (\<lambda>bs. length xs < 2 ^ 32 \<and> (\<exists>bss. bs = uleb (length xs) @ concat bss \<and> list_all2 Q xs bss))"
  unfolding put_vector_def for_each_def
  using grows_then [OF grows_number [of "int (length xs)"] grows_list [of xs f Q]] assms by (fastforce simp: nat_less_iff)

lemma grows_check: "grows (when_valid c chk) ((=) [])"
  by (auto simp: grows_def when_valid_def split: option.splits)

lemma grows_tag: "grows (put_byte n) ((=) [word_of_int n])"
  by (rule grows_appends [OF appends_byte])

section \<open>Numbers\<close>

lemma reads_readByte: "reads readByte [w] (unat w)"
  by (simp add: reads_def readByte_def nth_opt_def)

lemma low_bits_nat: "b AND 0x7f = b mod 128" for b :: nat
  using take_bit_eq_mask [of 7 b] by (simp add: mask_eq_exp_minus_1 take_bit_eq_mod)

lemma byte_nat: "n < 256 \<Longrightarrow> unat (word_of_nat n :: byte) = n"
  by (simp add: unsigned_of_nat take_bit_nat_eq_self)

lemma small_bits: "n < 64 \<Longrightarrow> n AND 0x80 = 0 \<and> n AND 0x7f = n \<and> n AND 0x40 = 0" for n :: nat
  using more_bit [of n] sign_bit [of n] low_bits_nat [of n] by simp

lemma reads_unsigned_last: "n < 128 \<Longrightarrow> reads (unsigned_loop (Suc i) sh v) (uleb n) (v + n * 2 ^ sh)"
proof -
  assume n: "n < 128"
  then have b: "unat (word_of_nat n :: byte) = n" by (simp add: byte_nat)
  have "n AND 0x80 = 0" "n AND 0x7f = n" using n more_bit [of n] low_bits_nat [of n] by auto
  then have "reads (unsigned_loop (Suc i) sh v) ([word_of_nat n] @ []) (v + n * 2 ^ sh)"
    unfolding unsigned_loop.simps(2) [abs_def]
    by (intro reads_bind [OF reads_readByte]) (simp only: b Let_def, simp add: reads_Inr)
  with n show ?thesis by (simp add: uleb.simps del: unsigned_loop.simps)
qed

lemma reads_unsigned: "n < 2 ^ (7 * Suc i) \<Longrightarrow> reads (unsigned_loop (Suc i) sh v) (uleb n) (v + n * 2 ^ sh)"
proof (induction i arbitrary: n sh v)
  case (Suc i)
  show ?case
  proof (cases "n < 128")
    case False
    let ?b = "128 + n mod 128"
    have b: "unat (word_of_nat ?b :: byte) = ?b" by (rule byte_nat) simp
    have bits: "?b AND 0x80 \<noteq> 0" "?b AND 0x7f = n mod 128" using more_bit [of ?b] low_bits_nat [of ?b] by auto
    have "n < 2 ^ (7 + 7 * Suc i)" using Suc.prems by simp
    then have "n < 128 * 2 ^ (7 * Suc i)" by (simp only: power_add) simp
    then have "n div 128 < 2 ^ (7 * Suc i)" by (simp only: less_mult_imp_div_less mult.commute [of 128])
    from Suc.IH [OF this, of "sh + 7" "v + n mod 128 * 2 ^ sh"]
    have "reads (unsigned_loop (Suc (Suc i)) sh v) ([word_of_nat ?b] @ uleb (n div 128)) (v + n mod 128 * 2 ^ sh + n div 128 * 2 ^ (sh + 7))"
      unfolding unsigned_loop.simps(2) [of "Suc i", abs_def]
      by (intro reads_bind [OF reads_readByte]) (simp only: b bits Let_def if_False)
    moreover have "v + n mod 128 * 2 ^ sh + n div 128 * 2 ^ (sh + 7) = v + n * 2 ^ sh"
    proof -
      have "n * 2 ^ sh = (n div 128 * 128 + n mod 128) * 2 ^ sh" by simp
      also have "\<dots> = n mod 128 * 2 ^ sh + n div 128 * 2 ^ (sh + 7)" by (simp only: distrib_right power_add) simp
      finally show ?thesis by simp
    qed
    ultimately have "reads (unsigned_loop (Suc (Suc i)) sh v) ([word_of_nat ?b] @ uleb (n div 128)) (v + n * 2 ^ sh)"
      by (simp only:)
    with False show ?thesis by (simp add: uleb.simps [of n] del: unsigned_loop.simps)
  qed (rule reads_unsigned_last)
qed (intro reads_unsigned_last, simp)

lemma reads_readUnsigned: "n < 2 ^ 32 \<Longrightarrow> reads readUnsignedLeb (uleb n) n"
  using reads_unsigned [of n 4 0 0] by (simp add: readUnsignedLeb_def)

lemma reads_signed: "0 \<le> k \<Longrightarrow> k < 2 ^ (7 * Suc i - 1) \<Longrightarrow> reads (signed_loop (Suc i) sh v) (sleb k) (v + k * 2 ^ sh)"
proof (induction i arbitrary: k sh v)
  case 0
  then have k: "k < 64" by simp
  then have b: "unat (word_of_int (k mod 128) :: byte) = nat k" using 0 byte_of [of k] by simp
  have "nat k AND 0x80 = 0" "nat k AND 0x7f = nat k" "nat k AND 0x40 = 0" using k small_bits [of "nat k"] by simp_all
  then have "reads (signed_loop (Suc 0) sh v) ([word_of_int (k mod 128)] @ []) (v + k * 2 ^ sh)"
    unfolding signed_loop.simps(2) [abs_def] using 0
    by (intro reads_bind [OF reads_readByte]) (simp only: b Let_def if_True, simp add: reads_Inr)
  with 0 k show ?case by (simp add: sleb.simps del: signed_loop.simps)
next
  case (Suc i)
  show ?case
  proof (cases "k < 64")
    case True
    then have b: "unat (word_of_int (k mod 128) :: byte) = nat k" using Suc.prems byte_of [of k] by simp
    have "nat k AND 0x80 = 0" "nat k AND 0x7f = nat k" "nat k AND 0x40 = 0" using True small_bits [of "nat k"] by simp_all
    then have "reads (signed_loop (Suc (Suc i)) sh v) ([word_of_int (k mod 128)] @ []) (v + k * 2 ^ sh)"
      unfolding signed_loop.simps(2) [of "Suc i", abs_def] using Suc.prems
      by (intro reads_bind [OF reads_readByte]) (simp only: b Let_def if_True, simp add: reads_Inr del: signed_loop.simps)
    with Suc.prems True show ?thesis by (simp add: sleb.simps del: signed_loop.simps)
  next
    case False
    let ?b = "nat (128 + k mod 128)"
    have b: "unat (word_of_int (128 + k mod 128) :: byte) = ?b" by (rule byte_of) simp_all
    have "?b < 256" "128 \<le> ?b" by simp_all
    moreover have "?b mod 128 = nat (k mod 128)" by (simp add: nat_add_distrib)
    ultimately have bits: "?b AND 0x80 \<noteq> 0" "?b AND 0x7f = nat (k mod 128)" using more_bit [of ?b] low_bits_nat [of ?b] by simp_all
    have "k < 2 ^ (7 + (7 * Suc i - 1))" using Suc.prems(2) by simp
    then have "k < 128 * 2 ^ (7 * Suc i - 1)" by (simp only: power_add) simp
    then have small: "k div 128 < 2 ^ (7 * Suc i - 1)" by simp
    have "0 \<le> k div 128" using Suc.prems(1) by simp
    from Suc.IH [OF this small, of "sh + 7" "v + int (nat (k mod 128) * 2 ^ sh)"]
    have "reads (signed_loop (Suc (Suc i)) sh v) ([word_of_int (128 + k mod 128)] @ sleb (k div 128))
        (v + int (nat (k mod 128) * 2 ^ sh) + k div 128 * 2 ^ (sh + 7))"
      unfolding signed_loop.simps(2) [of "Suc i", abs_def]
      by (intro reads_bind [OF reads_readByte]) (simp only: b bits Let_def if_False)
    moreover have "v + int (nat (k mod 128) * 2 ^ sh) + k div 128 * 2 ^ (sh + 7) = v + k * 2 ^ sh"
    proof -
      have "k * 2 ^ sh = (k div 128 * 128 + k mod 128) * 2 ^ sh" by simp
      also have "\<dots> = k mod 128 * 2 ^ sh + k div 128 * 2 ^ (sh + 7)" by (simp only: distrib_right power_add) simp
      finally show ?thesis by simp
    qed
    ultimately have "reads (signed_loop (Suc (Suc i)) sh v) ([word_of_int (128 + k mod 128)] @ sleb (k div 128)) (v + k * 2 ^ sh)"
      by (simp only:)
    with False show ?thesis by (simp add: sleb.simps [of k] del: signed_loop.simps)
  qed
qed

lemma reads_readSigned: "0 \<le> k \<Longrightarrow> k < 2 ^ 31 \<Longrightarrow> reads readSignedLeb33 (sleb k) k"
  using reads_signed [of k 4 0 0] by (simp add: readSignedLeb33_def)

text \<open>The first byte of a type index is not that of an abstract heap type.\<close>

lemma index_not_abstract: "0 \<le> k \<Longrightarrow> \<exists>b rest. sleb k = b # rest \<and> abstract_heap nullable (unat b) = None"
proof (cases "k < 64")
  case True
  assume "0 \<le> k"
  with True have "unat (word_of_int (k mod 128) :: byte) < 64" using byte_of [of k] by simp
  with True \<open>0 \<le> k\<close> show ?thesis by (simp add: sleb.simps abstract_heap_def)
next
  case False
  have "128 \<le> unat (word_of_int (128 + k mod 128) :: byte)" using byte_of [of "128 + k mod 128"] by simp
  with False show ?thesis by (simp add: sleb.simps [of k] abstract_heap_def)
qed

section \<open>Value types\<close>

lemma peek: "nth_opt (pre @ (b # bs) @ rest) (length pre) = Some b"
  by (simp add: nth_opt_def)

lemma reads_abstract: "abstract_heap nullable (unat b) = Some t \<Longrightarrow> reads (parseBinaryRefType nullable) [b] t"
  by (simp add: reads_def parseBinaryRefType_def nth_opt_def)

lemma reads_index:
  assumes "0 \<le> k" "k < 2 ^ 31"
  shows "reads (parseBinaryRefType nullable) (sleb k) (if nullable then VRefNull k else VRef k)"
proof -
  obtain b bs where b: "sleb k = b # bs" "abstract_heap nullable (unat b) = None"
    using index_not_abstract [OF assms(1)] by blast
  have "reads (\<lambda>c. bindE (readSignedLeb33 c) (\<lambda>(typeIdx, c). Inr (if nullable then VRefNull typeIdx else VRef typeIdx, c)))
      (sleb k) (if nullable then VRefNull k else VRef k)"
    by (rule reads_bind_Nil [OF reads_readSigned [OF assms]]) (rule reads_Inr)
  then show ?thesis unfolding reads_def parseBinaryRefType_def b(1)
    by (simp only: reader.select_convs peek bind.simps b(2) option.case simp_thms)
qed

text \<open>Values whose references are 31-bit indices. They come back without their brands.\<close>

fun val_plain :: "val_type \<Rightarrow> bool" where
  "val_plain (VRef t) = (0 \<le> t \<and> t < 2 ^ 31)"
| "val_plain (VRefNull t) = (0 \<le> t \<and> t < 2 ^ 31)"
| "val_plain _ = True"

fun unbranded_val :: "val_type \<Rightarrow> val_type" where
  "unbranded_val (VI32 _) = VI32 False"
| "unbranded_val (VI64 _) = VI64 False"
| "unbranded_val t = t"

definition unbranded_field :: "field_def \<Rightarrow> field_def" where
  "unbranded_field f = f\<lparr>fd_type := unbranded_val (fd_type f)\<rparr>"

fun unbranded :: "type_def \<Rightarrow> type_def" where
  "unbranded (FuncTypeDef name params results) = FuncTypeDef name (map unbranded_val params) (map unbranded_val results)"
| "unbranded (StructTypeDef name fs superTypeIdx final) = StructTypeDef name (map unbranded_field fs) superTypeIdx final"
| "unbranded (ArrayTypeDef name element mut) = ArrayTypeDef name (unbranded_val element) mut"
| "unbranded (SubTypeDef name superType final t) = SubTypeDef name superType final (unbranded t)"
| "unbranded (RecGroupDef types) = RecGroupDef types"

lemma index_i32: "0 \<le> k \<Longrightarrow> k < 2 ^ 31 \<Longrightarrow> grows (i32 k) ((=) (sleb k))"
  using grows_i32 [of k] toInt32_id [of k] by simp

lemma reads_tagged:
  "reads (g (unat w)) bs y \<Longrightarrow> reads (\<lambda>c. bindE (readByte c) (\<lambda>(x, c). g x c)) (w # bs) y"
  using reads_bind [OF reads_readByte, of g w bs y] by simp

lemma grows_one: "reads get [word_of_int n] t \<Longrightarrow> grows (put_byte n) (\<lambda>bs. reads get bs t)"
  by (rule grows_weaken [OF grows_tag]) simp

lemma grows_two: "reads get [word_of_int n, word_of_int m] t \<Longrightarrow> grows (steps [put_byte n, put_byte m]) (\<lambda>bs. reads get bs t)"
proof -
  assume bytes: "reads get [word_of_int n, word_of_int m] t"
  have "grows (steps [put_byte m]) ((=) [word_of_int m])" by (rule grows_cons [OF grows_tag grows_end [of "(=) []"]]) auto
  then show ?thesis by (rule grows_cons [OF grows_tag]) (use bytes in auto)
qed

lemma grows_ref:
  assumes "0 \<le> k" "k < 2 ^ 31" "reads get (word_of_int n # sleb k) t"
  shows "grows (steps [when_valid c chk, put_byte n, i32 k]) (\<lambda>bs. reads get bs t)"
proof -
  have "grows (steps [i32 k]) ((=) (sleb k))" by (rule grows_cons [OF index_i32 [OF assms(1,2)] grows_end [of "(=) []"]]) auto
  then have "grows (steps [put_byte n, i32 k]) ((=) (word_of_int n # sleb k))" by (rule grows_cons [OF grows_tag]) auto
  then show ?thesis by (rule grows_cons [OF grows_check]) (use assms(3) in auto)
qed

lemma reads_value_byte:
  "reads (\<lambda>c. parse_value storage (unat w) c) bs t \<Longrightarrow> reads (parseBinaryValType storage) (w # bs) t"
  unfolding parseBinaryValType_def [abs_def] by (rule reads_tagged)

lemma grows_value:
  assumes "val_plain t"
  shows "grows (encodeValType c t) (\<lambda>bs. reads (parseBinaryValType storage) bs (unbranded_val t))"
proof (cases t)
  case (VRef k)
  have "reads (parseBinaryRefType False) (sleb k) (unbranded_val t)" using assms reads_index [of k False] VRef by simp
  then show ?thesis using assms unfolding VRef encodeValType.simps unbranded_val.simps
    by (intro grows_ref reads_value_byte) (simp_all add: parse_value_def)
next
  case (VRefNull k)
  have "reads (parseBinaryRefType True) (sleb k) (unbranded_val t)" using assms reads_index [of k True] VRefNull by simp
  then show ?thesis using assms unfolding VRefNull encodeValType.simps unbranded_val.simps
    by (intro grows_ref reads_value_byte) (simp_all add: parse_value_def)
qed (use assms in \<open>simp_all only: encodeValType.simps unbranded_val.simps\<close>,
     (intro grows_one grows_two grows_fail reads_value_byte; simp add: parse_value_def reads_Inr reads_abstract abstract_heap_def)+)

lemma grows_storage:
  assumes "val_plain t"
  shows "grows (encodeStorageType c t) (\<lambda>bs. reads (parseBinaryValType True) bs (unbranded_val t))"
proof -
  have "grows (put_byte 0x78) (\<lambda>bs. reads (parseBinaryValType True) bs VI8)" "grows (put_byte 0x77) (\<lambda>bs. reads (parseBinaryValType True) bs VI16)"
    by (intro grows_one reads_value_byte; simp add: parse_value_def reads_Inr)+
  then show ?thesis using grows_value [OF assms] by (simp add: encodeStorageType_def)
qed

section \<open>Type definitions\<close>

lemma grows_values:
  assumes "list_all val_plain ts"
  shows "grows (put_vector ts (encodeValType c)) (\<lambda>bs. reads read_value_types bs (map unbranded_val ts))"
proof (rule grows_weaken [OF grows_put_vector])
  show "grows (encodeValType c t) (\<lambda>bs. reads (parseBinaryValType False) bs (unbranded_val t))" if "t \<in> set ts" for t
    using assms that by (intro grows_value) (simp add: list_all_iff)
  fix bs assume "length ts < 2 ^ 32 \<and> (\<exists>bss. bs = uleb (length ts) @ concat bss \<and> list_all2 (\<lambda>t bs. reads (parseBinaryValType False) bs (unbranded_val t)) ts bss)"
  then obtain bss where len: "length ts < 2 ^ 32" and bs: "bs = uleb (length ts) @ concat bss"
    and "list_all2 (\<lambda>t bs. reads (parseBinaryValType False) bs (unbranded_val t)) ts bss" by blast
  then have "list_all2 (reads (parseBinaryValType False)) bss (map unbranded_val ts)" by (simp add: list_all2_conv_all_nth)
  from reads_times [OF this] len have "reads (array_from (length ts) (parseBinaryValType False)) (concat bss) (map unbranded_val ts)"
    by (simp add: array_from_def [abs_def])
  then show "reads read_value_types bs (map unbranded_val ts)" unfolding bs read_value_types_def [abs_def]
    by (rule reads_bind [OF reads_readUnsigned [OF len], where g = "\<lambda>n. array_from n (parseBinaryValType False)"])
qed

text \<open>Fields come back under new names.\<close>

fun renamed :: "nat \<Rightarrow> field_def list \<Rightarrow> field_def list" where
  "renamed i [] = []"
| "renamed i (f # fs) = (unbranded_field f)\<lparr>fd_name := str ''field'' @ to_radix 10 i\<rparr> # renamed (i + 1) fs"

lemma renamed_tokens: "map (fieldToken lo) (renamed i fs) = map (\<lambda>f. fieldToken lo (unbranded_field f)) fs"
  by (induction fs arbitrary: i) (simp_all add: fieldToken_def)

definition field_bytes_ok :: "field_def \<Rightarrow> byte list \<Rightarrow> bool" where
  "field_bytes_ok f bs \<longleftrightarrow>
     (\<exists>a. bs = a @ [if fd_mutable f then 1 else 0] \<and> reads (parseBinaryValType True) a (unbranded_val (fd_type f)))"

lemma grows_field: "val_plain (fd_type f) \<Longrightarrow> grows (encodeFieldDef c f) (field_bytes_ok f)"
  unfolding encodeFieldDef_def
  by (rule grows_cons [OF grows_storage grows_cons [OF grows_tag grows_end [of "(=) []"], where S = "(=) [if fd_mutable f then 1 else 0]"]])
     (auto simp: field_bytes_ok_def)

lemma reads_fields: "list_all2 field_bytes_ok fs bss \<Longrightarrow> reads (read_fields (length fs) i) (concat bss) (renamed i fs)"
proof (induction arbitrary: i rule: list_all2_induct)
  case Nil
  show ?case by (simp add: reads_def)
next
  case (Cons f fs b bss)
  obtain a where a: "b = a @ [if fd_mutable f then 1 else 0]" "reads (parseBinaryValType True) a (unbranded_val (fd_type f))"
    using Cons.hyps(1) unfolding field_bytes_ok_def by blast
  have "reads (read_fields (length (f # fs)) i) (a @ ((if fd_mutable f then 1 else 0) # (concat bss @ []))) (renamed i (f # fs))"
    unfolding list.size add_Suc_right add_0_right read_fields.simps(2) [abs_def]
    by (rule reads_bind [OF a(2)], rule reads_tagged, rule reads_bind [OF Cons.IH], rule reads_done) (cases f; simp add: unbranded_field_def)
  then show ?case by (simp add: a(1) del: read_fields.simps)
qed

fun writes_sub :: "type_def \<Rightarrow> bool" where
  "writes_sub (StructTypeDef _ _ superTypeIdx _) = (superTypeIdx \<noteq> None)"
| "writes_sub (SubTypeDef _ superType final t) = (superType \<noteq> None \<or> \<not> final \<or> writes_sub t)"
| "writes_sub _ = False"

fun def_plain :: "type_def \<Rightarrow> bool" where
  "def_plain (FuncTypeDef _ params results) = (list_all val_plain params \<and> list_all val_plain results)"
| "def_plain (StructTypeDef _ fs _ _) = list_all (\<lambda>f. val_plain (fd_type f)) fs"
| "def_plain (ArrayTypeDef _ element _) = val_plain element"
| "def_plain (SubTypeDef _ _ _ t) = (def_plain t \<and> \<not> writes_sub t)"
| "def_plain (RecGroupDef _) = False"

definition reread :: "type_def \<Rightarrow> type_def \<Rightarrow> bool" where
  "reread t t' \<longleftrightarrow> is_sub t' = writes_sub t \<and> (\<forall>lo. structuralToken lo t' = structuralToken lo (unbranded t))"

definition def_bytes_ok :: "type_def \<Rightarrow> byte list \<Rightarrow> bool" where
  "def_bytes_ok t bs \<longleftrightarrow> (\<exists>b rest. bs = b # rest \<and> b \<noteq> 0x4e) \<and> admits parseBinaryTypeDef bs (reread t)"

lemma admits_tagged:
  "admits (g (unat w)) bs P \<Longrightarrow> admits (\<lambda>c. bindE (readByte c) (\<lambda>(x, c). g x c)) (w # bs) P"
  using admits_then [OF reads_readByte, of g w bs P] by simp

definition parse_tail :: "nat \<Rightarrow> type_def rd" where
  "parse_tail tag c =
     (if tag = 0x50 \<or> tag = 0x4f then
        bindE (readUnsignedLeb c) (\<lambda>(superCount, c).
        if 1 < superCount then parse_error ''multiple supertypes are not supported by the ABI verifier''
        else
          bindE (read_super superCount c) (\<lambda>(superType, c).
          bindE (parseBinaryTypeDef c) (\<lambda>(inner, c).
          if is_sub inner then parse_error ''nested subtype is not supported by the ABI verifier''
          else Inr (SubTypeDef (offset_name c) superType (tag = 0x4f) inner, c))))
      else parse_composite tag c)"

lemma parse_def_tail: "parseBinaryTypeDef = (\<lambda>c. bindE (readByte c) (\<lambda>(tag, c). parse_tail tag c))"
  unfolding parse_tail_def by (rule ext, rule parseBinaryTypeDef.simps)

lemma admits_def_byte: "admits (parse_tail (unat w)) bs P \<Longrightarrow> admits parseBinaryTypeDef (w # bs) P"
  by (subst parse_def_tail) (rule admits_tagged)

lemma admits_composite: "w \<in> {0x60, 0x5f, 0x5e} \<Longrightarrow> admits (parse_composite (unat w)) bs P \<Longrightarrow> admits parseBinaryTypeDef (w # bs) P"
  by (rule admits_def_byte) (auto simp: parse_tail_def [abs_def])

lemma admits_sub:
  assumes "admits parseBinaryTypeDef bs P" "\<And>t. P t \<Longrightarrow> \<not> is_sub t"
    and "case parent of Some s \<Rightarrow> s < 2 ^ 32 | None \<Rightarrow> True"
  shows "admits parseBinaryTypeDef
    ((if final then 0x4f else 0x50) # (case parent of Some s \<Rightarrow> uleb 1 @ uleb s | None \<Rightarrow> uleb 0) @ bs)
    (\<lambda>t. \<exists>name inner. t = SubTypeDef name (map_option int parent) final inner \<and> P inner)"
proof -
  let ?Q = "\<lambda>t. \<exists>name inner. t = SubTypeDef name (map_option int parent) final inner \<and> P inner"
  let ?w = "(if final then 0x4f else 0x50) :: byte" and ?n = "(case parent of Some _ \<Rightarrow> 1 | None \<Rightarrow> 0) :: nat"
  have super: "reads (read_super ?n) (case parent of Some s \<Rightarrow> uleb s | None \<Rightarrow> []) (map_option int parent)"
  proof (cases parent)
    case None
    then show ?thesis by (simp add: read_super_def [abs_def] reads_Inr)
  next
    case (Some s)
    have "reads (\<lambda>c. bindE (readUnsignedLeb c) (\<lambda>(s, c). Inr (Some (int s), c))) (uleb s) (Some (int s))"
      by (rule reads_bind_Nil [OF reads_readUnsigned]) (use assms(3) Some in \<open>simp_all add: reads_Inr\<close>)
    with Some show ?thesis by (simp add: read_super_def [abs_def])
  qed
  have inner: "admits (\<lambda>c. bindE (parseBinaryTypeDef c) (\<lambda>(inner, c).
      if is_sub inner then parse_error ''nested subtype is not supported by the ABI verifier''
      else Inr (SubTypeDef (offset_name c) (map_option int parent) (unat ?w = 0x4f) inner, c))) (bs @ []) ?Q"
  proof (rule admits_bind [OF assms(1)])
    fix t assume "P t"
    moreover have "\<not> is_sub t" by (rule assms(2)) fact
    ultimately show "admits (\<lambda>c. if is_sub t then parse_error ''nested subtype is not supported by the ABI verifier''
        else Inr (SubTypeDef (offset_name c) (map_option int parent) (unat ?w = 0x4f) t, c)) [] ?Q"
      by (simp add: admits_def)
  qed
  have n: "?n < 2 ^ 32" "(1 < ?n) = False" by (simp_all split: option.split)
  have "admits parseBinaryTypeDef (?w # uleb ?n @ (case parent of Some s \<Rightarrow> uleb s | None \<Rightarrow> []) @ bs @ []) ?Q"
  proof (rule admits_def_byte)
    have "unat ?w = 0x50 \<or> unat ?w = 0x4f" by simp
    then show "admits (parse_tail (unat ?w)) (uleb ?n @ (case parent of Some s \<Rightarrow> uleb s | None \<Rightarrow> []) @ bs @ []) ?Q"
      unfolding parse_tail_def [abs_def]
      by (simp only: if_True) (rule admits_then [OF reads_readUnsigned [OF n(1)]], simp only: n(2) if_False,
        rule admits_then [OF super], rule inner)
  qed
  then show ?thesis by (cases parent) simp_all
qed

lemma grows_func:
  assumes "list_all val_plain params" "list_all val_plain results"
  shows "grows (encodeTypeDef c (FuncTypeDef name params results)) (def_bytes_ok (FuncTypeDef name params results))"
proof -
  have two: "grows (steps [put_vector params (encodeValType c), put_vector results (encodeValType c)])
      (\<lambda>bs. \<exists>a b. bs = a @ b \<and> reads read_value_types a (map unbranded_val params) \<and> reads read_value_types b (map unbranded_val results))"
    by (rule grows_cons [OF grows_values [OF assms(1)] grows_cons [OF grows_values [OF assms(2)] grows_end [of "(=) []"],
        where S = "\<lambda>bs. reads read_value_types bs (map unbranded_val results)"]]) auto
  show ?thesis unfolding encodeTypeDef.simps
  proof (rule grows_cons [OF grows_tag two], elim exE conjE)
    fix a bs a' b :: "byte list" assume a: "[word_of_int 0x60] = a" and bs: "bs = a' @ b" "reads read_value_types a' (map unbranded_val params)" "reads read_value_types b (map unbranded_val results)"
    have "reads (parse_composite 0x60) (a' @ (b @ [])) (FuncTypeDef None (map unbranded_val params) (map unbranded_val results))"
      unfolding parse_composite_def [abs_def] by (simp only: if_True simp_thms) (intro reads_bind [OF bs(2)] reads_bind [OF bs(3)] reads_Inr)
    then have "admits parseBinaryTypeDef (0x60 # a' @ b) (reread (FuncTypeDef name params results))"
      by (intro admits_composite admits_reads [where x = "FuncTypeDef None (map unbranded_val params) (map unbranded_val results)"]) (simp_all add: reread_def)
    then show "def_bytes_ok (FuncTypeDef name params results) (a @ bs)" using a bs(1) by (auto simp: def_bytes_ok_def)
  qed
qed

lemma grows_struct:
  assumes "list_all (\<lambda>f. val_plain (fd_type f)) fs"
  shows "grows (steps [put_byte 0x5f, put_vector fs (encodeFieldDef c)])
    (\<lambda>bs. \<exists>rest. bs = 0x5f # rest \<and> admits parseBinaryTypeDef bs (\<lambda>t. \<exists>name. t = StructTypeDef name (renamed 0 fs) None False))"
proof -
  have fields: "grows (put_vector fs (encodeFieldDef c))
      (\<lambda>bs. length fs < 2 ^ 32 \<and> (\<exists>bss. bs = uleb (length fs) @ concat bss \<and> list_all2 field_bytes_ok fs bss))"
    using assms by (intro grows_put_vector grows_field) (simp add: list_all_iff)
  have rest: "grows (steps [put_vector fs (encodeFieldDef c)])
      (\<lambda>bs. length fs < 2 ^ 32 \<and> (\<exists>bss. bs = uleb (length fs) @ concat bss \<and> list_all2 field_bytes_ok fs bss))"
    by (rule grows_cons [OF fields grows_end [of "(=) []"]]) auto
  show ?thesis
  proof (rule grows_cons [OF grows_tag rest], elim conjE exE)
    fix a bs :: "byte list" and bss assume a: "[word_of_int 0x5f] = a" and len: "length fs < 2 ^ 32"
      and bs: "bs = uleb (length fs) @ concat bss" and ok: "list_all2 field_bytes_ok fs bss"
    have "admits (parse_composite 0x5f) (uleb (length fs) @ (concat bss @ [])) (\<lambda>t. \<exists>name. t = StructTypeDef name (renamed 0 fs) None False)"
      unfolding parse_composite_def [abs_def]
      by (simp only: if_True if_False simp_thms num.simps numeral_eq_iff)
         (rule admits_then [OF reads_readUnsigned [OF len]], rule admits_then [OF reads_fields [OF ok]], rule admits_done, simp)
    then have "admits parseBinaryTypeDef (0x5f # bs) (\<lambda>t. \<exists>name. t = StructTypeDef name (renamed 0 fs) None False)"
      unfolding bs by (intro admits_composite) simp_all
    then show "\<exists>rest. a @ bs = 0x5f # rest \<and> admits parseBinaryTypeDef (a @ bs) (\<lambda>t. \<exists>name. t = StructTypeDef name (renamed 0 fs) None False)"
      using a by auto
  qed
qed

lemma grows_array:
  assumes "val_plain element"
  shows "grows (encodeTypeDef c (ArrayTypeDef name element mut)) (def_bytes_ok (ArrayTypeDef name element mut))"
proof -
  have mut: "grows (steps [put_byte (if mut then 0x01 else 0x00)]) ((=) [if mut then 1 else 0])"
    by (rule grows_cons [OF grows_tag grows_end [of "(=) []"]]) auto
  have two: "grows (steps [encodeStorageType c element, put_byte (if mut then 0x01 else 0x00)])
      (\<lambda>bs. \<exists>a. bs = a @ [if mut then 1 else 0] \<and> reads (parseBinaryValType True) a (unbranded_val element))"
    by (rule grows_cons [OF grows_storage [OF assms] mut]) auto
  show ?thesis unfolding encodeTypeDef.simps
  proof (rule grows_cons [OF grows_tag two], elim exE conjE)
    fix a bs b :: "byte list" assume a: "[word_of_int 0x5e] = a" and bs: "bs = b @ [if mut then 1 else 0]" "reads (parseBinaryValType True) b (unbranded_val element)"
    have "admits (\<lambda>c. bindE (readByte c) (\<lambda>(b, c'). Inr (ArrayTypeDef (offset_name c) (unbranded_val element) (b = 1), c'))) [if mut then 1 else 0]
        (reread (ArrayTypeDef name element mut))"
      by (auto simp: admits_def readByte_def nth_opt_def reread_def)
    then have "admits (parse_composite 0x5e) bs (reread (ArrayTypeDef name element mut))"
      unfolding parse_composite_def [abs_def] bs(1)
      by (simp only: if_True if_False simp_thms num.simps numeral_eq_iff) (rule admits_then [OF bs(2)])
    then have "admits parseBinaryTypeDef (0x5e # bs) (reread (ArrayTypeDef name element mut))"
      by (intro admits_composite) simp_all
    then show "def_bytes_ok (ArrayTypeDef name element mut) (a @ bs)" using a by (auto simp: def_bytes_ok_def)
  qed
qed

lemma def_bytes_sub:
  assumes "admits parseBinaryTypeDef bs P" "case parent of Some s \<Rightarrow> s < 2 ^ 32 | None \<Rightarrow> True" "writes_sub t"
    and "\<And>t'. P t' \<Longrightarrow> \<not> is_sub t' \<and> (\<forall>lo. structuralToken lo (SubTypeDef [] (map_option int parent) final t') = structuralToken lo (unbranded t))"
  shows "def_bytes_ok t ((if final then 0x4f else 0x50) # (case parent of Some s \<Rightarrow> uleb 1 @ uleb s | None \<Rightarrow> uleb 0) @ bs)"
proof -
  have "reread t t'" if "\<exists>name inner. t' = SubTypeDef name (map_option int parent) final inner \<and> P inner" for t'
    using that assms(3,4) by (auto simp: reread_def)
  with admits_weaken [OF admits_sub [OF assms(1) _ assms(2)]] assms(4) show ?thesis by (fastforce simp: def_bytes_ok_def)
qed

lemma grows_parent:
  "grows (steps [put_int 1, put_int s]) (\<lambda>bs. 0 \<le> s \<and> s < 2 ^ 32 \<and> bs = uleb 1 @ uleb (nat s))"
proof -
  have "grows (steps [put_int s]) (\<lambda>bs. 0 \<le> s \<and> s < 2 ^ 32 \<and> bs = uleb (nat s))"
    by (rule grows_cons [OF grows_number grows_end [of "(=) []"]]) auto
  then show ?thesis by (rule grows_cons [OF grows_number]) auto
qed

lemma grows_root: "grows (steps [put_int 0]) ((=) (uleb 0))"
  by (rule grows_cons [OF grows_number grows_end [of "(=) []"]]) auto

lemma grows_struct_def:
  assumes "list_all (\<lambda>f. val_plain (fd_type f)) fs"
  shows "grows (encodeTypeDef c (StructTypeDef name fs superTypeIdx final)) (def_bytes_ok (StructTypeDef name fs superTypeIdx final))"
proof -
  let ?P = "\<lambda>t. \<exists>name. t = StructTypeDef name (renamed 0 fs) None False" and ?t = "StructTypeDef name fs superTypeIdx final"
  note body = grows_struct [OF assms, of c]
  show ?thesis
  proof (cases superTypeIdx)
    case None
    have "reread ?t t'" if "?P t'" for t' using that None by (auto simp: reread_def renamed_tokens comp_def)
    then show ?thesis unfolding None encodeTypeDef.simps option.case
      by (intro grows_weaken [OF body]) (auto simp: def_bytes_ok_def None intro: admits_weaken)
  next
    case (Some s)
    have head: "grows (steps [put_byte (if final then 0x4f else 0x50)]) ((=) [if final then 0x4f else 0x50])"
      by (rule grows_cons [OF grows_tag grows_end [of "(=) []"]]) auto
    show ?thesis
    proof (cases "0 \<le> s")
      case True
      have "grows (steps [when_valid c (vSuper s), put_int 1, put_int s]) (\<lambda>bs. s < 2 ^ 32 \<and> bs = uleb 1 @ uleb (nat s))"
        by (rule grows_cons [OF grows_check grows_parent]) auto
      from grows_append [OF this body, where S = "\<lambda>bs. s < 2 ^ 32 \<and> (\<exists>rest. bs = (uleb 1 @ uleb (nat s)) @ rest \<and> admits parseBinaryTypeDef rest ?P)"]
      have "grows (steps ([when_valid c (vSuper s), put_int 1, put_int s] @ [put_byte 0x5f, put_vector fs (encodeFieldDef c)]))
          (\<lambda>bs. s < 2 ^ 32 \<and> (\<exists>rest. bs = (uleb 1 @ uleb (nat s)) @ rest \<and> admits parseBinaryTypeDef rest ?P))" by auto
      then have "grows (encodeTypeDef c ?t) (\<lambda>bs. s < 2 ^ 32 \<and> (\<exists>rest. bs = (if final then 0x4f else 0x50) # (uleb 1 @ uleb (nat s)) @ rest \<and>
          admits parseBinaryTypeDef rest ?P))"
        unfolding encodeTypeDef.simps Some option.case if_P [OF True] by (rule grows_append [OF head]) auto
      then show ?thesis
      proof (rule grows_weaken, elim conjE exE)
        fix bs rest assume s: "s < 2 ^ 32" and bs: "bs = (if final then 0x4f else 0x50) # (uleb 1 @ uleb (nat s)) @ rest"
          and rest: "admits parseBinaryTypeDef rest ?P"
        have "def_bytes_ok ?t ((if final then 0x4f else 0x50) # (case Some (nat s) of Some s \<Rightarrow> uleb 1 @ uleb s | None \<Rightarrow> uleb 0) @ rest)"
          by (rule def_bytes_sub [OF rest]) (use s True Some in \<open>auto simp: renamed_tokens comp_def nat_less_iff\<close>)
        then show "def_bytes_ok ?t bs" by (simp add: bs)
      qed
    next
      case False
      have "grows (steps ([put_int 0] @ [put_byte 0x5f, put_vector fs (encodeFieldDef c)]))
          (\<lambda>bs. \<exists>rest. bs = uleb 0 @ rest \<and> admits parseBinaryTypeDef rest ?P)"
        by (rule grows_append [OF grows_root body]) auto
      then have "grows (encodeTypeDef c ?t) (\<lambda>bs. \<exists>rest. bs = (if final then 0x4f else 0x50) # uleb 0 @ rest \<and> admits parseBinaryTypeDef rest ?P)"
        unfolding encodeTypeDef.simps Some option.case if_not_P [OF False] by (rule grows_append [OF head]) auto
      then show ?thesis
      proof (rule grows_weaken, elim conjE exE)
        fix bs rest assume bs: "bs = (if final then 0x4f else 0x50) # uleb 0 @ rest" and rest: "admits parseBinaryTypeDef rest ?P"
        have "def_bytes_ok ?t ((if final then 0x4f else 0x50) # (case None of Some s \<Rightarrow> uleb 1 @ uleb s | None \<Rightarrow> uleb 0) @ rest)"
          by (rule def_bytes_sub [OF rest]) (use False Some in \<open>auto simp: renamed_tokens comp_def\<close>)
        then show "def_bytes_ok ?t bs" by (simp add: bs)
      qed
    qed
  qed
qed

lemma grows_type_def:
  "def_plain t \<Longrightarrow> grows (encodeTypeDef c t) (def_bytes_ok t)"
proof (induction t)
  case (SubTypeDef name superType final t)
  then have body: "grows (encodeTypeDef c t) (def_bytes_ok t)" and inner: "\<not> writes_sub t" by simp_all
  let ?t = "SubTypeDef name superType final t"
  have tokens: "\<not> is_sub t' \<and> (\<forall>lo. structuralToken lo t' = structuralToken lo (unbranded t))" if "reread t t'" for t'
    using that inner by (simp add: reread_def)
  have tail: "grows (steps [encodeTypeDef c t]) (def_bytes_ok t)"
    by (rule grows_cons [OF body grows_end [of "(=) []"]]) auto
  show ?case
  proof (cases superType)
    case (Some s)
    have head: "grows (steps [when_valid c (vSuper s), put_byte (if final then 0x4f else 0x50), put_int 1, put_int s])
        (\<lambda>bs. 0 \<le> s \<and> s < 2 ^ 32 \<and> bs = (if final then 0x4f else 0x50) # uleb 1 @ uleb (nat s))"
    proof -
      have "grows (steps [put_byte (if final then 0x4f else 0x50), put_int 1, put_int s])
          (\<lambda>bs. 0 \<le> s \<and> s < 2 ^ 32 \<and> bs = (if final then 0x4f else 0x50) # uleb 1 @ uleb (nat s))"
        by (rule grows_cons [OF grows_tag grows_parent]) auto
      then show ?thesis by (rule grows_cons [OF grows_check]) auto
    qed
    show ?thesis unfolding encodeTypeDef.simps Some option.case
    proof (rule grows_append [OF head tail], elim conjE)
      fix a bs assume s: "0 \<le> s" "s < 2 ^ 32" and a: "a = (if final then 0x4f else 0x50) # uleb 1 @ uleb (nat s)" and "def_bytes_ok t bs"
      then have "admits parseBinaryTypeDef bs (reread t)" by (simp add: def_bytes_ok_def)
      then have "def_bytes_ok (SubTypeDef name (Some s) final t)
          ((if final then 0x4f else 0x50) # (case Some (nat s) of Some s \<Rightarrow> uleb 1 @ uleb s | None \<Rightarrow> uleb 0) @ bs)"
        by (rule def_bytes_sub) (use s tokens in \<open>auto simp: nat_less_iff\<close>)
      then show "def_bytes_ok (SubTypeDef name (Some s) final t) (a @ bs)" by (simp add: a)
    qed
  next
    case None
    show ?thesis
    proof (cases final)
      case True
      have "def_bytes_ok ?t bs" if "def_bytes_ok t bs" for bs
        using that inner by (auto simp: def_bytes_ok_def None True reread_def elim!: admits_weaken)
      with tail show ?thesis by (simp add: None True grows_weaken del: steps.simps)
    next
      case False
      have head: "grows (steps [put_byte 0x50, put_int 0]) ((=) (0x50 # uleb 0))"
        by (rule grows_cons [OF grows_tag grows_root]) auto
      show ?thesis unfolding encodeTypeDef.simps None option.case if_P [OF False]
      proof (rule grows_append [OF head tail])
        fix a bs assume a: "0x50 # uleb 0 = a" and "def_bytes_ok t bs"
        then have "admits parseBinaryTypeDef bs (reread t)" by (simp add: def_bytes_ok_def)
        then have "def_bytes_ok (SubTypeDef name None final t)
            ((if final then 0x4f else 0x50) # (case None of Some s \<Rightarrow> uleb 1 @ uleb s | None \<Rightarrow> uleb 0) @ bs)"
          by (rule def_bytes_sub) (use tokens False in auto)
        then show "def_bytes_ok (SubTypeDef name None final t) (a @ bs)" using a False by auto
      qed
    qed
  qed
qed (simp_all add: grows_func grows_struct_def grows_array del: encodeTypeDef.simps)

end
