(* ===== verification/Canonical_Reading.thy ===== *)
theory Canonical_Reading
  imports Canonical_Correct
begin

text \<open>
  From the bytes of a module back to its recursion groups: the planned groups tile the flattened type table, each
  group is written so that \<^verbatim>\<open>parseBinaryTypeGroups\<close> finds its extent and its members, and the walk over the
  sections finds the type section wherever it is.
\<close>

section \<open>Groups\<close>

fun tiles :: "nat \<Rightarrow> type_group list \<Rightarrow> bool" where
  "tiles a [] = True"
| "tiles a (g # gs) = (tg_start g = a \<and> a \<le> tg_end g \<and> (tg_recursive g \<or> tg_end g = a) \<and> tiles (tg_end g + 1) gs)"

lemma plan_loop_tiles:
  assumes "\<forall>r \<in> set ranges. pt_start r \<le> pt_end r"
  shows "plan_loop refs forced ranges start = Inr groups \<Longrightarrow> tiles start groups"
proof (induction "length refs - start" arbitrary: start groups rule: less_induct)
  case less
  show ?case
  proof (cases "length refs \<le> start")
    case True
    then show ?thesis using less.prems by (simp add: plan_loop.simps [of _ _ _ start])
  next
    case False
    define explicit where "explicit = List.find (\<lambda>g. pt_start g = start) ranges"
    define stop0 where "stop0 = (case explicit of Some g \<Rightarrow> pt_end g | None \<Rightarrow> start)"
    have s0: "start \<le> stop0" using assms by (force simp: stop0_def explicit_def find_Some_iff split: option.splits)
    obtain stop gs where scan: "scan_group refs forced ranges explicit start start stop0 = Inr stop"
      and gs: "(if stop < start then Inr [] else plan_loop refs forced ranges (stop + 1)) = Inr gs"
      and groups: "groups = \<lparr>tg_start = start, tg_end = stop, tg_recursive = (explicit \<noteq> None \<or> start < stop),
          tg_explicitRecordIndex = map_option pt_recordIndex explicit\<rparr> # gs"
      using less.prems False
      by (auto simp: plan_loop.simps [of _ _ _ start] Let_def explicit_def [symmetric] stop0_def [symmetric] bindE_eq_Inr)
    have le: "start \<le> stop" using scan_group_result [OF scan] s0 by simp
    with gs have "tiles (stop + 1) gs" using less.hyps [of "stop + 1" gs] False by simp
    with le show ?thesis by (auto simp: groups)
  qed
qed

lemma plan_tiles:
  assumes "indexPhysicalTypes types = Inr table" "planPhysicalTypeSection table forcedGroups = Inr groups"
  shows "tiles 0 groups"
proof -
  have "\<forall>r \<in> set (tt_explicitGroups table). pt_start r \<le> pt_end r"
    using indexPhysicalTypes_ok [OF assms(1)] by (auto simp: physical_ok_def list_all_iff)
  then show ?thesis using assms(2)
    by (auto simp: planPhysicalTypeSection_def Let_def bindE_eq_Inr split: if_splits intro: plan_loop_tiles)
qed

lemma tiles_recursive: "tiles a groups \<Longrightarrow> g \<in> set groups \<Longrightarrow> tg_start g < tg_end g \<Longrightarrow> tg_recursive g"
  by (induction groups arbitrary: a) auto

definition table_def :: "physical_type_table \<Rightarrow> nat \<Rightarrow> type_def" where
  "table_def table i = pe_definition (tt_entries table ! i)"

definition group_reread :: "physical_type_table \<Rightarrow> type_group \<Rightarrow> binary_group \<Rightarrow> bool" where
  "group_reread table g b \<longleftrightarrow>
     bg_start b = tg_start g \<and> bg_end b = int (tg_end g) \<and> bg_recursive b = tg_recursive g \<and>
     list_all2 (\<lambda>i. reread (table_def table i)) (group_span g) (bg_defs b)"

lemma grows_concat:
  "(\<And>x. x \<in> set xs \<Longrightarrow> grows (steps (f x)) (Q x)) \<Longrightarrow>
    grows (steps (concat (map f xs))) (\<lambda>bs. \<exists>bss. bs = concat bss \<and> list_all2 Q xs bss)"
proof (induction xs)
  case (Cons x xs)
  have rest: "grows (steps (concat (map f xs))) (\<lambda>bs. \<exists>bss. bs = concat bss \<and> list_all2 Q xs bss)" using Cons by simp
  have one: "grows (steps (f x)) (Q x)" by (rule Cons.prems) simp
  show ?case unfolding list.map concat.simps
  proof (rule grows_append [OF one rest])
    fix a b assume "Q x a" "\<exists>bss. b = concat bss \<and> list_all2 Q xs bss"
    then obtain bss where "a @ b = concat (a # bss)" "list_all2 Q (x # xs) (a # bss)" by auto
    then show "\<exists>bss. a @ b = concat bss \<and> list_all2 Q (x # xs) bss" by blast
  qed
qed (simp add: grows_end)

lemma read_group_rec:
  assumes "admits (\<lambda>c. bindE (readByte c) (\<lambda>(_, c). bindE (readUnsignedLeb c) (\<lambda>(n, c). bindE (array_from n parseBinaryTypeDef c) (\<lambda>(defs, c).
      Inr (\<lparr>bg_start = a, bg_end = int a + int n - 1, bg_recursive = True, bg_defs = defs\<rparr>, c))))) (0x4e # bs) P"
  shows "admits (read_group a) (0x4e # bs) P"
  using assms unfolding admits_def read_group_def by (simp only: reader.select_convs peek if_True simp_thms)

lemma admits_recursive:
  assumes "list_all2 (\<lambda>i. def_bytes_ok (table_def table i)) (group_span g) bss" "tg_start g \<le> tg_end g" "tg_recursive g"
    and "tg_end g - tg_start g + 1 < 2 ^ 32"
  shows "admits (read_group (tg_start g)) (0x4e # uleb (tg_end g - tg_start g + 1) @ concat bss) (group_reread table g)"
proof -
  let ?n = "tg_end g - tg_start g + 1" and ?a = "tg_start g"
  have n: "length bss = ?n" using list_all2_lengthD [OF assms(1)] assms(2) by (simp add: group_span_def)
  have "list_all2 (\<lambda>i b. admits parseBinaryTypeDef b (reread (table_def table i))) (group_span g) bss"
    by (rule list_all2_mono [OF assms(1)]) (simp add: def_bytes_ok_def)
  from admits_times [OF this]
  have items: "admits (array_from ?n parseBinaryTypeDef) (concat bss) (list_all2 (\<lambda>i. reread (table_def table i)) (group_span g))"
    using assms(4) unfolding n by (simp add: array_from_def [abs_def] del: rd_times.simps)
  have "admits (\<lambda>c. bindE (readByte c) (\<lambda>(_, c). bindE (readUnsignedLeb c) (\<lambda>(n, c). bindE (array_from n parseBinaryTypeDef c) (\<lambda>(defs, c).
      Inr (\<lparr>bg_start = ?a, bg_end = int ?a + int n - 1, bg_recursive = True, bg_defs = defs\<rparr>, c)))))
      (0x4e # uleb ?n @ (concat bss @ [])) (group_reread table g)"
  proof (rule admits_tagged, rule admits_then [OF reads_readUnsigned [OF assms(4)]], rule admits_bind [OF items], rule admits_done)
    fix defs assume "list_all2 (\<lambda>i. reread (table_def table i)) (group_span g) defs"
    then show "group_reread table g \<lparr>bg_start = ?a, bg_end = int ?a + int ?n - 1, bg_recursive = True, bg_defs = defs\<rparr>"
      using assms(2,3) by (simp add: group_reread_def)
  qed
  then show ?thesis by (intro read_group_rec) simp
qed

lemma admits_single:
  assumes "def_bytes_ok (table_def table (tg_start g)) bs" "tg_end g = tg_start g" "\<not> tg_recursive g"
  shows "admits (read_group (tg_start g)) bs (group_reread table g)"
proof -
  let ?a = "tg_start g"
  obtain b rest where b: "bs = b # rest" "b \<noteq> 0x4e" and y: "admits parseBinaryTypeDef bs (reread (table_def table ?a))"
    using assms(1) unfolding def_bytes_ok_def by blast
  have "admits (\<lambda>c. bindE (parseBinaryTypeDef c) (\<lambda>(t, c). Inr (\<lparr>bg_start = ?a, bg_end = int ?a, bg_recursive = False, bg_defs = [t]\<rparr>, c)))
      (bs @ []) (group_reread table g)"
    by (rule admits_bind [OF y], rule admits_done) (use assms(2,3) in \<open>simp add: group_reread_def group_span_def\<close>)
  with b show ?thesis unfolding admits_def read_group_def by (simp add: nth_opt_def)
qed

lemma grows_group:
  assumes "tg_start g \<le> tg_end g" "tg_recursive g \<or> tg_end g = tg_start g" "list_all (\<lambda>i. def_plain (table_def table i)) (group_span g)"
  shows "grows (steps (put_group c table g)) (\<lambda>bs. admits (read_group (tg_start g)) bs (group_reread table g))"
proof -
  define n where "n = tg_end g - tg_start g + 1"
  let ?Q = "\<lambda>bs. \<exists>bss. bs = concat bss \<and> list_all2 (\<lambda>i. def_bytes_ok (table_def table i)) (group_span g) bss"
  have defs: "grows (steps (map (\<lambda>i. encodeTypeDef (at_where (str ''type definition #'' @ show_int (int i)) c) (pe_definition (tt_entries table ! i)))
      (group_span g))) ?Q"
    using assms(3) by (intro grows_list) (simp add: list_all_iff table_def_def grows_type_def)
  show ?thesis
  proof (cases "tg_recursive g")
    case True
    have n: "int (tg_end g) - int (tg_start g) + 1 = int n" using assms(1) by (simp add: n_def)
    have one: "grows (steps [put_int (int n)]) (\<lambda>bs. n < 2 ^ 32 \<and> bs = uleb n)"
      by (rule grows_cons [OF grows_number grows_end [of "(=) []"]]) (use nat_less_iff in \<open>auto simp: nat_add_distrib\<close>)
    have head: "grows (steps [put_byte 0x4e, put_int (int n)]) (\<lambda>bs. n < 2 ^ 32 \<and> bs = 0x4e # uleb n)"
      by (rule grows_cons [OF grows_tag one]) auto
    show ?thesis unfolding put_group_def if_P [OF True] n Suc_eq_plus1 [symmetric] group_span_def [symmetric]
    proof (rule grows_append [OF head defs], elim conjE exE)
      fix a b bss assume "n < 2 ^ 32" "a = 0x4e # uleb n" "b = concat bss"
        "list_all2 (\<lambda>i. def_bytes_ok (table_def table i)) (group_span g) bss"
      with admits_recursive [OF this(4) assms(1) True] this(1)
      show "admits (read_group (tg_start g)) (a @ b) (group_reread table g)" by (simp add: n_def [symmetric] del: One_nat_def Suc_eq_plus1)
    qed
  next
    case False
    then have e: "tg_end g = tg_start g" using assms(2) by simp
    have "admits (read_group (tg_start g)) bs (group_reread table g)" if "?Q bs" for bs
      using that e False by (auto simp: group_span_def list_all2_Cons1 intro: admits_single)
    with defs show ?thesis unfolding put_group_def if_not_P [OF False] Suc_eq_plus1 [symmetric] group_span_def [symmetric] append_Nil
      by (rule grows_weaken)
  qed
qed

lemma admits_groups:
  "list_all2 (\<lambda>g bs. admits (read_group (tg_start g)) bs (group_reread table g)) groups bss \<Longrightarrow> tiles a groups \<Longrightarrow>
   admits (read_groups (length groups) a) (concat bss) (list_all2 (group_reread table) groups)"
proof (induction arbitrary: a rule: list_all2_induct)
  case Nil
  show ?case by (auto simp: admits_def)
next
  case (Cons g groups b bss)
  have a: "tg_start g = a" "tiles (tg_end g + 1) groups" using Cons.prems by auto
  have "admits (\<lambda>c. bindE (read_group a c) (\<lambda>(g, c). bindE (read_groups (length groups) (nat (bg_end g + 1)) c) (\<lambda>(gs, c). Inr (g # gs, c))))
      (b @ (concat bss @ [])) (list_all2 (group_reread table) (g # groups))"
  proof (rule admits_bind [where P = "group_reread table g"])
    show "admits (read_group a) b (group_reread table g)" using Cons.hyps(1) a(1) by simp
    fix x assume x: "group_reread table g x"
    then have "nat (bg_end x + 1) = tg_end g + 1" by (simp add: group_reread_def nat_add_distrib)
    with Cons.IH [OF a(2)] have "admits (read_groups (length groups) (nat (bg_end x + 1))) (concat bss) (list_all2 (group_reread table) groups)" by simp
    then show "admits (\<lambda>c. bindE (read_groups (length groups) (nat (bg_end x + 1)) c) (\<lambda>(gs, c). Inr (x # gs, c))) (concat bss @ [])
        (list_all2 (group_reread table) (g # groups))"
      by (rule admits_bind, intro admits_done) (use x in simp)
  qed
  then show ?case by (simp add: read_groups.simps(2) [abs_def])
qed

text \<open>
  A planned type refers to types of the table only. What is left to demand is that a subtype declaration does not wrap
  a struct with a subtype header of its own, which the emitter would write as two nested headers.
\<close>

fun single_header :: "type_def \<Rightarrow> bool" where
  "single_header (SubTypeDef _ _ _ t) = (\<not> writes_sub t)"
| "single_header _ = True"

fun flat_def :: "type_def \<Rightarrow> bool" where
  "flat_def (RecGroupDef _) = False"
| "flat_def (SubTypeDef _ _ _ t) = (\<not> is_sub t \<and> flat_def t)"
| "flat_def _ = True"

lemma value_plain: "\<forall>r \<in> set (value_ref v). 0 \<le> r \<and> r < 2 ^ 31 \<Longrightarrow> val_plain v"
  by (cases v) simp_all

lemma def_plain_refs: "\<forall>r \<in> set (type_refs t). 0 \<le> r \<and> r < 2 ^ 31 \<Longrightarrow> flat_def t \<Longrightarrow> single_header t \<Longrightarrow> def_plain t"
proof (induction t)
  case (SubTypeDef name super final t)
  then have "single_header t" by (cases t) simp_all
  with SubTypeDef show ?case by simp
qed (auto simp: list_all_iff intro!: value_plain)

lemma entry_flat: "entry_refs n e = Inr rs \<Longrightarrow> flat_def (pe_definition e)"
proof -
  assume e: "entry_refs n e = Inr rs"
  have payload: "flat_def t \<and> \<not> is_sub t" if "payload_refs n k t = Inr x" for t k x
    using that by (cases t) simp_all
  show ?thesis
  proof (cases "pe_definition e")
    case (SubTypeDef name super final t)
    then have "\<exists>x. payload_refs n (pe_typeIndex e) t = Inr x" using e by (auto simp: entry_refs_def bindE_eq_Inr)
    with SubTypeDef show ?thesis using payload by auto
  qed (use e payload in \<open>auto simp: entry_refs_def\<close>)
qed

lemma planned_plain:
  assumes "indexPhysicalTypes types = Inr table" "planPhysicalTypeSection table forcedGroups = Inr groups"
    and "length (tt_entries table) < 2 ^ 31" "list_all (\<lambda>e. single_header (pe_definition e)) (tt_entries table)"
  shows "list_all (\<lambda>e. def_plain (pe_definition e)) (tt_entries table)"
proof -
  let ?n = "length (tt_entries table)"
  obtain refs where refs: "list_all2 (\<lambda>e rs. entry_refs ?n e = Inr rs) (tt_entries table) refs"
    and span: "concat (map group_span groups) = [0 ..< ?n]" and ok: "list_all (group_ok refs (tt_explicitGroups table)) groups"
    by (rule plan_facts [OF assms(1,2)])
  show ?thesis unfolding list_all_length
  proof (intro allI impI)
    fix i assume i: "i < ?n"
    then have r: "entry_refs ?n (tt_entries table ! i) = Inr (refs ! i)" by (rule list_all2_nthD [OF refs])
    have "i \<in> set (concat (map group_span groups))" using i span by simp
    then obtain g where g: "g \<in> set groups" "i \<in> {tg_start g..tg_end g}" by (auto simp: group_span_def)
    then have cl: "closed_from refs (tg_start g) (tg_end g)" and le: "tg_end g \<in> {tg_start g..tg_end g}"
      using ok by (simp_all add: list_all_iff group_ok_def)
    have "tg_end g < length refs" "\<forall>t \<in> set (refs ! i). t \<le> tg_end g"
      using cl [unfolded closed_from_def, THEN bspec, OF le] cl [unfolded closed_from_def, THEN bspec, OF g(2)] by blast+
    moreover have "length refs = ?n" using refs by (auto dest: list_all2_lengthD)
    ultimately have "\<forall>t \<in> set (map int (refs ! i)). 0 \<le> t \<and> t < 2 ^ 31" using assms(3) by fastforce
    then have "\<forall>t \<in> set (type_refs (pe_definition (tt_entries table ! i))). 0 \<le> t \<and> t < 2 ^ 31"
      using entry_refs_Inr(1) [OF r] by simp
    then show "def_plain (pe_definition (tt_entries table ! i))"
      using assms(4) i by (intro def_plain_refs entry_flat [OF r]) (simp_all add: list_all_length)
  qed
qed

section \<open>Sections\<close>

definition last_types :: "int list \<Rightarrow> byte list list \<Rightarrow> byte list option \<Rightarrow> byte list option" where
  "last_types ids ps = fold (\<lambda>(i, p) t. if i = 1 then Some p else t) (zip ids ps)"

lemma find_types_end: "find_types bs (length bs) t = Inr t"
  by (simp add: find_types.simps [of bs] nth_opt_def)

lemma find_types_step:
  assumes "0 \<le> i" "i < 256" "length p < 2 ^ 32"
  shows "find_types (pre @ framed i p @ rest) (length pre) t =
    find_types (pre @ framed i p @ rest) (length (pre @ framed i p)) (if i = 1 then Some p else t)"
proof -
  let ?w = "word_of_int i :: byte" and ?bs = "pre @ framed i p @ rest"
  have w: "?w = 1 \<longleftrightarrow> i = 1"
  proof
    assume "?w = 1"
    then have "nat i = 1" using assms(1,2) byte_of [of i] by simp
    then show "i = 1" by simp
  qed simp
  have bs: "?bs = (pre @ [?w]) @ uleb (length p) @ (p @ rest)" by (simp add: framed_def)
  have len: "readUnsignedLeb \<lparr>rd_data = ?bs, rd_pos = length pre + 1\<rparr> =
      Inr (length p, \<lparr>rd_data = ?bs, rd_pos = length pre + 1 + length (uleb (length p))\<rparr>)"
    using reads_readUnsigned [OF assms(3)] unfolding reads_def bs by (metis length_append_singleton Suc_eq_plus1)
  have nth: "nth_opt ?bs (length pre) = Some ?w" by (simp add: framed_def nth_opt_def)
  have stop: "length pre + 1 + length (uleb (length p)) + length p = length (pre @ framed i p)" by (simp add: framed_def)
  have slice: "rd_slice \<lparr>rd_data = ?bs, rd_pos = length pre + 1 + length (uleb (length p))\<rparr>
      (length pre + 1 + length (uleb (length p))) (length (pre @ framed i p)) = p"
    by (simp add: rd_slice_def framed_def)
  have short: "(length ?bs < length (pre @ framed i p)) = False" by simp
  show ?thesis
    by (subst find_types.simps)
       (simp only: nth option.case len bindE_Inr prod.case Let_def reader.select_convs stop slice w short if_False)
qed

lemma find_types_framed:
  "length ps = length ids \<Longrightarrow> list_all (\<lambda>p. length p < 2 ^ 32) ps \<Longrightarrow> list_all (\<lambda>i. 0 \<le> i \<and> i < 256) ids \<Longrightarrow>
   find_types (pre @ concat (map2 framed ids ps)) (length pre) t = Inr (last_types ids ps t)"
proof (induction ids arbitrary: ps pre t)
  case Nil
  then show ?case using find_types_end [of pre t] by (simp add: last_types_def)
next
  case (Cons i ids)
  then obtain p qs where ps: "ps = p # qs" by (cases ps) auto
  have "find_types (pre @ framed i p @ concat (map2 framed ids qs)) (length pre) t =
      find_types ((pre @ framed i p) @ concat (map2 framed ids qs)) (length (pre @ framed i p)) (if i = 1 then Some p else t)"
    using find_types_step [of i p pre "concat (map2 framed ids qs)" t] Cons.prems ps by simp
  also have "\<dots> = Inr (last_types ids qs (if i = 1 then Some p else t))"
    using Cons.prems ps by (intro Cons.IH) simp_all
  finally show ?case by (simp add: ps last_types_def)
qed

lemma last_types_other: "list_all (\<lambda>i. i \<noteq> 1) ids \<Longrightarrow> last_types ids ps t = t"
proof (induction ids arbitrary: ps t)
  case (Cons i ids)
  then show ?case by (cases ps) (simp_all add: last_types_def)
qed (simp add: last_types_def)

lemma read_whole:
  assumes "admits f bs P"
  obtains x where "f \<lparr>rd_data = bs, rd_pos = 0\<rparr> = Inr (x, \<lparr>rd_data = bs, rd_pos = length bs\<rparr>)" "P x"
  using admitsD [OF assms, of "[]" "[]"] by auto

text \<open>What a writer adds to an empty encoder.\<close>

lemma grows_new:
  assumes "grows w Q" "w new_encoder = Inr e"
  shows "Q (written e)"
proof -
  obtain bs where "written e = written new_encoder @ bs" "Q bs"
    using assms(1) [unfolded grows_def, rule_format, OF new_encoder_ok(1) assms(2)] by blast
  then show ?thesis by (simp add: new_encoder_ok(2))
qed

lemma grows_groups:
  assumes "tiles a groups" "list_all (\<lambda>g. list_all (\<lambda>i. def_plain (table_def table i)) (group_span g)) groups"
  shows "grows (steps (concat (map (put_group c table) groups)))
    (\<lambda>bs. \<exists>bss. bs = concat bss \<and> list_all2 (\<lambda>g bs. admits (read_group (tg_start g)) bs (group_reread table g)) groups bss)"
proof (rule grows_concat, rule grows_group)
  fix g assume g: "g \<in> set groups"
  have "tg_start g \<le> tg_end g \<and> (tg_recursive g \<or> tg_end g = tg_start g)"
    using assms(1) g by (induction groups arbitrary: a) auto
  then show "tg_start g \<le> tg_end g" "tg_recursive g \<or> tg_end g = tg_start g" by auto
  show "list_all (\<lambda>i. def_plain (table_def table i)) (group_span g)" using assms(2) g by (simp add: list_all_iff)
qed

lemma emitted_groups:
  assumes "emitBinary skip fl md = Inr bytes" "indexPhysicalTypes (md_types md) = Inr table"
    and "planPhysicalTypeSection table (forced_groups md) = Inr groups" "md_types md \<noteq> []"
    and "length (tt_entries table) < 2 ^ 31" "list_all (\<lambda>e. single_header (pe_definition e)) (tt_entries table)"
  obtains bgs where "parseBinaryTypeGroups bytes = Inr bgs" "list_all2 (group_reread table) groups bgs"
proof -
  obtain c sub ps where sub: "steps ([put_int (int (length groups))] @ concat (map (put_group c table) groups)) new_encoder = Inr sub"
    and len: "length (written sub) < 2 ^ 32" and ps: "length ps = length (later_ids md)" "list_all (\<lambda>p. length p < 2 ^ 32) ps"
    and bytes: "bytes = [0x00, 0x61, 0x73, 0x6d, 0x01, 0x00, 0x00, 0x00] @ concat (map2 framed (1 # later_ids md) (written sub # ps))"
    by (rule emitBinary_types [OF assms(1,4)]) (use assms(2,3) in auto)
  have tiled: "tiles 0 groups" by (rule plan_tiles [OF assms(2,3)])
  obtain refs where span: "concat (map group_span groups) = [0 ..< length (tt_entries table)]" by (rule plan_facts [OF assms(2,3)])
  have "list_all (\<lambda>i. def_plain (table_def table i)) (concat (map group_span groups))"
    using planned_plain [OF assms(2,3,5,6)] unfolding span by (simp add: list_all_length table_def_def)
  then have plain: "list_all (\<lambda>g. list_all (\<lambda>i. def_plain (table_def table i)) (group_span g)) groups"
    by (simp add: list_all_iff)
  have one: "grows (steps [put_int (int (length groups))]) (\<lambda>bs. length groups < 2 ^ 32 \<and> bs = uleb (length groups))"
    by (rule grows_cons [OF grows_number grows_end [of "(=) []"]]) (auto simp: nat_less_iff)
  have "grows (steps ([put_int (int (length groups))] @ concat (map (put_group c table) groups)))
      (\<lambda>bs. \<exists>bss. length groups < 2 ^ 32 \<and> bs = uleb (length groups) @ concat bss \<and>
        list_all2 (\<lambda>g bs. admits (read_group (tg_start g)) bs (group_reread table g)) groups bss)"
    by (rule grows_append [OF one grows_groups [OF tiled plain]]) auto
  from grows_new [OF this sub] obtain bss where n: "length groups < 2 ^ 32" and w: "written sub = uleb (length groups) @ concat bss"
    and all: "list_all2 (\<lambda>g bs. admits (read_group (tg_start g)) bs (group_reread table g)) groups bss" by blast
  have "admits (\<lambda>c. bindE (readUnsignedLeb c) (\<lambda>(n, c). read_groups n 0 c)) (written sub) (list_all2 (group_reread table) groups)"
    unfolding w by (rule admits_then [OF reads_readUnsigned [OF n]]) (rule admits_groups [OF all tiled])
  from read_whole [OF this] obtain bgs where
    bgs: "bindE (readUnsignedLeb \<lparr>rd_data = written sub, rd_pos = 0\<rparr>) (\<lambda>(n, c). read_groups n 0 c) =
      Inr (bgs, \<lparr>rd_data = written sub, rd_pos = length (written sub)\<rparr>)" "list_all2 (group_reread table) groups bgs" by blast
  have "find_types bytes 8 None = Inr (last_types (1 # later_ids md) (written sub # ps) None)"
  proof -
    let ?head = "[0x00, 0x61, 0x73, 0x6d, 0x01, 0x00, 0x00, 0x00] :: byte list"
    have "find_types (?head @ concat (map2 framed (1 # later_ids md) (written sub # ps))) (length ?head) None =
        Inr (last_types (1 # later_ids md) (written sub # ps) None)"
      using ps len later_range [of md] by (intro find_types_framed) (auto simp: list_all_iff)
    moreover have "length ?head = 8" by simp
    ultimately show ?thesis by (simp only: bytes)
  qed
  also have "\<dots> = Inr (Some (written sub))"
    using last_types_other [of "later_ids md" ps] later_range [of md] by (simp add: last_types_def list_all_iff)
  finally have found: "find_types bytes 8 None = Inr (Some (written sub))" .
  obtain n c' where c': "readUnsignedLeb \<lparr>rd_data = written sub, rd_pos = 0\<rparr> = Inr (n, c')"
      "read_groups n 0 c' = Inr (bgs, \<lparr>rd_data = written sub, rd_pos = length (written sub)\<rparr>)"
    using bgs(1) by (auto simp: bindE_eq_Inr)
  have "take 4 bytes = [0, 0x61, 0x73, 0x6d]" "\<not> length bytes < 8" unfolding bytes by simp_all
  with found c' have "parseBinaryTypeGroups bytes = Inr bgs" by (simp add: parseBinaryTypeGroups_def)
  with bgs(2) that show ?thesis by blast
qed

section \<open>The verifier\<close>

text \<open>The hashed text depends on the tokens only.\<close>

lemma group_text_tokens:
  assumes "list_all2 (\<lambda>t t'. structuralToken (index_to_local idx') t' = structuralToken (index_to_local idx) t) ts ts'"
  shows "group_text ts' idx' = group_text ts idx"
proof -
  have "map (\<lambda>(i, t). to_radix 10 i @ str '':'' @ structuralToken (index_to_local idx') t) (enumerate n ts') =
      map (\<lambda>(i, t). to_radix 10 i @ str '':'' @ structuralToken (index_to_local idx) t) (enumerate n ts)" for n
    using assms by (induction ts ts' arbitrary: n rule: list_all2_induct) simp_all
  with list_all2_lengthD [OF assms] show ?thesis by (simp add: group_text_def)
qed

lemma member_definitions:
  assumes "indexPhysicalTypes types = Inr table" "m \<in> set (List.map_filter runtime_member_of (tt_entries table))"
  shows "rm_def m = table_def table (rm_absIndex m)"
proof -
  obtain e where e: "e \<in> set (tt_entries table)" "runtime_member_of e = Some m"
    using assms(2) by (auto simp: List.map_filter_def)
  then obtain i where i: "i < length (tt_entries table)" "e = tt_entries table ! i" by (auto simp: in_set_conv_nth)
  have "map pe_typeIndex (tt_entries table) = [0 ..< length (tt_entries table)]"
    using indexPhysicalTypes_ok [OF assms(1)] by (simp add: physical_ok_def)
  then have "pe_typeIndex e = i" using i by (metis nth_map nth_upt add_0 diff_zero length_map)
  then show ?thesis using e(2) i
    by (auto simp: runtime_member_of_def table_def_def split: option.splits if_splits)
qed

lemma group_hash_reread:
  assumes "group_reread table g b" "map rm_absIndex members = group_span g" "\<forall>m \<in> set members. rm_def m = table_def table (rm_absIndex m)"
  shows "group_hash b = canonicalHashOfTypeGroup (map (\<lambda>m. unbranded (rm_def m)) members) (map (\<lambda>m. int (rm_absIndex m)) members)"
    "length (bg_defs b) = length members"
proof -
  have re: "list_all2 (\<lambda>i. reread (table_def table i)) (group_span g) (bg_defs b)" and s: "bg_start b = tg_start g"
    using assms(1) by (simp_all add: group_reread_def)
  show len: "length (bg_defs b) = length members"
    using list_all2_lengthD [OF re] assms(2) by (metis length_map)
  have "map (\<lambda>m. int (rm_absIndex m)) members = map int (map rm_absIndex members)" by simp
  also have "\<dots> = map (\<lambda>i. int (bg_start b + i)) [0 ..< length (bg_defs b)]"
    using list_all2_lengthD [OF re] unfolding assms(2) s by (intro nth_equalityI) (simp_all add: group_span_def del: upt_Suc)
  finally have idx: "map (\<lambda>i. int (bg_start b + i)) [0 ..< length (bg_defs b)] = map (\<lambda>m. int (rm_absIndex m)) members" ..
  have defs: "map (\<lambda>m. unbranded (rm_def m)) members = map (\<lambda>i. unbranded (table_def table i)) (group_span g)"
    unfolding assms(2) [symmetric] using assms(3) by simp
  have "list_all2 (\<lambda>t t'. structuralToken lo t' = structuralToken lo t) (map (\<lambda>m. unbranded (rm_def m)) members) (bg_defs b)" for lo
    unfolding defs list_all2_map1 by (rule list_all2_mono [OF re]) (simp add: reread_def)
  then show "group_hash b = canonicalHashOfTypeGroup (map (\<lambda>m. unbranded (rm_def m)) members) (map (\<lambda>m. int (rm_absIndex m)) members)"
    unfolding group_hash_def canonicalHashOfTypeGroup_def idx by (intro arg_cong [of _ _ fnv1a64] group_text_tokens)
qed

lemma find_some: "x \<in> set xs \<Longrightarrow> P x \<Longrightarrow> \<exists>y. List.find P xs = Some y \<and> P y \<and> y \<in> set xs"
  by (induction xs) auto

lemma verifier_accepts:
  assumes "parseBinaryTypeGroups bytes = Inr bgs" "b \<in> set bgs" "bg_recursive b" "length (bg_defs b) = fp_count fp"
    and "group_hash b = fp_hash fp" "fp_abiVersion fp = RUNTIME_RECGROUP_ABI_VERSION"
  obtains v where "verifyRuntimeRecGroupBinary bytes fp = v" "gv_valid v" "gv_hash v = Some (fp_hash fp)" "gv_count v = Some (fp_count fp)"
proof -
  let ?cs = "filter (\<lambda>g. bg_recursive g \<and> length (bg_defs g) = fp_count fp) bgs"
  have b: "b \<in> set ?cs" using assms(2-4) by simp
  then have ne: "?cs \<noteq> []" by force
  obtain g where g: "List.find (\<lambda>g. group_hash g = fp_hash fp) ?cs = Some g" "group_hash g = fp_hash fp" "g \<in> set ?cs"
    using find_some [of b ?cs "\<lambda>g. group_hash g = fp_hash fp"] b assms(5) by blast
  then show ?thesis
    using that assms(1,6) ne by (simp add: verifyRuntimeRecGroupBinary_def Let_def)
qed

end
