(* ===== verification/Canonical_Text.thy ===== *)
theory Canonical_Text
  imports Canonical_Reading
begin

text \<open>
  What the hashed text of a group says. The shape of a type is its header and its composite type, where a reference is
  replaced by the position of its target in the group. Tokens determine shapes and shapes determine
  tokens, so the text is the same for two groups exactly when their shapes are.
\<close>

section \<open>Shapes\<close>

type_synonym value_form = "bool \<times> nat option + val_type"

fun value_shape :: "local_of \<Rightarrow> val_type \<Rightarrow> value_form" where
  "value_shape lo (VRef t) = Inl (False, lo t)"
| "value_shape lo (VRefNull t) = Inl (True, lo t)"
| "value_shape lo t = Inr t"

datatype composite_shape =
    FuncShape "value_form list" "value_form list"
  | StructShape "(bool \<times> value_form) list"
  | ArrayShape bool value_form
  | NoShape

definition field_shape :: "local_of \<Rightarrow> field_def \<Rightarrow> bool \<times> value_form" where
  "field_shape lo f = (fd_mutable f, value_shape lo (fd_type f))"

fun composite_of :: "local_of \<Rightarrow> type_def \<Rightarrow> composite_shape" where
  "composite_of lo (FuncTypeDef _ params results) = FuncShape (map (value_shape lo) params) (map (value_shape lo) results)"
| "composite_of lo (StructTypeDef _ fs _ _) = StructShape (map (field_shape lo) fs)"
| "composite_of lo (ArrayTypeDef _ element mut) = ArrayShape mut (value_shape lo element)"
| "composite_of lo (SubTypeDef _ _ _ t) = composite_of lo t"
| "composite_of lo (RecGroupDef _) = NoShape"

text \<open>The supertype, if there is one, as its position in the group, and finality. A type without a header is final.\<close>

fun header_of :: "local_of \<Rightarrow> type_def \<Rightarrow> nat option option \<times> bool" where
  "header_of lo (StructTypeDef _ _ (Some s) final) = (if 0 \<le> s then Some (lo s) else None, final)"
| "header_of lo (SubTypeDef _ (Some s) final _) = (Some (lo s), final)"
| "header_of lo (SubTypeDef _ None final _) = (None, final)"
| "header_of lo _ = (None, True)"

definition shape_of :: "local_of \<Rightarrow> type_def \<Rightarrow> (nat option option \<times> bool) \<times> composite_shape" where
  "shape_of lo t = (header_of lo t, composite_of lo t)"

section \<open>Units of tokens\<close>

definition label :: "nat option \<Rightarrow> js_string" where
  "label l = (case l of Some n \<Rightarrow> 114 # to_radix 10 n | None \<Rightarrow> [120])"

lemma decimal_units: "list_all (\<lambda>u. 48 \<le> u \<and> u \<le> 57) (to_radix 10 n)"
proof -
  have "48 \<le> u \<and> u \<le> 57" if u: "is_decimal u" for u
  proof (rule ccontr)
    assume a: "\<not> (48 \<le> u \<and> u \<le> 57)"
    then have "digit_value u = None \<or> 10 \<le> the (digit_value u)" by (simp add: digit_value_def) arith
    then show False using u by (auto simp: is_digit_of_def split: option.splits)
  qed
  then show ?thesis using digits_to_radix(1) [of 10 n] by (simp add: list_all_iff)
qed

lemma decimal_head: "\<exists>d ds. to_radix 10 n = d # ds \<and> 48 \<le> d \<and> d \<le> 57"
proof -
  have "to_radix 10 n \<noteq> []" by (rule digits_to_radix) simp_all
  then obtain d ds where "to_radix 10 n = d # ds" by (meson list.exhaust)
  then show ?thesis using decimal_units [of n] by (metis list.pred_inject(2))
qed

lemma decimal_same: "to_radix 10 m = to_radix 10 n \<longleftrightarrow> m = n"
proof
  assume eq: "to_radix 10 m = to_radix 10 n"
  have "parse_radix 10 (to_radix 10 k) = k" for k by (rule parse_to_radix) simp_all
  then show "m = n" using eq by metis
qed simp

lemma label_inject: "label l = label l' \<longleftrightarrow> l = l'"
  by (auto simp: label_def decimal_same split: option.splits)

lemma ref_token_label: "ref_token nullable lo t = (if nullable then [110] else []) @ label (lo t)"
  by (simp add: ref_token_def label_def str_def split: option.split)

definition token_unit :: "nat \<Rightarrow> bool" where
  "token_unit u \<longleftrightarrow> 48 \<le> u \<and> u \<le> 57 \<or> 97 \<le> u \<and> u \<le> 122 \<or> u = 95"

lemma decimal_token: "list_all token_unit (to_radix 10 n)"
  by (rule list.pred_mono_strong [OF decimal_units]) (simp add: token_unit_def)

lemma label_token: "list_all token_unit (label l)" "label l \<noteq> []"
  using decimal_token by (simp_all add: label_def token_unit_def split: option.split)

lemma value_token: "list_all token_unit (valTypeToken lo t)" "valTypeToken lo t \<noteq> []"
  using label_token by (cases t; simp add: ref_token_label token_unit_def str_def)+

lemma label_text: "label l = [120] \<or> (\<exists>d ds. label l = 114 # d # ds \<and> d \<le> 57)"
proof (cases l)
  case (Some n)
  then show ?thesis using decimal_head [of n] by (auto simp: label_def)
qed (simp add: label_def)

fun is_ref :: "val_type \<Rightarrow> bool" where
  "is_ref (VRef _) = True"
| "is_ref (VRefNull _) = True"
| "is_ref _ = False"

lemma const_not_ref: "\<not> is_ref t \<Longrightarrow> valTypeToken lo t \<noteq> ref_token nullable lo' k"
  using label_text [of "lo' k"] by (cases t) (auto simp: ref_token_label str_def)

lemma ref_token_inject: "ref_token b lo k = ref_token b' lo' k' \<longleftrightarrow> b = b' \<and> lo k = lo' k'"
  using label_text [of "lo k"] label_text [of "lo' k'"] by (cases b; cases b') (auto simp: ref_token_label label_inject)

lemma const_inject: "\<not> is_ref t \<Longrightarrow> \<not> is_ref t' \<Longrightarrow> valTypeToken lo t = valTypeToken lo' t' \<longleftrightarrow> t = t'"
  by (cases t; cases t'; simp add: str_def)

lemma const_shape: "\<not> is_ref t \<Longrightarrow> value_shape lo t = Inr t"
  by (cases t) simp_all

lemma ref_cases: "is_ref t \<Longrightarrow> \<exists>b k. valTypeToken lo t = ref_token b lo k \<and> value_shape lo t = Inl (b, lo k)"
  by (cases t) auto

lemma value_token_shape: "valTypeToken lo t = valTypeToken lo' t' \<longleftrightarrow> value_shape lo t = value_shape lo' t'"
proof (cases "is_ref t")
  case True
  then obtain b k where t: "valTypeToken lo t = ref_token b lo k" "value_shape lo t = Inl (b, lo k)" using ref_cases by blast
  show ?thesis
  proof (cases "is_ref t'")
    case True
    then obtain b' k' where "valTypeToken lo' t' = ref_token b' lo' k'" "value_shape lo' t' = Inl (b', lo' k')" using ref_cases by blast
    with t show ?thesis by (simp add: ref_token_inject)
  next
    case False
    then show ?thesis using t const_not_ref [of t' lo' b lo k] by (simp add: const_shape eq_commute)
  qed
next
  case False
  show ?thesis
  proof (cases "is_ref t'")
    case True
    then obtain b' k' where "valTypeToken lo' t' = ref_token b' lo' k'" "value_shape lo' t' = Inl (b', lo' k')" using ref_cases by blast
    with False show ?thesis by (simp add: const_shape const_not_ref)
  next
    case False': False
    with False show ?thesis by (simp add: const_shape const_inject)
  qed
qed

section \<open>Delimited texts\<close>

lemma cut: "c \<notin> set a \<Longrightarrow> c \<notin> set a' \<Longrightarrow> a @ c # b = a' @ c # b' \<longleftrightarrow> a = a' \<and> b = b'"
proof
  assume c: "c \<notin> set a" "c \<notin> set a'" and eq: "a @ c # b = a' @ c # b'"
  have tw: "takeWhile (\<lambda>x. x \<noteq> c) (x @ c # y) = x" if "c \<notin> set x" for x y
    using that by (subst takeWhile_append2) auto
  from tw [OF c(1), of b] tw [OF c(2), of b'] eq have "a = a'" by metis
  with eq show "a = a' \<and> b = b'" by simp
qed simp

lemma token_clean: "list_all token_unit s \<Longrightarrow> \<not> token_unit c \<Longrightarrow> c \<notin> set s"
  by (auto simp: list_all_iff)

lemma join_inject:
  assumes "\<forall>s \<in> set xs. sep \<notin> set s \<and> s \<noteq> []" "\<forall>s \<in> set ys. sep \<notin> set s \<and> s \<noteq> []"
  shows "join_with sep xs = join_with sep ys \<longleftrightarrow> xs = ys"
proof
  assume eq: "join_with sep xs = join_with sep ys"
  show "xs = ys"
  proof (cases "xs = [] \<or> ys = []")
    case True
    then show ?thesis using eq assms join_with_nonempty [of xs sep] join_with_nonempty [of ys sep] by fastforce
  next
    case False
    then have "split_on sep (join_with sep xs) = xs" "split_on sep (join_with sep ys) = ys"
      using assms by (simp_all add: split_on_join)
    with eq show ?thesis by metis
  qed
qed simp

lemma join_units:
  assumes "list_all (list_all token_unit) xs" "\<not> token_unit c" "c \<noteq> sep"
  shows "c \<notin> set (join_with sep xs)"
proof
  assume "c \<in> set (join_with sep xs)"
  then obtain p where "p \<in> set xs" "c \<in> set p" using join_with_set [of c sep xs] assms(3) by blast
  with assms(1,2) show False by (simp add: list_all_iff)
qed

lemma map_eq_iff: "(\<And>x y. f x = f' y \<longleftrightarrow> g x = g' y) \<Longrightarrow> map f xs = map f' ys \<longleftrightarrow> map g xs = map g' ys"
proof (induction xs arbitrary: ys)
  case (Cons x xs)
  then show ?case by (cases ys) simp_all
qed simp

lemma joined_values:
  "\<not> token_unit sep \<Longrightarrow> join_with sep (map (valTypeToken lo) ts) = join_with sep (map (valTypeToken lo') ts') \<longleftrightarrow>
     map (value_shape lo) ts = map (value_shape lo') ts'"
proof -
  assume sep: "\<not> token_unit sep"
  have clean: "\<forall>s \<in> set (map (valTypeToken lo) ts). sep \<notin> set s \<and> s \<noteq> []" for lo ts
    using sep value_token token_clean by auto
  show ?thesis unfolding join_inject [OF clean clean] by (rule map_eq_iff) (rule value_token_shape)
qed

lemma field_token: "list_all token_unit (fieldToken lo f)" "fieldToken lo f \<noteq> []"
  using value_token by (simp_all add: fieldToken_def token_unit_def str_def)

lemma value_token_head: "valTypeToken lo t \<noteq> 109 # s"
  using label_text by (cases t) (auto simp: ref_token_label str_def label_def split: option.splits)

lemma field_token_shape: "fieldToken lo f = fieldToken lo' f' \<longleftrightarrow> field_shape lo f = field_shape lo' f'"
proof -
  have m: "str ''m'' = [109]" by (simp add: str_def)
  show ?thesis unfolding fieldToken_def field_shape_def m
    using value_token_head value_token_head [symmetric] by (auto simp: value_token_shape)
qed

lemma joined_fields:
  "join_with 59 (map (fieldToken lo) fs) = join_with 59 (map (fieldToken lo') fs') \<longleftrightarrow>
     map (field_shape lo) fs = map (field_shape lo') fs'"
proof -
  have clean: "\<forall>s \<in> set (map (fieldToken lo) fs). 59 \<notin> set s \<and> s \<noteq> []" for lo fs
    using field_token token_clean [of _ 59] by (auto simp: token_unit_def)
  show ?thesis unfolding join_inject [OF clean clean] by (rule map_eq_iff) (rule field_token_shape)
qed

section \<open>Types\<close>

text \<open>The token of a type is that of its header and then that of its composite type.\<close>

fun composite_token :: "local_of \<Rightarrow> type_def \<Rightarrow> js_string" where
  "composite_token lo (StructTypeDef name fs _ _) = structuralToken lo (StructTypeDef name fs None False)"
| "composite_token lo (SubTypeDef _ _ _ t) = composite_token lo t"
| "composite_token lo t = structuralToken lo t"

definition header_token :: "nat option option \<times> bool \<Rightarrow> js_string" where
  "header_token = (\<lambda>(parent, final).
     case parent of
       Some l \<Rightarrow> str ''sub '' @ label l @ (if final then str ''!'' else []) @ str '' ''
     | None \<Rightarrow> if final then [] else str ''open '')"

lemma super_token_header: "super_token lo s final = header_token (Some (lo s), final)"
  by (simp add: super_token_def header_token_def label_def str_def Let_def split: option.split)

lemma plain_composite: "flat_def t \<Longrightarrow> \<not> is_sub t \<Longrightarrow> \<not> writes_sub t \<Longrightarrow> structuralToken lo t = composite_token lo t"
  by (cases t) simp_all

lemma token_parts:
  assumes "flat_def t" "single_header t"
  shows "structuralToken lo t = header_token (header_of lo t) @ composite_token lo t"
proof (cases t)
  case (StructTypeDef name fs super final)
  then show ?thesis by (cases super) (simp_all add: super_token_header, simp_all add: header_token_def)
next
  case (SubTypeDef name super final t')
  then have "structuralToken lo t' = composite_token lo t'" using assms by (intro plain_composite) simp_all
  with SubTypeDef show ?thesis by (cases super) (simp_all add: super_token_header, simp_all add: header_token_def)
qed (use assms in \<open>simp_all add: header_token_def\<close>)

fun payload :: "type_def \<Rightarrow> type_def" where
  "payload (SubTypeDef _ _ _ t) = t"
| "payload t = t"

lemma payload_same: "composite_token lo t = composite_token lo (payload t)" "composite_of lo t = composite_of lo (payload t)"
  by (cases t; simp)+

lemma payload_flat: "flat_def t \<Longrightarrow> flat_def (payload t) \<and> \<not> is_sub (payload t)"
  by (cases t) simp_all

lemma plain_shape:
  assumes "flat_def t" "\<not> is_sub t" "flat_def t'" "\<not> is_sub t'"
  shows "composite_token lo t = composite_token lo' t' \<longleftrightarrow> composite_of lo t = composite_of lo' t'"
proof -
  have "list_all (list_all token_unit) (map (valTypeToken lo) ts)" for lo ts by (induction ts) (simp_all add: value_token)
  then have vals: "41 \<notin> set (join_with 44 (map (valTypeToken lo) ts))" for lo ts
    by (rule join_units) (simp_all add: token_unit_def)
  show ?thesis
    using assms vals joined_values [of 44] joined_fields value_token_shape value_token_head value_token_head [symmetric]
    by (cases t; cases t') (simp_all add: str_def cut token_unit_def)
qed

lemma composite_shape:
  assumes "flat_def t" "flat_def t'"
  shows "composite_token lo t = composite_token lo' t' \<longleftrightarrow> composite_of lo t = composite_of lo' t'"
  unfolding payload_same [of _ t] payload_same [of _ t'] using assms by (simp add: plain_shape payload_flat)

definition opens_composite :: "js_string \<Rightarrow> bool" where
  "opens_composite s \<longleftrightarrow> (\<exists>u v rest. s = u # v # rest \<and> u \<noteq> 111 \<and> (u = 115 \<longrightarrow> v = 116))"

lemma composite_opens: "flat_def t \<Longrightarrow> opens_composite (composite_token lo t)"
  by (induction t) (simp_all add: opens_composite_def str_def)

lemma label_clean: "32 \<notin> set (label l)" "33 \<notin> set (label l)"
  using label_token(1) by (rule token_clean; simp add: token_unit_def)+

definition bang :: "bool \<Rightarrow> js_string" where "bang final = (if final then [33] else [])"

lemma marked_label: "label l @ bang f = label l' @ bang f' \<longleftrightarrow> l = l' \<and> f = f'"
proof -
  have "label l \<noteq> label l' @ [33]" "label l @ [33] \<noteq> label l'" for l l'
  proof -
    have "33 \<in> set (label l' @ [33])" "33 \<in> set (label l @ [33])" by simp_all
    then show "label l \<noteq> label l' @ [33]" "label l @ [33] \<noteq> label l'" using label_clean(2) by metis+
  qed
  then show ?thesis by (cases f; cases f') (simp_all add: bang_def label_inject)
qed

lemma header_token_cases:
  "header_token (Some l, f) = [115, 117, 98, 32] @ (label l @ bang f) @ [32]"
  "header_token (None, True) = []" "header_token (None, False) = [111, 112, 101, 110, 32]"
  by (simp_all add: header_token_def bang_def str_def)

lemma header_inject:
  assumes "opens_composite c" "opens_composite c'"
  shows "header_token h @ c = header_token h' @ c' \<longleftrightarrow> h = h' \<and> c = c'"
proof -
  have marked: "32 \<notin> set (label l @ bang f)" for l f using label_clean(1) by (simp add: bang_def)
  obtain p f p' f' where h: "h = (p, f)" "h' = (p', f')" by (cases h; cases h') auto
  have both: "header_token (Some l, f) @ c = header_token (Some l', f') @ c' \<longleftrightarrow> (l = l' \<and> f = f') \<and> c = c'" for l l' f f'
    using cut [OF marked marked, of l f c l' f' c'] unfolding header_token_cases marked_label by simp
  have sub: "header_token (Some l, f) @ x = 115 # 117 # 98 # 32 # (label l @ bang f) @ 32 # x" for l f x
    by (simp add: header_token_cases)
  show ?thesis
  proof (cases p)
    case (Some l)
    show ?thesis
    proof (cases p')
      case None
      then show ?thesis using assms unfolding h Some sub
        by (cases f') (auto simp: header_token_cases opens_composite_def)
    qed (use both in \<open>simp add: h Some\<close>)
  next
    case None
    show ?thesis
    proof (cases p')
      case (Some l')
      then show ?thesis using assms unfolding h Some None sub
        by (cases f) (auto simp: header_token_cases opens_composite_def)
    next
      case None': None
      then show ?thesis using assms unfolding h None
        by (cases f; cases f') (auto simp: header_token_cases opens_composite_def)
    qed
  qed
qed

lemma token_shape:
  assumes "flat_def t" "single_header t" "flat_def t'" "single_header t'"
  shows "structuralToken lo t = structuralToken lo' t' \<longleftrightarrow> shape_of lo t = shape_of lo' t'"
  unfolding token_parts [OF assms(1,2)] token_parts [OF assms(3,4)] shape_of_def
  using composite_shape [OF assms(1,3)] by (simp add: header_inject composite_opens assms)

section \<open>Groups\<close>

lemma numbered_eq:
  "map (\<lambda>(i, t). to_radix 10 i @ str '':'' @ f t) (enumerate n ts) = map (\<lambda>(i, t). to_radix 10 i @ str '':'' @ f' t) (enumerate n ts') \<longleftrightarrow>
     map f ts = map f' ts'"
proof (induction ts arbitrary: ts' n)
  case Nil
  then show ?case by (cases ts') simp_all
next
  case (Cons t ts)
  then show ?case by (cases ts') simp_all
qed

lemma composite_no_bar: "flat_def t \<Longrightarrow> 124 \<notin> set (composite_token lo t)"
proof (induction t)
  case (FuncTypeDef name params results)
  have "list_all (list_all token_unit) (map (valTypeToken lo) ts)" for ts by (induction ts) (simp_all add: value_token)
  then have "124 \<notin> set (join_with 44 (map (valTypeToken lo) ts))" for ts by (rule join_units) (simp_all add: token_unit_def)
  then show ?case by (simp add: str_def)
next
  case (StructTypeDef name fs super final)
  have "list_all (list_all token_unit) (map (fieldToken lo) fs)" by (induction fs) (simp_all add: field_token)
  then have "124 \<notin> set (join_with 59 (map (fieldToken lo) fs))" by (rule join_units) (simp_all add: token_unit_def)
  then show ?case by (simp add: str_def)
next
  case (ArrayTypeDef name element mut)
  have "124 \<notin> set (valTypeToken lo element)" by (rule token_clean [OF value_token(1)]) (simp add: token_unit_def)
  then show ?case by (simp add: str_def)
qed simp_all

lemma token_no_bar:
  assumes "flat_def t" "single_header t"
  shows "124 \<notin> set (structuralToken lo t)"
proof -
  have label: "124 \<notin> set (label l)" for l by (rule token_clean [OF label_token(1)]) (simp add: token_unit_def)
  have "124 \<notin> set (header_token (p, f))" for p f
    using label by (cases p; cases f) (simp_all add: header_token_def str_def)
  then have "124 \<notin> set (header_token (header_of lo t))" by (cases "header_of lo t") simp
  with composite_no_bar [OF assms(1)] show ?thesis by (simp add: token_parts [OF assms])
qed

definition group_defs_ok :: "type_def list \<Rightarrow> bool" where
  "group_defs_ok ts \<longleftrightarrow> list_all (\<lambda>t. flat_def t \<and> single_header t) ts"

lemma group_text_shapes:
  assumes "group_defs_ok ts" "group_defs_ok ts'"
  shows "group_text ts idx = group_text ts' idx' \<longleftrightarrow> map (shape_of (index_to_local idx)) ts = map (shape_of (index_to_local idx')) ts'"
proof -
  let ?lo = "index_to_local idx" and ?lo' = "index_to_local idx'"
  let ?parts = "\<lambda>ts lo. map (\<lambda>(i, t). to_radix 10 i @ str '':'' @ structuralToken lo t) (enumerate 0 ts)"
  have dec: "124 \<notin> set (to_radix 10 n)" for n by (rule token_clean [OF decimal_token]) (simp add: token_unit_def)
  have item: "124 \<notin> set (to_radix 10 i @ str '':'' @ structuralToken lo t) \<and> to_radix 10 i @ str '':'' @ structuralToken lo t \<noteq> []"
    if "t \<in> set ts" "group_defs_ok ts" for i t lo and ts :: "type_def list"
    using that dec token_no_bar [of t lo] by (simp add: group_defs_ok_def list_all_iff str_def)
  have parts: "\<forall>s \<in> set (?parts ts lo). 124 \<notin> set s \<and> s \<noteq> []" if "group_defs_ok ts" for ts lo
  proof
    fix s assume "s \<in> set (?parts ts lo)"
    then obtain i t where s: "s = to_radix 10 i @ str '':'' @ structuralToken lo t" "(i, t) \<in> set (enumerate 0 ts)" by auto
    then have "t \<in> set ts" unfolding enumerate_eq_zip by (blast dest: set_zip_rightD)
    with item [OF this that] s(1) show "124 \<notin> set s \<and> s \<noteq> []" by simp
  qed
  have all: "\<forall>s \<in> set ([str ''v'' @ to_radix 10 RUNTIME_RECGROUP_ABI_VERSION, str ''n'' @ to_radix 10 (length ts)] @ ?parts ts lo).
      124 \<notin> set s \<and> s \<noteq> []" if "group_defs_ok ts" for ts lo
    using parts [OF that, of lo] dec by (simp add: str_def)
  have tokens: "map (structuralToken ?lo) ts = map (structuralToken ?lo') ts' \<longleftrightarrow> map (shape_of ?lo) ts = map (shape_of ?lo') ts'"
    using assms
  proof (induction ts arbitrary: ts')
    case (Cons t ts)
    then show ?case by (cases ts') (simp_all add: group_defs_ok_def token_shape)
  qed simp
  have "group_text ts idx = group_text ts' idx' \<longleftrightarrow> length ts = length ts' \<and> ?parts ts ?lo = ?parts ts' ?lo'"
    unfolding group_text_def join_inject [OF all [OF assms(1)] all [OF assms(2)]] by (simp add: decimal_same)
  also have "\<dots> \<longleftrightarrow> map (structuralToken ?lo) ts = map (structuralToken ?lo') ts'"
    unfolding numbered_eq by (metis length_map)
  finally show ?thesis using tokens by simp
qed

section \<open>Moving a group\<close>

text \<open>The same types under other names and with every type index mapped.\<close>

fun moved_val :: "(int \<Rightarrow> int) \<Rightarrow> val_type \<Rightarrow> val_type" where
  "moved_val f (VRef t) = VRef (f t)"
| "moved_val f (VRefNull t) = VRefNull (f t)"
| "moved_val f t = t"

definition moved_field :: "(int \<Rightarrow> int) \<Rightarrow> field_def \<Rightarrow> field_def \<Rightarrow> bool" where
  "moved_field f a b \<longleftrightarrow> fd_mutable b = fd_mutable a \<and> fd_type b = moved_val f (fd_type a)"

fun moved :: "(int \<Rightarrow> int) \<Rightarrow> type_def \<Rightarrow> type_def \<Rightarrow> bool" where
  "moved f (FuncTypeDef _ ps rs) (FuncTypeDef _ ps' rs') = (ps' = map (moved_val f) ps \<and> rs' = map (moved_val f) rs)"
| "moved f (StructTypeDef _ fs super final) (StructTypeDef _ fs' super' final') =
     (list_all2 (moved_field f) fs fs' \<and> super' = map_option f super \<and> final' = final)"
| "moved f (ArrayTypeDef _ element mut) (ArrayTypeDef _ element' mut') = (element' = moved_val f element \<and> mut' = mut)"
| "moved f (SubTypeDef _ super final t) (SubTypeDef _ super' final' t') =
     (super' = map_option f super \<and> final' = final \<and> moved f t t')"
| "moved f _ _ = False"

lemma index_to_local_moved: "inj f \<Longrightarrow> index_to_local (map f idx) (f a) = index_to_local idx a"
proof -
  assume f: "inj f"
  have "fold (\<lambda>(i, a) m. m(a \<mapsto> i)) (enumerate n (map f idx)) m' (f a) = fold (\<lambda>(i, a) m. m(a \<mapsto> i)) (enumerate n idx) m a"
    if "\<forall>a. m' (f a) = m a" for n and m m' :: "int \<Rightarrow> nat option"
    using that
  proof (induction idx arbitrary: n m m')
    case (Cons x idx)
    have "\<forall>a. (m'(f x \<mapsto> n)) (f a) = (m(x \<mapsto> n)) a" using Cons.prems f by (auto simp: inj_eq)
    from Cons.IH [OF this] show ?case by simp
  qed simp
  then show ?thesis by (simp add: index_to_local_def)
qed

lemma moved_value_token: "\<forall>a. lo' (f a) = lo a \<Longrightarrow> valTypeToken lo' (moved_val f t) = valTypeToken lo t"
  by (cases t) (simp_all add: ref_token_def)

lemma moved_fields:
  assumes lo: "\<forall>a. lo' (f a) = lo a"
  shows "list_all2 (moved_field f) fs fs' \<Longrightarrow> map (fieldToken lo') fs' = map (fieldToken lo) fs"
  by (induction rule: list_all2_induct) (simp_all add: moved_field_def fieldToken_def moved_value_token [of lo' f lo, OF lo])

lemma moved_token:
  assumes lo: "\<forall>a. lo' (f a) = lo a" and sign: "\<forall>a. 0 \<le> f a \<longleftrightarrow> 0 \<le> a"
  shows "moved f t t' \<Longrightarrow> structuralToken lo' t' = structuralToken lo t"
proof (induction t arbitrary: t')
  case (FuncTypeDef name params results)
  then obtain name' where "t' = FuncTypeDef name' (map (moved_val f) params) (map (moved_val f) results)" by (cases t') auto
  then show ?case by (simp add: moved_value_token [of lo' f lo, OF lo] comp_def)
next
  case (StructTypeDef name fs super final)
  then obtain name' fs' where "t' = StructTypeDef name' fs' (map_option f super) final" "list_all2 (moved_field f) fs fs'"
    by (cases t') auto
  then show ?case using lo sign moved_fields [of lo' f lo, OF lo] by (cases super) (simp_all add: super_token_def)
next
  case (ArrayTypeDef name element mut)
  then show ?case by (cases t') (simp_all add: moved_value_token [of lo' f lo, OF lo])
next
  case (SubTypeDef name super final t)
  then obtain name' u where "t' = SubTypeDef name' (map_option f super) final u" "moved f t u" by (cases t') auto
  then show ?case using SubTypeDef.IH lo by (cases super) (simp_all add: super_token_def)
qed simp

lemma moved_text:
  assumes "list_all2 (moved f) ts ts'" "inj f" "\<forall>a. 0 \<le> f a \<longleftrightarrow> 0 \<le> a"
  shows "group_text ts' (map f idx) = group_text ts idx"
proof (rule group_text_tokens)
  have "\<forall>a. index_to_local (map f idx) (f a) = index_to_local idx a" using index_to_local_moved [OF assms(2)] by blast
  from moved_token [of _ f "index_to_local idx", OF this assms(3)]
  show "list_all2 (\<lambda>t t'. structuralToken (index_to_local (map f idx)) t' = structuralToken (index_to_local idx) t) ts ts'"
    by (rule list_all2_mono [OF assms(1)])
qed

end
