(* ===== verification/Canonical_Properties.thy ===== *)
theory Canonical_Properties
  imports Canonical_Text Emit_Runs
begin

text \<open>
  The properties of the runtime group's fingerprint: the type section of an emitted module is read back group
  by group, and the bytes of a module carry the fingerprint that was taken of the module.
\<close>

section \<open>A module with a runtime group\<close>

definition string_types :: "type_def list" where
  "string_types =
     [ArrayTypeDef (str ''__str_data'') VI16 True,
      StructTypeDef (str ''AnyString'')
        [\<lparr>fd_name = str ''len'', fd_type = VI32 False, fd_mutable = False\<rparr>,
         \<lparr>fd_name = str ''data'', fd_type = VRefNull 0, fd_mutable = True\<rparr>] (Some (- 1)) False]"

definition string_module :: "nat wasm_module" where
  "string_module =
     \<lparr>md_types = string_types, md_imports = [], md_functions = [], md_tables = [], md_tags = [], md_globals = [], md_exports = [],
      md_elements = [], md_funcOrdinalToPosition = [], md_memories = [], md_startFuncIdx = None, md_declaredFuncRefs = [],
      md_dataSegments = [], md_canonicalRuntimeRecGroup = Some (0, 1)\<rparr>"

definition plain_floats :: "nat float_layout" where
  "plain_floats = \<lparr>fl_f64 = (\<lambda>_. replicate 8 0), fl_f32 = (\<lambda>_. replicate 4 0)\<rparr>"

definition string_table :: physical_type_table where
  "string_table = (case indexPhysicalTypes string_types of Inr t \<Rightarrow> t | Inl _ \<Rightarrow> \<lparr>tt_entries = [], tt_recordRanges = [], tt_explicitGroups = []\<rparr>)"

lemma string_layout:
  "indexPhysicalTypes string_types = Inr string_table"
  "planPhysicalTypeSection string_table [(0, 1)] =
     Inr [\<lparr>tg_start = 0, tg_end = 1, tg_recursive = True, tg_explicitRecordIndex = None\<rparr>]"
  by code_simp+

lemma string_module_emitted: "\<exists>bytes. emitBinary True plain_floats string_module = Inr bytes"
proof -
  let ?c = "\<lparr>ec_val = None, ec_layout = Some (resolveLayout string_module)\<rparr>"
  let ?g = "\<lparr>tg_start = 0, tg_end = 1, tg_recursive = True, tg_explicitRecordIndex = None\<rparr> :: type_group"
  have at: "at_where w ?c = ?c" for w by (simp add: at_where_def)
  have defs: "pe_definition (tt_entries string_table ! 0) = string_types ! 0" "pe_definition (tt_entries string_table ! 1) = string_types ! 1"
    by code_simp+
  have group: "put_group ?c string_table ?g =
      [put_byte 0x4e, put_int 2, encodeTypeDef ?c (string_types ! 0), encodeTypeDef ?c (string_types ! 1)]"
    using defs by (simp add: put_group_def at numeral_2_eq_2)
  have types: "put_types ?c string_module = put_section 1 (steps ([put_int 1] @ put_group ?c string_table ?g))"
    using string_layout by (simp add: put_types_def [abs_def] string_module_def from_layout_def forced_groups_def string_types_def del: steps.simps)
  have skip: "succeeds (when_valid ?c chk) 0" for chk by (simp add: when_valid_def [abs_def] succeeds_none)
  have i32: "succeeds (i32 0) 1"
    by (rule succeeds_appends [OF appends_i32]) (simp add: toInt32_id sleb.simps)
  have "succeeds (steps [when_valid ?c (vHeapType 0), put_byte 0x63, i32 0]) (0 + (1 + (1 + 0)))"
    by (intro succeeds_Cons succeeds_Nil succeeds_byte skip i32)
  then have storage: "succeeds (encodeStorageType ?c (VRefNull 0)) 2" "succeeds (encodeStorageType ?c (VI32 False)) 1"
    "succeeds (encodeStorageType ?c VI16) 1"
    using succeeds_byte by (simp_all add: encodeStorageType_def [abs_def] numeral_2_eq_2 del: steps.simps)
  have field: "succeeds (encodeFieldDef ?c f) (n + (1 + 0))" if "succeeds (encodeStorageType ?c (fd_type f)) n" for f n
    unfolding encodeFieldDef_def by (intro succeeds_Cons succeeds_Nil succeeds_byte that)
  have array: "succeeds (encodeTypeDef ?c (string_types ! 0)) (1 + (1 + (1 + 0)))"
    unfolding string_types_def nth_Cons_0 encodeTypeDef.simps by (intro succeeds_Cons succeeds_Nil succeeds_byte storage)
  have struct: "succeeds (encodeTypeDef ?c (string_types ! 1)) (1 + (1 + (1 + ((1 + ((1 + (1 + 0)) + ((2 + (1 + 0)) + 0))) + 0))))"
  proof -
    have def: "string_types ! 1 = StructTypeDef (str ''AnyString'')
        [\<lparr>fd_name = str ''len'', fd_type = VI32 False, fd_mutable = False\<rparr>,
         \<lparr>fd_name = str ''data'', fd_type = VRefNull 0, fd_mutable = True\<rparr>] (Some (- 1)) False"
      by (simp add: string_types_def)
    have vec: "succeeds (put_vector [\<lparr>fd_name = str ''len'', fd_type = VI32 False, fd_mutable = False\<rparr>,
         \<lparr>fd_name = str ''data'', fd_type = VRefNull 0, fd_mutable = True\<rparr>] (encodeFieldDef ?c)) (1 + ((1 + (1 + 0)) + ((2 + (1 + 0)) + 0)))"
      by (rule succeeds_vector) (simp_all only: list.map, intro succeeds_Cons succeeds_Nil field, simp_all add: storage [simplified])
    have neg: "\<not> 0 \<le> (- 1 :: int)" by simp
    show ?thesis unfolding def encodeTypeDef.simps option.case if_not_P [OF neg] append.simps
      by (intro succeeds_Cons succeeds_Nil succeeds_byte succeeds_int vec) simp_all
  qed
  have "succeeds (put_types ?c string_module) (2 + 20)"
    unfolding types group append.simps
    by (rule succeeds_section [OF succeeds_less [OF succeeds_Cons [OF succeeds_int [of 1] succeeds_Cons [OF succeeds_byte
          succeeds_Cons [OF succeeds_int [of 2] succeeds_Cons [OF array succeeds_Cons [OF struct succeeds_Nil]]]]]]]) simp_all
  moreover have "module_sections ?c plain_floats string_module = [put_types ?c string_module]"
    by (simp add: module_sections_def section_if_def string_module_def name_entries_def)
  ultimately have "succeeds (steps (module_sections ?c plain_floats string_module)) (2 + 20 + 0)"
    by (simp only:) (rule succeeds_Cons [OF _ succeeds_Nil])
  from succeeds_append [OF succeeds_Cons [OF succeeds_bytes succeeds_Cons [OF succeeds_bytes succeeds_Nil]] this]
  obtain e where "steps ([put_bytes (Numbers [0x00, 0x61, 0x73, 0x6d]), put_bytes (Numbers [0x01, 0x00, 0x00, 0x00])] @
      module_sections ?c plain_floats string_module) new_encoder = Inr e"
    using new_encoder_ok(1) unfolding succeeds_def by blast
  then show ?thesis by (auto simp: emitBinary_def simp del: steps.simps append.simps)
qed

section \<open>Reading back\<close>

text \<open>C7: the verifier's parser gets the recursion groups of an emitted module back: as many as were planned, each at its place
  in the type index space, explicit or implicit as planned, and with members whose structural tokens are those of the
  module's types without brands.\<close>

theorem type_section_read_back:
  assumes "emitBinary skip fl md = Inr bytes" "md_types md \<noteq> []"
    and "indexPhysicalTypes (md_types md) = Inr table" "planPhysicalTypeSection table (forced_groups md) = Inr groups"
    and "length (tt_entries table) < 2 ^ 31" "list_all (\<lambda>e. single_header (pe_definition e)) (tt_entries table)"
  shows "\<exists>bgs. parseBinaryTypeGroups bytes = Inr bgs \<and> list_all2 (group_reread table) groups bgs"
  using emitted_groups [OF assms(1,3,4,2,5,6)] by metis

lemma string_table_small: "length (tt_entries string_table) < 2 ^ 31" "list_all (\<lambda>e. single_header (pe_definition e)) (tt_entries string_table)"
proof -
  have "length (tt_entries string_table) = 2" by code_simp
  then show "length (tt_entries string_table) < 2 ^ 31" by simp
  show "list_all (\<lambda>e. single_header (pe_definition e)) (tt_entries string_table)" by code_simp
qed

lemma string_module_layout:
  "md_types string_module \<noteq> []" "indexPhysicalTypes (md_types string_module) = Inr string_table"
  "planPhysicalTypeSection string_table (forced_groups string_module) =
     Inr [\<lparr>tg_start = 0, tg_end = 1, tg_recursive = True, tg_explicitRecordIndex = None\<rparr>]"
  using string_layout by (simp_all add: string_module_def string_types_def forced_groups_def)

theorem type_section_read_back_witness:
  "\<exists>bytes b. emitBinary True plain_floats string_module = Inr bytes \<and> parseBinaryTypeGroups bytes = Inr [b] \<and>
     bg_start b = 0 \<and> bg_end b = 1 \<and> bg_recursive b \<and> length (bg_defs b) = 2"
proof -
  let ?g = "\<lparr>tg_start = 0, tg_end = 1, tg_recursive = True, tg_explicitRecordIndex = None\<rparr> :: type_group"
  obtain bytes where bytes: "emitBinary True plain_floats string_module = Inr bytes" using string_module_emitted by blast
  obtain bgs where bgs: "parseBinaryTypeGroups bytes = Inr bgs" "list_all2 (group_reread string_table) [?g] bgs"
    using type_section_read_back [OF bytes string_module_layout string_table_small] by blast
  then obtain b where b: "bgs = [b]" "group_reread string_table ?g b" by (auto simp: list_all2_Cons1)
  then have "list_all2 (\<lambda>i. reread (table_def string_table i)) (group_span ?g) (bg_defs b)" by (simp add: group_reread_def)
  from list_all2_lengthD [OF this] have "length (bg_defs b) = 2" by (simp add: group_span_def)
  with b bytes bgs(1) show ?thesis by (intro exI [of _ bytes] exI [of _ b]) (simp add: group_reread_def)
qed

text \<open>When the runtime types of a module are the members of the group that code generation reserved for them, some
  recursive group of the emitted binary has as many members and the hash of those types without brands.\<close>

lemma runtime_group_emitted:
  assumes "emitBinary skip fl md = Inr bytes" "extractRuntimeGroup md = Inr members"
    and "md_canonicalRuntimeRecGroup md = Some (int s, int e)" "s < e" "map rm_absIndex members = [s ..< e + 1]"
    and "length (concat (map members_of (md_types md))) < 2 ^ 31" "list_all single_header (concat (map members_of (md_types md)))"
  obtains bgs b where "parseBinaryTypeGroups bytes = Inr bgs" "b \<in> set bgs" "bg_recursive b" "length (bg_defs b) = length members"
    "group_hash b = canonicalHashOfTypeGroup (map (\<lambda>m. unbranded (rm_def m)) members) (map (\<lambda>m. int (rm_absIndex m)) members)"
proof -
  obtain table where table: "indexPhysicalTypes (md_types md) = Inr table"
    and ms: "members = List.map_filter runtime_member_of (tt_entries table)"
    using assms(2) by (auto simp: extractRuntimeGroup_def bindE_eq_Inr from_layout_def split: sum.splits)
  have defs: "map pe_definition (tt_entries table) = concat (map members_of (md_types md))"
    using indexPhysicalTypes_ok [OF table] by (simp add: physical_ok_def)
  have "members \<noteq> []" using assms(4,5) by auto
  then have "tt_entries table \<noteq> []" by (auto simp: ms List.map_filter_def)
  then have types: "md_types md \<noteq> []" using defs by auto
  obtain groups where groups: "planPhysicalTypeSection table (forced_groups md) = Inr groups"
    by (rule emitBinary_types [OF assms(1) types]) (use table in auto)
  have small: "length (tt_entries table) < 2 ^ 31" "list_all (\<lambda>e. single_header (pe_definition e)) (tt_entries table)"
    using assms(6,7) unfolding defs [symmetric] by (simp_all add: list_all_iff)
  obtain bgs where bgs: "parseBinaryTypeGroups bytes = Inr bgs" "list_all2 (group_reread table) groups bgs"
    by (rule emitted_groups [OF assms(1) table groups types small])
  obtain refs where "\<forall>(s, e) \<in> set (forced_groups md). \<exists>g \<in> set groups. int (tg_start g) = s \<and> int (tg_end g) = e"
    by (rule plan_facts [OF table groups])
  then obtain g where g: "g \<in> set groups" "tg_start g = s" "tg_end g = e" using assms(3) by (auto simp: forced_groups_def)
  have rec: "tg_recursive g" using tiles_recursive [OF plan_tiles [OF table groups] g(1)] assms(4) g by simp
  obtain b where b: "b \<in> set bgs" "group_reread table g b" using list_all2_partner [OF bgs(2) g(1)] by blast
  have idx: "map rm_absIndex members = group_span g" using assms(5) g by (simp add: group_span_def)
  have "\<forall>m \<in> set members. rm_def m = table_def table (rm_absIndex m)" using member_definitions [OF table] ms by blast
  from group_hash_reread [OF b(2) idx this] that [OF bgs(1) b(1)] b(2) rec show ?thesis by (simp add: group_reread_def)
qed

text \<open>C10: when the runtime types of a module are the members of the group that code generation reserved for them, and carry
  no boolean or bigint brands, the verifier accepts the emitted binary for the module's fingerprint and
  reports its hash and its number of members.\<close>

theorem fingerprint_verified:
  assumes "emitBinary skip fl md = Inr bytes" "extractRuntimeGroup md = Inr members" "fingerprintRuntimeGroup md = Inr fp"
    and "md_canonicalRuntimeRecGroup md = Some (int s, int e)" "s < e" "map rm_absIndex members = [s ..< e + 1]"
    and "length (concat (map members_of (md_types md))) < 2 ^ 31" "list_all single_header (concat (map members_of (md_types md)))"
    and "list_all (\<lambda>m. unbranded (rm_def m) = rm_def m) members"
  shows "gv_valid (verifyRuntimeRecGroupBinary bytes fp) \<and> gv_hash (verifyRuntimeRecGroupBinary bytes fp) = Some (fp_hash fp) \<and>
    gv_count (verifyRuntimeRecGroupBinary bytes fp) = Some (length members)"
proof -
  obtain bgs b where b: "parseBinaryTypeGroups bytes = Inr bgs" "b \<in> set bgs" "bg_recursive b" "length (bg_defs b) = length members"
    and hash: "group_hash b = canonicalHashOfTypeGroup (map (\<lambda>m. unbranded (rm_def m)) members) (map (\<lambda>m. int (rm_absIndex m)) members)"
    by (rule runtime_group_emitted [OF assms(1,2,4-8)])
  have defs: "map (\<lambda>m. unbranded (rm_def m)) members = map rm_def members" using assms(9) by (simp add: list_all_iff)
  have fp: "fp_abiVersion fp = RUNTIME_RECGROUP_ABI_VERSION" "fp_count fp = length members"
    "fp_hash fp = canonicalHashOfTypeGroup (map rm_def members) (map (\<lambda>m. int (rm_absIndex m)) members)"
    using assms(2,3) by (auto simp: fingerprintRuntimeGroup_def)
  obtain v where "verifyRuntimeRecGroupBinary bytes fp = v" "gv_valid v" "gv_hash v = Some (fp_hash fp)" "gv_count v = Some (fp_count fp)"
    by (rule verifier_accepts [OF b(1-3), of fp]) (use b(4) hash defs fp in simp_all)
  then show ?thesis by (simp add: fp)
qed

definition string_members :: "runtime_member list" where
  "string_members = [\<lparr>rm_name = str ''__str_data'', rm_absIndex = 0, rm_def = string_types ! 0\<rparr>,
     \<lparr>rm_name = str ''AnyString'', rm_absIndex = 1, rm_def = string_types ! 1\<rparr>]"

lemma string_module_members: "extractRuntimeGroup string_module = Inr string_members"
  by code_simp

theorem fingerprint_verified_witness:
  "\<exists>bytes fp. emitBinary True plain_floats string_module = Inr bytes \<and> fingerprintRuntimeGroup string_module = Inr fp \<and>
     gv_valid (verifyRuntimeRecGroupBinary bytes fp) \<and> gv_count (verifyRuntimeRecGroupBinary bytes fp) = Some 2"
proof -
  obtain bytes where bytes: "emitBinary True plain_floats string_module = Inr bytes" using string_module_emitted by blast
  obtain fp where fp: "fingerprintRuntimeGroup string_module = Inr fp"
    by (simp add: fingerprintRuntimeGroup_def string_module_members)
  have types: "concat (map members_of (md_types string_module)) = string_types" by code_simp
  have small: "length string_types < 2 ^ 31" "list_all single_header string_types"
    by (simp_all add: string_types_def)
  have group: "md_canonicalRuntimeRecGroup string_module = Some (int 0, int 1)" by (simp add: string_module_def)
  have idx: "map rm_absIndex string_members = [0 ..< 1 + 1]" by code_simp
  have plain: "list_all (\<lambda>m. unbranded (rm_def m) = rm_def m) string_members" by code_simp
  from fingerprint_verified [OF bytes string_module_members fp group _ idx _ _ plain] small bytes fp show ?thesis
    by (simp add: types string_members_def)
qed

section \<open>What the fingerprint says\<close>

text \<open>C11: the hashed texts of two groups are equal exactly when their members have, one by one, the same shape: the same
  supertype within the group, the same finality and the same composite type with references by position. So equal
  shapes have equal hashes, and different shapes are told apart unless FNV-1a collides.\<close>

theorem fingerprint_shapes:
  assumes "group_defs_ok ts" "group_defs_ok ts'"
  shows "group_text ts idx = group_text ts' idx' \<longleftrightarrow>
    map (shape_of (index_to_local idx)) ts = map (shape_of (index_to_local idx')) ts'"
  by (rule group_text_shapes [OF assms])

definition fixed_array_types :: "type_def list" where
  "fixed_array_types = ArrayTypeDef (str ''__str_data'') VI16 False # tl string_types"

theorem fingerprint_shapes_witness:
  "group_text string_types [0, 1] \<noteq> group_text fixed_array_types [0, 1] \<and> group_text string_types [0, 1] \<noteq> group_text string_types [1, 0]"
proof -
  have ok: "group_defs_ok string_types" "group_defs_ok fixed_array_types" by code_simp+
  have "map (shape_of (index_to_local [0, 1])) string_types \<noteq> map (shape_of (index_to_local [0, 1])) fixed_array_types"
    "map (shape_of (index_to_local [0, 1])) string_types \<noteq> map (shape_of (index_to_local [1, 0])) string_types"
    by code_simp+
  with fingerprint_shapes [OF ok, of "[0, 1]" "[0, 1]"] fingerprint_shapes [OF ok(1) ok(1), of "[0, 1]" "[1, 0]"]
  show ?thesis by simp
qed

text \<open>C17: the hash does not depend on type names nor on where a group stands in the type index space: renaming the types of a
  group and mapping all type indices injectively leaves it as it is.\<close>

theorem fingerprint_moves:
  assumes "list_all2 (moved f) ts ts'" "inj f" "\<forall>a. 0 \<le> f a \<longleftrightarrow> 0 \<le> a"
  shows "canonicalHashOfTypeGroup ts' (map f idx) = canonicalHashOfTypeGroup ts idx"
  unfolding canonicalHashOfTypeGroup_def by (rule arg_cong [OF moved_text [OF assms]])

definition later_types :: "type_def list" where
  "later_types =
     [ArrayTypeDef (str ''a'') VI16 True,
      StructTypeDef (str ''b'')
        [\<lparr>fd_name = str ''c'', fd_type = VI32 False, fd_mutable = False\<rparr>,
         \<lparr>fd_name = str ''d'', fd_type = VRefNull 5, fd_mutable = True\<rparr>] (Some (- 1)) False]"

theorem fingerprint_moves_witness:
  "canonicalHashOfTypeGroup later_types [5, 6] = canonicalHashOfTypeGroup string_types [0, 1]"
proof -
  define f where "f = (\<lambda>i :: int. if 0 \<le> i then i + 5 else i)"
  have "inj f" by (rule injI) (auto simp: f_def split: if_splits)
  moreover have "\<forall>a. 0 \<le> f a \<longleftrightarrow> 0 \<le> a" by (simp add: f_def)
  moreover have "list_all2 (moved f) string_types later_types"
    by (simp add: string_types_def later_types_def moved_field_def f_def)
  ultimately have "canonicalHashOfTypeGroup later_types (map f [0, 1]) = canonicalHashOfTypeGroup string_types [0, 1]"
    by (intro fingerprint_moves)
  then show ?thesis by (simp add: f_def)
qed

end
