(* ===== verification/Spec2Isabelle.thy ===== *)
theory Spec2Isabelle
  imports Regex_Properties Regex_Parts Binary_Properties Link_Properties Module_Properties Canonical_Properties
begin

text \<open>
  A verification of the regular expression engine, of the module and object emitters and of the object linker of
  js2, a compiler from JavaScript and TypeScript to WebAssembly. All paths are below \<^verbatim>\<open>src/src/\<close>.

  \<^bold>\<open>The program.\<close> The compiler turns regular expression literals into a bytecode that a small VM runs, in
  generated Wasm and, as the reference implementation, in TypeScript. \<^verbatim>\<open>codegen/regex/\<close> holds that
  implementation: \<^verbatim>\<open>parse.ts\<close> reads a pattern into a tree, asking \<^verbatim>\<open>unicode.ts\<close> and
  \<^verbatim>\<open>unicode-string-properties.ts\<close> for Unicode classes; \<^verbatim>\<open>compile.ts\<close> compiles the tree to the bytecode of
  \<^verbatim>\<open>bytecode.ts\<close>, folding case with \<^verbatim>\<open>casefold.ts\<close>; \<^verbatim>\<open>vm.ts\<close> searches by backtracking under a step budget and falls
  back to the thread lists of \<^verbatim>\<open>linear.ts\<close>; both share \<^verbatim>\<open>match-units.ts\<close>. The code generators build a
  module (\<^verbatim>\<open>wasm/model/\<close>) whose function references are handles (\<^verbatim>\<open>wasm/physical/function-handles.ts\<close>,
  \<^verbatim>\<open>codegen/func-space.ts\<close>) that \<^verbatim>\<open>emit/resolve-layout.ts\<close> turns into indices when the module is written, and whose
  types \<^verbatim>\<open>wasm/physical/type-layout.ts\<close> arranges in recursion groups. \<^verbatim>\<open>emit/binary.ts\<close> writes the module, checking every
  index, with the byte encoder \<^verbatim>\<open>emit/encoder.ts\<close>, accompanied by a source map (\<^verbatim>\<open>emit/sourcemap.ts\<close>);
  \<^verbatim>\<open>emit/object.ts\<close> writes it as a relocatable object, and \<^verbatim>\<open>emit/canonical-recgroup.ts\<close> checks that the runtime types keep
  the same recursion group in every binary. Separately compiled modules are linked by \<^verbatim>\<open>link/\<close>: \<^verbatim>\<open>reader.ts\<close> parses object files, \<^verbatim>\<open>resolver.ts\<close> resolves symbols, \<^verbatim>\<open>isolation.ts\<close>
  reports on what modules can reach of each other, and \<^verbatim>\<open>linker.ts\<close> merges the modules and rewrites their code.

  \<^bold>\<open>Conventions.\<close> A JavaScript string is a list of UTF-16 units, a throwing function returns \<^verbatim>\<open>error + value\<close>,
  objects that are mutated are records passed along, arrays and \<^verbatim>\<open>Uint8Array\<close> are lists (bytes are 8-bit words),
  32-bit arithmetic is done on words, a \<^verbatim>\<open>Map\<close> whose order matters is an association list. Reads out of range,
  which JavaScript answers with \<^verbatim>\<open>undefined\<close>, are explicit options.

  \<^bold>\<open>Foundations.\<close> \<^verbatim>\<open>Js_Prelude\<close> (error monad, partial reads, list lemmas), \<^verbatim>\<open>Js_Strings\<close> (the string functions the
  source uses, code points, splitting and joining), \<^verbatim>\<open>Js_Utf8\<close> (\<^verbatim>\<open>TextEncoder\<close> and \<^verbatim>\<open>TextDecoder\<close> with their round
  trip).

  \<^bold>\<open>Regular expressions, model.\<close>
  \<^item> \<^verbatim>\<open>Re_Bytecode\<close>: opcodes, instruction layout, flags. \<^verbatim>\<open>Re_Match_Units\<close>: class search, assertions, unit tests.
  \<^item> \<^verbatim>\<open>Re_Casefold\<close>: canonical equivalence classes and range folding; \<^verbatim>\<open>toUpperCase\<close> is the parameter \<open>upper\<close>.
  \<^item> \<^verbatim>\<open>Re_Ast\<close>, \<^verbatim>\<open>Re_Emitter\<close>, \<^verbatim>\<open>Re_Compile\<close>: the tree, its analyses, the emitter with its class table, and one
    function per case of the compiler.
  \<^item> \<^verbatim>\<open>Re_Vm\<close>: the VM loop over an explicit backtrack stack and step budget; a lookaround is a nested call and
    \<open>depth\<close> the host stack it may use. \<^verbatim>\<open>Re_Linear\<close>: thread lists and the linear-safety test.
  \<^item> \<^verbatim>\<open>Re_Unicode\<close>, \<^verbatim>\<open>Re_String_Sets\<close>: classes enumerated by the host's own regular expressions and string sets of
    the \<^verbatim>\<open>v\<close> flag; the host and the generated property tables are the parameter \<open>h\<close>.
  \<^item> \<^verbatim>\<open>Re_Parse_Lex\<close>, \<^verbatim>\<open>Re_Parse\<close>: the parser with its cursor, one function per method; recursion consumes
    \<open>depth\<close>, the call stack, and its exhaustion is the host's stack overflow. \<^verbatim>\<open>Re_Pattern\<close>: \<^verbatim>\<open>compilePattern\<close>.

  \<^bold>\<open>Regular expressions, correctness.\<close> \<^verbatim>\<open>Re_Semantics\<close> is the reference: a denotational list-of-matches semantics
  of trees in priority order. \<^verbatim>\<open>Re_Backtrack\<close> relates the VM to an inductive big-step relation,
  \<^verbatim>\<open>Re_Linear_Correct\<close> the thread lists to the same relation; \<^verbatim>\<open>Re_Segments\<close>, \<^verbatim>\<open>Re_Runs\<close>, \<^verbatim>\<open>Re_Compile_Correct\<close>,
  \<^verbatim>\<open>Re_Node_Correct\<close>, \<^verbatim>\<open>Re_Drain\<close> show that compiled code implements the semantics, \<^verbatim>\<open>Re_Outcomes\<close> that matches stay in
  the input, \<^verbatim>\<open>Re_Search\<close> combines them. \<^verbatim>\<open>Re_Parse_Correct\<close> and \<^verbatim>\<open>Re_Grammar\<close> show what the parser returns,
  \<^verbatim>\<open>Re_Set_Algebra\<close> that string sets form a set algebra. \<^verbatim>\<open>Regex_Properties\<close> and \<^verbatim>\<open>Regex_Parts\<close> state the results. The
  search agrees with the semantics on patterns in which no group refers back to itself from inside (\<open>no_self_reference\<close>,
  a condition of each statement); \<^verbatim>\<open>Regex_Properties\<close> computes two patterns without it where it does not.

  \<^bold>\<open>Binary layer and linker.\<close>
  \<^item> \<^verbatim>\<open>Wasm_Encoder\<close>: the growing buffer and its writers, shown to append (\<open>appends\<close>). \<^verbatim>\<open>Wasm_Reader\<close>: the byte
    reader and all section parsers up to \<^verbatim>\<open>parseObject\<close>. \<^verbatim>\<open>Wasm_Codec\<close>: the locale \<open>codec\<close> pairs a writer with its
    reader and is interpreted for integers, names and bytes.
  \<^item> \<^verbatim>\<open>Source_Map\<close>: VLQ, \<^verbatim>\<open>decodeMappings\<close>, \<^verbatim>\<open>generateSourceMap\<close>. \<^verbatim>\<open>Binary_Properties\<close> states the results.
  \<^item> \<^verbatim>\<open>Link_Resolver\<close>, \<^verbatim>\<open>Link_Isolation\<close>, \<^verbatim>\<open>Link_Linker\<close>: the three stages of the linker. \<^verbatim>\<open>Link_Offsets\<close>: the locale
    \<open>index_space\<close>, interpreted for the six index spaces. \<^verbatim>\<open>Link_Rewrite\<close>: rewriting of instruction sequences, for bodies in which only
    the six rewritten instructions contain one of their opcode bytes.
    \<^verbatim>\<open>Link_Codecs\<close>, \<^verbatim>\<open>Link_Merge\<close>: codecs of the section entries and of whole modules. \<^verbatim>\<open>Link_Driver\<close>: the outcome of
    \<^verbatim>\<open>link\<close>. \<^verbatim>\<open>Link_Properties\<close> states the results.

  \<^bold>\<open>Modules and objects.\<close>
  \<^item> \<^verbatim>\<open>Wasm_Module\<close>: the module records, the instruction tree (one constructor per shape of fields, the \<^verbatim>\<open>op\<close> name a
    string) and the iterative walker with its proof against recursive pre-order. Floats are a type parameter.
  \<^item> \<^verbatim>\<open>Func_Handles\<close>: minting, pushing and resolving handles; a step relation of what a compilation does to the handle
    table, with its invariant by rule induction. \<^verbatim>\<open>Type_Layout\<close>: the physical type table and the recursion groups.
  \<^item> \<^verbatim>\<open>Wasm_Opcodes\<close>, \<^verbatim>\<open>Wasm_Emit\<close>, \<^verbatim>\<open>Emit_Binary\<close>: the opcode tables, the encoders of all module parts with their
    index checks, and \<^verbatim>\<open>emitBinary\<close>. \<^verbatim>\<open>Emit_Valid\<close>: the locale \<open>armed_emit\<close>, in which the checking encoder is shown to
    succeed exactly when the other does and all indices of the spaces it covers are in range. \<^verbatim>\<open>Emit_Sections\<close>: the shape of the output.
    \<^verbatim>\<open>Emit_Runs\<close>: rules that show that small modules are written.
  \<^item> \<^verbatim>\<open>Object_Emitter\<close>: \<^verbatim>\<open>emitObject\<close> with its symbols and relocations. \<^verbatim>\<open>Object_Correct\<close> compares its instruction
    encoder with that of \<^verbatim>\<open>Wasm_Emit\<close>, \<^verbatim>\<open>Object_Relocs\<close> shows what relocations and symbols stand for, \<^verbatim>\<open>Object_Reading\<close>
    what the linker's reader sees of them. \<^verbatim>\<open>Module_Properties\<close> states the results.
  \<^item> \<^verbatim>\<open>Canonical_Group\<close>: the structural hash of a recursion group, the fingerprint of the runtime types and the verifier that
    looks for it in a binary, with its own parser of the type section. \<^verbatim>\<open>Canonical_Correct\<close> shows that the parser reads what the
    encoders of types write, up to names and brands, \<^verbatim>\<open>Canonical_Reading\<close> that it finds the planned groups in the bytes of a
    module, \<^verbatim>\<open>Canonical_Text\<close> that the hashed text of a group stands for its shape. The results are in
    \<^verbatim>\<open>Canonical_Properties\<close>, for tables of fewer than \<^verbatim>\<open>2^31\<close> types, since type indices are written as signed 32-bit numbers.

  \<^bold>\<open>Bounds.\<close> The step budget is the source's, \<^verbatim>\<open>regexStepBudget\<close>. The call depth of the VM and of the parser is a
  parameter of every statement; one level per unit of the pattern is enough for the parser, and for the VM
  a sufficient depth and budget exist for every attempt. No other fuel is used: all remaining loops have
  termination proofs. Encodings are stated for lengths and indices below \<^verbatim>\<open>2^32\<close>.

  \<^bold>\<open>Not modelled.\<close> The front end and the code generators (\<^verbatim>\<open>ir/\<close>, \<^verbatim>\<open>codegen/\<close> outside \<^verbatim>\<open>regex/\<close>, \<^verbatim>\<open>codegen-linear/\<close>,
  \<^verbatim>\<open>checker/\<close>), which work on the syntax trees and types of the TypeScript compiler, a third-party package;
  what \<^verbatim>\<open>emit/binary.ts\<close> does besides the bytes (the cache of shared instruction arrays, source positions, dumps);
  \<^verbatim>\<open>emit/wat.ts\<close> and \<^verbatim>\<open>emit/c-header.ts\<close>, which print for people;
  \<^verbatim>\<open>runtime.ts\<close>, which runs in a live JavaScript engine; the command line and file access; generated
  data tables; test hooks.
\<close>

section \<open>Two concrete patterns\<close>

text \<open>\<^verbatim>\<open>/a(b*)/\<close>, and \<^verbatim>\<open>/(?=ab)a/\<close>, whose program is not linear-safe.\<close>

definition sample_pattern :: parsed_regex where
  "sample_pattern =
     \<lparr>root = RConcat [RChar 97, RGroup (RStar (RChar 98) True) (Some 1) None], numCaptures = 1,
      pr_groupNames = []\<rparr>"

definition look_pattern :: parsed_regex where
  "look_pattern =
     \<lparr>root = RConcat [RLookaround (RConcat [RChar 97, RChar 98]) False False, RChar 97], numCaptures = 0,
      pr_groupNames = []\<rparr>"

definition compiled_of :: "parsed_regex \<Rightarrow> nat \<Rightarrow> compiled_regex" where
  "compiled_of p flags =
     (case compileParsed (\<lambda>c. [c]) p flags of
        Inr cr \<Rightarrow> cr
      | Inl _ \<Rightarrow> \<lparr>cr_prog = [], cr_classTable = [], cr_nGroups = 0, cr_nScratch = 0, cr_flags = 0, cr_groupNames = []\<rparr>)"

lemma samples_compile:
  "compileParsed (\<lambda>c. [c]) sample_pattern 0 = Inr (compiled_of sample_pattern 0)"
  "compileParsed (\<lambda>c. [c]) look_pattern 0 = Inr (compiled_of look_pattern 0)"
  by code_simp+

lemma samples_wf:
  "well_formed_regex sample_pattern" "well_formed_regex look_pattern"
  "no_self_reference (root sample_pattern)" "no_self_reference (root look_pattern)"
  by (simp_all add: well_formed_regex_def sample_pattern_def look_pattern_def)

text \<open>The search theorem of \<^verbatim>\<open>Re_Search\<close> with its conditions taken apart.\<close>

lemmas search_of_compiled = compiled_search [OF _ wf_parsedI]

lemma samples_groups:
  "cr_nGroups (compiled_of sample_pattern 0) = 2" "cr_nGroups (compiled_of look_pattern 0) = 1"
  by code_simp+

lemma samples_linear:
  "isLinearSafe (cr_prog (compiled_of sample_pattern 0))" "\<not> isLinearSafe (cr_prog (compiled_of look_pattern 0))"
  by code_simp+

lemma sample_units: "valid_units [99, 97, 98, 98]" by (simp add: valid_units_def)

lemma samples_ref:
  "ref_search (\<lambda>c. [c]) [99, 97, 98, 98] (flags_ctx 0) sample_pattern 0 False = Some [1, 4, 2, 4]"
  "ref_search (\<lambda>c. [c]) [99, 97, 98, 98] (flags_ctx 0) look_pattern 0 False = Some [1, 2]"
  "ref_match (\<lambda>c. [c]) [99, 97, 98, 98] (flags_ctx 0) look_pattern 1 = Some [1, 2]"
  by code_simp+

section \<open>The regular expression engine\<close>

text \<open>In the statements below a tree is \<open>well_formed_regex\<close> when units are in range, class ranges in order, alternations
  non-empty and groups numbered from the outside in, with back references to existing groups; a parsed tree is, as soon as
  its back references point to groups of the tree (\<open>parsed_well_formed\<close>). Each statement also asks that no group refers
  back to itself from inside. The compiler accepts such references, but the virtual machine does not follow the reference
  semantics on them inside a counted quantifier (\<open>self_reference_missed\<close> in \<^verbatim>\<open>Regex_Properties\<close>).\<close>

text \<open>C1: a compiled well-formed pattern, in which no group refers back to itself from inside, is searched exactly when
  its program is linear-safe: for every input of UTF-16
  units, start index and stickiness, however deep the host stack, the hybrid search returns the capture
  vector of the reference semantics, and it neither throws nor gets stuck.\<close>

theorem search_linear_safe_exact:
  assumes "compileParsed upper p flags = Inr cr" "well_formed_regex p" "no_self_reference (root p)" "valid_units input" "isLinearSafe (cr_prog cr)"
  shows "project_result (2 * cr_nGroups cr)
      (search depth (cr_prog cr) (cr_classTable cr) (cr_nGroups cr) input startIdx sticky (cr_nScratch cr)) =
    result_of (ref_search upper input (flags_ctx flags) p (nat (max 0 startIdx)) sticky)"
  using search_of_compiled [OF assms(1-4), of depth startIdx sticky] assms(5) by blast

theorem search_linear_safe_exact_witness:
  "project_result 4 (search 0 (cr_prog (compiled_of sample_pattern 0)) (cr_classTable (compiled_of sample_pattern 0))
      2 [99, 97, 98, 98] 0 False (cr_nScratch (compiled_of sample_pattern 0))) = Matched [1, 4, 2, 4]"
  using search_linear_safe_exact [OF samples_compile(1) samples_wf(1,3) sample_units samples_linear(1), of 0 0 False]
  by (simp add: samples_groups samples_ref)

text \<open>C2: a search of a compiled well-formed pattern in which no group refers back to itself from inside either returns the capture vector of the reference semantics or
  throws the RangeError of an exhausted budget; it never returns another match and never misses one.\<close>

theorem search_sound:
  assumes "compileParsed upper p flags = Inr cr" "well_formed_regex p" "no_self_reference (root p)" "valid_units input"
  shows "project_result (2 * cr_nGroups cr)
      (search depth (cr_prog cr) (cr_classTable cr) (cr_nGroups cr) input startIdx sticky (cr_nScratch cr)) \<in>
    {RangeErr, result_of (ref_search upper input (flags_ctx flags) p (nat (max 0 startIdx)) sticky)}"
  using search_of_compiled [OF assms, of depth startIdx sticky] by auto

theorem search_sound_witness:
  "project_result 2 (search 3 (cr_prog (compiled_of look_pattern 0)) (cr_classTable (compiled_of look_pattern 0))
      1 [99, 97, 98, 98] 0 False (cr_nScratch (compiled_of look_pattern 0))) \<in> {RangeErr, Matched [1, 2]}"
  using search_sound [OF samples_compile(2) samples_wf(2,4) sample_units, of 3 0 False]
  by (simp add: samples_groups samples_ref)

text \<open>C8: the backtracking VM terminates on every compiled well-formed pattern in which no group refers back to itself
  from inside: for each start position there is a
  step budget and a call depth from which on an anchored attempt returns exactly the reference
  answer.\<close>

theorem attempt_enough_budget:
  assumes "compileParsed upper p flags = Inr cr" "well_formed_regex p" "no_self_reference (root p)" "valid_units input" "i \<le> length input"
  shows "\<exists>B d. \<forall>budget \<ge> B. \<forall>depth \<ge> d.
    project_result (2 * cr_nGroups cr)
      (vm_loop (cr_prog cr) (cr_classTable cr) input budget depth budget True 0 i
        (replicate (2 * cr_nGroups cr + cr_nScratch cr) (- 1)) []) =
    result_of (ref_match upper input (flags_ctx flags) p i)"
proof -
  obtain h r where bt: "bt (cr_prog cr) (cr_classTable cr) input True 0 i
      (replicate (2 * cr_nGroups cr + cr_nScratch cr) (- 1)) h r"
    and r: "map_option (take (2 * cr_nGroups cr)) r = ref_match upper input (flags_ctx flags) p i"
    using compiled_trees [OF assms(1) wf_parsedI [OF assms(2,3)] assms(4,5)] by (elim exE conjE)
  obtain k B d where "steps_to (cr_prog cr) (cr_classTable cr) input True 0 i
      (replicate (2 * cr_nGroups cr + cr_nScratch cr) (- 1)) r k B d"
    using bt_steps_to [OF bt] by (elim exE)
  from steps_to_call [OF this] r show ?thesis
    by (intro exI [of _ "max B k"] exI [of _ d]) (simp add: project_result_of)
qed

theorem attempt_enough_budget_witness:
  "\<exists>B d. \<forall>budget \<ge> B. \<forall>depth \<ge> d.
    project_result 2 (vm_loop (cr_prog (compiled_of look_pattern 0)) (cr_classTable (compiled_of look_pattern 0))
        [99, 97, 98, 98] budget depth budget True 0 1
        (replicate (2 + cr_nScratch (compiled_of look_pattern 0)) (- 1)) []) = Matched [1, 2]"
proof -
  have "1 \<le> length [99, 97, 98, 98 :: nat]" by simp
  from attempt_enough_budget [OF samples_compile(2) samples_wf(2,4) sample_units this]
  show ?thesis unfolding samples_groups samples_ref by (simp only: result_of_simps mult_1_right)
qed

text \<open>C26: when no group of the compiled well-formed pattern refers back to itself from inside, the groups of a returned
  match are consistent: the vector has two slots per group, the match
  lies between the requested start and the end of the input, and every group that participated has
  start at most end within the input.\<close>

theorem search_captures_in_range:
  assumes "compileParsed upper p flags = Inr cr" "well_formed_regex p" "no_self_reference (root p)" "valid_units input"
    and "project_result (2 * cr_nGroups cr)
      (search depth (cr_prog cr) (cr_classTable cr) (cr_nGroups cr) input startIdx sticky (cr_nScratch cr)) = Matched c"
  shows "length c = 2 * cr_nGroups cr \<and> startIdx \<le> c ! 0 \<and> 0 \<le> c ! 0 \<and> c ! 0 \<le> c ! 1 \<and> c ! 1 \<le> int (length input) \<and>
    (\<forall>j < cr_nGroups cr. pair_ok input c j)"
proof -
  let ?start = "nat (max 0 startIdx)"
  have "result_of (ref_search upper input (flags_ctx flags) p ?start sticky) = Matched c"
    using search_of_compiled [OF assms(1-4), of depth startIdx sticky] assms(5) by auto
  then have "ref_search upper input (flags_ctx flags) p ?start sticky = Some c"
    by (cases "ref_search upper input (flags_ctx flags) p ?start sticky") simp_all
  note shape = ref_search_shape [OF wf_parsedI [OF assms(2,3)] assms(4) this]
  have "startIdx \<le> int ?start" "0 \<le> int ?start" by simp_all
  with shape show ?thesis using compileParsed_nGroups [OF assms(1)] by auto
qed

theorem search_captures_in_range_witness:
  "pair_ok [99, 97, 98, 98] [1, 4, 2, 4] 1"
proof -
  have "project_result (2 * cr_nGroups (compiled_of sample_pattern 0))
      (search 0 (cr_prog (compiled_of sample_pattern 0)) (cr_classTable (compiled_of sample_pattern 0))
        (cr_nGroups (compiled_of sample_pattern 0)) [99, 97, 98, 98] 0 False
        (cr_nScratch (compiled_of sample_pattern 0))) = Matched [1, 4, 2, 4]"
    using search_of_compiled [OF samples_compile(1) samples_wf(1,3) sample_units, of 0 0 False] samples_linear(1)
    by (simp add: samples_ref)
  from search_captures_in_range [OF samples_compile(1) samples_wf(1,3) sample_units this]
  show ?thesis by (simp add: samples_groups)
qed

text \<open>Compilation fails only on a bounded quantifier past the expansion limit, and then the tree really
  contains one; a tree without such a quantifier compiles, lookaround bodies included.\<close>

theorem compile_error_is_repeat:
  "case compileParsed upper p flags of
     Inl e \<Rightarrow> too_large e \<and> \<not> repeats_ok (root p)
   | Inr cr \<Rightarrow> cr_nGroups cr = numCaptures p + 1 \<and> cr_flags cr = flags \<and> cr_groupNames cr = pr_groupNames p"
  using compileParsed_throws [of upper p flags]
  by (auto simp: compileParsed_def Let_def bindE_eq_Inr split: sum.splits)

end
